(* ===== verification/Prelude.thy ===== *)
theory Prelude
  imports Main "HOL-Library.Word"
begin

text \<open>
  Shared vocabulary of the development: C integer types as words, the errno values the code
  returns, the outcome of a kernel call (it returns, it panics on a failed KASSERT or a NULL
  dereference, or it is still asleep), the \<^verbatim>\<open>sys/tree.h\<close> splay trees as sorted association
  lists, and the lemmas and fact collections that several components use.
\<close>

unbundle bit_operations_syntax

type_synonym u8 = "8 word"
type_synonym u16 = "16 word"
type_synonym u32 = "32 word"
type_synonym u64 = "64 word"

named_theorems drm_defs \<open>definitions of operations, unfolded by component proofs\<close>
named_theorems inv_intros \<open>preservation lemmas of the component invariants\<close>

lemma u32_eq_iff: "(a :: u32) = b \<longleftrightarrow> (\<forall>n<32. bit a n = bit b n)"
  by (auto intro: bit_word_eqI)

lemma u64_eq_iff: "(a :: u64) = b \<longleftrightarrow> (\<forall>n<64. bit a n = bit b n)"
  by (auto intro: bit_word_eqI)

section \<open>Error numbers and outcomes\<close>

text \<open>\<open>E_OK\<close> is the C return value 0; the others are the errno constants the sources use.\<close>

datatype errno =
    E_OK | EPERM | ENOENT | EINTR | EIO | ENXIO | EBADF | EAGAIN | ENOMEM | EACCES | EFAULT
  | EBUSY | ENODEV | EINVAL | ENOTTY | ENOSPC | ERESTART | EWOULDBLOCK | EFBIG

text \<open>
  \<open>Panic\<close> stands for a failed KASSERT or a dereference of NULL, \<open>Asleep\<close> for a call that is
  still waiting on a condition variable when the list of wake-ups it was given is used up.
\<close>

datatype 'a outcome = Ret 'a | Panic | Asleep

fun obind :: "'a outcome \<Rightarrow> ('a \<Rightarrow> 'b outcome) \<Rightarrow> 'b outcome" where
  "obind (Ret x) f = f x"
| "obind Panic f = Panic"
| "obind Asleep f = Asleep"

lemma obind_eq_Ret: "obind m f = Ret y \<longleftrightarrow> (\<exists>x. m = Ret x \<and> f x = Ret y)"
  by (cases m) auto

lemma obind_assoc: "obind (obind m f) g = obind m (\<lambda>x. obind (f x) g)"
  by (cases m) auto

lemma obind_Ret_right [simp]: "obind m Ret = m"
  by (cases m) auto

lemma obind_eq_Panic: "obind m f = Panic \<longleftrightarrow> m = Panic \<or> (\<exists>x. m = Ret x \<and> f x = Panic)"
  by (cases m) auto

lemma obind_neq_Panic: "m \<noteq> Panic \<Longrightarrow> (\<And>x. m = Ret x \<Longrightarrow> f x \<noteq> Panic) \<Longrightarrow> obind m f \<noteq> Panic"
  by (cases m) auto

text \<open>
  A sleep of the code (\<^verbatim>\<open>cv_wait_sig\<close>, \<^verbatim>\<open>tsleep\<close>) returns an errno after the rest of the
  system has run; one element of the list is one return from sleep.
\<close>

type_synonym 'd sleeps = "(errno \<times> ('d \<Rightarrow> 'd)) list"

section \<open>Splay trees as sorted association lists\<close>

text \<open>
  \<^verbatim>\<open>SPLAY_FIND\<close> is \<open>map_of\<close>; \<^verbatim>\<open>SPLAY_INSERT\<close> keeps an existing element of the same key and
  then reports it (non-NULL); \<^verbatim>\<open>SPLAY_FOREACH\<close> visits the elements in key order, which is the
  order of the list.
\<close>

type_synonym ('k, 'v) splay = "('k \<times> 'v) list"

fun sp_insert :: "'k::linorder \<Rightarrow> 'v \<Rightarrow> ('k, 'v) splay \<Rightarrow> ('k, 'v) splay" where
  "sp_insert k v [] = [(k, v)]"
| "sp_insert k v ((a, w) # t) =
     (if k < a then (k, v) # (a, w) # t
      else if k = a then (a, w) # t
      else (a, w) # sp_insert k v t)"

definition sp_remove :: "'k \<Rightarrow> ('k, 'v) splay \<Rightarrow> ('k, 'v) splay" where
  "sp_remove k t = filter (\<lambda>(a, w). a \<noteq> k) t"

fun sp_update :: "'k \<Rightarrow> ('v \<Rightarrow> 'v) \<Rightarrow> ('k, 'v) splay \<Rightarrow> ('k, 'v) splay" where
  "sp_update k f [] = []"
| "sp_update k f ((a, w) # t) = (if a = k then (a, f w) # t else (a, w) # sp_update k f t)"

definition sp_wf :: "('k::linorder, 'v) splay \<Rightarrow> bool" where
  "sp_wf t \<longleftrightarrow> sorted_wrt (<) (map fst t)"

lemma sp_wf_Nil [simp]: "sp_wf []"
  by (simp add: sp_wf_def)

lemma sp_wf_Cons: "sp_wf ((a, w) # t) \<longleftrightarrow> (\<forall>x\<in>fst ` set t. a < x) \<and> sp_wf t"
  by (auto simp: sp_wf_def)

lemma sp_wf_distinct: "sp_wf t \<Longrightarrow> distinct (map fst t)"
  by (auto simp: sp_wf_def strict_sorted_iff)

lemma fst_set_sp_insert [simp]: "fst ` set (sp_insert k v t) = insert k (fst ` set t)"
  by (induction k v t rule: sp_insert.induct) auto

lemma sp_wf_insert [simp]: "sp_wf t \<Longrightarrow> sp_wf (sp_insert k v t)"
  by (induction k v t rule: sp_insert.induct) (auto simp: sp_wf_Cons)

lemma map_of_sp_insert_new:
  "sp_wf t \<Longrightarrow> map_of t k = None \<Longrightarrow> map_of (sp_insert k v t) = (map_of t)(k \<mapsto> v)"
  by (induction k v t rule: sp_insert.induct) (auto simp: sp_wf_Cons fun_eq_iff split: if_splits)

lemma map_of_sp_insert_old:
  "sp_wf t \<Longrightarrow> map_of t k = Some w \<Longrightarrow> sp_insert k v t = t"
  by (induction k v t rule: sp_insert.induct) (force simp: sp_wf_Cons split: if_splits dest: map_of_SomeD)+

lemma length_sp_insert:
  "sp_wf t \<Longrightarrow> length (sp_insert k v t) = (if map_of t k = None then Suc (length t) else length t)"
  by (induction k v t rule: sp_insert.induct)
    (auto simp: sp_wf_Cons map_of_eq_None_iff split: if_splits)

lemma map_of_filter_fst: "map_of (filter (\<lambda>(a, w). P a) t) k = (if P k then map_of t k else None)"
  by (induction t) auto

lemma map_of_sp_remove [simp]: "map_of (sp_remove k t) = (map_of t)(k := None)"
  by (auto simp: sp_remove_def map_of_filter_fst fun_eq_iff)

lemma sp_wf_remove [simp]: "sp_wf t \<Longrightarrow> sp_wf (sp_remove k t)"
  by (induction t) (auto simp: sp_wf_Cons sp_remove_def)

lemma sp_remove_Nil [simp]: "sp_remove k [] = []"
  by (simp add: sp_remove_def)

lemma set_sp_remove: "set (sp_remove k t) = {x \<in> set t. fst x \<noteq> k}"
  by (auto simp: sp_remove_def)

lemma map_fst_sp_update [simp]: "map fst (sp_update k f t) = map fst t"
  by (induction k f t rule: sp_update.induct) auto

lemma sp_wf_update [simp]: "sp_wf (sp_update k f t) = sp_wf t"
  by (simp add: sp_wf_def)

lemma map_of_sp_update [simp]:
  "map_of (sp_update k f t) = (map_of t)(k := map_option f (map_of t k))"
  by (induction k f t rule: sp_update.induct) (auto simp: fun_eq_iff)

lemma sp_update_absent: "map_of t k = None \<Longrightarrow> sp_update k f t = t"
  by (induction k f t rule: sp_update.induct) (auto split: if_splits)

lemma set_sp_update:
  "distinct (map fst t) \<Longrightarrow> map_of t k = Some v \<Longrightarrow>
   set (sp_update k f t) = insert (k, f v) {x \<in> set t. fst x \<noteq> k}"
  by (induction k f t rule: sp_update.induct) (force split: if_splits)+

end
