(* ===== verification/Drm_Lock.thy ===== *)
theory Drm_Lock
  imports Prelude
begin

text \<open>
  The heavyweight hardware lock of \<^verbatim>\<open>drm_lock.c\<close>, with the user-space fast path of libdrm's
  \<^verbatim>\<open>xf86drm.h\<close>: the lock word, the take, free, lock and unlock operations of the kernel, and a
  step relation of clients that take and release the lock through both paths.
\<close>

section \<open>The lock word\<close>

definition DRM_LOCK_HELD :: u32 where "DRM_LOCK_HELD = 0x80000000"
definition DRM_LOCK_CONT :: u32 where "DRM_LOCK_CONT = 0x40000000"
definition DRM_KERNEL_CONTEXT :: u32 where "DRM_KERNEL_CONTEXT = 0"

definition lock_is_held :: "u32 \<Rightarrow> bool" where
  "lock_is_held w \<longleftrightarrow> w AND DRM_LOCK_HELD \<noteq> 0"

definition lock_is_cont :: "u32 \<Rightarrow> bool" where
  "lock_is_cont w \<longleftrightarrow> w AND DRM_LOCK_CONT \<noteq> 0"

definition locking_context :: "u32 \<Rightarrow> u32" where
  "locking_context w = w AND NOT (DRM_LOCK_HELD OR DRM_LOCK_CONT)"

text \<open>A context number the context bitmap hands out: not the kernel's, and clear of the flag bits.\<close>

definition user_context :: "u32 \<Rightarrow> bool" where
  "user_context c \<longleftrightarrow> c \<noteq> DRM_KERNEL_CONTEXT \<and> locking_context c = c"

text \<open>
  \<open>hw_lock\<close> is the word the SAREA pointer refers to (\<open>None\<close> for a NULL pointer), \<open>lk_file_priv\<close>
  the file that holds it, named by its minor; \<open>lk_broadcasts\<close> counts the \<^verbatim>\<open>cv_broadcast\<close>s.
\<close>

record drm_lock_data =
  hw_lock :: "u32 option"
  lk_file_priv :: "int option"
  lk_broadcasts :: nat

record lock_dev =
  lock :: drm_lock_data

section \<open>Compare-and-set loops\<close>

text \<open>
  \<^verbatim>\<open>do { old = *lock; new = f(old); } while (!atomic_cmpset_int(lock, old, new))\<close>: the list
  holds the values other processors have put into the word by the time of each
  compare-and-set; the result is the pair of \<open>old\<close> and the \<open>new\<close> that was stored.
\<close>

fun cas_loop :: "('w \<Rightarrow> 'w) \<Rightarrow> 'w list \<Rightarrow> 'w \<Rightarrow> 'w \<times> 'w" where
  "cas_loop f [] cur = (cur, f cur)"
| "cas_loop f (w # ws) cur = (if w = cur then (cur, f cur) else cas_loop f ws w)"

lemma cas_loop_linearizes: "\<exists>w\<in>set (cur # ws). cas_loop f ws cur = (w, f w)"
  by (induction f ws cur rule: cas_loop.induct) auto

section \<open>Kernel operations\<close>

definition take_word :: "u32 \<Rightarrow> u32 \<Rightarrow> u32" where
  "take_word context old =
     (if lock_is_held old then old OR DRM_LOCK_CONT else context OR DRM_LOCK_HELD)"

definition drm_lock_take :: "drm_lock_data \<Rightarrow> u32 \<Rightarrow> u32 list \<Rightarrow> (bool \<times> drm_lock_data) outcome" where
  "drm_lock_take ld context ws =
     (case hw_lock ld of
        None \<Rightarrow> Panic
      | Some cur \<Rightarrow>
          let (old, new) = cas_loop (take_word context) ws cur;
              ld' = ld\<lparr>hw_lock := Some new\<rparr>
          in if locking_context old = context \<and> lock_is_held old then Ret (False, ld')
             else Ret (\<not> lock_is_held old, ld'))"

text \<open>The result is the C return value: 1 (\<open>True\<close>) when the word was held by another context.\<close>

definition drm_lock_free :: "drm_lock_data \<Rightarrow> u32 \<Rightarrow> u32 list \<Rightarrow> (bool \<times> drm_lock_data) outcome" where
  "drm_lock_free ld context ws =
     (case hw_lock ld of
        None \<Rightarrow> Panic
      | Some cur \<Rightarrow>
          let (old, new) = cas_loop (\<lambda>_. 0) ws cur;
              ld' = ld\<lparr>lk_file_priv := None, hw_lock := Some new\<rparr>
          in if lock_is_held old \<and> locking_context old \<noteq> context then Ret (True, ld')
             else Ret (False, ld'\<lparr>lk_broadcasts := Suc (lk_broadcasts ld')\<rparr>))"

text \<open>
  \<^verbatim>\<open>drm_lock\<close>: one element of the list per turn of the \<^verbatim>\<open>for (;;)\<close>: the interference seen by the
  compare-and-set, and what \<^verbatim>\<open>cv_wait_sig\<close> returns after the others have run.
\<close>

fun drm_lock_wait ::
  "(u32 list \<times> errno \<times> ('a lock_dev_scheme \<Rightarrow> 'a lock_dev_scheme)) list \<Rightarrow> u32 \<Rightarrow> int \<Rightarrow>
   'a lock_dev_scheme \<Rightarrow> (errno \<times> 'a lock_dev_scheme) outcome" where
  "drm_lock_wait [] context file_priv d = Asleep"
| "drm_lock_wait ((ws, ret, env) # turns) context file_priv d =
     obind (drm_lock_take (lock d) context ws) (\<lambda>(got, ld).
       if got then Ret (E_OK, d\<lparr>lock := ld\<lparr>lk_file_priv := Some file_priv\<rparr>\<rparr>)
       else let d' = env (d\<lparr>lock := ld\<rparr>)
            in if ret \<noteq> E_OK then Ret (ret, d') else drm_lock_wait turns context file_priv d')"

definition drm_lock ::
  "(u32 list \<times> errno \<times> ('a lock_dev_scheme \<Rightarrow> 'a lock_dev_scheme)) list \<Rightarrow> u32 \<Rightarrow> int \<Rightarrow>
   'a lock_dev_scheme \<Rightarrow> (errno \<times> 'a lock_dev_scheme) outcome" where
  "drm_lock turns context file_priv d =
     (if context = DRM_KERNEL_CONTEXT then Ret (EINVAL, d)
      else drm_lock_wait turns context file_priv d)"

definition drm_unlock ::
  "u32 list \<Rightarrow> u32 \<Rightarrow> 'a lock_dev_scheme \<Rightarrow> (errno \<times> 'a lock_dev_scheme) outcome" where
  "drm_unlock ws context d =
     (if context = DRM_KERNEL_CONTEXT then Ret (EINVAL, d)
      else case hw_lock (lock d) of
        None \<Rightarrow> Panic
      | Some w \<Rightarrow>
          if \<not> lock_is_held w \<or> locking_context w \<noteq> context then Ret (EINVAL, d)
          else obind (drm_lock_free (lock d) context ws) (\<lambda>(_, ld). Ret (E_OK, d\<lparr>lock := ld\<rparr>)))"

section \<open>The user-space fast path\<close>

text \<open>
  libdrm's \<^verbatim>\<open>DRM_CAS\<close> returns nonzero when the compare failed; the macros then call the kernel.
  The second component tells whether the fast path was enough.
\<close>

definition DRM_CAS :: "u32 \<Rightarrow> u32 \<Rightarrow> u32 \<Rightarrow> u32 \<times> bool" where
  "DRM_CAS word old new = (if word = old then (new, False) else (word, True))"

definition light_lock :: "u32 \<Rightarrow> u32 \<Rightarrow> u32 \<times> bool" where
  "light_lock word context = DRM_CAS word context (DRM_LOCK_HELD OR context)"

definition light_unlock :: "u32 \<Rightarrow> u32 \<Rightarrow> u32 \<times> bool" where
  "light_unlock word context = DRM_CAS word (DRM_LOCK_HELD OR context) context"

lemmas lock_word_defs = DRM_LOCK_HELD_def DRM_LOCK_CONT_def DRM_KERNEL_CONTEXT_def
  lock_is_held_def lock_is_cont_def locking_context_def

section \<open>Facts about the word\<close>

lemma bit_DRM_LOCK_HELD: "bit DRM_LOCK_HELD n \<longleftrightarrow> n = 31"
proof -
  have "(0x80000000 :: u32) = 2 ^ 31" by simp
  then show ?thesis unfolding DRM_LOCK_HELD_def by (simp only: bit_exp_iff) auto
qed

lemma bit_DRM_LOCK_CONT: "bit DRM_LOCK_CONT n \<longleftrightarrow> n = 30"
proof -
  have "(0x40000000 :: u32) = 2 ^ 30" by simp
  then show ?thesis unfolding DRM_LOCK_CONT_def by (simp only: bit_exp_iff) auto
qed

lemma lock_is_held_bit: "lock_is_held w \<longleftrightarrow> bit w 31"
  by (auto simp: lock_is_held_def u32_eq_iff bit_and_iff bit_DRM_LOCK_HELD)

lemma lock_is_cont_bit: "lock_is_cont w \<longleftrightarrow> bit w 30"
  by (auto simp: lock_is_cont_def u32_eq_iff bit_and_iff bit_DRM_LOCK_CONT)

lemma bit_locking_context: "n < 32 \<Longrightarrow> bit (locking_context w) n \<longleftrightarrow> bit w n \<and> n < 30"
  by (auto simp: locking_context_def bit_and_iff bit_not_iff bit_or_iff bit_DRM_LOCK_HELD
      bit_DRM_LOCK_CONT)

lemma user_context_bits:
  assumes "user_context c" shows "\<not> bit c 30" "\<not> bit c 31"
  using assms bit_locking_context[of 30 c] bit_locking_context[of 31 c]
  by (auto simp: user_context_def)

lemma held_word_facts [simp]:
  "lock_is_held (DRM_LOCK_HELD OR w)" "lock_is_held (w OR DRM_LOCK_HELD)"
  "lock_is_held (w OR DRM_LOCK_CONT) = lock_is_held w"
  "lock_is_cont (w OR DRM_LOCK_CONT)" "\<not> lock_is_held 0"
  by (simp_all add: lock_is_held_bit lock_is_cont_bit bit_or_iff bit_DRM_LOCK_HELD bit_DRM_LOCK_CONT)

lemma locking_context_or [simp]:
  "locking_context (w OR DRM_LOCK_CONT) = locking_context w"
  "locking_context (w OR DRM_LOCK_HELD) = locking_context w"
  "locking_context (DRM_LOCK_HELD OR w) = locking_context w"
  by (auto simp: u32_eq_iff bit_locking_context bit_or_iff bit_DRM_LOCK_HELD bit_DRM_LOCK_CONT)

lemma user_context_not_held: "user_context c \<Longrightarrow> \<not> lock_is_held c \<and> \<not> lock_is_cont c"
  by (simp add: user_context_bits lock_is_held_bit lock_is_cont_bit)

end
