(* ===== verification/Lock_Protocol.thy ===== *)
theory Lock_Protocol
  imports Drm_Lock
begin

text \<open>
  Clients of the heavyweight lock as a step relation: each step is one linearised operation of
  \<^verbatim>\<open>drm_lock.c\<close> or of libdrm's fast path. \<open>inside\<close> are the contexts that believe they hold the
  lock, \<open>dozing\<close> those that sleep in \<^verbatim>\<open>drm_lock\<close>.
\<close>

record lock_sys =
  l_data :: drm_lock_data
  inside :: "u32 set"
  dozing :: "u32 set"

definition init_lock_sys :: lock_sys where
  "init_lock_sys = \<lparr>l_data = \<lparr>hw_lock = Some 0, lk_file_priv = None, lk_broadcasts = 0\<rparr>,
     inside = {}, dozing = {}\<rparr>"

text \<open>The sleepers that remain when the lock data goes from \<open>l\<close> to \<open>l'\<close>: none after a broadcast.\<close>

definition still_dozing :: "drm_lock_data \<Rightarrow> drm_lock_data \<Rightarrow> u32 set \<Rightarrow> u32 set" where
  "still_dozing l l' W = (if lk_broadcasts l < lk_broadcasts l' then {} else W)"

inductive client_step :: "lock_sys \<Rightarrow> lock_sys \<Rightarrow> bool" where
  fast_lock:
    "user_context c \<Longrightarrow> hw_lock (l_data s) = Some w \<Longrightarrow> light_lock w c = (w', False) \<Longrightarrow>
     client_step s (s\<lparr>l_data := (l_data s)\<lparr>hw_lock := Some w'\<rparr>, inside := insert c (inside s)\<rparr>)"
| kernel_take:
    "user_context c \<Longrightarrow> drm_lock_take (l_data s) c [] = Ret (True, l') \<Longrightarrow>
     client_step s (s\<lparr>l_data := l'\<lparr>lk_file_priv := Some f\<rparr>, inside := insert c (inside s)\<rparr>)"
| kernel_sleep:
    "user_context c \<Longrightarrow> drm_lock_take (l_data s) c [] = Ret (False, l') \<Longrightarrow>
     client_step s (s\<lparr>l_data := l', dozing := insert c (dozing s)\<rparr>)"
| interrupted:
    "client_step s (s\<lparr>dozing := dozing s - {c}\<rparr>)"
| fast_unlock:
    "c \<in> inside s \<Longrightarrow> hw_lock (l_data s) = Some w \<Longrightarrow> light_unlock w c = (w', False) \<Longrightarrow>
     client_step s (s\<lparr>l_data := (l_data s)\<lparr>hw_lock := Some w'\<rparr>, inside := inside s - {c}\<rparr>)"
| kernel_unlock:
    "drm_unlock [] c \<lparr>lock = l_data s\<rparr> = Ret (e, d') \<Longrightarrow>
     client_step s (s\<lparr>l_data := lock d',
                      inside := (if e = E_OK then inside s - {c} else inside s),
                      dozing := still_dozing (l_data s) (lock d') (dozing s)\<rparr>)"

inductive_cases client_stepE: "client_step s t"

inductive lock_reachable :: "lock_sys \<Rightarrow> bool" where
  lr_init: "lock_reachable init_lock_sys"
| lr_step: "lock_reachable s \<Longrightarrow> client_step s t \<Longrightarrow> lock_reachable t"

text \<open>
  The word and the clients agree: a held word names the one client inside; when the lock is free
  nobody is inside; and a sleeper implies that the word is held and marked contended, so that the
  holder's fast unlock cannot succeed.
\<close>

definition lock_inv :: "lock_sys \<Rightarrow> bool" where
  "lock_inv s \<longleftrightarrow> (\<exists>w. hw_lock (l_data s) = Some w \<and>
     (if lock_is_held w then user_context (locking_context w) \<and> inside s = {locking_context w}
      else inside s = {}) \<and>
     (dozing s \<noteq> {} \<longrightarrow> lock_is_held w \<and> lock_is_cont w))"

lemma take_word_cases:
  "drm_lock_take l c [] = Ret (b, l') \<Longrightarrow>
   \<exists>w. hw_lock l = Some w \<and> b = (\<not> lock_is_held w) \<and> l' = l\<lparr>hw_lock := Some (take_word c w)\<rparr>"
  by (auto simp: drm_lock_take_def Let_def split: option.splits if_splits)

lemma free_word_cases:
  "drm_unlock [] c \<lparr>lock = l\<rparr> = Ret (e, d') \<Longrightarrow>
   (e = EINVAL \<and> lock d' = l) \<or>
   (\<exists>w. e = E_OK \<and> hw_lock l = Some w \<and> lock_is_held w \<and> locking_context w = c \<and>
        lock d' = l\<lparr>lk_file_priv := None, hw_lock := Some 0, lk_broadcasts := Suc (lk_broadcasts l)\<rparr>)"
  by (auto simp: drm_unlock_def drm_lock_free_def Let_def split: option.splits if_splits)

lemma light_lock_ok: "light_lock w c = (w', False) \<longleftrightarrow> w = c \<and> w' = DRM_LOCK_HELD OR c"
  by (auto simp: light_lock_def DRM_CAS_def split: if_splits)

lemma light_unlock_ok: "light_unlock w c = (w', False) \<longleftrightarrow> w = DRM_LOCK_HELD OR c \<and> w' = c"
  by (auto simp: light_unlock_def DRM_CAS_def split: if_splits)

lemma user_context_held_not_cont: "user_context c \<Longrightarrow> \<not> lock_is_cont (DRM_LOCK_HELD OR c)"
  by (simp add: lock_is_cont_bit bit_or_iff bit_DRM_LOCK_HELD user_context_bits)

lemma user_context_locking [simp]: "user_context c \<Longrightarrow> locking_context c = c"
  by (simp add: user_context_def)

lemma lock_inv_init: "lock_inv init_lock_sys"
  by (simp add: lock_inv_def init_lock_sys_def)

lemma lock_inv_step: "client_step s t \<Longrightarrow> lock_inv s \<Longrightarrow> lock_inv t"
proof (induction rule: client_step.induct)
  case (fast_lock c s w w')
  then show ?case
    by (auto simp: lock_inv_def light_lock_ok dest: user_context_not_held)
next
  case (kernel_take c s l' f)
  then show ?case
    by (auto simp: lock_inv_def take_word_def dest!: take_word_cases)
next
  case (kernel_sleep c s l')
  then show ?case
    by (auto simp: lock_inv_def take_word_def dest!: take_word_cases)
next
  case (interrupted s c)
  then show ?case by (auto simp: lock_inv_def)
next
  case (fast_unlock c s w w')
  then have w: "w = DRM_LOCK_HELD OR c" "w' = c" by (auto simp: light_unlock_ok)
  with fast_unlock have c: "user_context c" "inside s = {c}"
    by (auto simp: lock_inv_def split: if_splits)
  with fast_unlock w show ?case
    by (auto simp: lock_inv_def user_context_not_held user_context_held_not_cont)
next
  case (kernel_unlock c s e d')
  then show ?case
    by (auto simp: lock_inv_def still_dozing_def dest!: free_word_cases)
qed

lemma reachable_lock_inv: "lock_reachable s \<Longrightarrow> lock_inv s"
  by (induction rule: lock_reachable.induct) (auto intro: lock_inv_init lock_inv_step)

text \<open>
  C3: in every state the clients can reach, at most one context is inside the lock, and the lock
  word is then held with that context's number.
\<close>

theorem lock_mutual_exclusion:
  assumes "lock_reachable s" and "c \<in> inside s" and "c' \<in> inside s"
  shows "c = c' \<and> (\<exists>w. hw_lock (l_data s) = Some w \<and> lock_is_held w \<and> locking_context w = c)"
  using reachable_lock_inv[OF assms(1)] assms(2,3)
  by (auto simp: lock_inv_def split: if_splits)

lemma reachable_fast_locked:
  "lock_reachable (init_lock_sys\<lparr>l_data := (l_data init_lock_sys)\<lparr>hw_lock := Some 0x80000001\<rparr>\<lparr>lk_file_priv := Some f\<rparr>,
     inside := {1}\<rparr>)"
proof -
  have "client_step init_lock_sys (init_lock_sys\<lparr>l_data := ((l_data init_lock_sys)\<lparr>hw_lock := Some 0x80000001\<rparr>)
      \<lparr>lk_file_priv := Some f\<rparr>, inside := insert 1 (inside init_lock_sys)\<rparr>)"
    by (rule client_step.kernel_take)
      (simp_all add: init_lock_sys_def drm_lock_take_def take_word_def user_context_def lock_word_defs)
  from lr_step[OF lr_init this] show ?thesis by (simp add: init_lock_sys_def)
qed

theorem lock_mutual_exclusion_witness:
  "\<exists>s w. lock_reachable s \<and> 1 \<in> inside s \<and> hw_lock (l_data s) = Some w \<and> locking_context w = 1"
  using lock_mutual_exclusion[OF reachable_fast_locked[of 0], of 1 1] reachable_fast_locked[of 0] by fastforce

text \<open>
  C4: no wake-up is lost: while some client sleeps in \<^verbatim>\<open>drm_lock\<close>, the one client inside cannot
  leave by the fast path, and its kernel unlock succeeds, frees the word and broadcasts.
\<close>

theorem lock_no_lost_wakeup:
  assumes "lock_reachable s" and "x \<in> dozing s"
  shows "\<exists>c w. inside s = {c} \<and> hw_lock (l_data s) = Some w \<and> snd (light_unlock w c) \<and>
    (\<exists>d'. drm_unlock [] c \<lparr>lock = l_data s\<rparr> = Ret (E_OK, d') \<and> hw_lock (lock d') = Some 0 \<and>
          lk_broadcasts (lock d') = Suc (lk_broadcasts (l_data s)))"
proof -
  from reachable_lock_inv[OF assms(1)] assms(2) obtain w where
    w: "hw_lock (l_data s) = Some w" "lock_is_held w" "lock_is_cont w"
      "user_context (locking_context w)" "inside s = {locking_context w}"
    by (auto simp: lock_inv_def split: if_splits)
  then have "w \<noteq> DRM_LOCK_HELD OR locking_context w"
    using user_context_held_not_cont by metis
  then have "snd (light_unlock w (locking_context w))"
    by (simp add: light_unlock_def DRM_CAS_def)
  moreover have "\<exists>d'. drm_unlock [] (locking_context w) \<lparr>lock = l_data s\<rparr> = Ret (E_OK, d') \<and>
      hw_lock (lock d') = Some 0 \<and> lk_broadcasts (lock d') = Suc (lk_broadcasts (l_data s))"
    using w by (simp add: drm_unlock_def drm_lock_free_def user_context_def)
  ultimately show ?thesis using w by blast
qed

theorem lock_no_lost_wakeup_witness:
  "\<exists>s. lock_reachable s \<and> dozing s = {2} \<and> inside s = {1} \<and> (\<exists>c. inside s = {c})"
proof -
  let ?s = "init_lock_sys\<lparr>l_data := (l_data init_lock_sys)\<lparr>hw_lock := Some 0x80000001\<rparr>\<lparr>lk_file_priv := Some 0\<rparr>,
     inside := {1}\<rparr>"
  let ?t = "?s\<lparr>l_data := (l_data ?s)\<lparr>hw_lock := Some 0xC0000001\<rparr>, dozing := insert 2 (dozing ?s)\<rparr>"
  have "client_step ?s ?t"
    by (rule client_step.kernel_sleep)
      (simp_all add: init_lock_sys_def drm_lock_take_def take_word_def user_context_def lock_word_defs)
  then have t: "lock_reachable ?t" by (rule lr_step[OF reachable_fast_locked])
  have x: "2 \<in> dozing ?t" by (simp add: init_lock_sys_def)
  from t lock_no_lost_wakeup[OF t x] show ?thesis
    by (intro exI[of _ ?t]) (auto simp: init_lock_sys_def)
qed

end
