(* ===== verification/Drm_Atomic.thy ===== *)
theory Drm_Atomic
  imports Prelude
begin

text \<open>
  The bit arrays of \<^verbatim>\<open>drm_atomic.h\<close>: an array of 32-bit words with set, clear, test and the search
  for the first clear bit. The search is a loop without a bound of its own, so its model may fail
  to return; it does return on every array that covers the range searched.
\<close>

section \<open>Operations\<close>

definition clear_bit :: "nat \<Rightarrow> u32 list \<Rightarrow> u32 list" where
  "clear_bit b p = p[b div 32 := p ! (b div 32) AND NOT (push_bit (b mod 32) 1)]"

definition set_bit_arr :: "nat \<Rightarrow> u32 list \<Rightarrow> u32 list" where
  "set_bit_arr b p = p[b div 32 := p ! (b div 32) OR push_bit (b mod 32) 1]"

definition test_bit_arr :: "nat \<Rightarrow> u32 list \<Rightarrow> bool" where
  "test_bit_arr b p \<longleftrightarrow> p ! (b div 32) AND push_bit (b mod 32) 1 \<noteq> 0"

text \<open>The inner \<^verbatim>\<open>for (;;)\<close> of the search, then the outer loop over the words.\<close>

partial_function (option) scan_zero :: "u32 list \<Rightarrow> nat \<Rightarrow> nat option" where
  "scan_zero p b =
     (if p ! (b div 32) AND push_bit (b mod 32) 1 = 0 then Some b else scan_zero p (Suc b))"

function find_zero_from :: "u32 list \<Rightarrow> nat \<Rightarrow> nat \<Rightarrow> nat option" where
  "find_zero_from p limit b =
     (if b < limit
      then if p ! (b div 32) \<noteq> -1 then scan_zero p b else find_zero_from p limit (b + 32)
      else Some limit)"
  by pat_completeness auto
termination by (relation "measure (\<lambda>(p, limit, b). limit - b)") auto

declare find_zero_from.simps [simp del]

definition find_first_zero_bit :: "u32 list \<Rightarrow> nat \<Rightarrow> nat option" where
  "find_first_zero_bit p limit = find_zero_from p limit 0"

section \<open>The set of bits\<close>

definition bits_of :: "u32 list \<Rightarrow> nat set" where
  "bits_of p = {b. b < 32 * length p \<and> bit (p ! (b div 32)) (b mod 32)}"

lemma bit_exp_u32 [simp]: "n < 32 \<Longrightarrow> bit ((2 :: u32) ^ n) m \<longleftrightarrow> m = n"
  by (auto simp: bit_exp_iff)

lemma and_exp_u32: "n < 32 \<Longrightarrow> (w AND 2 ^ n = 0) = (\<not> bit (w :: u32) n)"
  by (auto simp: u32_eq_iff bit_and_iff)

lemma test_bit_bits: "b < 32 * length p \<Longrightarrow> test_bit_arr b p = (b \<in> bits_of p)"
  by (simp add: test_bit_arr_def bits_of_def and_exp_u32)

lemma div_mod_32_eq: "c div 32 = b div 32 \<Longrightarrow> c mod 32 = b mod 32 \<longleftrightarrow> c = (b::nat)"
  by (metis div_mult_mod_eq)

lemma bits_of_set [simp]:
  assumes "b < 32 * length p" shows "bits_of (set_bit_arr b p) = insert b (bits_of p)"
proof (rule set_eqI)
  fix c
  show "c \<in> bits_of (set_bit_arr b p) \<longleftrightarrow> c \<in> insert b (bits_of p)"
    using assms div_mod_32_eq[of c b]
    by (cases "c div 32 = b div 32") (auto simp: bits_of_def set_bit_arr_def bit_or_iff)
qed

lemma bits_of_clear [simp]:
  assumes "b < 32 * length p" shows "bits_of (clear_bit b p) = bits_of p - {b}"
proof (rule set_eqI)
  fix c
  show "c \<in> bits_of (clear_bit b p) \<longleftrightarrow> c \<in> bits_of p - {b}"
    using assms div_mod_32_eq[of c b]
    by (cases "c div 32 = b div 32") (auto simp: bits_of_def clear_bit_def bit_and_iff bit_not_iff)
qed

lemma length_bit_ops [simp]:
  "length (set_bit_arr b p) = length p" "length (clear_bit b p) = length p"
  by (simp_all add: set_bit_arr_def clear_bit_def)

lemma bits_of_zero [simp]: "bits_of (replicate n 0) = {}"
  by (auto simp: bits_of_def)

section \<open>The search\<close>

text \<open>The scan returns the next clear bit of the array, wherever one lies ahead.\<close>

lemma scan_zero_least:
  assumes "b \<le> z" "z < 32 * length p" "z \<notin> bits_of p" "\<forall>x. b \<le> x \<and> x < z \<longrightarrow> x \<in> bits_of p"
  shows "scan_zero p b = Some z"
  using assms
proof (induction "z - b" arbitrary: b)
  case 0
  then have "b = z" "p ! (z div 32) AND 2 ^ (z mod 32) = 0" by (auto simp: bits_of_def and_exp_u32)
  then show ?case by (subst scan_zero.simps) simp
next
  case (Suc k)
  then have "b \<in> bits_of p" by auto
  then have "p ! (b div 32) AND 2 ^ (b mod 32) \<noteq> 0"
    by (auto simp: bits_of_def and_exp_u32)
  moreover have "scan_zero p (Suc b) = Some z" using Suc by (intro Suc.hyps(1)) auto
  ultimately show ?case by (subst scan_zero.simps) simp
qed

lemma not_full_word: "(w :: u32) \<noteq> -1 \<Longrightarrow> \<exists>k<32. \<not> bit w k"
  by (auto simp: u32_eq_iff)

lemma full_word_bits:
  assumes "32 dvd b" "b < 32 * length p" "p ! (b div 32) = -1" "b \<le> x" "x < b + 32"
  shows "x \<in> bits_of p"
proof -
  from assms obtain q where q: "b = 32 * q" by auto
  with assms have "x div 32 = q" by (intro div_nat_eqI) auto
  with assms q show ?thesis by (auto simp: bits_of_def)
qed

lemma find_zero_from_eq:
  assumes "32 dvd limit" "limit \<le> 32 * length p" "32 dvd b" "b \<le> limit"
  shows "find_zero_from p limit b =
    Some (if \<exists>z. b \<le> z \<and> z < limit \<and> z \<notin> bits_of p
          then LEAST z. b \<le> z \<and> z \<notin> bits_of p else limit)"
  using assms
proof (induction p limit b rule: find_zero_from.induct)
  case (1 p limit b)
  show ?case
  proof (cases "b < limit")
    case False
    with 1 show ?thesis by (subst find_zero_from.simps) auto
  next
    case True
    from 1 True have step: "b + 32 \<le> limit" by (auto elim!: dvdE)
    show ?thesis
    proof (cases "p ! (b div 32) = -1")
      case full: True
      have all: "\<forall>x. b \<le> x \<and> x < b + 32 \<longrightarrow> x \<in> bits_of p"
        using full_word_bits[OF "1.prems"(3) _ full] True "1.prems" by auto
      have later: "(b \<le> z \<and> z \<notin> bits_of p) = (b + 32 \<le> z \<and> z \<notin> bits_of p)" for z
        using all by (metis add_leD1 not_le)
      then have eq: "(\<exists>z. b \<le> z \<and> z < limit \<and> z \<notin> bits_of p) =
          (\<exists>z. b + 32 \<le> z \<and> z < limit \<and> z \<notin> bits_of p)" by metis
      have "find_zero_from p limit b = find_zero_from p limit (b + 32)"
        using True full by (subst find_zero_from.simps) simp
      also have "\<dots> = Some (if \<exists>z. b + 32 \<le> z \<and> z < limit \<and> z \<notin> bits_of p
          then LEAST z. b + 32 \<le> z \<and> z \<notin> bits_of p else limit)"
        using "1.IH"[OF True] full step "1.prems" by simp
      finally show ?thesis unfolding eq later .
    next
      case False
      then obtain k where k: "k < 32" "\<not> bit (p ! (b div 32)) k" using not_full_word by blast
      from "1.prems" obtain q where q: "b = 32 * q" by auto
      with k have "b + k \<notin> bits_of p" by (auto simp: bits_of_def)
      with k step have ex: "\<exists>z. b \<le> z \<and> z < limit \<and> z \<notin> bits_of p"
        by (intro exI[of _ "b + k"]) simp
      define z where "z = (LEAST z. b \<le> z \<and> z \<notin> bits_of p)"
      from ex obtain z0 where z0: "b \<le> z0" "z0 < limit" "z0 \<notin> bits_of p" by blast
      have z: "b \<le> z \<and> z \<notin> bits_of p" unfolding z_def by (rule LeastI[of _ z0]) (use z0 in auto)
      have le: "z \<le> z0" unfolding z_def by (rule Least_le) (use z0 in auto)
      have "\<forall>x. b \<le> x \<and> x < z \<longrightarrow> x \<in> bits_of p" unfolding z_def using not_less_Least by blast
      with z le z0 "1.prems" have "scan_zero p b = Some z" by (intro scan_zero_least) auto
      moreover have "find_zero_from p limit b = scan_zero p b"
        using True False by (subst find_zero_from.simps) simp
      ultimately show ?thesis using ex by (simp only: z_def if_True)
    qed
  qed
qed

lemma find_first_zero_bit_eq:
  assumes "32 dvd limit" "limit \<le> 32 * length p"
  shows "find_first_zero_bit p limit =
    Some (if \<exists>z<limit. z \<notin> bits_of p then LEAST z. z \<notin> bits_of p else limit)"
  using find_zero_from_eq[OF assms, of 0] unfolding find_first_zero_bit_def by (simp only: dvd_0_right le0 simp_thms)

lemma find_first_zero_bit_cases:
  assumes "32 dvd limit" "limit \<le> 32 * length p"
  obtains (found) b where "find_first_zero_bit p limit = Some b" "b < limit" "b \<notin> bits_of p"
      "\<forall>x<b. x \<in> bits_of p"
    | (full) "find_first_zero_bit p limit = Some limit" "\<forall>x<limit. x \<in> bits_of p"
proof (cases "\<exists>z<limit. z \<notin> bits_of p")
  case True
  define b where "b = (LEAST z. z \<notin> bits_of p)"
  from True obtain z0 where z0: "z0 < limit" "z0 \<notin> bits_of p" by blast
  show ?thesis
  proof (rule found)
    show "find_first_zero_bit p limit = Some b"
      unfolding find_first_zero_bit_eq[OF assms] b_def using True by (simp only: if_True)
    have "b \<le> z0" unfolding b_def by (rule Least_le) (fact z0(2))
    with z0 show "b < limit" by linarith
    show "b \<notin> bits_of p" unfolding b_def by (rule LeastI) (fact z0(2))
    show "\<forall>x<b. x \<in> bits_of p" unfolding b_def using not_less_Least by blast
  qed
next
  case False
  show ?thesis
  proof (rule full)
    show "find_first_zero_bit p limit = Some limit"
      unfolding find_first_zero_bit_eq[OF assms] using False by (simp only: if_False)
    show "\<forall>x<limit. x \<in> bits_of p" using False by blast
  qed
qed

end
