(* ===== verification/Id_Pool.thy ===== *)
theory Id_Pool
  imports Prelude
begin

text \<open>
  The contract of everything in the DRM that hands out numbers: context numbers from a bitmap,
  per-file object handles, global object names. \<open>used\<close> abstracts the pool to the set of numbers
  in use; \<open>pool_take\<close> may fail, \<open>pool_drop\<close> gives a number back.
\<close>

datatype 'i pool_op = Take | Drop 'i

locale id_pool =
  fixes pool_take :: "'s \<Rightarrow> ('i \<times> 's) option"
    and pool_drop :: "'i \<Rightarrow> 's \<Rightarrow> 's"
    and used :: "'s \<Rightarrow> 'i set"
    and pool_inv :: "'s \<Rightarrow> bool"
  assumes take_fresh: "pool_inv s \<Longrightarrow> pool_take s = Some (i, s') \<Longrightarrow> i \<notin> used s"
    and take_used: "pool_inv s \<Longrightarrow> pool_take s = Some (i, s') \<Longrightarrow> used s' = insert i (used s)"
    and take_inv: "pool_inv s \<Longrightarrow> pool_take s = Some (i, s') \<Longrightarrow> pool_inv s'"
    and drop_used: "pool_inv s \<Longrightarrow> used (pool_drop i s) = used s - {i}"
    and drop_inv: "pool_inv s \<Longrightarrow> pool_inv (pool_drop i s)"
begin

text \<open>A run of the pool, with the list of the numbers handed out and not given back yet.\<close>

fun pool_run :: "'i pool_op list \<Rightarrow> 's \<times> 'i list \<Rightarrow> 's \<times> 'i list" where
  "pool_run [] (s, live) = (s, live)"
| "pool_run (Take # ops) (s, live) =
     (case pool_take s of
        None \<Rightarrow> pool_run ops (s, live)
      | Some (i, s') \<Rightarrow> pool_run ops (s', i # live))"
| "pool_run (Drop i # ops) (s, live) = pool_run ops (pool_drop i s, removeAll i live)"

lemma pool_run_live:
  "pool_inv s \<Longrightarrow> distinct live \<Longrightarrow> set live \<subseteq> used s \<Longrightarrow> pool_run ops (s, live) = (s', live') \<Longrightarrow>
   pool_inv s' \<and> distinct live' \<and> set live' \<subseteq> used s' \<and> used s' - set live' \<subseteq> used s - set live"
proof (induction ops "(s, live)" arbitrary: s live rule: pool_run.induct)
  case (1 s live)
  then show ?case by simp
next
  case (2 ops s live)
  show ?case
  proof (cases "pool_take s")
    case None
    with 2 show ?thesis by simp
  next
    case (Some p)
    obtain i s1 where p: "p = (i, s1)" by (cases p)
    note facts = take_fresh[OF \<open>pool_inv s\<close> Some[unfolded p]]
      take_used[OF \<open>pool_inv s\<close> Some[unfolded p]] take_inv[OF \<open>pool_inv s\<close> Some[unfolded p]]
    have "pool_inv s' \<and> distinct live' \<and> set live' \<subseteq> used s' \<and>
        used s' - set live' \<subseteq> used s1 - set (i # live)"
      using "2.prems" facts Some p
      by (intro "2.hyps"(2)[OF Some[unfolded p] refl]) auto
    with facts show ?thesis by auto
  qed
next
  case (3 i ops s live)
  have "pool_inv s' \<and> distinct live' \<and> set live' \<subseteq> used s' \<and>
      used s' - set live' \<subseteq> used (pool_drop i s) - set (removeAll i live)"
    using "3.prems" by (intro "3.hyps") (auto simp: drop_used drop_inv distinct_removeAll)
  with "3.prems" show ?case by (auto simp: drop_used)
qed

text \<open>Starting with nothing outstanding, the outstanding numbers are always pairwise different.\<close>

lemma pool_run_distinct:
  "pool_inv s \<Longrightarrow> pool_run ops (s, []) = (s', live) \<Longrightarrow> distinct live \<and> set live \<subseteq> used s'"
  using pool_run_live[of s "[]" ops s' live] by auto

end

end
