(* ===== verification/Drm_Context.thy ===== *)
theory Drm_Context
  imports Drm_Lock Drm_Atomic Id_Pool
begin

text \<open>
  Context numbers of \<^verbatim>\<open>drm_context.c\<close>: one page of bits, a number being in use when its bit is
  set. The device record of the lock is extended with the pointer to the page.
\<close>

section \<open>State and operations\<close>

definition PAGE_SIZE :: nat where "PAGE_SIZE = 4096"
definition DRM_MAX_CTXBITMAP :: nat where "DRM_MAX_CTXBITMAP = PAGE_SIZE * 8"
definition DRM_RESERVED_CONTEXTS :: nat where "DRM_RESERVED_CONTEXTS = 1"

record ctx_dev = lock_dev +
  ctx_bitmap :: "u32 list option"

definition drm_ctxbitmap_free :: "'a ctx_dev_scheme \<Rightarrow> int \<Rightarrow> 'a ctx_dev_scheme" where
  "drm_ctxbitmap_free d ctx_handle =
     (if ctx_handle < 0 \<or> ctx_handle \<ge> int DRM_MAX_CTXBITMAP then d
      else case ctx_bitmap d of
        None \<Rightarrow> d
      | Some p \<Rightarrow> d\<lparr>ctx_bitmap := Some (clear_bit (nat ctx_handle) p)\<rparr>)"

text \<open>A search that does not come back is \<open>Asleep\<close>.\<close>

definition drm_ctxbitmap_next :: "'a ctx_dev_scheme \<Rightarrow> (int \<times> 'a ctx_dev_scheme) outcome" where
  "drm_ctxbitmap_next d =
     (case ctx_bitmap d of
        None \<Rightarrow> Ret (-1, d)
      | Some p \<Rightarrow>
          (case find_first_zero_bit p DRM_MAX_CTXBITMAP of
             None \<Rightarrow> Asleep
           | Some b \<Rightarrow>
               if b \<ge> DRM_MAX_CTXBITMAP then Ret (-1, d)
               else Ret (int b, d\<lparr>ctx_bitmap := Some (set_bit_arr b p)\<rparr>)))"

fun ctx_reserve :: "nat \<Rightarrow> 'a ctx_dev_scheme \<Rightarrow> 'a ctx_dev_scheme outcome" where
  "ctx_reserve 0 d = Ret d"
| "ctx_reserve (Suc n) d = obind (drm_ctxbitmap_next d) (\<lambda>(temp, d'). ctx_reserve n d')"

definition drm_ctxbitmap_init ::
  "bool \<Rightarrow> 'a ctx_dev_scheme \<Rightarrow> (errno \<times> 'a ctx_dev_scheme) outcome" where
  "drm_ctxbitmap_init calloc_ok d =
     (if \<not> calloc_ok then Ret (ENOMEM, d)
      else obind (ctx_reserve DRM_RESERVED_CONTEXTS
                    (d\<lparr>ctx_bitmap := Some (replicate (PAGE_SIZE div 4) 0)\<rparr>))
             (\<lambda>d'. Ret (E_OK, d')))"

definition drm_ctxbitmap_cleanup :: "'a ctx_dev_scheme \<Rightarrow> 'a ctx_dev_scheme" where
  "drm_ctxbitmap_cleanup d = d\<lparr>ctx_bitmap := None\<rparr>"

text \<open>
  \<^verbatim>\<open>drm_resctx\<close>: the reserved contexts are copied out one by one while the copies succeed; the
  result is the errno, the new count and the handles that reached user space.
\<close>

fun copy_contexts :: "(nat \<Rightarrow> bool) \<Rightarrow> nat \<Rightarrow> nat \<Rightarrow> errno \<times> u32 list" where
  "copy_contexts copyout_ok i 0 = (E_OK, [])"
| "copy_contexts copyout_ok i (Suc n) =
     (if \<not> copyout_ok i then (EFAULT, [])
      else let (e, hs) = copy_contexts copyout_ok (Suc i) n in (e, of_nat i # hs))"

definition drm_resctx :: "(nat \<Rightarrow> bool) \<Rightarrow> int \<Rightarrow> errno \<times> int \<times> u32 list" where
  "drm_resctx copyout_ok count =
     (if count \<ge> int DRM_RESERVED_CONTEXTS
      then let (e, hs) = copy_contexts copyout_ok 0 DRM_RESERVED_CONTEXTS
           in if e \<noteq> E_OK then (e, count, hs) else (E_OK, int DRM_RESERVED_CONTEXTS, hs)
      else (E_OK, int DRM_RESERVED_CONTEXTS, []))"

definition drm_addctx :: "'a ctx_dev_scheme \<Rightarrow> (errno \<times> u32 \<times> 'a ctx_dev_scheme) outcome" where
  "drm_addctx d =
     obind (drm_ctxbitmap_next d) (\<lambda>(b, d1).
     obind (if (word_of_int b :: u32) = DRM_KERNEL_CONTEXT then drm_ctxbitmap_next d1 else Ret (b, d1))
       (\<lambda>(b', d2).
          let handle = word_of_int b' :: u32
          in if handle = -1 then Ret (ENOMEM, handle, d2) else Ret (E_OK, handle, d2)))"

text \<open>The handle and the flags written back by \<^verbatim>\<open>drm_getctx\<close>: the flags are always 0.\<close>

definition drm_getctx :: "u32 \<times> u32 \<Rightarrow> errno \<times> u32 \<times> u32" where
  "drm_getctx ctx = (E_OK, fst ctx, 0)"

definition drm_rmctx :: "u32 \<Rightarrow> 'a ctx_dev_scheme \<Rightarrow> errno \<times> 'a ctx_dev_scheme" where
  "drm_rmctx handle d =
     (E_OK, if handle \<noteq> DRM_KERNEL_CONTEXT then drm_ctxbitmap_free d (sint handle) else d)"

section \<open>The bitmap as a pool of numbers\<close>

definition bitmap_take :: "u32 list \<Rightarrow> (nat \<times> u32 list) option" where
  "bitmap_take p =
     (case find_first_zero_bit p DRM_MAX_CTXBITMAP of
        None \<Rightarrow> None
      | Some b \<Rightarrow> if b \<ge> DRM_MAX_CTXBITMAP then None else Some (b, set_bit_arr b p))"

definition bitmap_drop :: "nat \<Rightarrow> u32 list \<Rightarrow> u32 list" where
  "bitmap_drop b p = (if b < DRM_MAX_CTXBITMAP then clear_bit b p else p)"

definition bitmap_inv :: "u32 list \<Rightarrow> bool" where
  "bitmap_inv p \<longleftrightarrow> length p = PAGE_SIZE div 4"

lemma max_ctx [simp]: "DRM_MAX_CTXBITMAP = 32768" "PAGE_SIZE div 4 = 1024"
  by (simp_all add: DRM_MAX_CTXBITMAP_def PAGE_SIZE_def)

lemma bitmap_search_cases:
  assumes "bitmap_inv p"
  obtains (found) b where "find_first_zero_bit p DRM_MAX_CTXBITMAP = Some b" "b < 32768"
      "b \<notin> bits_of p" "\<forall>x<b. x \<in> bits_of p"
    | (full) "find_first_zero_bit p DRM_MAX_CTXBITMAP = Some 32768" "\<forall>x<32768. x \<in> bits_of p"
proof -
  have "32 dvd DRM_MAX_CTXBITMAP" "DRM_MAX_CTXBITMAP \<le> 32 * length p"
    using assms by (simp_all add: bitmap_inv_def)
  then show ?thesis
    by (cases rule: find_first_zero_bit_cases[of DRM_MAX_CTXBITMAP p]) (auto intro: that)
qed

interpretation ctx_pool: id_pool bitmap_take bitmap_drop bits_of bitmap_inv
proof
  fix p p' i assume inv: "bitmap_inv p" and take: "bitmap_take p = Some (i, p')"
  have "i < 32768 \<and> i \<notin> bits_of p \<and> p' = set_bit_arr i p"
    using inv take by (cases rule: bitmap_search_cases[OF inv]) (auto simp: bitmap_take_def)
  with inv show "i \<notin> bits_of p" "bits_of p' = insert i (bits_of p)" "bitmap_inv p'"
    by (simp_all add: bitmap_inv_def)
next
  fix p i assume inv: "bitmap_inv p"
  then have "bits_of p \<subseteq> {..<32768}" by (auto simp: bits_of_def bitmap_inv_def)
  with inv show "bits_of (bitmap_drop i p) = bits_of p - {i}" "bitmap_inv (bitmap_drop i p)"
    by (auto simp: bitmap_drop_def bitmap_inv_def)
qed

lemma next_is_take:
  assumes "ctx_bitmap d = Some p" "bitmap_inv p"
  shows "drm_ctxbitmap_next d =
    (case bitmap_take p of
       None \<Rightarrow> Ret (-1, d)
     | Some (b, p') \<Rightarrow> Ret (int b, d\<lparr>ctx_bitmap := Some p'\<rparr>))"
  using assms(1)
  by (cases rule: bitmap_search_cases[OF assms(2)]) (simp_all add: drm_ctxbitmap_next_def bitmap_take_def)

lemma bitmap_take_bound: "bitmap_inv p \<Longrightarrow> bitmap_take p = Some (b, p') \<Longrightarrow> b < 32768"
  by (cases p rule: bitmap_search_cases) (auto simp: bitmap_take_def)

lemma bitmap_take_None: "bitmap_inv p \<Longrightarrow> bitmap_take p = None \<longleftrightarrow> {..<32768} \<subseteq> bits_of p"
  by (cases p rule: bitmap_search_cases) (auto simp: bitmap_take_def)

section \<open>Well-formed context state\<close>

definition ctx_wf :: "'a ctx_dev_scheme \<Rightarrow> bool" where
  "ctx_wf d \<longleftrightarrow> (\<forall>p. ctx_bitmap d = Some p \<longrightarrow> bitmap_inv p \<and> 0 \<in> bits_of p)"

definition ctx_used :: "'a ctx_dev_scheme \<Rightarrow> nat set" where
  "ctx_used d = (case ctx_bitmap d of None \<Rightarrow> {} | Some p \<Rightarrow> bits_of p)"

lemma zero_bitmap_inv [simp]: "bitmap_inv (replicate 1024 0)"
  by (simp add: bitmap_inv_def)

lemma ctx_init_eq:
  assumes "drm_ctxbitmap_init True d = Ret (E_OK, d')"
  shows "\<exists>p. d' = d\<lparr>ctx_bitmap := Some p\<rparr> \<and> bitmap_inv p \<and> bits_of p = {0}"
  using zero_bitmap_inv
proof (cases rule: bitmap_search_cases)
  case (found b)
  then have "b = 0" by auto
  with found assms show ?thesis
    by (auto simp: drm_ctxbitmap_init_def DRM_RESERVED_CONTEXTS_def drm_ctxbitmap_next_def
        bitmap_inv_def intro!: exI[of _ "set_bit_arr 0 (replicate 1024 0)"])
next
  case full
  from full(2)[rule_format, of 0] show ?thesis by simp
qed

lemma small_handle:
  assumes "b < 32768" "b \<noteq> 0"
  shows "user_context (of_nat b)" "of_nat b \<noteq> (-1 :: u32)" "unat (of_nat b :: u32) = b"
    "sint (of_nat b :: u32) = int b"
proof -
  have mod: "b mod 2 ^ 32 = b" using assms by simp
  show u: "unat (of_nat b :: u32) = b" using mod by (simp add: unat_of_nat take_bit_eq_mod)
  show "of_nat b \<noteq> (-1 :: u32)"
  proof
    assume "of_nat b = (-1 :: u32)"
    then have "unat (of_nat b :: u32) = unat (-1 :: u32)" by simp
    with u assms show False by (simp add: unsigned_minus_1_eq_mask mask_eq_exp_minus_1)
  qed
  have bits: "\<not> bit (of_nat b :: u32) n" if "n \<ge> 15" for n
  proof -
    have "b < 2 ^ n" using assms(1) power_increasing[OF that, of "2::nat"] by simp
    then have "\<not> bit b n" by (simp add: bit_iff_odd)
    moreover have "bit (of_nat b :: u32) n \<Longrightarrow> bit (unat (of_nat b :: u32)) n"
      by (simp add: bit_unsigned_iff)
    ultimately show ?thesis unfolding u by blast
  qed
  have "locking_context (of_nat b :: u32) = of_nat b"
    unfolding u32_eq_iff
  proof (intro allI impI)
    fix n :: nat assume "n < 32"
    then show "bit (locking_context (of_nat b :: u32)) n = bit (of_nat b :: u32) n"
      using bits[of n] by (cases "15 \<le> n") (auto simp: bit_locking_context)
  qed
  moreover have "(of_nat b :: u32) \<noteq> 0"
  proof
    assume "(of_nat b :: u32) = 0"
    with u assms show False by simp
  qed
  ultimately show "user_context (of_nat b)" by (simp add: user_context_def DRM_KERNEL_CONTEXT_def)
  have "sint (of_nat b :: u32) = signed_take_bit 31 (int b)"
    using sint_sbintrunc'[of "int b", where 'a = 32] by simp
  then show "sint (of_nat b :: u32) = int b"
    using assms by (simp add: signed_take_bit_int_eq_self)
qed

section \<open>Properties\<close>

text \<open>A number taken from a page in which the kernel's context is reserved.\<close>

lemma taken_number:
  assumes "bitmap_inv p" "0 \<in> bits_of p" "bitmap_take p = Some (b, p')"
  shows "b \<notin> bits_of p" "bits_of p' = insert b (bits_of p)" "bitmap_inv p'" "b < 32768" "b \<noteq> 0"
    "user_context (of_nat b)" "of_nat b \<noteq> (-1 :: u32)" "of_nat b \<noteq> (0 :: u32)"
    "unat (of_nat b :: u32) = b" "sint (of_nat b :: u32) = int b"
proof -
  show f: "b \<notin> bits_of p" and "bits_of p' = insert b (bits_of p)" "bitmap_inv p'" "b < 32768"
    using assms ctx_pool.take_fresh ctx_pool.take_used ctx_pool.take_inv bitmap_take_bound by metis+
  from f assms(2) show "b \<noteq> 0" by metis
  with \<open>b < 32768\<close> show u: "user_context (of_nat b)" "of_nat b \<noteq> (-1 :: u32)"
      "unat (of_nat b :: u32) = b" "sint (of_nat b :: u32) = int b"
    using small_handle by blast+
  from u(1) show "of_nat b \<noteq> (0 :: u32)" by (simp add: user_context_def DRM_KERNEL_CONTEXT_def)
qed

lemma addctx_eq:
  assumes "ctx_wf d" "ctx_bitmap d = Some p"
  shows "drm_addctx d = (case bitmap_take p of
     None \<Rightarrow> Ret (ENOMEM, -1, d)
   | Some (b, p') \<Rightarrow> Ret (E_OK, of_nat b, d\<lparr>ctx_bitmap := Some p'\<rparr>))"
proof -
  from assms have inv: "bitmap_inv p" "0 \<in> bits_of p" by (auto simp: ctx_wf_def)
  show ?thesis
  proof (cases "bitmap_take p")
    case None
    then show ?thesis
      using next_is_take[OF assms(2) inv(1)] by (simp add: drm_addctx_def DRM_KERNEL_CONTEXT_def)
  next
    case (Some q)
    obtain b p' where q: "q = (b, p')" by (cases q)
    with Some have t: "bitmap_take p = Some (b, p')" by simp
    show ?thesis
      unfolding drm_addctx_def next_is_take[OF assms(2) inv(1)] t
      using taken_number[OF inv t] by (simp add: DRM_KERNEL_CONTEXT_def)
  qed
qed

text \<open>
  C12: on a device whose context page is set up, adding a context returns a number that was not in
  use, is fit for the lock protocol (nonzero, clear of the lock flags) and is now in use; it fails
  with ENOMEM, and changes nothing, exactly when all 32768 numbers are in use.
\<close>

theorem addctx_fresh:
  assumes "ctx_wf d" "ctx_bitmap d = Some p"
  shows "\<exists>e h d'. drm_addctx d = Ret (e, h, d') \<and>
    (e = ENOMEM \<longleftrightarrow> {..<32768} \<subseteq> ctx_used d) \<and>
    (e = ENOMEM \<longrightarrow> d' = d) \<and>
    (e \<noteq> ENOMEM \<longrightarrow> e = E_OK \<and> user_context h \<and> unat h \<notin> ctx_used d \<and>
       ctx_used d' = insert (unat h) (ctx_used d) \<and> ctx_wf d')"
proof -
  from assms have inv: "bitmap_inv p" "0 \<in> bits_of p" by (auto simp: ctx_wf_def)
  show ?thesis
  proof (cases "bitmap_take p")
    case None
    then show ?thesis
      using addctx_eq[OF assms] bitmap_take_None[OF inv(1)] assms by (auto simp: ctx_used_def)
  next
    case (Some q)
    obtain b p' where q: "q = (b, p')" by (cases q)
    with Some have t: "bitmap_take p = Some (b, p')" by simp
    have "\<not> {..<32768} \<subseteq> ctx_used d"
      using bitmap_take_None[OF inv(1)] Some assms(2) by (simp add: ctx_used_def)
    then show ?thesis
      unfolding addctx_eq[OF assms] t using taken_number[OF inv t] inv assms(2)
      by (auto simp: ctx_used_def ctx_wf_def)
  qed
qed

lemma init_ctx_dev:
  "\<exists>d. drm_ctxbitmap_init True \<lparr>lock = l, ctx_bitmap = None\<rparr> = Ret (E_OK, d)"
  using zero_bitmap_inv
  by (cases rule: bitmap_search_cases)
    (auto simp: drm_ctxbitmap_init_def DRM_RESERVED_CONTEXTS_def drm_ctxbitmap_next_def)

lemma ctx_init_wf:
  assumes "drm_ctxbitmap_init True d = Ret (E_OK, d')"
  shows "ctx_wf d' \<and> ctx_bitmap d' \<noteq> None \<and> ctx_used d' = {0}"
proof -
  obtain p where "d' = d\<lparr>ctx_bitmap := Some p\<rparr>" "bitmap_inv p" "bits_of p = {0}"
    using ctx_init_eq[OF assms] by blast
  then show ?thesis by (simp add: ctx_wf_def ctx_used_def)
qed

theorem addctx_fresh_witness:
  "\<exists>d :: ctx_dev. ctx_used d = {0} \<and> (\<exists>h d'. drm_addctx d = Ret (E_OK, h, d') \<and> user_context h)"
proof -
  let ?l = "\<lparr>hw_lock = None, lk_file_priv = None, lk_broadcasts = 0\<rparr>"
  obtain d where i: "drm_ctxbitmap_init True \<lparr>lock = ?l, ctx_bitmap = None\<rparr> = Ret (E_OK, d)"
    using init_ctx_dev by blast
  then obtain p where p: "ctx_wf d" "ctx_bitmap d = Some p" "ctx_used d = {0}"
    using ctx_init_wf by blast
  have "(1::nat) \<in> {..<32768}" by simp
  then have "\<not> {..<32768::nat} \<subseteq> {0}" by (metis insertE emptyE subsetD zero_neq_one)
  with addctx_fresh[OF p(1,2)] p(3) show ?thesis by metis
qed

text \<open>
  removing a context that \<^verbatim>\<open>drm_addctx\<close> handed out gives the set of numbers in use back, and
  no removal ever frees the kernel's context 0.
\<close>

theorem addctx_rmctx_roundtrip:
  assumes "ctx_wf d" "ctx_bitmap d = Some p" "drm_addctx d = Ret (E_OK, h, d1)"
  shows "(\<exists>d2. drm_rmctx h d1 = (E_OK, d2) \<and> ctx_used d2 = ctx_used d \<and> ctx_wf d2) \<and>
    0 \<in> ctx_used (snd (drm_rmctx h' d))"
proof (rule conjI)
  from assms have inv: "bitmap_inv p" "0 \<in> bits_of p" by (auto simp: ctx_wf_def)
  from assms(3) obtain b p' where t: "bitmap_take p = Some (b, p')" "h = of_nat b"
      "d1 = d\<lparr>ctx_bitmap := Some p'\<rparr>"
    by (auto simp: addctx_eq[OF assms(1,2)] split: option.splits)
  note f = taken_number[OF inv t(1)]
  have "h \<noteq> 0" "sint h = int b" using f t(2) by simp_all
  moreover have "bits_of (clear_bit b p') = bits_of p"
    using f ctx_pool.drop_used[OF f(3), of b] by (simp add: bitmap_drop_def)
  moreover have "bitmap_inv (clear_bit b p')"
    using f ctx_pool.drop_inv[OF f(3), of b] by (simp add: bitmap_drop_def)
  ultimately show "\<exists>d2. drm_rmctx h d1 = (E_OK, d2) \<and> ctx_used d2 = ctx_used d \<and> ctx_wf d2"
    using f(4) t assms(2) inv
    by (simp add: drm_rmctx_def DRM_KERNEL_CONTEXT_def drm_ctxbitmap_free_def ctx_used_def ctx_wf_def)
  show "0 \<in> ctx_used (snd (drm_rmctx h' d))"
  proof (cases "h' = 0 \<or> sint h' < 0 \<or> sint h' \<ge> 32768")
    case True
    then show ?thesis using assms(2) inv
      by (auto simp: drm_rmctx_def DRM_KERNEL_CONTEXT_def drm_ctxbitmap_free_def ctx_used_def)
  next
    case False
    then have "sint h' \<noteq> 0" by (metis signed_0 signed_word_eqI)
    with False assms(2) inv ctx_pool.drop_used[OF inv(1), of "nat (sint h')"] show ?thesis
      by (auto simp: drm_rmctx_def DRM_KERNEL_CONTEXT_def drm_ctxbitmap_free_def ctx_used_def
          bitmap_drop_def nat_less_iff)
  qed
qed

theorem addctx_rmctx_roundtrip_witness:
  "\<exists>(d :: ctx_dev) h d1. drm_addctx d = Ret (E_OK, h, d1) \<and>
     (\<exists>d2. drm_rmctx h d1 = (E_OK, d2) \<and> ctx_used d2 = {0})"
proof -
  let ?l = "\<lparr>hw_lock = None, lk_file_priv = None, lk_broadcasts = 0\<rparr>"
  obtain d where i: "drm_ctxbitmap_init True \<lparr>lock = ?l, ctx_bitmap = None\<rparr> = Ret (E_OK, d)"
    using init_ctx_dev by blast
  then obtain p where p: "ctx_wf d" "ctx_bitmap d = Some p" "ctx_used d = {0}"
    using ctx_init_wf by blast
  have "1 \<notin> bits_of p" using p by (simp add: ctx_used_def)
  then have "bitmap_take p \<noteq> None"
    using p bitmap_take_None[of p] by (auto simp: ctx_wf_def subset_iff)
  then obtain h d1 where h: "drm_addctx d = Ret (E_OK, h, d1)"
    by (auto simp: addctx_eq[OF p(1,2)])
  from addctx_rmctx_roundtrip[OF p(1,2) h] h p(3) show ?thesis by metis
qed

end
