(* ===== verification/Drm_File.thy ===== *)
theory Drm_File
  imports Drm_Context
begin

text \<open>
  The per-open file of \<^verbatim>\<open>drmP.h\<close>, the events queued for it, the callbacks a driver gives to the
  DRM core, and the part of the device that keeps the tree of open files. A file is named by its
  minor number, the key of the tree.
\<close>

section \<open>Records\<close>

text \<open>\<open>drm_event_vblank\<close> with its header; \<open>ev_file_priv\<close> is the file of the pending event.\<close>

record drm_pending_event =
  ev_type :: u32
  ev_length :: u32
  ev_user_data :: u64
  ev_tv_sec :: u32
  ev_tv_usec :: u32
  ev_sequence :: u32
  ev_file_priv :: int

record drm_file =
  obj_tree :: "(u32, nat) splay"
  evlist :: "drm_pending_event list"
  authenticated :: int
  ioctl_count :: u64
  kdev :: int
  magic :: u32
  event_space :: int
  f_flags :: u32
  master :: int
  f_minor :: int
  obj_id :: u32

definition DRIVER_AGP :: u32 where "DRIVER_AGP = 0x1"
definition DRIVER_AGP_REQUIRE :: u32 where "DRIVER_AGP_REQUIRE = 0x2"
definition DRIVER_MTRR :: u32 where "DRIVER_MTRR = 0x4"
definition DRIVER_PCI_DMA :: u32 where "DRIVER_PCI_DMA = 0x10"
definition DRIVER_DMA :: u32 where "DRIVER_DMA = 0x8"
definition DRIVER_SG :: u32 where "DRIVER_SG = 0x20"
definition DRIVER_IRQ :: u32 where "DRIVER_IRQ = 0x40"
definition DRIVER_GEM :: u32 where "DRIVER_GEM = 0x80"

text \<open>
  The callbacks of \<^verbatim>\<open>struct drm_driver_info\<close>; a pointer that the core tests against NULL is an
  option. A callback takes the device and gives it back changed. The driver's own ioctls get the
  command number and the minor of the file.
\<close>

record 'd drm_driver_info =
  firstopen :: "('d \<Rightarrow> errno \<times> 'd) option"
  open_cb :: "('d \<Rightarrow> int \<Rightarrow> errno \<times> 'd) option"
  ioctl_cb :: "('d \<Rightarrow> u64 \<Rightarrow> int \<Rightarrow> errno \<times> 'd) option"
  close_cb :: "('d \<Rightarrow> int \<Rightarrow> 'd) option"
  lastclose :: "('d \<Rightarrow> 'd) option"
  dma_ioctl :: "('d \<Rightarrow> int \<Rightarrow> int \<Rightarrow> errno \<times> int \<times> 'd) option"
  irq_install :: "'d \<Rightarrow> errno \<times> 'd"
  irq_uninstall :: "'d \<Rightarrow> 'd"
  vblank_pipes :: int
  get_vblank_counter :: "'d \<Rightarrow> int \<Rightarrow> u32"
  enable_vblank :: "'d \<Rightarrow> int \<Rightarrow> errno \<times> 'd"
  disable_vblank :: "'d \<Rightarrow> int \<Rightarrow> 'd"
  gem_init_object :: "('d \<Rightarrow> nat \<Rightarrow> errno \<times> 'd) option"
  gem_free_object :: "('d \<Rightarrow> nat \<Rightarrow> 'd) option"
  gem_size :: u64
  buf_priv_size :: u64
  file_priv_size :: u64
  drv_major :: int
  drv_minor :: int
  drv_patchlevel :: int
  drv_name :: string
  drv_desc :: string
  drv_date :: string
  drv_flags :: u32

definition has_flag :: "u32 \<Rightarrow> u32 \<Rightarrow> bool" where
  "has_flag w f \<longleftrightarrow> w AND f \<noteq> 0"

record file_dev = ctx_dev +
  files :: "(int, drm_file) splay"
  open_count :: int
  magicid :: u32
  if_version :: int

section \<open>The tree of open files\<close>

definition drm_file_cmp :: "drm_file \<Rightarrow> drm_file \<Rightarrow> int" where
  "drm_file_cmp f1 f2 =
     (if f_minor f1 < f_minor f2 then -1 else if f_minor f1 > f_minor f2 then 1 else 0)"

definition drm_find_file_by_minor :: "'a file_dev_scheme \<Rightarrow> int \<Rightarrow> drm_file option" where
  "drm_find_file_by_minor d m = map_of (files d) m"

text \<open>A write through the pointer to the file of minor \<open>m\<close>.\<close>

definition upd_file :: "int \<Rightarrow> (drm_file \<Rightarrow> drm_file) \<Rightarrow> 'a file_dev_scheme \<Rightarrow> 'a file_dev_scheme" where
  "upd_file m f d = d\<lparr>files := sp_update m f (files d)\<rparr>"

lemma files_upd_file [simp]: "files (upd_file m f d) = sp_update m f (files d)"
  by (simp add: upd_file_def)

lemma find_upd_file:
  "drm_find_file_by_minor (upd_file m f d) m' =
     (if m' = m then map_option f (drm_find_file_by_minor d m) else drm_find_file_by_minor d m')"
  by (simp add: drm_find_file_by_minor_def)

lemma sp_update_comp: "sp_update k g (sp_update k h t) = sp_update k (\<lambda>v. g (h v)) t"
  by (induction k h t rule: sp_update.induct) auto

lemma upd_file_comp: "upd_file m g (upd_file m h d) = upd_file m (\<lambda>f. g (h f)) d"
  by (simp add: upd_file_def sp_update_comp)

definition files_wf :: "'a file_dev_scheme \<Rightarrow> bool" where
  "files_wf d \<longleftrightarrow> sp_wf (files d) \<and> (\<forall>(m, f)\<in>set (files d). f_minor f = m \<and> sp_wf (obj_tree f))"

text \<open>In a well-formed tree the order of the keys is the order of the code's comparison.\<close>

lemma files_wf_sorted: "files_wf d \<Longrightarrow> sorted_wrt (\<lambda>f g. drm_file_cmp f g = -1) (map snd (files d))"
proof -
  assume wf: "files_wf d"
  then have "sorted_wrt (\<lambda>x y. fst x < fst y) (files d)" by (simp add: files_wf_def sp_wf_def sorted_wrt_map)
  then have "sorted_wrt (\<lambda>x y. drm_file_cmp (snd x) (snd y) = -1) (files d)"
  proof (rule sorted_wrt_mono_rel[rotated])
    fix x y assume "x \<in> set (files d)" "y \<in> set (files d)" "fst x < fst y"
    moreover from this wf have "f_minor (snd x) = fst x" "f_minor (snd y) = fst y"
      by (auto simp: files_wf_def)
    ultimately show "drm_file_cmp (snd x) (snd y) = -1" by (simp add: drm_file_cmp_def)
  qed
  then show ?thesis by (simp add: sorted_wrt_map)
qed

lemma sp_update_all:
  "\<forall>x\<in>set t. P (fst x) (snd x) \<Longrightarrow> (\<And>v. P m v \<Longrightarrow> P m (g v)) \<Longrightarrow>
   \<forall>x\<in>set (sp_update m g t). P (fst x) (snd x)"
  by (induction m g t rule: sp_update.induct) auto

lemma files_wf_upd:
  assumes "files_wf d"
    and "\<And>f. f_minor (g f) = f_minor f" "\<And>f. sp_wf (obj_tree f) \<Longrightarrow> sp_wf (obj_tree (g f))"
  shows "files_wf (upd_file m g d)"
  using assms sp_update_all[of "files d" "\<lambda>k f. f_minor f = k \<and> sp_wf (obj_tree f)" m g]
  unfolding files_wf_def case_prod_beta files_upd_file sp_wf_update by blast

end
