(* ===== verification/Drm_Gem.thy ===== *)
theory Drm_Gem
  imports Drm_File
begin

text \<open>
  GEM buffer objects of \<^verbatim>\<open>drm_drv.c\<close>: reference counts and the BUSY flag, per-file handles, global
  names. An access to an object that has been returned to the pool is a \<open>Panic\<close>.
\<close>

section \<open>State\<close>

definition DRM_BUSY :: u32 where "DRM_BUSY = 0x1"
definition DRM_WANTED :: u32 where "DRM_WANTED = 0x2"

record drm_obj =
  uo_refs :: int
  obj_size :: u64
  gname :: u32
  handlecount :: int
  do_flags :: u32
  read_domains :: u32
  write_domain :: u32
  pending_read_domains :: u32
  pending_write_domain :: u32

text \<open>
  \<open>objs\<close> maps the address of a live object to its contents; \<open>uao_count\<close> is the number of anonymous
  memory objects created by \<^verbatim>\<open>uao_create\<close> and not detached yet.
\<close>

record gem_dev = file_dev +
  objs :: "nat \<Rightarrow> drm_obj option"
  uao_count :: int
  obj_count :: u32
  obj_name :: u32
  obj_memory :: u32
  name_tree :: "(u32, nat) splay"

definition upd_obj :: "nat \<Rightarrow> (drm_obj \<Rightarrow> drm_obj) \<Rightarrow> 'a gem_dev_scheme \<Rightarrow> 'a gem_dev_scheme" where
  "upd_obj i f d = d\<lparr>objs := (objs d)(i := map_option f (objs d i))\<rparr>"

section \<open>Holding an object\<close>

text \<open>Each element of the list is what the rest of the system does during one \<^verbatim>\<open>tsleep\<close>.\<close>

fun drm_hold_object_locked ::
  "('a gem_dev_scheme \<Rightarrow> 'a gem_dev_scheme) list \<Rightarrow> nat \<Rightarrow> 'a gem_dev_scheme \<Rightarrow>
   'a gem_dev_scheme outcome" where
  "drm_hold_object_locked sl i d =
     (case objs d i of
        None \<Rightarrow> Panic
      | Some obj \<Rightarrow>
          if do_flags obj AND DRM_BUSY \<noteq> 0 then
            (case sl of
               [] \<Rightarrow> Asleep
             | env # sl' \<Rightarrow>
                 drm_hold_object_locked sl' i
                   (env (upd_obj i (do_flags_update (\<lambda>w. w OR DRM_WANTED)) d)))
          else Ret (upd_obj i (do_flags_update (\<lambda>w. w OR DRM_BUSY)) d))"

declare drm_hold_object_locked.simps [simp del]

definition drm_hold_object ::
  "('a gem_dev_scheme \<Rightarrow> 'a gem_dev_scheme) list \<Rightarrow> nat \<Rightarrow> 'a gem_dev_scheme \<Rightarrow>
   'a gem_dev_scheme outcome" where
  "drm_hold_object sl i d = drm_hold_object_locked sl i d"

definition drm_try_hold_object :: "nat \<Rightarrow> 'a gem_dev_scheme \<Rightarrow> (bool \<times> 'a gem_dev_scheme) outcome" where
  "drm_try_hold_object i d =
     (case objs d i of
        None \<Rightarrow> Panic
      | Some obj \<Rightarrow>
          if do_flags obj AND (DRM_BUSY OR DRM_WANTED) \<noteq> 0 then Ret (False, d)
          else Ret (True, upd_obj i (do_flags_update (\<lambda>w. w OR DRM_BUSY)) d))"

definition drm_unhold_object_locked :: "nat \<Rightarrow> 'a gem_dev_scheme \<Rightarrow> 'a gem_dev_scheme outcome" where
  "drm_unhold_object_locked i d =
     (case objs d i of
        None \<Rightarrow> Panic
      | Some obj \<Rightarrow>
          Ret (upd_obj i (do_flags_update (\<lambda>w. w AND NOT (DRM_WANTED OR DRM_BUSY))) d))"

definition drm_unhold_object :: "nat \<Rightarrow> 'a gem_dev_scheme \<Rightarrow> 'a gem_dev_scheme outcome" where
  "drm_unhold_object i d = drm_unhold_object_locked i d"

section \<open>References\<close>

definition drm_ref_locked :: "nat \<Rightarrow> 'a gem_dev_scheme \<Rightarrow> 'a gem_dev_scheme outcome" where
  "drm_ref_locked i d =
     (if objs d i = None then Panic else Ret (upd_obj i (uo_refs_update (\<lambda>n. n + 1)) d))"

definition drm_ref :: "nat \<Rightarrow> 'a gem_dev_scheme \<Rightarrow> 'a gem_dev_scheme outcome" where
  "drm_ref i d = drm_ref_locked i d"

text \<open>
  The last reference: the object is marked busy, the driver frees its part, the memory object is
  detached and the object goes back to the pool.
\<close>

definition free_object ::
  "('a gem_dev_scheme) drm_driver_info \<Rightarrow> nat \<Rightarrow> drm_obj \<Rightarrow> 'a gem_dev_scheme \<Rightarrow> 'a gem_dev_scheme" where
  "free_object drv i obj d =
     (let d1 = upd_obj i (do_flags_update (\<lambda>w. w OR DRM_BUSY)) d;
          d2 = (case gem_free_object drv of None \<Rightarrow> d1 | Some cb \<Rightarrow> cb d1 i);
          d3 = d2\<lparr>uao_count := uao_count d2 - 1, obj_count := obj_count d2 - 1,
                 obj_memory := obj_memory d2 - ucast (obj_size obj)\<rparr>
      in d3\<lparr>objs := (objs d3)(i := None)\<rparr>)"

fun drm_unref_locked ::
  "('a gem_dev_scheme) drm_driver_info \<Rightarrow> ('a gem_dev_scheme \<Rightarrow> 'a gem_dev_scheme) list \<Rightarrow> nat \<Rightarrow>
   'a gem_dev_scheme \<Rightarrow> 'a gem_dev_scheme outcome" where
  "drm_unref_locked drv sl i d =
     (case objs d i of
        None \<Rightarrow> Panic
      | Some obj \<Rightarrow>
          if uo_refs obj > 1 then Ret (upd_obj i (uo_refs_update (\<lambda>n. n - 1)) d)
          else if do_flags obj AND DRM_BUSY \<noteq> 0 then
            (case sl of
               [] \<Rightarrow> Asleep
             | env # sl' \<Rightarrow>
                 drm_unref_locked drv sl' i
                   (env (upd_obj i (do_flags_update (\<lambda>w. w OR DRM_WANTED)) d)))
          else Ret (free_object drv i obj d))"

declare drm_unref_locked.simps [simp del]

definition drm_unref ::
  "('a gem_dev_scheme) drm_driver_info \<Rightarrow> ('a gem_dev_scheme \<Rightarrow> 'a gem_dev_scheme) list \<Rightarrow> nat \<Rightarrow>
   'a gem_dev_scheme \<Rightarrow> 'a gem_dev_scheme outcome" where
  "drm_unref drv sl i d = drm_unref_locked drv sl i d"

definition drm_unhold_and_unref ::
  "('a gem_dev_scheme) drm_driver_info \<Rightarrow> ('a gem_dev_scheme \<Rightarrow> 'a gem_dev_scheme) list \<Rightarrow> nat \<Rightarrow>
   'a gem_dev_scheme \<Rightarrow> 'a gem_dev_scheme outcome" where
  "drm_unhold_and_unref drv sl i d =
     obind (drm_unhold_object_locked i d) (drm_unref_locked drv sl i)"

section \<open>Creating an object\<close>

text \<open>
  The pool gives the address \<open>i\<close> of a zeroed object (\<open>None\<close>: it has none); a failing constructor of
  the driver takes everything back. The result is the new object's address.
\<close>

definition new_object :: "u64 \<Rightarrow> drm_obj" where
  "new_object sz = \<lparr>uo_refs = 1, obj_size = sz, gname = 0, handlecount = 0, do_flags = 0,
     read_domains = 0, write_domain = 0, pending_read_domains = 0, pending_write_domain = 0\<rparr>"

definition drm_gem_object_alloc ::
  "('a gem_dev_scheme) drm_driver_info \<Rightarrow> nat option \<Rightarrow> u64 \<Rightarrow> 'a gem_dev_scheme \<Rightarrow>
   (nat option \<times> 'a gem_dev_scheme) outcome" where
  "drm_gem_object_alloc drv pool sz d =
     (if sz AND (of_nat PAGE_SIZE - 1) \<noteq> 0 then Panic
      else case pool of
        None \<Rightarrow> Ret (None, d)
      | Some i \<Rightarrow>
          let d1 = d\<lparr>objs := (objs d)(i := Some (new_object sz)), uao_count := uao_count d + 1\<rparr>;
              (e, d2) = (case gem_init_object drv of None \<Rightarrow> (E_OK, d1) | Some cb \<Rightarrow> cb d1 i)
          in if e \<noteq> E_OK
             then Ret (None, d2\<lparr>uao_count := uao_count d2 - 1, objs := (objs d2)(i := None)\<rparr>)
             else Ret (Some i, d2\<lparr>obj_count := obj_count d2 + 1,
                                  obj_memory := obj_memory d2 + ucast sz\<rparr>))"

section \<open>Handles and names\<close>

text \<open>
  The loop \<^verbatim>\<open>again: id = ++counter; if (id == 0 || SPLAY_INSERT(...)) goto again;\<close> that both handles
  and names use: it comes back only if some nonzero number is free.
\<close>

partial_function (option) fresh_id :: "(u32 \<Rightarrow> bool) \<Rightarrow> u32 \<Rightarrow> u32 option" where
  "fresh_id taken c =
     (let h = c + 1 in if h = 0 \<or> taken h then fresh_id taken h else Some h)"

definition drm_handle_cmp :: "u32 \<Rightarrow> u32 \<Rightarrow> int" where
  "drm_handle_cmp a b = (if a < b then -1 else if a > b then 1 else 0)"

definition drm_handle_ref :: "nat \<Rightarrow> 'a gem_dev_scheme \<Rightarrow> 'a gem_dev_scheme outcome" where
  "drm_handle_ref i d =
     (if objs d i = None then Panic else Ret (upd_obj i (handlecount_update (\<lambda>n. n + 1)) d))"

definition drm_handle_create ::
  "bool \<Rightarrow> int \<Rightarrow> nat \<Rightarrow> 'a gem_dev_scheme \<Rightarrow> (errno \<times> u32 \<times> 'a gem_dev_scheme) outcome" where
  "drm_handle_create calloc_ok m i d =
     (if \<not> calloc_ok then Ret (ENOMEM, 0, d)
      else case drm_find_file_by_minor d m of
        None \<Rightarrow> Panic
      | Some f \<Rightarrow>
          (case fresh_id (\<lambda>h. map_of (obj_tree f) h \<noteq> None) (obj_id f) of
             None \<Rightarrow> Asleep
           | Some h \<Rightarrow>
               let d1 = upd_file m (\<lambda>f. f\<lparr>obj_id := h, obj_tree := sp_insert h i (obj_tree f)\<rparr>) d
               in obind (drm_handle_ref i d1) (\<lambda>d2. Ret (E_OK, h, d2))))"

definition drm_gem_object_lookup ::
  "int \<Rightarrow> u32 \<Rightarrow> 'a gem_dev_scheme \<Rightarrow> (nat option \<times> 'a gem_dev_scheme) outcome" where
  "drm_gem_object_lookup m handle d =
     (case drm_find_file_by_minor d m of
        None \<Rightarrow> Panic
      | Some f \<Rightarrow>
          (case map_of (obj_tree f) handle of
             None \<Rightarrow> Ret (None, d)
           | Some i \<Rightarrow> obind (drm_ref i d) (\<lambda>d'. Ret (Some i, d'))))"

text \<open>\<open>sl 0\<close> and \<open>sl 1\<close> are the sleeps of the first and of the second \<^verbatim>\<open>drm_unref\<close>.\<close>

definition drm_handle_unref ::
  "('a gem_dev_scheme) drm_driver_info \<Rightarrow> (nat \<Rightarrow> ('a gem_dev_scheme \<Rightarrow> 'a gem_dev_scheme) list) \<Rightarrow>
   nat \<Rightarrow> 'a gem_dev_scheme \<Rightarrow> 'a gem_dev_scheme outcome" where
  "drm_handle_unref drv sl i d =
     (case objs d i of
        None \<Rightarrow> Panic
      | Some obj \<Rightarrow>
          let d1 = upd_obj i (handlecount_update (\<lambda>n. n - 1)) d
          in obind
               (if handlecount obj - 1 = 0 \<and> gname obj \<noteq> 0
                then drm_unref drv (sl 0) i
                       (upd_obj i (gname_update (\<lambda>_. 0))
                          (d1\<lparr>name_tree := sp_remove (gname obj) (name_tree d1)\<rparr>))
                else Ret d1)
               (drm_unref drv (sl 1) i))"

definition drm_gem_close_ioctl ::
  "('a gem_dev_scheme) drm_driver_info \<Rightarrow> (nat \<Rightarrow> ('a gem_dev_scheme \<Rightarrow> 'a gem_dev_scheme) list) \<Rightarrow>
   int \<Rightarrow> u32 \<Rightarrow> 'a gem_dev_scheme \<Rightarrow> (errno \<times> 'a gem_dev_scheme) outcome" where
  "drm_gem_close_ioctl drv sl m handle d =
     (if \<not> has_flag (drv_flags drv) DRIVER_GEM then Ret (ENODEV, d)
      else case drm_find_file_by_minor d m of
        None \<Rightarrow> Panic
      | Some f \<Rightarrow>
          (case map_of (obj_tree f) handle of
             None \<Rightarrow> Ret (EINVAL, d)
           | Some i \<Rightarrow>
               obind (drm_handle_unref drv sl i
                        (upd_file m (\<lambda>f. f\<lparr>obj_tree := sp_remove handle (obj_tree f)\<rparr>) d))
                 (\<lambda>d'. Ret (E_OK, d'))))"

text \<open>\<^verbatim>\<open>drm_gem_flink_ioctl\<close>: the new contents of the argument's name are the second component.\<close>

definition drm_gem_flink_ioctl ::
  "('a gem_dev_scheme) drm_driver_info \<Rightarrow> ('a gem_dev_scheme \<Rightarrow> 'a gem_dev_scheme) list \<Rightarrow>
   int \<Rightarrow> u32 \<Rightarrow> 'a gem_dev_scheme \<Rightarrow> (errno \<times> u32 \<times> 'a gem_dev_scheme) outcome" where
  "drm_gem_flink_ioctl drv sl m handle d =
     (if \<not> has_flag (drv_flags drv) DRIVER_GEM then Ret (ENODEV, 0, d)
      else obind (drm_gem_object_lookup m handle d) (\<lambda>(oo, d1).
        case oo of
          None \<Rightarrow> Ret (EBADF, 0, d1)
        | Some i \<Rightarrow>
            (case objs d1 i of
               None \<Rightarrow> Panic
             | Some obj \<Rightarrow>
                 obind
                   (if gname obj = 0 then
                      (case fresh_id (\<lambda>n. map_of (name_tree d1) n \<noteq> None) (obj_name d1) of
                         None \<Rightarrow> Asleep
                       | Some n \<Rightarrow>
                           obind (drm_ref i
                                    (upd_obj i (gname_update (\<lambda>_. n))
                                       (d1\<lparr>obj_name := n, name_tree := sp_insert n i (name_tree d1)\<rparr>)))
                             (\<lambda>d2. Ret (n, d2)))
                    else Ret (gname obj, d1))
                   (\<lambda>(n, d2). obind (drm_unref drv sl i d2) (\<lambda>d3. Ret (E_OK, n, d3))))))"

text \<open>\<^verbatim>\<open>drm_gem_open_ioctl\<close>: errno, handle and size of the object.\<close>

definition drm_gem_open_ioctl ::
  "('a gem_dev_scheme) drm_driver_info \<Rightarrow> ('a gem_dev_scheme \<Rightarrow> 'a gem_dev_scheme) list \<Rightarrow>
   bool \<Rightarrow> int \<Rightarrow> u32 \<Rightarrow> 'a gem_dev_scheme \<Rightarrow> (errno \<times> u32 \<times> u64 \<times> 'a gem_dev_scheme) outcome" where
  "drm_gem_open_ioctl drv sl calloc_ok m n d =
     (if \<not> has_flag (drv_flags drv) DRIVER_GEM then Ret (ENODEV, 0, 0, d)
      else case map_of (name_tree d) n of
        None \<Rightarrow> Ret (ENOENT, 0, 0, d)
      | Some i \<Rightarrow>
          obind (drm_ref i d) (\<lambda>d1.
          obind (drm_handle_create calloc_ok m i d1) (\<lambda>(e, h, d2).
            if e \<noteq> E_OK then obind (drm_unref drv sl i d2) (\<lambda>d3. Ret (e, 0, 0, d3))
            else case objs d2 i of
              None \<Rightarrow> Panic
            | Some obj \<Rightarrow> Ret (E_OK, h, obj_size obj, d2))))"

lemma sp_remove_shorter: "map_of t k = Some v \<Longrightarrow> length (sp_remove k t) < length t"
proof -
  assume "map_of t k = Some v"
  then have "(k, v) \<in> set t" by (rule map_of_SomeD)
  then show ?thesis unfolding sp_remove_def by (auto intro: length_filter_less)
qed

text \<open>
  The loop of \<^verbatim>\<open>drmclose\<close> over the handles of the file. \<^verbatim>\<open>SPLAY_ROOT\<close> is any element of the tree:
  \<open>root\<close> picks its key.
\<close>

function close_handles ::
  "('a gem_dev_scheme) drm_driver_info \<Rightarrow>
   (nat \<Rightarrow> nat \<Rightarrow> ('a gem_dev_scheme \<Rightarrow> 'a gem_dev_scheme) list) \<Rightarrow> ((u32, nat) splay \<Rightarrow> u32) \<Rightarrow>
   nat \<Rightarrow> (u32, nat) splay \<Rightarrow> int \<Rightarrow> 'a gem_dev_scheme \<Rightarrow> 'a gem_dev_scheme outcome" where
  "close_handles drv sl root k t m d =
     (if t = [] then Ret d
      else case map_of t (root t) of
        None \<Rightarrow> Panic
      | Some i \<Rightarrow>
          let t' = sp_remove (root t) t
          in obind (drm_handle_unref drv (sl k) i (upd_file m (\<lambda>f. f\<lparr>obj_tree := t'\<rparr>) d))
               (close_handles drv sl root (Suc k) t' m))"
  by pat_completeness auto

termination
  by (relation "measure (\<lambda>(drv, sl, root, k, t, m, d). length t)") (auto intro: sp_remove_shorter)

declare close_handles.simps [simp del]

end
