(* ===== verification/Gem_Refs.thy ===== *)
theory Gem_Refs
  imports Drm_Gem
begin

text \<open>
  The reference-counting invariant of GEM objects and its preservation by the primitive changes:
  taking and dropping a reference, entering and removing a handle, giving and removing a name.
  \<open>ext i\<close> is the number of references to object \<open>i\<close> that are held by no handle and no name: those of
  operations in progress and of the driver.
\<close>

section \<open>The invariant\<close>

definition tree_refs :: "(u32, nat) splay \<Rightarrow> nat \<Rightarrow> int" where
  "tree_refs t i = int (length (filter (\<lambda>p. snd p = i) t))"

definition handle_refs :: "'a gem_dev_scheme \<Rightarrow> nat \<Rightarrow> int" where
  "handle_refs d i = sum_list (map (\<lambda>p. tree_refs (obj_tree (snd p)) i) (files d))"

definition name_ref :: "drm_obj \<Rightarrow> int" where
  "name_ref ob = (if gname ob \<noteq> 0 then 1 else 0)"

definition obj_ok :: "(nat \<Rightarrow> int) \<Rightarrow> 'a gem_dev_scheme \<Rightarrow> nat \<Rightarrow> drm_obj \<Rightarrow> bool" where
  "obj_ok ext d i ob \<longleftrightarrow>
     handlecount ob = handle_refs d i \<and>
     uo_refs ob = handle_refs d i + name_ref ob + ext i \<and> 0 < uo_refs ob \<and>
     (gname ob \<noteq> 0 \<longrightarrow> map_of (name_tree d) (gname ob) = Some i \<and> 0 < handlecount ob)"

definition slot_ok :: "(nat \<Rightarrow> int) \<Rightarrow> 'a gem_dev_scheme \<Rightarrow> nat \<Rightarrow> bool" where
  "slot_ok ext d i \<longleftrightarrow>
     (case objs d i of None \<Rightarrow> handle_refs d i = 0 \<and> ext i = 0 | Some ob \<Rightarrow> obj_ok ext d i ob)"

definition gem_inv :: "(nat \<Rightarrow> int) \<Rightarrow> 'a gem_dev_scheme \<Rightarrow> bool" where
  "gem_inv ext d \<longleftrightarrow>
     files_wf d \<and> sp_wf (name_tree d) \<and> (\<forall>i. 0 \<le> ext i) \<and>
     (\<forall>i. slot_ok ext d i) \<and>
     (\<forall>n i. map_of (name_tree d) n = Some i \<longrightarrow> n \<noteq> 0 \<and> (\<exists>ob. objs d i = Some ob \<and> gname ob = n)) \<and>
     (\<forall>m f. drm_find_file_by_minor d m = Some f \<longrightarrow> map_of (obj_tree f) 0 = None)"

text \<open>The part of the device that the invariant is about.\<close>

definition obj_core :: "drm_obj \<Rightarrow> int \<times> u64 \<times> u32 \<times> int" where
  "obj_core ob = (uo_refs ob, obj_size ob, gname ob, handlecount ob)"

definition gem_core where
  "gem_core (d :: 'a gem_dev_scheme) =
     (files d, name_tree d, obj_name d, (\<lambda>i. map_option obj_core (objs d i)), obj_count d,
      obj_memory d, uao_count d)"

lemma gem_core_objs: "gem_core d = gem_core d' \<Longrightarrow> objs d i = Some ob \<Longrightarrow>
  \<exists>ob'. objs d' i = Some ob' \<and> obj_core ob' = obj_core ob"
proof -
  assume c: "gem_core d = gem_core d'" and ob: "objs d i = Some ob"
  from c have "(\<lambda>i. map_option obj_core (objs d i)) = (\<lambda>i. map_option obj_core (objs d' i))"
    by (simp add: gem_core_def)
  from fun_cong[OF this, of i] ob have "map_option obj_core (objs d' i) = Some (obj_core ob)" by simp
  then show ?thesis by (cases "objs d' i") simp_all
qed

lemma gem_core_None: "gem_core d = gem_core d' \<Longrightarrow> objs d i = None \<longleftrightarrow> objs d' i = None"
  by (metis gem_core_objs not_None_eq)

lemma gem_core_handle_refs: "gem_core d = gem_core d' \<Longrightarrow> handle_refs d i = handle_refs d' i"
  by (simp add: gem_core_def handle_refs_def)

lemma gem_inv_core1: "gem_core d = gem_core d' \<Longrightarrow> gem_inv ext d \<Longrightarrow> gem_inv ext d'"
proof -
  assume c: "gem_core d = gem_core d'" and inv: "gem_inv ext d"
  have fl: "files d = files d'" "name_tree d = name_tree d'" using c by (simp_all add: gem_core_def)
  have slot: "slot_ok ext d i" for i using inv by (simp add: gem_inv_def)
  have "slot_ok ext d' i" for i
  proof (cases "objs d' i")
    case None
    with slot[of i] gem_core_None[OF c, of i] gem_core_handle_refs[OF c, of i] show ?thesis
      by (simp add: slot_ok_def)
  next
    case (Some ob')
    then obtain ob where ob: "objs d i = Some ob" "obj_core ob = obj_core ob'"
      using gem_core_objs[OF c[symmetric]] by blast
    with slot[of i] have "obj_ok ext d i ob" by (simp add: slot_ok_def)
    with ob Some fl gem_core_handle_refs[OF c, of i] show ?thesis
      by (auto simp: slot_ok_def obj_ok_def obj_core_def name_ref_def)
  qed
  moreover have "\<exists>ob. objs d' i = Some ob \<and> gname ob = n" if "map_of (name_tree d') n = Some i" for n i
  proof -
    from that inv fl have "\<exists>ob. objs d i = Some ob \<and> gname ob = n" by (simp add: gem_inv_def)
    then obtain ob where ob: "objs d i = Some ob" "gname ob = n" by blast
    from gem_core_objs[OF c ob(1)] ob(2) show ?thesis by (auto simp: obj_core_def)
  qed
  ultimately show ?thesis
    using inv fl by (simp add: gem_inv_def files_wf_def drm_find_file_by_minor_def)
qed

lemma gem_inv_cong: "gem_core d = gem_core d' \<Longrightarrow> gem_inv ext d \<longleftrightarrow> gem_inv ext d'"
  by (metis gem_inv_core1)

lemma gem_core_upd_flags [simp]:
  "gem_core (upd_obj i (do_flags_update g) d) = gem_core d"
  by (cases "objs d i") (simp_all add: gem_core_def upd_obj_def fun_eq_iff obj_core_def)

section \<open>Consequences\<close>

lemma gem_invD:
  assumes "gem_inv ext d"
  shows "files_wf d" "sp_wf (name_tree d)" "0 \<le> ext i"
    "objs d i = Some ob \<Longrightarrow> obj_ok ext d i ob"
    "objs d i = None \<Longrightarrow> handle_refs d i = 0 \<and> ext i = 0"
    "map_of (name_tree d) n = Some i \<Longrightarrow> n \<noteq> 0 \<and> (\<exists>ob. objs d i = Some ob \<and> gname ob = n)"
    "drm_find_file_by_minor d m = Some f \<Longrightarrow> map_of (obj_tree f) 0 = None"
proof -
  note slot = assms[unfolded gem_inv_def, THEN conjunct2, THEN conjunct2, THEN conjunct2, THEN conjunct1, rule_format]
  show "objs d i = Some ob \<Longrightarrow> obj_ok ext d i ob" "objs d i = None \<Longrightarrow> handle_refs d i = 0 \<and> ext i = 0"
    using slot[of i] by (simp_all add: slot_ok_def)
qed (use assms in \<open>auto simp: gem_inv_def\<close>)

lemma gem_invI:
  assumes "files_wf d" "sp_wf (name_tree d)" "\<And>i. 0 \<le> ext i" "\<And>i. slot_ok ext d i"
    "\<And>n i. map_of (name_tree d) n = Some i \<Longrightarrow> n \<noteq> 0 \<and> (\<exists>ob. objs d i = Some ob \<and> gname ob = n)"
    "\<And>m f. drm_find_file_by_minor d m = Some f \<Longrightarrow> map_of (obj_tree f) 0 = None"
  shows "gem_inv ext d"
  using assms unfolding gem_inv_def by blast

lemma gem_inv_slot: "gem_inv ext d \<Longrightarrow> slot_ok ext d i"
  by (simp add: gem_inv_def)

lemma ext_live: "gem_inv ext d \<Longrightarrow> 0 < ext i \<Longrightarrow> \<exists>ob. objs d i = Some ob"
  using gem_invD(5)[of ext d i] by fastforce

lemma tree_refs_nonneg [simp]: "0 \<le> tree_refs t i"
  by (simp add: tree_refs_def)

lemma tree_refs_pos: "map_of t h = Some i \<Longrightarrow> 0 < tree_refs t i"
  by (force simp: tree_refs_def filter_empty_conv dest!: map_of_SomeD)

lemma handle_refs_nonneg: "0 \<le> handle_refs d i"
  by (auto simp: handle_refs_def intro!: sum_list_nonneg)

lemma handle_refs_pos:
  assumes "drm_find_file_by_minor d m = Some f" "map_of (obj_tree f) h = Some i"
  shows "0 < handle_refs d i"
proof -
  have "(m, f) \<in> set (files d)" using assms(1) by (auto simp: drm_find_file_by_minor_def dest: map_of_SomeD)
  then have "tree_refs (obj_tree f) i \<le> handle_refs d i"
    unfolding handle_refs_def by (intro member_le_sum_list) (auto simp: image_iff intro!: bexI[of _ "(m, f)"])
  with tree_refs_pos[OF assms(2)] show ?thesis by simp
qed

lemma handle_live:
  "gem_inv ext d \<Longrightarrow> drm_find_file_by_minor d m = Some f \<Longrightarrow> map_of (obj_tree f) h = Some i \<Longrightarrow>
   \<exists>ob. objs d i = Some ob"
  using handle_refs_pos[of d m f h i] gem_invD(5)[of ext d i] by fastforce

section \<open>How the counts move\<close>

lemma tree_refs_insert:
  "map_of t h = None \<Longrightarrow> sp_wf t \<Longrightarrow> tree_refs (sp_insert h i t) j = tree_refs t j + (if j = i then 1 else 0)"
  by (induction h i t rule: sp_insert.induct) (auto simp: tree_refs_def sp_wf_Cons split: if_splits)

lemma tree_refs_Cons: "tree_refs (p # t) j = (if snd p = j then 1 else 0) + tree_refs t j"
  by (simp add: tree_refs_def)

lemma sp_remove_Cons: "sp_remove k ((a, w) # t) = (if a = k then sp_remove k t else (a, w) # sp_remove k t)"
  by (simp add: sp_remove_def)

lemma sp_remove_absent: "k \<notin> fst ` set t \<Longrightarrow> sp_remove k t = t"
  by (induction t) (auto simp: sp_remove_Cons)

lemma tree_refs_remove:
  "map_of t h = Some i \<Longrightarrow> sp_wf t \<Longrightarrow> tree_refs (sp_remove h t) j = tree_refs t j - (if j = i then 1 else 0)"
proof (induction t)
  case (Cons p t)
  obtain a w where p: "p = (a, w)" by (cases p)
  show ?case
  proof (cases "a = h")
    case True
    with Cons.prems p have "h \<notin> fst ` set t" "w = i" by (auto simp: sp_wf_Cons)
    with p True show ?thesis by (simp add: sp_remove_Cons sp_remove_absent tree_refs_Cons)
  next
    case False
    with Cons p show ?thesis by (auto simp: sp_remove_Cons tree_refs_Cons sp_wf_Cons)
  qed
qed simp

lemma sum_list_sp_update:
  "distinct (map fst t) \<Longrightarrow> map_of t m = Some f \<Longrightarrow>
   sum_list (map (\<lambda>p. g (snd p) :: int) (sp_update m u t)) =
   sum_list (map (\<lambda>p. g (snd p)) t) - g f + g (u f)"
  by (induction m u t rule: sp_update.induct) (auto split: if_splits)

lemma handle_refs_upd_file:
  "files_wf d \<Longrightarrow> drm_find_file_by_minor d m = Some f \<Longrightarrow>
   handle_refs (upd_file m u d) i =
   handle_refs d i - tree_refs (obj_tree f) i + tree_refs (obj_tree (u f)) i"
  unfolding handle_refs_def files_upd_file
  by (rule sum_list_sp_update) (auto simp: files_wf_def sp_wf_distinct drm_find_file_by_minor_def)

lemma upd_obj_facts [simp]:
  "files (upd_obj i g d) = files d" "name_tree (upd_obj i g d) = name_tree d"
  "handle_refs (upd_obj i g d) j = handle_refs d j"
  "drm_find_file_by_minor (upd_obj i g d) m = drm_find_file_by_minor d m"
  "files_wf (upd_obj i g d) = files_wf d"
  "objs (upd_obj i g d) = (objs d)(i := map_option g (objs d i))"
  "obj_name (upd_obj i g d) = obj_name d"
  by (simp_all add: upd_obj_def handle_refs_def drm_find_file_by_minor_def files_wf_def)

lemma upd_file_gem_facts [simp]:
  "objs (upd_file m g d) = objs d" "name_tree (upd_file m g d) = name_tree d"
  "obj_name (upd_file m g d) = obj_name d"
  by (simp_all add: upd_file_def)

lemma file_tree_wf: "files_wf d \<Longrightarrow> drm_find_file_by_minor d m = Some f \<Longrightarrow> sp_wf (obj_tree f)"
  by (auto simp: files_wf_def drm_find_file_by_minor_def dest!: map_of_SomeD)

section \<open>Primitive changes\<close>

text \<open>Taking a reference on a live object.\<close>

lemma drm_ref_inv:
  assumes inv: "gem_inv ext d" and live: "objs d i = Some ob"
  shows "\<exists>d'. drm_ref i d = Ret d' \<and> gem_inv (ext(i := ext i + 1)) d' \<and> files d' = files d \<and>
    name_tree d' = name_tree d \<and> obj_name d' = obj_name d \<and>
    objs d' = (objs d)(i := Some (uo_refs_update (\<lambda>n. n + 1) ob))"
proof -
  let ?d = "upd_obj i (uo_refs_update (\<lambda>n. n + 1)) d"
  have "slot_ok (ext(i := ext i + 1)) ?d j" for j
    using gem_inv_slot[OF inv, of j] live
    by (cases "j = i") (auto simp: slot_ok_def obj_ok_def name_ref_def split: option.splits)
  then have "gem_inv (ext(i := ext i + 1)) ?d"
    using gem_invD[OF inv] live by (intro gem_invI) (fastforce simp: add_nonneg_nonneg)+
  with live show ?thesis
    by (intro exI[of _ ?d]) (simp add: drm_ref_def drm_ref_locked_def)
qed

text \<open>What the reference counting needs of the driver: its destructor leaves the core alone.\<close>

definition driver_frame :: "('a gem_dev_scheme) drm_driver_info \<Rightarrow> bool" where
  "driver_frame drv \<longleftrightarrow> (\<forall>cb d i. gem_free_object drv = Some cb \<longrightarrow> gem_core (cb d i) = gem_core d)"

text \<open>
  The accounting: the device counts the live objects and their memory objects, and adds up their
  sizes modulo \<open>2 ^ 32\<close>.
\<close>

definition live_size :: "'a gem_dev_scheme \<Rightarrow> nat \<Rightarrow> u64 option" where
  "live_size d i = map_option obj_size (objs d i)"

definition gem_acct :: "'a gem_dev_scheme \<Rightarrow> bool" where
  "gem_acct d \<longleftrightarrow>
     finite (dom (live_size d)) \<and> uao_count d = int (card (dom (live_size d))) \<and>
     obj_count d = of_nat (card (dom (live_size d))) \<and>
     obj_memory d = (\<Sum>i\<in>dom (live_size d). ucast (the (live_size d i)))"

text \<open>The other threads, while this one sleeps, finish what they start.\<close>

definition quiet :: "('a gem_dev_scheme \<Rightarrow> 'a gem_dev_scheme) list \<Rightarrow> bool" where
  "quiet sl \<longleftrightarrow> (\<forall>e\<in>set sl. \<forall>d. (\<forall>ext. gem_inv ext d \<longrightarrow> gem_inv ext (e d)) \<and>
     (gem_acct d \<longrightarrow> gem_acct (e d)))"

lemma live_size_upd [simp]:
  "live_size (upd_obj i (do_flags_update g) d) = live_size d"
  "live_size (upd_obj i (uo_refs_update h) d) = live_size d"
  "live_size (upd_obj i (handlecount_update h) d) = live_size d"
  "live_size (upd_obj i (gname_update n) d) = live_size d"
  "live_size (upd_file m k d) = live_size d"
  by (auto simp: live_size_def fun_eq_iff upd_obj_def upd_file_def option.map_comp comp_def)

lemma gem_acct_upd [simp]:
  "gem_acct (upd_obj i (do_flags_update g) d) = gem_acct d"
  "gem_acct (upd_obj i (uo_refs_update h) d) = gem_acct d"
  "gem_acct (upd_obj i (handlecount_update h) d) = gem_acct d"
  "gem_acct (upd_obj i (gname_update n) d) = gem_acct d"
  "gem_acct (upd_file m k d) = gem_acct d"
  "gem_acct (d\<lparr>obj_name := a, name_tree := t\<rparr>) = gem_acct d"
  "gem_acct (d\<lparr>name_tree := t\<rparr>) = gem_acct d" "gem_acct (d\<lparr>obj_name := a\<rparr>) = gem_acct d"
  "gem_acct (d\<lparr>files := fs\<rparr>) = gem_acct d"
  unfolding gem_acct_def live_size_upd
  by (simp_all add: upd_obj_def upd_file_def live_size_def[abs_def])

lemma gem_core_live_size: "gem_core d = gem_core d' \<Longrightarrow> live_size d = live_size d'"
proof
  fix i assume "gem_core d = gem_core d'"
  then have "(\<lambda>i. map_option obj_core (objs d i)) i = (\<lambda>i. map_option obj_core (objs d' i)) i"
    unfolding gem_core_def by (metis prod.inject)
  then have "map_option (fst \<circ> snd) (map_option obj_core (objs d i)) =
      map_option (fst \<circ> snd) (map_option obj_core (objs d' i))" by simp
  then show "live_size d i = live_size d' i"
    by (simp add: live_size_def option.map_comp comp_def obj_core_def)
qed

lemma gem_core_acct: "gem_core d = gem_core d' \<Longrightarrow> gem_acct d \<longleftrightarrow> gem_acct d'"
proof -
  assume c: "gem_core d = gem_core d'"
  then have "obj_count d = obj_count d'" "obj_memory d = obj_memory d'" "uao_count d = uao_count d'"
    by (simp_all add: gem_core_def)
  then show ?thesis unfolding gem_acct_def gem_core_live_size[OF c] by simp
qed

lemma gem_acct_remove:
  assumes "gem_acct d" "objs d i = Some ob"
  shows "gem_acct (d\<lparr>uao_count := uao_count d - 1, obj_count := obj_count d - 1,
     obj_memory := obj_memory d - ucast (obj_size ob), objs := (objs d)(i := None)\<rparr>)" (is "gem_acct ?d")
proof -
  have ls: "live_size ?d = (live_size d)(i := None)" by (auto simp: live_size_def fun_eq_iff)
  have i: "i \<in> dom (live_size d)" "the (live_size d i) = obj_size ob" using assms(2) by (auto simp: live_size_def)
  have fin: "finite (dom (live_size d))" using assms(1) by (simp add: gem_acct_def)
  then have c: "0 < card (dom (live_size d))" using i(1) by (auto simp: card_gt_0_iff)
  then have c1: "card (dom (live_size d) - {i}) = card (dom (live_size d)) - 1"
    using i(1) by simp
  have "(\<Sum>j\<in>dom (live_size d) - {i}. ucast (the (live_size ?d j)) :: u32) =
      (\<Sum>j\<in>dom (live_size d) - {i}. ucast (the (live_size d j)))"
    unfolding ls by (rule sum.cong) auto
  also have "\<dots> = obj_memory d - ucast (obj_size ob)"
    using assms(1) i fin by (simp add: gem_acct_def sum_diff1)
  finally show ?thesis
    using assms(1) c c1 unfolding gem_acct_def ls dom_fun_upd by (simp add: of_nat_diff ls)
qed

lemma free_object_inv:
  assumes inv: "gem_inv ext d" and live: "objs d i = Some ob" and last: "uo_refs ob = 1" "ext i = 1"
    and drv: "driver_frame drv"
  shows "gem_inv (ext(i := 0)) (free_object drv i ob d)" "objs (free_object drv i ob d) i = None"
    "obj_count (free_object drv i ob d) = obj_count d - 1"
    "uao_count (free_object drv i ob d) = uao_count d - 1"
    "obj_memory (free_object drv i ob d) = obj_memory d - ucast (obj_size ob)"
    "\<And>j. j \<noteq> i \<Longrightarrow> map_option obj_core (objs (free_object drv i ob d) j) = map_option obj_core (objs d j)"
    "files (free_object drv i ob d) = files d" "name_tree (free_object drv i ob d) = name_tree d"
proof -
  define d1 where "d1 = upd_obj i (do_flags_update (\<lambda>w. w OR DRM_BUSY)) d"
  define d2 where "d2 = (case gem_free_object drv of None \<Rightarrow> d1 | Some cb \<Rightarrow> cb d1 i)"
  have core: "gem_core d2 = gem_core d"
    using drv by (auto simp: d2_def d1_def driver_frame_def split: option.splits)
  have free: "free_object drv i ob d = d2\<lparr>uao_count := uao_count d2 - 1, obj_count := obj_count d2 - 1,
      obj_memory := obj_memory d2 - ucast (obj_size ob), objs := (objs d2)(i := None)\<rparr>"
    unfolding free_object_def Let_def d1_def[symmetric] d2_def[symmetric] by simp
  have inv2: "gem_inv ext d2" using inv gem_inv_cong[OF core] by simp
  obtain ob2 where ob2: "objs d2 i = Some ob2" "obj_core ob2 = obj_core ob"
    using gem_core_objs[OF core[symmetric] live] by blast
  have ok: "obj_ok ext d2 i ob2" by (rule gem_invD(4)[OF inv2 ob2(1)])
  have hr: "handle_refs d2 i = 0" "gname ob2 = 0"
    using ok last ob2(2) handle_refs_nonneg[of d2 i]
    by (auto simp: obj_ok_def name_ref_def obj_core_def split: if_splits)
  have slot: "slot_ok (ext(i := 0)) (free_object drv i ob d) j" for j
    using gem_inv_slot[OF inv2, of j] hr unfolding free
    by (cases "j = i") (auto simp: slot_ok_def obj_ok_def name_ref_def handle_refs_def split: option.splits)
  have named: "j \<noteq> i" if "map_of (name_tree d2) n = Some j" for n j
    using gem_invD(6)[OF inv2 that] ob2(1) hr(2) by auto
  show "gem_inv (ext(i := 0)) (free_object drv i ob d)"
    using gem_invD[OF inv2] named slot
    by (intro gem_invI) (auto simp: free files_wf_def drm_find_file_by_minor_def)
  show "objs (free_object drv i ob d) i = None" by (simp add: free)
  show "obj_count (free_object drv i ob d) = obj_count d - 1"
    "uao_count (free_object drv i ob d) = uao_count d - 1"
    "obj_memory (free_object drv i ob d) = obj_memory d - ucast (obj_size ob)"
    "files (free_object drv i ob d) = files d" "name_tree (free_object drv i ob d) = name_tree d"
    "\<And>j. j \<noteq> i \<Longrightarrow> map_option obj_core (objs (free_object drv i ob d) j) = map_option obj_core (objs d j)"
    using core by (simp_all add: free gem_core_def fun_eq_iff)
qed

text \<open>Dropping a reference that is neither a handle's nor a name's.\<close>

lemma drm_unref_inv:
  assumes "gem_inv ext d" "0 < ext i" "driver_frame drv" "quiet sl"
  shows "drm_unref_locked drv sl i d \<noteq> Panic \<and>
    (\<forall>d'. drm_unref_locked drv sl i d = Ret d' \<longrightarrow> gem_inv (ext(i := ext i - 1)) d')"
  using assms
proof (induction drv sl i d rule: drm_unref_locked.induct)
  case (1 drv sl i d)
  from ext_live[OF 1(2,3)] obtain ob where live: "objs d i = Some ob" by blast
  have ok: "obj_ok ext d i ob" by (rule gem_invD(4)[OF 1(2) live])
  show ?case
  proof (cases "uo_refs ob > 1")
    case True
    then have "slot_ok (ext(i := ext i - 1)) (upd_obj i (uo_refs_update (\<lambda>n. n - 1)) d) j" for j
      using gem_inv_slot[OF 1(2), of j] live
      by (cases "j = i") (auto simp: slot_ok_def obj_ok_def name_ref_def split: option.splits)
    then have "gem_inv (ext(i := ext i - 1)) (upd_obj i (uo_refs_update (\<lambda>n. n - 1)) d)"
      using gem_invD[OF 1(2)] 1(3) live by (intro gem_invI) (fastforce split: if_splits)+
    with True live show ?thesis by (subst (1 2) drm_unref_locked.simps) simp
  next
    case last: False
    with ok have one: "uo_refs ob = 1" "ext i = 1"
      using 1(3) handle_refs_nonneg[of d i] by (auto simp: obj_ok_def name_ref_def split: if_splits)
    show ?thesis
    proof (cases "do_flags ob AND DRM_BUSY \<noteq> 0")
      case busy: True
      show ?thesis
      proof (cases sl)
        case Nil
        with last live busy show ?thesis by (subst (1 2) drm_unref_locked.simps) simp
      next
        case (Cons env sl')
        let ?d = "env (upd_obj i (do_flags_update (\<lambda>w. w OR DRM_WANTED)) d)"
        have "gem_inv ext (upd_obj i (do_flags_update (\<lambda>w. w OR DRM_WANTED)) d)"
          using 1(2) by (simp only: gem_inv_cong[OF gem_core_upd_flags])
        then have "gem_inv ext ?d" using 1(5) Cons unfolding quiet_def by (metis list.set_intros(1))
        moreover have "quiet sl'" using 1(5) Cons by (simp add: quiet_def)
        ultimately have ih: "drm_unref_locked drv sl' i ?d \<noteq> Panic \<and>
            (\<forall>d'. drm_unref_locked drv sl' i ?d = Ret d' \<longrightarrow> gem_inv (ext(i := ext i - 1)) d')"
          using 1(1)[OF live last busy Cons] 1(3,4) by blast
        have eq: "drm_unref_locked drv sl i d = drm_unref_locked drv sl' i ?d"
          using last live busy Cons by (subst drm_unref_locked.simps) simp
        show ?thesis unfolding eq by (fact ih)
      qed
    next
      case idle: False
      then have "drm_unref_locked drv sl i d = Ret (free_object drv i ob d)"
        using last live by (subst drm_unref_locked.simps) simp
      moreover have "ext i - 1 = 0" using one by simp
      ultimately show ?thesis using free_object_inv(1)[OF 1(2) live one 1(4)] by (metis outcome.inject outcome.distinct(1))
    qed
  qed
qed

end
