(* ===== verification/Gem_Handles.thy ===== *)
theory Gem_Handles
  imports Gem_Refs
begin

text \<open>
  Handles and names: the number loop returns a fresh nonzero number whenever there is one, both
  tables are pools of numbers, and the handle operations keep the reference-counting invariant.
\<close>

section \<open>Fresh numbers\<close>

lemma fresh_id_fresh:
  assumes ret: "fresh_id taken c = Some r"
  shows "r \<noteq> 0 \<and> \<not> taken r"
proof (rule fresh_id.raw_induct[where P = "\<lambda>taken c r. r \<noteq> 0 \<and> \<not> taken r", OF _ ret])
  fix f and taken :: "u32 \<Rightarrow> bool" and c r
  assume ih: "\<And>taken c r. f taken c = Some r \<Longrightarrow> r \<noteq> 0 \<and> \<not> taken r"
    and eq: "(let h = c + 1 in if h = 0 \<or> taken h then f taken h else Some h) = Some r"
  show "r \<noteq> 0 \<and> \<not> taken r"
    using eq ih[of taken "c + 1" r] by (auto simp: Let_def split: if_splits)
qed

lemma fresh_id_returns:
  assumes free: "h \<noteq> 0" "\<not> taken h"
  shows "\<exists>r. fresh_id taken c = Some r"
proof (induction "unat (h - c - 1)" arbitrary: c)
  case 0
  then have "h = c + 1" by (simp add: unat_eq_zero algebra_simps)
  with free show ?case by (subst fresh_id.simps) simp
next
  case (Suc n)
  have "h - c - 1 \<noteq> 0" using Suc.hyps(2) by (metis nat.distinct(1) unat_0)
  then have "unat (h - c - 1 - 1) = n" unfolding unat_minus_one[OF \<open>h - c - 1 \<noteq> 0\<close>] using Suc.hyps(2) by linarith
  then have "\<exists>r. fresh_id taken (c + 1) = Some r" by (intro Suc.hyps(1)) (simp add: algebra_simps)
  then show ?case by (subst fresh_id.simps) (auto simp: Let_def)
qed

lemma fresh_id_next: "c + 1 \<noteq> 0 \<Longrightarrow> \<not> taken (c + 1) \<Longrightarrow> fresh_id taken c = Some (c + 1)"
  by (subst fresh_id.simps) (simp add: Let_def)

section \<open>The tables as pools of numbers\<close>

text \<open>A table with its counter; entering object \<open>i\<close> under a fresh number.\<close>

definition table_take :: "nat \<Rightarrow> u32 \<times> (u32, nat) splay \<Rightarrow> (u32 \<times> u32 \<times> (u32, nat) splay) option" where
  "table_take i ct =
     (case fresh_id (\<lambda>h. map_of (snd ct) h \<noteq> None) (fst ct) of
        None \<Rightarrow> None
      | Some h \<Rightarrow> Some (h, h, sp_insert h i (snd ct)))"

definition table_drop :: "u32 \<Rightarrow> u32 \<times> (u32, nat) splay \<Rightarrow> u32 \<times> (u32, nat) splay" where
  "table_drop h ct = (fst ct, sp_remove h (snd ct))"

definition table_used :: "u32 \<times> (u32, nat) splay \<Rightarrow> u32 set" where
  "table_used ct = dom (map_of (snd ct))"

definition table_inv :: "u32 \<times> (u32, nat) splay \<Rightarrow> bool" where
  "table_inv ct \<longleftrightarrow> sp_wf (snd ct) \<and> map_of (snd ct) 0 = None"

lemma table_takeD:
  assumes "table_inv ct" "table_take i ct = Some (h, ct')"
  shows "h \<noteq> 0" "map_of (snd ct) h = None" "ct' = (h, sp_insert h i (snd ct))"
    "map_of (snd ct') = (map_of (snd ct))(h \<mapsto> i)"
proof -
  from assms(2) have f: "fresh_id (\<lambda>h. map_of (snd ct) h \<noteq> None) (fst ct) = Some h"
    and ct: "ct' = (h, sp_insert h i (snd ct))"
    by (auto simp: table_take_def split: option.splits)
  from fresh_id_fresh[OF f] show "h \<noteq> 0" "map_of (snd ct) h = None" by auto
  then show "map_of (snd ct') = (map_of (snd ct))(h \<mapsto> i)"
    using assms(1) ct by (simp add: table_inv_def map_of_sp_insert_new)
  show "ct' = (h, sp_insert h i (snd ct))" by (fact ct)
qed

interpretation table_pool: id_pool "table_take i" table_drop table_used table_inv for i
proof
  fix ct ct' h assume "table_inv ct" "table_take i ct = Some (h, ct')"
  note t = table_takeD[OF this] \<open>table_inv ct\<close>
  then show "h \<notin> table_used ct" "table_used ct' = insert h (table_used ct)" "table_inv ct'"
    by (auto simp: table_used_def table_inv_def)
next
  fix ct h assume "table_inv ct"
  then show "table_used (table_drop h ct) = table_used ct - {h}" "table_inv (table_drop h ct)"
    by (auto simp: table_used_def table_inv_def table_drop_def)
qed

text \<open>Every table of handles or names has a free number: a table has finitely many entries, far fewer
  than there are numbers, as long as it has less than \<open>2 ^ 32 - 1\<close> of them.\<close>

lemma table_has_room:
  assumes "sp_wf t" "length t < 2 ^ 32 - 1"
  shows "\<exists>h. h \<noteq> (0 :: u32) \<and> map_of t h = None"
proof (rule ccontr)
  assume "\<nexists>h. h \<noteq> 0 \<and> map_of t h = None"
  then have sub: "- {0} \<subseteq> fst ` set t" by (auto simp: map_of_eq_None_iff)
  have "card (- {0 :: u32}) = 2 ^ 32 - 1" by (subst card_Diff_singleton[of 0 UNIV, folded Compl_eq_Diff_UNIV]) (simp_all add: card_word)
  moreover have "card (fst ` set t) \<le> length t" by (metis card_length length_map set_map)
  moreover have "card (- {0 :: u32}) \<le> card (fst ` set t)" using sub by (intro card_mono) auto
  ultimately show False using assms(2) by linarith
qed

section \<open>Entering a handle\<close>

abbreviation enter_handle :: "u32 \<Rightarrow> nat \<Rightarrow> drm_file \<Rightarrow> drm_file" where
  "enter_handle h i f \<equiv> f\<lparr>obj_id := h, obj_tree := sp_insert h i (obj_tree f)\<rparr>"

lemma enter_handle_inv:
  assumes inv: "gem_inv ext d" and ext: "0 < ext i" and fl: "drm_find_file_by_minor d m = Some f"
    and h: "h \<noteq> 0" "map_of (obj_tree f) h = None"
  shows "gem_inv (ext(i := ext i - 1))
    (upd_obj i (handlecount_update (\<lambda>n. n + 1)) (upd_file m (enter_handle h i) d))"
proof (rule gem_invI)
  note D = gem_invD[OF inv]
  have wf: "files_wf d" by (rule D(1))
  have twf: "sp_wf (obj_tree f)" by (rule file_tree_wf[OF wf fl])
  have refs: "handle_refs (upd_file m (enter_handle h i) d) j = handle_refs d j + (if j = i then 1 else 0)" for j
    using handle_refs_upd_file[OF wf fl, of "enter_handle h i" j] tree_refs_insert[OF h(2) twf, of i j] by simp
  from ext_live[OF inv ext] obtain ob where live: "objs d i = Some ob" by blast
  show "files_wf (upd_obj i (handlecount_update (\<lambda>n. n + 1)) (upd_file m (enter_handle h i) d))"
    by (simp, rule files_wf_upd[OF wf]) simp_all
  show "sp_wf (name_tree (upd_obj i (handlecount_update (\<lambda>n. n + 1)) (upd_file m (enter_handle h i) d)))"
    using D(2) by simp
  show "0 \<le> (ext(i := ext i - 1)) j" for j using D(3)[of j] ext by auto
  show "slot_ok (ext(i := ext i - 1))
      (upd_obj i (handlecount_update (\<lambda>n. n + 1)) (upd_file m (enter_handle h i) d)) j" for j
    using gem_inv_slot[OF inv, of j] live refs[of j] ext
    by (cases "j = i") (auto simp: slot_ok_def obj_ok_def name_ref_def split: option.splits)
  show "n \<noteq> 0 \<and> (\<exists>ob. objs (upd_obj i (handlecount_update (\<lambda>n. n + 1)) (upd_file m (enter_handle h i) d)) j = Some ob \<and>
      gname ob = n)"
    if "map_of (name_tree (upd_obj i (handlecount_update (\<lambda>n. n + 1)) (upd_file m (enter_handle h i) d))) n = Some j" for n j
    using D(6)[of n j] that by auto
  show "map_of (obj_tree g) 0 = None"
    if "drm_find_file_by_minor (upd_obj i (handlecount_update (\<lambda>n. n + 1)) (upd_file m (enter_handle h i) d)) m' = Some g" for m' g
    using that D(7)[of m' g] D(7)[OF fl] fl h twf
    by (auto simp: find_upd_file map_of_sp_insert_new split: if_splits)
qed

lemma drm_handle_create_ret:
  assumes "objs d i = Some ob" "drm_find_file_by_minor d m = Some f"
    "fresh_id (\<lambda>h. map_of (obj_tree f) h \<noteq> None) (obj_id f) = Some h"
  shows "drm_handle_create True m i d =
    Ret (E_OK, h, upd_obj i (handlecount_update (\<lambda>n. n + 1)) (upd_file m (enter_handle h i) d))"
  using assms by (simp add: drm_handle_create_def drm_handle_ref_def Let_def)

lemma drm_handle_create_inv:
  assumes inv: "gem_inv ext d" and ext: "0 < ext i" and fl: "drm_find_file_by_minor d m = Some f"
  shows "drm_handle_create ok m i d \<noteq> Panic"
    and "drm_handle_create ok m i d = Ret (e, h, d') \<Longrightarrow>
      (e = ENOMEM \<and> d' = d \<and> \<not> ok) \<or>
      (e = E_OK \<and> h \<noteq> 0 \<and> map_of (obj_tree f) h = None \<and> gem_inv (ext(i := ext i - 1)) d' \<and>
       drm_find_file_by_minor d' m = Some (enter_handle h i f) \<and>
       (\<forall>m'. m' \<noteq> m \<longrightarrow> drm_find_file_by_minor d' m' = drm_find_file_by_minor d m') \<and>
       name_tree d' = name_tree d \<and>
       objs d' = (objs d)(i := map_option (handlecount_update (\<lambda>n. n + 1)) (objs d i)))"
proof -
  from ext_live[OF inv ext] obtain ob where live: "objs d i = Some ob" by blast
  show "drm_handle_create ok m i d \<noteq> Panic"
    using live fl by (auto simp: drm_handle_create_def drm_handle_ref_def Let_def split: option.splits)
  assume ret: "drm_handle_create ok m i d = Ret (e, h, d')"
  show "(e = ENOMEM \<and> d' = d \<and> \<not> ok) \<or>
      (e = E_OK \<and> h \<noteq> 0 \<and> map_of (obj_tree f) h = None \<and> gem_inv (ext(i := ext i - 1)) d' \<and>
       drm_find_file_by_minor d' m = Some (enter_handle h i f) \<and>
       (\<forall>m'. m' \<noteq> m \<longrightarrow> drm_find_file_by_minor d' m' = drm_find_file_by_minor d m') \<and>
       name_tree d' = name_tree d \<and>
       objs d' = (objs d)(i := map_option (handlecount_update (\<lambda>n. n + 1)) (objs d i)))"
  proof (cases ok)
    case False
    with ret show ?thesis by (simp add: drm_handle_create_def)
  next
    case True
    then obtain h' where f: "fresh_id (\<lambda>h. map_of (obj_tree f) h \<noteq> None) (obj_id f) = Some h'"
      using ret fl by (auto simp: drm_handle_create_def split: option.splits)
    have eq: "e = E_OK" "h' = h"
      "d' = upd_obj i (handlecount_update (\<lambda>n. n + 1)) (upd_file m (enter_handle h i) d)"
      using drm_handle_create_ret[OF live fl f] ret True by auto
    have h: "h \<noteq> 0" "map_of (obj_tree f) h = None" using fresh_id_fresh[OF f] eq(2) by auto
    from enter_handle_inv[OF inv ext fl h] eq h fl show ?thesis
      by (simp add: find_upd_file)
  qed
qed

section \<open>Looking a handle up\<close>

lemma drm_gem_object_lookup_inv:
  assumes inv: "gem_inv ext d" and fl: "drm_find_file_by_minor d m = Some f"
  shows "\<exists>oo d'. drm_gem_object_lookup m h d = Ret (oo, d') \<and> oo = map_of (obj_tree f) h \<and>
    (case oo of None \<Rightarrow> d' = d
     | Some i \<Rightarrow> gem_inv (ext(i := ext i + 1)) d' \<and> files d' = files d \<and> name_tree d' = name_tree d \<and>
         obj_name d' = obj_name d \<and>
         objs d' = (objs d)(i := map_option (uo_refs_update (\<lambda>n. n + 1)) (objs d i)))"
proof (cases "map_of (obj_tree f) h")
  case None
  with fl show ?thesis by (simp add: drm_gem_object_lookup_def)
next
  case (Some i)
  from handle_live[OF inv fl Some] obtain ob where live: "objs d i = Some ob" by blast
  from drm_ref_inv[OF inv live] obtain d' where r: "drm_ref i d = Ret d'"
    "gem_inv (ext(i := ext i + 1)) d'" "files d' = files d" "name_tree d' = name_tree d"
    "obj_name d' = obj_name d" "objs d' = (objs d)(i := Some (uo_refs_update (\<lambda>n. n + 1) ob))" by blast
  have "drm_gem_object_lookup m h d = Ret (Some i, d')"
    using fl Some r(1) by (simp add: drm_gem_object_lookup_def)
  with Some r(2-6) live show ?thesis by (intro exI[of _ "Some i"] exI[of _ d']) simp
qed

end
