(* ===== verification/Gem_Ioctls.thy ===== *)
theory Gem_Ioctls
  imports Gem_Handles
begin

text \<open>
  The handle ioctls of GEM and the loop of \<^verbatim>\<open>drmclose\<close> over a file's handles: none of them touches an
  object that has been freed, and each keeps the reference-counting invariant.
\<close>

section \<open>Removing a handle\<close>

abbreviation leave_handle :: "u32 \<Rightarrow> drm_file \<Rightarrow> drm_file" where
  "leave_handle h f \<equiv> f\<lparr>obj_tree := sp_remove h (obj_tree f)\<rparr>"

text \<open>The handle is gone, its reference is ours; with the last handle the name's reference is too.\<close>

definition handle_gone :: "int \<Rightarrow> u32 \<Rightarrow> nat \<Rightarrow> 'a gem_dev_scheme \<Rightarrow> 'a gem_dev_scheme" where
  "handle_gone m h i d = upd_obj i (handlecount_update (\<lambda>n. n - 1)) (upd_file m (leave_handle h) d)"

definition name_gone :: "nat \<Rightarrow> u32 \<Rightarrow> 'a gem_dev_scheme \<Rightarrow> 'a gem_dev_scheme" where
  "name_gone i n d = upd_obj i (gname_update (\<lambda>_. 0)) (d\<lparr>name_tree := sp_remove n (name_tree d)\<rparr>)"

lemma handle_gone_facts [simp]:
  "name_tree (handle_gone m h i d) = name_tree d"
  "objs (handle_gone m h i d) = (objs d)(i := map_option (handlecount_update (\<lambda>n. n - 1)) (objs d i))"
  "drm_find_file_by_minor (handle_gone m h i d) m' =
     (if m' = m then map_option (leave_handle h) (drm_find_file_by_minor d m) else drm_find_file_by_minor d m')"
  by (simp_all add: handle_gone_def find_upd_file)

lemma name_gone_facts [simp]:
  "name_tree (name_gone i n d) = sp_remove n (name_tree d)"
  "objs (name_gone i n d) = (objs d)(i := map_option (gname_update (\<lambda>_. 0)) (objs d i))"
  "files (name_gone i n d) = files d"
  "drm_find_file_by_minor (name_gone i n d) m' = drm_find_file_by_minor d m'"
  "files_wf (name_gone i n d) = files_wf d"
  "handle_refs (name_gone i n d) j = handle_refs d j"
  by (simp_all add: name_gone_def upd_obj_def drm_find_file_by_minor_def files_wf_def handle_refs_def)

lemma handle_gone_refs:
  assumes inv: "gem_inv ext d" and fl: "drm_find_file_by_minor d m = Some f"
    and h: "map_of (obj_tree f) h = Some i"
  shows "handle_refs (handle_gone m h i d) j = handle_refs d j - (if j = i then 1 else 0)"
proof -
  have wf: "files_wf d" by (rule gem_invD(1)[OF inv])
  show ?thesis
    unfolding handle_gone_def
    using handle_refs_upd_file[OF wf fl, of "leave_handle h" j]
      tree_refs_remove[OF h file_tree_wf[OF wf fl], of j] by simp
qed

lemma handle_gone_wf:
  "files_wf d \<Longrightarrow> files_wf (handle_gone m h i d)"
  unfolding handle_gone_def by (simp, rule files_wf_upd) simp_all

lemma handle_gone_zero:
  assumes inv: "gem_inv ext d" and g: "drm_find_file_by_minor (handle_gone m h i d) m' = Some g"
  shows "map_of (obj_tree g) 0 = None"
  using g gem_invD(7)[OF inv, of m'] by (auto split: if_splits)

lemma handle_gone_inv:
  assumes inv: "gem_inv ext d" and fl: "drm_find_file_by_minor d m = Some f"
    and h: "map_of (obj_tree f) h = Some i" and live: "objs d i = Some ob"
    and keep: "handlecount ob - 1 \<noteq> 0 \<or> gname ob = 0"
  shows "gem_inv (ext(i := ext i + 1)) (handle_gone m h i d)"
proof (rule gem_invI)
  note D = gem_invD[OF inv] and refs = handle_gone_refs[OF inv fl h]
  have ok: "obj_ok ext d i ob" by (rule D(4)[OF live])
  have pos: "0 < handle_refs d i" by (rule handle_refs_pos[OF fl h])
  show "files_wf (handle_gone m h i d)" by (rule handle_gone_wf[OF D(1)])
  show "sp_wf (name_tree (handle_gone m h i d))" using D(2) by simp
  show "0 \<le> (ext(i := ext i + 1)) j" for j using D(3)[of j] D(3)[of i] by simp
  show "slot_ok (ext(i := ext i + 1)) (handle_gone m h i d) j" for j
    using gem_inv_slot[OF inv, of j] live refs[of j] keep pos ok
    by (cases "j = i") (auto simp: slot_ok_def obj_ok_def name_ref_def split: option.splits)
  show "n \<noteq> 0 \<and> (\<exists>ob. objs (handle_gone m h i d) j = Some ob \<and> gname ob = n)"
    if "map_of (name_tree (handle_gone m h i d)) n = Some j" for n j
    using D(6)[of n j] that by auto
  show "map_of (obj_tree g) 0 = None" if "drm_find_file_by_minor (handle_gone m h i d) m' = Some g" for m' g
    by (rule handle_gone_zero[OF inv that])
qed

lemma name_gone_inv:
  assumes inv: "gem_inv ext d" and fl: "drm_find_file_by_minor d m = Some f"
    and h: "map_of (obj_tree f) h = Some i" and live: "objs d i = Some ob" and named: "gname ob \<noteq> 0"
  shows "gem_inv (ext(i := ext i + 2)) (name_gone i (gname ob) (handle_gone m h i d))" (is "gem_inv _ ?d")
proof (rule gem_invI)
  note D = gem_invD[OF inv] and refs = handle_gone_refs[OF inv fl h]
  have ok: "obj_ok ext d i ob" by (rule D(4)[OF live])
  then have nm: "map_of (name_tree d) (gname ob) = Some i" using named by (simp add: obj_ok_def)
  show "files_wf ?d" using handle_gone_wf[OF D(1)] by simp
  show "sp_wf (name_tree ?d)" using D(2) by simp
  show "0 \<le> (ext(i := ext i + 2)) j" for j using D(3)[of j] D(3)[of i] by simp
  have other: "gname ob' \<noteq> gname ob" if "objs d j = Some ob'" "j \<noteq> i" for j ob'
    using D(4)[OF that(1)] nm that(2) named by (auto simp: obj_ok_def)
  show "slot_ok (ext(i := ext i + 2)) ?d j" for j
  proof (cases "j = i")
    case True
    with live ok named refs[of i] show ?thesis by (simp add: slot_ok_def obj_ok_def name_ref_def)
  next
    case False
    with gem_inv_slot[OF inv, of j] refs[of j] other[of j] show ?thesis
      by (cases "objs d j") (auto simp: slot_ok_def obj_ok_def name_ref_def)
  qed
  show "n \<noteq> 0 \<and> (\<exists>ob. objs ?d j = Some ob \<and> gname ob = n)"
    if "map_of (name_tree ?d) n = Some j" for n j
  proof -
    from that have n: "n \<noteq> gname ob" "map_of (name_tree d) n = Some j" by (auto split: if_splits)
    from D(6)[OF n(2)] obtain ob' where ob': "n \<noteq> 0" "objs d j = Some ob'" "gname ob' = n" by blast
    moreover have "j \<noteq> i" using ob' n(1) live by auto
    ultimately show ?thesis by simp
  qed
  show "map_of (obj_tree g) 0 = None" if "drm_find_file_by_minor ?d m' = Some g" for m' g
    using that handle_gone_zero[OF inv] by (simp only: name_gone_facts)
qed

section \<open>Sleeping environments\<close>

text \<open>
  A property that the other threads, the flag and count changes and the destruction of an object
  keep survives \<^verbatim>\<open>drm_unref\<close>, however often it sleeps.
\<close>

lemma drm_unref_keeps:
  assumes "P d" "\<And>e d. e \<in> set sl \<Longrightarrow> P d \<Longrightarrow> P (e d)"
    and "\<And>g d. P d \<Longrightarrow> P (upd_obj i (do_flags_update g) d)"
    and "\<And>g d. P d \<Longrightarrow> P (upd_obj i (uo_refs_update g) d)"
    and "\<And>ob d. P d \<Longrightarrow> objs d i = Some ob \<Longrightarrow> P (free_object drv i ob d)"
    and "drm_unref_locked drv sl i d = Ret d'"
  shows "P d'"
  using assms
proof (induction drv sl i d rule: drm_unref_locked.induct)
  case (1 drv sl i d)
  note eq = 1(7)[unfolded drm_unref_locked.simps[of drv sl i d]]
  show ?case
  proof (cases "objs d i")
    case None
    with eq show ?thesis by simp
  next
    case (Some ob)
    show ?thesis
    proof (cases "uo_refs ob > 1 \<or> do_flags ob AND DRM_BUSY = 0")
      case True
      with eq Some 1(2,5,6) show ?thesis by (auto split: if_splits)
    next
      case busy: False
      then show ?thesis
      proof (cases sl)
        case Nil
        with eq Some busy show ?thesis by simp
      next
        case (Cons e sl')
        have c: "\<not> 1 < uo_refs ob" "do_flags ob AND DRM_BUSY \<noteq> 0" using busy by simp_all
        show ?thesis
          by (rule 1(1)[OF Some c Cons]) (use 1(2-6) eq Some c Cons in auto)
      qed
    qed
  qed
qed

text \<open>The other threads leave the handles of the file of minor \<open>m\<close> alone.\<close>

definition file_tree :: "'a gem_dev_scheme \<Rightarrow> int \<Rightarrow> (u32, nat) splay option" where
  "file_tree d m = map_option obj_tree (drm_find_file_by_minor d m)"

definition private_to :: "int \<Rightarrow> ('a gem_dev_scheme \<Rightarrow> 'a gem_dev_scheme) list \<Rightarrow> bool" where
  "private_to m sl \<longleftrightarrow> (\<forall>e\<in>set sl. \<forall>d. file_tree (e d) m = file_tree d m)"

lemma free_object_files:
  "driver_frame drv \<Longrightarrow> files (free_object drv i ob d) = files d"
proof -
  assume drv: "driver_frame drv"
  have "files (cb (upd_obj i g d) i) = files d" if "gem_free_object drv = Some cb" for cb g
  proof -
    from drv that have "gem_core (cb (upd_obj i g d) i) = gem_core (upd_obj i g d)"
      by (simp add: driver_frame_def)
    then show ?thesis by (simp add: gem_core_def)
  qed
  then show ?thesis by (simp add: free_object_def Let_def split: option.splits)
qed

lemma drm_unref_file_tree:
  assumes drv: "driver_frame drv" and pr: "private_to m sl" and ret: "drm_unref_locked drv sl i d = Ret d'"
  shows "file_tree d' m = file_tree d m"
  by (rule drm_unref_keeps[where P = "\<lambda>x. file_tree x m = file_tree d m", OF _ _ _ _ _ ret])
    (use pr in \<open>auto simp: private_to_def file_tree_def drm_find_file_by_minor_def free_object_files[OF drv]\<close>)

section \<open>Dropping a handle\<close>

lemma drm_unref_eq: "drm_unref = drm_unref_locked"
  by (intro ext) (simp add: drm_unref_def)

lemma gem_inv_ext_cong: "gem_inv ext d \<Longrightarrow> ext = ext' \<Longrightarrow> gem_inv ext' d"
  by simp

lemma drm_handle_unref_inv:
  assumes inv: "gem_inv ext d" and fl: "drm_find_file_by_minor d m = Some f"
    and h: "map_of (obj_tree f) h = Some i" and drv: "driver_frame drv" and q: "\<And>k. quiet (sl k)"
  shows "drm_handle_unref drv sl i (upd_file m (leave_handle h) d) \<noteq> Panic"
    and "drm_handle_unref drv sl i (upd_file m (leave_handle h) d) = Ret d' \<Longrightarrow> gem_inv ext d'"
proof -
  from handle_live[OF inv fl h] obtain ob where live: "objs d i = Some ob" by blast
  have nonneg: "0 \<le> ext i" by (rule gem_invD(3)[OF inv])
  have both: "drm_handle_unref drv sl i (upd_file m (leave_handle h) d) \<noteq> Panic \<and>
     (\<forall>d'. drm_handle_unref drv sl i (upd_file m (leave_handle h) d) = Ret d' \<longrightarrow> gem_inv ext d')"
  proof (cases "handlecount ob - 1 = 0 \<and> gname ob \<noteq> 0")
    case False
    then have "gem_inv (ext(i := ext i + 1)) (handle_gone m h i d)"
      by (intro handle_gone_inv[OF inv fl h live]) auto
    from drm_unref_inv[OF this _ drv q[of 1], of i] nonneg
    have "drm_unref_locked drv (sl 1) i (handle_gone m h i d) \<noteq> Panic \<and>
      (\<forall>d'. drm_unref_locked drv (sl 1) i (handle_gone m h i d) = Ret d' \<longrightarrow> gem_inv ext d')"
      by simp
    moreover have "drm_handle_unref drv sl i (upd_file m (leave_handle h) d) =
        drm_unref_locked drv (sl 1) i (handle_gone m h i d)"
      using False live by (auto simp: drm_handle_unref_def drm_unref_def handle_gone_def Let_def)
    ultimately show ?thesis by simp
  next
    case True
    let ?d = "name_gone i (gname ob) (handle_gone m h i d)"
    have "gem_inv (ext(i := ext i + 2)) ?d"
      using True by (intro name_gone_inv[OF inv fl h live]) auto
    from drm_unref_inv[OF this _ drv q[of 0], of i] nonneg
    have one: "drm_unref_locked drv (sl 0) i ?d \<noteq> Panic"
      "\<And>d1. drm_unref_locked drv (sl 0) i ?d = Ret d1 \<Longrightarrow> gem_inv (ext(i := ext i + 1)) d1"
      by (simp_all add: add.commute)
    have two: "drm_unref_locked drv (sl 1) i d1 \<noteq> Panic \<and>
        (\<forall>d'. drm_unref_locked drv (sl 1) i d1 = Ret d' \<longrightarrow> gem_inv ext d')"
      if "drm_unref_locked drv (sl 0) i ?d = Ret d1" for d1
      using drm_unref_inv[OF one(2)[OF that] _ drv q[of 1], of i] nonneg by simp
    have "drm_handle_unref drv sl i (upd_file m (leave_handle h) d) =
        obind (drm_unref_locked drv (sl 0) i ?d) (drm_unref_locked drv (sl 1) i)"
      using True live
      by (simp add: drm_handle_unref_def drm_unref_eq handle_gone_def name_gone_def Let_def)
    with one(1) two show ?thesis by (cases "drm_unref_locked drv (sl 0) i ?d") auto
  qed
  from both show "drm_handle_unref drv sl i (upd_file m (leave_handle h) d) \<noteq> Panic"
    "drm_handle_unref drv sl i (upd_file m (leave_handle h) d) = Ret d' \<Longrightarrow> gem_inv ext d'" by auto
qed

section \<open>The ioctls\<close>

lemma drm_gem_close_inv:
  assumes inv: "gem_inv ext d" and fl: "drm_find_file_by_minor d m = Some f"
    and drv: "driver_frame drv" and q: "\<And>k. quiet (sl k)"
  shows "drm_gem_close_ioctl drv sl m h d \<noteq> Panic"
    and "drm_gem_close_ioctl drv sl m h d = Ret (e, d') \<Longrightarrow> gem_inv ext d'"
proof -
  have both: "drm_gem_close_ioctl drv sl m h d \<noteq> Panic \<and>
    (\<forall>e d'. drm_gem_close_ioctl drv sl m h d = Ret (e, d') \<longrightarrow> gem_inv ext d')"
  proof (cases "has_flag (drv_flags drv) DRIVER_GEM")
    case False
    with inv show ?thesis by (simp add: drm_gem_close_ioctl_def)
  next
    case gem: True
    show ?thesis
    proof (cases "map_of (obj_tree f) h")
      case None
      with inv gem fl show ?thesis by (simp add: drm_gem_close_ioctl_def)
    next
      case (Some i)
      note u = drm_handle_unref_inv[OF inv fl Some drv q]
      have "drm_gem_close_ioctl drv sl m h d =
          obind (drm_handle_unref drv sl i (upd_file m (leave_handle h) d)) (\<lambda>d'. Ret (E_OK, d'))"
        using gem fl Some by (simp add: drm_gem_close_ioctl_def)
      with u show ?thesis
        by (cases "drm_handle_unref drv sl i (upd_file m (leave_handle h) d)") auto
    qed
  qed
  from both show "drm_gem_close_ioctl drv sl m h d \<noteq> Panic"
    "drm_gem_close_ioctl drv sl m h d = Ret (e, d') \<Longrightarrow> gem_inv ext d'" by auto
qed

text \<open>Giving a name to an object that has a handle.\<close>

definition name_given :: "nat \<Rightarrow> u32 \<Rightarrow> 'a gem_dev_scheme \<Rightarrow> 'a gem_dev_scheme" where
  "name_given i n d = upd_obj i (uo_refs_update (\<lambda>k. k + 1)) (upd_obj i (gname_update (\<lambda>_. n))
     (d\<lparr>obj_name := n, name_tree := sp_insert n i (name_tree d)\<rparr>))"

lemma name_given_facts [simp]:
  "name_tree (name_given i n d) = sp_insert n i (name_tree d)"
  "files (name_given i n d) = files d"
  "drm_find_file_by_minor (name_given i n d) m' = drm_find_file_by_minor d m'"
  "files_wf (name_given i n d) = files_wf d"
  "handle_refs (name_given i n d) j = handle_refs d j"
  by (simp_all add: name_given_def upd_obj_def drm_find_file_by_minor_def files_wf_def handle_refs_def)

lemma name_given_objs [simp]:
  "objs (name_given i n d) =
     (objs d)(i := map_option (\<lambda>ob. uo_refs_update (\<lambda>k. k + 1) (ob\<lparr>gname := n\<rparr>)) (objs d i))"
  by (cases "objs d i") (simp_all add: name_given_def upd_obj_def)

lemma name_given_inv:
  assumes inv: "gem_inv ext d" and live: "objs d i = Some ob" and "gname ob = 0" "0 < handlecount ob"
    and n: "n \<noteq> 0" "map_of (name_tree d) n = None"
  shows "gem_inv ext (name_given i n d)"
proof (rule gem_invI)
  note D = gem_invD[OF inv]
  have new: "map_of (sp_insert n i (name_tree d)) = (map_of (name_tree d))(n \<mapsto> i)"
    using D(2) n(2) by (rule map_of_sp_insert_new)
  show "files_wf (name_given i n d)" "sp_wf (name_tree (name_given i n d))" using D(1,2) by simp_all
  show "0 \<le> ext j" for j by (rule D(3))
  show "slot_ok ext (name_given i n d) j" for j
    using gem_inv_slot[OF inv, of j] live assms(3,4) n
    by (cases "j = i"; cases "objs d j") (auto simp: slot_ok_def obj_ok_def name_ref_def new)
  show "k \<noteq> 0 \<and> (\<exists>ob. objs (name_given i n d) j = Some ob \<and> gname ob = k)"
    if "map_of (name_tree (name_given i n d)) k = Some j" for k j
    using that D(6)[of k j] n(1) live assms(3) by (auto simp: new split: if_splits)
  show "map_of (obj_tree g) 0 = None" if "drm_find_file_by_minor (name_given i n d) m = Some g" for m g
    using that D(7)[of m g] by simp
qed

lemma drm_gem_flink_inv:
  assumes inv: "gem_inv ext d" and fl: "drm_find_file_by_minor d m = Some f"
    and drv: "driver_frame drv" and q: "quiet sl"
  shows "drm_gem_flink_ioctl drv sl m h d \<noteq> Panic"
    and "drm_gem_flink_ioctl drv sl m h d = Ret (e, n, d') \<Longrightarrow> gem_inv ext d'"
proof -
  have both: "drm_gem_flink_ioctl drv sl m h d \<noteq> Panic \<and>
    (\<forall>e n d'. drm_gem_flink_ioctl drv sl m h d = Ret (e, n, d') \<longrightarrow> gem_inv ext d')"
  proof (cases "has_flag (drv_flags drv) DRIVER_GEM")
    case False
    with inv show ?thesis by (simp add: drm_gem_flink_ioctl_def)
  next
    case gem: True
    from drm_gem_object_lookup_inv[OF inv fl, of h] obtain d1 where
      lk: "drm_gem_object_lookup m h d = Ret (map_of (obj_tree f) h, d1)"
      and post: "case map_of (obj_tree f) h of None \<Rightarrow> d1 = d
       | Some i \<Rightarrow> gem_inv (ext(i := ext i + 1)) d1 \<and> files d1 = files d \<and> name_tree d1 = name_tree d \<and>
         obj_name d1 = obj_name d \<and>
         objs d1 = (objs d)(i := map_option (uo_refs_update (\<lambda>n. n + 1)) (objs d i))"
      by blast
    show ?thesis
    proof (cases "map_of (obj_tree f) h")
      case None
      with inv gem lk post show ?thesis by (simp add: drm_gem_flink_ioctl_def)
    next
      case (Some i)
      from post Some have inv1: "gem_inv (ext(i := ext i + 1)) d1" and fs: "files d1 = files d" by simp_all
      have nonneg: "0 \<le> ext i" by (rule gem_invD(3)[OF inv])
      have fl1: "drm_find_file_by_minor d1 m = Some f" using fl fs by (simp add: drm_find_file_by_minor_def)
      from handle_live[OF inv1 fl1 Some] obtain ob where live: "objs d1 i = Some ob" by blast
      have hc: "0 < handlecount ob"
        using gem_invD(4)[OF inv1 live] handle_refs_pos[OF fl1 Some] by (simp add: obj_ok_def)
      have fin: "drm_unref drv sl i d2 \<noteq> Panic \<and> (\<forall>d'. drm_unref drv sl i d2 = Ret d' \<longrightarrow> gem_inv ext d')"
        if "gem_inv (ext(i := ext i + 1)) d2" for d2
        using drm_unref_inv[OF that _ drv q, of i] nonneg by (simp add: drm_unref_def)
      show ?thesis
      proof (cases "gname ob = 0")
        case False
        then have "drm_gem_flink_ioctl drv sl m h d =
            obind (drm_unref drv sl i d1) (\<lambda>d3. Ret (E_OK, gname ob, d3))"
          using gem lk Some live by (simp add: drm_gem_flink_ioctl_def)
        with fin[OF inv1] show ?thesis by (cases "drm_unref drv sl i d1") auto
      next
        case True
        show ?thesis
        proof (cases "fresh_id (\<lambda>n. map_of (name_tree d1) n \<noteq> None) (obj_name d1)")
          case None
          with True gem lk Some live show ?thesis by (simp add: drm_gem_flink_ioctl_def)
        next
          case new: (Some n)
          from fresh_id_fresh[OF new] have n: "n \<noteq> 0" "map_of (name_tree d1) n = None" by simp_all
          have "drm_gem_flink_ioctl drv sl m h d =
              obind (drm_unref drv sl i (name_given i n d1)) (\<lambda>d3. Ret (E_OK, n, d3))"
            using gem lk Some live new True
            by (simp add: drm_gem_flink_ioctl_def drm_ref_def drm_ref_locked_def name_given_def upd_obj_def)
          with fin[OF name_given_inv[OF inv1 live True hc n]] show ?thesis
            by (cases "drm_unref drv sl i (name_given i n d1)") auto
        qed
      qed
    qed
  qed
  from both show "drm_gem_flink_ioctl drv sl m h d \<noteq> Panic"
    "drm_gem_flink_ioctl drv sl m h d = Ret (e, n, d') \<Longrightarrow> gem_inv ext d'" by auto
qed

lemma drm_gem_open_inv:
  assumes inv: "gem_inv ext d" and fl: "drm_find_file_by_minor d m = Some f"
    and drv: "driver_frame drv" and q: "quiet sl"
  shows "drm_gem_open_ioctl drv sl ok m n d \<noteq> Panic"
    and "drm_gem_open_ioctl drv sl ok m n d = Ret (e, h, sz, d') \<Longrightarrow> gem_inv ext d'"
proof -
  have both: "drm_gem_open_ioctl drv sl ok m n d \<noteq> Panic \<and>
    (\<forall>e h sz d'. drm_gem_open_ioctl drv sl ok m n d = Ret (e, h, sz, d') \<longrightarrow> gem_inv ext d')"
  proof (cases "has_flag (drv_flags drv) DRIVER_GEM \<and> map_of (name_tree d) n \<noteq> None")
    case False
    with inv show ?thesis by (auto simp: drm_gem_open_ioctl_def)
  next
    case True
    then obtain i where i: "map_of (name_tree d) n = Some i" and gem: "has_flag (drv_flags drv) DRIVER_GEM"
      by auto
    from gem_invD(6)[OF inv i] obtain ob where live: "objs d i = Some ob" by blast
    from drm_ref_inv[OF inv live] obtain d1 where r: "drm_ref i d = Ret d1"
      "gem_inv (ext(i := ext i + 1)) d1" "files d1 = files d" by blast
    have nonneg: "0 \<le> ext i" by (rule gem_invD(3)[OF inv])
    then have pos: "0 < (ext(i := ext i + 1)) i" by simp
    have fl1: "drm_find_file_by_minor d1 m = Some f" using fl r(3) by (simp add: drm_find_file_by_minor_def)
    note c = drm_handle_create_inv[OF r(2) pos fl1, of ok]
    have u: "drm_unref_locked drv sl i d1 \<noteq> Panic \<and>
        (\<forall>d'. drm_unref_locked drv sl i d1 = Ret d' \<longrightarrow> gem_inv ext d')"
      using drm_unref_inv[OF r(2) pos drv q]
      unfolding fun_upd_upd fun_upd_same add_diff_cancel_right' fun_upd_triv by simp
    have unf: "drm_gem_open_ioctl drv sl ok m n d =
      obind (drm_handle_create ok m i d1) (\<lambda>(e, h, d2).
        if e \<noteq> E_OK then obind (drm_unref drv sl i d2) (\<lambda>d3. Ret (e, 0, 0, d3))
        else case objs d2 i of None \<Rightarrow> Panic | Some obj \<Rightarrow> Ret (E_OK, h, obj_size obj, d2))"
      using gem i r(1) by (simp add: drm_gem_open_ioctl_def)
    show ?thesis
    proof (cases "drm_handle_create ok m i d1")
      case (Ret x)
      obtain e h d2 where x: "x = (e, h, d2)" by (cases x)
      from c(2)[OF Ret[unfolded x]] show ?thesis
      proof
        assume "e = ENOMEM \<and> d2 = d1 \<and> \<not> ok"
        with u unf Ret x show ?thesis
          by (cases "drm_unref_locked drv sl i d1") (auto simp: drm_unref_def)
      next
        assume a: "e = E_OK \<and> h \<noteq> 0 \<and> map_of (obj_tree f) h = None \<and>
          gem_inv ((ext(i := ext i + 1))(i := (ext(i := ext i + 1)) i - 1)) d2 \<and>
          drm_find_file_by_minor d2 m = Some (enter_handle h i f) \<and>
          (\<forall>m'. m' \<noteq> m \<longrightarrow> drm_find_file_by_minor d2 m' = drm_find_file_by_minor d1 m') \<and>
          name_tree d2 = name_tree d1 \<and>
          objs d2 = (objs d1)(i := map_option (handlecount_update (\<lambda>n. n + 1)) (objs d1 i))"
        moreover obtain ob1 where "objs d1 i = Some ob1" using ext_live[OF r(2) pos] by blast
        ultimately show ?thesis using unf Ret x by simp
      qed
    next
      case Panic
      with c(1) show ?thesis by simp
    next
      case Asleep
      with unf show ?thesis by simp
    qed
  qed
  from both show "drm_gem_open_ioctl drv sl ok m n d \<noteq> Panic"
    "drm_gem_open_ioctl drv sl ok m n d = Ret (e, h, sz, d') \<Longrightarrow> gem_inv ext d'" by auto
qed

end
