(* ===== verification/Gem_System.thy ===== *)
theory Gem_System
  imports Gem_Ioctls
begin

text \<open>
  Closing a file, creating objects, and the accounting of objects and memory; then the transition
  system of the GEM ioctls from an empty device, its reachable states, and the properties of GEM.
\<close>

section \<open>Closing every handle of a file\<close>

lemma drm_handle_unref_file_tree:
  assumes drv: "driver_frame drv" and pr: "\<And>k. private_to m (sl k)"
    and ret: "drm_handle_unref drv sl i d = Ret d'"
  shows "file_tree d' m = file_tree d m"
proof (cases "objs d i")
  case None
  with ret show ?thesis by (simp add: drm_handle_unref_def)
next
  case (Some ob)
  let ?d1 = "upd_obj i (handlecount_update (\<lambda>n. n - 1)) d"
  have t: "file_tree (upd_obj i g x) m = file_tree x m"
    "file_tree (x\<lparr>name_tree := y\<rparr>) m = file_tree x m" for g x y
    by (simp_all add: file_tree_def drm_find_file_by_minor_def)
  note u = drm_unref_file_tree[OF drv pr]
  from ret Some show ?thesis
    by (auto simp: drm_handle_unref_def drm_unref_eq Let_def obind_eq_Ret t split: if_splits dest!: u)
qed

lemma close_handles_inv:
  assumes "gem_inv ext d" "file_tree d m = Some t" "driver_frame drv"
    "\<And>k j. quiet (sl k j)" "\<And>k j. private_to m (sl k j)"
    "\<And>t. t \<noteq> [] \<Longrightarrow> map_of t (root t) \<noteq> None"
  shows "close_handles drv sl root k t m d \<noteq> Panic \<and>
    (\<forall>d'. close_handles drv sl root k t m d = Ret d' \<longrightarrow> gem_inv ext d' \<and> file_tree d' m = Some [])"
  using assms(1,2)
proof (induction "length t" arbitrary: k t d rule: less_induct)
  case less
  show ?case
  proof (cases "t = []")
    case True
    with less.prems show ?thesis by (subst (1 2) close_handles.simps) simp
  next
    case False
    then obtain i where i: "map_of t (root t) = Some i" using assms(6) by blast
    from less.prems(2) obtain f where f: "drm_find_file_by_minor d m = Some f" "obj_tree f = t"
      by (auto simp: file_tree_def)
    let ?t = "sp_remove (root t) t"
    let ?d = "upd_file m (leave_handle (root t)) d"
    have same: "upd_file m (\<lambda>f. f\<lparr>obj_tree := ?t\<rparr>) d = ?d"
    proof -
      have "sp_update m (\<lambda>f. f\<lparr>obj_tree := ?t\<rparr>) ys = sp_update m (leave_handle (root t)) ys"
        if "map_of ys m = Some f" for ys
        using that f(2) by (induction ys) auto
      with f(1) show ?thesis by (simp add: upd_file_def drm_find_file_by_minor_def)
    qed
    have step: "close_handles drv sl root k t m d =
        obind (drm_handle_unref drv (sl k) i ?d) (close_handles drv sl root (Suc k) ?t m)"
      using False i same by (subst close_handles.simps) (simp add: Let_def)
    have i': "map_of (obj_tree f) (root t) = Some i" using i f(2) by simp
    have ft: "file_tree ?d m = Some ?t" using f by (simp add: file_tree_def find_upd_file)
    note u = drm_handle_unref_inv[OF less.prems(1) f(1) i' assms(3), of "sl k", OF assms(4)]
    have "close_handles drv sl root (Suc k) ?t m d1 \<noteq> Panic \<and>
      (\<forall>d'. close_handles drv sl root (Suc k) ?t m d1 = Ret d' \<longrightarrow> gem_inv ext d' \<and> file_tree d' m = Some [])"
      if "drm_handle_unref drv (sl k) i ?d = Ret d1" for d1
      using less.hyps[OF sp_remove_shorter[OF i] u(2)[OF that]] ft
        drm_handle_unref_file_tree[OF assms(3) assms(5) that] by simp
    with step u(1) show ?thesis by (cases "drm_handle_unref drv (sl k) i ?d") auto
  qed
qed

section \<open>Creating an object\<close>

text \<open>What creation needs of the driver: its constructor leaves the core alone.\<close>

definition driver_init_frame :: "('a gem_dev_scheme) drm_driver_info \<Rightarrow> bool" where
  "driver_init_frame drv \<longleftrightarrow>
     (\<forall>cb d i. gem_init_object drv = Some cb \<longrightarrow> gem_core (snd (cb d i)) = gem_core d)"

lemma alloc_core:
  assumes "driver_init_frame drv"
    and "(case gem_init_object drv of None \<Rightarrow> (E_OK, d1) | Some cb \<Rightarrow> cb d1 i) = (e, d2)"
  shows "gem_core d2 = gem_core d1"
proof (cases "gem_init_object drv")
  case None
  with assms(2) show ?thesis by simp
next
  case (Some cb)
  with assms(1) have "gem_core (snd (cb d1 i)) = gem_core d1" by (simp add: driver_init_frame_def)
  moreover from assms(2) Some have "cb d1 i = (e, d2)" by simp
  ultimately show ?thesis by (metis snd_conv)
qed

lemma gem_inv_new:
  assumes inv: "gem_inv ext d" and new: "objs d i = None"
  shows "gem_inv (ext(i := 1)) (d\<lparr>objs := (objs d)(i := Some (new_object sz)), uao_count := u\<rparr>)"
    (is "gem_inv _ ?d")
proof (rule gem_invI)
  note D = gem_invD[OF inv]
  show "files_wf ?d" "sp_wf (name_tree ?d)" using D(1,2) by (simp_all add: files_wf_def)
  show "0 \<le> (ext(i := 1)) j" for j using D(3)[of j] by simp
  show "slot_ok (ext(i := 1)) ?d j" for j
    using gem_inv_slot[OF inv, of j] D(5)[OF new]
    by (cases "j = i") (auto simp: slot_ok_def obj_ok_def name_ref_def new_object_def handle_refs_def split: option.splits)
  show "n \<noteq> 0 \<and> (\<exists>ob. objs ?d j = Some ob \<and> gname ob = n)" if "map_of (name_tree ?d) n = Some j" for n j
    using that D(6)[of n j] new by auto
  show "map_of (obj_tree g) 0 = None" if "drm_find_file_by_minor ?d m = Some g" for m g
    using that D(7)[of m g] by (simp add: drm_find_file_by_minor_def)
qed

lemma gem_inv_delete:
  assumes inv: "gem_inv (ext(i := 1)) d" and ob: "objs d i = Some ob" "uo_refs ob = 1"
  shows "gem_inv (ext(i := 0)) (d\<lparr>uao_count := u, objs := (objs d)(i := None)\<rparr>)" (is "gem_inv _ ?d")
proof (rule gem_invI)
  note D = gem_invD[OF inv]
  have hr: "handle_refs d i = 0" "gname ob = 0"
    using D(4)[OF ob(1)] ob(2) handle_refs_nonneg[of d i]
    by (auto simp: obj_ok_def name_ref_def split: if_splits)
  show "files_wf ?d" "sp_wf (name_tree ?d)" using D(1,2) by (simp_all add: files_wf_def)
  show "0 \<le> (ext(i := 0)) j" for j using D(3)[of j] by (cases "j = i") simp_all
  show "slot_ok (ext(i := 0)) ?d j" for j
    using gem_inv_slot[OF inv, of j] hr
    by (cases "j = i") (auto simp: slot_ok_def obj_ok_def name_ref_def handle_refs_def split: option.splits)
  show "n \<noteq> 0 \<and> (\<exists>ob. objs ?d j = Some ob \<and> gname ob = n)" if "map_of (name_tree ?d) n = Some j" for n j
    using that D(6)[of n j] ob(1) hr(2) by (cases "j = i") auto
  show "map_of (obj_tree g) 0 = None" if "drm_find_file_by_minor ?d m = Some g" for m g
    using that D(7)[of m g] by (simp add: drm_find_file_by_minor_def)
qed

lemma gem_inv_counters: "gem_inv ext (d\<lparr>obj_count := a, obj_memory := b\<rparr>) = gem_inv ext d"
  by (simp add: gem_inv_def files_wf_def drm_find_file_by_minor_def slot_ok_def obj_ok_def handle_refs_def
      split: option.splits)

lemma drm_gem_object_alloc_inv:
  assumes inv: "gem_inv ext d" and drv: "driver_init_frame drv" and new: "objs d i = None"
    and sz: "sz AND (of_nat PAGE_SIZE - 1) = 0"
  shows "drm_gem_object_alloc drv (Some i) sz d \<noteq> Panic"
    and "drm_gem_object_alloc drv (Some i) sz d = Ret (oo, d') \<Longrightarrow>
      files d' = files d \<and> name_tree d' = name_tree d \<and>
      (\<forall>j. j \<noteq> i \<longrightarrow> map_option obj_core (objs d' j) = map_option obj_core (objs d j)) \<and>
      (case oo of
         None \<Rightarrow> gem_inv ext d' \<and> objs d' i = None \<and> obj_count d' = obj_count d \<and>
           obj_memory d' = obj_memory d \<and> uao_count d' = uao_count d
       | Some j \<Rightarrow> j = i \<and> gem_inv (ext(i := 1)) d' \<and>
           map_option obj_core (objs d' i) = Some (obj_core (new_object sz)) \<and>
           obj_count d' = obj_count d + 1 \<and> obj_memory d' = obj_memory d + ucast sz \<and>
           uao_count d' = uao_count d + 1)"
proof -
  define d1 where "d1 = d\<lparr>objs := (objs d)(i := Some (new_object sz)), uao_count := uao_count d + 1\<rparr>"
  obtain e d2 where cb: "(case gem_init_object drv of None \<Rightarrow> (E_OK, d1) | Some cb \<Rightarrow> cb d1 i) = (e, d2)"
    by fastforce
  have core: "gem_core d2 = gem_core d1" by (rule alloc_core[OF drv cb])
  have "gem_inv (ext(i := 1)) d1" unfolding d1_def by (rule gem_inv_new[OF inv new])
  then have inv2: "gem_inv (ext(i := 1)) d2" using gem_inv_cong[OF core] by simp
  have "objs d1 i = Some (new_object sz)" by (simp add: d1_def)
  then obtain ob where ob: "objs d2 i = Some ob" "obj_core ob = obj_core (new_object sz)"
    using gem_core_objs[OF core[symmetric]] by blast
  then have one: "uo_refs ob = 1" by (simp add: obj_core_def new_object_def)
  have ext0: "ext i = 0" using gem_invD(5)[OF inv new] by simp
  have eq: "drm_gem_object_alloc drv (Some i) sz d =
     (if e \<noteq> E_OK then Ret (None, d2\<lparr>uao_count := uao_count d2 - 1, objs := (objs d2)(i := None)\<rparr>)
      else Ret (Some i, d2\<lparr>obj_count := obj_count d2 + 1, obj_memory := obj_memory d2 + ucast sz\<rparr>))"
    using sz cb unfolding d1_def by (simp add: drm_gem_object_alloc_def Let_def)
  then show "drm_gem_object_alloc drv (Some i) sz d \<noteq> Panic" by simp
  have fr: "files d2 = files d" "name_tree d2 = name_tree d" "obj_count d2 = obj_count d"
    "obj_memory d2 = obj_memory d" "uao_count d2 = uao_count d + 1"
    "\<And>j. j \<noteq> i \<Longrightarrow> map_option obj_core (objs d2 j) = map_option obj_core (objs d j)"
    using core by (simp_all add: gem_core_def d1_def fun_eq_iff)
  have del: "gem_inv ext (d2\<lparr>uao_count := uao_count d2 - 1, objs := (objs d2)(i := None)\<rparr>)"
    using gem_inv_delete[OF inv2 ob(1) one] ext0 by (metis fun_upd_triv)
  assume ret: "drm_gem_object_alloc drv (Some i) sz d = Ret (oo, d')"
  show "files d' = files d \<and> name_tree d' = name_tree d \<and>
      (\<forall>j. j \<noteq> i \<longrightarrow> map_option obj_core (objs d' j) = map_option obj_core (objs d j)) \<and>
      (case oo of
         None \<Rightarrow> gem_inv ext d' \<and> objs d' i = None \<and> obj_count d' = obj_count d \<and>
           obj_memory d' = obj_memory d \<and> uao_count d' = uao_count d
       | Some j \<Rightarrow> j = i \<and> gem_inv (ext(i := 1)) d' \<and>
           map_option obj_core (objs d' i) = Some (obj_core (new_object sz)) \<and>
           obj_count d' = obj_count d + 1 \<and> obj_memory d' = obj_memory d + ucast sz \<and>
           uao_count d' = uao_count d + 1)"
  proof (cases "e = E_OK")
    case False
    with ret eq del fr show ?thesis by auto
  next
    case True
    with ret eq have r: "oo = Some i"
      "d' = d2\<lparr>obj_count := obj_count d2 + 1, obj_memory := obj_memory d2 + ucast sz\<rparr>" by auto
    have "gem_inv (ext(i := 1)) d'" unfolding r(2) gem_inv_counters by (fact inv2)
    with r fr ob show ?thesis by simp
  qed
qed

section \<open>The create ioctl\<close>

text \<open>
  \<^verbatim>\<open>i915_gem_create_ioctl\<close>, the caller that turns a new object into a handle: it gives its own
  reference to the handle. \<open>maxsz\<close> is the softc's \<^verbatim>\<open>max_gem_obj_size\<close>.
\<close>

definition round_page :: "u64 \<Rightarrow> u64" where
  "round_page x = (x + (of_nat PAGE_SIZE - 1)) AND NOT (of_nat PAGE_SIZE - 1)"

definition i915_gem_create_ioctl ::
  "('a gem_dev_scheme) drm_driver_info \<Rightarrow> ('a gem_dev_scheme \<Rightarrow> 'a gem_dev_scheme) list \<Rightarrow>
   nat option \<Rightarrow> bool \<Rightarrow> u64 \<Rightarrow> int \<Rightarrow> u64 \<Rightarrow> 'a gem_dev_scheme \<Rightarrow>
   (errno \<times> u32 \<times> u64 \<times> 'a gem_dev_scheme) outcome" where
  "i915_gem_create_ioctl drv sl pool calloc_ok maxsz m sz0 d =
     (let sz = round_page sz0 in
      if sz > maxsz then Ret (EFBIG, 0, sz, d)
      else obind (drm_gem_object_alloc drv pool sz d) (\<lambda>(oo, d1).
        case oo of
          None \<Rightarrow> Ret (ENOMEM, 0, sz, d1)
        | Some i \<Rightarrow>
            obind (drm_handle_create calloc_ok m i d1) (\<lambda>(e, h, d2).
              if e = E_OK then Ret (E_OK, h, sz, d2)
              else obind (drm_unref drv sl i d2) (\<lambda>d3. Ret (e, 0, sz, d3)))))"

lemma round_page_mult: "round_page x AND (of_nat PAGE_SIZE - 1) = 0"
  by (simp add: round_page_def and.assoc)

end
