(* ===== verification/Gem_Acct.thy ===== *)
theory Gem_Acct
  imports Gem_System
begin

text \<open>
  The accounting of objects and memory: every GEM operation keeps the device's three counters equal
  to what the live objects add up to.
\<close>

lemma free_object_acct:
  assumes drv: "driver_frame drv" and acct: "gem_acct d" and live: "objs d i = Some ob"
  shows "gem_acct (free_object drv i ob d)"
proof -
  define d1 where "d1 = upd_obj i (do_flags_update (\<lambda>w. w OR DRM_BUSY)) d"
  define d2 where "d2 = (case gem_free_object drv of None \<Rightarrow> d1 | Some cb \<Rightarrow> cb d1 i)"
  have core: "gem_core d2 = gem_core d"
    using drv by (auto simp: d2_def d1_def driver_frame_def split: option.splits)
  have free: "free_object drv i ob d = d2\<lparr>uao_count := uao_count d2 - 1, obj_count := obj_count d2 - 1,
      obj_memory := obj_memory d2 - ucast (obj_size ob), objs := (objs d2)(i := None)\<rparr>"
    unfolding free_object_def Let_def d1_def[symmetric] d2_def[symmetric] by simp
  obtain ob2 where ob2: "objs d2 i = Some ob2" "obj_core ob2 = obj_core ob"
    using gem_core_objs[OF core[symmetric] live] by blast
  then have sz: "obj_size ob2 = obj_size ob" by (simp add: obj_core_def)
  have "gem_acct d2" using acct gem_core_acct[OF core] by simp
  from gem_acct_remove[OF this ob2(1)] show ?thesis unfolding free sz .
qed

lemma drm_unref_acct:
  assumes drv: "driver_frame drv" and q: "quiet sl" and acct: "gem_acct d"
    and ret: "drm_unref_locked drv sl i d = Ret d'"
  shows "gem_acct d'"
  by (rule drm_unref_keeps[where P = gem_acct, OF acct _ _ _ _ ret])
    (use q free_object_acct[OF drv] in \<open>auto simp: quiet_def\<close>)

lemma drm_handle_unref_acct:
  assumes "driver_frame drv" "\<And>k. quiet (sl k)" "gem_acct d" "drm_handle_unref drv sl i d = Ret d'"
  shows "gem_acct d'"
  using assms(3,4)
  by (auto simp: drm_handle_unref_def drm_unref_eq Let_def obind_eq_Ret split: option.splits if_splits
      dest!: drm_unref_acct[OF assms(1,2), rotated])

lemma drm_gem_object_lookup_acct:
  "drm_gem_object_lookup m h d = Ret (oo, d') \<Longrightarrow> gem_acct d \<Longrightarrow> gem_acct d'"
  by (auto simp: drm_gem_object_lookup_def drm_ref_def drm_ref_locked_def split: option.splits if_splits)

lemma drm_handle_create_acct:
  "drm_handle_create ok m i d = Ret (e, h, d') \<Longrightarrow> gem_acct d \<Longrightarrow> gem_acct d'"
  by (auto simp: drm_handle_create_def drm_handle_ref_def Let_def split: option.splits if_splits)

lemma drm_gem_close_acct:
  assumes "driver_frame drv" "\<And>k. quiet (sl k)" "gem_acct d" "drm_gem_close_ioctl drv sl m h d = Ret (e, d')"
  shows "gem_acct d'"
  using assms(3,4)
  by (auto simp: drm_gem_close_ioctl_def obind_eq_Ret split: option.splits if_splits
      dest!: drm_handle_unref_acct[OF assms(1,2), rotated])

lemma drm_gem_flink_acct:
  assumes "driver_frame drv" "quiet sl" "gem_acct d" "drm_gem_flink_ioctl drv sl m h d = Ret (e, n, d')"
  shows "gem_acct d'"
proof (cases "has_flag (drv_flags drv) DRIVER_GEM")
  case False
  with assms(3,4) show ?thesis by (simp add: drm_gem_flink_ioctl_def)
next
  case True
  with assms(4) obtain oo d1 where lk: "drm_gem_object_lookup m h d = Ret (oo, d1)"
    by (auto simp: drm_gem_flink_ioctl_def obind_eq_Ret)
  have a1: "gem_acct d1" by (rule drm_gem_object_lookup_acct[OF lk assms(3)])
  show ?thesis
    using assms(4) a1 True
    by (auto simp: drm_gem_flink_ioctl_def lk obind_eq_Ret drm_ref_def drm_ref_locked_def drm_unref_eq
        split: option.splits if_splits dest!: drm_unref_acct[OF assms(1,2), rotated])
qed

lemma drm_gem_open_acct:
  assumes "driver_frame drv" "quiet sl" "gem_acct d" "drm_gem_open_ioctl drv sl ok m n d = Ret (e, h, sz, d')"
  shows "gem_acct d'"
  using assms(3,4)
  by (auto simp: drm_gem_open_ioctl_def obind_eq_Ret drm_ref_def drm_ref_locked_def drm_unref_eq
      split: option.splits if_splits dest!: drm_handle_create_acct drm_unref_acct[OF assms(1,2), rotated])

lemma gem_acct_new:
  assumes "gem_acct d" "objs d i = None"
    and "live_size d' = (live_size d)(i := Some sz)" "obj_count d' = obj_count d + 1"
    "obj_memory d' = obj_memory d + ucast sz" "uao_count d' = uao_count d + 1"
  shows "gem_acct d'"
proof -
  have new: "i \<notin> dom (live_size d)" using assms(2) by (auto simp: live_size_def)
  have fin: "finite (dom (live_size d))" using assms(1) by (simp add: gem_acct_def)
  have "(\<Sum>j\<in>dom (live_size d). ucast (the (live_size d' j)) :: u32) =
      (\<Sum>j\<in>dom (live_size d). ucast (the (live_size d j)))"
    using new by (intro sum.cong) (auto simp: assms(3))
  then show ?thesis
    using assms(1,4-6) new fin unfolding gem_acct_def assms(3) by (simp add: assms(3)[symmetric] ac_simps)
      (simp add: assms(3))
qed

lemma drm_gem_object_alloc_acct:
  assumes inv: "gem_inv ext d" and drv: "driver_init_frame drv" and new: "objs d i = None"
    and sz: "sz AND (of_nat PAGE_SIZE - 1) = 0" and acct: "gem_acct d"
    and ret: "drm_gem_object_alloc drv (Some i) sz d = Ret (oo, d')"
  shows "gem_acct d'"
proof -
  note a = drm_gem_object_alloc_inv(2)[OF inv drv new sz ret]
  have other: "live_size d' j = live_size d j" if "j \<noteq> i" for j
  proof -
    from a that have "map_option obj_core (objs d' j) = map_option obj_core (objs d j)" by blast
    then show ?thesis by (cases "objs d' j"; cases "objs d j") (auto simp: live_size_def obj_core_def)
  qed
  show ?thesis
  proof (cases oo)
    case None
    with a new have "live_size d' i = live_size d i" by (simp add: live_size_def)
    with other have "live_size d' = live_size d" by (metis ext)
    with a None acct show ?thesis by (simp add: gem_acct_def)
  next
    case (Some j)
    with a have "map_option obj_core (objs d' i) = Some (obj_core (new_object sz))" by simp
    then have "live_size d' i = Some sz"
      by (cases "objs d' i") (auto simp: live_size_def obj_core_def new_object_def)
    with other have "live_size d' = (live_size d)(i := Some sz)" by (intro ext) simp
    then show ?thesis using a Some by (intro gem_acct_new[OF acct new]) simp_all
  qed
qed

end
