(* ===== verification/Gem_Reach.thy ===== *)
theory Gem_Reach
  imports Gem_Acct
begin

text \<open>
  The transition system of the GEM calls on a device, from a device with no file and no object:
  every reachable state keeps the reference counts and the accounting, and no call touches an object
  that has been freed.
\<close>

section \<open>The calls\<close>

datatype gem_call =
    G_create "nat option" bool u64 u64
  | G_close u32
  | G_flink u32
  | G_open bool u32
  | G_release

text \<open>The files' part of \<^verbatim>\<open>drmclose\<close>: every handle is dropped, then the file leaves the tree.\<close>

definition gem_release ::
  "('a gem_dev_scheme) drm_driver_info \<Rightarrow>
   (nat \<Rightarrow> nat \<Rightarrow> ('a gem_dev_scheme \<Rightarrow> 'a gem_dev_scheme) list) \<Rightarrow> ((u32, nat) splay \<Rightarrow> u32) \<Rightarrow>
   int \<Rightarrow> 'a gem_dev_scheme \<Rightarrow> 'a gem_dev_scheme outcome" where
  "gem_release drv sl root m d =
     (case drm_find_file_by_minor d m of
        None \<Rightarrow> Panic
      | Some f \<Rightarrow>
          obind (if has_flag (drv_flags drv) DRIVER_GEM
                 then close_handles drv sl root 0 (obj_tree f) m d else Ret d)
            (\<lambda>d'. Ret (d'\<lparr>files := sp_remove m (files d')\<rparr>)))"

definition gem_exec ::
  "('a gem_dev_scheme) drm_driver_info \<Rightarrow>
   (nat \<Rightarrow> nat \<Rightarrow> ('a gem_dev_scheme \<Rightarrow> 'a gem_dev_scheme) list) \<Rightarrow> ((u32, nat) splay \<Rightarrow> u32) \<Rightarrow>
   int \<Rightarrow> gem_call \<Rightarrow> 'a gem_dev_scheme \<Rightarrow> 'a gem_dev_scheme outcome" where
  "gem_exec drv sl root m c d =
     (case c of
        G_create pool ok maxsz sz \<Rightarrow>
          obind (i915_gem_create_ioctl drv (sl 0 0) pool ok maxsz m sz d) (\<lambda>(_, _, _, d'). Ret d')
      | G_close h \<Rightarrow> obind (drm_gem_close_ioctl drv (sl 0) m h d) (\<lambda>(_, d'). Ret d')
      | G_flink h \<Rightarrow> obind (drm_gem_flink_ioctl drv (sl 0 0) m h d) (\<lambda>(_, _, d'). Ret d')
      | G_open ok n \<Rightarrow> obind (drm_gem_open_ioctl drv (sl 0 0) ok m n d) (\<lambda>(_, _, _, d'). Ret d')
      | G_release \<Rightarrow> gem_release drv sl root m d)"

text \<open>What a call needs: its file is open, and the pool hands out no object that is in use.\<close>

fun gem_call_ok :: "int \<Rightarrow> gem_call \<Rightarrow> 'a gem_dev_scheme \<Rightarrow> bool" where
  "gem_call_ok m c d \<longleftrightarrow> drm_find_file_by_minor d m \<noteq> None \<and>
     (case c of G_create (Some i) ok maxsz sz \<Rightarrow> objs d i = None | _ \<Rightarrow> True)"

inductive gem_reachable ::
  "('a gem_dev_scheme) drm_driver_info \<Rightarrow>
   (nat \<Rightarrow> nat \<Rightarrow> ('a gem_dev_scheme \<Rightarrow> 'a gem_dev_scheme) list) \<Rightarrow> ((u32, nat) splay \<Rightarrow> u32) \<Rightarrow>
   'a gem_dev_scheme \<Rightarrow> bool"
  for drv sl root where
  start: "files d = [] \<Longrightarrow> name_tree d = [] \<Longrightarrow> objs d = Map.empty \<Longrightarrow> uao_count d = 0 \<Longrightarrow>
    obj_count d = 0 \<Longrightarrow> obj_memory d = 0 \<Longrightarrow> gem_reachable drv sl root d"
| opened: "gem_reachable drv sl root d \<Longrightarrow> drm_find_file_by_minor d m = None \<Longrightarrow> f_minor f = m \<Longrightarrow>
    obj_tree f = [] \<Longrightarrow> gem_reachable drv sl root (d\<lparr>files := sp_insert m f (files d)\<rparr>)"
| call: "gem_reachable drv sl root d \<Longrightarrow> gem_call_ok m c d \<Longrightarrow> gem_exec drv sl root m c d = Ret d' \<Longrightarrow>
    gem_reachable drv sl root d'"

text \<open>The surroundings: a driver that leaves the core alone and threads that finish what they start
  and do not use a file that is being closed; \<open>root\<close> is some element of a tree that has one.\<close>

definition gem_env_ok ::
  "('a gem_dev_scheme) drm_driver_info \<Rightarrow>
   (nat \<Rightarrow> nat \<Rightarrow> ('a gem_dev_scheme \<Rightarrow> 'a gem_dev_scheme) list) \<Rightarrow> ((u32, nat) splay \<Rightarrow> u32) \<Rightarrow> bool" where
  "gem_env_ok drv sl root \<longleftrightarrow> driver_frame drv \<and> driver_init_frame drv \<and>
     (\<forall>k j. quiet (sl k j)) \<and> (\<forall>k j m. private_to m (sl k j)) \<and>
     (\<forall>t. t \<noteq> [] \<longrightarrow> map_of t (root t) \<noteq> None)"

lemma gem_env_okD:
  assumes "gem_env_ok drv sl root"
  shows "driver_frame drv" "driver_init_frame drv" "quiet (sl k j)" "private_to m (sl k j)"
    "t \<noteq> [] \<Longrightarrow> map_of t (root t) \<noteq> None"
  using assms unfolding gem_env_ok_def by blast+

section \<open>Each call keeps the invariants\<close>

definition gem_good :: "'a gem_dev_scheme \<Rightarrow> bool" where
  "gem_good d \<longleftrightarrow> gem_inv (\<lambda>_. 0) d \<and> gem_acct d"

lemma gem_create_fails:
  assumes "round_page sz > maxsz \<or> pool = None"
  shows "i915_gem_create_ioctl drv sl pool ok maxsz m sz d =
    Ret (if round_page sz > maxsz then EFBIG else ENOMEM, 0, round_page sz, d)"
  using assms by (cases "round_page sz > maxsz")
    (simp_all add: i915_gem_create_ioctl_def drm_gem_object_alloc_def Let_def round_page_mult[simplified])

lemma gem_create_inv:
  assumes inv: "gem_inv ext d" and fl: "drm_find_file_by_minor d m = Some f"
    and drv: "driver_frame drv" "driver_init_frame drv" and q: "quiet sl"
    and new: "\<And>i. pool = Some i \<Longrightarrow> objs d i = None"
  shows "i915_gem_create_ioctl drv sl pool ok maxsz m sz d \<noteq> Panic \<and>
    (\<forall>e h s d'. i915_gem_create_ioctl drv sl pool ok maxsz m sz d = Ret (e, h, s, d') \<longrightarrow> gem_inv ext d')"
proof (cases "round_page sz > maxsz \<or> pool = None")
  case True
  with inv show ?thesis by (simp add: gem_create_fails)
next
  case False
  then obtain i where pool: "pool = Some i" and fits: "\<not> round_page sz > maxsz" by auto
  note a = drm_gem_object_alloc_inv[OF inv drv(2) new[OF pool] round_page_mult]
  have ext0: "ext(i := 0) = ext" using gem_invD(5)[OF inv new[OF pool]] by (metis fun_upd_triv)
  show ?thesis
  proof (cases "drm_gem_object_alloc drv (Some i) (round_page sz) d")
    case Panic
    with a(1) show ?thesis by blast
  next
    case Asleep
    then show ?thesis using pool fits by (simp add: i915_gem_create_ioctl_def Let_def)
  next
    case (Ret x)
    obtain oo d1 where x: "x = (oo, d1)" by (cases x)
    note a2 = a(2)[OF Ret[unfolded x]]
    show ?thesis
    proof (cases oo)
      case None
      with a2 Ret x pool fits show ?thesis by (simp add: i915_gem_create_ioctl_def Let_def)
    next
      case (Some j)
      with a2 have j: "j = i" and inv1: "gem_inv (ext(i := 1)) d1" and fs: "files d1 = files d" by simp_all
      have fl1: "drm_find_file_by_minor d1 m = Some f" using fl fs by (simp add: drm_find_file_by_minor_def)
      have pos: "0 < (ext(i := 1)) i" by simp
      note c = drm_handle_create_inv[OF inv1 pos fl1, of ok]
      have e0: "(ext(i := 1))(i := (ext(i := 1)) i - 1) = ext" using ext0 by simp
      note u = drm_unref_inv[OF inv1 pos drv(1) q, unfolded e0]
      have unf: "i915_gem_create_ioctl drv sl pool ok maxsz m sz d =
        obind (drm_handle_create ok m i d1) (\<lambda>(e, h, d2).
          if e = E_OK then Ret (E_OK, h, round_page sz, d2)
          else obind (drm_unref drv sl i d2) (\<lambda>d3. Ret (e, 0, round_page sz, d3)))"
        using pool fits Ret x Some j by (simp add: i915_gem_create_ioctl_def Let_def)
      show ?thesis
      proof (cases "drm_handle_create ok m i d1")
        case Panic
        with c(1) show ?thesis by blast
      next
        case Asleep
        with unf show ?thesis by simp
      next
        case r: (Ret y)
        obtain e h d2 where y: "y = (e, h, d2)" by (cases y)
        from c(2)[OF r[unfolded y], unfolded e0] have
          "(e = ENOMEM \<and> d2 = d1) \<or> (e = E_OK \<and> gem_inv ext d2)" by blast
        with u unf r y show ?thesis
          by (cases "drm_unref_locked drv sl i d1") (auto simp: drm_unref_eq)
      qed
    qed
  qed
qed

lemma gem_create_acct:
  assumes inv: "gem_inv ext d" and drv: "driver_frame drv" "driver_init_frame drv" and q: "quiet sl"
    and new: "\<And>i. pool = Some i \<Longrightarrow> objs d i = None" and acct: "gem_acct d"
    and ret: "i915_gem_create_ioctl drv sl pool ok maxsz m sz d = Ret (e, h, s, d')"
  shows "gem_acct d'"
proof (cases "round_page sz > maxsz \<or> pool = None")
  case True
  with acct ret show ?thesis by (simp add: gem_create_fails)
next
  case False
  then obtain i where pool: "pool = Some i" and fits: "\<not> round_page sz > maxsz" by auto
  from ret pool fits obtain oo d1 where al: "drm_gem_object_alloc drv (Some i) (round_page sz) d = Ret (oo, d1)"
    by (auto simp: i915_gem_create_ioctl_def Let_def obind_eq_Ret)
  have "gem_acct d1" by (rule drm_gem_object_alloc_acct[OF inv drv(2) new[OF pool] round_page_mult acct al])
  with ret pool fits show ?thesis
    by (auto simp: i915_gem_create_ioctl_def Let_def al obind_eq_Ret drm_unref_eq split: option.splits if_splits
        dest!: drm_handle_create_acct drm_unref_acct[OF drv(1) q, rotated])
qed

lemma close_handles_acct:
  assumes "driver_frame drv" "\<And>k j. quiet (sl k j)" "gem_acct d"
    "close_handles drv sl root k t m d = Ret d'"
  shows "gem_acct d'"
  using assms(3,4)
proof (induction "length t" arbitrary: k t d rule: less_induct)
  case less
  show ?case
  proof (cases "t = []")
    case True
    with less.prems show ?thesis by (subst (asm) close_handles.simps) simp
  next
    case False
    with less.prems(2) obtain i d1 where i: "map_of t (root t) = Some i"
      and u: "drm_handle_unref drv (sl k) i (upd_file m (\<lambda>f. f\<lparr>obj_tree := sp_remove (root t) t\<rparr>) d) = Ret d1"
      and r: "close_handles drv sl root (Suc k) (sp_remove (root t) t) m d1 = Ret d'"
      by (subst (asm) close_handles.simps) (auto simp: Let_def obind_eq_Ret split: option.splits)
    have "gem_acct d1"
      by (rule drm_handle_unref_acct[OF assms(1) assms(2) _ u]) (simp add: less.prems(1))
    then show ?thesis by (rule less.hyps[OF sp_remove_shorter[OF i] _ r])
  qed
qed

section \<open>Files coming and going\<close>

lemma handle_refs_sp_insert:
  assumes "map_of (files d) m = None" "sp_wf (files d)" "obj_tree f = []"
  shows "handle_refs (d\<lparr>files := sp_insert m f (files d)\<rparr>) i = handle_refs d i"
proof -
  have "sum_list (map (\<lambda>p. tree_refs (obj_tree (snd p)) i) (sp_insert m f t)) =
      sum_list (map (\<lambda>p. tree_refs (obj_tree (snd p)) i) t)" if "sp_wf t" "map_of t m = None" for t
    using that assms(3)
    by (induction m f t rule: sp_insert.induct) (auto simp: tree_refs_def sp_wf_Cons split: if_splits)
  then show ?thesis using assms(1,2) by (simp add: handle_refs_def)
qed

lemma handle_refs_sp_remove:
  assumes "map_of (files d) m = Some f" "sp_wf (files d)" "obj_tree f = []"
  shows "handle_refs (d\<lparr>files := sp_remove m (files d)\<rparr>) i = handle_refs d i"
proof -
  have "sum_list (map (\<lambda>p. tree_refs (obj_tree (snd p)) i) (sp_remove m t)) =
      sum_list (map (\<lambda>p. tree_refs (obj_tree (snd p)) i) t)" if "map_of t m = Some f" "sp_wf t" for t
    using that
  proof (induction t)
    case (Cons p t)
    show ?case
    proof (cases "fst p = m")
      case True
      with Cons.prems have "m \<notin> fst ` set t" "snd p = f" by (cases p; auto simp: sp_wf_Cons)+
      with True assms(3) show ?thesis
        by (cases p) (simp add: sp_remove_Cons sp_remove_absent tree_refs_def)
    next
      case False
      with Cons show ?thesis by (cases p) (auto simp: sp_remove_Cons sp_wf_Cons)
    qed
  qed simp
  then show ?thesis using assms(1,2) by (simp add: handle_refs_def)
qed

lemma gem_inv_files:
  assumes inv: "gem_inv ext d" and wf: "files_wf (d\<lparr>files := fs\<rparr>)"
    and refs: "\<And>i. handle_refs (d\<lparr>files := fs\<rparr>) i = handle_refs d i"
    and zero: "\<And>m f. map_of fs m = Some f \<Longrightarrow> map_of (obj_tree f) 0 = None"
  shows "gem_inv ext (d\<lparr>files := fs\<rparr>)"
proof (rule gem_invI)
  note D = gem_invD[OF inv]
  show "files_wf (d\<lparr>files := fs\<rparr>)" by (fact wf)
  show "sp_wf (name_tree (d\<lparr>files := fs\<rparr>))" using D(2) by simp
  show "0 \<le> ext i" for i by (rule D(3))
  show "slot_ok ext (d\<lparr>files := fs\<rparr>) i" for i
    using gem_inv_slot[OF inv, of i] by (auto simp: slot_ok_def obj_ok_def refs split: option.splits)
  show "n \<noteq> 0 \<and> (\<exists>ob. objs (d\<lparr>files := fs\<rparr>) i = Some ob \<and> gname ob = n)"
    if "map_of (name_tree (d\<lparr>files := fs\<rparr>)) n = Some i" for n i using that D(6)[of n i] by simp
  show "map_of (obj_tree g) 0 = None" if "drm_find_file_by_minor (d\<lparr>files := fs\<rparr>) m = Some g" for m g
    using that zero by (simp add: drm_find_file_by_minor_def)
qed

lemma gem_inv_enter_file:
  assumes inv: "gem_inv ext d" and new: "drm_find_file_by_minor d m = None"
    and f: "f_minor f = m" "obj_tree f = []"
  shows "gem_inv ext (d\<lparr>files := sp_insert m f (files d)\<rparr>)"
proof (rule gem_inv_files[OF inv])
  have wf: "files_wf d" by (rule gem_invD(1)[OF inv])
  have new': "map_of (files d) m = None" using new by (simp add: drm_find_file_by_minor_def)
  have swf: "sp_wf (files d)" using wf by (simp add: files_wf_def)
  have set_ins: "set (sp_insert m f t) \<subseteq> insert (m, f) (set t)" for t
    by (induction m f t rule: sp_insert.induct) auto
  show "files_wf (d\<lparr>files := sp_insert m f (files d)\<rparr>)"
    using wf f set_ins[of "files d"] by (auto simp: files_wf_def)
  show "handle_refs (d\<lparr>files := sp_insert m f (files d)\<rparr>) i = handle_refs d i" for i
    by (rule handle_refs_sp_insert[OF new' swf f(2)])
  show "map_of (obj_tree g) 0 = None" if "map_of (sp_insert m f (files d)) k = Some g" for k g
    using that f(2) gem_invD(7)[OF inv, of k g] map_of_sp_insert_new[OF swf new', of f]
    by (auto simp: drm_find_file_by_minor_def split: if_splits)
qed

lemma gem_inv_leave_file:
  assumes inv: "gem_inv ext d" and tree: "file_tree d m = Some []"
  shows "gem_inv ext (d\<lparr>files := sp_remove m (files d)\<rparr>)"
proof (rule gem_inv_files[OF inv])
  have wf: "files_wf d" by (rule gem_invD(1)[OF inv])
  from tree obtain f where f: "map_of (files d) m = Some f" "obj_tree f = []"
    by (auto simp: file_tree_def drm_find_file_by_minor_def)
  have swf: "sp_wf (files d)" using wf by (simp add: files_wf_def)
  show "files_wf (d\<lparr>files := sp_remove m (files d)\<rparr>)"
    using wf by (auto simp: files_wf_def set_sp_remove)
  show "handle_refs (d\<lparr>files := sp_remove m (files d)\<rparr>) i = handle_refs d i" for i
    by (rule handle_refs_sp_remove[OF f(1) swf f(2)])
  show "map_of (obj_tree g) 0 = None" if "map_of (sp_remove m (files d)) k = Some g" for k g
    using that gem_invD(7)[OF inv, of k g] by (auto simp: drm_find_file_by_minor_def split: if_splits)
qed

lemma gem_release_inv:
  assumes env: "gem_env_ok drv sl root" and inv: "gem_inv ext d"
    and gem: "has_flag (drv_flags drv) DRIVER_GEM" and fl: "drm_find_file_by_minor d m = Some f"
  shows "gem_release drv sl root m d \<noteq> Panic"
    and "gem_release drv sl root m d = Ret d' \<Longrightarrow> gem_inv ext d'"
proof -
  have t: "file_tree d m = Some (obj_tree f)" using fl by (simp add: file_tree_def)
  have c': "close_handles drv sl root 0 (obj_tree f) m d \<noteq> Panic \<and>
    (\<forall>d'. close_handles drv sl root 0 (obj_tree f) m d = Ret d' \<longrightarrow> gem_inv ext d' \<and> file_tree d' m = Some [])"
    by (rule close_handles_inv[OF inv t gem_env_okD(1,3,4)[OF env]]) (rule gem_env_okD(5)[OF env])
  have eq: "gem_release drv sl root m d = obind (close_handles drv sl root 0 (obj_tree f) m d)
      (\<lambda>d'. Ret (d'\<lparr>files := sp_remove m (files d')\<rparr>))"
    using gem fl by (simp add: gem_release_def)
  show "gem_release drv sl root m d \<noteq> Panic"
    unfolding eq using c' by (cases "close_handles drv sl root 0 (obj_tree f) m d") simp_all
  show "gem_inv ext d'" if "gem_release drv sl root m d = Ret d'"
    using that c' gem_inv_leave_file unfolding eq by (auto simp: obind_eq_Ret)
qed

section \<open>Reachable states\<close>

lemma gem_exec_good:
  assumes env: "gem_env_ok drv sl root" and gem: "has_flag (drv_flags drv) DRIVER_GEM"
    and good: "gem_good d" and ok: "gem_call_ok m c d"
  shows "gem_exec drv sl root m c d \<noteq> Panic \<and> (\<forall>d'. gem_exec drv sl root m c d = Ret d' \<longrightarrow> gem_good d')"
proof -
  note E = gem_env_okD[OF env]
  have inv: "gem_inv (\<lambda>_. 0) d" and acct: "gem_acct d" using good by (simp_all add: gem_good_def)
  from ok obtain f where fl: "drm_find_file_by_minor d m = Some f" by auto
  show ?thesis
  proof (cases c)
    case (G_create pool cok maxsz sz)
    have new: "\<And>i. pool = Some i \<Longrightarrow> objs d i = None" using ok G_create by (auto split: option.splits)
    let ?r = "i915_gem_create_ioctl drv (sl 0 0) pool cok maxsz m sz d"
    have "?r \<noteq> Panic \<and> (\<forall>e h s d'. ?r = Ret (e, h, s, d') \<longrightarrow> gem_inv (\<lambda>_. 0) d')"
      by (rule gem_create_inv[OF inv fl E(1,2,3)]) (rule new)
    moreover have "gem_acct d'" if "?r = Ret (e, h, s, d')" for e h s d'
      by (rule gem_create_acct[OF inv E(1,2,3) new acct that])
    ultimately show ?thesis
      using G_create by (cases ?r) (auto simp: gem_exec_def gem_good_def)
  next
    case (G_close h)
    have "drm_gem_close_ioctl drv (sl 0) m h d \<noteq> Panic" by (rule drm_gem_close_inv(1)[OF inv fl E(1,3)])
    moreover have "gem_inv (\<lambda>_. 0) d' \<and> gem_acct d'" if "drm_gem_close_ioctl drv (sl 0) m h d = Ret (e, d')" for e d'
      using drm_gem_close_inv(2)[OF inv fl E(1,3) that] drm_gem_close_acct[OF E(1,3) acct that] by blast
    ultimately show ?thesis using G_close
      by (cases "drm_gem_close_ioctl drv (sl 0) m h d") (auto simp: gem_exec_def gem_good_def)
  next
    case (G_flink h)
    have "drm_gem_flink_ioctl drv (sl 0 0) m h d \<noteq> Panic" by (rule drm_gem_flink_inv(1)[OF inv fl E(1,3)])
    moreover have "gem_inv (\<lambda>_. 0) d' \<and> gem_acct d'"
      if "drm_gem_flink_ioctl drv (sl 0 0) m h d = Ret (e, n, d')" for e n d'
      using drm_gem_flink_inv(2)[OF inv fl E(1,3) that] drm_gem_flink_acct[OF E(1,3) acct that] by blast
    ultimately show ?thesis using G_flink
      by (cases "drm_gem_flink_ioctl drv (sl 0 0) m h d") (auto simp: gem_exec_def gem_good_def)
  next
    case (G_open cok n)
    have "drm_gem_open_ioctl drv (sl 0 0) cok m n d \<noteq> Panic" by (rule drm_gem_open_inv(1)[OF inv fl E(1,3)])
    moreover have "gem_inv (\<lambda>_. 0) d' \<and> gem_acct d'"
      if "drm_gem_open_ioctl drv (sl 0 0) cok m n d = Ret (e, h, s, d')" for e h s d'
      using drm_gem_open_inv(2)[OF inv fl E(1,3) that] drm_gem_open_acct[OF E(1,3) acct that] by blast
    ultimately show ?thesis using G_open
      by (cases "drm_gem_open_ioctl drv (sl 0 0) cok m n d") (auto simp: gem_exec_def gem_good_def)
  next
    case G_release
    have "gem_acct d'" if r: "gem_release drv sl root m d = Ret d'" for d'
    proof -
      from r gem fl obtain d1 where d1: "close_handles drv sl root 0 (obj_tree f) m d = Ret d1"
        "d' = d1\<lparr>files := sp_remove m (files d1)\<rparr>"
        by (auto simp: gem_release_def obind_eq_Ret)
      with close_handles_acct[OF E(1,3) acct d1(1)] show ?thesis by simp
    qed
    with gem_release_inv[OF env inv gem fl] G_release show ?thesis
      by (auto simp: gem_exec_def gem_good_def)
  qed
qed

lemma gem_good_start:
  assumes "files d = []" "name_tree d = []" "objs d = Map.empty" "uao_count d = 0" "obj_count d = 0"
    "obj_memory d = 0"
  shows "gem_good d"
  using assms
  by (auto simp: gem_good_def gem_acct_def live_size_def[abs_def] files_wf_def slot_ok_def handle_refs_def
      drm_find_file_by_minor_def intro!: gem_invI)

lemma gem_reachable_keeps:
  assumes "gem_reachable drv sl root d" "gem_env_ok drv sl root" "has_flag (drv_flags drv) DRIVER_GEM"
  shows "gem_good d"
  using assms(1)
proof induction
  case (start d)
  then show ?case by (rule gem_good_start)
next
  case (opened d m f)
  then show ?case by (auto simp: gem_good_def intro!: gem_inv_enter_file)
next
  case (call d m c d')
  from gem_exec_good[OF assms(2,3) call.IH call.hyps(2)] call.hyps(3) show ?case by blast
qed

end
