(* ===== verification/Gem_Props.thy ===== *)
theory Gem_Props
  imports Gem_Reach
begin

text \<open>
  The properties of GEM, and a small concrete run of the calls on which they are applied.
\<close>

section \<open>A run: a file is opened and creates an object\<close>

definition null_driver :: "'d drm_driver_info" where
  "null_driver = \<lparr>firstopen = None, open_cb = None, ioctl_cb = None, close_cb = None, lastclose = None,
     dma_ioctl = None, irq_install = (\<lambda>d. (E_OK, d)), irq_uninstall = (\<lambda>d. d), vblank_pipes = 0,
     get_vblank_counter = (\<lambda>_ _. 0), enable_vblank = (\<lambda>d _. (E_OK, d)), disable_vblank = (\<lambda>d _. d),
     gem_init_object = None, gem_free_object = None, gem_size = 0, buf_priv_size = 0,
     file_priv_size = 0, drv_major = 1, drv_minor = 6,
     drv_patchlevel = 0, drv_name = ''demo'', drv_desc = '''', drv_date = '''', drv_flags = DRIVER_GEM\<rparr>"

definition demo_file :: "int \<Rightarrow> drm_file" where
  "demo_file m = \<lparr>obj_tree = [], evlist = [], authenticated = 1, ioctl_count = 0, kdev = 0, magic = 0,
     event_space = 4096, f_flags = 0, master = 0, f_minor = m, obj_id = 0\<rparr>"

definition demo_dev :: gem_dev where
  "demo_dev = \<lparr>lock = \<lparr>hw_lock = None, lk_file_priv = None, lk_broadcasts = 0\<rparr>, ctx_bitmap = None,
     files = [], open_count = 0, magicid = 0, if_version = 0,
     objs = Map.empty, uao_count = 0, obj_count = 0, obj_name = 0, obj_memory = 0, name_tree = []\<rparr>"

definition no_sleep :: "nat \<Rightarrow> nat \<Rightarrow> ('d \<Rightarrow> 'd) list" where
  "no_sleep k j = []"

definition tree_root :: "(u32, nat) splay \<Rightarrow> u32" where
  "tree_root t = fst (hd t)"

definition demo_opened :: gem_dev where
  "demo_opened = demo_dev\<lparr>files := [(5, demo_file 5)]\<rparr>"

definition demo_created :: gem_dev where
  "demo_created = demo_dev\<lparr>files := [(5, (demo_file 5)\<lparr>obj_tree := [(1, 7)], obj_id := 1\<rparr>)],
     objs := [7 \<mapsto> (new_object 4096)\<lparr>handlecount := 1\<rparr>], uao_count := 1, obj_count := 1,
     obj_memory := 4096\<rparr>"

lemma demo_env: "gem_env_ok (null_driver :: gem_dev drm_driver_info) no_sleep tree_root"
proof -
  have "map_of t (tree_root t) \<noteq> None" if "t \<noteq> []" for t
    using that by (cases t) (auto simp: tree_root_def)
  then show ?thesis
    by (simp add: gem_env_ok_def driver_frame_def driver_init_frame_def null_driver_def quiet_def
        private_to_def no_sleep_def)
qed

lemma demo_gem: "has_flag (drv_flags (null_driver :: 'd drm_driver_info)) DRIVER_GEM"
  by (simp add: null_driver_def has_flag_def DRIVER_GEM_def)

lemma demo_opened_reachable: "gem_reachable null_driver no_sleep tree_root demo_opened"
proof -
  have "gem_reachable null_driver no_sleep tree_root demo_dev"
    by (rule gem_reachable.start) (simp_all add: demo_dev_def)
  from gem_reachable.opened[OF this, of 5 "demo_file 5"] show ?thesis
    by (simp add: demo_opened_def demo_dev_def demo_file_def drm_find_file_by_minor_def)
qed

lemma demo_create:
  "i915_gem_create_ioctl null_driver [] (Some 7) True 65536 5 4096 demo_opened = Ret (E_OK, 1, 4096, demo_created)"
proof -
  have f: "fresh_id (\<lambda>h. map_of [] h \<noteq> None) 0 = Some 1"
    using fresh_id_next[of 0 "\<lambda>h. map_of [] h \<noteq> None"] by simp
  have r: "round_page 4096 = 4096" by (simp add: round_page_def PAGE_SIZE_def)
  show ?thesis
    using f
    by (simp add: i915_gem_create_ioctl_def r drm_gem_object_alloc_def PAGE_SIZE_def null_driver_def
        drm_handle_create_def demo_opened_def demo_created_def demo_dev_def demo_file_def
        drm_find_file_by_minor_def drm_handle_ref_def upd_file_def upd_obj_def new_object_def)
qed

lemma demo_created_reachable: "gem_reachable null_driver no_sleep tree_root demo_created"
proof (rule gem_reachable.call[OF demo_opened_reachable, of 5 "G_create (Some 7) True 65536 4096"])
  show "gem_call_ok 5 (G_create (Some 7) True 65536 4096) demo_opened"
    by (simp add: demo_opened_def demo_dev_def drm_find_file_by_minor_def)
  show "gem_exec null_driver no_sleep tree_root 5 (G_create (Some 7) True 65536 4096) demo_opened = Ret demo_created"
    by (simp add: gem_exec_def no_sleep_def demo_create)
qed

section \<open>Reachable states\<close>

text \<open>
  C2: in every state the GEM calls can reach, an object's reference count is the number of
  handles to it in all open files plus one if it has a name, its handle count is the number of those
  handles, it is positive, and a name of an object leads back to it.
\<close>

theorem gem_refcounts_exact:
  assumes "gem_reachable drv sl root d" "gem_env_ok drv sl root"
    "has_flag (drv_flags drv) DRIVER_GEM" "objs d i = Some ob"
  shows "handlecount ob = handle_refs d i \<and>
    uo_refs ob = handle_refs d i + (if gname ob \<noteq> 0 then 1 else 0) \<and> 0 < uo_refs ob \<and>
    (gname ob \<noteq> 0 \<longrightarrow> map_of (name_tree d) (gname ob) = Some i)"
proof -
  have "gem_inv (\<lambda>_. 0) d" using gem_reachable_keeps[OF assms(1-3)] by (simp add: gem_good_def)
  from gem_invD(4)[OF this assms(4)] show ?thesis by (simp add: obj_ok_def name_ref_def)
qed

theorem gem_refcounts_exact_witness:
  "\<exists>ob. objs demo_created 7 = Some ob \<and> uo_refs ob = 1 \<and> handle_refs demo_created 7 = 1"
proof -
  have ob: "objs demo_created 7 = Some ((new_object 4096)\<lparr>handlecount := 1\<rparr>)"
    by (simp add: demo_created_def)
  from gem_refcounts_exact[OF demo_created_reachable demo_env demo_gem ob] ob show ?thesis
    by (simp add: new_object_def)
qed

text \<open>
  C1: in every reachable state, no GEM call of an open file touches an object that has been
  returned to the pool: the call does not panic, whatever the other threads do while it sleeps.
\<close>

theorem gem_no_use_after_free:
  assumes "gem_reachable drv sl root d" "gem_env_ok drv sl root"
    "has_flag (drv_flags drv) DRIVER_GEM" "gem_call_ok m c d"
  shows "gem_exec drv sl root m c d \<noteq> Panic"
  using gem_exec_good[OF assms(2,3) gem_reachable_keeps[OF assms(1-3)] assms(4)] by blast

theorem gem_no_use_after_free_witness:
  "gem_exec null_driver no_sleep tree_root 5 G_release demo_created \<noteq> Panic"
proof -
  have "gem_call_ok 5 G_release demo_created"
    by (simp add: demo_created_def drm_find_file_by_minor_def)
  from gem_no_use_after_free[OF demo_created_reachable demo_env demo_gem this] show ?thesis .
qed

text \<open>
  C9: in every reachable state the device's counters are exact: \<open>obj_count\<close> is the number of
  live objects and \<open>obj_memory\<close> the sum of their sizes, both modulo \<open>2 ^ 32\<close>, and every live object
  has one memory object.
\<close>

theorem gem_accounting:
  assumes "gem_reachable drv sl root d" "gem_env_ok drv sl root" "has_flag (drv_flags drv) DRIVER_GEM"
  shows "finite (dom (objs d)) \<and> obj_count d = of_nat (card (dom (objs d))) \<and>
    uao_count d = int (card (dom (objs d))) \<and>
    obj_memory d = (\<Sum>i\<in>dom (objs d). ucast (obj_size (the (objs d i))))"
proof -
  have a: "gem_acct d" using gem_reachable_keeps[OF assms] by (simp add: gem_good_def)
  have dm: "dom (live_size d) = dom (objs d)" by (auto simp: live_size_def)
  have "(\<Sum>i\<in>dom (objs d). ucast (the (live_size d i)) :: u32) =
      (\<Sum>i\<in>dom (objs d). ucast (obj_size (the (objs d i))))"
    by (rule sum.cong) (auto simp: live_size_def)
  with a show ?thesis by (simp add: gem_acct_def dm)
qed

theorem gem_accounting_witness:
  "obj_count demo_created = 1 \<and> obj_memory demo_created = (\<Sum>i\<in>{7}. ucast (obj_size (the (objs demo_created i))))"
proof -
  have "dom (objs demo_created) = {7}" by (auto simp: demo_created_def)
  with gem_accounting[OF demo_created_reachable demo_env demo_gem] show ?thesis by simp
qed

section \<open>Closing a handle\<close>

lemma unref_shared:
  "objs d i = Some ob \<Longrightarrow> 1 < uo_refs ob \<Longrightarrow>
   drm_unref_locked drv sl i d = Ret (upd_obj i (uo_refs_update (\<lambda>n. n - 1)) d)"
  by (subst drm_unref_locked.simps) simp

lemma unref_last:
  "objs d i = Some ob \<Longrightarrow> uo_refs ob = 1 \<Longrightarrow> do_flags ob AND DRM_BUSY = 0 \<Longrightarrow>
   drm_unref_locked drv sl i d = Ret (free_object drv i ob d)"
  by (subst drm_unref_locked.simps) simp

text \<open>The last handle of an object that nobody else refers to: the object, its name and its memory go.\<close>

lemma close_last_handle:
  assumes inv: "gem_inv ext d" and drv: "driver_frame drv" and fl: "drm_find_file_by_minor d m = Some f"
    and h: "map_of (obj_tree f) h = Some i" and live: "objs d i = Some ob"
    and one: "handlecount ob = 1" "ext i = 0" and idle: "do_flags ob AND DRM_BUSY = 0"
  shows "\<exists>d'. drm_handle_unref drv sl i (upd_file m (leave_handle h) d) = Ret d' \<and>
    objs d' i = None \<and> obj_count d' = obj_count d - 1 \<and> obj_memory d' = obj_memory d - ucast (obj_size ob) \<and>
    name_tree d' = (if gname ob = 0 then name_tree d else sp_remove (gname ob) (name_tree d)) \<and>
    (\<forall>j. j \<noteq> i \<longrightarrow> map_option obj_core (objs d' j) = map_option obj_core (objs d j))"
proof -
  have ok: "obj_ok ext d i ob" by (rule gem_invD(4)[OF inv live])
  have cnt: "obj_count (handle_gone m h i d) = obj_count d" "obj_memory (handle_gone m h i d) = obj_memory d"
    by (simp_all add: handle_gone_def upd_obj_def upd_file_def)
  show ?thesis
  proof (cases "gname ob = 0")
    case True
    let ?d = "handle_gone m h i d" and ?ob = "handlecount_update (\<lambda>n. n - 1) ob"
    have r: "uo_refs ob = 1" using ok one True by (simp add: obj_ok_def name_ref_def)
    have inv1: "gem_inv (ext(i := ext i + 1)) ?d" by (rule handle_gone_inv[OF inv fl h live]) (simp add: True)
    have l1: "objs ?d i = Some ?ob" using live by simp
    have "drm_handle_unref drv sl i (upd_file m (leave_handle h) d) = Ret (free_object drv i ?ob ?d)"
      using unref_last[OF l1, of drv "sl 1"] r idle live True
      by (simp add: drm_handle_unref_def drm_unref_eq handle_gone_def[symmetric] Let_def)
    moreover note free_object_inv[OF inv1 l1 _ _ drv]
    ultimately show ?thesis using r one True cnt by simp
  next
    case False
    let ?d = "name_gone i (gname ob) (handle_gone m h i d)"
    let ?d1 = "upd_obj i (uo_refs_update (\<lambda>n. n - 1)) ?d"
    let ?ob = "gname_update (\<lambda>_. 0) (handlecount_update (\<lambda>n. n - 1) ob)"
    let ?ob1 = "uo_refs_update (\<lambda>n. n - 1) ?ob"
    have r: "uo_refs ob = 2" using ok one False by (simp add: obj_ok_def name_ref_def)
    have l: "objs ?d i = Some ?ob" "objs ?d1 i = Some ?ob1" using live by simp_all
    have inv2: "gem_inv (ext(i := ext i + 2)) ?d" by (rule name_gone_inv[OF inv fl h live False])
    have u0: "drm_unref_locked drv (sl 0) i ?d = Ret ?d1" by (rule unref_shared[OF l(1)]) (simp add: r)
    have "quiet []" by (simp add: quiet_def)
    from drm_unref_inv[OF inv2 _ drv this, of i] unref_shared[OF l(1), of drv "[]"] r one
    have inv1: "gem_inv (ext(i := 1)) ?d1" by simp
    have "drm_handle_unref drv sl i (upd_file m (leave_handle h) d) = Ret (free_object drv i ?ob1 ?d1)"
      using unref_last[OF l(2), of drv "sl 1"] u0 r idle live False one
      by (simp add: drm_handle_unref_def drm_unref_eq handle_gone_def name_gone_def Let_def)
    moreover note free_object_inv[OF inv1 l(2) _ _ drv]
    moreover have "obj_count ?d1 = obj_count d" "obj_memory ?d1 = obj_memory d"
      using cnt by (simp_all add: name_gone_def upd_obj_def)
    ultimately show ?thesis using r False by simp
  qed
qed

text \<open>
  C7: closing a handle of an object that is idle and that no operation in progress refers to
  returns success without sleeping and removes the handle. If it was the object's last handle, the
  object is freed, with its name and its share of the accounting; no other object changes.
\<close>

theorem gem_close_last_frees:
  assumes "gem_inv ext d" "driver_frame drv" "has_flag (drv_flags drv) DRIVER_GEM"
    and "drm_find_file_by_minor d m = Some f" "map_of (obj_tree f) h = Some i" "objs d i = Some ob"
    and "handlecount ob = 1" "ext i = 0" "do_flags ob AND DRM_BUSY = 0"
  shows "\<exists>d'. drm_gem_close_ioctl drv sl m h d = Ret (E_OK, d') \<and> objs d' i = None \<and>
    obj_count d' = obj_count d - 1 \<and> obj_memory d' = obj_memory d - ucast (obj_size ob) \<and>
    name_tree d' = (if gname ob = 0 then name_tree d else sp_remove (gname ob) (name_tree d)) \<and>
    (\<forall>j. j \<noteq> i \<longrightarrow> map_option obj_core (objs d' j) = map_option obj_core (objs d j))"
  using close_last_handle[OF assms(1,2,4-9), of sl] assms(3-5)
  by (auto simp: drm_gem_close_ioctl_def)

theorem gem_close_last_frees_witness:
  "\<exists>d'. drm_gem_close_ioctl null_driver (no_sleep 0) 5 1 demo_created = Ret (E_OK, d') \<and>
     objs d' 7 = None \<and> obj_count d' = 0"
proof -
  have inv: "gem_inv (\<lambda>_. 0) demo_created"
    using gem_reachable_keeps[OF demo_created_reachable demo_env demo_gem] by (simp add: gem_good_def)
  have fl: "drm_find_file_by_minor demo_created 5 = Some ((demo_file 5)\<lparr>obj_tree := [(1, 7)], obj_id := 1\<rparr>)"
    by (simp add: demo_created_def drm_find_file_by_minor_def)
  have ob: "objs demo_created 7 = Some ((new_object 4096)\<lparr>handlecount := 1\<rparr>)"
    by (simp add: demo_created_def)
  have c: "obj_count demo_created = 1" by (simp add: demo_created_def)
  show ?thesis
    using gem_close_last_frees[OF inv gem_env_okD(1)[OF demo_env] demo_gem fl, of 1 7, OF _ ob, of "no_sleep 0"] c
    by (auto simp: new_object_def)
qed

section \<open>Names\<close>

lemma lookup_ret:
  "drm_find_file_by_minor d m = Some f \<Longrightarrow> map_of (obj_tree f) h = Some i \<Longrightarrow> objs d i = Some ob \<Longrightarrow>
   drm_gem_object_lookup m h d = Ret (Some i, upd_obj i (uo_refs_update (\<lambda>n. n + 1)) d)"
  by (simp add: drm_gem_object_lookup_def drm_ref_def drm_ref_locked_def)

lemma upd_obj_back:
  "objs d i = Some ob \<Longrightarrow>
   upd_obj i (uo_refs_update (\<lambda>n. n - 1)) (upd_obj i (uo_refs_update (\<lambda>n. n + 1)) d) = d"
proof -
  assume ob: "objs d i = Some ob"
  have "uo_refs_update (\<lambda>n. n - 1) (uo_refs_update (\<lambda>n. n + 1) ob) = ob" by (cases ob) simp
  then have "(objs d)(i := map_option (\<lambda>x. uo_refs_update (\<lambda>n. n - 1) (uo_refs_update (\<lambda>n. n + 1) x)) (objs d i)) = objs d"
    using ob by auto
  then show ?thesis by (simp add: upd_obj_def option.map_comp comp_def)
qed

text \<open>Naming an object that has a name gives that name and changes nothing.\<close>

lemma flink_named:
  assumes "has_flag (drv_flags drv) DRIVER_GEM" "drm_find_file_by_minor d m = Some f"
    "map_of (obj_tree f) h = Some i" "objs d i = Some ob" "gname ob \<noteq> 0" "0 < uo_refs ob"
  shows "drm_gem_flink_ioctl drv sl m h d = Ret (E_OK, gname ob, d)"
proof -
  let ?d = "upd_obj i (uo_refs_update (\<lambda>n. n + 1)) d"
  have ob: "objs ?d i = Some (uo_refs_update (\<lambda>n. n + 1) ob)" using assms(4) by simp
  have "drm_unref_locked drv sl i ?d = Ret d"
    using unref_shared[OF ob, of drv sl] assms(6) upd_obj_back[OF assms(4)] by simp
  then show ?thesis
    using lookup_ret[OF assms(2-4)] assms(1,4,5) by (simp add: drm_gem_flink_ioctl_def drm_unref_eq)
qed

lemma flink_new:
  assumes "has_flag (drv_flags drv) DRIVER_GEM" "drm_find_file_by_minor d m = Some f"
    "map_of (obj_tree f) h = Some i" "objs d i = Some ob" "gname ob = 0" "0 < uo_refs ob"
    and "fresh_id (\<lambda>n. map_of (name_tree d) n \<noteq> None) (obj_name d) = Some n"
  shows "\<exists>d'. drm_gem_flink_ioctl drv sl m h d = Ret (E_OK, n, d') \<and> files d' = files d \<and>
    name_tree d' = sp_insert n i (name_tree d) \<and>
    objs d' = (objs d)(i := Some (ob\<lparr>gname := n, uo_refs := uo_refs ob + 1\<rparr>))"
proof -
  let ?d = "upd_obj i (uo_refs_update (\<lambda>n. n + 1)) d"
  let ?e = "name_given i n ?d"
  let ?ob = "uo_refs_update (\<lambda>k. k + 1) ((uo_refs_update (\<lambda>n. n + 1) ob)\<lparr>gname := n\<rparr>)"
  have e: "objs ?e i = Some ?ob" using assms(4) by simp
  have f: "fresh_id (\<lambda>n. map_of (name_tree ?d) n \<noteq> None) (obj_name ?d) = Some n" using assms(7) by simp
  have live: "objs ?d i = Some (uo_refs_update (\<lambda>n. n + 1) ob)" using assms(4) by simp
  have u: "drm_unref_locked drv sl i ?e = Ret (upd_obj i (uo_refs_update (\<lambda>n. n - 1)) ?e)"
    by (rule unref_shared[OF e]) (use assms(6) in simp)
  have r: "drm_ref i (upd_obj i (gname_update (\<lambda>_. n)) (?d\<lparr>obj_name := n, name_tree := sp_insert n i (name_tree ?d)\<rparr>)) = Ret ?e"
    using assms(4) by (simp add: drm_ref_def drm_ref_locked_def name_given_def upd_obj_def)
  have "drm_gem_flink_ioctl drv sl m h d = Ret (E_OK, n, upd_obj i (uo_refs_update (\<lambda>n. n - 1)) ?e)"
    unfolding drm_gem_flink_ioctl_def lookup_ret[OF assms(2-4)]
    using assms(1,4,5) f r u by (simp add: drm_unref_eq)
  moreover have eq: "uo_refs_update (\<lambda>n. n - 1) ?ob = ob\<lparr>gname := n, uo_refs := uo_refs ob + 1\<rparr>"
    by (cases ob) simp
  have "objs (upd_obj i (uo_refs_update (\<lambda>n. n - 1)) ?e) = (objs d)(i := Some (uo_refs_update (\<lambda>n. n - 1) ?ob))"
    using assms(4) by simp
  note this[unfolded eq]
  ultimately show ?thesis by simp
qed

text \<open>
  C8: if naming a handle's object succeeds, the name is nonzero and stands for that object; naming
  it again gives the same name; and opening the name in any file that can take a handle gives a new
  handle of the very same object, of its size.
\<close>

theorem gem_flink_open_shares:
  assumes inv: "gem_inv ext d" and gem: "has_flag (drv_flags drv) DRIVER_GEM"
    and fl: "drm_find_file_by_minor d m = Some f" and h: "map_of (obj_tree f) h = Some i"
    and room: "length (name_tree d) < 2 ^ 32 - 1"
    and fl2: "drm_find_file_by_minor d m2 = Some f2" and room2: "length (obj_tree f2) < 2 ^ 32 - 1"
  shows "\<exists>n d1 h2 d2 f2' ob. drm_gem_flink_ioctl drv sl m h d = Ret (E_OK, n, d1) \<and> n \<noteq> 0 \<and>
    map_of (name_tree d1) n = Some i \<and> drm_gem_flink_ioctl drv sl m h d1 = Ret (E_OK, n, d1) \<and>
    objs d i = Some ob \<and> drm_gem_open_ioctl drv sl True m2 n d1 = Ret (E_OK, h2, obj_size ob, d2) \<and>
    drm_find_file_by_minor d2 m2 = Some f2' \<and> map_of (obj_tree f2) h2 = None \<and>
    map_of (obj_tree f2') = (map_of (obj_tree f2))(h2 \<mapsto> i)"
proof -
  from handle_live[OF inv fl h] obtain ob where live: "objs d i = Some ob" by blast
  have ok: "obj_ok ext d i ob" by (rule gem_invD(4)[OF inv live])
  then have pos: "0 < uo_refs ob" by (simp add: obj_ok_def)
  have "\<exists>n d1 ob1. drm_gem_flink_ioctl drv sl m h d = Ret (E_OK, n, d1) \<and> n \<noteq> 0 \<and>
     map_of (name_tree d1) n = Some i \<and> files d1 = files d \<and> objs d1 i = Some ob1 \<and> gname ob1 = n \<and>
     0 < uo_refs ob1 \<and> obj_size ob1 = obj_size ob"
  proof (cases "gname ob = 0")
    case False
    with flink_named[OF gem fl h live _ pos, of sl] ok live pos show ?thesis by (simp add: obj_ok_def)
  next
    case True
    have nwf: "sp_wf (name_tree d)" by (rule gem_invD(2)[OF inv])
    from table_has_room[OF nwf room] obtain k where "k \<noteq> 0" "map_of (name_tree d) k = None" by blast
    then obtain n where n: "fresh_id (\<lambda>n. map_of (name_tree d) n \<noteq> None) (obj_name d) = Some n"
      using fresh_id_returns[of k "\<lambda>n. map_of (name_tree d) n \<noteq> None" "obj_name d"] by auto
    from fresh_id_fresh[OF n] have fr: "n \<noteq> 0" "map_of (name_tree d) n = None" by simp_all
    with flink_new[OF gem fl h live True pos n, of sl] map_of_sp_insert_new[OF nwf fr(2), of i] pos
    show ?thesis by auto
  qed
  then obtain n d1 ob1 where fk: "drm_gem_flink_ioctl drv sl m h d = Ret (E_OK, n, d1)" "n \<noteq> 0"
    "map_of (name_tree d1) n = Some i" "files d1 = files d" "objs d1 i = Some ob1" "gname ob1 = n"
    "0 < uo_refs ob1" "obj_size ob1 = obj_size ob" by blast
  have fs: "drm_find_file_by_minor d1 x = drm_find_file_by_minor d x" for x
    using fk(4) by (simp add: drm_find_file_by_minor_def)
  have again: "drm_gem_flink_ioctl drv sl m h d1 = Ret (E_OK, n, d1)"
    using flink_named[OF gem _ h fk(5), of m sl] fl fs fk(2,6,7) by simp
  have twf: "sp_wf (obj_tree f2)" by (rule file_tree_wf[OF gem_invD(1)[OF inv] fl2])
  from table_has_room[OF twf room2] obtain k where "k \<noteq> 0" "map_of (obj_tree f2) k = None" by blast
  then obtain h2 where h2: "fresh_id (\<lambda>h. map_of (obj_tree f2) h \<noteq> None) (obj_id f2) = Some h2"
    using fresh_id_returns[of k "\<lambda>h. map_of (obj_tree f2) h \<noteq> None" "obj_id f2"] by auto
  from fresh_id_fresh[OF h2] have new: "map_of (obj_tree f2) h2 = None" by simp
  let ?r = "upd_obj i (uo_refs_update (\<lambda>n. n + 1)) d1"
  have rf: "drm_find_file_by_minor ?r m2 = Some f2" using fs fl2 by simp
  have rl: "objs ?r i = Some (uo_refs_update (\<lambda>n. n + 1) ob1)" using fk(5) by simp
  note c = drm_handle_create_ret[OF rl rf h2]
  have "\<exists>d2 f2'. drm_gem_open_ioctl drv sl True m2 n d1 = Ret (E_OK, h2, obj_size ob, d2) \<and>
    drm_find_file_by_minor d2 m2 = Some f2' \<and> map_of (obj_tree f2') = (map_of (obj_tree f2))(h2 \<mapsto> i)"
    using gem fk(3,5,8) c fs fl2 map_of_sp_insert_new[OF twf new, of i]
    by (simp add: drm_gem_open_ioctl_def drm_ref_def drm_ref_locked_def find_upd_file)
  with fk(1-3) again live new show ?thesis by blast
qed

theorem gem_flink_open_shares_witness:
  "\<exists>n d1 h2 d2. drm_gem_flink_ioctl null_driver [] 5 1 demo_created = Ret (E_OK, n, d1) \<and>
     drm_gem_open_ioctl null_driver [] True 5 n d1 = Ret (E_OK, h2, 4096, d2)"
proof -
  have inv: "gem_inv (\<lambda>_. 0) demo_created"
    using gem_reachable_keeps[OF demo_created_reachable demo_env demo_gem] by (simp add: gem_good_def)
  have fl: "drm_find_file_by_minor demo_created 5 = Some ((demo_file 5)\<lparr>obj_tree := [(1, 7)], obj_id := 1\<rparr>)"
    by (simp add: demo_created_def drm_find_file_by_minor_def)
  have nt: "length (name_tree demo_created) < 2 ^ 32 - 1" by (simp add: demo_created_def demo_dev_def)
  have ob: "objs demo_created 7 = Some ((new_object 4096)\<lparr>handlecount := 1\<rparr>)"
    by (simp add: demo_created_def)
  from gem_flink_open_shares[OF inv demo_gem fl _ nt fl, of 1 7 "[]"] ob show ?thesis
    by (fastforce simp: new_object_def)
qed

section \<open>Handles\<close>

text \<open>
  The handle loop comes back whenever the file has fewer than \<open>2 ^ 32 - 1\<close> handles; the new
  handle is nonzero and was not in use, it names the object, and no other handle of any file changes.
\<close>

theorem gem_handle_fresh:
  assumes inv: "gem_inv ext d" and ext: "0 < ext i" and fl: "drm_find_file_by_minor d m = Some f"
    and room: "length (obj_tree f) < 2 ^ 32 - 1"
  shows "\<exists>h d' f'. drm_handle_create True m i d = Ret (E_OK, h, d') \<and> h \<noteq> 0 \<and>
    map_of (obj_tree f) h = None \<and> drm_find_file_by_minor d' m = Some f' \<and>
    map_of (obj_tree f') = (map_of (obj_tree f))(h \<mapsto> i) \<and>
    (\<forall>m'. m' \<noteq> m \<longrightarrow> drm_find_file_by_minor d' m' = drm_find_file_by_minor d m') \<and>
    gem_inv (ext(i := ext i - 1)) d'"
proof -
  have twf: "sp_wf (obj_tree f)" by (rule file_tree_wf[OF gem_invD(1)[OF inv] fl])
  from table_has_room[OF twf room] obtain k where "k \<noteq> 0" "map_of (obj_tree f) k = None" by blast
  then obtain h where h: "fresh_id (\<lambda>h. map_of (obj_tree f) h \<noteq> None) (obj_id f) = Some h"
    using fresh_id_returns[of k "\<lambda>h. map_of (obj_tree f) h \<noteq> None" "obj_id f"] by auto
  from ext_live[OF inv ext] obtain ob where live: "objs d i = Some ob" by blast
  note r = drm_handle_create_ret[OF live fl h]
  have new: "map_of (obj_tree f) h = None" using fresh_id_fresh[OF h] by simp
  from drm_handle_create_inv(2)[OF inv ext fl r] r map_of_sp_insert_new[OF twf new, of i]
  show ?thesis by auto
qed

theorem gem_handle_fresh_witness:
  "\<exists>h d'. drm_handle_create True 5 7
     (demo_opened\<lparr>objs := [7 \<mapsto> new_object 4096], uao_count := 1\<rparr>) = Ret (E_OK, h, d') \<and> h \<noteq> 0"
proof -
  have "gem_inv (\<lambda>_. 0) demo_opened"
    using gem_reachable_keeps[OF demo_opened_reachable demo_env demo_gem] by (simp add: gem_good_def)
  then have inv: "gem_inv ((\<lambda>_. 0)(7 := 1))
      (demo_opened\<lparr>objs := (objs demo_opened)(7 := Some (new_object 4096)), uao_count := 1\<rparr>)"
    by (rule gem_inv_new) (simp add: demo_opened_def demo_dev_def)
  have o: "objs demo_opened = Map.empty" by (simp add: demo_opened_def demo_dev_def)
  have fl: "drm_find_file_by_minor (demo_opened\<lparr>objs := (objs demo_opened)(7 := Some (new_object 4096)),
      uao_count := 1\<rparr>) 5 = Some (demo_file 5)"
    by (simp add: demo_opened_def drm_find_file_by_minor_def)
  from gem_handle_fresh[OF inv _ fl, of 7] o show ?thesis by (auto simp: demo_file_def)
qed

end
