(* ===== verification/Drm_Irq.thy ===== *)
theory Drm_Irq
  imports Drm_Gem
begin

text \<open>
  Interrupts and vertical blanks of \<^verbatim>\<open>drm_irq.c\<close>, and the reading of queued events in
  \<^verbatim>\<open>drm_drv.c\<close>: the per-crtc counters, references and queues of pending events, the ioctls that
  wait for a blank or queue an event, the interrupt's delivery of events to files, and \<^verbatim>\<open>drmread\<close>.
\<close>

section \<open>State\<close>

record drm_vblank =
  vbl_events :: "drm_pending_event list"
  vbl_last :: u32
  vbl_count :: u32
  vbl_refs :: int
  vbl_enabled :: int
  vbl_inmodeset :: u32

text \<open>\<open>vb_disable_timer\<close> is the timeout armed to disable the interrupt, in seconds.\<close>

record drm_vblank_info =
  vb_num :: int
  vb_max :: u32
  vb_disable_timer :: "nat option"
  vb_crtcs :: "drm_vblank list"

record irq_dev = gem_dev +
  dev_private :: "nat option"
  dev_irq :: int
  irq_enabled :: int
  vblank :: "drm_vblank_info option"

text \<open>The crtc that a pointer \<^verbatim>\<open>&dev->vblank->vb_crtcs[c]\<close> refers to, if it refers to one.\<close>

definition the_crtc :: "'a irq_dev_scheme \<Rightarrow> int \<Rightarrow> drm_vblank option" where
  "the_crtc d c =
     (case vblank d of
        None \<Rightarrow> None
      | Some v \<Rightarrow> if 0 \<le> c \<and> nat c < length (vb_crtcs v) then Some (vb_crtcs v ! nat c) else None)"

definition set_crtc :: "int \<Rightarrow> (drm_vblank \<Rightarrow> drm_vblank) \<Rightarrow> 'a irq_dev_scheme \<Rightarrow> 'a irq_dev_scheme" where
  "set_crtc c f d =
     (if the_crtc d c = None then d
      else d\<lparr>vblank := map_option (\<lambda>v. v\<lparr>vb_crtcs := (vb_crtcs v)[nat c := f (vb_crtcs v ! nat c)]\<rparr>) (vblank d)\<rparr>)"

definition arm_timer :: "nat \<Rightarrow> 'a irq_dev_scheme \<Rightarrow> 'a irq_dev_scheme" where
  "arm_timer s d = d\<lparr>vblank := map_option (\<lambda>v. v\<lparr>vb_disable_timer := Some s\<rparr>) (vblank d)\<rparr>"

section \<open>Interrupt handlers\<close>

definition drm_irq_by_busid :: "'a irq_dev_scheme \<Rightarrow> errno \<times> int" where
  "drm_irq_by_busid d = (E_OK, dev_irq d)"

definition drm_irq_install ::
  "('a irq_dev_scheme) drm_driver_info \<Rightarrow> 'a irq_dev_scheme \<Rightarrow> errno \<times> 'a irq_dev_scheme" where
  "drm_irq_install drv d =
     (if dev_irq d = 0 \<or> dev_private d = None then (EINVAL, d)
      else if irq_enabled d \<noteq> 0 then (EBUSY, d)
      else let (ret, d1) = irq_install drv (d\<lparr>irq_enabled := 1\<rparr>)
           in if ret \<noteq> E_OK then (ret, d1\<lparr>irq_enabled := 0\<rparr>) else (E_OK, d1))"

text \<open>A \<^verbatim>\<open>for (i = 0; i < vb_num; i++)\<close> loop over the crtcs: \<open>n\<close> turns from \<open>i\<close> on.\<close>

fun crtc_loop ::
  "(int \<Rightarrow> drm_vblank \<Rightarrow> 'a irq_dev_scheme \<Rightarrow> 'a irq_dev_scheme) \<Rightarrow> nat \<Rightarrow> int \<Rightarrow> 'a irq_dev_scheme \<Rightarrow>
   'a irq_dev_scheme outcome" where
  "crtc_loop body 0 i d = Ret d"
| "crtc_loop body (Suc n) i d =
     (case the_crtc d i of None \<Rightarrow> Panic | Some v \<Rightarrow> crtc_loop body n (i + 1) (body i v d))"

definition drm_irq_uninstall ::
  "('a irq_dev_scheme) drm_driver_info \<Rightarrow> 'a irq_dev_scheme \<Rightarrow> (errno \<times> 'a irq_dev_scheme) outcome" where
  "drm_irq_uninstall drv d =
     (if irq_enabled d = 0 then Ret (EINVAL, d)
      else let d1 = d\<lparr>irq_enabled := 0\<rparr>
           in obind
                (case vblank d1 of
                   None \<Rightarrow> Ret d1
                 | Some v \<Rightarrow>
                     crtc_loop
                       (\<lambda>i _ x. set_crtc i (\<lambda>w. w\<lparr>vbl_enabled := 0, vbl_last := get_vblank_counter drv x i\<rparr>) x)
                       (nat (vb_num v)) 0 d1)
                (\<lambda>d2. Ret (E_OK, irq_uninstall drv d2)))"

datatype drm_control_func = DRM_INST_HANDLER | DRM_UNINST_HANDLER | DRM_OTHER_FUNC int

definition DRM_IF_VERSION :: "int \<Rightarrow> int \<Rightarrow> int" where
  "DRM_IF_VERSION maj mino = push_bit 16 maj OR mino"

definition drm_control ::
  "('a irq_dev_scheme) drm_driver_info \<Rightarrow> drm_control_func \<Rightarrow> int \<Rightarrow> 'a irq_dev_scheme \<Rightarrow>
   (errno \<times> 'a irq_dev_scheme) outcome" where
  "drm_control drv func cirq d =
     (if \<not> has_flag (drv_flags drv) DRIVER_IRQ then Ret (E_OK, d)
      else case func of
        DRM_INST_HANDLER \<Rightarrow>
          if if_version d < DRM_IF_VERSION 1 2 \<and> cirq \<noteq> dev_irq d then Ret (EINVAL, d)
          else Ret (drm_irq_install drv d)
      | DRM_UNINST_HANDLER \<Rightarrow> drm_irq_uninstall drv d
      | DRM_OTHER_FUNC _ \<Rightarrow> Ret (EINVAL, d))"

section \<open>Vertical blank interrupts\<close>

definition vblank_disable ::
  "('a irq_dev_scheme) drm_driver_info \<Rightarrow> 'a irq_dev_scheme \<Rightarrow> 'a irq_dev_scheme outcome" where
  "vblank_disable drv d =
     (case vblank d of
        None \<Rightarrow> Panic
      | Some vbl \<Rightarrow>
          crtc_loop
            (\<lambda>i crtc x.
               if vbl_refs crtc = 0 \<and> vbl_enabled crtc \<noteq> 0
               then set_crtc i (\<lambda>w. w\<lparr>vbl_enabled := 0\<rparr>)
                      (disable_vblank drv
                         (set_crtc i (\<lambda>w. w\<lparr>vbl_last := get_vblank_counter drv x i\<rparr>) x) i)
               else x)
            (nat (vb_num vbl)) 0 d)"

definition drm_vblank_cleanup ::
  "('a irq_dev_scheme) drm_driver_info \<Rightarrow> 'a irq_dev_scheme \<Rightarrow> 'a irq_dev_scheme outcome" where
  "drm_vblank_cleanup drv d =
     (case vblank d of
        None \<Rightarrow> Ret d
      | Some v \<Rightarrow>
          obind (vblank_disable drv (d\<lparr>vblank := Some (v\<lparr>vb_disable_timer := None\<rparr>)\<rparr>))
            (\<lambda>d1. Ret (d1\<lparr>vblank := None\<rparr>)))"

definition zero_vblank :: drm_vblank where
  "zero_vblank = \<lparr>vbl_events = [], vbl_last = 0, vbl_count = 0, vbl_refs = 0, vbl_enabled = 0,
     vbl_inmodeset = 0\<rparr>"

text \<open>The structure holds one crtc more than asked for: its array member has one element itself.\<close>

definition drm_vblank_init :: "bool \<Rightarrow> int \<Rightarrow> 'a irq_dev_scheme \<Rightarrow> errno \<times> 'a irq_dev_scheme" where
  "drm_vblank_init malloc_ok num_crtcs d =
     (if \<not> malloc_ok then (ENOMEM, d\<lparr>vblank := None\<rparr>)
      else (E_OK, d\<lparr>vblank := Some \<lparr>vb_num = num_crtcs, vb_max = 0, vb_disable_timer = None,
              vb_crtcs = replicate (nat num_crtcs + 1) zero_vblank\<rparr>\<rparr>))"

definition drm_vblank_count :: "'a irq_dev_scheme \<Rightarrow> int \<Rightarrow> u32 outcome" where
  "drm_vblank_count d c = (case the_crtc d c of None \<Rightarrow> Panic | Some v \<Rightarrow> Ret (vbl_count v))"

text \<open>How far the counter register has moved, from \<open>prev\<close> to \<open>cur\<close>.\<close>

definition vblank_diff :: "u32 \<Rightarrow> u32 \<Rightarrow> u32 \<Rightarrow> u32" where
  "vblank_diff vbmax prev cur = (let diff = cur - prev in if cur < prev then diff + vbmax else diff)"

definition drm_update_vblank_count ::
  "('a irq_dev_scheme) drm_driver_info \<Rightarrow> int \<Rightarrow> 'a irq_dev_scheme \<Rightarrow> 'a irq_dev_scheme outcome" where
  "drm_update_vblank_count drv c d =
     (case (vblank d, the_crtc d c) of
        (Some vbl, Some v) \<Rightarrow>
          Ret (set_crtc c (\<lambda>w. w\<lparr>vbl_count := vbl_count w +
                 vblank_diff (vb_max vbl) (vbl_last v) (get_vblank_counter drv d c)\<rparr>) d)
      | _ \<Rightarrow> Panic)"

definition drm_vblank_get ::
  "('a irq_dev_scheme) drm_driver_info \<Rightarrow> int \<Rightarrow> 'a irq_dev_scheme \<Rightarrow> (errno \<times> 'a irq_dev_scheme) outcome" where
  "drm_vblank_get drv c d =
     (if irq_enabled d = 0 then Ret (EINVAL, d)
      else case the_crtc d c of
        None \<Rightarrow> Panic
      | Some v \<Rightarrow>
          let d1 = set_crtc c (\<lambda>w. w\<lparr>vbl_refs := vbl_refs w + 1\<rparr>) d
          in if vbl_refs v + 1 = 1 \<and> vbl_enabled v = 0 then
               let (ret, d2) = enable_vblank drv d1 c
               in if ret = E_OK
                  then obind (drm_update_vblank_count drv c (set_crtc c (\<lambda>w. w\<lparr>vbl_enabled := 1\<rparr>) d2))
                         (\<lambda>d3. Ret (E_OK, d3))
                  else Ret (ret, set_crtc c (\<lambda>w. w\<lparr>vbl_refs := vbl_refs w - 1\<rparr>) d2)
             else Ret (E_OK, d1))"

definition drm_vblank_put :: "int \<Rightarrow> 'a irq_dev_scheme \<Rightarrow> 'a irq_dev_scheme outcome" where
  "drm_vblank_put c d =
     (case the_crtc d c of
        None \<Rightarrow> Panic
      | Some v \<Rightarrow>
          if \<not> vbl_refs v > 0 then Panic
          else let d1 = set_crtc c (\<lambda>w. w\<lparr>vbl_refs := vbl_refs w - 1\<rparr>) d
               in Ret (if vbl_refs v - 1 = 0 then arm_timer 5 d1 else d1))"

datatype drm_modeset_cmd = DRM_PRE_MODESET | DRM_POST_MODESET | DRM_OTHER_MODESET u32

definition drm_modeset_ctl ::
  "('a irq_dev_scheme) drm_driver_info \<Rightarrow> int \<Rightarrow> drm_modeset_cmd \<Rightarrow> 'a irq_dev_scheme \<Rightarrow>
   (errno \<times> 'a irq_dev_scheme) outcome" where
  "drm_modeset_ctl drv crtc cmd d =
     (case vblank d of
        None \<Rightarrow> Ret (E_OK, d)
      | Some vbl \<Rightarrow>
          if crtc \<ge> vb_num vbl \<or> crtc < 0 then Ret (EINVAL, d)
          else case the_crtc d crtc of
            None \<Rightarrow> Panic
          | Some v \<Rightarrow>
              (case cmd of
                 DRM_PRE_MODESET \<Rightarrow>
                   if vbl_inmodeset v = 0 then
                     obind (drm_vblank_get drv crtc (set_crtc crtc (\<lambda>w. w\<lparr>vbl_inmodeset := 0x1\<rparr>) d))
                       (\<lambda>(ret, d1). Ret (E_OK,
                          if ret = E_OK
                          then set_crtc crtc (\<lambda>w. w\<lparr>vbl_inmodeset := vbl_inmodeset w OR 0x2\<rparr>) d1
                          else d1))
                   else Ret (E_OK, d)
               | DRM_POST_MODESET \<Rightarrow>
                   if vbl_inmodeset v \<noteq> 0 then
                     obind (if vbl_inmodeset v AND 0x2 \<noteq> 0 then drm_vblank_put crtc d else Ret d)
                       (\<lambda>d1. Ret (E_OK, set_crtc crtc (\<lambda>w. w\<lparr>vbl_inmodeset := 0\<rparr>) d1))
                   else Ret (E_OK, d)
               | DRM_OTHER_MODESET _ \<Rightarrow> Ret (EINVAL, d)))"

section \<open>Waiting and queueing\<close>

definition VBLANK_RELATIVE :: u32 where "VBLANK_RELATIVE = 0x1"
definition VBLANK_EVENT :: u32 where "VBLANK_EVENT = 0x4000000"
definition VBLANK_NEXTONMISS :: u32 where "VBLANK_NEXTONMISS = 0x10000000"
definition VBLANK_SECONDARY :: u32 where "VBLANK_SECONDARY = 0x20000000"
definition VBLANK_SIGNAL :: u32 where "VBLANK_SIGNAL = 0x40000000"

definition VBLANK_FLAGS_MASK :: u32 where
  "VBLANK_FLAGS_MASK = VBLANK_EVENT OR VBLANK_SIGNAL OR VBLANK_SECONDARY OR VBLANK_NEXTONMISS"

text \<open>
  The union of the request and the reply: type and sequence share their places in both, the signal
  of the request shares its place with the seconds of the reply.
\<close>

record drm_wait_vblank_arg =
  vw_type :: u32
  vw_sequence :: u32
  vw_signal_sec :: u64
  vw_usec :: u64

text \<open>A sequence number has been reached when it is at most \<open>2 ^ 23\<close> behind the counter.\<close>

definition seq_passed :: "u32 \<Rightarrow> u32 \<Rightarrow> bool" where
  "seq_passed seq want \<longleftrightarrow> seq - want \<le> 2 ^ 23"

text \<open>The two adjustments of the requested sequence number.\<close>

definition vw_absolute :: "u32 \<Rightarrow> drm_wait_vblank_arg \<Rightarrow> drm_wait_vblank_arg" where
  "vw_absolute seq vw =
     (if vw_type vw AND VBLANK_RELATIVE \<noteq> 0
      then vw\<lparr>vw_sequence := vw_sequence vw + seq, vw_type := vw_type vw AND NOT VBLANK_RELATIVE\<rparr>
      else vw)"

definition vw_next_on_miss :: "u32 \<Rightarrow> u32 \<Rightarrow> drm_wait_vblank_arg \<Rightarrow> drm_wait_vblank_arg" where
  "vw_next_on_miss flags seq vw =
     (if flags AND VBLANK_NEXTONMISS \<noteq> 0 \<and> seq_passed seq (vw_sequence vw)
      then vw\<lparr>vw_sequence := seq + 1\<rparr> else vw)"

definition DRM_EVENT_VBLANK :: u32 where "DRM_EVENT_VBLANK = 1"
definition VBLANK_EVENT_SIZE :: nat where "VBLANK_EVENT_SIZE = 32"

text \<open>\<open>now\<close> is what \<^verbatim>\<open>microtime\<close> gives: seconds and microseconds.\<close>

definition drm_queue_vblank_event ::
  "bool \<Rightarrow> u64 \<times> u64 \<Rightarrow> int \<Rightarrow> drm_wait_vblank_arg \<Rightarrow> int \<Rightarrow> 'a irq_dev_scheme \<Rightarrow>
   (errno \<times> drm_wait_vblank_arg \<times> 'a irq_dev_scheme) outcome" where
  "drm_queue_vblank_event calloc_ok now crtc vw m d =
     (if \<not> calloc_ok then Ret (ENOMEM, vw, d)
      else case drm_find_file_by_minor d m of
        None \<Rightarrow> Panic
      | Some f \<Rightarrow>
          if event_space f < int VBLANK_EVENT_SIZE then Ret (ENOMEM, vw, d)
          else
            obind (drm_vblank_count d crtc) (\<lambda>seq.
              let d1 = upd_file m (\<lambda>f. f\<lparr>event_space := event_space f - int VBLANK_EVENT_SIZE\<rparr>) d;
                  vw1 = vw_next_on_miss (vw_type vw) seq vw;
                  ev = \<lparr>ev_type = DRM_EVENT_VBLANK, ev_length = of_nat VBLANK_EVENT_SIZE,
                        ev_user_data = vw_signal_sec vw, ev_tv_sec = 0, ev_tv_usec = 0,
                        ev_sequence = vw_sequence vw1, ev_file_priv = m\<rparr>
              in if seq_passed seq (vw_sequence vw1)
                 then let ev1 = ev\<lparr>ev_tv_sec := ucast (fst now), ev_tv_usec := ucast (snd now)\<rparr>
                      in obind (drm_vblank_put crtc d1)
                           (\<lambda>d2. Ret (E_OK, vw1, upd_file m (\<lambda>f. f\<lparr>evlist := evlist f @ [ev1]\<rparr>) d2))
                 else Ret (E_OK, vw1, set_crtc crtc (\<lambda>w. w\<lparr>vbl_events := vbl_events w @ [ev]\<rparr>) d1)))"

text \<open>\<^verbatim>\<open>DRM_WAIT_ON\<close> with the condition of \<^verbatim>\<open>drm_wait_vblank\<close>.\<close>

fun wait_vblank_on ::
  "'a irq_dev_scheme sleeps \<Rightarrow> int \<Rightarrow> u32 \<Rightarrow> 'a irq_dev_scheme \<Rightarrow> (errno \<times> 'a irq_dev_scheme) outcome" where
  "wait_vblank_on sl crtc want d =
     obind (drm_vblank_count d crtc) (\<lambda>seq.
       if seq_passed seq want \<or> irq_enabled d = 0 then Ret (E_OK, d)
       else case sl of
         [] \<Rightarrow> Asleep
       | (ret, env) # sl' \<Rightarrow>
           if ret \<noteq> E_OK then Ret (ret, env d) else wait_vblank_on sl' crtc want (env d))"

declare wait_vblank_on.simps [simp del]

definition drm_wait_vblank ::
  "('a irq_dev_scheme) drm_driver_info \<Rightarrow> 'a irq_dev_scheme sleeps \<Rightarrow> bool \<Rightarrow> u64 \<times> u64 \<Rightarrow>
   drm_wait_vblank_arg \<Rightarrow> int \<Rightarrow> 'a irq_dev_scheme \<Rightarrow>
   (errno \<times> drm_wait_vblank_arg \<times> 'a irq_dev_scheme) outcome" where
  "drm_wait_vblank drv sl calloc_ok now vw m d =
     (case vblank d of
        None \<Rightarrow> Ret (EINVAL, vw, d)
      | Some vbl \<Rightarrow>
          if irq_enabled d = 0 \<or> vw_type vw AND VBLANK_SIGNAL \<noteq> 0 then Ret (EINVAL, vw, d)
          else
            let crtc = (if vw_type vw AND VBLANK_FLAGS_MASK AND VBLANK_SECONDARY \<noteq> 0 then 1 else 0)
            in if crtc \<ge> vb_num vbl then Ret (EINVAL, vw, d)
               else obind (drm_vblank_get drv crtc d) (\<lambda>(ret, d1).
                 if ret \<noteq> E_OK then Ret (ret, vw, d1)
                 else obind (drm_vblank_count d1 crtc) (\<lambda>seq.
                   let vw1 = vw_absolute seq vw;
                       vw2 = vw_next_on_miss (vw_type vw1 AND VBLANK_FLAGS_MASK) seq vw1
                   in if vw_type vw1 AND VBLANK_FLAGS_MASK AND VBLANK_EVENT \<noteq> 0
                      then drm_queue_vblank_event calloc_ok now crtc vw2 m d1
                      else obind (wait_vblank_on sl crtc (vw_sequence vw2) d1) (\<lambda>(ret2, d2).
                             obind (drm_vblank_count d2 crtc) (\<lambda>seq2.
                               let vw3 = vw2\<lparr>vw_signal_sec := fst now, vw_usec := snd now,
                                             vw_sequence := seq2\<rparr>
                               in obind (drm_vblank_put crtc d2) (\<lambda>d3. Ret (ret2, vw3, d3)))))))"

section \<open>The interrupt\<close>

text \<open>The walk over the crtc's queue; \<open>evs\<close> are the events still to look at.\<close>

fun deliver_events ::
  "u64 \<times> u64 \<Rightarrow> u32 \<Rightarrow> int \<Rightarrow> drm_pending_event list \<Rightarrow> 'a irq_dev_scheme \<Rightarrow> 'a irq_dev_scheme outcome" where
  "deliver_events now seq crtc [] d = Ret d"
| "deliver_events now seq crtc (ev # evs) d =
     (if seq - ev_sequence ev > 2 ^ 23 then deliver_events now seq crtc evs d
      else
        let ev1 = ev\<lparr>ev_sequence := seq, ev_tv_sec := ucast (fst now), ev_tv_usec := ucast (snd now)\<rparr>
        in obind (drm_vblank_put crtc d) (\<lambda>d1.
             if drm_find_file_by_minor d1 (ev_file_priv ev) = None then Panic
             else deliver_events now seq crtc evs
                    (upd_file (ev_file_priv ev) (\<lambda>f. f\<lparr>evlist := evlist f @ [ev1]\<rparr>)
                       (set_crtc crtc (\<lambda>w. w\<lparr>vbl_events := remove1 ev (vbl_events w)\<rparr>) d1))))"

definition drm_handle_vblank_events ::
  "u64 \<times> u64 \<Rightarrow> int \<Rightarrow> 'a irq_dev_scheme \<Rightarrow> 'a irq_dev_scheme outcome" where
  "drm_handle_vblank_events now crtc d =
     (case the_crtc d crtc of
        None \<Rightarrow> Panic
      | Some v \<Rightarrow> deliver_events now (vbl_count v) crtc (vbl_events v) d)"

definition drm_handle_vblank :: "u64 \<times> u64 \<Rightarrow> int \<Rightarrow> 'a irq_dev_scheme \<Rightarrow> 'a irq_dev_scheme outcome" where
  "drm_handle_vblank now crtc d =
     (if the_crtc d crtc = None then Panic
      else drm_handle_vblank_events now crtc
             (set_crtc crtc (\<lambda>w. w\<lparr>vbl_count := vbl_count w + 1\<rparr>) d))"

section \<open>Reading events\<close>

text \<open>\<^verbatim>\<open>drm_dequeue_event\<close>: the first event of the file, if the reader has room for all of it.\<close>

definition drm_dequeue_event ::
  "int \<Rightarrow> nat \<Rightarrow> 'a irq_dev_scheme \<Rightarrow> (drm_pending_event option \<times> 'a irq_dev_scheme) outcome" where
  "drm_dequeue_event m resid d =
     (case drm_find_file_by_minor d m of
        None \<Rightarrow> Panic
      | Some f \<Rightarrow>
          (case evlist f of
             [] \<Rightarrow> Ret (None, d)
           | ev # rest \<Rightarrow>
               if unat (ev_length ev) > resid then Ret (None, d)
               else Ret (Some ev, upd_file m (\<lambda>f. f\<lparr>evlist := rest,
                      event_space := event_space f + int (unat (ev_length ev))\<rparr>) d)))"

text \<open>
  \<^verbatim>\<open>drmread\<close>: wait for the first event, then copy out events while they fit. \<open>uio\<close> lists the
  results of the successive \<^verbatim>\<open>uiomove\<close>s, each with what the others do while the event is copied.
  The result is the errno, the events that reached the reader, and the device.
\<close>

fun read_wait ::
  "bool \<Rightarrow> 'a irq_dev_scheme sleeps \<Rightarrow> int \<Rightarrow> 'a irq_dev_scheme \<Rightarrow> (errno \<times> 'a irq_dev_scheme) outcome" where
  "read_wait nodelay sl m d =
     (case drm_find_file_by_minor d m of
        None \<Rightarrow> Panic
      | Some f \<Rightarrow>
          if evlist f \<noteq> [] then Ret (E_OK, d)
          else if nodelay then Ret (EAGAIN, d)
          else case sl of
            [] \<Rightarrow> Asleep
          | (ret, env) # sl' \<Rightarrow>
              if ret \<noteq> E_OK then Ret (ret, env d) else read_wait nodelay sl' m (env d))"

declare read_wait.simps [simp del]

fun read_events ::
  "'a irq_dev_scheme sleeps \<Rightarrow> int \<Rightarrow> nat \<Rightarrow> 'a irq_dev_scheme \<Rightarrow>
   (errno \<times> drm_pending_event list \<times> 'a irq_dev_scheme) outcome" where
  "read_events uio m resid d =
     obind (drm_dequeue_event m resid d) (\<lambda>(oev, d1).
       case oev of
         None \<Rightarrow> Ret (E_OK, [], d1)
       | Some ev \<Rightarrow>
           (case uio of
              [] \<Rightarrow> Asleep
            | (ret, env) # uio' \<Rightarrow>
                if ret \<noteq> E_OK then Ret (ret, [], env d1)
                else obind (read_events uio' m (resid - unat (ev_length ev)) (env d1))
                       (\<lambda>(e, evs, d2). Ret (e, ev # evs, d2))))"

declare read_events.simps [simp del]

definition drmread ::
  "bool \<Rightarrow> 'a irq_dev_scheme sleeps \<Rightarrow> 'a irq_dev_scheme sleeps \<Rightarrow> int \<Rightarrow> nat \<Rightarrow> 'a irq_dev_scheme \<Rightarrow>
   (errno \<times> drm_pending_event list \<times> 'a irq_dev_scheme) outcome" where
  "drmread nodelay sl uio m resid d =
     (if drm_find_file_by_minor d m = None then Ret (ENXIO, [], d)
      else obind (read_wait nodelay sl m d) (\<lambda>(e, d1).
        if e \<noteq> E_OK then Ret (e, [], d1) else read_events uio m resid d1))"

definition POLLIN :: u32 where "POLLIN = 0x1"
definition POLLERR :: u32 where "POLLERR = 0x8"
definition POLLRDNORM :: u32 where "POLLRDNORM = 0x40"

text \<open>\<^verbatim>\<open>drmpoll\<close>: the events reported, and whether the caller was recorded for a wake-up.\<close>

definition drmpoll :: "u32 \<Rightarrow> int \<Rightarrow> 'a irq_dev_scheme \<Rightarrow> u32 \<times> bool" where
  "drmpoll events m d =
     (case drm_find_file_by_minor d m of
        None \<Rightarrow> (POLLERR, False)
      | Some f \<Rightarrow>
          if events AND (POLLIN OR POLLRDNORM) \<noteq> 0
          then if evlist f \<noteq> [] then (events AND (POLLIN OR POLLRDNORM), False) else (0, True)
          else (0, False))"

section \<open>The events of a file that is closed\<close>

text \<open>The walk of \<^verbatim>\<open>drmclose\<close> over one crtc's queue, then over all crtcs.\<close>

fun drop_file_events ::
  "int \<Rightarrow> int \<Rightarrow> drm_pending_event list \<Rightarrow> 'a irq_dev_scheme \<Rightarrow> 'a irq_dev_scheme outcome" where
  "drop_file_events m crtc [] d = Ret d"
| "drop_file_events m crtc (ev # evs) d =
     (if ev_file_priv ev = m
      then obind (drm_vblank_put crtc
                    (set_crtc crtc (\<lambda>w. w\<lparr>vbl_events := remove1 ev (vbl_events w)\<rparr>) d))
             (drop_file_events m crtc evs)
      else drop_file_events m crtc evs d)"

fun drop_all_events :: "int \<Rightarrow> nat \<Rightarrow> int \<Rightarrow> 'a irq_dev_scheme \<Rightarrow> 'a irq_dev_scheme outcome" where
  "drop_all_events m 0 i d = Ret d"
| "drop_all_events m (Suc n) i d =
     (case the_crtc d i of
        None \<Rightarrow> Panic
      | Some v \<Rightarrow> obind (drop_file_events m i (vbl_events v) d) (drop_all_events m n (i + 1)))"

text \<open>The event part of \<^verbatim>\<open>drmclose\<close>: \<^verbatim>\<open>dev->vblank\<close> is dereferenced without a test.\<close>

definition close_events :: "int \<Rightarrow> 'a irq_dev_scheme \<Rightarrow> 'a irq_dev_scheme outcome" where
  "close_events m d =
     (case vblank d of
        None \<Rightarrow> Panic
      | Some v \<Rightarrow>
          obind (drop_all_events m (nat (vb_num v)) 0 d)
            (\<lambda>d1. Ret (upd_file m (\<lambda>f. f\<lparr>evlist := []\<rparr>) d1)))"

end
