(* ===== verification/Vblank_Inv.thy ===== *)
theory Vblank_Inv
  imports Drm_Irq
begin

text \<open>
  The invariant of vertical blanks: every pending event and every modeset in progress owns a
  reference on its crtc, so no \<^verbatim>\<open>drm_vblank_put\<close> finds the count at zero; every pending event
  belongs to an open file; and a file's event space plus its queued events is always 4096 bytes.
\<close>

section \<open>How the state moves\<close>

lemma the_crtc_set [simp]:
  "the_crtc (set_crtc c f d) c' = (if c' = c then map_option f (the_crtc d c) else the_crtc d c')"
proof (cases "the_crtc d c")
  case None
  then show ?thesis by (simp add: set_crtc_def)
next
  case (Some v)
  then obtain w where w: "vblank d = Some w" "0 \<le> c" "nat c < length (vb_crtcs w)" "v = vb_crtcs w ! nat c"
    by (auto simp: the_crtc_def split: option.splits if_splits)
  show ?thesis
  proof (cases "0 \<le> c'")
    case True
    with w show ?thesis by (cases "nat c' = nat c") (auto simp: set_crtc_def the_crtc_def nat_eq_iff)
  next
    case False
    with w show ?thesis by (auto simp: set_crtc_def the_crtc_def)
  qed
qed

lemma set_crtc_frame [simp]:
  "files (set_crtc c f d) = files d" "irq_enabled (set_crtc c f d) = irq_enabled d"
  "drm_find_file_by_minor (set_crtc c f d) m = drm_find_file_by_minor d m"
  "(vblank (set_crtc c f d) = None) = (vblank d = None)"
  "dev_irq (set_crtc c f d) = dev_irq d" "dev_private (set_crtc c f d) = dev_private d"
  by (auto simp: set_crtc_def drm_find_file_by_minor_def)

lemma set_crtc_num:
  "vblank (set_crtc c f d) = Some w \<Longrightarrow>
   \<exists>v. vblank d = Some v \<and> vb_num w = vb_num v \<and> vb_max w = vb_max v \<and>
       vb_disable_timer w = vb_disable_timer v \<and> length (vb_crtcs w) = length (vb_crtcs v)"
  by (auto simp: set_crtc_def split: if_splits)

lemma arm_timer_frame [simp]:
  "the_crtc (arm_timer s d) c = the_crtc d c" "files (arm_timer s d) = files d"
  "drm_find_file_by_minor (arm_timer s d) m = drm_find_file_by_minor d m"
  "irq_enabled (arm_timer s d) = irq_enabled d" "(vblank (arm_timer s d) = None) = (vblank d = None)"
  by (auto simp: arm_timer_def the_crtc_def drm_find_file_by_minor_def split: option.splits)

lemma upd_file_irq_frame [simp]:
  "the_crtc (upd_file m f d) c = the_crtc d c" "vblank (upd_file m f d) = vblank d"
  "irq_enabled (upd_file m f d) = irq_enabled d"
  by (simp_all add: upd_file_def the_crtc_def)

definition file_count :: "int \<Rightarrow> drm_pending_event list \<Rightarrow> int" where
  "file_count m evs = int (length (filter (\<lambda>e. ev_file_priv e = m) evs))"

lemma file_count_simps [simp]:
  "file_count m [] = 0"
  "file_count m (e # evs) = (if ev_file_priv e = m then 1 else 0) + file_count m evs"
  "file_count m (evs @ evs') = file_count m evs + file_count m evs'"
  by (simp_all add: file_count_def)

lemma file_count_nonneg [simp]: "0 \<le> file_count m evs"
  by (simp add: file_count_def)

lemma file_count_remove1:
  "e \<in> set evs \<Longrightarrow> file_count m (remove1 e evs) = file_count m evs - (if ev_file_priv e = m then 1 else 0)"
  by (induction evs) auto

definition pending :: "'a irq_dev_scheme \<Rightarrow> int \<Rightarrow> int" where
  "pending d m =
     (case vblank d of None \<Rightarrow> 0 | Some v \<Rightarrow> sum_list (map (\<lambda>w. file_count m (vbl_events w)) (vb_crtcs v)))"

lemma sum_list_map_update:
  "k < length xs \<Longrightarrow> sum_list (map g (xs[k := y])) = sum_list (map g xs) - g (xs ! k) + (g y :: int)"
  by (induction xs arbitrary: k) (auto simp: nth_Cons split: nat.splits)

lemma pending_set_crtc:
  assumes "the_crtc d c = Some v"
  shows "pending (set_crtc c f d) m =
    pending d m - file_count m (vbl_events v) + file_count m (vbl_events (f v))"
  using assms by (auto simp: pending_def set_crtc_def the_crtc_def sum_list_map_update split: option.splits if_splits)

lemma pending_frame [simp]:
  "pending (upd_file m' g d) m = pending d m" "pending (arm_timer s d) m = pending d m"
  by (auto simp: pending_def upd_file_def arm_timer_def split: option.splits)

lemma pending_nonneg: "0 \<le> pending d m"
  by (auto simp: pending_def intro!: sum_list_nonneg split: option.splits)

lemma pending_crtc: "the_crtc d c = Some v \<Longrightarrow> file_count m (vbl_events v) \<le> pending d m"
  by (force simp: pending_def the_crtc_def intro!: member_le_sum_list split: option.splits if_splits)

section \<open>The invariant\<close>

definition modeset_ref :: "drm_vblank \<Rightarrow> int" where
  "modeset_ref v = (if vbl_inmodeset v AND 0x2 \<noteq> 0 then 1 else 0)"

definition crtc_ok :: "int \<Rightarrow> drm_vblank \<Rightarrow> bool" where
  "crtc_ok own v \<longleftrightarrow> 0 \<le> own \<and> int (length (vbl_events v)) + modeset_ref v + own \<le> vbl_refs v"

definition crtc_in :: "'a irq_dev_scheme \<Rightarrow> int \<Rightarrow> bool" where
  "crtc_in d c \<longleftrightarrow> (\<exists>v. vblank d = Some v \<and> 0 \<le> c \<and> c < vb_num v)"

definition event_ok :: "'a irq_dev_scheme \<Rightarrow> int \<Rightarrow> drm_pending_event \<Rightarrow> bool" where
  "event_ok d c ev \<longleftrightarrow>
     drm_find_file_by_minor d (ev_file_priv ev) \<noteq> None \<and> ev_length ev = 32 \<and> crtc_in d c"

definition file_space_ok :: "'a irq_dev_scheme \<Rightarrow> int \<Rightarrow> drm_file \<Rightarrow> bool" where
  "file_space_ok d m f \<longleftrightarrow> 0 \<le> event_space f \<and>
     event_space f + 32 * (int (length (evlist f)) + pending d m) = 4096 \<and>
     (\<forall>ev\<in>set (evlist f). ev_length ev = 32)"

definition vbl_inv :: "(int \<Rightarrow> int) \<Rightarrow> 'a irq_dev_scheme \<Rightarrow> bool" where
  "vbl_inv own d \<longleftrightarrow>
     (\<forall>v. vblank d = Some v \<longrightarrow> 0 \<le> vb_num v \<and> nat (vb_num v) \<le> length (vb_crtcs v)) \<and>
     (\<forall>c v. the_crtc d c = Some v \<longrightarrow> crtc_ok (own c) v) \<and>
     (\<forall>c v ev. the_crtc d c = Some v \<longrightarrow> ev \<in> set (vbl_events v) \<longrightarrow> event_ok d c ev) \<and>
     (\<forall>m f. drm_find_file_by_minor d m = Some f \<longrightarrow> file_space_ok d m f)"

lemma vbl_invI:
  assumes "\<And>v. vblank d = Some v \<Longrightarrow> 0 \<le> vb_num v \<and> nat (vb_num v) \<le> length (vb_crtcs v)"
    "\<And>c v. the_crtc d c = Some v \<Longrightarrow> crtc_ok (own c) v"
    "\<And>c v ev. the_crtc d c = Some v \<Longrightarrow> ev \<in> set (vbl_events v) \<Longrightarrow> event_ok d c ev"
    "\<And>m f. drm_find_file_by_minor d m = Some f \<Longrightarrow> file_space_ok d m f"
  shows "vbl_inv own d"
  using assms unfolding vbl_inv_def by blast

lemma vbl_invD:
  assumes "vbl_inv own d"
  shows "vblank d = Some v \<Longrightarrow> 0 \<le> vb_num v \<and> nat (vb_num v) \<le> length (vb_crtcs v)"
    "the_crtc d c = Some w \<Longrightarrow> crtc_ok (own c) w"
    "the_crtc d c = Some w \<Longrightarrow> ev \<in> set (vbl_events w) \<Longrightarrow> event_ok d c ev"
    "drm_find_file_by_minor d m = Some f \<Longrightarrow> file_space_ok d m f"
  using assms unfolding vbl_inv_def by blast+

lemma vbl_crtc:
  assumes "vbl_inv own d" "vblank d = Some v" "0 \<le> c" "c < vb_num v"
  shows "\<exists>w. the_crtc d c = Some w"
  using vbl_invD(1)[OF assms(1,2)] assms(2-4) by (auto simp: the_crtc_def)

lemma crtc_in_frame [simp]:
  "crtc_in (set_crtc c' f d) c = crtc_in d c" "crtc_in (arm_timer s d) c = crtc_in d c"
  "crtc_in (upd_file m g d) c = crtc_in d c"
  by (cases "vblank d"; simp add: crtc_in_def set_crtc_def arm_timer_def)+

lemma event_ok_frame [simp]:
  "event_ok (set_crtc c' f d) c ev = event_ok d c ev" "event_ok (arm_timer s d) c ev = event_ok d c ev"
  "event_ok (upd_file m g d) c ev = event_ok d c ev"
  by (simp_all add: event_ok_def find_upd_file)

text \<open>A change of one crtc that keeps its queue.\<close>

lemma vbl_inv_set_crtc:
  assumes inv: "vbl_inv own d"
    and ok: "\<And>v. the_crtc d c = Some v \<Longrightarrow> crtc_ok (own' c) (f v)"
    and ev: "\<And>v. vbl_events (f v) = vbl_events v" and own: "\<And>c'. c' \<noteq> c \<Longrightarrow> own' c' = own c'"
  shows "vbl_inv own' (set_crtc c f d)"
proof (rule vbl_invI)
  note D = vbl_invD[OF inv]
  show "0 \<le> vb_num w \<and> nat (vb_num w) \<le> length (vb_crtcs w)" if "vblank (set_crtc c f d) = Some w" for w
    using set_crtc_num[OF that] D(1) by metis
  show "crtc_ok (own' c') w" if "the_crtc (set_crtc c f d) c' = Some w" for c' w
    using that ok D(2) own by (cases "c' = c") auto
  show "event_ok (set_crtc c f d) c' e" if "the_crtc (set_crtc c f d) c' = Some w" "e \<in> set (vbl_events w)" for c' w e
    using that D(3) ev by (auto split: if_splits)
  have "pending (set_crtc c f d) m = pending d m" for m
  proof (cases "the_crtc d c")
    case None
    then show ?thesis by (simp add: set_crtc_def)
  next
    case (Some v)
    then show ?thesis by (simp add: pending_set_crtc ev)
  qed
  then show "file_space_ok (set_crtc c f d) m g" if "drm_find_file_by_minor (set_crtc c f d) m = Some g" for m g
    using that D(4)[of m g] by (simp add: file_space_ok_def)
qed

lemma vbl_inv_arm [simp]: "vbl_inv own (arm_timer s d) = vbl_inv own d"
proof -
  have "(\<forall>v. vblank (arm_timer s d) = Some v \<longrightarrow> 0 \<le> vb_num v \<and> nat (vb_num v) \<le> length (vb_crtcs v)) =
        (\<forall>v. vblank d = Some v \<longrightarrow> 0 \<le> vb_num v \<and> nat (vb_num v) \<le> length (vb_crtcs v))"
    by (cases "vblank d") (auto simp: arm_timer_def)
  then show ?thesis unfolding vbl_inv_def by (simp add: file_space_ok_def)
qed

lemma vbl_inv_own:
  "vbl_inv own d \<Longrightarrow> (\<And>c. the_crtc d c \<noteq> None \<Longrightarrow> own' c = own c) \<Longrightarrow> vbl_inv own' d"
  unfolding vbl_inv_def by (metis option.distinct(1))

section \<open>Taking and dropping a reference\<close>

text \<open>
  What the driver promises: enabling and disabling the interrupt of a crtc leaves the files, the
  crtcs and the interrupt state of the core alone.
\<close>

definition irq_core where
  "irq_core (d :: 'a irq_dev_scheme) = (files d, vblank d, irq_enabled d, dev_irq d, dev_private d)"

definition vblank_frame :: "('a irq_dev_scheme) drm_driver_info \<Rightarrow> bool" where
  "vblank_frame drv \<longleftrightarrow>
     (\<forall>d c. irq_core (snd (enable_vblank drv d c)) = irq_core d \<and> irq_core (disable_vblank drv d c) = irq_core d)"

lemma irq_core_the_crtc: "irq_core d = irq_core d' \<Longrightarrow> the_crtc d c = the_crtc d' c"
  by (simp add: irq_core_def the_crtc_def)

lemma irq_core_inv: "irq_core d = irq_core d' \<Longrightarrow> vbl_inv own d = vbl_inv own d'"
proof -
  assume c: "irq_core d = irq_core d'"
  then have e: "vblank d = vblank d'" "files d = files d'" by (simp_all add: irq_core_def)
  have "pending d = pending d'" "drm_find_file_by_minor d = drm_find_file_by_minor d'"
    using e by (auto simp: pending_def drm_find_file_by_minor_def)
  then show ?thesis
    by (simp add: vbl_inv_def e irq_core_the_crtc[OF c] event_ok_def crtc_in_def file_space_ok_def)
qed

lemma drm_vblank_put_inv:
  assumes inv: "vbl_inv own d" and crtc: "the_crtc d c = Some v" and own: "0 < own c"
  shows "\<exists>d'. drm_vblank_put c d = Ret d' \<and> vbl_inv (own(c := own c - 1)) d'"
proof -
  have ok: "crtc_ok (own c) v" by (rule vbl_invD(2)[OF inv crtc])
  then have pos: "0 < vbl_refs v" using own by (auto simp: crtc_ok_def modeset_ref_def split: if_splits)
  have "vbl_inv (own(c := own c - 1)) (set_crtc c (\<lambda>w. w\<lparr>vbl_refs := vbl_refs w - 1\<rparr>) d)"
    by (rule vbl_inv_set_crtc[OF inv]) (use ok own crtc in \<open>auto simp: crtc_ok_def modeset_ref_def\<close>)
  with crtc pos show ?thesis by (simp add: drm_vblank_put_def Let_def)
qed

lemma drm_vblank_get_inv:
  assumes inv: "vbl_inv own d" and crtc: "the_crtc d c = Some v" and drv: "vblank_frame drv"
  shows "\<exists>e d'. drm_vblank_get drv c d = Ret (e, d') \<and> files d' = files d \<and> the_crtc d' c \<noteq> None \<and>
    crtc_in d' c = crtc_in d c \<and>
    (if e = E_OK then vbl_inv (own(c := own c + 1)) d' else vbl_inv own d')"
proof -
  have ok: "crtc_ok (own c) v" by (rule vbl_invD(2)[OF inv crtc])
  let ?d1 = "set_crtc c (\<lambda>w. w\<lparr>vbl_refs := vbl_refs w + 1\<rparr>) d"
  have inv1: "vbl_inv (own(c := own c + 1)) ?d1"
    by (rule vbl_inv_set_crtc[OF inv]) (use ok crtc in \<open>auto simp: crtc_ok_def modeset_ref_def\<close>)
  show ?thesis
  proof (cases "irq_enabled d = 0 \<or> vbl_refs v \<noteq> 0 \<or> vbl_enabled v \<noteq> 0")
    case True
    with inv inv1 crtc show ?thesis by (auto simp: drm_vblank_get_def Let_def)
  next
    case False
    obtain e d2 where en: "enable_vblank drv ?d1 c = (e, d2)" by fastforce
    have core: "irq_core d2 = irq_core ?d1" using drv en unfolding vblank_frame_def by (metis snd_conv)
    then have inv2: "vbl_inv (own(c := own c + 1)) d2" using inv1 irq_core_inv[OF core] by simp
    have c2: "the_crtc d2 c = Some (v\<lparr>vbl_refs := 1\<rparr>)"
      using irq_core_the_crtc[OF core, of c] crtc False by simp
    have fs: "files d2 = files d" "crtc_in d2 c = crtc_in d c"
      using core crtc_in_frame(1)[of c _ d c] unfolding irq_core_def crtc_in_def by auto
    have "\<exists>w. vblank d2 = Some w" using c2 by (auto simp: the_crtc_def split: option.splits)
    then obtain w where w: "vblank d2 = Some w" by blast
    show ?thesis
    proof (cases "e = E_OK")
      case True
      let ?d3 = "set_crtc c (\<lambda>w. w\<lparr>vbl_enabled := 1\<rparr>) d2"
      have inv3: "vbl_inv (own(c := own c + 1)) ?d3"
        by (rule vbl_inv_set_crtc[OF inv2])
          (use vbl_invD(2)[OF inv2 c2] c2 in \<open>auto simp: crtc_ok_def modeset_ref_def\<close>)
      obtain w3 where w3: "vblank ?d3 = Some w3" using w set_crtc_frame(4)[of c "\<lambda>w. w\<lparr>vbl_enabled := 1\<rparr>" d2] by (metis not_None_eq)
      have c3: "the_crtc ?d3 c = Some (v\<lparr>vbl_refs := 1, vbl_enabled := 1\<rparr>)" using c2 by simp
      let ?d4 = "set_crtc c (\<lambda>w. w\<lparr>vbl_count := vbl_count w +
                 vblank_diff (vb_max w3) (vbl_last v) (get_vblank_counter drv ?d3 c)\<rparr>) ?d3"
      have inv4: "vbl_inv (own(c := own c + 1)) ?d4"
        by (rule vbl_inv_set_crtc[OF inv3])
          (use vbl_invD(2)[OF inv3 c3] c3 in \<open>auto simp: crtc_ok_def modeset_ref_def\<close>)
      have "drm_update_vblank_count drv c ?d3 = Ret ?d4"
        using w3 c3 by (simp add: drm_update_vblank_count_def del: the_crtc_set)
      then have "drm_vblank_get drv c d = Ret (E_OK, ?d4)"
        using False crtc en True by (simp add: drm_vblank_get_def Let_def)
      with inv4 fs c2 show ?thesis by simp
    next
      case e: False
      let ?d3 = "set_crtc c (\<lambda>w. w\<lparr>vbl_refs := vbl_refs w - 1\<rparr>) d2"
      have inv3: "vbl_inv own ?d3"
        by (rule vbl_inv_set_crtc[OF inv2]) (use ok c2 False in \<open>auto simp: crtc_ok_def modeset_ref_def\<close>)
      have "drm_vblank_get drv c d = Ret (e, ?d3)"
        using False crtc en e by (simp add: drm_vblank_get_def Let_def)
      with inv3 fs e c2 show ?thesis by simp
    qed
  qed
qed

section \<open>Queueing an event\<close>

text \<open>Storage taken from one place and given to another: a change of file \<open>m\<close> and of crtc \<open>c\<close>.\<close>

lemma vbl_inv_upd_file:
  assumes inv: "vbl_inv own d"
    and ok: "\<And>f. drm_find_file_by_minor d m = Some f \<Longrightarrow> file_space_ok d m (g f)"
  shows "vbl_inv own (upd_file m g d)"
proof (rule vbl_invI)
  note D = vbl_invD[OF inv]
  show "0 \<le> vb_num v \<and> nat (vb_num v) \<le> length (vb_crtcs v)" if "vblank (upd_file m g d) = Some v" for v
    using that D(1) by simp
  show "crtc_ok (own c) v" if "the_crtc (upd_file m g d) c = Some v" for c v using that D(2) by simp
  show "event_ok (upd_file m g d) c e" if "the_crtc (upd_file m g d) c = Some v" "e \<in> set (vbl_events v)" for c v e
    using that D(3) by simp
  show "file_space_ok (upd_file m g d) m' f'" if "drm_find_file_by_minor (upd_file m g d) m' = Some f'" for m' f'
    using that D(4)[of m'] ok by (auto simp: find_upd_file file_space_ok_def split: if_splits)
qed

lemma vbl_inv_queue:
  assumes inv: "vbl_inv own d" and crtc: "the_crtc d c = Some v" and fl: "drm_find_file_by_minor d m = Some f"
    and ev: "ev_file_priv ev = m" "ev_length ev = 32" and own: "0 < own c" and room: "32 \<le> event_space f"
    and ci: "crtc_in d c"
  shows "vbl_inv (own(c := own c - 1))
    (set_crtc c (\<lambda>w. w\<lparr>vbl_events := vbl_events w @ [ev]\<rparr>)
      (upd_file m (\<lambda>f. f\<lparr>event_space := event_space f - 32\<rparr>) d))" (is "vbl_inv _ (set_crtc c ?q ?d)")
proof (rule vbl_invI)
  note D = vbl_invD[OF inv]
  have c1: "the_crtc ?d c = Some v" using crtc by simp
  show "0 \<le> vb_num w \<and> nat (vb_num w) \<le> length (vb_crtcs w)" if "vblank (set_crtc c ?q ?d) = Some w" for w
    using set_crtc_num[OF that] D(1) by fastforce
  show "crtc_ok ((own(c := own c - 1)) c') w" if "the_crtc (set_crtc c ?q ?d) c' = Some w" for c' w
    using that D(2)[of c' w] D(2)[OF crtc] crtc own
    by (cases "c' = c") (auto simp: crtc_ok_def modeset_ref_def)
  show "event_ok (set_crtc c ?q ?d) c' e"
    if "the_crtc (set_crtc c ?q ?d) c' = Some w" "e \<in> set (vbl_events w)" for c' w e
    using that D(3)[of c' _ e] crtc ev fl ci by (auto simp: event_ok_def find_upd_file split: if_splits)
  show "file_space_ok (set_crtc c ?q ?d) m' g" if "drm_find_file_by_minor (set_crtc c ?q ?d) m' = Some g" for m' g
    using that D(4)[of m'] D(4)[OF fl] fl room
    by (auto simp: find_upd_file file_space_ok_def pending_set_crtc[OF c1] ev split: if_splits)
qed

lemma drm_queue_vblank_event_inv:
  assumes inv: "vbl_inv own d" and crtc: "the_crtc d c = Some v" and fl: "drm_find_file_by_minor d m = Some f"
    and own: "0 < own c" and ci: "crtc_in d c"
  shows "\<exists>e vw' d'. drm_queue_vblank_event ok now c vw m d = Ret (e, vw', d') \<and>
    (if e = E_OK then vbl_inv (own(c := own c - 1)) d' else e = ENOMEM \<and> d' = d)"
proof (cases "\<not> ok \<or> event_space f < 32")
  case True
  with fl show ?thesis by (auto simp: drm_queue_vblank_event_def VBLANK_EVENT_SIZE_def)
next
  case False
  then have room: "32 \<le> event_space f" and okT: ok by auto
  define vw1 where "vw1 = vw_next_on_miss (vw_type vw) (vbl_count v) vw"
  define ev where "ev = \<lparr>ev_type = DRM_EVENT_VBLANK, ev_length = of_nat VBLANK_EVENT_SIZE,
      ev_user_data = vw_signal_sec vw, ev_tv_sec = 0, ev_tv_usec = 0,
      ev_sequence = vw_sequence vw1, ev_file_priv = m\<rparr>"
  have ev_facts: "ev_file_priv ev = m" "ev_length ev = 32" by (simp_all add: ev_def VBLANK_EVENT_SIZE_def)
  let ?d1 = "upd_file m (\<lambda>f. f\<lparr>event_space := event_space f - 32\<rparr>) d"
  have cnt: "drm_vblank_count d c = Ret (vbl_count v)" using crtc by (simp add: drm_vblank_count_def)
  have unf: "drm_queue_vblank_event ok now c vw m d =
    (if seq_passed (vbl_count v) (vw_sequence vw1)
     then obind (drm_vblank_put c ?d1) (\<lambda>d2. Ret (E_OK, vw1,
       upd_file m (\<lambda>f. f\<lparr>evlist := evlist f @ [ev\<lparr>ev_tv_sec := ucast (fst now), ev_tv_usec := ucast (snd now)\<rparr>]\<rparr>) d2))
     else Ret (E_OK, vw1, set_crtc c (\<lambda>w. w\<lparr>vbl_events := vbl_events w @ [ev]\<rparr>) ?d1))"
    using okT fl room
    by (simp add: drm_queue_vblank_event_def cnt Let_def vw1_def[symmetric] VBLANK_EVENT_SIZE_def)
      (simp add: ev_def VBLANK_EVENT_SIZE_def)
  show ?thesis
  proof (cases "seq_passed (vbl_count v) (vw_sequence vw1)")
    case False
    have "vbl_inv (own(c := own c - 1)) (set_crtc c (\<lambda>w. w\<lparr>vbl_events := vbl_events w @ [ev]\<rparr>) ?d1)"
      by (rule vbl_inv_queue[OF inv crtc fl ev_facts own room ci])
    with unf False show ?thesis by simp
  next
    case True
    let ?g = "\<lambda>f. f\<lparr>evlist := evlist f @ [ev\<lparr>ev_tv_sec := ucast (fst now), ev_tv_usec := ucast (snd now)\<rparr>]\<rparr>"
    let ?h = "\<lambda>f. ?g (f\<lparr>event_space := event_space f - 32\<rparr>)"
    from drm_vblank_put_inv[OF inv crtc own] obtain d0 where
      d0: "drm_vblank_put c d = Ret d0" "vbl_inv (own(c := own c - 1)) d0" by blast
    have comm: "drm_vblank_put c (upd_file m k d) = Ret (upd_file m k d0)" for k
      using d0(1) crtc
      by (auto simp: drm_vblank_put_def Let_def set_crtc_def arm_timer_def upd_file_def the_crtc_def
          split: if_splits option.splits)
    have fl0: "drm_find_file_by_minor d0 m = Some f"
      using d0(1) crtc fl by (auto simp: drm_vblank_put_def Let_def split: if_splits)
    have "vbl_inv (own(c := own c - 1)) (upd_file m ?h d0)"
      by (rule vbl_inv_upd_file[OF d0(2)])
        (use vbl_invD(4)[OF d0(2) fl0] fl0 room ev_facts in \<open>auto simp: file_space_ok_def\<close>)
    with unf True comm show ?thesis by (simp add: upd_file_comp)
  qed
qed

section \<open>Waiting\<close>

text \<open>What other threads and the interrupt do to the vertical blanks keeps the invariant.\<close>

definition vbl_quiet :: "'a irq_dev_scheme sleeps \<Rightarrow> bool" where
  "vbl_quiet sl \<longleftrightarrow> (\<forall>(e, env)\<in>set sl. \<forall>own d. vbl_inv own d \<longrightarrow> vbl_inv own (env d) \<and>
     (\<forall>c. the_crtc d c \<noteq> None \<longrightarrow> the_crtc (env d) c \<noteq> None))"

lemma wait_vblank_on_inv:
  assumes "vbl_inv own d" "the_crtc d c \<noteq> None" "vbl_quiet sl"
  shows "wait_vblank_on sl c want d \<noteq> Panic \<and>
    (\<forall>e d'. wait_vblank_on sl c want d = Ret (e, d') \<longrightarrow> vbl_inv own d' \<and> the_crtc d' c \<noteq> None)"
  using assms
proof (induction sl arbitrary: d)
  case Nil
  then show ?case
    by (subst (1 2) wait_vblank_on.simps) (auto simp: drm_vblank_count_def split: if_splits)
next
  case (Cons s sl)
  obtain e env where s: "s = (e, env)" by (cases s)
  have q: "vbl_inv own (env d)" "the_crtc (env d) c \<noteq> None" "vbl_quiet sl"
    using Cons.prems s by (auto simp: vbl_quiet_def)
  from Cons.IH[OF q] q Cons.prems(1,2) s show ?case
    by (subst (1 2) wait_vblank_on.simps) (auto simp: drm_vblank_count_def split: if_splits)
qed

lemma drm_wait_vblank_inv:
  assumes inv: "vbl_inv own d" and fl: "drm_find_file_by_minor d m = Some f" and drv: "vblank_frame drv"
    and q: "vbl_quiet sl"
  shows "drm_wait_vblank drv sl ok now vw m d \<noteq> Panic"
    and "drm_wait_vblank drv sl ok now vw m d = Ret (e, vw', d') \<Longrightarrow> vbl_inv own d'"
proof -
  let ?r = "drm_wait_vblank drv sl ok now vw m d"
  have weak: "vbl_inv own x" if "vbl_inv (own(c := own c + 1)) x" "the_crtc d c \<noteq> None" for c and x :: "'a irq_dev_scheme"
  proof -
    obtain v where v: "the_crtc d c = Some v" using \<open>the_crtc d c \<noteq> None\<close> by blast
    have nn: "0 \<le> own c" using vbl_invD(2)[OF inv v] by (simp add: crtc_ok_def)
    show ?thesis
    proof (rule vbl_invI)
      show "crtc_ok (own c') w" if "the_crtc x c' = Some w" for c' w
        using vbl_invD(2)[OF \<open>vbl_inv (own(c := own c + 1)) x\<close> that] nn
        by (cases "c' = c") (auto simp: crtc_ok_def)
    qed (use vbl_invD[OF \<open>vbl_inv (own(c := own c + 1)) x\<close>] in blast)+
  qed
  have "?r \<noteq> Panic \<and> (\<forall>e vw' d'. ?r = Ret (e, vw', d') \<longrightarrow> vbl_inv own d')"
  proof (cases "vblank d")
    case None
    with inv show ?thesis by (simp add: drm_wait_vblank_def)
  next
    case (Some vbl)
    define crtc where "crtc = (if vw_type vw AND VBLANK_FLAGS_MASK AND VBLANK_SECONDARY \<noteq> 0 then 1 else 0 :: int)"
    show ?thesis
    proof (cases "irq_enabled d = 0 \<or> vw_type vw AND VBLANK_SIGNAL \<noteq> 0 \<or> crtc \<ge> vb_num vbl")
      case True
      with inv Some show ?thesis
        unfolding drm_wait_vblank_def Some option.case Let_def crtc_def[symmetric] by auto
    next
      case False
      have "0 \<le> crtc" by (simp add: crtc_def)
      with vbl_crtc[OF inv Some] False obtain v where v: "the_crtc d crtc = Some v" by fastforce
      from drm_vblank_get_inv[OF inv v drv] obtain e1 d1 where
        g: "drm_vblank_get drv crtc d = Ret (e1, d1)" "files d1 = files d"
        "the_crtc d1 crtc \<noteq> None" "crtc_in d1 crtc = crtc_in d crtc" "if e1 = E_OK then vbl_inv (own(crtc := own crtc + 1)) d1 else vbl_inv own d1" by blast
      show ?thesis
      proof (cases "e1 = E_OK")
        case e1: False
        with g(1,5) False Some show ?thesis
          unfolding drm_wait_vblank_def Some option.case Let_def crtc_def[symmetric] by auto
      next
        case True
        have inv1: "vbl_inv (own(crtc := own crtc + 1)) d1" using g(5) True by simp
        have fl1: "drm_find_file_by_minor d1 m = Some f" using fl g(2) by (simp add: drm_find_file_by_minor_def)
        have own1: "0 < (own(crtc := own crtc + 1)) crtc" using vbl_invD(2)[OF inv v] by (simp add: crtc_ok_def)
        have bk: "(own(crtc := own crtc + 1))(crtc := (own(crtc := own crtc + 1)) crtc - 1) = own" by simp
        have ci1: "crtc_in d1 crtc" using g(4) Some False \<open>0 \<le> crtc\<close> by (simp add: crtc_in_def)
        from g(3) obtain v1 where v1: "the_crtc d1 crtc = Some v1" by blast
        define vw1 where "vw1 = vw_absolute (vbl_count v1) vw"
        define vw2 where "vw2 = vw_next_on_miss (vw_type vw1 AND VBLANK_FLAGS_MASK) (vbl_count v1) vw1"
        have cnt: "drm_vblank_count d1 crtc = Ret (vbl_count v1)" using v1 by (simp add: drm_vblank_count_def)
        let ?wait = "obind (wait_vblank_on sl crtc (vw_sequence vw2) d1) (\<lambda>(ret2, d2).
             obind (drm_vblank_count d2 crtc) (\<lambda>seq2.
               let vw3 = vw2\<lparr>vw_signal_sec := fst now, vw_usec := snd now, vw_sequence := seq2\<rparr>
               in obind (drm_vblank_put crtc d2) (\<lambda>d3. Ret (ret2, vw3, d3))))"
        have unf: "?r = (if vw_type vw1 AND VBLANK_FLAGS_MASK AND VBLANK_EVENT \<noteq> 0
            then drm_queue_vblank_event ok now crtc vw2 m d1 else ?wait)"
          unfolding drm_wait_vblank_def Some option.case Let_def crtc_def[symmetric]
          using False g(1) True by (simp add: cnt vw1_def[symmetric] vw2_def[symmetric])
        show ?thesis
        proof (cases "vw_type vw1 AND VBLANK_FLAGS_MASK AND VBLANK_EVENT \<noteq> 0")
          case ev: True
          from drm_queue_vblank_event_inv[OF inv1 v1 fl1 own1 ci1, of ok now vw2, unfolded bk]
            weak[OF inv1] v unf ev show ?thesis by (auto split: if_splits)
        next
          case ev: False
          note w = wait_vblank_on_inv[OF inv1 g(3) q, of "vw_sequence vw2"]
          have "?wait \<noteq> Panic \<and> (\<forall>e vw' d'. ?wait = Ret (e, vw', d') \<longrightarrow> vbl_inv own d')"
          proof (cases "wait_vblank_on sl crtc (vw_sequence vw2) d1")
            case (Ret y)
            obtain e2 d2 where y: "y = (e2, d2)" by (cases y)
            with w Ret obtain v2 where v2: "vbl_inv (own(crtc := own crtc + 1)) d2" "the_crtc d2 crtc = Some v2"
              by auto
            from drm_vblank_put_inv[OF v2 own1, unfolded bk] Ret y v2(2) show ?thesis
              by (auto simp: drm_vblank_count_def)
          qed (use w in auto)
          with unf ev show ?thesis by simp
        qed
      qed
    qed
  qed
  then show "?r \<noteq> Panic" "?r = Ret (e, vw', d') \<Longrightarrow> vbl_inv own d'" by blast+
qed

end
