(* ===== verification/Vblank_Deliver.thy ===== *)
theory Vblank_Deliver
  imports Vblank_Inv
begin

text \<open>
  The interrupt's delivery of events: no event is lost or delivered twice, each goes to its file in
  queue order, and the invariant is kept.
\<close>

lemma vblank_put_ret:
  assumes "the_crtc d c = Some v" "0 < vbl_refs v"
  shows "drm_vblank_put c d = Ret ((if vbl_refs v = 1 then arm_timer 5 else (\<lambda>x. x))
    (set_crtc c (\<lambda>w. w\<lparr>vbl_refs := vbl_refs w - 1\<rparr>) d))"
  using assms by (simp add: drm_vblank_put_def Let_def)

text \<open>One turn of the walk for an event that is due.\<close>

definition stamp :: "u64 \<times> u64 \<Rightarrow> u32 \<Rightarrow> drm_pending_event \<Rightarrow> drm_pending_event" where
  "stamp now seq ev = ev\<lparr>ev_sequence := seq, ev_tv_sec := ucast (fst now), ev_tv_usec := ucast (snd now)\<rparr>"

definition after_delivery :: "drm_pending_event \<Rightarrow> drm_vblank \<Rightarrow> drm_vblank" where
  "after_delivery ev w = w\<lparr>vbl_refs := vbl_refs w - 1, vbl_events := remove1 ev (vbl_events w)\<rparr>"

lemma crtc_ok_event:
  assumes "crtc_ok own v" "ev \<in> set (vbl_events v)"
  shows "0 < vbl_refs v" "crtc_ok own (after_delivery ev v)"
proof -
  obtain n where n: "length (vbl_events v) = Suc n" using assms(2) by (cases "vbl_events v") auto
  then have "length (remove1 ev (vbl_events v)) = n" using assms(2) by (simp add: length_remove1)
  moreover have "0 \<le> modeset_ref v" by (simp add: modeset_ref_def)
  ultimately show "0 < vbl_refs v" "crtc_ok own (after_delivery ev v)"
    using assms(1) n by (simp_all add: crtc_ok_def after_delivery_def modeset_ref_def)
qed

lemma set_crtc_comp: "set_crtc c g (set_crtc c f d) = set_crtc c (\<lambda>w. g (f w)) d"
proof (cases "the_crtc d c")
  case None
  then show ?thesis by (simp add: set_crtc_def)
next
  case (Some v)
  then obtain w where w: "vblank d = Some w" "0 \<le> c" "nat c < length (vb_crtcs w)"
    by (auto simp: the_crtc_def split: option.splits if_splits)
  have "the_crtc (set_crtc c f d) c \<noteq> None" using Some by simp
  then show ?thesis using w Some
    by (simp add: set_crtc_def[of c g "set_crtc c f d"]) (simp add: set_crtc_def)
qed

lemma set_crtc_arm: "set_crtc c g (arm_timer s d) = arm_timer s (set_crtc c g d)"
  by (cases "vblank d") (auto simp: set_crtc_def arm_timer_def the_crtc_def)

lemma upd_file_arm: "upd_file m g (arm_timer s d) = arm_timer s (upd_file m g d)"
  by (simp add: upd_file_def arm_timer_def)

lemma deliver_due:
  assumes crtc: "the_crtc d c = Some v" and refs: "0 < vbl_refs v"
    and fl: "drm_find_file_by_minor d (ev_file_priv ev) \<noteq> None" and due: "seq_passed seq (ev_sequence ev)"
  shows "\<exists>arm. deliver_events now seq c (ev # evs) d =
    deliver_events now seq c evs ((if arm then arm_timer 5 else (\<lambda>x. x))
      (upd_file (ev_file_priv ev) (\<lambda>f. f\<lparr>evlist := evlist f @ [stamp now seq ev]\<rparr>)
        (set_crtc c (after_delivery ev) d)))"
proof -
  have nd: "\<not> seq - ev_sequence ev > 2 ^ 23" using due by (simp add: seq_passed_def not_less)
  obtain f where f: "drm_find_file_by_minor d (ev_file_priv ev) = Some f" using fl by blast
  show ?thesis
  proof (intro exI[of _ "vbl_refs v = 1"])
    show "deliver_events now seq c (ev # evs) d =
      deliver_events now seq c evs ((if vbl_refs v = 1 then arm_timer 5 else (\<lambda>x. x))
        (upd_file (ev_file_priv ev) (\<lambda>f. f\<lparr>evlist := evlist f @ [stamp now seq ev]\<rparr>)
          (set_crtc c (after_delivery ev) d)))"
      unfolding deliver_events.simps if_not_P[OF nd] vblank_put_ret[OF crtc refs]
      using f by (simp add: stamp_def after_delivery_def[abs_def] set_crtc_comp set_crtc_arm upd_file_arm)
  qed
qed

lemma vbl_inv_deliver:
  assumes inv: "vbl_inv own d" and crtc: "the_crtc d c = Some v" and ev: "ev \<in> set (vbl_events v)"
  shows "vbl_inv own (upd_file (ev_file_priv ev) (\<lambda>f. f\<lparr>evlist := evlist f @ [stamp now seq ev]\<rparr>)
        (set_crtc c (after_delivery ev) d))" (is "vbl_inv own (upd_file ?m ?g ?d)")
proof (rule vbl_invI)
  note D = vbl_invD[OF inv]
  have okev: "event_ok d c ev" by (rule D(3)[OF crtc ev])
  show "0 \<le> vb_num w \<and> nat (vb_num w) \<le> length (vb_crtcs w)" if "vblank (upd_file ?m ?g ?d) = Some w" for w
    using set_crtc_num[of c "after_delivery ev" d w] that D(1) by fastforce
  show "crtc_ok (own c') w" if "the_crtc (upd_file ?m ?g ?d) c' = Some w" for c' w
    using that D(2)[of c' w] crtc_ok_event(2)[OF D(2)[OF crtc] ev] crtc by (cases "c' = c") auto
  show "event_ok (upd_file ?m ?g ?d) c' e"
    if "the_crtc (upd_file ?m ?g ?d) c' = Some w" "e \<in> set (vbl_events w)" for c' w e
  proof -
    have "\<exists>u. the_crtc d c' = Some u \<and> e \<in> set (vbl_events u)"
      using that crtc set_remove1_subset[of ev "vbl_events v"] by (auto simp: after_delivery_def split: if_splits)
    with D(3) show ?thesis by auto
  qed
  show "file_space_ok (upd_file ?m ?g ?d) m f" if "drm_find_file_by_minor (upd_file ?m ?g ?d) m = Some f" for m f
    using that D(4)[of m] okev
    by (auto simp: find_upd_file file_space_ok_def pending_set_crtc[OF crtc] after_delivery_def
        file_count_remove1[OF ev] event_ok_def stamp_def split: if_splits)
qed

definition due_events :: "u32 \<Rightarrow> drm_pending_event list \<Rightarrow> drm_pending_event list" where
  "due_events seq evs = filter (\<lambda>e. seq_passed seq (ev_sequence e)) evs"

definition later_events :: "u32 \<Rightarrow> drm_pending_event list \<Rightarrow> drm_pending_event list" where
  "later_events seq evs = filter (\<lambda>e. \<not> seq_passed seq (ev_sequence e)) evs"

lemma due_later_simps [simp]:
  "due_events seq [] = []" "later_events seq [] = []"
  "due_events seq (e # evs) = (if seq_passed seq (ev_sequence e) then [e] else []) @ due_events seq evs"
  "later_events seq (e # evs) = (if seq_passed seq (ev_sequence e) then [] else [e]) @ later_events seq evs"
  by (simp_all add: due_events_def later_events_def)

text \<open>What the file of minor \<open>m\<close> has received.\<close>

definition received :: "u64 \<times> u64 \<Rightarrow> u32 \<Rightarrow> int \<Rightarrow> drm_pending_event list \<Rightarrow> drm_pending_event list" where
  "received now seq m evs = map (stamp now seq) (filter (\<lambda>e. ev_file_priv e = m) (due_events seq evs))"

lemma received_simps [simp]:
  "received now seq m [] = []"
  "received now seq m (e # evs) =
     (if seq_passed seq (ev_sequence e) \<and> ev_file_priv e = m then [stamp now seq e] else []) @
     received now seq m evs"
  by (simp_all add: received_def)

lemma deliver_events_spec:
  assumes "vbl_inv own d" "the_crtc d c = Some v" "vbl_events v = kept @ evs"
    "\<forall>e\<in>set kept. \<not> seq_passed seq (ev_sequence e)"
  shows "\<exists>d' v'. deliver_events now seq c evs d = Ret d' \<and> vbl_inv own d' \<and> the_crtc d' c = Some v' \<and>
    vbl_events v' = kept @ later_events seq evs \<and> vbl_count v' = vbl_count v \<and>
    vbl_refs v' = vbl_refs v - int (length (due_events seq evs)) \<and>
    (\<forall>c'. c' \<noteq> c \<longrightarrow> the_crtc d' c' = the_crtc d c') \<and>
    (\<forall>m. drm_find_file_by_minor d' m =
       map_option (\<lambda>f. f\<lparr>evlist := evlist f @ received now seq m evs\<rparr>) (drm_find_file_by_minor d m))"
  using assms
proof (induction evs arbitrary: d v kept)
  case Nil
  then show ?case by (auto intro!: exI[of _ d] simp: option.map_ident)
next
  case (Cons ev evs)
  show ?case
  proof (cases "seq_passed seq (ev_sequence ev)")
    case False
    then have step: "deliver_events now seq c (ev # evs) d = deliver_events now seq c evs d"
      by (simp add: seq_passed_def not_le)
    have "vbl_events v = (kept @ [ev]) @ evs" "\<forall>e\<in>set (kept @ [ev]). \<not> seq_passed seq (ev_sequence e)"
      using Cons.prems False by auto
    from Cons.IH[OF Cons.prems(1,2) this] False show ?thesis unfolding step by simp
  next
    case True
    have ev: "ev \<in> set (vbl_events v)" using Cons.prems(3) by simp
    have refs: "0 < vbl_refs v" by (rule crtc_ok_event(1)[OF vbl_invD(2)[OF Cons.prems(1,2)] ev])
    have fl: "drm_find_file_by_minor d (ev_file_priv ev) \<noteq> None"
      using vbl_invD(3)[OF Cons.prems(1,2) ev] by (simp add: event_ok_def)
    let ?d = "upd_file (ev_file_priv ev) (\<lambda>f. f\<lparr>evlist := evlist f @ [stamp now seq ev]\<rparr>)
        (set_crtc c (after_delivery ev) d)"
    from deliver_due[OF Cons.prems(2) refs fl True] obtain arm where
      step: "deliver_events now seq c (ev # evs) d =
        deliver_events now seq c evs ((if arm then arm_timer 5 else (\<lambda>x. x)) ?d)" by blast
    let ?e = "(if arm then arm_timer 5 else (\<lambda>x. x)) ?d"
    have inv': "vbl_inv own ?e" using vbl_inv_deliver[OF Cons.prems(1,2) ev] by simp
    have c': "the_crtc ?e c = Some (after_delivery ev v)" using Cons.prems(2) by simp
    have "ev \<notin> set kept" using Cons.prems(4) True by auto
    then have rest: "vbl_events (after_delivery ev v) = kept @ evs"
      using Cons.prems(3) by (simp add: after_delivery_def remove1_append)
    from Cons.IH[OF inv' c' rest Cons.prems(4)] obtain d' v' where
      ih: "deliver_events now seq c evs ?e = Ret d'" "vbl_inv own d'" "the_crtc d' c = Some v'"
      "vbl_events v' = kept @ later_events seq evs" "vbl_count v' = vbl_count (after_delivery ev v)"
      "vbl_refs v' = vbl_refs (after_delivery ev v) - int (length (due_events seq evs))"
      "\<forall>c'. c' \<noteq> c \<longrightarrow> the_crtc d' c' = the_crtc ?e c'"
      "\<forall>m. drm_find_file_by_minor d' m =
       map_option (\<lambda>f. f\<lparr>evlist := evlist f @ received now seq m evs\<rparr>) (drm_find_file_by_minor ?e m)" by blast
    have files: "drm_find_file_by_minor d' m =
       map_option (\<lambda>f. f\<lparr>evlist := evlist f @ received now seq m (ev # evs)\<rparr>) (drm_find_file_by_minor d m)" for m
      using ih(8) True by (cases "drm_find_file_by_minor d m") (auto simp: find_upd_file)
    show ?thesis
      unfolding step
      using ih True files by (auto intro!: exI[of _ d'] exI[of _ v'] simp: after_delivery_def)
  qed
qed

end
