(* ===== verification/Vblank_Ops.thy ===== *)
theory Vblank_Ops
  imports Vblank_Deliver
begin

text \<open>
  The remaining operations on vertical blanks keep the invariant: the interrupt, modeset control,
  turning the interrupt on and off, reading events, and closing a file.
\<close>

section \<open>The interrupt\<close>

lemma drm_handle_vblank_spec:
  assumes inv: "vbl_inv own d" and crtc: "the_crtc d c = Some v"
  shows "\<exists>d' v'. drm_handle_vblank now c d = Ret d' \<and> vbl_inv own d' \<and> the_crtc d' c = Some v' \<and>
    vbl_count v' = vbl_count v + 1 \<and> vbl_events v' = later_events (vbl_count v + 1) (vbl_events v) \<and>
    vbl_refs v' = vbl_refs v - int (length (due_events (vbl_count v + 1) (vbl_events v))) \<and>
    (\<forall>c'. c' \<noteq> c \<longrightarrow> the_crtc d' c' = the_crtc d c') \<and>
    (\<forall>m. drm_find_file_by_minor d' m =
       map_option (\<lambda>f. f\<lparr>evlist := evlist f @ received now (vbl_count v + 1) m (vbl_events v)\<rparr>)
         (drm_find_file_by_minor d m))"
proof -
  let ?d = "set_crtc c (\<lambda>w. w\<lparr>vbl_count := vbl_count w + 1\<rparr>) d"
  let ?v = "v\<lparr>vbl_count := vbl_count v + 1\<rparr>"
  have inv1: "vbl_inv own ?d"
    by (rule vbl_inv_set_crtc[OF inv]) (use vbl_invD(2)[OF inv crtc] crtc in \<open>auto simp: crtc_ok_def modeset_ref_def\<close>)
  have c1: "the_crtc ?d c = Some ?v" using crtc by simp
  have unf: "drm_handle_vblank now c d = deliver_events now (vbl_count v + 1) c (vbl_events v) ?d"
    using crtc by (simp add: drm_handle_vblank_def drm_handle_vblank_events_def)
  have ev: "vbl_events ?v = [] @ vbl_events v" by simp
  from deliver_events_spec[OF inv1 c1 ev, of "vbl_count v + 1" now] show ?thesis
    unfolding unf by auto
qed

section \<open>Modeset control\<close>

lemma modeset_bits [simp]: "(3 :: u32) AND 2 = 2" "(1 :: u32) AND 2 = 0" "(1 :: u32) OR 2 = 3"
  by simp_all

lemma drm_modeset_ctl_inv:
  assumes inv: "vbl_inv own d" and drv: "vblank_frame drv"
  shows "\<exists>e d'. drm_modeset_ctl drv c cmd d = Ret (e, d') \<and> vbl_inv own d' \<and> files d' = files d"
proof (cases "vblank d")
  case None
  with inv show ?thesis by (simp add: drm_modeset_ctl_def)
next
  case (Some vbl)
  show ?thesis
  proof (cases "c \<ge> vb_num vbl \<or> c < 0")
    case True
    with Some inv show ?thesis by (auto simp: drm_modeset_ctl_def)
  next
    case False
    with vbl_crtc[OF inv Some, of c] obtain v where v: "the_crtc d c = Some v" by fastforce
    have ok: "crtc_ok (own c) v" by (rule vbl_invD(2)[OF inv v])
    show ?thesis
    proof (cases cmd)
      case (DRM_OTHER_MODESET x)
      with Some False v inv show ?thesis by (simp add: drm_modeset_ctl_def)
    next
      case DRM_PRE_MODESET
      show ?thesis
      proof (cases "vbl_inmodeset v = 0")
        case idle: True
        let ?d1 = "set_crtc c (\<lambda>w. w\<lparr>vbl_inmodeset := 0x1\<rparr>) d"
        have inv1: "vbl_inv own ?d1"
          by (rule vbl_inv_set_crtc[OF inv]) (use ok v idle in \<open>auto simp: crtc_ok_def modeset_ref_def\<close>)
        have v1: "the_crtc ?d1 c = Some (v\<lparr>vbl_inmodeset := 1\<rparr>)" using v by simp
        from drm_vblank_get_inv[OF inv1 v1 drv] obtain e d2 where
          g: "drm_vblank_get drv c ?d1 = Ret (e, d2)" "files d2 = files ?d1"
          "if e = E_OK then vbl_inv (own(c := own c + 1)) d2 else vbl_inv own d2" by blast
        have unf: "drm_modeset_ctl drv c cmd d = Ret (E_OK, if e = E_OK
            then set_crtc c (\<lambda>w. w\<lparr>vbl_inmodeset := vbl_inmodeset w OR 0x2\<rparr>) d2 else d2)"
          using Some False v DRM_PRE_MODESET idle g(1) by (simp add: drm_modeset_ctl_def)
        show ?thesis
        proof (cases "e = E_OK")
          case True
          then have inv2: "vbl_inv (own(c := own c + 1)) d2" using g(3) by simp
          have "vbl_inv own (set_crtc c (\<lambda>w. w\<lparr>vbl_inmodeset := vbl_inmodeset w OR 0x2\<rparr>) d2)"
          proof (rule vbl_inv_set_crtc[OF inv2])
            show "crtc_ok (own c) (w\<lparr>vbl_inmodeset := vbl_inmodeset w OR 0x2\<rparr>)" if "the_crtc d2 c = Some w" for w
              using vbl_invD(2)[OF inv2 that] ok by (auto simp: crtc_ok_def modeset_ref_def split: if_splits)
          qed simp_all
          with unf True g(2) show ?thesis by simp
        next
          case False
          with g(2,3) show ?thesis unfolding unf by simp
        qed
      next
        case False
        with Some \<open>\<not> (c \<ge> vb_num vbl \<or> c < 0)\<close> v DRM_PRE_MODESET inv show ?thesis
          by (simp add: drm_modeset_ctl_def)
      qed
    next
      case DRM_POST_MODESET
      show ?thesis
      proof (cases "vbl_inmodeset v AND 0x2 \<noteq> 0")
        case True
        then have pos: "0 < vbl_refs v" using ok by (simp add: crtc_ok_def modeset_ref_def)
        let ?arm = "if vbl_refs v = 1 then arm_timer 5 else (\<lambda>x. x)"
        let ?g = "\<lambda>w. w\<lparr>vbl_refs := vbl_refs w - 1, vbl_inmodeset := 0\<rparr>"
        have "vbl_inv own (set_crtc c ?g d)"
          by (rule vbl_inv_set_crtc[OF inv]) (use ok v True in \<open>auto simp: crtc_ok_def modeset_ref_def\<close>)
        moreover have "vbl_inmodeset v \<noteq> 0" using True by auto
        then have "drm_modeset_ctl drv c cmd d = Ret (E_OK, ?arm (set_crtc c ?g d))"
          using Some False v DRM_POST_MODESET True vblank_put_ret[OF v pos]
          by (simp add: drm_modeset_ctl_def set_crtc_arm set_crtc_comp)
        ultimately show ?thesis by simp
      next
        case no: False
        have "vbl_inv own (set_crtc c (\<lambda>w. w\<lparr>vbl_inmodeset := 0\<rparr>) d)"
          by (rule vbl_inv_set_crtc[OF inv]) (use ok v no in \<open>auto simp: crtc_ok_def modeset_ref_def\<close>)
        with Some False v DRM_POST_MODESET no inv show ?thesis
          by (auto simp: drm_modeset_ctl_def)
      qed
    qed
  qed
qed

section \<open>Loops over the crtcs\<close>

lemma crtc_loop_inv:
  assumes "vbl_inv own d" "0 \<le> i" "\<forall>j. i \<le> j \<and> j < i + int n \<longrightarrow> the_crtc d j \<noteq> None"
    and "\<And>j v x. vbl_inv own x \<Longrightarrow> the_crtc x j = Some v \<Longrightarrow> 0 \<le> j \<Longrightarrow> vbl_inv own (body j v x) \<and>
      files (body j v x) = files x \<and> (\<forall>k. the_crtc (body j v x) k = None \<longleftrightarrow> the_crtc x k = None)"
  shows "\<exists>d'. crtc_loop body n i d = Ret d' \<and> vbl_inv own d' \<and> files d' = files d \<and>
    (\<forall>k. the_crtc d' k = None \<longleftrightarrow> the_crtc d k = None)"
  using assms(1-3)
proof (induction n arbitrary: i d)
  case 0
  then show ?case by simp
next
  case (Suc n)
  from Suc.prems(3) obtain v where v: "the_crtc d i = Some v" by fastforce
  note b = assms(4)[OF Suc.prems(1) v Suc.prems(2)]
  have "\<forall>j. i + 1 \<le> j \<and> j < i + 1 + int n \<longrightarrow> the_crtc (body i v d) j \<noteq> None"
    using Suc.prems(3) b by auto
  from Suc.IH[of "body i v d" "i + 1", OF _ _ this] b Suc.prems(2) v show ?case by auto
qed

lemma all_crtcs:
  assumes "vbl_inv own d" "vblank d = Some v"
  shows "\<forall>j. 0 \<le> j \<and> j < 0 + int (nat (vb_num v)) \<longrightarrow> the_crtc d j \<noteq> None"
proof (intro allI impI)
  fix j assume "0 \<le> j \<and> j < 0 + int (nat (vb_num v))"
  then have "0 \<le> j" "j < vb_num v" by (auto split: if_splits)
  with vbl_crtc[OF assms, of j] show "the_crtc d j \<noteq> None" by auto
qed

lemma vblank_disable_inv:
  assumes inv: "vbl_inv own d" and some: "vblank d = Some v" and drv: "vblank_frame drv"
  shows "\<exists>d'. vblank_disable drv d = Ret d' \<and> vbl_inv own d' \<and> files d' = files d"
proof -
  define body where "body = (\<lambda>i (crtc :: drm_vblank) x. if vbl_refs crtc = 0 \<and> vbl_enabled crtc \<noteq> 0
     then set_crtc i (\<lambda>w. w\<lparr>vbl_enabled := 0\<rparr>)
            (disable_vblank drv (set_crtc i (\<lambda>w. w\<lparr>vbl_last := get_vblank_counter drv x i\<rparr>) x) i)
     else x)"
  have b: "vbl_inv own (body j w x) \<and> files (body j w x) = files x \<and>
      (\<forall>k. the_crtc (body j w x) k = None \<longleftrightarrow> the_crtc x k = None)"
    if x: "vbl_inv own x" "the_crtc x j = Some w" for j w x
  proof (cases "vbl_refs w = 0 \<and> vbl_enabled w \<noteq> 0")
    case True
    let ?x1 = "set_crtc j (\<lambda>w. w\<lparr>vbl_last := get_vblank_counter drv x j\<rparr>) x"
    let ?x2 = "disable_vblank drv ?x1 j"
    have ok: "crtc_ok (own j) w" by (rule vbl_invD(2)[OF x])
    have i1: "vbl_inv own ?x1"
      by (rule vbl_inv_set_crtc[OF x(1)]) (use ok x(2) in \<open>auto simp: crtc_ok_def modeset_ref_def\<close>)
    have core: "irq_core ?x2 = irq_core ?x1" using drv unfolding vblank_frame_def by blast
    have i2: "vbl_inv own ?x2" using i1 irq_core_inv[OF core] by simp
    have c2: "the_crtc ?x2 k = the_crtc ?x1 k" for k by (rule irq_core_the_crtc[OF core])
    have i3: "vbl_inv own (set_crtc j (\<lambda>w. w\<lparr>vbl_enabled := 0\<rparr>) ?x2)"
      by (rule vbl_inv_set_crtc[OF i2]) (use ok x(2) c2 in \<open>auto simp: crtc_ok_def modeset_ref_def\<close>)
    have fs: "files ?x2 = files x" using core by (simp add: irq_core_def)
    have "(\<forall>k. the_crtc (set_crtc j (\<lambda>w. w\<lparr>vbl_enabled := 0\<rparr>) ?x2) k = None \<longleftrightarrow> the_crtc x k = None)"
      using c2 by simp
    with i3 fs True show ?thesis by (simp add: body_def)
  next
    case False
    then have "body j w x = x" by (auto simp: body_def)
    with x show ?thesis by simp
  qed
  from crtc_loop_inv[OF inv _ all_crtcs[OF inv some], of body] b some show ?thesis
    by (auto simp: vblank_disable_def body_def[symmetric])
qed

definition irq_frame :: "('a irq_dev_scheme) drm_driver_info \<Rightarrow> bool" where
  "irq_frame drv \<longleftrightarrow>
     (\<forall>own d. vbl_inv own d \<longrightarrow> vbl_inv own (snd (irq_install drv d)) \<and> vbl_inv own (irq_uninstall drv d))"

lemma vbl_inv_enabled [simp]: "vbl_inv own (d\<lparr>irq_enabled := b\<rparr>) = vbl_inv own d"
  by (simp add: vbl_inv_def the_crtc_def event_ok_def crtc_in_def file_space_ok_def pending_def drm_find_file_by_minor_def)

lemma drm_irq_install_inv:
  assumes "vbl_inv own d" "irq_frame drv" "drm_irq_install drv d = (e, d')"
  shows "vbl_inv own d'"
proof -
  have "vbl_inv own (snd (irq_install drv (d\<lparr>irq_enabled := 1\<rparr>)))"
    using assms(1,2) by (simp add: irq_frame_def)
  with assms(1,3) show ?thesis
    by (auto simp: drm_irq_install_def Let_def split: if_splits prod.splits)
qed

lemma drm_irq_uninstall_inv:
  assumes inv: "vbl_inv own d" and drv: "irq_frame drv"
  shows "\<exists>e d'. drm_irq_uninstall drv d = Ret (e, d') \<and> vbl_inv own d'"
proof (cases "irq_enabled d = 0")
  case True
  with inv show ?thesis by (simp add: drm_irq_uninstall_def)
next
  case False
  let ?d = "d\<lparr>irq_enabled := 0\<rparr>"
  have fin: "vbl_inv own (irq_uninstall drv x)" if "vbl_inv own x" for x
    using that drv by (simp add: irq_frame_def)
  show ?thesis
  proof (cases "vblank d")
    case None
    with inv False fin[of ?d] show ?thesis by (simp add: drm_irq_uninstall_def)
  next
    case (Some v)
    define body where "body = (\<lambda>i (_ :: drm_vblank) x. set_crtc i (\<lambda>w. w\<lparr>vbl_enabled := 0, vbl_last := get_vblank_counter drv x i\<rparr>) x)"
    have b: "vbl_inv own (body j w x) \<and> files (body j w x) = files x \<and>
        (\<forall>k. the_crtc (body j w x) k = None \<longleftrightarrow> the_crtc x k = None)"
      if x: "vbl_inv own x" "the_crtc x j = Some w" for j w x
    proof -
      have "vbl_inv own (body j w x)" unfolding body_def
        by (rule vbl_inv_set_crtc[OF x(1)])
          (use vbl_invD(2)[OF x] x(2) in \<open>auto simp: crtc_ok_def modeset_ref_def\<close>)
      then show ?thesis by (simp add: body_def)
    qed
    have inv': "vbl_inv own ?d" using inv by simp
    have some: "vblank ?d = Some v" using Some by simp
    from crtc_loop_inv[OF inv' _ all_crtcs[OF inv' some], of body] b obtain d1 where
      d1: "crtc_loop body (nat (vb_num v)) 0 ?d = Ret d1" "vbl_inv own d1" by auto
    have "drm_irq_uninstall drv d = Ret (E_OK, irq_uninstall drv d1)"
      using False some d1(1) unfolding drm_irq_uninstall_def body_def[symmetric] by simp
    with fin[OF d1(2)] show ?thesis by simp
  qed
qed

section \<open>Reading\<close>

lemma drm_dequeue_event_inv:
  assumes inv: "vbl_inv own d" and fl: "drm_find_file_by_minor d m = Some f"
  shows "\<exists>oev d'. drm_dequeue_event m resid d = Ret (oev, d') \<and> vbl_inv own d' \<and>
    (\<forall>c. the_crtc d' c = the_crtc d c) \<and>
    (case evlist f of
       [] \<Rightarrow> oev = None \<and> d' = d
     | ev # rest \<Rightarrow>
         if 32 \<le> resid
         then oev = Some ev \<and> drm_find_file_by_minor d' m = Some (f\<lparr>evlist := rest, event_space := event_space f + 32\<rparr>)
         else oev = None \<and> d' = d)"
proof -
  have sp: "file_space_ok d m f" by (rule vbl_invD(4)[OF inv fl])
  show ?thesis
  proof (cases "evlist f")
    case Nil
    with fl inv show ?thesis by (simp add: drm_dequeue_event_def)
  next
    case (Cons ev rest)
    have len: "ev_length ev = 32" using sp Cons by (simp add: file_space_ok_def)
    show ?thesis
    proof (cases "32 \<le> resid")
      case True
      have "vbl_inv own (upd_file m (\<lambda>f. f\<lparr>evlist := rest, event_space := event_space f + 32\<rparr>) d)"
        by (rule vbl_inv_upd_file[OF inv]) (use sp Cons fl in \<open>auto simp: file_space_ok_def\<close>)
      with fl Cons len True show ?thesis by (simp add: drm_dequeue_event_def find_upd_file)
    next
      case False
      with fl Cons len inv show ?thesis by (simp add: drm_dequeue_event_def)
    qed
  qed
qed

end
