(* ===== verification/Vblank_Close.thy ===== *)
theory Vblank_Close
  imports Vblank_Ops
begin

text \<open>
  The end of a file's events in \<^verbatim>\<open>drmclose\<close>, and reading: what \<^verbatim>\<open>drmread\<close> hands out is a prefix
  of the file's queue.
\<close>

section \<open>Closing a file\<close>

text \<open>The invariant while file \<open>m\<close> is being closed: its own event space no longer adds up.\<close>

definition closing :: "int \<Rightarrow> (int \<Rightarrow> int) \<Rightarrow> 'a irq_dev_scheme \<Rightarrow> bool" where
  "closing m own d \<longleftrightarrow>
     (\<forall>v. vblank d = Some v \<longrightarrow> 0 \<le> vb_num v \<and> nat (vb_num v) \<le> length (vb_crtcs v)) \<and>
     (\<forall>c v. the_crtc d c = Some v \<longrightarrow> crtc_ok (own c) v) \<and>
     (\<forall>c v ev. the_crtc d c = Some v \<longrightarrow> ev \<in> set (vbl_events v) \<longrightarrow> event_ok d c ev) \<and>
     (\<forall>m' f. m' \<noteq> m \<longrightarrow> drm_find_file_by_minor d m' = Some f \<longrightarrow> file_space_ok d m' f)"

lemma vbl_inv_closing: "vbl_inv own d \<Longrightarrow> closing m own d"
  by (simp add: vbl_inv_def closing_def)

lemma closing_drop:
  assumes cl: "closing m own d" and crtc: "the_crtc d c = Some v" and ev: "ev \<in> set (vbl_events v)"
    and mine: "ev_file_priv ev = m"
  shows "closing m own (set_crtc c (after_delivery ev) d)" (is "closing m own ?d")
proof -
  have D: "crtc_ok (own c') w" "e \<in> set (vbl_events w) \<Longrightarrow> event_ok d c' e" if "the_crtc d c' = Some w" for c' w e
    using cl that unfolding closing_def by blast+
  have "crtc_ok (own c') w" if "the_crtc ?d c' = Some w" for c' w
    using that D(1)[of c' w] crtc_ok_event(2)[OF D(1)[OF crtc] ev] crtc by (cases "c' = c") auto
  moreover have "event_ok ?d c' e" if w: "the_crtc ?d c' = Some w" "e \<in> set (vbl_events w)" for c' w e
  proof -
    have "\<exists>u. the_crtc d c' = Some u \<and> e \<in> set (vbl_events u)"
      using w crtc set_remove1_subset[of ev "vbl_events v"] by (auto simp: after_delivery_def split: if_splits)
    with D(2) show ?thesis by auto
  qed
  moreover have "file_space_ok ?d m' f" if f: "m' \<noteq> m" "drm_find_file_by_minor ?d m' = Some f" for m' f
  proof -
    have "file_space_ok d m' f" using cl f unfolding closing_def by (metis set_crtc_frame(3))
    then show ?thesis using f(1) mine
      by (simp add: file_space_ok_def pending_set_crtc[OF crtc] after_delivery_def file_count_remove1[OF ev])
  qed
  moreover have "0 \<le> vb_num w \<and> nat (vb_num w) \<le> length (vb_crtcs w)" if "vblank ?d = Some w" for w
    using set_crtc_num[OF that] cl unfolding closing_def by metis
  ultimately show ?thesis unfolding closing_def by blast
qed

lemma closing_arm [simp]: "closing m own (arm_timer s d) = closing m own d"
proof -
  have "(\<forall>v. vblank (arm_timer s d) = Some v \<longrightarrow> 0 \<le> vb_num v \<and> nat (vb_num v) \<le> length (vb_crtcs v)) =
        (\<forall>v. vblank d = Some v \<longrightarrow> 0 \<le> vb_num v \<and> nat (vb_num v) \<le> length (vb_crtcs v))"
    by (cases "vblank d") (auto simp: arm_timer_def)
  then show ?thesis unfolding closing_def by (simp add: file_space_ok_def)
qed

lemma after_delivery_split:
  "set_crtc c (\<lambda>w. w\<lparr>vbl_refs := vbl_refs w - 1\<rparr>) (set_crtc c (\<lambda>w. w\<lparr>vbl_events := remove1 ev (vbl_events w)\<rparr>) d) =
   set_crtc c (after_delivery ev) d"
  unfolding set_crtc_comp
  by (rule arg_cong[where f = "\<lambda>g. set_crtc c g d"], rule HOL.ext, rule drm_vblank.equality)
    (simp_all add: after_delivery_def)

lemma drop_file_events_spec:
  assumes "closing m own d" "the_crtc d c = Some v" "vbl_events v = kept @ evs"
    "\<forall>e\<in>set kept. ev_file_priv e \<noteq> m"
  shows "\<exists>d' v'. drop_file_events m c evs d = Ret d' \<and> closing m own d' \<and> the_crtc d' c = Some v' \<and>
    vbl_events v' = kept @ filter (\<lambda>e. ev_file_priv e \<noteq> m) evs \<and> files d' = files d \<and>
    (\<forall>c'. c' \<noteq> c \<longrightarrow> the_crtc d' c' = the_crtc d c') \<and> (\<forall>c'. crtc_in d' c' = crtc_in d c')"
  using assms
proof (induction evs arbitrary: d v kept)
  case Nil
  then show ?case by auto
next
  case (Cons ev evs)
  show ?case
  proof (cases "ev_file_priv ev = m")
    case False
    have "vbl_events v = (kept @ [ev]) @ evs" "\<forall>e\<in>set (kept @ [ev]). ev_file_priv e \<noteq> m"
      using Cons.prems False by auto
    from Cons.IH[OF Cons.prems(1,2) this] False show ?thesis by simp
  next
    case True
    have ev: "ev \<in> set (vbl_events v)" using Cons.prems(3) by simp
    have ok: "crtc_ok (own c) v" using Cons.prems(1,2) unfolding closing_def by blast
    let ?d1 = "set_crtc c (\<lambda>w. w\<lparr>vbl_events := remove1 ev (vbl_events w)\<rparr>) d"
    let ?d = "set_crtc c (after_delivery ev) d"
    have r1: "the_crtc ?d1 c = Some (v\<lparr>vbl_events := remove1 ev (vbl_events v)\<rparr>)" using Cons.prems(2) by simp
    have comp: "set_crtc c (\<lambda>w. w\<lparr>vbl_refs := vbl_refs w - 1\<rparr>) ?d1 = ?d"
      by (rule after_delivery_split)
    define arm where "arm = (vbl_refs v = 1)"
    have pos: "0 < vbl_refs (v\<lparr>vbl_events := remove1 ev (vbl_events v)\<rparr>)"
      using crtc_ok_event(1)[OF ok ev] by simp
    have put: "drm_vblank_put c ?d1 = Ret ((if arm then arm_timer 5 else (\<lambda>x. x)) ?d)"
      unfolding vblank_put_ret[OF r1 pos] comp arm_def by simp
    let ?e = "(if arm then arm_timer 5 else (\<lambda>x. x)) ?d"
    have cl: "closing m own ?e" using closing_drop[OF Cons.prems(1,2) ev True] by simp
    have c': "the_crtc ?e c = Some (after_delivery ev v)" using Cons.prems(2) by simp
    have "ev \<notin> set kept" using Cons.prems(4) True by auto
    then have rest: "vbl_events (after_delivery ev v) = kept @ evs"
      using Cons.prems(3) by (simp add: after_delivery_def remove1_append)
    have "drop_file_events m c (ev # evs) d = drop_file_events m c evs ?e" using True put by simp
    with Cons.IH[OF cl c' rest Cons.prems(4)] True show ?thesis by auto
  qed
qed

lemma drop_all_events_spec:
  assumes "closing m own d" "0 \<le> i" "\<forall>j. i \<le> j \<and> j < i + int n \<longrightarrow> the_crtc d j \<noteq> None"
  shows "\<exists>d'. drop_all_events m n i d = Ret d' \<and> closing m own d' \<and> files d' = files d \<and>
    (\<forall>j v ev. i \<le> j \<and> j < i + int n \<longrightarrow> the_crtc d' j = Some v \<longrightarrow> ev \<in> set (vbl_events v) \<longrightarrow> ev_file_priv ev \<noteq> m) \<and>
    (\<forall>j. j < i \<longrightarrow> the_crtc d' j = the_crtc d j) \<and> (\<forall>c. crtc_in d' c = crtc_in d c)"
  using assms
proof (induction n arbitrary: i d)
  case 0
  then show ?case by auto
next
  case (Suc n)
  from Suc.prems(3) obtain v where v: "the_crtc d i = Some v" by fastforce
  have "vbl_events v = [] @ vbl_events v" by simp
  from drop_file_events_spec[OF Suc.prems(1) v this] obtain d1 v1 where
    d1: "drop_file_events m i (vbl_events v) d = Ret d1" "closing m own d1" "the_crtc d1 i = Some v1"
    "vbl_events v1 = filter (\<lambda>e. ev_file_priv e \<noteq> m) (vbl_events v)" "files d1 = files d"
    "\<forall>c'. c' \<noteq> i \<longrightarrow> the_crtc d1 c' = the_crtc d c'" "\<forall>c'. crtc_in d1 c' = crtc_in d c'" by auto
  have "\<forall>j. i + 1 \<le> j \<and> j < i + 1 + int n \<longrightarrow> the_crtc d1 j \<noteq> None" using Suc.prems(3) d1(6) by auto
  from Suc.IH[OF d1(2) _ this] Suc.prems(2) obtain d2 where
    d2: "drop_all_events m n (i + 1) d1 = Ret d2" "closing m own d2" "files d2 = files d1"
    "\<forall>j v ev. i + 1 \<le> j \<and> j < i + 1 + int n \<longrightarrow> the_crtc d2 j = Some v \<longrightarrow> ev \<in> set (vbl_events v) \<longrightarrow> ev_file_priv ev \<noteq> m"
    "\<forall>j. j < i + 1 \<longrightarrow> the_crtc d2 j = the_crtc d1 j" "\<forall>c. crtc_in d2 c = crtc_in d1 c" by auto
  have "ev_file_priv ev \<noteq> m" if "i \<le> j" "j < i + int (Suc n)" "the_crtc d2 j = Some w" "ev \<in> set (vbl_events w)" for j w ev
  proof (cases "j = i")
    case True
    with that d2(5) d1(3) have "w = v1" by simp
    with that(4) d1(4) show ?thesis by simp
  next
    case False
    with that(1,2) have "i + 1 \<le> j \<and> j < i + 1 + int n" by simp
    with that(3,4) d2(4) show ?thesis by blast
  qed
  moreover have "drop_all_events m (Suc n) i d = Ret d2" using v d1(1) d2(1) by simp
  ultimately show ?case using d2 d1 by auto
qed

definition without_file :: "int \<Rightarrow> 'a irq_dev_scheme \<Rightarrow> 'a irq_dev_scheme" where
  "without_file m d = d\<lparr>files := sp_remove m (files d)\<rparr>"

lemma without_file_facts [simp]:
  "the_crtc (without_file m d) c = the_crtc d c" "vblank (without_file m d) = vblank d"
  "drm_find_file_by_minor (without_file m d) m' = (if m' = m then None else drm_find_file_by_minor d m')"
  "pending (without_file m d) m' = pending d m'" "crtc_in (without_file m d) c = crtc_in d c"
  by (simp_all add: without_file_def the_crtc_def drm_find_file_by_minor_def pending_def crtc_in_def)

lemma close_events_spec:
  assumes inv: "vbl_inv own d" and some: "vblank d = Some v"
  shows "\<exists>d'. close_events m d = Ret d' \<and> vbl_inv own (without_file m d') \<and>
    (\<forall>m'. m' \<noteq> m \<longrightarrow> drm_find_file_by_minor d' m' = drm_find_file_by_minor d m')"
proof -
  have all: "\<forall>j. 0 \<le> j \<and> j < 0 + int (nat (vb_num v)) \<longrightarrow> the_crtc d j \<noteq> None"
    by (rule all_crtcs[OF inv some])
  from drop_all_events_spec[OF vbl_inv_closing[OF inv, of m] _ all] obtain d1 where
    d1: "drop_all_events m (nat (vb_num v)) 0 d = Ret d1" "closing m own d1" "files d1 = files d"
    "\<forall>j v' ev. 0 \<le> j \<and> j < 0 + int (nat (vb_num v)) \<longrightarrow> the_crtc d1 j = Some v' \<longrightarrow> ev \<in> set (vbl_events v') \<longrightarrow> ev_file_priv ev \<noteq> m"
    "\<forall>c. crtc_in d1 c = crtc_in d c" by auto
  let ?d = "upd_file m (\<lambda>f. f\<lparr>evlist := []\<rparr>) d1"
  have ret: "close_events m d = Ret ?d" using some d1(1) by (simp add: close_events_def)
  have C: "crtc_ok (own c) w" "e \<in> set (vbl_events w) \<Longrightarrow> event_ok d1 c e" if "the_crtc d1 c = Some w" for c w e
    using d1(2) that unfolding closing_def by blast+
  have "vbl_inv own (without_file m ?d)"
  proof (rule vbl_invI)
    show "0 \<le> vb_num w \<and> nat (vb_num w) \<le> length (vb_crtcs w)" if "vblank (without_file m ?d) = Some w" for w
      using d1(2) that unfolding closing_def by simp
    show "crtc_ok (own c) w" if "the_crtc (without_file m ?d) c = Some w" for c w using C(1) that by simp
    show "event_ok (without_file m ?d) c e" if e: "the_crtc (without_file m ?d) c = Some w" "e \<in> set (vbl_events w)" for c w e
    proof -
      from e have e1: "the_crtc d1 c = Some w" by simp
      have ok: "event_ok d1 c e" by (rule C(2)[OF e1 e(2)])
      then have "crtc_in d c" using d1(5) by (simp add: event_ok_def)
      then have "0 \<le> c \<and> c < 0 + int (nat (vb_num v))" using some by (auto simp: crtc_in_def)
      with d1(4) e1 e(2) have "ev_file_priv e \<noteq> m" by blast
      with ok show ?thesis by (simp add: event_ok_def find_upd_file)
    qed
    show "file_space_ok (without_file m ?d) m' f" if f: "drm_find_file_by_minor (without_file m ?d) m' = Some f" for m' f
    proof -
      from f have "m' \<noteq> m" "drm_find_file_by_minor d1 m' = Some f" by (auto simp: find_upd_file split: if_splits)
      with d1(2) have "file_space_ok d1 m' f" unfolding closing_def by blast
      then show ?thesis by (simp add: file_space_ok_def)
    qed
  qed
  moreover have "drm_find_file_by_minor ?d m' = drm_find_file_by_minor d m'" if "m' \<noteq> m" for m'
    using that d1(3) by (simp add: find_upd_file) (simp add: drm_find_file_by_minor_def)
  ultimately show ?thesis using ret by blast
qed

section \<open>Reading\<close>

text \<open>
  With nobody else at work and every copy succeeding, a read hands out as many events as fit in the
  reader's buffer, from the head of the queue.
\<close>

lemma read_events_spec:
  assumes "vbl_inv own d" "drm_find_file_by_minor d m = Some f"
    "length uio = length (evlist f)" "\<forall>(e, env)\<in>set uio. e = E_OK \<and> env = (\<lambda>x. x)"
  shows "\<exists>d'. read_events uio m resid d = Ret (E_OK, take (resid div 32) (evlist f), d') \<and> vbl_inv own d' \<and>
    drm_find_file_by_minor d' m = Some (f\<lparr>evlist := drop (resid div 32) (evlist f),
      event_space := event_space f + 32 * int (length (take (resid div 32) (evlist f)))\<rparr>)"
  using assms
proof (induction uio arbitrary: d f resid)
  case Nil
  with drm_dequeue_event_inv[OF Nil(1,2), of resid] show ?case
    by (subst read_events.simps) auto
next
  case (Cons u uio)
  from Cons.prems(3) obtain ev rest where ev: "evlist f = ev # rest" by (cases "evlist f") auto
  have u: "u = (E_OK, \<lambda>x. x)" using Cons.prems(4) by (cases u) auto
  have sp: "file_space_ok d m f" by (rule vbl_invD(4)[OF Cons.prems(1,2)])
  then have len: "ev_length ev = 32" using ev by (simp add: file_space_ok_def)
  from drm_dequeue_event_inv[OF Cons.prems(1,2), of resid] obtain oev d1 where
    dq: "drm_dequeue_event m resid d = Ret (oev, d1)" "vbl_inv own d1"
    "if 32 \<le> resid then oev = Some ev \<and>
       drm_find_file_by_minor d1 m = Some (f\<lparr>evlist := rest, event_space := event_space f + 32\<rparr>)
     else oev = None \<and> d1 = d"
    using ev by auto
  show ?case
  proof (cases "32 \<le> resid")
    case False
    then have "resid div 32 = 0" by simp
    with False dq ev Cons.prems(1,2) show ?thesis by (subst read_events.simps) simp
  next
    case True
    let ?f = "f\<lparr>evlist := rest, event_space := event_space f + 32\<rparr>"
    have f1: "drm_find_file_by_minor d1 m = Some ?f" "oev = Some ev" using dq(3) True by simp_all
    have l: "length uio = length (evlist ?f)" "\<forall>(e, env)\<in>set uio. e = E_OK \<and> env = (\<lambda>x. x)"
      using Cons.prems(3,4) ev by auto
    from Cons.IH[OF dq(2) f1(1) l, of "resid - 32"] obtain d2 where
      ih: "read_events uio m (resid - 32) d1 = Ret (E_OK, take ((resid - 32) div 32) rest, d2)" "vbl_inv own d2"
      "drm_find_file_by_minor d2 m = Some (f\<lparr>evlist := drop ((resid - 32) div 32) rest,
        event_space := event_space f + 32 + 32 * int (length (take ((resid - 32) div 32) rest))\<rparr>)" by auto
    have dv: "resid div 32 = Suc ((resid - 32) div 32)" using True by (simp add: le_div_geq)
    have "read_events (u # uio) m resid d = Ret (E_OK, ev # take ((resid - 32) div 32) rest, d2)"
      using dq(1) f1(2) ih(1) u len by (subst read_events.simps) simp
    with ih dv ev show ?thesis by simp
  qed
qed

end
