(* ===== verification/Vblank_Props.thy ===== *)
theory Vblank_Props
  imports Vblank_Close Gem_Props
begin

text \<open>
  The transition system of the vertical-blank operations and the properties of this component.
\<close>

section \<open>The operations\<close>

datatype vbl_call =
    V_wait bool "u64 \<times> u64" drm_wait_vblank_arg int
  | V_interrupt "u64 \<times> u64" int
  | V_modeset int drm_modeset_cmd
  | V_timeout
  | V_install
  | V_uninstall
  | V_dequeue int nat
  | V_close int

definition vbl_exec ::
  "('a irq_dev_scheme) drm_driver_info \<Rightarrow> 'a irq_dev_scheme sleeps \<Rightarrow> vbl_call \<Rightarrow> 'a irq_dev_scheme \<Rightarrow>
   'a irq_dev_scheme outcome" where
  "vbl_exec drv sl c d =
     (case c of
        V_wait ok now vw m \<Rightarrow> obind (drm_wait_vblank drv sl ok now vw m d) (\<lambda>(_, _, d'). Ret d')
      | V_interrupt now crtc \<Rightarrow> drm_handle_vblank now crtc d
      | V_modeset crtc cmd \<Rightarrow> obind (drm_modeset_ctl drv crtc cmd d) (\<lambda>(_, d'). Ret d')
      | V_timeout \<Rightarrow> vblank_disable drv d
      | V_install \<Rightarrow> Ret (snd (drm_irq_install drv d))
      | V_uninstall \<Rightarrow> obind (drm_irq_uninstall drv d) (\<lambda>(_, d'). Ret d')
      | V_dequeue m resid \<Rightarrow> obind (drm_dequeue_event m resid d) (\<lambda>(_, d'). Ret d')
      | V_close m \<Rightarrow> obind (close_events m d) (\<lambda>d'. Ret (without_file m d')))"

text \<open>What an operation needs: its file is open, its crtc exists, vertical blanks are set up.\<close>

fun vbl_call_ok :: "vbl_call \<Rightarrow> 'a irq_dev_scheme \<Rightarrow> bool" where
  "vbl_call_ok (V_wait ok now vw m) d \<longleftrightarrow> drm_find_file_by_minor d m \<noteq> None"
| "vbl_call_ok (V_interrupt now crtc) d \<longleftrightarrow> the_crtc d crtc \<noteq> None"
| "vbl_call_ok (V_modeset crtc cmd) d \<longleftrightarrow> True"
| "vbl_call_ok V_timeout d \<longleftrightarrow> vblank d \<noteq> None"
| "vbl_call_ok V_install d \<longleftrightarrow> True"
| "vbl_call_ok V_uninstall d \<longleftrightarrow> True"
| "vbl_call_ok (V_dequeue m resid) d \<longleftrightarrow> drm_find_file_by_minor d m \<noteq> None"
| "vbl_call_ok (V_close m) d \<longleftrightarrow> vblank d \<noteq> None"

inductive vbl_reachable ::
  "('a irq_dev_scheme) drm_driver_info \<Rightarrow> 'a irq_dev_scheme sleeps \<Rightarrow> 'a irq_dev_scheme \<Rightarrow> bool"
  for drv sl where
  start: "files d = [] \<Longrightarrow> 0 \<le> n \<Longrightarrow> drm_vblank_init True n d = (E_OK, d') \<Longrightarrow> vbl_reachable drv sl d'"
| opened: "vbl_reachable drv sl d \<Longrightarrow> drm_find_file_by_minor d m = None \<Longrightarrow> evlist f = [] \<Longrightarrow>
    event_space f = 4096 \<Longrightarrow> sp_wf (files d) \<Longrightarrow>
    vbl_reachable drv sl (d\<lparr>files := sp_insert m f (files d)\<rparr>)"
| call: "vbl_reachable drv sl d \<Longrightarrow> vbl_call_ok c d \<Longrightarrow> vbl_exec drv sl c d = Ret d' \<Longrightarrow>
    vbl_reachable drv sl d'"

definition vbl_env_ok :: "('a irq_dev_scheme) drm_driver_info \<Rightarrow> 'a irq_dev_scheme sleeps \<Rightarrow> bool" where
  "vbl_env_ok drv sl \<longleftrightarrow> vblank_frame drv \<and> irq_frame drv \<and> vbl_quiet sl"

lemma vbl_exec_inv:
  assumes env: "vbl_env_ok drv sl" and inv: "vbl_inv own d" and ok: "vbl_call_ok c d"
  shows "vbl_exec drv sl c d \<noteq> Panic \<and> (\<forall>d'. vbl_exec drv sl c d = Ret d' \<longrightarrow> vbl_inv own d')"
proof -
  have E: "vblank_frame drv" "irq_frame drv" "vbl_quiet sl" using env by (simp_all add: vbl_env_ok_def)
  show ?thesis
  proof (cases c)
    case (V_wait cok now vw m)
    with ok obtain f where fl: "drm_find_file_by_minor d m = Some f" by auto
    note w = drm_wait_vblank_inv[OF inv fl E(1,3), of cok now vw]
    with V_wait show ?thesis
      by (cases "drm_wait_vblank drv sl cok now vw m d") (auto simp: vbl_exec_def)
  next
    case (V_interrupt now crtc)
    with ok obtain v where v: "the_crtc d crtc = Some v" by auto
    from drm_handle_vblank_spec[OF inv v, of now] V_interrupt show ?thesis by (auto simp: vbl_exec_def)
  next
    case (V_modeset crtc cmd)
    from drm_modeset_ctl_inv[OF inv E(1), of crtc cmd] V_modeset show ?thesis by (auto simp: vbl_exec_def)
  next
    case V_timeout
    with ok obtain v where v: "vblank d = Some v" by auto
    from vblank_disable_inv[OF inv v E(1)] V_timeout show ?thesis by (auto simp: vbl_exec_def)
  next
    case V_install
    with drm_irq_install_inv[OF inv E(2)] show ?thesis by (simp add: vbl_exec_def) (metis prod.collapse)
  next
    case V_uninstall
    from drm_irq_uninstall_inv[OF inv E(2)] V_uninstall show ?thesis by (auto simp: vbl_exec_def)
  next
    case (V_dequeue m resid)
    with ok obtain f where fl: "drm_find_file_by_minor d m = Some f" by auto
    from drm_dequeue_event_inv[OF inv fl, of resid] V_dequeue show ?thesis by (auto simp: vbl_exec_def)
  next
    case (V_close m)
    with ok obtain v where v: "vblank d = Some v" by auto
    from close_events_spec[OF inv v, of m] V_close show ?thesis by (auto simp: vbl_exec_def)
  qed
qed

lemma vbl_inv_init:
  assumes "files d = []" "0 \<le> n" "drm_vblank_init True n d = (E_OK, d')"
  shows "vbl_inv (\<lambda>_. 0) d'"
proof -
  have d': "d' = d\<lparr>vblank := Some \<lparr>vb_num = n, vb_max = 0, vb_disable_timer = None,
      vb_crtcs = replicate (nat n + 1) zero_vblank\<rparr>\<rparr>"
    using assms(3) by (simp add: drm_vblank_init_def)
  have c: "the_crtc d' c = Some v \<Longrightarrow> v = zero_vblank" for c v
    by (auto simp: d' the_crtc_def nth_Cons' split: if_splits)
  show ?thesis
  proof (rule vbl_invI)
    show "crtc_ok 0 v" if "the_crtc d' c = Some v" for c v
      using c[OF that] by (simp add: crtc_ok_def zero_vblank_def modeset_ref_def)
    show "event_ok d' c ev" if "the_crtc d' c = Some v" "ev \<in> set (vbl_events v)" for c v ev
      using c[OF that(1)] that(2) by (simp add: zero_vblank_def)
    show "file_space_ok d' m f" if "drm_find_file_by_minor d' m = Some f" for m f
      using that assms(1) by (simp add: d' drm_find_file_by_minor_def)
  qed (use assms(2) in \<open>simp add: d'\<close>)
qed

lemma vbl_inv_open:
  assumes inv: "vbl_inv own d" and new: "drm_find_file_by_minor d m = None" and wf: "sp_wf (files d)"
    and f: "evlist f = []" "event_space f = 4096"
  shows "vbl_inv own (d\<lparr>files := sp_insert m f (files d)\<rparr>)" (is "vbl_inv own ?d")
proof (rule vbl_invI)
  note D = vbl_invD[OF inv]
  have find: "drm_find_file_by_minor ?d m' = (if m' = m then Some f else drm_find_file_by_minor d m')" for m'
    using new map_of_sp_insert_new[OF wf, of m f] by (simp add: drm_find_file_by_minor_def)
  have same: "the_crtc ?d c = the_crtc d c" "pending ?d m' = pending d m'" "crtc_in ?d c = crtc_in d c" for c m'
    by (simp_all add: the_crtc_def pending_def crtc_in_def)
  show "0 \<le> vb_num v \<and> nat (vb_num v) \<le> length (vb_crtcs v)" if "vblank ?d = Some v" for v
    using that D(1) by simp
  show "crtc_ok (own c) v" if "the_crtc ?d c = Some v" for c v using that D(2) same by simp
  show "event_ok ?d c ev" if "the_crtc ?d c = Some v" "ev \<in> set (vbl_events v)" for c v ev
    using that D(3)[of c v ev] same find by (auto simp: event_ok_def)
  have none: "pending d m = 0"
  proof (cases "vblank d")
    case None
    then show ?thesis by (simp add: pending_def)
  next
    case (Some v)
    have z: "file_count m (vbl_events w) = 0" if w: "w \<in> set (vb_crtcs v)" for w
    proof -
      from w obtain k where k: "k < length (vb_crtcs v)" "w = vb_crtcs v ! k" by (auto simp: in_set_conv_nth)
      then have cr: "the_crtc d (int k) = Some w" using Some by (simp add: the_crtc_def)
      have "ev_file_priv ev \<noteq> m" if "ev \<in> set (vbl_events w)" for ev
        using D(3)[OF cr that] new by (auto simp: event_ok_def)
      then show ?thesis by (auto simp: file_count_def filter_empty_conv)
    qed
    then have "map (\<lambda>w. file_count m (vbl_events w)) (vb_crtcs v) = map (\<lambda>_. 0) (vb_crtcs v)" by simp
    then show ?thesis using Some by (simp only: pending_def option.case sum_list_0)
  qed
  show "file_space_ok ?d m' g" if "drm_find_file_by_minor ?d m' = Some g" for m' g
    using that D(4)[of m' g] find f none same by (auto simp: file_space_ok_def split: if_splits)
qed

lemma vbl_reachable_inv:
  assumes "vbl_reachable drv sl d" "vbl_env_ok drv sl"
  shows "vbl_inv (\<lambda>_. 0) d"
  using assms(1)
proof induction
  case (start d n d')
  then show ?case by (rule vbl_inv_init)
next
  case (opened d m f)
  then show ?case by (intro vbl_inv_open)
next
  case (call d c d')
  from vbl_exec_inv[OF assms(2) call.IH call.hyps(2)] call.hyps(3) show ?case by blast
qed

section \<open>A run: a file is opened and asks for an event two blanks ahead\<close>

definition irq_demo_dev :: irq_dev where
  "irq_demo_dev = gem_dev.extend demo_dev
     \<lparr>dev_private = Some 1, dev_irq = 16, irq_enabled = 1, vblank = None\<rparr>"

definition irq_demo_vblank :: "int \<Rightarrow> drm_pending_event list \<Rightarrow> drm_vblank_info" where
  "irq_demo_vblank refs evs = \<lparr>vb_num = 1, vb_max = 0, vb_disable_timer = None,
     vb_crtcs = [zero_vblank\<lparr>vbl_refs := refs, vbl_enabled := (if refs = 0 then 0 else 1),
                   vbl_events := evs\<rparr>, zero_vblank]\<rparr>"

definition demo_event :: drm_pending_event where
  "demo_event = \<lparr>ev_type = 1, ev_length = 32, ev_user_data = 7, ev_tv_sec = 0, ev_tv_usec = 0,
     ev_sequence = 2, ev_file_priv = 5\<rparr>"

definition demo_request :: drm_wait_vblank_arg where
  "demo_request = \<lparr>vw_type = VBLANK_EVENT OR VBLANK_RELATIVE, vw_sequence = 2, vw_signal_sec = 7, vw_usec = 0\<rparr>"

definition irq_demo_opened :: irq_dev where
  "irq_demo_opened = irq_demo_dev\<lparr>files := [(5, demo_file 5)], vblank := Some (irq_demo_vblank 0 [])\<rparr>"

definition irq_demo_queued :: irq_dev where
  "irq_demo_queued = irq_demo_dev\<lparr>files := [(5, (demo_file 5)\<lparr>event_space := 4064\<rparr>)],
     vblank := Some (irq_demo_vblank 1 [demo_event])\<rparr>"

lemma irq_demo_env: "vbl_env_ok (null_driver :: irq_dev drm_driver_info) []"
  by (simp add: vbl_env_ok_def vblank_frame_def irq_frame_def vbl_quiet_def null_driver_def irq_core_def)

lemma irq_demo_opened_reachable: "vbl_reachable null_driver [] irq_demo_opened"
proof -
  let ?d = "irq_demo_dev\<lparr>vblank := Some (irq_demo_vblank 0 [])\<rparr>"
  have "vbl_reachable null_driver [] ?d"
    by (rule vbl_reachable.start[of irq_demo_dev 1])
      (simp_all add: irq_demo_dev_def demo_dev_def gem_dev.defs drm_vblank_init_def irq_demo_vblank_def
        zero_vblank_def numeral_2_eq_2)
  from vbl_reachable.opened[OF this, of 5 "demo_file 5"] show ?thesis
    by (simp add: irq_demo_opened_def irq_demo_dev_def demo_dev_def gem_dev.defs demo_file_def
        drm_find_file_by_minor_def)
qed

lemma request_flags [simp]:
  "vw_type demo_request AND VBLANK_SIGNAL = 0" "vw_type demo_request AND VBLANK_RELATIVE \<noteq> 0"
  "vw_type demo_request AND VBLANK_FLAGS_MASK AND VBLANK_SECONDARY = 0"
  "vw_type demo_request AND NOT VBLANK_RELATIVE = VBLANK_EVENT"
  "VBLANK_EVENT AND VBLANK_FLAGS_MASK = VBLANK_EVENT" "VBLANK_EVENT AND VBLANK_NEXTONMISS = 0"
  "VBLANK_EVENT \<noteq> 0"
  "VBLANK_EVENT AND VBLANK_EVENT = VBLANK_EVENT" "VBLANK_EVENT AND VBLANK_FLAGS_MASK AND VBLANK_EVENT = VBLANK_EVENT"
  by (simp_all add: demo_request_def VBLANK_SIGNAL_def VBLANK_RELATIVE_def VBLANK_EVENT_def
      VBLANK_FLAGS_MASK_def VBLANK_SECONDARY_def VBLANK_NEXTONMISS_def)

lemma irq_demo_wait:
  "drm_wait_vblank null_driver [] True (1, 2) demo_request 5 irq_demo_opened =
   Ret (E_OK, demo_request\<lparr>vw_type := VBLANK_EVENT\<rparr>, irq_demo_queued)"
proof -
  let ?d1 = "irq_demo_dev\<lparr>files := [(5, demo_file 5)], vblank := Some (irq_demo_vblank 1 [])\<rparr>"
  have g: "drm_vblank_get null_driver 0 irq_demo_opened = Ret (E_OK, ?d1)"
    by (simp add: drm_vblank_get_def irq_demo_opened_def irq_demo_dev_def demo_dev_def gem_dev.defs
        irq_demo_vblank_def the_crtc_def zero_vblank_def set_crtc_def null_driver_def
        drm_update_vblank_count_def vblank_diff_def)
  have c: "drm_vblank_count ?d1 0 = Ret 0"
    by (simp add: drm_vblank_count_def the_crtc_def irq_demo_vblank_def zero_vblank_def)
  have a: "vw_absolute 0 demo_request = demo_request\<lparr>vw_type := VBLANK_EVENT\<rparr>"
    by (simp add: vw_absolute_def)
  have n: "vw_next_on_miss VBLANK_EVENT 0 w = w" for w by (simp add: vw_next_on_miss_def)
  have q: "drm_queue_vblank_event True (1, 2) 0 (demo_request\<lparr>vw_type := VBLANK_EVENT\<rparr>) 5 ?d1 =
    Ret (E_OK, demo_request\<lparr>vw_type := VBLANK_EVENT\<rparr>, irq_demo_queued)"
    by (simp add: drm_queue_vblank_event_def c n drm_find_file_by_minor_def)
      (simp add: demo_file_def demo_request_def seq_passed_def VBLANK_EVENT_SIZE_def irq_demo_queued_def
        irq_demo_vblank_def set_crtc_def the_crtc_def upd_file_def zero_vblank_def demo_event_def
        DRM_EVENT_VBLANK_def irq_demo_dev_def)
  have e: "irq_enabled irq_demo_opened = 1" "vblank irq_demo_opened = Some (irq_demo_vblank 0 [])"
    by (simp_all add: irq_demo_opened_def irq_demo_dev_def gem_dev.defs)
  have vn: "vb_num (irq_demo_vblank 0 []) = 1" by (simp add: irq_demo_vblank_def)
  show ?thesis by (simp add: drm_wait_vblank_def e vn g c a n q Let_def)
qed

lemma irq_demo_queued_reachable: "vbl_reachable null_driver [] irq_demo_queued"
proof (rule vbl_reachable.call[OF irq_demo_opened_reachable, of "V_wait True (1, 2) demo_request 5"])
  show "vbl_call_ok (V_wait True (1, 2) demo_request 5) irq_demo_opened"
    by (simp add: irq_demo_opened_def drm_find_file_by_minor_def)
  show "vbl_exec null_driver [] (V_wait True (1, 2) demo_request 5) irq_demo_opened = Ret irq_demo_queued"
    by (simp add: vbl_exec_def irq_demo_wait)
qed

section \<open>Properties\<close>

lemma seq_passed_small: "\<not> seq_passed 1 2" "seq_passed 2 2"
proof -
  have "unat (- 1 :: u32) = 2 ^ 32 - 1" by (simp add: unsigned_minus_1_eq_mask mask_eq_exp_minus_1)
  then have "\<not> (- 1 :: u32) \<le> 8388608" by (simp add: word_le_nat_alt)
  then show "\<not> seq_passed 1 2" by (simp add: seq_passed_def)
qed (simp add: seq_passed_def)

text \<open>
  C5: in every reachable state no operation on vertical blanks panics: in particular the assertion
  of \<^verbatim>\<open>drm_vblank_put\<close> that the reference count is positive never fails, because every
  pending event and every modeset in progress owns a reference.
\<close>

theorem vblank_never_panics:
  assumes "vbl_reachable drv sl d" "vbl_env_ok drv sl" "vbl_call_ok c d"
  shows "vbl_exec drv sl c d \<noteq> Panic \<and>
    (\<forall>crtc v. the_crtc d crtc = Some v \<longrightarrow>
       int (length (vbl_events v)) + (if vbl_inmodeset v AND 0x2 \<noteq> 0 then 1 else 0) \<le> vbl_refs v)"
proof -
  have inv: "vbl_inv (\<lambda>_. 0) d" by (rule vbl_reachable_inv[OF assms(1,2)])
  have "int (length (vbl_events v)) + (if vbl_inmodeset v AND 0x2 \<noteq> 0 then 1 else 0) \<le> vbl_refs v"
    if "the_crtc d crtc = Some v" for crtc v
    using vbl_invD(2)[OF inv that] by (simp add: crtc_ok_def modeset_ref_def)
  with vbl_exec_inv[OF assms(2) inv assms(3)] show ?thesis by blast
qed

theorem vblank_never_panics_witness:
  "vbl_exec null_driver [] (V_interrupt (9, 9) 0) irq_demo_queued \<noteq> Panic"
proof -
  have "vbl_call_ok (V_interrupt (9, 9) 0) irq_demo_queued"
    by (simp add: irq_demo_queued_def the_crtc_def irq_demo_vblank_def)
  from vblank_never_panics[OF irq_demo_queued_reachable irq_demo_env this] show ?thesis by blast
qed

text \<open>
  C6: a vertical blank raises the crtc's counter by one and delivers exactly the events of its queue
  that are due, each to its own file, behind what the file already has and in queue order, stamped
  with the new count and the time; the others stay queued in order, one reference is dropped for
  each event delivered, and no other crtc changes.
\<close>

theorem vblank_delivery_exact:
  assumes "vbl_inv own d" "the_crtc d c = Some v"
  shows "\<exists>d' v'. drm_handle_vblank now c d = Ret d' \<and> the_crtc d' c = Some v' \<and>
    vbl_count v' = vbl_count v + 1 \<and>
    vbl_events v' = filter (\<lambda>e. \<not> seq_passed (vbl_count v + 1) (ev_sequence e)) (vbl_events v) \<and>
    vbl_refs v' = vbl_refs v -
      int (length (filter (\<lambda>e. seq_passed (vbl_count v + 1) (ev_sequence e)) (vbl_events v))) \<and>
    (\<forall>c'. c' \<noteq> c \<longrightarrow> the_crtc d' c' = the_crtc d c') \<and>
    (\<forall>m. drm_find_file_by_minor d' m = map_option (\<lambda>f. f\<lparr>evlist := evlist f @
       map (\<lambda>e. e\<lparr>ev_sequence := vbl_count v + 1, ev_tv_sec := ucast (fst now), ev_tv_usec := ucast (snd now)\<rparr>)
         (filter (\<lambda>e. ev_file_priv e = m)
           (filter (\<lambda>e. seq_passed (vbl_count v + 1) (ev_sequence e)) (vbl_events v)))\<rparr>)
       (drm_find_file_by_minor d m))"
  using drm_handle_vblank_spec[OF assms, of now]
  unfolding later_events_def due_events_def received_def stamp_def[abs_def] by blast

theorem vblank_delivery_exact_witness:
  "\<exists>d1 d2 v2. drm_handle_vblank (8, 8) 0 irq_demo_queued = Ret d1 \<and>
     drm_handle_vblank (9, 9) 0 d1 = Ret d2 \<and> the_crtc d2 0 = Some v2 \<and> vbl_events v2 = [] \<and> vbl_refs v2 = 0"
proof -
  have inv: "vbl_inv (\<lambda>_. 0) irq_demo_queued"
    by (rule vbl_reachable_inv[OF irq_demo_queued_reachable irq_demo_env])
  have v: "the_crtc irq_demo_queued 0 =
      Some (zero_vblank\<lparr>vbl_refs := 1, vbl_enabled := 1, vbl_events := [demo_event]\<rparr>)"
    by (simp add: irq_demo_queued_def the_crtc_def irq_demo_vblank_def)
  note p = seq_passed_small
  from drm_handle_vblank_spec[OF inv v, of "(8, 8)"] obtain d1 v1 where
    d1: "drm_handle_vblank (8, 8) 0 irq_demo_queued = Ret d1" "vbl_inv (\<lambda>_. 0) d1" "the_crtc d1 0 = Some v1"
    "vbl_count v1 = 1" "vbl_events v1 = [demo_event]" "vbl_refs v1 = 1"
    using p by (auto simp: zero_vblank_def demo_event_def)
  from vblank_delivery_exact[OF d1(2,3), of "(9, 9)"] d1 p show ?thesis
    by (auto simp: demo_event_def)
qed

text \<open>
  C10: in every reachable state an open file's free event space and its outstanding events, queued on
  a crtc or waiting to be read, add up to 4096 bytes, 32 for each event; so the space never goes
  negative and no file has more than 128 events outstanding.
\<close>

theorem event_space_conserved:
  assumes "vbl_reachable drv sl d" "vbl_env_ok drv sl" "drm_find_file_by_minor d m = Some f"
  shows "event_space f = 4096 - 32 * (int (length (evlist f)) + pending d m) \<and> 0 \<le> event_space f \<and>
    int (length (evlist f)) + pending d m \<le> 128"
  using vbl_invD(4)[OF vbl_reachable_inv[OF assms(1,2)] assms(3)] by (auto simp: file_space_ok_def)

theorem event_space_conserved_witness:
  "\<exists>f. drm_find_file_by_minor irq_demo_queued 5 = Some f \<and> event_space f = 4064 \<and>
     int (length (evlist f)) + pending irq_demo_queued 5 = 1"
proof -
  have fl: "drm_find_file_by_minor irq_demo_queued 5 = Some ((demo_file 5)\<lparr>event_space := 4064\<rparr>)"
    by (simp add: irq_demo_queued_def drm_find_file_by_minor_def)
  from event_space_conserved[OF irq_demo_queued_reachable irq_demo_env fl] fl show ?thesis by simp
qed

text \<open>
  C11: a read by a file that has events waiting returns at once with as many whole events as fit in
  the reader's buffer, from the head of the queue and in order; they leave the queue, the others
  stay, and their space is given back.
\<close>

theorem drmread_prefix:
  assumes "vbl_inv own d" "drm_find_file_by_minor d m = Some f" "evlist f \<noteq> []"
    and "length uio = length (evlist f)" "\<forall>(e, env)\<in>set uio. e = E_OK \<and> env = (\<lambda>x. x)"
  shows "\<exists>d'. drmread nodelay sl uio m resid d = Ret (E_OK, take (resid div 32) (evlist f), d') \<and>
    drm_find_file_by_minor d' m = Some (f\<lparr>evlist := drop (resid div 32) (evlist f),
      event_space := event_space f + 32 * int (length (take (resid div 32) (evlist f)))\<rparr>) \<and>
    vbl_inv own d'"
proof -
  have "read_wait nodelay sl m d = Ret (E_OK, d)"
    using assms(2,3) by (subst read_wait.simps) simp
  with read_events_spec[OF assms(1,2,4,5), of resid] assms(2) show ?thesis
    by (auto simp: drmread_def)
qed

theorem drmread_prefix_witness:
  "\<exists>d1 d2 d3 ev. drm_handle_vblank (8, 8) 0 irq_demo_queued = Ret d1 \<and>
     drm_handle_vblank (9, 9) 0 d1 = Ret d2 \<and>
     drmread False [] [(E_OK, \<lambda>x. x)] 5 100 d2 = Ret (E_OK, [ev], d3) \<and> ev_sequence ev = 2"
proof -
  have inv: "vbl_inv (\<lambda>_. 0) irq_demo_queued"
    by (rule vbl_reachable_inv[OF irq_demo_queued_reachable irq_demo_env])
  have v: "the_crtc irq_demo_queued 0 =
      Some (zero_vblank\<lparr>vbl_refs := 1, vbl_enabled := 1, vbl_events := [demo_event]\<rparr>)"
    by (simp add: irq_demo_queued_def the_crtc_def irq_demo_vblank_def)
  have fl: "drm_find_file_by_minor irq_demo_queued 5 = Some ((demo_file 5)\<lparr>event_space := 4064\<rparr>)"
    by (simp add: irq_demo_queued_def drm_find_file_by_minor_def)
  note p = seq_passed_small
  from drm_handle_vblank_spec[OF inv v, of "(8, 8)"] obtain d1 v1 where
    d1: "drm_handle_vblank (8, 8) 0 irq_demo_queued = Ret d1" "vbl_inv (\<lambda>_. 0) d1" "the_crtc d1 0 = Some v1"
    "vbl_count v1 = 1" "vbl_events v1 = [demo_event]"
    "drm_find_file_by_minor d1 5 = Some ((demo_file 5)\<lparr>event_space := 4064\<rparr>)"
    using p fl by (auto simp: zero_vblank_def demo_event_def demo_file_def)
  from drm_handle_vblank_spec[OF d1(2,3), of "(9, 9)"] obtain d2 where
    d2: "drm_handle_vblank (9, 9) 0 d1 = Ret d2" "vbl_inv (\<lambda>_. 0) d2"
    "drm_find_file_by_minor d2 5 =
       Some ((demo_file 5)\<lparr>evlist := [stamp (9, 9) 2 demo_event], event_space := 4064\<rparr>)"
    using d1 p by (auto simp: demo_event_def demo_file_def)
  from drmread_prefix[OF d2(2,3), of "[(E_OK, \<lambda>x. x)]" False "[]" 100] d1(1) d2(1) show ?thesis
    by (auto simp: stamp_def)
qed

lemma vblank_diff_moved:
  assumes k: "k \<le> 32" and prev: "unat prev < 2 ^ k" and n: "n < 2 ^ k"
    and cur: "unat cur = (unat prev + n) mod 2 ^ k"
  shows "vblank_diff (2 ^ k - 1) prev cur = (if unat prev + n < 2 ^ k then of_nat n else of_nat n - 1)"
proof (cases "unat prev + n < 2 ^ k")
  case True
  then have c: "unat cur = unat prev + n" using cur by simp
  then have "\<not> cur < prev" by (simp add: word_less_nat_alt)
  moreover have "of_nat (unat cur) = (of_nat (unat prev + n) :: u32)" by (simp only: c)
  then have "cur = prev + of_nat n" by simp
  ultimately show ?thesis using True by (simp add: vblank_diff_def)
next
  case False
  then have c: "unat cur + 2 ^ k = unat prev + n"
  proof -
    have "unat prev + n - 2 ^ k < 2 ^ k" using prev n by linarith
    then have "(unat prev + n) mod 2 ^ k = unat prev + n - 2 ^ k"
      using False by (simp add: mod_if)
    with False cur show ?thesis by simp
  qed
  then have "cur < prev" using n by (simp add: word_less_nat_alt)
  moreover have "of_nat (unat cur + 2 ^ k) = (of_nat (unat prev + n) :: u32)" by (simp only: c)
  then have "cur + 2 ^ k = prev + of_nat n" by simp
  then have "cur - prev + (2 ^ k - 1) = of_nat n - 1" by (simp add: algebra_simps)
  ultimately show ?thesis using False by (simp add: vblank_diff_def)
qed

text \<open>
  C13: the correction for a counter register that wrapped is one short. For a register of \<open>k\<close>
  bits, whose size the drivers store as \<open>2 ^ k - 1\<close>, that moves by \<open>n\<close> blanks, \<open>n\<close> less than its
  size: the code counts \<open>n\<close> when the register did not wrap, but only \<open>n - 1\<close> when it did.
\<close>

theorem vblank_wrap_loses_one:
  assumes "k \<le> 32" "unat prev < 2 ^ k" "n < 2 ^ k" "unat cur = (unat prev + n) mod 2 ^ k"
  shows "unat (vblank_diff (2 ^ k - 1) prev cur) = (if unat prev + n < 2 ^ k then n else n - 1)"
proof -
  have "(2 :: nat) ^ k \<le> 2 ^ 32" using assms(1) by (rule power_increasing) simp
  then have n: "n < 2 ^ 32" using assms(3) by simp
  show ?thesis
  proof (cases "unat prev + n < 2 ^ k")
    case True
    with vblank_diff_moved[OF assms] n show ?thesis by (simp add: unat_of_nat take_bit_nat_eq_self)
  next
    case False
    then have "1 \<le> n" using assms(2) by linarith
    then have "(of_nat n - 1 :: u32) = of_nat (n - 1)" by (simp add: of_nat_diff)
    with vblank_diff_moved[OF assms] False n show ?thesis by (simp add: unat_of_nat take_bit_nat_eq_self)
  qed
qed

theorem vblank_wrap_loses_one_witness:
  "unat (vblank_diff (2 ^ 24 - 1) 0xfffffe 1) = 2 \<and> (0xfffffe + 3) mod 2 ^ 24 = (1 :: nat)"
  using vblank_wrap_loses_one[of 24 "0xfffffe" 3 1] by simp

text \<open>
  a request for an event that fails for want of memory leaves the crtc's reference count one
  higher than before although nothing was queued, so the reference is never given back.
\<close>

theorem vblank_event_enomem_leaks:
  assumes "vblank d = Some vbl" "irq_enabled d \<noteq> 0" "0 < vb_num vbl" "the_crtc d 0 = Some v" "0 < vbl_refs v"
    and "vw_type vw = VBLANK_EVENT"
  shows "\<exists>d' v' vw'. drm_wait_vblank drv sl False now vw m d = Ret (ENOMEM, vw', d') \<and>
    the_crtc d' 0 = Some v' \<and> vbl_refs v' = vbl_refs v + 1 \<and> vbl_events v' = vbl_events v \<and>
    files d' = files d"
proof -
  have g: "drm_vblank_get drv 0 d = Ret (E_OK, set_crtc 0 (\<lambda>w. w\<lparr>vbl_refs := vbl_refs w + 1\<rparr>) d)"
    using assms(2,4,5) by (simp add: drm_vblank_get_def Let_def)
  have t: "VBLANK_EVENT AND VBLANK_SIGNAL = 0" "VBLANK_EVENT AND VBLANK_SECONDARY = 0"
    "VBLANK_EVENT AND VBLANK_RELATIVE = 0"
    by (simp_all add: VBLANK_EVENT_def VBLANK_SIGNAL_def VBLANK_SECONDARY_def VBLANK_RELATIVE_def)
  have a: "vw_absolute s vw = vw" "vw_next_on_miss VBLANK_EVENT s vw = vw" for s
    using assms(6) t by (simp_all add: vw_absolute_def vw_next_on_miss_def)
  show ?thesis
    using assms t by (simp add: drm_wait_vblank_def g drm_vblank_count_def a drm_queue_vblank_event_def
        and.assoc[symmetric])
qed

theorem vblank_event_enomem_leaks_witness:
  "\<exists>d' v' vw'. drm_wait_vblank null_driver [] False (0, 0)
       \<lparr>vw_type = VBLANK_EVENT, vw_sequence = 9, vw_signal_sec = 0, vw_usec = 0\<rparr> 5 irq_demo_queued = Ret (ENOMEM, vw', d') \<and>
     the_crtc d' 0 = Some v' \<and> vbl_refs v' = 2 \<and> vbl_events v' = [demo_event]"
  using vblank_event_enomem_leaks[of irq_demo_queued "irq_demo_vblank 1 [demo_event]"
      "zero_vblank\<lparr>vbl_refs := 1, vbl_enabled := 1, vbl_events := [demo_event]\<rparr>"
      "\<lparr>vw_type = VBLANK_EVENT, vw_sequence = 9, vw_signal_sec = 0, vw_usec = 0\<rparr>" null_driver "[]" "(0, 0)" 5]
  by (auto simp: irq_demo_queued_def irq_demo_dev_def gem_dev.defs irq_demo_vblank_def the_crtc_def)

end
