(* ===== verification/Bus_Dma.thy ===== *)
theory Bus_Dma
  imports Drm_Context "HOL-Library.Multiset"
begin

text \<open>
  DMA memory: \<^verbatim>\<open>drm_dmamem_alloc\<close> and \<^verbatim>\<open>drm_dmamem_free\<close> of \<^verbatim>\<open>drm_drv.c\<close>, \<^verbatim>\<open>agp_alloc_dmamem\<close> and
  \<^verbatim>\<open>agp_free_dmamem\<close> of \<^verbatim>\<open>agp.c\<close>, and the allocation helpers of \<^verbatim>\<open>drm_memory.c\<close>.
  \<^verbatim>\<open>bus_dma(9)\<close> and the kernel's allocator are the host's interface: they are a parameter that
  answers each call. What the code owns is a multiset of resources, so that a leak or a double
  release is a fact about the multiset.
\<close>

section \<open>The kernel's answers\<close>

text \<open>A segment is a bus address and a length.\<close>

type_synonym dma_seg = "u64 \<times> u64"

text \<open>The kinds of structures the code obtains from \<^verbatim>\<open>malloc\<close>.\<close>

datatype kobj =
    K_DMAMEM | K_MAP | K_SG | K_AGPHEAD | K_AGPENTRY | K_AGPMEM | K_AGPSEGS | K_GATT
  | K_DMA | K_BUFS | K_SEGLIST | K_BUFLIST | K_PAGELIST | K_BUFPRIV | K_FILE

datatype dma_res =
    R_mem kobj
  | R_map
  | R_segs "dma_seg list"
  | R_kva u64 u64
  | R_load "dma_seg list"
  | R_mtrr u64 u64

type_synonym dma_live = "dma_res multiset"

text \<open>
  Every answer may depend on what is allocated already: whether a \<^verbatim>\<open>malloc\<close> succeeds, the error
  of \<^verbatim>\<open>bus_dmamap_create\<close> (size, segments, largest segment), and the error or the result of
  \<^verbatim>\<open>bus_dmamem_alloc\<close> (size, alignment, segments), \<^verbatim>\<open>bus_dmamem_map\<close> (segments, size) and
  \<^verbatim>\<open>bus_dmamap_load\<close> (address, size).
\<close>

record bus_dma =
  bd_malloc :: "dma_live \<Rightarrow> kobj \<Rightarrow> bool"
  bd_create :: "dma_live \<Rightarrow> u64 \<Rightarrow> nat \<Rightarrow> u64 \<Rightarrow> errno"
  bd_alloc :: "dma_live \<Rightarrow> u64 \<Rightarrow> u64 \<Rightarrow> nat \<Rightarrow> errno + dma_seg list"
  bd_kva :: "dma_live \<Rightarrow> dma_seg list \<Rightarrow> u64 \<Rightarrow> errno + u64"
  bd_load :: "dma_live \<Rightarrow> u64 \<Rightarrow> u64 \<Rightarrow> errno + dma_seg list"

section \<open>DMA memory of the DRM core\<close>

text \<open>\<open>dm_map\<close> holds the segments \<^verbatim>\<open>map->dm_segs\<close> of the loaded map.\<close>

record drm_dmamem =
  dm_map :: "dma_seg list"
  dm_kva :: u64
  dm_size :: u64
  dm_segs :: "dma_seg list"

definition dm_nsegs :: "drm_dmamem \<Rightarrow> nat" where
  "dm_nsegs m = length (dm_segs m)"

text \<open>The resources one successful allocation stands for.\<close>

definition footprint :: "drm_dmamem \<Rightarrow> dma_live" where
  "footprint m =
     {#R_mem K_DMAMEM, R_map, R_segs (dm_segs m), R_kva (dm_kva m) (dm_size m), R_load (dm_map m)#}"

definition drm_dmamem_alloc ::
  "bus_dma \<Rightarrow> u64 \<Rightarrow> u64 \<Rightarrow> nat \<Rightarrow> u64 \<Rightarrow> dma_live \<Rightarrow> drm_dmamem option \<times> dma_live" where
  "drm_dmamem_alloc bd sz alignment nsegments maxsegsz live0 =
     (let strfree = (\<lambda>l. (None, l - {#R_mem K_DMAMEM#}));
          destroy = (\<lambda>l. strfree (l - {#R_map#}));
          free = (\<lambda>segs l. destroy (l - {#R_segs segs#}));
          unmap = (\<lambda>kva segs l. free segs (l - {#R_kva kva sz#}))
      in if \<not> bd_malloc bd live0 K_DMAMEM then (None, live0)
         else let l1 = add_mset (R_mem K_DMAMEM) live0 in
         if bd_create bd l1 sz nsegments maxsegsz \<noteq> E_OK then strfree l1
         else let l2 = add_mset R_map l1 in
         case bd_alloc bd l2 sz alignment nsegments of
           Inl _ \<Rightarrow> destroy l2
         | Inr segs \<Rightarrow>
             let l3 = add_mset (R_segs segs) l2 in
             (case bd_kva bd l3 segs sz of
                Inl _ \<Rightarrow> free segs l3
              | Inr kva \<Rightarrow>
                  let l4 = add_mset (R_kva kva sz) l3 in
                  (case bd_load bd l4 kva sz of
                     Inl _ \<Rightarrow> unmap kva segs l4
                   | Inr loaded \<Rightarrow>
                       (Some \<lparr>dm_map = loaded, dm_kva = kva, dm_size = sz, dm_segs = segs\<rparr>,
                        add_mset (R_load loaded) l4))))"

definition drm_dmamem_free :: "drm_dmamem option \<Rightarrow> dma_live \<Rightarrow> dma_live" where
  "drm_dmamem_free mem live0 =
     (case mem of
        None \<Rightarrow> live0
      | Some m \<Rightarrow>
          live0 - {#R_load (dm_map m)#} - {#R_kva (dm_kva m) (dm_size m)#} - {#R_segs (dm_segs m)#}
            - {#R_map#} - {#R_mem K_DMAMEM#})"

lemma drm_dmamem_alloc_None:
  "drm_dmamem_alloc bd sz al n mx l = (None, l') \<Longrightarrow> l' = l"
  by (auto simp: drm_dmamem_alloc_def Let_def split: if_splits sum.splits)

lemma drm_dmamem_alloc_Some:
  "drm_dmamem_alloc bd sz al n mx l = (Some m, l') \<Longrightarrow> l' = l + footprint m \<and> dm_size m = sz"
  by (auto simp: drm_dmamem_alloc_def Let_def footprint_def add_mset_commute
      split: if_splits sum.splits)

lemma drm_dmamem_free_footprint [simp]: "drm_dmamem_free (Some m) (l + footprint m) = l"
  by (simp add: drm_dmamem_free_def footprint_def)

lemma drm_dmamem_free_None [simp]: "drm_dmamem_free None l = l"
  by (simp add: drm_dmamem_free_def)

lemma drm_dmamem_free_Some: "drm_dmamem_free (Some m) l = l - footprint m"
  by (simp add: drm_dmamem_free_def footprint_def diff_diff_add_mset[symmetric] del: diff_diff_add_mset)
    (simp add: diff_add_mset_swap add_mset_commute)?

section \<open>DMA memory of the AGP driver\<close>

text \<open>
  The fall-through of the labels is the counter \<open>level\<close>: what has been obtained when a call
  fails is released in the order of the cases. The result is the error or the loaded segments,
  the address and the segments.
\<close>

definition agp_alloc_dmamem ::
  "bus_dma \<Rightarrow> u64 \<Rightarrow> nat \<Rightarrow> dma_live \<Rightarrow> (errno + dma_seg list \<times> u64 \<times> dma_seg list) \<times> dma_live" where
  "agp_alloc_dmamem bd sz nseg live0 =
     (case bd_alloc bd live0 sz (of_nat PAGE_SIZE) nseg of
        Inl e \<Rightarrow> (Inl e, live0)
      | Inr segs \<Rightarrow>
          let l1 = add_mset (R_segs segs) live0 in
          (case bd_kva bd l1 segs sz of
             Inl e \<Rightarrow> (Inl e, l1 - {#R_segs segs#})
           | Inr kva \<Rightarrow>
               let l2 = add_mset (R_kva kva sz) l1;
                   e = bd_create bd l2 sz (length segs) sz
               in if e \<noteq> E_OK then (Inl e, l2 - {#R_kva kva sz#} - {#R_segs segs#})
                  else let l3 = add_mset R_map l2 in
                  (case bd_load bd l3 kva sz of
                     Inl e' \<Rightarrow> (Inl e', l3 - {#R_map#} - {#R_kva kva sz#} - {#R_segs segs#})
                   | Inr loaded \<Rightarrow> (Inr (loaded, kva, segs), add_mset (R_load loaded) l3))))"

definition agp_free_dmamem ::
  "u64 \<Rightarrow> dma_seg list \<Rightarrow> u64 \<Rightarrow> dma_seg list \<Rightarrow> dma_live \<Rightarrow> dma_live" where
  "agp_free_dmamem sz loaded kva segs live0 =
     live0 - {#R_load loaded#} - {#R_map#} - {#R_kva kva sz#} - {#R_segs segs#}"

lemma agp_alloc_dmamem_error: "agp_alloc_dmamem bd sz n l = (Inl e, l') \<Longrightarrow> l' = l"
  by (auto simp: agp_alloc_dmamem_def Let_def split: if_splits sum.splits)

lemma agp_alloc_dmamem_free:
  "agp_alloc_dmamem bd sz n l = (Inr (loaded, kva, segs), l') \<Longrightarrow>
   agp_free_dmamem sz loaded kva segs l' = l"
  by (auto simp: agp_alloc_dmamem_def agp_free_dmamem_def Let_def split: if_splits sum.splits)

section \<open>Allocation helpers\<close>

definition SIZE_MAX :: nat where "SIZE_MAX = 2 ^ 64 - 1"

text \<open>
  The size \<^verbatim>\<open>drm_calloc\<close> asks \<^verbatim>\<open>malloc\<close> for, when it asks at all, and the blocks the helpers return,
  as their bytes; \<open>mem ok n\<close> is a block of \<open>n\<close> bytes with arbitrary contents.
\<close>

definition calloc_size :: "nat \<Rightarrow> nat \<Rightarrow> nat option" where
  "calloc_size nmemb sz = (if nmemb = 0 \<or> SIZE_MAX div nmemb < sz then None else Some (sz * nmemb))"

definition drm_alloc :: "(nat \<Rightarrow> u8 list option) \<Rightarrow> nat \<Rightarrow> u8 list option" where
  "drm_alloc mal n = mal n"

definition drm_calloc :: "(nat \<Rightarrow> u8 list option) \<Rightarrow> nat \<Rightarrow> nat \<Rightarrow> u8 list option" where
  "drm_calloc mal nmemb sz =
     (case calloc_size nmemb sz of
        None \<Rightarrow> None
      | Some n \<Rightarrow> (case mal n of None \<Rightarrow> None | Some p \<Rightarrow> Some (replicate (length p) 0)))"

text \<open>The second component tells whether the old block has been given back.\<close>

definition drm_realloc ::
  "(nat \<Rightarrow> u8 list option) \<Rightarrow> u8 list option \<Rightarrow> nat \<Rightarrow> nat \<Rightarrow> u8 list option \<times> bool" where
  "drm_realloc mal oldpt oldsize n =
     (case mal n of
        None \<Rightarrow> (None, False)
      | Some pt \<Rightarrow>
          (case oldpt of
             None \<Rightarrow> (Some pt, False)
           | Some old \<Rightarrow>
               if oldsize \<noteq> 0
               then (Some (take (min oldsize n) old @ drop (min oldsize n) pt), True)
               else (Some pt, False)))"

lemma calloc_size_fits: "calloc_size k sz = Some n \<Longrightarrow> n = sz * k \<and> n \<le> SIZE_MAX"
  by (auto simp: calloc_size_def not_less less_eq_div_iff_mult_less_eq split: if_splits)

lemma calloc_size_complete: "0 < k \<Longrightarrow> sz * k \<le> SIZE_MAX \<Longrightarrow> calloc_size k sz = Some (sz * k)"
  by (auto simp: calloc_size_def div_less_iff_less_mult)

end
