(* ===== verification/Agp.thy ===== *)
theory Agp
  imports Bus_Dma
begin

text \<open>
  The machine-independent AGP driver \<^verbatim>\<open>agp.c\<close>: its softc and memory blocks, the operations every
  chipset driver shares for allocating, binding and releasing memory, the requests of
  \<^verbatim>\<open>/dev/agp\<close> and the interface the DRM uses. A chipset driver supplies \<open>agp_pageops\<close>.
\<close>

section \<open>State\<close>

definition AGP_PAGE_SHIFT :: nat where "AGP_PAGE_SHIFT = 12"
definition AGP_PAGE_SIZE :: nat where "AGP_PAGE_SIZE = 4096"

datatype agp_acquire_state = AGP_ACQUIRE_FREE | AGP_ACQUIRE_USER | AGP_ACQUIRE_KERNEL

text \<open>
  A block of memory is named by \<open>am_id\<close>, which is also what a pointer to it stands for;
  \<open>am_dmamap\<close> holds the segments loaded into its map, \<open>am_dmaseg\<close> the segments allocated.
\<close>

record agp_memory =
  am_id :: int
  am_size :: u64
  am_type :: int
  am_offset :: int
  am_is_bound :: int
  am_physical :: u64
  am_kva :: u64
  am_mapref :: u32
  am_virtual :: u64
  am_dmamap :: "dma_seg list"
  am_dmaseg :: "dma_seg list"

record agp_gatt =
  ag_entries :: u32
  ag_virtual :: "u32 list"
  ag_physical :: u64
  ag_loaded :: "dma_seg list"
  ag_dmaseg :: "dma_seg list"
  ag_kva :: u64
  ag_size :: u64

text \<open>
  The softc of the chipset drivers: each of them uses the first two fields, the others belong to
  the Intel, the VIA and the AMD64 drivers.
\<close>

record agp_chipc =
  initial_aperture :: u32
  gatt :: agp_gatt
  aperture_mask :: u32
  chiptype :: nat
  via_v3 :: bool
  ch_apbase :: u32
  mctrl_tag :: "nat list"
  ctrl_tag :: nat
  via_agp :: bool

text \<open>\<open>as_conf\<close> is what a read of a PCI configuration register (tag and offset) returns.\<close>

type_synonym pci_conf = "nat \<times> u32 \<Rightarrow> u32"

record agp_softc =
  as_capoff :: u32
  as_apaddr :: u64
  as_apsize :: u64
  as_maxmem :: u32
  as_allocated :: u32
  as_state :: agp_acquire_state
  as_memory :: "agp_memory list"
  as_nextid :: int
  as_isopen :: int
  as_mtx :: bool
  as_chipc :: "agp_chipc option"
  as_tag :: nat
  as_id :: u32
  as_conf :: pci_conf
  as_live :: dma_live

record agp_pageops =
  get_aperture :: "agp_softc \<Rightarrow> u32"
  set_aperture :: "agp_softc \<Rightarrow> u32 \<Rightarrow> errno \<times> agp_softc"
  bind_page :: "agp_softc \<Rightarrow> int \<Rightarrow> u64 \<Rightarrow> errno \<times> agp_softc"
  unbind_page :: "agp_softc \<Rightarrow> int \<Rightarrow> errno \<times> agp_softc"
  flush_tlb :: "agp_softc \<Rightarrow> agp_softc"
  enable :: "agp_softc \<Rightarrow> u32 \<Rightarrow> errno \<times> agp_softc"

record agp_methods = agp_pageops +
  alloc_memory :: "agp_softc \<Rightarrow> u32 \<Rightarrow> u64 \<Rightarrow> int option \<times> agp_softc"
  free_memory :: "agp_softc \<Rightarrow> int \<Rightarrow> (errno \<times> agp_softc) outcome"
  bind_memory :: "agp_softc \<Rightarrow> int \<Rightarrow> int \<Rightarrow> (errno \<times> agp_softc) outcome"
  unbind_memory :: "agp_softc \<Rightarrow> int \<Rightarrow> (errno \<times> agp_softc) outcome"

definition mtx_enter :: "agp_softc \<Rightarrow> agp_softc outcome" where
  "mtx_enter sc = (if as_mtx sc then Panic else Ret (sc\<lparr>as_mtx := True\<rparr>))"

definition mtx_exit :: "agp_softc \<Rightarrow> agp_softc outcome" where
  "mtx_exit sc = (if as_mtx sc then Ret (sc\<lparr>as_mtx := False\<rparr>) else Panic)"

section \<open>The list of blocks\<close>

definition agp_find_memory :: "agp_softc \<Rightarrow> int \<Rightarrow> agp_memory option" where
  "agp_find_memory sc i = find (\<lambda>mem. am_id mem = i) (as_memory sc)"

definition agp_lookup_memory :: "agp_softc \<Rightarrow> int \<Rightarrow> agp_memory option" where
  "agp_lookup_memory sc off =
     find (\<lambda>mem. am_is_bound mem \<noteq> 0 \<and> am_offset mem \<le> off \<and> off < am_offset mem + uint (am_size mem))
       (as_memory sc)"

text \<open>A write through the pointer to block \<open>i\<close>.\<close>

definition upd_mem :: "int \<Rightarrow> (agp_memory \<Rightarrow> agp_memory) \<Rightarrow> agp_softc \<Rightarrow> agp_softc" where
  "upd_mem i f sc = sc\<lparr>as_memory := map (\<lambda>m. if am_id m = i then f m else m) (as_memory sc)\<rparr>"

section \<open>Allocation\<close>

text \<open>\<open>raw\<close> is what the block returned by \<^verbatim>\<open>malloc\<close> holds: only some fields are assigned.\<close>

definition agp_generic_alloc_memory ::
  "bus_dma \<Rightarrow> agp_memory \<Rightarrow> agp_softc \<Rightarrow> u32 \<Rightarrow> u64 \<Rightarrow> int option \<times> agp_softc" where
  "agp_generic_alloc_memory bd raw sc ty sz =
     (if sz AND (of_nat AGP_PAGE_SIZE - 1) \<noteq> 0 then (None, sc)
      else if ucast (as_allocated sc) + sz > ucast (as_maxmem sc) then (None, sc)
      else if ty \<noteq> 0 then (None, sc)
      else if \<not> bd_malloc bd (as_live sc) K_AGPMEM then (None, sc)
      else let l1 = add_mset (R_mem K_AGPMEM) (as_live sc) in
      if bd_create bd l1 sz (unat sz div PAGE_SIZE + 1) sz \<noteq> E_OK
      then (None, sc\<lparr>as_live := l1 - {#R_mem K_AGPMEM#}\<rparr>)
      else let mem = raw\<lparr>am_id := as_nextid sc, am_size := sz, am_type := 0, am_physical := 0,
                  am_offset := 0, am_is_bound := 0, am_dmamap := []\<rparr>
           in (Some (am_id mem),
               sc\<lparr>as_nextid := as_nextid sc + 1, as_memory := as_memory sc @ [mem],
                 as_allocated := as_allocated sc + ucast sz, as_live := add_mset R_map l1\<rparr>))"

definition agp_generic_free_memory :: "agp_softc \<Rightarrow> int \<Rightarrow> (errno \<times> agp_softc) outcome" where
  "agp_generic_free_memory sc i =
     (case agp_find_memory sc i of
        None \<Rightarrow> Panic
      | Some mem \<Rightarrow>
          if am_is_bound mem \<noteq> 0 then Ret (EBUSY, sc)
          else Ret (E_OK, sc\<lparr>as_allocated := as_allocated sc - ucast (am_size mem),
                 as_memory := filter (\<lambda>m. am_id m \<noteq> i) (as_memory sc),
                 as_live := as_live sc - {#R_map#} - {#R_mem K_AGPMEM#}\<rparr>))"

section \<open>Binding\<close>

text \<open>
  The search for backing store: chunks of 8, 4, 2 and 1 pages. The result is \<^verbatim>\<open>ENOMEM\<close>, or the
  segments, the address and the loaded segments.
\<close>

fun bind_chunks ::
  "bus_dma \<Rightarrow> u64 \<Rightarrow> nat \<Rightarrow> dma_live \<Rightarrow> (errno + dma_seg list \<times> u64 \<times> dma_seg list) \<times> dma_live" where
  "bind_chunks bd sz contigpages live0 =
     (if contigpages = 0 then (Inl ENOMEM, live0)
      else let nseg = unat sz div (contigpages * PAGE_SIZE) + 1 in
      if \<not> bd_malloc bd live0 K_AGPSEGS then (Inl ENOMEM, live0)
      else let l1 = add_mset (R_mem K_AGPSEGS) live0 in
      case bd_alloc bd l1 sz (of_nat PAGE_SIZE) nseg of
        Inl _ \<Rightarrow> bind_chunks bd sz (contigpages div 2) (l1 - {#R_mem K_AGPSEGS#})
      | Inr segs \<Rightarrow>
          let l2 = add_mset (R_segs segs) l1 in
          (case bd_kva bd l2 segs sz of
             Inl _ \<Rightarrow> bind_chunks bd sz (contigpages div 2) (l2 - {#R_segs segs#} - {#R_mem K_AGPSEGS#})
           | Inr kva \<Rightarrow>
               let l3 = add_mset (R_kva kva sz) l2 in
               (case bd_load bd l3 kva sz of
                  Inl _ \<Rightarrow> bind_chunks bd sz (contigpages div 2)
                             (l3 - {#R_kva kva sz#} - {#R_segs segs#} - {#R_mem K_AGPSEGS#})
                | Inr loaded \<Rightarrow> (Inr (segs, kva, loaded), add_mset (R_load loaded) l3))))"

declare bind_chunks.simps [simp del]

text \<open>
  The pages of one segment at \<open>pa\<close>, \<open>done\<close> bytes of the block being bound already. An error is
  returned with the number of bytes bound so far.
\<close>

function bind_seg ::
  "('z) agp_pageops_scheme \<Rightarrow> int \<Rightarrow> nat \<Rightarrow> u64 \<Rightarrow> nat \<Rightarrow> nat \<Rightarrow> nat \<Rightarrow> agp_softc \<Rightarrow>
   (errno \<times> nat) option \<times> agp_softc" where
  "bind_seg po offset sz pa len dn j sc =
     (if j < len \<and> dn + j < sz
      then let (e, sc') = bind_page po sc (offset + int (dn + j)) (pa + of_nat j)
           in if e \<noteq> E_OK then (Some (e, dn + j), sc')
              else bind_seg po offset sz pa len dn (j + AGP_PAGE_SIZE) sc'
      else (None, sc))"
  by pat_completeness auto
termination
  by (relation "measure (\<lambda>(po, offset, sz, pa, len, dn, j, sc). len - j)") (auto simp: AGP_PAGE_SIZE_def)

declare bind_seg.simps [simp del]

fun bind_segs ::
  "('z) agp_pageops_scheme \<Rightarrow> int \<Rightarrow> nat \<Rightarrow> dma_seg list \<Rightarrow> nat \<Rightarrow> agp_softc \<Rightarrow>
   (errno \<times> nat) option \<times> agp_softc" where
  "bind_segs po offset sz [] dn sc = (None, sc)"
| "bind_segs po offset sz ((pa, len) # segs) dn sc =
     (case bind_seg po offset sz pa (unat len) dn 0 sc of
        (Some err, sc') \<Rightarrow> (Some err, sc')
      | (None, sc') \<Rightarrow> bind_segs po offset sz segs (dn + unat len) sc')"

text \<open>\<^verbatim>\<open>for (k = 0; k < n; k += AGP_PAGE_SIZE) AGP_UNBIND_PAGE(sc, offset + k)\<close>.\<close>

function unbind_range :: "('z) agp_pageops_scheme \<Rightarrow> int \<Rightarrow> nat \<Rightarrow> nat \<Rightarrow> agp_softc \<Rightarrow> agp_softc" where
  "unbind_range po offset n k sc =
     (if k < n then unbind_range po offset n (k + AGP_PAGE_SIZE) (snd (unbind_page po sc (offset + int k)))
      else sc)"
  by pat_completeness auto
termination
  by (relation "measure (\<lambda>(po, offset, n, k, sc). n - k)") (auto simp: AGP_PAGE_SIZE_def)

declare unbind_range.simps [simp del]

definition agp_generic_bind_memory ::
  "bus_dma \<Rightarrow> ('z) agp_pageops_scheme \<Rightarrow> agp_softc \<Rightarrow> int \<Rightarrow> int \<Rightarrow> (errno \<times> agp_softc) outcome" where
  "agp_generic_bind_memory bd po sc0 i offset =
     obind (mtx_enter sc0) (\<lambda>sc.
     case agp_find_memory sc i of
       None \<Rightarrow> Panic
     | Some mem \<Rightarrow>
         if am_is_bound mem \<noteq> 0 then obind (mtx_exit sc) (\<lambda>sc. Ret (EINVAL, sc))
         else if offset < 0 \<or> offset mod int AGP_PAGE_SIZE \<noteq> 0
           \<or> (word_of_int offset :: u64) + am_size mem > ucast (get_aperture po sc)
         then obind (mtx_exit sc) (\<lambda>sc. Ret (EINVAL, sc))
         else case bind_chunks bd (am_size mem) 8 (as_live sc) of
           (Inl e, l) \<Rightarrow> obind (mtx_exit (sc\<lparr>as_live := l\<rparr>)) (\<lambda>sc. Ret (e, sc))
         | (Inr (segs, kva, loaded), l) \<Rightarrow>
             let sc1 = upd_mem i (\<lambda>m. m\<lparr>am_virtual := kva, am_dmaseg := segs, am_dmamap := loaded\<rparr>)
                         (sc\<lparr>as_live := l\<rparr>)
             in (case bind_segs po offset (unat (am_size mem)) loaded 0 sc1 of
                   (Some (err, n), sc2) \<Rightarrow>
                     let sc3 = unbind_range po offset n 0 sc2;
                         sc4 = upd_mem i (\<lambda>m. m\<lparr>am_dmamap := []\<rparr>)
                           (sc3\<lparr>as_live := as_live sc3 - {#R_load loaded#} - {#R_kva kva (am_size mem)#}
                              - {#R_segs segs#} - {#R_mem K_AGPSEGS#}\<rparr>)
                     in obind (mtx_exit sc4) (\<lambda>sc. Ret (err, sc))
                 | (None, sc2) \<Rightarrow>
                     obind (mtx_exit (upd_mem i (\<lambda>m. m\<lparr>am_offset := offset, am_is_bound := 1\<rparr>)
                                        (flush_tlb po sc2)))
                       (\<lambda>sc. Ret (E_OK, sc))))"

definition agp_generic_unbind_memory ::
  "('z) agp_pageops_scheme \<Rightarrow> agp_softc \<Rightarrow> int \<Rightarrow> (errno \<times> agp_softc) outcome" where
  "agp_generic_unbind_memory po sc0 i =
     obind (mtx_enter sc0) (\<lambda>sc.
     case agp_find_memory sc i of
       None \<Rightarrow> Panic
     | Some mem \<Rightarrow>
         if am_is_bound mem = 0 then obind (mtx_exit sc) (\<lambda>sc. Ret (EINVAL, sc))
         else if am_mapref mem > 0 then obind (mtx_exit sc) (\<lambda>sc. Ret (EINVAL, sc))
         else let sc1 = flush_tlb po (unbind_range po (am_offset mem) (unat (am_size mem)) 0 sc);
                  sc2 = sc1\<lparr>as_live := as_live sc1 - {#R_load (am_dmamap mem)#}
                          - {#R_kva (am_virtual mem) (am_size mem)#} - {#R_segs (am_dmaseg mem)#}
                          - {#R_mem K_AGPSEGS#}\<rparr>
              in obind (mtx_exit (upd_mem i (\<lambda>m. m\<lparr>am_dmamap := [], am_offset := 0, am_is_bound := 0\<rparr>) sc2))
                   (\<lambda>sc. Ret (E_OK, sc)))"

text \<open>The method table of a chipset driver that uses the generic operations.\<close>

definition generic_methods :: "bus_dma \<Rightarrow> agp_memory \<Rightarrow> agp_pageops \<Rightarrow> agp_methods" where
  "generic_methods bd raw po =
     agp_pageops.extend po
       \<lparr>alloc_memory = agp_generic_alloc_memory bd raw, free_memory = agp_generic_free_memory,
        bind_memory = agp_generic_bind_memory bd po, unbind_memory = agp_generic_unbind_memory po\<rparr>"

section \<open>Ownership of the chipset\<close>

definition agp_acquire_helper :: "agp_softc \<Rightarrow> agp_acquire_state \<Rightarrow> errno \<times> agp_softc" where
  "agp_acquire_helper sc st =
     (if as_state sc \<noteq> AGP_ACQUIRE_FREE then (EBUSY, sc) else (E_OK, sc\<lparr>as_state := st\<rparr>))"

definition agp_release_helper :: "agp_softc \<Rightarrow> agp_acquire_state \<Rightarrow> errno \<times> agp_softc" where
  "agp_release_helper sc st =
     (if as_state sc = AGP_ACQUIRE_FREE then (E_OK, sc)
      else if as_state sc \<noteq> st then (EBUSY, sc)
      else (E_OK, sc\<lparr>as_state := AGP_ACQUIRE_FREE\<rparr>))"

definition agp_state :: "agp_softc \<Rightarrow> agp_acquire_state" where "agp_state sc = as_state sc"
definition agp_acquire :: "agp_softc \<Rightarrow> errno \<times> agp_softc" where
  "agp_acquire sc = agp_acquire_helper sc AGP_ACQUIRE_KERNEL"
definition agp_release :: "agp_softc \<Rightarrow> errno \<times> agp_softc" where
  "agp_release sc = agp_release_helper sc AGP_ACQUIRE_KERNEL"

end
