(* ===== verification/Agp_User.thy ===== *)
theory Agp_User
  imports Agp
begin

text \<open>
  The requests of \<^verbatim>\<open>/dev/agp\<close> and the remaining interface of \<^verbatim>\<open>agp.c\<close>: information, allocation,
  binding and release by key, open and close of the device, and the mapping of the aperture.
\<close>

section \<open>Requests\<close>

definition AGP_STATUS :: u32 where "AGP_STATUS = 0x4"
definition AGP_COMMAND :: u32 where "AGP_COMMAND = 0x8"

definition pci_conf_read :: "agp_softc \<Rightarrow> nat \<Rightarrow> u32 \<Rightarrow> u32" where
  "pci_conf_read sc tag reg = as_conf sc (tag, reg)"

record agp_user_info =
  bridge_id :: u32
  ui_agp_mode :: u32
  aper_base :: u64
  aper_size :: u32
  pg_total :: u32
  pg_system :: u32
  pg_used :: u32

definition agp_info_user :: "('z) agp_pageops_scheme \<Rightarrow> agp_softc \<Rightarrow> agp_user_info" where
  "agp_info_user po sc =
     \<lparr>bridge_id = as_id sc,
      ui_agp_mode = (if as_capoff sc \<noteq> 0 then pci_conf_read sc (as_tag sc) (as_capoff sc + AGP_STATUS) else 0),
      aper_base = as_apaddr sc, aper_size = drop_bit 20 (get_aperture po sc),
      pg_total = drop_bit AGP_PAGE_SHIFT (as_maxmem sc), pg_system = drop_bit AGP_PAGE_SHIFT (as_maxmem sc),
      pg_used = drop_bit AGP_PAGE_SHIFT (as_allocated sc)\<rparr>"

definition agp_setup_user :: "('z) agp_pageops_scheme \<Rightarrow> agp_softc \<Rightarrow> u32 \<Rightarrow> errno \<times> agp_softc" where
  "agp_setup_user po sc agp_mode = enable po sc agp_mode"

text \<open>\<open>agp_allocate_user\<close> gives the key and the physical address back.\<close>

definition agp_allocate_user ::
  "agp_methods \<Rightarrow> agp_softc \<Rightarrow> u32 \<Rightarrow> u64 \<Rightarrow> errno \<times> (int \<times> u64) option \<times> agp_softc" where
  "agp_allocate_user m sc ty pg_count =
     (case alloc_memory m sc ty (push_bit AGP_PAGE_SHIFT pg_count) of
        (Some i, sc') \<Rightarrow>
          (E_OK, map_option (\<lambda>mem. (am_id mem, am_physical mem)) (agp_find_memory sc' i), sc')
      | (None, sc') \<Rightarrow> (ENOMEM, None, sc'))"

definition agp_deallocate_user :: "agp_methods \<Rightarrow> agp_softc \<Rightarrow> int \<Rightarrow> (errno \<times> agp_softc) outcome" where
  "agp_deallocate_user m sc i =
     (case agp_find_memory sc i of
        Some mem \<Rightarrow> obind (free_memory m sc (am_id mem)) (\<lambda>(_, sc'). Ret (E_OK, sc'))
      | None \<Rightarrow> Ret (ENOENT, sc))"

definition agp_bind_user :: "agp_methods \<Rightarrow> agp_softc \<Rightarrow> int \<Rightarrow> int \<Rightarrow> (errno \<times> agp_softc) outcome" where
  "agp_bind_user m sc key pg_start =
     (case agp_find_memory sc key of
        None \<Rightarrow> Ret (ENOENT, sc)
      | Some mem \<Rightarrow> bind_memory m sc (am_id mem) (pg_start * 2 ^ AGP_PAGE_SHIFT))"

definition agp_unbind_user :: "agp_methods \<Rightarrow> agp_softc \<Rightarrow> int \<Rightarrow> (errno \<times> agp_softc) outcome" where
  "agp_unbind_user m sc key =
     (case agp_find_memory sc key of
        None \<Rightarrow> Ret (ENOENT, sc)
      | Some mem \<Rightarrow> unbind_memory m sc (am_id mem))"

section \<open>Open, close and dispatch\<close>

definition agpopen :: "agp_softc \<Rightarrow> errno \<times> agp_softc" where
  "agpopen sc =
     (if as_chipc sc = None then (ENXIO, sc)
      else if as_isopen sc = 0 then (E_OK, sc\<lparr>as_isopen := 1\<rparr>)
      else (EBUSY, sc))"

text \<open>The loop of the last close ends when the list is empty; \<open>None\<close> is a loop without end.\<close>

partial_function (option) agpclose_loop :: "agp_methods \<Rightarrow> agp_softc \<Rightarrow> agp_softc outcome option" where
  "agpclose_loop m sc =
     (case as_memory sc of
        [] \<Rightarrow> Some (Ret sc)
      | mem # _ \<Rightarrow>
          (case obind (if am_is_bound mem \<noteq> 0
                       then obind (unbind_memory m sc (am_id mem)) (\<lambda>(_, sc1). Ret sc1)
                       else Ret sc)
                  (\<lambda>sc1. free_memory m sc1 (am_id mem)) of
             Ret (e, sc2) \<Rightarrow> agpclose_loop m sc2
           | Panic \<Rightarrow> Some Panic
           | Asleep \<Rightarrow> Some Asleep))"

definition agpclose :: "agp_methods \<Rightarrow> agp_softc \<Rightarrow> (errno \<times> agp_softc) outcome option" where
  "agpclose m sc =
     (if as_state sc = AGP_ACQUIRE_USER
      then map_option
             (\<lambda>r. obind r (\<lambda>sc1. Ret (E_OK, (snd (agp_release_helper sc1 AGP_ACQUIRE_USER))\<lparr>as_isopen := 0\<rparr>)))
             (agpclose_loop m sc)
      else Some (Ret (E_OK, sc\<lparr>as_isopen := 0\<rparr>)))"

text \<open>The commands of \<^verbatim>\<open>agpioctl\<close> with their arguments, and what they return besides the errno.\<close>

datatype agp_cmd =
    AGPIOC_INFO
  | AGPIOC_ACQUIRE
  | AGPIOC_RELEASE
  | AGPIOC_SETUP u32
  | AGPIOC_ALLOCATE u32 u64
  | AGPIOC_DEALLOCATE int
  | AGPIOC_BIND int int
  | AGPIOC_UNBIND int
  | AGPIOC_OTHER u32

datatype agp_reply = NO_REPLY | INFO agp_user_info | KEY int u64

definition no_reply :: "errno \<times> agp_softc \<Rightarrow> errno \<times> agp_reply \<times> agp_softc" where
  "no_reply = (\<lambda>(e, sc). (e, NO_REPLY, sc))"

definition agpioctl ::
  "agp_methods \<Rightarrow> bool \<Rightarrow> agp_softc \<Rightarrow> agp_cmd \<Rightarrow> (errno \<times> agp_reply \<times> agp_softc) outcome" where
  "agpioctl m fwrite sc cmd =
     (if \<not> fwrite \<and> cmd \<noteq> AGPIOC_INFO then Ret (EPERM, NO_REPLY, sc)
      else case cmd of
        AGPIOC_INFO \<Rightarrow> Ret (E_OK, INFO (agp_info_user m sc), sc)
      | AGPIOC_ACQUIRE \<Rightarrow> Ret (no_reply (agp_acquire_helper sc AGP_ACQUIRE_USER))
      | AGPIOC_RELEASE \<Rightarrow> Ret (no_reply (agp_release_helper sc AGP_ACQUIRE_USER))
      | AGPIOC_SETUP mode \<Rightarrow> Ret (no_reply (agp_setup_user m sc mode))
      | AGPIOC_ALLOCATE ty n \<Rightarrow>
          (case agp_allocate_user m sc ty n of
             (e, Some (k, phys), sc') \<Rightarrow> Ret (e, KEY k phys, sc')
           | (e, None, sc') \<Rightarrow> Ret (e, NO_REPLY, sc'))
      | AGPIOC_DEALLOCATE i \<Rightarrow> obind (agp_deallocate_user m sc i) (\<lambda>r. Ret (no_reply r))
      | AGPIOC_BIND k pg \<Rightarrow> obind (agp_bind_user m sc k pg) (\<lambda>r. Ret (no_reply r))
      | AGPIOC_UNBIND k \<Rightarrow> obind (agp_unbind_user m sc k) (\<lambda>r. Ret (no_reply r))
      | AGPIOC_OTHER _ \<Rightarrow> Ret (EINVAL, NO_REPLY, sc))"

section \<open>Information and mapping for the DRM\<close>

record agp_info =
  ai_mode :: u32
  ai_aperture_base :: u64
  ai_aperture_size :: u64
  ai_memory_allowed :: u64
  ai_memory_used :: u64
  ai_devid :: u32

text \<open>The device id is left as it was.\<close>

definition agp_get_info :: "agp_softc \<Rightarrow> agp_info \<Rightarrow> agp_info" where
  "agp_get_info sc info =
     info\<lparr>ai_mode := pci_conf_read sc (as_tag sc) (as_capoff sc + AGP_STATUS),
          ai_aperture_base := as_apaddr sc, ai_aperture_size := as_apsize sc,
          ai_memory_allowed := ucast (as_maxmem sc), ai_memory_used := ucast (as_allocated sc)\<rparr>"

text \<open>
  \<open>bsm\<close> stands for \<^verbatim>\<open>bus_space_map\<close>: the address at which a range of the bus can be used. A block
  that is not reachable through the aperture is mapped itself, once for all its users.
\<close>

definition agp_map ::
  "(u64 \<Rightarrow> u64 \<Rightarrow> u64 option) \<Rightarrow> bus_dma \<Rightarrow> agp_softc \<Rightarrow> u64 \<Rightarrow> u64 \<Rightarrow> u64 option \<times> agp_softc" where
  "agp_map bsm bd sc address sz =
     (if as_chipc sc = None then (None, sc)
      else if address \<ge> as_apsize sc then (None, sc)
      else if as_apaddr sc \<noteq> 0 then (bsm (as_apaddr sc + address) sz, sc)
      else case agp_lookup_memory sc (uint address) of
        None \<Rightarrow> (None, sc)
      | Some mem \<Rightarrow>
          if am_mapref mem = 0
          then (case bd_kva bd (as_live sc) (am_dmaseg mem) (am_size mem) of
                  Inl _ \<Rightarrow> (None, sc)
                | Inr kva \<Rightarrow>
                    (Some (kva + address),
                     upd_mem (am_id mem) (\<lambda>m. m\<lparr>am_kva := kva, am_mapref := am_mapref mem + 1\<rparr>)
                       (sc\<lparr>as_live := add_mset (R_kva kva (am_size mem)) (as_live sc)\<rparr>)))
          else (Some (am_kva mem + address),
                upd_mem (am_id mem) (\<lambda>m. m\<lparr>am_mapref := am_mapref mem + 1\<rparr>) sc))"

definition agp_unmap :: "agp_softc \<Rightarrow> u64 \<Rightarrow> agp_softc" where
  "agp_unmap sc kva =
     (if as_apaddr sc \<noteq> 0 then sc
      else case find (\<lambda>mem. am_is_bound mem \<noteq> 0 \<and> kva \<ge> am_kva mem \<and> kva < am_kva mem + am_size mem)
                  (as_memory sc) of
        None \<Rightarrow> sc
      | Some mem \<Rightarrow>
          if am_mapref mem - 1 = 0
          then upd_mem (am_id mem) (\<lambda>m. m\<lparr>am_mapref := 0, am_kva := 0\<rparr>)
                 (sc\<lparr>as_live := as_live sc - {#R_kva (am_kva mem) (am_size mem)#}\<rparr>)
          else upd_mem (am_id mem) (\<lambda>m. m\<lparr>am_mapref := am_mapref mem - 1\<rparr>) sc)"

text \<open>
  \<open>bsmm\<close> and \<open>bdmm\<close> stand for \<^verbatim>\<open>bus_space_mmap\<close> and \<^verbatim>\<open>bus_dmamem_mmap\<close>; \<open>None\<close> is the address \<open>-1\<close>.
  A negative offset is larger than the aperture once converted to \<^verbatim>\<open>bus_size_t\<close>.
\<close>

definition agp_mmap ::
  "(u64 \<Rightarrow> u64 \<Rightarrow> u64 option) \<Rightarrow> (dma_seg list \<Rightarrow> int \<Rightarrow> u64 option) \<Rightarrow> agp_softc \<Rightarrow> int \<Rightarrow> u64 option" where
  "agp_mmap bsmm bdmm sc off =
     (if as_chipc sc = None then None
      else if (word_of_int off :: u64) \<ge> as_apsize sc then None
      else if as_apaddr sc \<noteq> 0 then bsmm (as_apaddr sc) (word_of_int off)
      else case agp_lookup_memory sc off of
        None \<Rightarrow> None
      | Some mem \<Rightarrow> bdmm (am_dmaseg mem) off)"

definition agpmmap ::
  "(u64 \<Rightarrow> u64 \<Rightarrow> u64 option) \<Rightarrow> (dma_seg list \<Rightarrow> int \<Rightarrow> u64 option) \<Rightarrow> agp_softc \<Rightarrow> int \<Rightarrow> u64 option" where
  "agpmmap bsmm bdmm sc offset = agp_mmap bsmm bdmm sc offset"

record agp_meminfo =
  ami_size :: u64
  ami_physical :: u64
  ami_offset :: int
  ami_is_bound :: int

definition agp_memory_info :: "agp_softc \<Rightarrow> int \<Rightarrow> agp_meminfo option" where
  "agp_memory_info sc i =
     map_option (\<lambda>mem. \<lparr>ami_size = am_size mem, ami_physical = am_physical mem,
                   ami_offset = am_offset mem, ami_is_bound = am_is_bound mem\<rparr>)
       (agp_find_memory sc i)"

end
