(* ===== verification/Agp_Chips.thy ===== *)
theory Agp_Chips
  imports Agp_User
begin

text \<open>
  The chipset drivers \<^verbatim>\<open>agp_intel.c\<close>, \<^verbatim>\<open>agp_sis.c\<close>, \<^verbatim>\<open>agp_ali.c\<close>, \<^verbatim>\<open>agp_via.c\<close>, \<^verbatim>\<open>agp_amd.c\<close> and
  \<^verbatim>\<open>agp_amd64.c\<close>: reading and setting the aperture size in configuration registers, the entries of
  the translation table, and the flush of its cache. A write of a configuration register is a
  parameter: the new contents of the whole space, as reads will see it.
\<close>

section \<open>Registers and the table\<close>

type_synonym conf_write = "nat \<times> u32 \<Rightarrow> u32 \<Rightarrow> pci_conf \<Rightarrow> pci_conf"

definition pci_conf_write :: "conf_write \<Rightarrow> agp_softc \<Rightarrow> nat \<Rightarrow> u32 \<Rightarrow> u32 \<Rightarrow> agp_softc" where
  "pci_conf_write cw sc tag reg v = sc\<lparr>as_conf := cw (tag, reg) v (as_conf sc)\<rparr>"

text \<open>The registers in \<open>rs\<close> keep what is written, and a write to one leaves the others alone.\<close>

definition stores :: "conf_write \<Rightarrow> (nat \<times> u32) set \<Rightarrow> bool" where
  "stores cw rs \<longleftrightarrow> (\<forall>r\<in>rs. \<forall>v c. cw r v c r = v \<and> (\<forall>q. q \<noteq> r \<longrightarrow> cw r v c q = c q))"

definition chipc :: "agp_softc \<Rightarrow> agp_chipc" where "chipc sc = the (as_chipc sc)"
definition gatt_bytes :: "agp_softc \<Rightarrow> int" where
  "gatt_bytes sc = uint (push_bit AGP_PAGE_SHIFT (ag_entries (gatt (chipc sc))))"

text \<open>\<^verbatim>\<open>gatt->ag_virtual[n] = v\<close>.\<close>

definition set_pte :: "nat \<Rightarrow> u32 \<Rightarrow> agp_softc \<Rightarrow> agp_softc" where
  "set_pte n v sc =
     sc\<lparr>as_chipc := map_option (\<lambda>c. c\<lparr>gatt := (gatt c)\<lparr>ag_virtual := (ag_virtual (gatt c))[n := v]\<rparr>\<rparr>)
          (as_chipc sc)\<rparr>"

section \<open>Intel\<close>

definition AGP_INTEL_APSIZE :: u32 where "AGP_INTEL_APSIZE = 0xb4"
definition AGP_INTEL_AGPCTRL :: u32 where "AGP_INTEL_AGPCTRL = 0xb0"
definition AGPCTRL_GTLB :: u32 where "AGPCTRL_GTLB = 0x80"
definition APSIZE_MASK :: u32 where "APSIZE_MASK = 0x3f"
definition CHIP_INTEL :: nat where "CHIP_INTEL = 0"

definition agp_intel_get_aperture :: "agp_softc \<Rightarrow> u32" where
  "agp_intel_get_aperture sc =
     (let mask = aperture_mask (chipc sc);
          apsize = pci_conf_read sc (as_tag sc) AGP_INTEL_APSIZE AND mask
      in (push_bit 22 (apsize XOR mask) OR (push_bit 22 1 - 1)) + 1)"

definition agp_intel_set_aperture :: "conf_write \<Rightarrow> agp_softc \<Rightarrow> u32 \<Rightarrow> errno \<times> agp_softc" where
  "agp_intel_set_aperture cw sc aperture =
     (let mask = aperture_mask (chipc sc);
          apsize = drop_bit 22 (aperture - 1) XOR mask
      in if (push_bit 22 (apsize XOR mask) OR (push_bit 22 1 - 1)) + 1 \<noteq> aperture then (EINVAL, sc)
         else (E_OK, pci_conf_write cw sc (as_tag sc) AGP_INTEL_APSIZE apsize))"

definition agp_intel_bind_page :: "agp_softc \<Rightarrow> int \<Rightarrow> u64 \<Rightarrow> errno \<times> agp_softc" where
  "agp_intel_bind_page sc offset physical =
     (if offset < 0 \<or> offset \<ge> gatt_bytes sc then (EINVAL, sc)
      else (E_OK, set_pte (nat (offset div 2 ^ AGP_PAGE_SHIFT)) (ucast (physical OR 0x17)) sc))"

definition agp_intel_unbind_page :: "agp_softc \<Rightarrow> int \<Rightarrow> errno \<times> agp_softc" where
  "agp_intel_unbind_page sc offset =
     (if offset < 0 \<or> offset \<ge> gatt_bytes sc then (EINVAL, sc)
      else (E_OK, set_pte (nat (offset div 2 ^ AGP_PAGE_SHIFT)) 0 sc))"

definition agp_intel_flush_tlb :: "conf_write \<Rightarrow> agp_softc \<Rightarrow> agp_softc" where
  "agp_intel_flush_tlb cw sc =
     (if chiptype (chipc sc) \<noteq> CHIP_INTEL
      then let reg = pci_conf_read sc (as_tag sc) AGP_INTEL_AGPCTRL AND NOT AGPCTRL_GTLB;
               sc1 = pci_conf_write cw sc (as_tag sc) AGP_INTEL_AGPCTRL reg
           in pci_conf_write cw sc1 (as_tag sc1) AGP_INTEL_AGPCTRL (reg OR AGPCTRL_GTLB)
      else let sc1 = pci_conf_write cw sc (as_tag sc) AGP_INTEL_AGPCTRL 0x2200
           in pci_conf_write cw sc1 (as_tag sc1) AGP_INTEL_AGPCTRL 0x2280)"

section \<open>SiS\<close>

definition AGP_SIS_WINCTRL :: u32 where "AGP_SIS_WINCTRL = 0x94"
definition AGP_SIS_TLBFLUSH :: u32 where "AGP_SIS_TLBFLUSH = 0x98"

text \<open>The number of the lowest bit of a word, counted from 1, or 0 for the word 0.\<close>

definition ffs :: "u32 \<Rightarrow> int" where
  "ffs w = (case find (bit w) [0..<32] of None \<Rightarrow> 0 | Some n \<Rightarrow> int n + 1)"

definition agp_sis_get_aperture :: "agp_softc \<Rightarrow> u32" where
  "agp_sis_get_aperture sc =
     (let gws = unat (drop_bit 4 (pci_conf_read sc (as_tag sc) AGP_SIS_WINCTRL AND 0x70))
      in push_bit gws (4 * 1024 * 1024))"

text \<open>The divisor is parsed as the source writes it: \<^verbatim>\<open>aperture / 4*1024*1024\<close>.\<close>

definition agp_sis_set_aperture :: "conf_write \<Rightarrow> agp_softc \<Rightarrow> u32 \<Rightarrow> errno \<times> agp_softc" where
  "agp_sis_set_aperture cw sc aperture =
     (if aperture AND (aperture - 1) \<noteq> 0 \<or> aperture < 4 * 1024 * 1024 \<or> aperture > 256 * 1024 * 1024
      then (EINVAL, sc)
      else let gws = ffs (aperture div 4 * 1024 * 1024) - 1;
               reg = (pci_conf_read sc (as_tag sc) AGP_SIS_WINCTRL AND NOT 0x70) OR word_of_int (gws * 2 ^ 4)
           in (E_OK, pci_conf_write cw sc (as_tag sc) AGP_SIS_WINCTRL reg))"

definition agp_sis_bind_page :: "agp_softc \<Rightarrow> int \<Rightarrow> u64 \<Rightarrow> errno \<times> agp_softc" where
  "agp_sis_bind_page sc offset physical =
     (if offset < 0 \<or> offset \<ge> gatt_bytes sc then (EINVAL, sc)
      else (E_OK, set_pte (nat (offset div 2 ^ AGP_PAGE_SHIFT)) (ucast physical) sc))"

definition agp_sis_unbind_page :: "agp_softc \<Rightarrow> int \<Rightarrow> errno \<times> agp_softc" where
  "agp_sis_unbind_page sc offset =
     (if offset < 0 \<or> offset \<ge> gatt_bytes sc then (EINVAL, sc)
      else (E_OK, set_pte (nat (offset div 2 ^ AGP_PAGE_SHIFT)) 0 sc))"

definition agp_sis_flush_tlb :: "conf_write \<Rightarrow> agp_softc \<Rightarrow> agp_softc" where
  "agp_sis_flush_tlb cw sc =
     pci_conf_write cw sc (as_tag sc) AGP_SIS_TLBFLUSH
       ((pci_conf_read sc (as_tag sc) AGP_SIS_TLBFLUSH AND 0xffffff00) OR 0x02)"

section \<open>ALi\<close>

definition AGP_ALI_ATTBASE :: u32 where "AGP_ALI_ATTBASE = 0xbc"
definition AGP_ALI_TLBCTRL :: u32 where "AGP_ALI_TLBCTRL = 0xc0"

definition MBYTE :: u32 where "MBYTE = 1024 * 1024"

definition agp_ali_table :: "u32 list" where
  "agp_ali_table =
     [0, 1, 2, 4 * MBYTE, 8 * MBYTE, 0, 16 * MBYTE, 32 * MBYTE, 64 * MBYTE, 128 * MBYTE, 256 * MBYTE]"

definition agp_ali_get_aperture :: "agp_softc \<Rightarrow> u32" where
  "agp_ali_get_aperture sc =
     (let i = unat (pci_conf_read sc (as_tag sc) AGP_ALI_ATTBASE AND 0xf)
      in if i \<ge> length agp_ali_table then 0 else agp_ali_table ! i)"

text \<open>The first index of a table that holds a value.\<close>

definition table_index :: "'v list \<Rightarrow> 'v \<Rightarrow> nat option" where
  "table_index t v = find (\<lambda>i. t ! i = v) [0..<length t]"

definition agp_ali_set_aperture :: "conf_write \<Rightarrow> agp_softc \<Rightarrow> u32 \<Rightarrow> errno \<times> agp_softc" where
  "agp_ali_set_aperture cw sc aperture =
     (if aperture AND (aperture - 1) \<noteq> 0 \<or> aperture < 1 * MBYTE then (EINVAL, sc)
      else case table_index agp_ali_table aperture of
        None \<Rightarrow> (EINVAL, sc)
      | Some i \<Rightarrow>
          (E_OK, pci_conf_write cw sc (as_tag sc) AGP_ALI_ATTBASE
             ((pci_conf_read sc (as_tag sc) AGP_ALI_ATTBASE AND NOT 0xf) OR of_nat i)))"

definition agp_ali_bind_page :: "agp_softc \<Rightarrow> int \<Rightarrow> u64 \<Rightarrow> errno \<times> agp_softc" where
  "agp_ali_bind_page sc offset physical =
     (if offset < 0 \<or> offset \<ge> gatt_bytes sc then (EINVAL, sc)
      else (E_OK, set_pte (nat (offset div 2 ^ AGP_PAGE_SHIFT)) (ucast physical) sc))"

definition agp_ali_unbind_page :: "agp_softc \<Rightarrow> int \<Rightarrow> errno \<times> agp_softc" where
  "agp_ali_unbind_page sc offset =
     (if offset < 0 \<or> offset \<ge> gatt_bytes sc then (EINVAL, sc)
      else (E_OK, set_pte (nat (offset div 2 ^ AGP_PAGE_SHIFT)) 0 sc))"

definition agp_ali_flush_tlb :: "conf_write \<Rightarrow> agp_softc \<Rightarrow> agp_softc" where
  "agp_ali_flush_tlb cw sc =
     (let reg = (pci_conf_read sc (as_tag sc) AGP_ALI_TLBCTRL AND NOT 0xff) OR 0x90;
          sc1 = pci_conf_write cw sc (as_tag sc) AGP_ALI_TLBCTRL reg
      in pci_conf_write cw sc1 (as_tag sc1) AGP_ALI_TLBCTRL ((reg AND NOT 0xff) OR 0x10))"

section \<open>VIA\<close>

definition AGP_VIA_GARTCTRL :: u32 where "AGP_VIA_GARTCTRL = 0x80"
definition AGP_VIA_APSIZE :: u32 where "AGP_VIA_APSIZE = 0x84"
definition AGP3_VIA_GARTCTRL :: u32 where "AGP3_VIA_GARTCTRL = 0x90"
definition AGP3_VIA_APSIZE :: u32 where "AGP3_VIA_APSIZE = 0x94"

definition via_reg_apsize :: "bool \<Rightarrow> u32" where
  "via_reg_apsize v3 = (if v3 then AGP3_VIA_APSIZE else AGP_VIA_APSIZE)"
definition via_reg_gartctrl :: "bool \<Rightarrow> u32" where
  "via_reg_gartctrl v3 = (if v3 then AGP3_VIA_GARTCTRL else AGP_VIA_GARTCTRL)"

text \<open>The two \<^verbatim>\<open>switch\<close> statements: register value to size, and size to register value.\<close>

definition via3_size :: "u32 \<Rightarrow> u32 option" where
  "via3_size k =
     map_of [(0x800, 0x80000000), (0xc00, 0x40000000), (0xe00, 0x20000000), (0xf00, 0x10000000),
       (0xf20, 0x08000000), (0xf30, 0x04000000), (0xf38, 0x02000000), (0xf3c, 0x01000000),
       (0xf3e, 0x00800000), (0xf3f, 0x00400000)] k"

definition via3_key :: "u32 \<Rightarrow> u32 option" where
  "via3_key a =
     map_of [(0x80000000, 0x800), (0x40000000, 0xc00), (0x20000000, 0xe00), (0x10000000, 0xf00),
       (0x08000000, 0xf20), (0x04000000, 0xf30), (0x02000000, 0xf38), (0x01000000, 0xf3c),
       (0x00800000, 0xf3e), (0x00400000, 0xf3f)] a"

definition agp_via_get_aperture :: "agp_softc \<Rightarrow> u32" where
  "agp_via_get_aperture sc =
     (if \<not> via_v3 (chipc sc)
      then let apsize = pci_conf_read sc (as_tag sc) (via_reg_apsize False) AND 0xff
           in (push_bit 20 (apsize XOR 0xff) OR (push_bit 20 1 - 1)) + 1
      else case via3_size (pci_conf_read sc (as_tag sc) (via_reg_apsize True) AND 0xfff) of
        Some a \<Rightarrow> a
      | None \<Rightarrow> 0)"

definition agp_via_set_aperture :: "conf_write \<Rightarrow> agp_softc \<Rightarrow> u32 \<Rightarrow> errno \<times> agp_softc" where
  "agp_via_set_aperture cw sc aperture =
     (if \<not> via_v3 (chipc sc)
      then let apsize = drop_bit 20 (aperture - 1) XOR 0xff
           in if (push_bit 20 (apsize XOR 0xff) OR (push_bit 20 1 - 1)) + 1 \<noteq> aperture then (EINVAL, sc)
              else (E_OK, pci_conf_write cw sc (as_tag sc) (via_reg_apsize False)
                      ((pci_conf_read sc (as_tag sc) (via_reg_apsize False) AND NOT 0xff) OR apsize))
      else case via3_key aperture of
        None \<Rightarrow> (EINVAL, sc)
      | Some key \<Rightarrow>
          (E_OK, pci_conf_write cw sc (as_tag sc) (via_reg_apsize True)
             ((pci_conf_read sc (as_tag sc) (via_reg_apsize True) AND NOT 0xfff) OR key)))"

definition agp_via_bind_page :: "agp_softc \<Rightarrow> int \<Rightarrow> u64 \<Rightarrow> errno \<times> agp_softc" where
  "agp_via_bind_page sc offset physical =
     (if offset < 0 \<or> offset \<ge> gatt_bytes sc then (EINVAL, sc)
      else (E_OK, set_pte (nat (offset div 2 ^ AGP_PAGE_SHIFT)) (ucast physical) sc))"

definition agp_via_unbind_page :: "agp_softc \<Rightarrow> int \<Rightarrow> errno \<times> agp_softc" where
  "agp_via_unbind_page sc offset =
     (if offset < 0 \<or> offset \<ge> gatt_bytes sc then (EINVAL, sc)
      else (E_OK, set_pte (nat (offset div 2 ^ AGP_PAGE_SHIFT)) 0 sc))"

definition agp_via_flush_tlb :: "conf_write \<Rightarrow> agp_softc \<Rightarrow> agp_softc" where
  "agp_via_flush_tlb cw sc =
     (if \<not> via_v3 (chipc sc)
      then let sc1 = pci_conf_write cw sc (as_tag sc) (via_reg_gartctrl False) 0x8f
           in pci_conf_write cw sc1 (as_tag sc1) (via_reg_gartctrl False) 0x0f
      else let gartctrl = pci_conf_read sc (as_tag sc) (via_reg_gartctrl True);
               sc1 = pci_conf_write cw sc (as_tag sc) (via_reg_gartctrl True) (gartctrl AND NOT (push_bit 7 1))
           in pci_conf_write cw sc1 (as_tag sc1) (via_reg_gartctrl True) gartctrl)"

section \<open>AMD 751\<close>

definition AGP_AMD751_APCTRL :: u32 where "AGP_AMD751_APCTRL = 0xac"

definition agp_amd_get_aperture :: "agp_softc \<Rightarrow> u32" where
  "agp_amd_get_aperture sc =
     (let vas = unat (drop_bit 1 (pci_conf_read sc (as_tag sc) AGP_AMD751_APCTRL AND 0x06))
      in push_bit vas (32 * 1024 * 1024))"

definition agp_amd_set_aperture :: "conf_write \<Rightarrow> agp_softc \<Rightarrow> u32 \<Rightarrow> errno \<times> agp_softc" where
  "agp_amd_set_aperture cw sc aperture =
     (if aperture AND (aperture - 1) \<noteq> 0 \<or> aperture < 32 * 1024 * 1024 \<or> aperture > 2 * 1024 * 1024 * 1024
      then (EINVAL, sc)
      else let vas = ffs (aperture div 32 * 1024 * 1024) - 1;
               reg = (pci_conf_read sc (as_tag sc) AGP_AMD751_APCTRL AND NOT 0x06) OR word_of_int (vas * 2)
           in (E_OK, pci_conf_write cw sc (as_tag sc) AGP_AMD751_APCTRL reg))"

definition agp_amd_bind_page :: "agp_softc \<Rightarrow> int \<Rightarrow> u64 \<Rightarrow> errno \<times> agp_softc" where
  "agp_amd_bind_page sc offset physical =
     (if offset < 0 \<or> offset \<ge> gatt_bytes sc then (EINVAL, sc)
      else (E_OK, set_pte (nat (offset div 2 ^ AGP_PAGE_SHIFT)) (ucast (physical OR 1)) sc))"

definition agp_amd_unbind_page :: "agp_softc \<Rightarrow> int \<Rightarrow> errno \<times> agp_softc" where
  "agp_amd_unbind_page sc offset =
     (if offset < 0 \<or> offset \<ge> gatt_bytes sc then (EINVAL, sc)
      else (E_OK, set_pte (nat (offset div 2 ^ AGP_PAGE_SHIFT)) 0 sc))"

section \<open>AMD64\<close>

definition AGP_AMD64_APCTRL :: u32 where "AGP_AMD64_APCTRL = 0x90"
definition AGP_AMD64_APBASE :: u32 where "AGP_AMD64_APBASE = 0x94"
definition AGP_AMD64_CACHECTRL :: u32 where "AGP_AMD64_CACHECTRL = 0x9c"
definition AGP_AMD64_APCTRL_SIZE_MASK :: u32 where "AGP_AMD64_APCTRL_SIZE_MASK = 0xe"
definition AGP_AMD64_CACHECTRL_INVGART :: u32 where "AGP_AMD64_CACHECTRL_INVGART = 1"
definition AGP_AMD64_NVIDIA_1_APLIMIT1 :: u32 where "AGP_AMD64_NVIDIA_1_APLIMIT1 = 0x54"
definition AGP_AMD64_NVIDIA_1_APSIZE :: u32 where "AGP_AMD64_NVIDIA_1_APSIZE = 0xa8"
definition AGP_AMD64_NVIDIA_1_APLIMIT2 :: u32 where "AGP_AMD64_NVIDIA_1_APLIMIT2 = 0xdc"
definition AGP_AMD64_ULI_ENU_SCR :: u32 where "AGP_AMD64_ULI_ENU_SCR = 0x54"

definition agp_amd64_table :: "u32 list" where
  "agp_amd64_table =
     [0x02000000, 0x04000000, 0x08000000, 0x10000000, 0x20000000, 0x40000000, 0x80000000]"

definition agp_amd64_get_aperture :: "agp_softc \<Rightarrow> u32" where
  "agp_amd64_get_aperture sc =
     (let i = unat (drop_bit 1 (pci_conf_read sc (mctrl_tag (chipc sc) ! 0) AGP_AMD64_APCTRL
                                  AND AGP_AMD64_APCTRL_SIZE_MASK))
      in if i \<ge> length agp_amd64_table then 0 else agp_amd64_table ! i)"

text \<open>The vendor in the low half of the identification register selects the bridge; the ids are parameters.\<close>

record pci_vendors =
  VENDOR_ALI :: u16
  VENDOR_NVIDIA :: u16
  VENDOR_VIATECH :: u16

definition PCI_VENDOR :: "u32 \<Rightarrow> u16" where "PCI_VENDOR pid = ucast pid"

definition agp_amd64_uli_set_aperture :: "conf_write \<Rightarrow> agp_softc \<Rightarrow> u32 \<Rightarrow> errno \<times> agp_softc" where
  "agp_amd64_uli_set_aperture cw sc aperture =
     (if aperture \<notin> {0x02000000, 0x04000000, 0x08000000, 0x10000000} then (EINVAL, sc)
      else (E_OK, pci_conf_write cw sc (as_tag sc) AGP_AMD64_ULI_ENU_SCR (ch_apbase (chipc sc) + aperture - 1)))"

definition nvidia_apsize :: "u32 \<Rightarrow> u32 option" where
  "nvidia_apsize a =
     map_of [(0x02000000, 0x0f), (0x04000000, 0x0e), (0x08000000, 0x0c), (0x10000000, 0x08),
       (0x20000000, 0x00)] a"

definition agp_amd64_nvidia_set_aperture :: "conf_write \<Rightarrow> agp_softc \<Rightarrow> u32 \<Rightarrow> errno \<times> agp_softc" where
  "agp_amd64_nvidia_set_aperture cw sc aperture =
     (case nvidia_apsize aperture of
        None \<Rightarrow> (EINVAL, sc)
      | Some apsize \<Rightarrow>
          let t = ctrl_tag (chipc sc);
              limit = ch_apbase (chipc sc) + aperture - 1;
              sc1 = pci_conf_write cw sc t AGP_AMD64_NVIDIA_1_APSIZE
                      ((pci_conf_read sc t AGP_AMD64_NVIDIA_1_APSIZE AND 0xfffffff0) OR apsize);
              sc2 = pci_conf_write cw sc1 t AGP_AMD64_NVIDIA_1_APLIMIT1 limit
          in (E_OK, pci_conf_write cw sc2 t AGP_AMD64_NVIDIA_1_APLIMIT2 limit))"

definition agp_amd64_via_set_aperture :: "conf_write \<Rightarrow> agp_softc \<Rightarrow> u32 \<Rightarrow> errno \<times> agp_softc" where
  "agp_amd64_via_set_aperture cw sc aperture =
     (let t = ctrl_tag (chipc sc);
          apsize = drop_bit 20 (aperture - 1) XOR 0xff
      in if (push_bit 20 (apsize XOR 0xff) OR (push_bit 20 1 - 1)) + 1 \<noteq> aperture then (EINVAL, sc)
         else (E_OK, pci_conf_write cw sc t AGP3_VIA_APSIZE
                 ((pci_conf_read sc t AGP3_VIA_APSIZE AND NOT 0xff) OR apsize)))"

text \<open>The loop over the control units: each turn reads and writes the register of the first unit.\<close>

fun amd64_set_units :: "conf_write \<Rightarrow> u32 \<Rightarrow> nat \<Rightarrow> agp_softc \<Rightarrow> agp_softc" where
  "amd64_set_units cw i 0 sc = sc"
| "amd64_set_units cw i (Suc n) sc =
     (let t = mctrl_tag (chipc sc) ! 0;
          apctrl = pci_conf_read sc t AGP_AMD64_APCTRL
      in amd64_set_units cw i n
           (pci_conf_write cw sc t AGP_AMD64_APCTRL ((apctrl AND NOT AGP_AMD64_APCTRL_SIZE_MASK) OR push_bit 1 i)))"

definition agp_amd64_set_aperture ::
  "pci_vendors \<Rightarrow> conf_write \<Rightarrow> agp_softc \<Rightarrow> u32 \<Rightarrow> errno \<times> agp_softc" where
  "agp_amd64_set_aperture pv cw sc aperture =
     (case table_index agp_amd64_table aperture of
        None \<Rightarrow> (EINVAL, sc)
      | Some i \<Rightarrow>
          let sc1 = amd64_set_units cw (of_nat i) (length (mctrl_tag (chipc sc))) sc
          in if PCI_VENDOR (as_id sc1) = VENDOR_ALI pv then agp_amd64_uli_set_aperture cw sc1 aperture
             else if PCI_VENDOR (as_id sc1) = VENDOR_NVIDIA pv then agp_amd64_nvidia_set_aperture cw sc1 aperture
             else if PCI_VENDOR (as_id sc1) = VENDOR_VIATECH pv \<and> via_agp (chipc sc1)
             then agp_amd64_via_set_aperture cw sc1 aperture
             else (E_OK, sc1))"

definition amd64_pte :: "u64 \<Rightarrow> u32" where
  "amd64_pte physical = ucast ((physical AND 0xfffff000) OR (drop_bit 28 physical AND 0xff0) OR 3)"

definition agp_amd64_bind_page :: "agp_softc \<Rightarrow> int \<Rightarrow> u64 \<Rightarrow> errno \<times> agp_softc" where
  "agp_amd64_bind_page sc offset physical =
     (if offset < 0 \<or> offset \<ge> gatt_bytes sc then (EINVAL, sc)
      else (E_OK, set_pte (nat (offset div 2 ^ AGP_PAGE_SHIFT)) (amd64_pte physical) sc))"

definition agp_amd64_unbind_page :: "agp_softc \<Rightarrow> int \<Rightarrow> errno \<times> agp_softc" where
  "agp_amd64_unbind_page sc offset =
     (if offset < 0 \<or> offset \<ge> gatt_bytes sc then (EINVAL, sc)
      else (E_OK, set_pte (nat (offset div 2 ^ AGP_PAGE_SHIFT)) 0 sc))"

fun amd64_flush_units :: "conf_write \<Rightarrow> nat list \<Rightarrow> agp_softc \<Rightarrow> agp_softc" where
  "amd64_flush_units cw [] sc = sc"
| "amd64_flush_units cw (t # ts) sc =
     amd64_flush_units cw ts
       (pci_conf_write cw sc t AGP_AMD64_CACHECTRL
          (pci_conf_read sc t AGP_AMD64_CACHECTRL OR AGP_AMD64_CACHECTRL_INVGART))"

definition agp_amd64_flush_tlb :: "conf_write \<Rightarrow> agp_softc \<Rightarrow> agp_softc" where
  "agp_amd64_flush_tlb cw sc = amd64_flush_units cw (mctrl_tag (chipc sc)) sc"

section \<open>The drivers\<close>

datatype agp_driver = DRV_INTEL | DRV_SIS | DRV_ALI | DRV_VIA | DRV_AMD | DRV_AMD64

text \<open>
  The tables \<^verbatim>\<open>agp_*_methods\<close>. \<open>en\<close> stands for \<^verbatim>\<open>agp_generic_enable\<close>, whose mode word is laid
  out by macros that are not part of the sources, and \<open>amd_flush\<close> for the cache flush of the AMD 751
  through its mapped registers.
\<close>

definition chip_ops ::
  "pci_vendors \<Rightarrow> conf_write \<Rightarrow> (agp_softc \<Rightarrow> u32 \<Rightarrow> errno \<times> agp_softc) \<Rightarrow> agp_driver \<Rightarrow> agp_pageops" where
  "chip_ops pv cw en drv =
     (case drv of
        DRV_INTEL \<Rightarrow> \<lparr>get_aperture = agp_intel_get_aperture, set_aperture = agp_intel_set_aperture cw,
          bind_page = agp_intel_bind_page, unbind_page = agp_intel_unbind_page,
          flush_tlb = agp_intel_flush_tlb cw, enable = en\<rparr>
      | DRV_SIS \<Rightarrow> \<lparr>get_aperture = agp_sis_get_aperture, set_aperture = agp_sis_set_aperture cw,
          bind_page = agp_sis_bind_page, unbind_page = agp_sis_unbind_page,
          flush_tlb = agp_sis_flush_tlb cw, enable = en\<rparr>
      | DRV_ALI \<Rightarrow> \<lparr>get_aperture = agp_ali_get_aperture, set_aperture = agp_ali_set_aperture cw,
          bind_page = agp_ali_bind_page, unbind_page = agp_ali_unbind_page,
          flush_tlb = agp_ali_flush_tlb cw, enable = en\<rparr>
      | DRV_VIA \<Rightarrow> \<lparr>get_aperture = agp_via_get_aperture, set_aperture = agp_via_set_aperture cw,
          bind_page = agp_via_bind_page, unbind_page = agp_via_unbind_page,
          flush_tlb = agp_via_flush_tlb cw, enable = en\<rparr>
      | DRV_AMD \<Rightarrow> \<lparr>get_aperture = agp_amd_get_aperture, set_aperture = agp_amd_set_aperture cw,
          bind_page = agp_amd_bind_page, unbind_page = agp_amd_unbind_page,
          flush_tlb = (\<lambda>sc. sc), enable = en\<rparr>
      | DRV_AMD64 \<Rightarrow> \<lparr>get_aperture = agp_amd64_get_aperture, set_aperture = agp_amd64_set_aperture pv cw,
          bind_page = agp_amd64_bind_page, unbind_page = agp_amd64_unbind_page,
          flush_tlb = agp_amd64_flush_tlb cw, enable = en\<rparr>)"

end
