(* ===== verification/Agp_Gart.thy ===== *)
theory Agp_Gart
  imports Agp_Chips
begin

text \<open>
  What binding does to the translation table. The contract of a chipset driver's page operations
  is the locale \<open>gart\<close>; the loops of \<^verbatim>\<open>agp_generic_bind_memory\<close> and \<^verbatim>\<open>agp_generic_unbind_memory\<close>
  are proved against it once, and every driver of \<open>Agp_Chips\<close> is an interpretation.
\<close>

section \<open>The page loops over the list of page addresses\<close>

text \<open>The bus addresses of the pages of a list of segments of whole pages.\<close>

definition seg_pages :: "dma_seg \<Rightarrow> u64 list" where
  "seg_pages s = map (\<lambda>k. fst s + of_nat (4096 * k)) [0..<unat (snd s) div 4096]"

definition segs_pages :: "dma_seg list \<Rightarrow> u64 list" where
  "segs_pages segs = concat (map seg_pages segs)"

definition whole_pages :: "dma_seg list \<Rightarrow> bool" where
  "whole_pages segs \<longleftrightarrow> (\<forall>s\<in>set segs. unat (snd s) mod 4096 = 0)"

fun bind_list ::
  "('z) agp_pageops_scheme \<Rightarrow> int \<Rightarrow> nat \<Rightarrow> u64 list \<Rightarrow> agp_softc \<Rightarrow> (errno \<times> nat) option \<times> agp_softc" where
  "bind_list po offset k [] sc = (None, sc)"
| "bind_list po offset k (pa # pas) sc =
     (let (e, sc') = bind_page po sc (offset + int k) pa
      in if e \<noteq> E_OK then (Some (e, k), sc') else bind_list po offset (k + 4096) pas sc')"

lemma bind_list_append:
  "bind_list po offset k (xs @ ys) sc =
     (case bind_list po offset k xs sc of
        (Some e, sc') \<Rightarrow> (Some e, sc')
      | (None, sc') \<Rightarrow> bind_list po offset (k + 4096 * length xs) ys sc')"
proof (induction xs arbitrary: k sc)
  case Nil
  then show ?case by simp
next
  case (Cons pa xs)
  obtain e s where b: "bind_page po sc (offset + int k) pa = (e, s)" by fastforce
  have k: "k + 4096 * length (pa # xs) = k + 4096 + 4096 * length xs" by simp
  show ?case
    unfolding append_Cons bind_list.simps b Let_def prod.case k Cons.IH by simp
qed

lemma upt_take: "take n [a..<b] = [a..<min (a + n) b]"
  by (simp add: take_upt min_def)

lemma page_less:
  fixes sz dn j :: nat
  assumes "sz mod 4096 = 0" "dn mod 4096 = 0"
  shows "dn + 4096 * j < sz \<longleftrightarrow> j < (sz - dn) div 4096"
proof -
  obtain q where q: "sz = 4096 * q" using assms(1) by auto
  obtain r where r: "dn = 4096 * r" using assms(2) by auto
  have "(sz - dn) div 4096 = q - r" by (simp add: q r flip: diff_mult_distrib2)
  then show ?thesis by (simp add: q r) linarith
qed

lemma page_add: "(a :: nat) mod 4096 = 0 \<Longrightarrow> b mod 4096 = 0 \<Longrightarrow> (a + b) mod 4096 = 0"
  by (metis mod_0_imp_dvd dvd_add dvd_imp_mod_0)

lemma page_index: "(len :: nat) mod 4096 = 0 \<Longrightarrow> 4096 * j < len \<longleftrightarrow> j < len div 4096"
  by auto

lemma page_diff:
  fixes sz dn l :: nat
  assumes "sz mod 4096 = 0" "dn mod 4096 = 0" "l mod 4096 = 0"
  shows "(sz - dn) div 4096 - l div 4096 = (sz - (dn + l)) div 4096"
proof -
  obtain q where q: "sz = 4096 * q" using assms(1) by auto
  obtain r where r: "dn = 4096 * r" using assms(2) by auto
  obtain t where t: "l = 4096 * t" using assms(3) by auto
  have "4096 * q - (4096 * r + 4096 * t) = 4096 * (q - (r + t))" by (simp add: algebra_simps)
  then show ?thesis by (simp add: q r t flip: diff_mult_distrib2)
qed

lemma bind_seg_list:
  assumes "len mod 4096 = 0" "sz mod 4096 = 0" "dn mod 4096 = 0"
  shows "bind_seg po offset sz pa len dn (4096 * j) sc =
     bind_list po offset (dn + 4096 * j)
       (map (\<lambda>k. pa + of_nat (4096 * k)) [j..<min (len div 4096) ((sz - dn) div 4096)]) sc"
proof (induction "len div 4096 - j" arbitrary: j sc)
  case (0 j sc)
  then have ge: "len div 4096 \<le> j" by simp
  then have no: "\<not> 4096 * j < len" using page_index[OF assms(1)] by simp
  have nil: "[j..<min (len div 4096) ((sz - dn) div 4096)] = []" using ge by simp
  show ?case unfolding nil by (subst bind_seg.simps) (simp only: no simp_thms if_False list.map bind_list.simps)
next
  case (Suc n j sc)
  have len: "4096 * j < len" using page_index[OF assms(1)] Suc.hyps(2) by simp
  have less: "dn + 4096 * j < sz \<longleftrightarrow> j < (sz - dn) div 4096" by (rule page_less[OF assms(2,3)])
  show ?case
  proof (cases "dn + 4096 * j < sz")
    case True
    let ?m = "min (len div 4096) ((sz - dn) div 4096)"
    have up: "[j..<?m] = j # [Suc j..<?m]" using True less Suc.hyps(2) by (simp add: upt_conv_Cons)
    have next_j: "4096 * j + AGP_PAGE_SIZE = 4096 * Suc j" by (simp add: AGP_PAGE_SIZE_def)
    have step: "dn + 4096 * Suc j = dn + 4096 * j + 4096" by simp
    have hyp: "bind_seg po offset sz pa len dn (4096 * Suc j) s =
        bind_list po offset (dn + 4096 * Suc j)
          (map (\<lambda>k. pa + of_nat (4096 * k)) [Suc j..<?m]) s" for s
      by (rule Suc.hyps(1)) (use Suc.hyps(2) in simp)
    show ?thesis
      unfolding up list.map bind_list.simps
      by (subst bind_seg.simps) (simp only: len True next_j hyp step simp_thms if_True)
  next
    case False
    then have "\<not> j < (sz - dn) div 4096" using less by blast
    then have nil: "[j..<min (len div 4096) ((sz - dn) div 4096)] = []" by simp
    show ?thesis
      unfolding nil by (subst bind_seg.simps) (simp only: False simp_thms if_False list.map bind_list.simps)
  qed
qed

lemma bind_segs_list:
  assumes "whole_pages segs" "sz mod 4096 = 0" "dn mod 4096 = 0"
  shows "bind_segs po offset sz segs dn sc =
     bind_list po offset dn (take ((sz - dn) div 4096) (segs_pages segs)) sc"
  using assms
proof (induction segs arbitrary: dn sc)
  case Nil
  then show ?case by (simp add: segs_pages_def)
next
  case (Cons s segs)
  obtain pa l where s: "s = (pa, l)" by (cases s)
  let ?len = "unat l"
  have l: "?len mod 4096 = 0" and segs: "whole_pages segs"
    using Cons.prems(1) by (auto simp: whole_pages_def s)
  have dl: "(dn + ?len) mod 4096 = 0" by (rule page_add[OF Cons.prems(3) l])
  let ?n = "(sz - dn) div 4096"
  let ?m = "min (?len div 4096) ?n"
  have first: "bind_seg po offset sz pa ?len dn 0 sc =
      bind_list po offset dn (map (\<lambda>k. pa + of_nat (4096 * k)) [0..<?m]) sc"
    using bind_seg_list[OF l Cons.prems(2,3), of po offset pa 0 sc] by simp
  have pages: "take ?n (segs_pages (s # segs)) =
      map (\<lambda>k. pa + of_nat (4096 * k)) [0..<?m] @ take (?n - ?len div 4096) (segs_pages segs)"
    by (simp add: segs_pages_def seg_pages_def s take_map upt_take min.commute)
  have rest: "?n - ?len div 4096 = (sz - (dn + ?len)) div 4096"
    by (rule page_diff[OF Cons.prems(2,3) l])
  show ?case
  proof (cases "?len div 4096 \<le> ?n")
    case True
    have whole: "4096 * (?len div 4096) = ?len" using l by auto
    show ?thesis
      unfolding pages bind_list_append
      using Cons.IH[OF segs Cons.prems(2) dl] True whole
      by (simp add: s first rest split: prod.splits option.splits)
  next
    case False
    then have z: "?n - ?len div 4096 = 0" by simp
    then have "(sz - (dn + ?len)) div 4096 = 0" using rest by simp
    then show ?thesis
      unfolding pages bind_list_append
      using Cons.IH[OF segs Cons.prems(2) dl] z
      by (simp add: s first split: prod.splits option.splits)
  qed
qed

text \<open>A page loop that stops early reports an error.\<close>

lemma bind_seg_err: "bind_seg po offset sz pa len dn j sc = (Some (e, n), s) \<Longrightarrow> e \<noteq> E_OK"
proof (induction po offset sz pa len dn j sc rule: bind_seg.induct)
  case (1 po offset sz pa len dn j sc)
  obtain e1 s1 where b: "bind_page po sc (offset + int (dn + j)) (pa + of_nat j) = (e1, s1)" by fastforce
  show ?case
    using 1(2) 1(1)[OF _ b[symmetric] refl]
    by (subst (asm) bind_seg.simps) (auto simp: Let_def b[simplified] split: if_splits)
qed

lemma bind_segs_err: "bind_segs po offset sz segs dn sc = (Some (e, n), s) \<Longrightarrow> e \<noteq> E_OK"
proof (induction segs arbitrary: dn sc)
  case (Cons a segs)
  obtain pa l where a: "a = (pa, l)" by (cases a)
  obtain r s1 where r: "bind_seg po offset sz pa (unat l) dn 0 sc = (r, s1)" by fastforce
  show ?case
  proof (cases r)
    case None
    then show ?thesis using Cons.IH Cons.prems r by (simp add: a)
  next
    case (Some x)
    then show ?thesis using Cons.prems r bind_seg_err[of po offset sz pa "unat l" dn 0 sc e n s] by (simp add: a)
  qed
qed simp

fun unbind_list :: "('z) agp_pageops_scheme \<Rightarrow> int \<Rightarrow> nat \<Rightarrow> nat \<Rightarrow> agp_softc \<Rightarrow> agp_softc" where
  "unbind_list po offset k 0 sc = sc"
| "unbind_list po offset k (Suc n) sc =
     unbind_list po offset (k + 4096) n (snd (unbind_page po sc (offset + int k)))"

lemma unbind_range_list: "unbind_range po offset (k + 4096 * n) k sc = unbind_list po offset k n sc"
proof (induction n arbitrary: k sc)
  case 0
  then show ?case by (subst unbind_range.simps) simp
next
  case (Suc n)
  show ?case
    using Suc.IH[of "k + 4096"] by (subst unbind_range.simps) (simp add: AGP_PAGE_SIZE_def add.assoc)
qed

section \<open>The table\<close>

text \<open>A table of the size it says it has, small enough for its size in bytes to fit a word.\<close>

definition gatt_ok :: "agp_softc \<Rightarrow> bool" where
  "gatt_ok sc \<longleftrightarrow>
     (case as_chipc sc of
        None \<Rightarrow> False
      | Some c \<Rightarrow> length (ag_virtual (gatt c)) = unat (ag_entries (gatt c)) \<and> ag_entries (gatt c) < 2 ^ 20)"

definition pte :: "agp_softc \<Rightarrow> nat \<Rightarrow> u32" where
  "pte sc n = ag_virtual (gatt (chipc sc)) ! n"

definition gatt_len :: "agp_softc \<Rightarrow> nat" where
  "gatt_len sc = length (ag_virtual (gatt (chipc sc)))"

lemma gatt_bytes_len: "gatt_ok sc \<Longrightarrow> gatt_bytes sc = int (4096 * gatt_len sc)"
proof -
  assume ok: "gatt_ok sc"
  let ?e = "ag_entries (gatt (chipc sc))"
  have lt: "uint ?e < 2 ^ 20" and len: "gatt_len sc = unat ?e"
    using ok by (auto simp: gatt_ok_def chipc_def gatt_len_def word_less_def split: option.splits)
  have "uint (push_bit 12 ?e) = uint ?e * 4096 mod 2 ^ 32"
    by (simp add: push_bit_eq_mult uint_word_ariths)
  also have "\<dots> = uint ?e * 4096" using lt by (intro mod_pos_pos_trivial) auto
  finally show ?thesis by (simp add: gatt_bytes_def AGP_PAGE_SHIFT_def len)
qed

lemma set_pte_frame [simp]:
  "as_capoff (set_pte n v sc) = as_capoff sc" "as_apaddr (set_pte n v sc) = as_apaddr sc"
  "as_memory (set_pte n v sc) = as_memory sc" "as_live (set_pte n v sc) = as_live sc"
  "as_mtx (set_pte n v sc) = as_mtx sc" "as_allocated (set_pte n v sc) = as_allocated sc"
  "as_nextid (set_pte n v sc) = as_nextid sc" "as_conf (set_pte n v sc) = as_conf sc"
  "as_tag (set_pte n v sc) = as_tag sc" "as_state (set_pte n v sc) = as_state sc"
  by (simp_all add: set_pte_def)

lemma gatt_ok_set_pte [simp]: "gatt_ok (set_pte n v sc) = gatt_ok sc"
  by (auto simp: gatt_ok_def set_pte_def split: option.splits)

lemma gatt_len_set_pte: "gatt_ok sc \<Longrightarrow> gatt_len (set_pte n v sc) = gatt_len sc"
  by (auto simp: gatt_ok_def set_pte_def gatt_len_def chipc_def split: option.splits)

lemma pte_set_pte:
  "gatt_ok sc \<Longrightarrow> n < gatt_len sc \<Longrightarrow> pte (set_pte n v sc) i = (if i = n then v else pte sc i)"
  by (auto simp: gatt_ok_def set_pte_def pte_def gatt_len_def chipc_def split: option.splits)

lemma set_pte_same: "gatt_ok sc \<Longrightarrow> pte sc n = v \<Longrightarrow> set_pte n v sc = sc"
  by (auto simp: gatt_ok_def set_pte_def pte_def chipc_def split: option.splits)

fun set_ptes :: "nat \<Rightarrow> u32 list \<Rightarrow> agp_softc \<Rightarrow> agp_softc" where
  "set_ptes n [] sc = sc"
| "set_ptes n (v # vs) sc = set_ptes (Suc n) vs (set_pte n v sc)"

lemma set_ptes_frame [simp]:
  "as_capoff (set_ptes n vs sc) = as_capoff sc" "as_apaddr (set_ptes n vs sc) = as_apaddr sc"
  "as_memory (set_ptes n vs sc) = as_memory sc" "as_live (set_ptes n vs sc) = as_live sc"
  "as_mtx (set_ptes n vs sc) = as_mtx sc" "as_allocated (set_ptes n vs sc) = as_allocated sc"
  "as_nextid (set_ptes n vs sc) = as_nextid sc" "as_conf (set_ptes n vs sc) = as_conf sc"
  "as_tag (set_ptes n vs sc) = as_tag sc" "as_state (set_ptes n vs sc) = as_state sc"
  by (induction n vs sc rule: set_ptes.induct) simp_all

lemma gatt_ok_set_ptes [simp]: "gatt_ok (set_ptes n vs sc) = gatt_ok sc"
  by (induction n vs sc rule: set_ptes.induct) simp_all

lemma gatt_len_set_ptes: "gatt_ok sc \<Longrightarrow> gatt_len (set_ptes n vs sc) = gatt_len sc"
  by (induction n vs sc rule: set_ptes.induct) (simp_all add: gatt_len_set_pte)

lemma pte_set_ptes:
  "gatt_ok sc \<Longrightarrow> n + length vs \<le> gatt_len sc \<Longrightarrow>
   pte (set_ptes n vs sc) i = (if n \<le> i \<and> i < n + length vs then vs ! (i - n) else pte sc i)"
proof (induction n vs sc rule: set_ptes.induct)
  case (2 n v vs sc)
  have len: "gatt_len (set_pte n v sc) = gatt_len sc" by (rule gatt_len_set_pte[OF 2(2)])
  have IH: "pte (set_ptes (Suc n) vs (set_pte n v sc)) i =
      (if Suc n \<le> i \<and> i < Suc n + length vs then vs ! (i - Suc n) else pte (set_pte n v sc) i)"
    by (rule 2(1)) (use 2(2,3) len in simp_all)
  have pte: "pte (set_pte n v sc) i = (if i = n then v else pte sc i)"
    by (rule pte_set_pte) (use 2(2,3) in simp_all)
  show ?case
  proof (cases "Suc n \<le> i")
    case True
    then have "i - n = Suc (i - Suc n)" by simp
    then show ?thesis using IH pte True by simp
  next
    case False
    then show ?thesis using IH pte by simp
  qed
qed auto

text \<open>Clearing entries that are already clear changes nothing, and clearing undoes writes to clear entries.\<close>

lemma set_ptes_same:
  "gatt_ok sc \<Longrightarrow> (\<forall>i<length vs. pte sc (n + i) = vs ! i) \<Longrightarrow> set_ptes n vs sc = sc"
proof (induction n vs sc rule: set_ptes.induct)
  case (2 n v vs sc)
  have "pte sc n = v" using 2(3) by fastforce
  then have same: "set_pte n v sc = sc" by (rule set_pte_same[OF 2(2)])
  have "\<forall>i<length vs. pte sc (Suc n + i) = vs ! i" using 2(3) by fastforce
  then show ?case using 2(1,2) same by simp
qed simp

lemma set_pte_twice: "set_pte n w (set_pte n v sc) = set_pte n w sc"
  by (cases "as_chipc sc") (simp_all add: set_pte_def)

lemma set_pte_commute: "n \<noteq> m \<Longrightarrow> set_pte n w (set_pte m v sc) = set_pte m v (set_pte n w sc)"
  by (cases "as_chipc sc") (simp_all add: set_pte_def list_update_swap)

lemma set_ptes_set_pte_commute: "n < m \<Longrightarrow> set_ptes m ws (set_pte n v sc) = set_pte n v (set_ptes m ws sc)"
  by (induction m ws sc arbitrary: rule: set_ptes.induct) (simp_all add: set_pte_commute)

lemma set_ptes_twice: "length vs = length ws \<Longrightarrow> set_ptes n ws (set_ptes n vs sc) = set_ptes n ws sc"
proof (induction vs arbitrary: n ws sc)
  case (Cons v vs)
  then obtain w ws' where ws: "ws = w # ws'" "length vs = length ws'" by (cases ws) auto
  show ?case
    using Cons.IH[OF ws(2)] by (simp add: ws(1) set_ptes_set_pte_commute[symmetric] set_pte_twice)
qed simp

end
