(* ===== verification/Agp_Bind.thy ===== *)
theory Agp_Bind
  imports Agp_Gart
begin

text \<open>
  The contract between the generic AGP code and a chipset driver, the effect of the page loops under
  that contract, and its interpretation on the six drivers.
\<close>

section \<open>The contract of the page operations\<close>

text \<open>
  A page of the table gets the translation \<open>enc\<close> of its bus address; an offset outside the table is
  refused and leaves everything as it was; the cache flush touches only configuration registers.
\<close>

locale gart =
  fixes po :: agp_pageops
    and enc :: "u64 \<Rightarrow> u32"
  assumes bind_in: "0 \<le> off \<Longrightarrow> off < gatt_bytes sc \<Longrightarrow>
      bind_page po sc off pa = (E_OK, set_pte (nat (off div 4096)) (enc pa) sc)"
    and bind_out: "off < 0 \<or> gatt_bytes sc \<le> off \<Longrightarrow> bind_page po sc off pa = (EINVAL, sc)"
    and unbind_in: "0 \<le> off \<Longrightarrow> off < gatt_bytes sc \<Longrightarrow>
      unbind_page po sc off = (E_OK, set_pte (nat (off div 4096)) 0 sc)"
    and unbind_out: "off < 0 \<or> gatt_bytes sc \<le> off \<Longrightarrow> unbind_page po sc off = (EINVAL, sc)"
    and flush_conf: "\<exists>c. flush_tlb po sc = sc\<lparr>as_conf := c\<rparr>"
begin

lemma bind_list_fits:
  assumes "gatt_ok sc" "n + k + length pas \<le> gatt_len sc"
  shows "bind_list po (4096 * int n) (4096 * k) pas sc = (None, set_ptes (n + k) (map enc pas) sc)"
  using assms
proof (induction pas arbitrary: k sc)
  case (Cons pa pas)
  have off: "4096 * int n + int (4096 * k) = 4096 * int (n + k)" by simp
  have b: "bind_page po sc (4096 * int (n + k)) pa = (E_OK, set_pte (n + k) (enc pa) sc)"
    using bind_in[of "4096 * int (n + k)" sc pa] gatt_bytes_len[OF Cons.prems(1)] Cons.prems(2)
    by (simp add: nat_add_distrib)
  have next_k: "4096 * k + 4096 = 4096 * Suc k" by simp
  have "bind_list po (4096 * int n) (4096 * Suc k) pas (set_pte (n + k) (enc pa) sc) =
      (None, set_ptes (n + Suc k) (map enc pas) (set_pte (n + k) (enc pa) sc))"
    by (rule Cons.IH) (use Cons.prems in \<open>simp_all add: gatt_len_set_pte\<close>)
  then show ?case by (simp only: bind_list.simps off b next_k) (simp add: Let_def)
qed simp

text \<open>When the table is too short the first page outside is refused, after the entries before it.\<close>

lemma bind_list_short:
  assumes "gatt_ok sc" "n + k \<le> gatt_len sc" "gatt_len sc < n + k + length pas"
  shows "bind_list po (4096 * int n) (4096 * k) pas sc =
    (Some (EINVAL, 4096 * (gatt_len sc - n)),
     set_ptes (n + k) (map enc (take (gatt_len sc - (n + k)) pas)) sc)"
  using assms
proof (induction pas arbitrary: k sc)
  case (Cons pa pas)
  have off: "4096 * int n + int (4096 * k) = 4096 * int (n + k)" by simp
  note bytes = gatt_bytes_len[OF Cons.prems(1)]
  show ?case
  proof (cases "n + k < gatt_len sc")
    case True
    have b: "bind_page po sc (4096 * int (n + k)) pa = (E_OK, set_pte (n + k) (enc pa) sc)"
      using bind_in[of "4096 * int (n + k)" sc pa] bytes True by (simp add: nat_add_distrib)
    have next_k: "4096 * k + 4096 = 4096 * Suc k" by simp
    have len: "gatt_len (set_pte (n + k) (enc pa) sc) = gatt_len sc"
      by (rule gatt_len_set_pte[OF Cons.prems(1)])
    have IH: "bind_list po (4096 * int n) (4096 * Suc k) pas (set_pte (n + k) (enc pa) sc) =
        (Some (EINVAL, 4096 * (gatt_len sc - n)),
         set_ptes (n + Suc k) (map enc (take (gatt_len sc - (n + Suc k)) pas)) (set_pte (n + k) (enc pa) sc))"
      by (rule Cons.IH[where k = "Suc k" and sc = "set_pte (n + k) (enc pa) sc", unfolded len])
        (use Cons.prems True in simp_all)
    obtain t where t: "gatt_len sc - (n + k) = Suc t" using True by (metis Suc_diff_Suc)
    then have t': "gatt_len sc - (n + Suc k) = t" by simp
    have tk: "take (gatt_len sc - (n + k)) (pa # pas) = pa # take (gatt_len sc - (n + Suc k)) pas"
      unfolding t t' by simp
    show ?thesis unfolding tk
      by (simp only: bind_list.simps off b Let_def prod.case next_k IH simp_thms if_False) simp
  next
    case False
    then have eq: "n + k = gatt_len sc" using Cons.prems(2) by simp
    have b: "bind_page po sc (4096 * int (n + k)) pa = (EINVAL, sc)"
      using bind_out[of "4096 * int (n + k)" sc pa] bytes eq by simp
    show ?thesis by (simp only: bind_list.simps off b) (simp add: Let_def eq[symmetric])
  qed
qed simp

lemma unbind_list_fits:
  assumes "gatt_ok sc" "n + k + m \<le> gatt_len sc"
  shows "unbind_list po (4096 * int n) (4096 * k) m sc = set_ptes (n + k) (replicate m 0) sc"
  using assms
proof (induction m arbitrary: k sc)
  case (Suc m)
  have off: "4096 * int n + int (4096 * k) = 4096 * int (n + k)" by simp
  have b: "unbind_page po sc (4096 * int (n + k)) = (E_OK, set_pte (n + k) 0 sc)"
    using unbind_in[of "4096 * int (n + k)" sc] gatt_bytes_len[OF Suc.prems(1)] Suc.prems(2)
    by (simp add: nat_add_distrib)
  have next_k: "4096 * k + 4096 = 4096 * Suc k" by simp
  have "unbind_list po (4096 * int n) (4096 * Suc k) m (set_pte (n + k) 0 sc) =
      set_ptes (n + Suc k) (replicate m 0) (set_pte (n + k) 0 sc)"
    by (rule Suc.IH) (use Suc.prems in \<open>simp_all add: gatt_len_set_pte\<close>)
  then show ?case by (simp only: unbind_list.simps off b next_k) simp
qed simp

lemma unbind_range_fits:
  assumes "gatt_ok sc" "n + m \<le> gatt_len sc"
  shows "unbind_range po (4096 * int n) (4096 * m) 0 sc = set_ptes n (replicate m 0) sc"
  using unbind_range_list[of po "4096 * int n" 0 m sc] unbind_list_fits[of sc n 0 m] assms by simp

text \<open>Binding a block whose backing store is \<open>segs\<close>: all of it, or nothing.\<close>

lemma bind_segs_fits:
  assumes "gatt_ok sc" "whole_pages segs" "m \<le> length (segs_pages segs)" "n + m \<le> gatt_len sc"
  shows "bind_segs po (4096 * int n) (4096 * m) segs 0 sc =
    (None, set_ptes n (map enc (take m (segs_pages segs))) sc)"
  using bind_segs_list[OF assms(2), of "4096 * m" 0 po "4096 * int n" sc]
    bind_list_fits[OF assms(1), of n 0 "take m (segs_pages segs)"] assms(3,4)
  by simp

lemma bind_segs_rollback:
  assumes "gatt_ok sc" "whole_pages segs" "m \<le> length (segs_pages segs)" "n \<le> gatt_len sc"
    and short: "gatt_len sc < n + m"
    and clear: "\<forall>i. n \<le> i \<and> i < gatt_len sc \<longrightarrow> pte sc i = 0"
  shows "\<exists>j s. bind_segs po (4096 * int n) (4096 * m) segs 0 sc = (Some (EINVAL, j), s)
      \<and> as_live s = as_live sc \<and> gatt_ok s \<and> as_memory s = as_memory sc \<and> as_mtx s = as_mtx sc
      \<and> unbind_range po (4096 * int n) j 0 s = sc"
proof -
  let ?l = "gatt_len sc - n"
  let ?vs = "map enc (take ?l (take m (segs_pages segs)))"
  let ?s = "set_ptes n ?vs sc"
  have len: "length ?vs = ?l" using assms(3) short by simp
  have "bind_segs po (4096 * int n) (4096 * m) segs 0 sc = (Some (EINVAL, 4096 * ?l), ?s)"
    using bind_segs_list[OF assms(2), of "4096 * m" 0 po "4096 * int n" sc]
      bind_list_short[OF assms(1), of n 0 "take m (segs_pages segs)"] assms(3,4) short
    by simp
  moreover have "unbind_range po (4096 * int n) (4096 * ?l) 0 ?s = sc"
  proof -
    have "unbind_range po (4096 * int n) (4096 * ?l) 0 ?s = set_ptes n (replicate ?l 0) ?s"
      by (rule unbind_range_fits) (use assms(1,4) gatt_len_set_ptes[OF assms(1)] in simp_all)
    also have "\<dots> = set_ptes n (replicate ?l 0) sc" by (rule set_ptes_twice) (use len in simp)
    also have "\<dots> = sc" by (rule set_ptes_same[OF assms(1)]) (use clear in simp)
    finally show ?thesis .
  qed
  ultimately show ?thesis using assms(1) by (intro exI[of _ "4096 * ?l"] exI[of _ ?s]) simp
qed

lemma flush_frame:
  "as_live (flush_tlb po sc) = as_live sc" "as_memory (flush_tlb po sc) = as_memory sc"
  "as_mtx (flush_tlb po sc) = as_mtx sc" "pte (flush_tlb po sc) i = pte sc i"
  "gatt_ok (flush_tlb po sc) = gatt_ok sc" "gatt_len (flush_tlb po sc) = gatt_len sc"
  "as_allocated (flush_tlb po sc) = as_allocated sc" "as_nextid (flush_tlb po sc) = as_nextid sc"
  using flush_conf[of sc] by (auto simp: pte_def chipc_def gatt_ok_def gatt_len_def)

end

section \<open>The drivers meet the contract\<close>

definition chip_pte :: "agp_driver \<Rightarrow> u64 \<Rightarrow> u32" where
  "chip_pte drv pa =
     (case drv of
        DRV_INTEL \<Rightarrow> ucast (pa OR 0x17) | DRV_SIS \<Rightarrow> ucast pa | DRV_ALI \<Rightarrow> ucast pa | DRV_VIA \<Rightarrow> ucast pa
      | DRV_AMD \<Rightarrow> ucast (pa OR 1) | DRV_AMD64 \<Rightarrow> amd64_pte pa)"

lemmas bind_page_defs =
  agp_intel_bind_page_def agp_sis_bind_page_def agp_ali_bind_page_def agp_via_bind_page_def
  agp_amd_bind_page_def agp_amd64_bind_page_def

lemmas unbind_page_defs =
  agp_intel_unbind_page_def agp_sis_unbind_page_def agp_ali_unbind_page_def agp_via_unbind_page_def
  agp_amd_unbind_page_def agp_amd64_unbind_page_def

lemma pci_conf_write_conf: "\<exists>c. pci_conf_write cw sc t r v = sc\<lparr>as_conf := c\<rparr>"
  by (auto simp: pci_conf_write_def)

lemma pci_conf_write_twice: "\<exists>c. pci_conf_write cw (pci_conf_write cw sc t r v) t' r' v' = sc\<lparr>as_conf := c\<rparr>"
  by (auto simp: pci_conf_write_def)

lemma amd64_flush_units_conf: "\<exists>c. amd64_flush_units cw ts sc = sc\<lparr>as_conf := c\<rparr>"
proof (induction ts arbitrary: sc)
  case Nil
  show ?case by (intro exI[of _ "as_conf sc"]) simp
next
  case (Cons t ts)
  obtain c where
    "amd64_flush_units cw ts (pci_conf_write cw sc t AGP_AMD64_CACHECTRL
       (pci_conf_read sc t AGP_AMD64_CACHECTRL OR AGP_AMD64_CACHECTRL_INVGART)) =
     pci_conf_write cw sc t AGP_AMD64_CACHECTRL
       (pci_conf_read sc t AGP_AMD64_CACHECTRL OR AGP_AMD64_CACHECTRL_INVGART)\<lparr>as_conf := c\<rparr>"
    using Cons.IH by blast
  then show ?case by (auto simp: pci_conf_write_def)
qed

lemma chip_flush_conf: "\<exists>c. flush_tlb (chip_ops pv cw en drv) sc = sc\<lparr>as_conf := c\<rparr>"
proof (cases drv)
  case DRV_AMD
  show ?thesis by (intro exI[of _ "as_conf sc"]) (simp add: chip_ops_def DRV_AMD)
qed (auto simp: chip_ops_def agp_intel_flush_tlb_def agp_sis_flush_tlb_def agp_ali_flush_tlb_def
    agp_via_flush_tlb_def agp_amd64_flush_tlb_def Let_def
    intro: pci_conf_write_conf pci_conf_write_twice amd64_flush_units_conf)

interpretation chip: gart "chip_ops pv cw en drv" "chip_pte drv" for pv cw en drv
  by unfold_locales
    (auto simp: chip_ops_def chip_pte_def bind_page_defs unbind_page_defs AGP_PAGE_SHIFT_def
      chip_flush_conf[unfolded chip_ops_def] split: agp_driver.split)

end
