(* ===== verification/Agp_Inv.thy ===== *)
theory Agp_Inv
  imports Agp_Bind
begin

text \<open>
  The invariant of the AGP softc: the keys of the blocks, the amount allocated, and the resources
  owned, exactly those of the blocks. Every generic operation keeps it, on any chipset driver that
  meets the contract \<open>gart\<close>.
\<close>

section \<open>The invariant\<close>

definition seg_res :: "dma_seg list \<Rightarrow> u64 \<Rightarrow> u64 \<Rightarrow> dma_seg list \<Rightarrow> dma_live" where
  "seg_res segs kva sz loaded = {#R_mem K_AGPSEGS, R_segs segs, R_kva kva sz, R_load loaded#}"

text \<open>What a block owns: more once it is bound.\<close>

definition mem_res :: "agp_memory \<Rightarrow> dma_live" where
  "mem_res m =
     {#R_mem K_AGPMEM, R_map#}
     + (if am_is_bound m \<noteq> 0 then seg_res (am_dmaseg m) (am_virtual m) (am_size m) (am_dmamap m) else {#})"

definition mems_inv :: "agp_memory list \<Rightarrow> int \<Rightarrow> u32 \<Rightarrow> dma_live \<Rightarrow> bool" where
  "mems_inv ms nextid allocated liv \<longleftrightarrow>
     distinct (map am_id ms) \<and> (\<forall>m\<in>set ms. am_id m < nextid \<and> unat (am_size m) mod 4096 = 0)
     \<and> allocated = sum_list (map (\<lambda>m. ucast (am_size m)) ms)
     \<and> liv = sum_list (map mem_res ms)"

definition agp_inv :: "agp_softc \<Rightarrow> bool" where
  "agp_inv sc \<longleftrightarrow>
     mems_inv (as_memory sc) (as_nextid sc) (as_allocated sc) (as_live sc) \<and> \<not> as_mtx sc"

lemma find_split:
  assumes "distinct (map am_id ms)" "find (\<lambda>m. am_id m = i) ms = Some mem"
  obtains xs ys where "ms = xs @ mem # ys" "am_id mem = i" "\<forall>m\<in>set xs \<union> set ys. am_id m \<noteq> i"
proof -
  have mem: "mem \<in> set ms" "am_id mem = i" using assms(2) by (auto simp: find_Some_iff)
  obtain xs ys where ms: "ms = xs @ mem # ys" using split_list[OF mem(1)] by blast
  have "\<forall>m\<in>set xs \<union> set ys. am_id m \<noteq> i" using assms(1) ms mem(2) by (force simp: image_iff)
  then show ?thesis using that ms mem(2) by blast
qed

lemma map_upd_split:
  assumes "\<forall>m\<in>set xs \<union> set ys. am_id m \<noteq> i" "am_id mem = i"
  shows "map (\<lambda>m. if am_id m = i then f m else m) (xs @ mem # ys) = xs @ f mem # ys"
  using assms by (auto intro!: map_idI)

lemma filter_split:
  assumes "\<forall>m\<in>set xs \<union> set ys. am_id m \<noteq> i" "am_id mem = i"
  shows "filter (\<lambda>m. am_id m \<noteq> i) (xs @ mem # ys) = xs @ ys"
  using assms by (auto simp: filter_id_conv)

lemma mems_inv_upd:
  assumes inv: "mems_inv ms nid al liv" and find: "find (\<lambda>m. am_id m = i) ms = Some mem"
    and f: "am_id (f mem) = am_id mem" "am_size (f mem) = am_size mem"
    and res: "mem_res (f mem) = mem_res mem + r"
  shows "mems_inv (map (\<lambda>m. if am_id m = i then f m else m) ms) nid al (liv + r)"
proof -
  obtain xs ys where s: "ms = xs @ mem # ys" "am_id mem = i" "\<forall>m\<in>set xs \<union> set ys. am_id m \<noteq> i"
    by (rule find_split[OF _ find]) (use inv in \<open>auto simp: mems_inv_def\<close>)
  have upd: "map (\<lambda>m. if am_id m = i then f m else m) ms = xs @ f mem # ys"
    unfolding s(1) by (rule map_upd_split) (use s in auto)
  show ?thesis
    unfolding upd using inv f res by (auto simp: mems_inv_def s(1) ac_simps)
qed

lemma mems_inv_unbind:
  assumes inv: "mems_inv ms nid al liv" and find: "find (\<lambda>m. am_id m = i) ms = Some mem"
    and f: "am_id (f mem) = am_id mem" "am_size (f mem) = am_size mem"
    and res: "mem_res mem = mem_res (f mem) + r"
  shows "mems_inv (map (\<lambda>m. if am_id m = i then f m else m) ms) nid al (liv - r)"
proof -
  obtain xs ys where s: "ms = xs @ mem # ys" "am_id mem = i" "\<forall>m\<in>set xs \<union> set ys. am_id m \<noteq> i"
    by (rule find_split[OF _ find]) (use inv in \<open>auto simp: mems_inv_def\<close>)
  have upd: "map (\<lambda>m. if am_id m = i then f m else m) ms = xs @ f mem # ys"
    unfolding s(1) by (rule map_upd_split) (use s in auto)
  have "liv = sum_list (map mem_res (xs @ f mem # ys)) + r"
    using inv res by (simp add: mems_inv_def s(1) ac_simps)
  then show ?thesis
    unfolding upd using inv f by (auto simp: mems_inv_def s(1) ac_simps)
qed

lemma mems_inv_remove:
  assumes inv: "mems_inv ms nid al liv" and find: "find (\<lambda>m. am_id m = i) ms = Some mem"
  shows "mems_inv (filter (\<lambda>m. am_id m \<noteq> i) ms) nid (al - ucast (am_size mem)) (liv - mem_res mem)"
proof -
  obtain xs ys where s: "ms = xs @ mem # ys" "am_id mem = i" "\<forall>m\<in>set xs \<union> set ys. am_id m \<noteq> i"
    by (rule find_split[OF _ find]) (use inv in \<open>auto simp: mems_inv_def\<close>)
  have rem: "filter (\<lambda>m. am_id m \<noteq> i) ms = xs @ ys"
    unfolding s(1) by (rule filter_split) (use s in auto)
  have "liv = sum_list (map mem_res (xs @ ys)) + mem_res mem"
    using inv by (simp add: mems_inv_def s(1) ac_simps)
  then show ?thesis
    unfolding rem using inv by (auto simp: mems_inv_def s(1) ac_simps)
qed

lemma and_page_mask: "(w :: u64) AND 4095 = 0 \<longleftrightarrow> unat w mod 4096 = 0"
proof -
  have "w AND 4095 = take_bit 12 w" by (simp add: take_bit_eq_mask mask_eq_exp_minus_1)
  moreover have "unat (take_bit 12 w) = unat w mod 4096"
    by (simp add: take_bit_eq_mod unat_mod)
  ultimately show ?thesis by (metis unat_eq_zero)
qed

lemma mems_inv_snoc:
  assumes "mems_inv ms nid al liv" "am_id m = nid" "unat (am_size m) mod 4096 = 0"
    and "al' = al + ucast (am_size m)" "liv' = liv + mem_res m"
  shows "mems_inv (ms @ [m]) (nid + 1) al' liv'"
  using assms by (fastforce simp: mems_inv_def ac_simps)

section \<open>Allocation and release\<close>

lemma alloc_memory_inv:
  assumes "agp_inv sc" "agp_generic_alloc_memory bd raw sc ty sz = (r, sc')"
  shows "agp_inv sc'"
proof (cases r)
  case None
  then show ?thesis
    using assms by (auto simp: agp_generic_alloc_memory_def Let_def agp_inv_def split: if_splits)
next
  case (Some i)
  have sz: "sz AND 4095 = 0"
    using assms(2) Some by (auto simp: agp_generic_alloc_memory_def AGP_PAGE_SIZE_def split: if_splits)
  then have "unat sz mod 4096 = 0" by (simp only: and_page_mask)
  then show ?thesis
    using assms Some
    by (auto simp: agp_generic_alloc_memory_def Let_def agp_inv_def mem_res_def split: if_splits
        intro!: mems_inv_snoc)
qed

lemma free_memory_inv:
  assumes "agp_inv sc" "agp_generic_free_memory sc i = Ret (e, sc')"
  shows "agp_inv sc'"
proof -
  obtain mem where find: "agp_find_memory sc i = Some mem"
    using assms(2) by (auto simp: agp_generic_free_memory_def split: option.splits)
  show ?thesis
  proof (cases "am_is_bound mem = 0")
    case True
    have sc': "sc' = sc\<lparr>as_allocated := as_allocated sc - ucast (am_size mem),
        as_memory := filter (\<lambda>m. am_id m \<noteq> i) (as_memory sc), as_live := as_live sc - mem_res mem\<rparr>"
      using assms(2) find True by (simp add: agp_generic_free_memory_def mem_res_def)
    show ?thesis
      using mems_inv_remove[of "as_memory sc", OF _ find[unfolded agp_find_memory_def]] assms(1)
      by (simp add: agp_inv_def sc')
  next
    case False
    then show ?thesis using assms find by (simp add: agp_generic_free_memory_def)
  qed
qed

section \<open>What the page loops leave alone\<close>

text \<open>The softc without its table and its configuration registers.\<close>

definition core :: "agp_softc \<Rightarrow> agp_softc" where
  "core sc = sc\<lparr>as_chipc := None, as_conf := \<lambda>_. 0\<rparr>"

lemma core_sel:
  assumes "core s = core sc"
  shows "as_memory s = as_memory sc" "as_live s = as_live sc" "as_mtx s = as_mtx sc"
    "as_allocated s = as_allocated sc" "as_nextid s = as_nextid sc" "as_state s = as_state sc"
    "as_isopen s = as_isopen sc"
  using assms by (cases s; cases sc; simp add: core_def)+

lemma core_set_pte [simp]: "core (set_pte n v sc) = core sc"
  by (simp add: core_def set_pte_def)

lemma core_inv: "core s = core sc \<Longrightarrow> agp_inv s = agp_inv sc"
  using core_sel[of s sc] by (simp add: agp_inv_def)

lemma bind_seg_core:
  assumes "\<And>sc off pa. core (snd (bind_page po sc off pa)) = core sc"
  shows "core (snd (bind_seg po offset sz pa len dn j sc)) = core sc"
  using assms
proof (induction po offset sz pa len dn j sc rule: bind_seg.induct)
  case (1 po offset sz pa len dn j sc)
  obtain e s where b: "bind_page po sc (offset + int (dn + j)) (pa + of_nat j) = (e, s)" by fastforce
  have cs: "core s = core sc" using 1(2)[of sc "offset + int (dn + j)" "pa + of_nat j"] unfolding b by simp
  show ?case
  proof (cases "j < len \<and> dn + j < sz \<and> e = E_OK")
    case True
    then have "core (snd (bind_seg po offset sz pa len dn (j + AGP_PAGE_SIZE) s)) = core s"
      by (intro 1(1)[OF _ b[symmetric] refl]) (use 1(2) in auto)
    then show ?thesis using cs True b by (subst bind_seg.simps) (simp add: Let_def)
  next
    case False
    then show ?thesis using cs b by (subst bind_seg.simps) (auto simp: Let_def)
  qed
qed

lemma bind_segs_core:
  assumes page: "\<And>sc off pa. core (snd (bind_page po sc off pa)) = core sc"
  shows "core (snd (bind_segs po offset sz segs dn sc)) = core sc"
proof (induction segs arbitrary: dn sc)
  case (Cons s segs)
  obtain pa l where s: "s = (pa, l)" by (cases s)
  show ?case
    using bind_seg_core[OF page, of offset sz pa "unat l" dn 0 sc] Cons.IH
    by (auto simp: s split: prod.splits option.splits)
qed simp

lemma unbind_range_core:
  assumes page: "\<And>sc off. core (snd (unbind_page po sc off)) = core sc"
  shows "core (unbind_range po offset n k sc) = core sc"
  using assms
proof (induction po offset n k sc rule: unbind_range.induct)
  case (1 po offset n k sc)
  then show ?case by (subst unbind_range.simps) simp
qed

text \<open>One block changed by \<open>f\<close> and the resources replaced; the rest of the softc as it was.\<close>

definition step_mem :: "int \<Rightarrow> (agp_memory \<Rightarrow> agp_memory) \<Rightarrow> dma_live \<Rightarrow> agp_softc \<Rightarrow> agp_softc \<Rightarrow> bool" where
  "step_mem i f l sc sc' \<longleftrightarrow>
     as_memory sc' = map (\<lambda>m. if am_id m = i then f m else m) (as_memory sc) \<and> as_live sc' = l
     \<and> as_mtx sc' = as_mtx sc \<and> as_allocated sc' = as_allocated sc \<and> as_nextid sc' = as_nextid sc
     \<and> as_state sc' = as_state sc \<and> as_isopen sc' = as_isopen sc"

lemma step_mem_id: "step_mem i (\<lambda>m. m) (as_live sc) sc sc"
  by (simp add: step_mem_def)

lemma upd_mem_sel [simp]:
  "as_memory (upd_mem i f sc) = map (\<lambda>m. if am_id m = i then f m else m) (as_memory sc)"
  "as_live (upd_mem i f sc) = as_live sc" "as_mtx (upd_mem i f sc) = as_mtx sc"
  "as_allocated (upd_mem i f sc) = as_allocated sc" "as_nextid (upd_mem i f sc) = as_nextid sc"
  "as_state (upd_mem i f sc) = as_state sc" "as_isopen (upd_mem i f sc) = as_isopen sc"
  by (simp_all add: upd_mem_def)

lemma bind_chunks_error: "bind_chunks bd sz n l = (Inl e, l') \<Longrightarrow> l' = l \<and> e = ENOMEM"
proof (induction n arbitrary: l rule: less_induct)
  case (less n)
  have half: "0 < n \<Longrightarrow> bind_chunks bd sz (n div 2) l1 = (Inl e, l') \<Longrightarrow> l' = l1 \<and> e = ENOMEM" for l1
    by (rule less.IH) simp_all
  show ?case
    using less.prems
    by (subst (asm) bind_chunks.simps) (auto simp: Let_def split: if_splits sum.splits dest: half[rotated])
qed

lemma bind_chunks_ok:
  "bind_chunks bd sz n l = (Inr (segs, kva, loaded), l') \<Longrightarrow>
   l' = l + seg_res segs kva sz loaded \<and> (\<exists>l1. bd_load bd l1 kva sz = Inr loaded)"
proof (induction n arbitrary: l rule: less_induct)
  case (less n)
  have half: "0 < n \<Longrightarrow> bind_chunks bd sz (n div 2) l1 = (Inr (segs, kva, loaded), l') \<Longrightarrow>
      l' = l1 + seg_res segs kva sz loaded \<and> (\<exists>l1. bd_load bd l1 kva sz = Inr loaded)" for l1
    by (rule less.IH) simp_all
  show ?case
    using less.prems
    by (subst (asm) bind_chunks.simps) (auto simp: Let_def seg_res_def split: if_splits sum.splits dest: half[rotated])
qed

context gart
begin

lemma core_bind_page: "core (snd (bind_page po sc off pa)) = core sc"
  using bind_in[of off sc pa] bind_out[of off sc pa] by (cases "0 \<le> off \<and> off < gatt_bytes sc") auto

lemma core_unbind_page: "core (snd (unbind_page po sc off)) = core sc"
  using unbind_in[of off sc] unbind_out[of off sc] by (cases "0 \<le> off \<and> off < gatt_bytes sc") auto

lemma core_flush: "core (flush_tlb po sc) = core sc"
  using flush_conf[of sc] by (auto simp: core_def)

lemma core_bind_segs: "core (snd (bind_segs po offset sz segs dn sc)) = core sc"
  by (rule bind_segs_core) (rule core_bind_page)

lemma core_unbind_range: "core (unbind_range po offset n k sc) = core sc"
  by (rule unbind_range_core) (rule core_unbind_page)

text \<open>Every way a bind can end: the block, the resources and the lock.\<close>

lemma bind_memory_core:
  assumes "\<not> as_mtx sc" "agp_find_memory sc i = Some mem"
  obtains e sc' f r where "agp_generic_bind_memory bd po sc i off = Ret (e, sc')"
    "step_mem i f (as_live sc + r) sc sc'"
    "am_id (f mem) = am_id mem" "am_size (f mem) = am_size mem" "mem_res (f mem) = mem_res mem + r"
    "am_mapref (f mem) = am_mapref mem"
    "e \<noteq> E_OK \<longrightarrow> r = {#} \<and> am_is_bound (f mem) = am_is_bound mem \<and> am_offset (f mem) = am_offset mem"
    "e = E_OK \<longrightarrow> am_is_bound mem = 0 \<and> am_is_bound (f mem) \<noteq> 0 \<and> am_offset (f mem) = off \<and>
       0 \<le> off \<and> off mod int AGP_PAGE_SIZE = 0"
proof -
  let ?sc = "sc\<lparr>as_mtx := True\<rparr>"
  have same: "step_mem i (\<lambda>m. m) (as_live sc + {#}) sc sc" by (simp add: step_mem_def)
  have unlock: "sc\<lparr>as_mtx := False\<rparr> = sc" using assms(1) by (cases sc) simp
  have find: "agp_find_memory ?sc i = Some mem" using assms(2) by (simp add: agp_find_memory_def)
  note mtx = mtx_enter_def mtx_exit_def
  show ?thesis
  proof (cases "am_is_bound mem \<noteq> 0 \<or> off < 0 \<or> off mod int AGP_PAGE_SIZE \<noteq> 0
      \<or> (word_of_int off :: u64) + am_size mem > ucast (get_aperture po ?sc)")
    case True
    then have "agp_generic_bind_memory bd po sc i off = Ret (EINVAL, sc)"
      using assms(1) find by (auto simp: agp_generic_bind_memory_def mtx unlock)
    then show ?thesis using that[OF _ same] by simp
  next
    case False
    obtain ch l where ch: "bind_chunks bd (am_size mem) 8 (as_live sc) = (ch, l)" by fastforce
    show ?thesis
    proof (cases ch)
      case (Inl e)
      then have l: "l = as_live sc \<and> e = ENOMEM" using bind_chunks_error[OF ch[unfolded Inl]] by simp
      have "sc\<lparr>as_mtx := False, as_live := l\<rparr> = sc" using l unlock by (cases sc) simp
      then have "agp_generic_bind_memory bd po sc i off = Ret (ENOMEM, sc)"
        using assms(1) find False ch l by (simp add: agp_generic_bind_memory_def mtx Inl)
      then show ?thesis using that[OF _ same] by simp
    next
      case (Inr b)
      obtain segs kva loaded where b: "b = (segs, kva, loaded)" by (cases b)
      let ?r = "seg_res segs kva (am_size mem) loaded"
      have l: "l = as_live sc + ?r" using bind_chunks_ok[OF ch[unfolded Inr b]] by simp
      let ?g = "\<lambda>m. m\<lparr>am_virtual := kva, am_dmaseg := segs, am_dmamap := loaded\<rparr>"
      let ?sc1 = "upd_mem i ?g (?sc\<lparr>as_live := l\<rparr>)"
      obtain o' s where bs: "bind_segs po off (unat (am_size mem)) loaded 0 ?sc1 = (o', s)" by fastforce
      have cs: "core s = core ?sc1"
        using core_bind_segs[of off "unat (am_size mem)" loaded 0 ?sc1] by (simp add: bs)
      show ?thesis
      proof (cases o')
        case None
        let ?f = "\<lambda>m. (?g m)\<lparr>am_offset := off, am_is_bound := 1\<rparr>"
        let ?sc' = "(upd_mem i (\<lambda>m. m\<lparr>am_offset := off, am_is_bound := 1\<rparr>) (flush_tlb po s))\<lparr>as_mtx := False\<rparr>"
        have cf: "core (flush_tlb po s) = core ?sc1" using core_flush[of s] cs by simp
        have "agp_generic_bind_memory bd po sc i off = Ret (E_OK, ?sc')"
          using assms(1) find False ch bs core_sel(3)[OF cf]
          by (simp add: agp_generic_bind_memory_def mtx Inr b None Let_def)
        moreover have "step_mem i ?f (as_live sc + ?r) sc ?sc'"
          using core_sel[OF cf] assms(1) by (simp add: step_mem_def l)
        moreover have "mem_res (?f mem) = mem_res mem + ?r"
          using False by (simp add: mem_res_def seg_res_def)
        ultimately show ?thesis using that[of E_OK ?sc' ?f ?r] False by simp
      next
        case (Some en)
        obtain err n where en: "en = (err, n)" by (cases en)
        have err: "err \<noteq> E_OK" using bind_segs_err[of po off "unat (am_size mem)" loaded 0 ?sc1 err n s] bs Some en by simp
        let ?f = "\<lambda>m. (?g m)\<lparr>am_dmamap := []\<rparr>"
        let ?sc3 = "unbind_range po off n 0 s"
        let ?sc4 = "upd_mem i (\<lambda>m. m\<lparr>am_dmamap := []\<rparr>)
            (?sc3\<lparr>as_live := as_live ?sc3 - {#R_load loaded#} - {#R_kva kva (am_size mem)#}
               - {#R_segs segs#} - {#R_mem K_AGPSEGS#}\<rparr>)"
        have c3: "core ?sc3 = core ?sc1" using core_unbind_range[of off n 0 s] cs by simp
        have "agp_generic_bind_memory bd po sc i off = Ret (err, ?sc4\<lparr>as_mtx := False\<rparr>)"
          using assms(1) find False ch bs core_sel(3)[OF c3]
          by (simp add: agp_generic_bind_memory_def mtx Inr b Some en Let_def)
        moreover have "step_mem i ?f (as_live sc + {#}) sc (?sc4\<lparr>as_mtx := False\<rparr>)"
          using core_sel[OF c3] assms(1) by (simp add: step_mem_def l seg_res_def)
        moreover have "mem_res (?f mem) = mem_res mem + {#}"
          using False by (simp add: mem_res_def)
        ultimately show ?thesis using that[of err "?sc4\<lparr>as_mtx := False\<rparr>" ?f "{#}"] err by simp
      qed
    qed
  qed
qed

lemma bind_memory_inv:
  assumes "agp_inv sc" "agp_generic_bind_memory bd po sc i off = Ret (e, sc')"
  shows "agp_inv sc'"
proof (cases "agp_find_memory sc i")
  case None
  then show ?thesis
    using assms by (simp add: agp_generic_bind_memory_def mtx_enter_def agp_find_memory_def agp_inv_def)
next
  case (Some mem)
  have unlocked: "\<not> as_mtx sc" using assms(1) by (simp add: agp_inv_def)
  obtain e' s f r where r: "agp_generic_bind_memory bd po sc i off = Ret (e', s)"
      "step_mem i f (as_live sc + r) sc s"
      "am_id (f mem) = am_id mem" "am_size (f mem) = am_size mem" "mem_res (f mem) = mem_res mem + r"
    by (rule bind_memory_core[OF unlocked Some, where bd = bd and off = off]) blast
  have "sc' = s" using assms(2) r(1) by simp
  then show ?thesis
    using r(2) assms(1) mems_inv_upd[where mem = mem and f = f and i = i and r = r] Some r(3-5)
    by (simp add: agp_inv_def step_mem_def agp_find_memory_def)
qed

text \<open>Unbinding: refused, or the block has given its backing store back.\<close>

lemma unbind_memory_core:
  assumes "\<not> as_mtx sc" "agp_find_memory sc i = Some mem"
  obtains "am_is_bound mem = 0 \<or> am_mapref mem > 0"
      "agp_generic_unbind_memory po sc i = Ret (EINVAL, sc)"
  | sc' where "am_is_bound mem \<noteq> 0" "am_mapref mem = 0" "agp_generic_unbind_memory po sc i = Ret (E_OK, sc')"
      "step_mem i (\<lambda>m. m\<lparr>am_dmamap := [], am_offset := 0, am_is_bound := 0\<rparr>)
         (as_live sc - seg_res (am_dmaseg mem) (am_virtual mem) (am_size mem) (am_dmamap mem)) sc sc'"
proof -
  let ?sc = "sc\<lparr>as_mtx := True\<rparr>"
  have unlock: "sc\<lparr>as_mtx := False\<rparr> = sc" using assms(1) by (cases sc) simp
  have find: "agp_find_memory ?sc i = Some mem" using assms(2) by (simp add: agp_find_memory_def)
  note mtx = mtx_enter_def mtx_exit_def
  let ?u = "unbind_range po (am_offset mem) (unat (am_size mem)) 0 ?sc"
  have c: "core (flush_tlb po ?u) = core ?sc" using core_flush[of ?u] core_unbind_range by simp
  show ?thesis
  proof (cases "am_is_bound mem = 0 \<or> am_mapref mem > 0")
    case True
    then have "agp_generic_unbind_memory po sc i = Ret (EINVAL, sc)"
      using assms(1) find by (auto simp: agp_generic_unbind_memory_def mtx unlock)
    then show ?thesis using that(1) True by blast
  next
    case False
    let ?f = "\<lambda>m. m\<lparr>am_dmamap := [], am_offset := 0, am_is_bound := 0\<rparr>"
    let ?sc2 = "(flush_tlb po ?u)\<lparr>as_live := as_live (flush_tlb po ?u) - {#R_load (am_dmamap mem)#}
        - {#R_kva (am_virtual mem) (am_size mem)#} - {#R_segs (am_dmaseg mem)#} - {#R_mem K_AGPSEGS#}\<rparr>"
    let ?sc' = "(upd_mem i ?f ?sc2)\<lparr>as_mtx := False\<rparr>"
    have "agp_generic_unbind_memory po sc i = Ret (E_OK, ?sc')"
      using assms(1) find False core_sel(3)[OF c]
      by (simp add: agp_generic_unbind_memory_def mtx Let_def)
    moreover have "step_mem i ?f
        (as_live sc - seg_res (am_dmaseg mem) (am_virtual mem) (am_size mem) (am_dmamap mem)) sc ?sc'"
      using core_sel[OF c] assms(1)
      by (simp add: step_mem_def seg_res_def diff_diff_add_mset[symmetric] del: diff_diff_add_mset)
        (simp add: add_mset_commute)?
    moreover have "am_mapref mem = 0" using False word_neq_0_conv by blast
    ultimately show ?thesis using that(2)[of ?sc'] False by simp
  qed
qed

lemma unbind_memory_inv:
  assumes "agp_inv sc" "agp_generic_unbind_memory po sc i = Ret (e, sc')"
  shows "agp_inv sc'"
proof (cases "agp_find_memory sc i")
  case None
  then show ?thesis
    using assms by (simp add: agp_generic_unbind_memory_def mtx_enter_def agp_find_memory_def agp_inv_def)
next
  case (Some mem)
  let ?f = "\<lambda>m. m\<lparr>am_dmamap := [], am_offset := 0, am_is_bound := 0\<rparr>"
  let ?r = "seg_res (am_dmaseg mem) (am_virtual mem) (am_size mem) (am_dmamap mem)"
  have unlocked: "\<not> as_mtx sc" using assms(1) by (simp add: agp_inv_def)
  show ?thesis
  proof (rule unbind_memory_core[OF unlocked Some])
    assume "agp_generic_unbind_memory po sc i = Ret (EINVAL, sc)"
    then show ?thesis using assms by simp
  next
    fix s
    assume b: "am_is_bound mem \<noteq> 0" "agp_generic_unbind_memory po sc i = Ret (E_OK, s)"
      "step_mem i ?f (as_live sc - ?r) sc s"
    have res: "mem_res mem = mem_res (?f mem) + ?r" using b(1) by (simp add: mem_res_def)
    have "mems_inv (map (\<lambda>m. if am_id m = i then ?f m else m) (as_memory sc)) (as_nextid sc)
        (as_allocated sc) (as_live sc - ?r)"
      by (rule mems_inv_unbind[where mem = mem])
        (use assms(1) Some res in \<open>simp_all add: agp_inv_def agp_find_memory_def\<close>)
    moreover have "sc' = s" using assms(2) b(2) by simp
    ultimately show ?thesis using b(3) unlocked by (simp add: agp_inv_def step_mem_def)
  qed
qed

end

end
