(* ===== verification/Agp_Close.thy ===== *)
theory Agp_Close
  imports Agp_Inv
begin

text \<open>
  The requests of \<^verbatim>\<open>/dev/agp\<close> on a chipset driver with the generic operations: what is reachable
  keeps the invariant, no request panics, and the loop of the last close.
\<close>

section \<open>The method table\<close>

lemma generic_methods_sel [simp]:
  "alloc_memory (generic_methods bd raw po) = agp_generic_alloc_memory bd raw"
  "free_memory (generic_methods bd raw po) = agp_generic_free_memory"
  "bind_memory (generic_methods bd raw po) = agp_generic_bind_memory bd po"
  "unbind_memory (generic_methods bd raw po) = agp_generic_unbind_memory po"
  "enable (generic_methods bd raw po) = enable po"
  by (cases po, simp add: generic_methods_def agp_pageops.defs)+

lemma find_memory_id: "agp_find_memory sc i = Some mem \<Longrightarrow> am_id mem = i \<and> mem \<in> set (as_memory sc)"
  by (auto simp: agp_find_memory_def find_Some_iff)

lemma find_memory_hd: "as_memory sc = mem # ms \<Longrightarrow> agp_find_memory sc (am_id mem) = Some mem"
  by (simp add: agp_find_memory_def)

lemma helper_inv [simp]:
  "agp_inv (snd (agp_acquire_helper sc st)) = agp_inv sc"
  "agp_inv (snd (agp_release_helper sc st)) = agp_inv sc"
  by (simp_all add: agp_acquire_helper_def agp_release_helper_def agp_inv_def)

lemma isopen_inv [simp]: "agp_inv (sc\<lparr>as_isopen := n\<rparr>) = agp_inv sc"
  by (simp add: agp_inv_def)

section \<open>The loop of the last close\<close>

text \<open>One turn of the loop: the first block unbound if it is bound, and released.\<close>

definition close_turn :: "agp_methods \<Rightarrow> agp_softc \<Rightarrow> agp_memory \<Rightarrow> (errno \<times> agp_softc) outcome" where
  "close_turn m sc mem =
     obind (if am_is_bound mem \<noteq> 0
            then obind (unbind_memory m sc (am_id mem)) (\<lambda>(_, sc1). Ret sc1) else Ret sc)
       (\<lambda>sc1. free_memory m sc1 (am_id mem))"

lemma agpclose_loop_Nil: "as_memory sc = [] \<Longrightarrow> agpclose_loop m sc = Some (Ret sc)"
  by (subst agpclose_loop.simps) simp

lemma agpclose_loop_Cons:
  "as_memory sc = mem # ms \<Longrightarrow> close_turn m sc mem = Ret (e, sc2) \<Longrightarrow>
   agpclose_loop m sc = agpclose_loop m sc2"
  by (subst agpclose_loop.simps) (simp add: close_turn_def)

context gart
begin

lemma close_turn_frees:
  assumes inv: "agp_inv sc" and ms: "as_memory sc = mem # ms" and ref: "am_mapref mem = 0"
  obtains sc2 where "close_turn (generic_methods bd raw po) sc mem = Ret (E_OK, sc2)"
    "agp_inv sc2" "as_memory sc2 = ms" "as_state sc2 = as_state sc"
proof -
  have find: "agp_find_memory sc (am_id mem) = Some mem" by (rule find_memory_hd[OF ms])
  have unlocked: "\<not> as_mtx sc" using inv by (simp add: agp_inv_def)
  have rest: "\<forall>x\<in>set ms. am_id x \<noteq> am_id mem"
    using inv by (force simp: agp_inv_def mems_inv_def ms image_iff)
  then have keep: "filter (\<lambda>x. am_id x \<noteq> am_id mem) ms = ms" by (simp add: filter_id_conv)
  show ?thesis
  proof (cases "am_is_bound mem = 0")
    case True
    obtain s where s: "agp_generic_free_memory sc (am_id mem) = Ret (E_OK, s)"
        "as_memory s = ms" "as_state s = as_state sc"
      using find True by (auto simp: agp_generic_free_memory_def ms keep)
    then show ?thesis
      using that[of s] free_memory_inv[OF inv s(1)] True by (simp add: close_turn_def)
  next
    case False
    obtain s1 where u: "agp_generic_unbind_memory po sc (am_id mem) = Ret (E_OK, s1)"
        "as_memory s1 = map (\<lambda>x. if am_id x = am_id mem
           then x\<lparr>am_dmamap := [], am_offset := 0, am_is_bound := 0\<rparr> else x) (as_memory sc)"
        "as_state s1 = as_state sc"
      by (rule unbind_memory_core[OF unlocked find]) (use False ref in \<open>auto simp: step_mem_def\<close>)
    let ?mem = "mem\<lparr>am_dmamap := [], am_offset := 0, am_is_bound := 0\<rparr>"
    have ms1: "as_memory s1 = ?mem # ms"
      using u(2) rest by (auto simp: ms intro!: map_idI)
    have find1: "agp_find_memory s1 (am_id mem) = Some ?mem" using find_memory_hd[OF ms1] by simp
    have inv1: "agp_inv s1" by (rule unbind_memory_inv[OF inv u(1)])
    obtain s where s: "agp_generic_free_memory s1 (am_id mem) = Ret (E_OK, s)"
        "as_memory s = ms" "as_state s = as_state s1"
      using find1 by (auto simp: agp_generic_free_memory_def ms1 keep)
    then show ?thesis
      using that[of s] free_memory_inv[OF inv1 s(1)] False u by (simp add: close_turn_def)
  qed
qed

lemma agpclose_loop_returns:
  assumes "agp_inv sc" "\<forall>m\<in>set (as_memory sc). am_mapref m = 0"
  shows "\<exists>sc'. agpclose_loop (generic_methods bd raw po) sc = Some (Ret sc') \<and> agp_inv sc'
    \<and> as_memory sc' = [] \<and> as_state sc' = as_state sc"
  using assms
proof (induction "as_memory sc" arbitrary: sc)
  case Nil
  then show ?case using agpclose_loop_Nil by auto
next
  case (Cons mem ms)
  obtain sc2 where t: "close_turn (generic_methods bd raw po) sc mem = Ret (E_OK, sc2)"
      "agp_inv sc2" "as_memory sc2 = ms" "as_state sc2 = as_state sc"
    by (rule close_turn_frees[OF Cons.prems(1) Cons.hyps(2)[symmetric], where bd = bd and raw = raw])
      (use Cons.prems(2) Cons.hyps(2)[symmetric] in auto)
  have refs: "\<forall>m\<in>set (as_memory sc2). am_mapref m = 0"
    using Cons.prems(2) by (auto simp: t(3) Cons.hyps(2)[symmetric])
  show ?case
    using Cons.hyps(1)[OF t(3)[symmetric] t(2) refs] t(4)
    unfolding agpclose_loop_Cons[OF Cons.hyps(2)[symmetric] t(1)] by simp
qed

text \<open>A mapped block at the head of the list survives each turn, with the whole softc as it was.\<close>

lemma close_turn_stuck:
  assumes "\<not> as_mtx sc" "as_memory sc = mem # ms" "am_is_bound mem \<noteq> 0" "am_mapref mem > 0"
  shows "close_turn (generic_methods bd raw po) sc mem = Ret (EBUSY, sc)"
proof -
  have find: "agp_find_memory sc (am_id mem) = Some mem" by (rule find_memory_hd[OF assms(2)])
  have "agp_generic_unbind_memory po sc (am_id mem) = Ret (EINVAL, sc)"
    by (rule unbind_memory_core[OF assms(1) find]) (use assms in auto)
  then show ?thesis using find assms(3) by (simp add: close_turn_def agp_generic_free_memory_def)
qed

lemma agpclose_loop_stuck:
  assumes "\<not> as_mtx sc" "as_memory sc = mem # ms" "am_is_bound mem \<noteq> 0" "am_mapref mem > 0"
  shows "agpclose_loop (generic_methods bd raw po) sc = None"
proof -
  have "sc0 \<noteq> sc" if some: "agpclose_loop m0 sc0 = Some r" and m: "m0 = generic_methods bd raw po" for m0 sc0 r
  proof -
    have "m0 = generic_methods bd raw po \<longrightarrow> sc0 \<noteq> sc"
    proof (rule agpclose_loop.raw_induct[OF _ some])
      fix loop m0 sc0 r
      assume IH: "\<And>m b y. loop m b = Some y \<Longrightarrow> m = generic_methods bd raw po \<longrightarrow> b \<noteq> sc"
        and step: "(case as_memory sc0 of
        [] \<Rightarrow> Some (Ret sc0)
      | mem # _ \<Rightarrow>
          (case obind (if am_is_bound mem \<noteq> 0
                       then obind (unbind_memory m0 sc0 (am_id mem)) (\<lambda>(_, sc1). Ret sc1)
                       else Ret sc0)
                  (\<lambda>sc1. free_memory m0 sc1 (am_id mem)) of
             Ret (e, sc2) \<Rightarrow> loop m0 sc2
           | Panic \<Rightarrow> Some Panic
           | Asleep \<Rightarrow> Some Asleep)) = Some r"
      show "m0 = generic_methods bd raw po \<longrightarrow> sc0 \<noteq> sc"
      proof (intro impI notI)
        assume m: "m0 = generic_methods bd raw po" and sc: "sc0 = sc"
        have "loop m0 sc = Some r"
          using step[unfolded sc m] close_turn_stuck[OF assms, of bd raw, unfolded close_turn_def] assms(2)
          unfolding m by simp
        then show False using IH[of m0 sc r] m by simp
      qed
    qed
    then show ?thesis using m by simp
  qed
  then show ?thesis by (cases "agpclose_loop (generic_methods bd raw po) sc") auto
qed

lemma agpclose_loop_inv:
  assumes "agpclose_loop (generic_methods bd raw po) sc = Some (Ret sc')" "agp_inv sc"
  shows "agp_inv sc'"
proof -
  have "m0 = generic_methods bd raw po \<longrightarrow> agp_inv sc0 \<longrightarrow> (\<forall>s. r = Ret s \<longrightarrow> agp_inv s)"
    if some: "agpclose_loop m0 sc0 = Some r" for m0 sc0 r
  proof (rule agpclose_loop.raw_induct[OF _ some])
    fix loop m0 sc0 r
    assume IH: "\<And>m b y. loop m b = Some y \<Longrightarrow> m = generic_methods bd raw po \<longrightarrow> agp_inv b \<longrightarrow>
          (\<forall>s. y = Ret s \<longrightarrow> agp_inv s)"
      and step: "(case as_memory sc0 of
        [] \<Rightarrow> Some (Ret sc0)
      | mem # _ \<Rightarrow>
          (case obind (if am_is_bound mem \<noteq> 0
                       then obind (unbind_memory m0 sc0 (am_id mem)) (\<lambda>(_, sc1). Ret sc1)
                       else Ret sc0)
                  (\<lambda>sc1. free_memory m0 sc1 (am_id mem)) of
             Ret (e, sc2) \<Rightarrow> loop m0 sc2
           | Panic \<Rightarrow> Some Panic
           | Asleep \<Rightarrow> Some Asleep)) = Some r"
    show "m0 = generic_methods bd raw po \<longrightarrow> agp_inv sc0 \<longrightarrow> (\<forall>s. r = Ret s \<longrightarrow> agp_inv s)"
    proof (cases "as_memory sc0")
      case Nil
      then show ?thesis using step by auto
    next
      case (Cons mem ms)
      show ?thesis
      proof (intro impI)
        assume m: "m0 = generic_methods bd raw po" and inv: "agp_inv sc0"
        show "\<forall>s. r = Ret s \<longrightarrow> agp_inv s"
        proof (cases "close_turn m0 sc0 mem")
          case (Ret x)
          obtain e sc2 where x: "x = (e, sc2)" by (cases x)
          have "agp_inv sc2"
            using Ret inv unfolding x m close_turn_def
            by (auto simp: obind_eq_Ret split: if_splits dest: unbind_memory_inv free_memory_inv)
          moreover have "loop m0 sc2 = Some r"
            using step Cons Ret[unfolded close_turn_def] by (simp add: x)
          ultimately show ?thesis using IH[of m0 sc2 r] m by blast
        qed (use step Cons in \<open>auto simp: close_turn_def\<close>)
      qed
    qed
  qed
  then show ?thesis using assms by blast
qed

end

end
