(* ===== verification/Agp_Table.thy ===== *)
theory Agp_Table
  imports Agp_Close
begin

text \<open>
  What a bind, a refused bind and an unbind leave in the translation table.
\<close>

section \<open>Updates that leave the table alone\<close>

lemma table_sel [simp]:
  "pte (upd_mem i f sc) = pte sc" "gatt_ok (upd_mem i f sc) = gatt_ok sc" "gatt_len (upd_mem i f sc) = gatt_len sc"
  "pte (sc\<lparr>as_mtx := b\<rparr>) = pte sc" "gatt_ok (sc\<lparr>as_mtx := b\<rparr>) = gatt_ok sc" "gatt_len (sc\<lparr>as_mtx := b\<rparr>) = gatt_len sc"
  "pte (sc\<lparr>as_live := l\<rparr>) = pte sc" "gatt_ok (sc\<lparr>as_live := l\<rparr>) = gatt_ok sc" "gatt_len (sc\<lparr>as_live := l\<rparr>) = gatt_len sc"
  by (simp_all add: fun_eq_iff pte_def gatt_ok_def gatt_len_def chipc_def upd_mem_def)

text \<open>What the code relies on: memory of whole pages is loaded as whole pages, all of it.\<close>

definition dma_pages :: "bus_dma \<Rightarrow> bool" where
  "dma_pages bd \<longleftrightarrow>
     (\<forall>l kva sz loaded. unat sz mod 4096 = 0 \<longrightarrow> bd_load bd l kva sz = Inr loaded \<longrightarrow>
        whole_pages loaded \<and> unat sz div 4096 \<le> length (segs_pages loaded))"

definition mem_pages :: "agp_memory \<Rightarrow> nat" where
  "mem_pages m = unat (am_size m) div 4096"

lemma bind_chunks_pages:
  assumes "dma_pages bd" "bind_chunks bd sz n l = (Inr (segs, kva, loaded), l')" "unat sz mod 4096 = 0"
  shows "whole_pages loaded" "unat sz div 4096 \<le> length (segs_pages loaded)"
proof -
  obtain l1 where "bd_load bd l1 kva sz = Inr loaded" using bind_chunks_ok[OF assms(2)] by blast
  then show "whole_pages loaded" "unat sz div 4096 \<le> length (segs_pages loaded)"
    using assms(1)[unfolded dma_pages_def, rule_format, of sz l1 kva loaded] assms(3) by simp_all
qed

lemma find_map_mem:
  assumes "agp_find_memory sc i = Some mem" "\<And>m. am_id (f m) = am_id m"
  shows "find (\<lambda>m. am_id m = i) (map (\<lambda>m. if am_id m = i then f m else m) (as_memory sc)) = Some (f mem)"
proof -
  have "find (\<lambda>m. am_id m = i) (map (\<lambda>m. if am_id m = i then f m else m) ms) = Some (f mem)"
    if "find (\<lambda>m. am_id m = i) ms = Some mem" for ms
    using that assms(2) by (induction ms) (auto split: if_splits)
  then show ?thesis using assms(1) by (simp add: agp_find_memory_def)
qed

context gart
begin

lemma bind_segs_nofit:
  assumes "gatt_ok sc" "whole_pages segs" "m \<le> length (segs_pages segs)" "gatt_len sc < n + m" "0 < m"
  shows "\<exists>e s. bind_segs po (4096 * int n) (4096 * m) segs 0 sc = (Some e, s)"
proof -
  let ?pas = "take m (segs_pages segs)"
  have l: "bind_segs po (4096 * int n) (4096 * m) segs 0 sc = bind_list po (4096 * int n) 0 ?pas sc"
    using bind_segs_list[OF assms(2), of "4096 * m" 0 po "4096 * int n" sc] by simp
  show ?thesis
  proof (cases "n \<le> gatt_len sc")
    case True
    then show ?thesis
      unfolding l using bind_list_short[OF assms(1), of n 0 ?pas] assms(3,4) by simp
  next
    case False
    obtain pa pas where pas: "?pas = pa # pas"
      using assms(3,5) by (cases ?pas) auto
    have "bind_page po sc (4096 * int n) pa = (EINVAL, sc)"
      by (rule bind_out) (use False gatt_bytes_len[OF assms(1)] in simp)
    then show ?thesis unfolding l pas by (simp add: Let_def)
  qed
qed

lemma bind_memory_ok:
  assumes "\<not> as_mtx sc" "agp_find_memory sc i = Some mem"
    and "agp_generic_bind_memory bd po sc i off = Ret (E_OK, sc')"
  obtains segs kva loaded l s where "0 \<le> off" "off mod 4096 = 0"
    "bind_chunks bd (am_size mem) 8 (as_live sc) = (Inr (segs, kva, loaded), l)"
    "bind_segs po off (unat (am_size mem)) loaded 0
       (upd_mem i (\<lambda>m. m\<lparr>am_virtual := kva, am_dmaseg := segs, am_dmamap := loaded\<rparr>)
          (sc\<lparr>as_mtx := True, as_live := l\<rparr>)) = (None, s)"
    "sc' = (upd_mem i (\<lambda>m. m\<lparr>am_offset := off, am_is_bound := 1\<rparr>) (flush_tlb po s))\<lparr>as_mtx := False\<rparr>"
proof -
  have find: "agp_find_memory (sc\<lparr>as_mtx := True\<rparr>) i = Some mem" using assms(2) by (simp add: agp_find_memory_def)
  have not_ok: "e \<noteq> E_OK" if "bind_segs po off sz sg dn s0 = (Some (e, n), s1)" for e n s0 s1 sz sg dn
    using bind_segs_err[OF that] by simp
  show ?thesis
    using assms(1,3) find
    by (auto simp: agp_generic_bind_memory_def mtx_enter_def mtx_exit_def Let_def AGP_PAGE_SIZE_def
        split: if_splits prod.splits sum.splits option.splits
        dest: bind_chunks_error not_ok intro: that)
qed

text \<open>A block that is bound is the translation of its pages, and nothing else has changed.\<close>

lemma bind_memory_table:
  assumes inv: "agp_inv sc" and ok: "gatt_ok sc" and find: "agp_find_memory sc i = Some mem"
    and pages: "dma_pages bd" and bind: "agp_generic_bind_memory bd po sc i off = Ret (E_OK, sc')"
  obtains loaded where "0 \<le> off" "off mod 4096 = 0" "mem_pages mem \<le> length (segs_pages loaded)"
    "\<exists>m'. agp_find_memory sc' i = Some m' \<and> am_dmamap m' = loaded \<and> am_offset m' = off
       \<and> am_is_bound m' = 1 \<and> am_size m' = am_size mem"
    "\<forall>k. pte sc' k = (if nat (off div 4096) \<le> k \<and> k < nat (off div 4096) + mem_pages mem
                     then enc (segs_pages loaded ! (k - nat (off div 4096))) else pte sc k)"
    "nat (off div 4096) + mem_pages mem \<le> gatt_len sc \<or> mem_pages mem = 0"
proof -
  let ?n = "nat (off div 4096)" and ?m = "mem_pages mem"
  have unlocked: "\<not> as_mtx sc" using inv by (simp add: agp_inv_def)
  have sz: "unat (am_size mem) = 4096 * ?m"
    using inv find_memory_id[OF find] by (auto simp: agp_inv_def mems_inv_def mem_pages_def)
  obtain segs kva loaded l s where b: "0 \<le> off" "off mod 4096 = 0"
    "bind_chunks bd (am_size mem) 8 (as_live sc) = (Inr (segs, kva, loaded), l)"
    "bind_segs po off (unat (am_size mem)) loaded 0
       (upd_mem i (\<lambda>m. m\<lparr>am_virtual := kva, am_dmaseg := segs, am_dmamap := loaded\<rparr>)
          (sc\<lparr>as_mtx := True, as_live := l\<rparr>)) = (None, s)"
    "sc' = (upd_mem i (\<lambda>m. m\<lparr>am_offset := off, am_is_bound := 1\<rparr>) (flush_tlb po s))\<lparr>as_mtx := False\<rparr>"
    by (rule bind_memory_ok[OF unlocked find bind])
  let ?g = "\<lambda>m. m\<lparr>am_virtual := kva, am_dmaseg := segs, am_dmamap := loaded\<rparr>"
  let ?s1 = "upd_mem i ?g (sc\<lparr>as_mtx := True, as_live := l\<rparr>)"
  have off: "off = 4096 * int ?n" using b(1,2) by auto
  have al: "unat (am_size mem) mod 4096 = 0" using sz by simp
  have wp: "whole_pages loaded" "?m \<le> length (segs_pages loaded)"
    using bind_chunks_pages[OF pages b(3) al] by (simp_all add: mem_pages_def)
  have ok1: "gatt_ok ?s1" and len1: "gatt_len ?s1 = gatt_len sc" using ok by simp_all
  have segs: "bind_segs po (4096 * int ?n) (4096 * ?m) loaded 0 ?s1 = (None, s)"
    using b(4) sz off by simp
  have fits: "?n + ?m \<le> gatt_len sc \<or> ?m = 0"
    using bind_segs_nofit[OF ok1 wp, of ?n] segs len1 by (metis not_le not_gr0 option.distinct(1) prod.inject)
  have s: "s = set_ptes ?n (map enc (take ?m (segs_pages loaded))) ?s1"
  proof (cases "?m = 0")
    case True
    then show ?thesis using segs bind_segs_list[OF wp(1), of 0 0 po "4096 * int ?n" ?s1] by simp
  next
    case False
    then show ?thesis using bind_segs_fits[OF ok1 wp, of ?n] segs fits len1 by simp
  qed
  have cs: "core s = core ?s1" using core_bind_segs[of off "unat (am_size mem)" loaded 0 ?s1] b(4) by simp
  have cf: "core (flush_tlb po s) = core ?s1" using core_flush[of s] cs by simp
  have pte: "pte sc' k = (if ?n \<le> k \<and> k < ?n + ?m then enc (segs_pages loaded ! (k - ?n)) else pte sc k)" for k
  proof (cases "?m = 0")
    case True
    then show ?thesis by (auto simp: b(5) flush_frame s)
  next
    case False
    then have "?n + length (map enc (take ?m (segs_pages loaded))) \<le> gatt_len ?s1" using fits wp len1 by simp
    from pte_set_ptes[OF ok1 this, of k] show ?thesis using wp by (auto simp: b(5) flush_frame s)
  qed
  have "agp_find_memory sc' i = Some ((?g mem)\<lparr>am_offset := off, am_is_bound := 1\<rparr>)"
    using find_map_mem[OF find, of "\<lambda>m. (?g m)\<lparr>am_offset := off, am_is_bound := 1\<rparr>"] core_sel(1)[OF cf]
    by (simp add: agp_find_memory_def b(5) comp_def if_distrib cong: if_cong)
  then show ?thesis using that[of loaded] b(1,2) wp(2) pte fits by auto
qed

text \<open>A bind that fails has bound nothing: neither the table nor the resources have changed.\<close>

lemma bind_memory_rollback:
  assumes inv: "agp_inv sc" and ok: "gatt_ok sc" and find: "agp_find_memory sc i = Some mem"
    and pages: "dma_pages bd" and bind: "agp_generic_bind_memory bd po sc i off = Ret (e, sc')" "e \<noteq> E_OK"
    and clear: "\<forall>k. nat (off div 4096) \<le> k \<and> k < gatt_len sc \<longrightarrow> pte sc k = 0"
    and start: "off \<le> 4096 * int (gatt_len sc)"
  shows "pte sc' = pte sc \<and> as_live sc' = as_live sc"
proof -
  let ?n = "nat (off div 4096)" and ?m = "mem_pages mem"
  have unlocked: "\<not> as_mtx sc" using inv by (simp add: agp_inv_def)
  have find': "agp_find_memory (sc\<lparr>as_mtx := True\<rparr>) i = Some mem" using find by (simp add: agp_find_memory_def)
  have sz: "unat (am_size mem) = 4096 * ?m"
    using inv find_memory_id[OF find] by (auto simp: agp_inv_def mems_inv_def mem_pages_def)
  have live: "as_live sc' = as_live sc"
    by (rule bind_memory_core[OF unlocked find, where bd = bd and off = off]) (use bind in \<open>auto simp: step_mem_def\<close>)
  show ?thesis
  proof (cases "pte sc' = pte sc")
    case False
    then obtain segs kva loaded l en n s where b: "0 \<le> off" "off mod 4096 = 0"
        "bind_chunks bd (am_size mem) 8 (as_live sc) = (Inr (segs, kva, loaded), l)"
        "bind_segs po off (unat (am_size mem)) loaded 0
           (upd_mem i (\<lambda>m. m\<lparr>am_virtual := kva, am_dmaseg := segs, am_dmamap := loaded\<rparr>)
              (sc\<lparr>as_mtx := True, as_live := l\<rparr>)) = (Some (en, n), s)"
        "pte sc' = pte (unbind_range po off n 0 s)"
      using bind unlocked find'
      by (auto simp: agp_generic_bind_memory_def mtx_enter_def mtx_exit_def Let_def AGP_PAGE_SIZE_def
          split: if_splits prod.splits sum.splits option.splits)
    let ?s1 = "upd_mem i (\<lambda>m. m\<lparr>am_virtual := kva, am_dmaseg := segs, am_dmamap := loaded\<rparr>)
        (sc\<lparr>as_mtx := True, as_live := l\<rparr>)"
    have off: "off = 4096 * int ?n" using b(1,2) by auto
    have al: "unat (am_size mem) mod 4096 = 0" using sz by simp
  have wp: "whole_pages loaded" "?m \<le> length (segs_pages loaded)"
    using bind_chunks_pages[OF pages b(3) al] by (simp_all add: mem_pages_def)
    have ok1: "gatt_ok ?s1" and len1: "gatt_len ?s1 = gatt_len sc" using ok by simp_all
    have segs: "bind_segs po (4096 * int ?n) (4096 * ?m) loaded 0 ?s1 = (Some (en, n), s)"
      using b(4) sz off by simp
    have n: "?n \<le> gatt_len ?s1" using start b(1) len1 by linarith
    have short: "gatt_len ?s1 < ?n + ?m" using bind_segs_fits[OF ok1 wp, of ?n] segs by fastforce
    have clr: "\<forall>k. ?n \<le> k \<and> k < gatt_len ?s1 \<longrightarrow> pte ?s1 k = 0" using clear by simp
    obtain j s' where r: "bind_segs po (4096 * int ?n) (4096 * ?m) loaded 0 ?s1 = (Some (EINVAL, j), s')"
        "unbind_range po (4096 * int ?n) j 0 s' = ?s1"
      using bind_segs_rollback[OF ok1 wp n short clr] by blast
    then have "unbind_range po off n 0 s = ?s1" using segs off by simp
    then show ?thesis using b(5) live by simp
  qed (use live in simp)
qed

text \<open>An unbind clears the entries of the block.\<close>

lemma unbind_memory_table:
  assumes inv: "agp_inv sc" and ok: "gatt_ok sc" and find: "agp_find_memory sc i = Some mem"
    and off: "0 \<le> am_offset mem" "am_offset mem mod 4096 = 0"
    and fits: "nat (am_offset mem div 4096) + mem_pages mem \<le> gatt_len sc"
    and un: "agp_generic_unbind_memory po sc i = Ret (E_OK, sc')"
  shows "pte sc' k = (if nat (am_offset mem div 4096) \<le> k \<and> k < nat (am_offset mem div 4096) + mem_pages mem
      then 0 else pte sc k)"
proof -
  let ?n = "nat (am_offset mem div 4096)" and ?m = "mem_pages mem" and ?s = "sc\<lparr>as_mtx := True\<rparr>"
  have unlocked: "\<not> as_mtx sc" using inv by (simp add: agp_inv_def)
  have find': "agp_find_memory ?s i = Some mem" using find by (simp add: agp_find_memory_def)
  have sz: "unat (am_size mem) = 4096 * ?m"
    using inv find_memory_id[OF find] by (auto simp: agp_inv_def mems_inv_def mem_pages_def)
  have o': "am_offset mem = 4096 * int ?n" using off by auto
  have range: "unbind_range po (am_offset mem) (unat (am_size mem)) 0 ?s = set_ptes ?n (replicate ?m 0) ?s"
    using unbind_range_fits[of ?s ?n ?m] ok fits sz o' by simp
  have "pte sc' k = pte (unbind_range po (am_offset mem) (unat (am_size mem)) 0 ?s) k"
    using un unlocked find'
    by (auto simp: agp_generic_unbind_memory_def mtx_enter_def mtx_exit_def Let_def flush_frame split: if_splits)
  then show ?thesis
    using pte_set_ptes[of ?s ?n "replicate ?m 0" k] ok fits by (auto simp: range)
qed

end

end
