(* ===== verification/Agp_Props.thy ===== *)
theory Agp_Props
  imports Agp_Table
begin

text \<open>
  The properties of the AGP driver: the invariant over every sequence of requests, what a bind
  installs and what a refused bind leaves, and when the last close returns.
\<close>

section \<open>Reachable states\<close>

abbreviation agp_driver_methods ::
  "bus_dma \<Rightarrow> agp_memory \<Rightarrow> pci_vendors \<Rightarrow> conf_write \<Rightarrow> (agp_softc \<Rightarrow> u32 \<Rightarrow> errno \<times> agp_softc) \<Rightarrow>
   agp_driver \<Rightarrow> agp_methods" where
  "agp_driver_methods bd raw pv cw en drv \<equiv> generic_methods bd raw (chip_ops pv cw en drv)"

text \<open>The softc an attach leaves: no block, nothing owned.\<close>

definition agp_start :: "agp_softc \<Rightarrow> bool" where
  "agp_start sc \<longleftrightarrow> as_memory sc = [] \<and> as_allocated sc = 0 \<and> as_live sc = {#} \<and> \<not> as_mtx sc"

inductive agp_reach :: "agp_methods \<Rightarrow> agp_softc \<Rightarrow> bool" for m where
  start: "agp_start sc \<Longrightarrow> agp_reach m sc"
| ioctl: "agp_reach m sc \<Longrightarrow> agpioctl m fwrite sc cmd = Ret (e, reply, sc') \<Longrightarrow> agp_reach m sc'"
| dev_open: "agp_reach m sc \<Longrightarrow> agp_reach m (snd (agpopen sc))"
| dev_close: "agp_reach m sc \<Longrightarrow> agpclose m sc = Some (Ret (e, sc')) \<Longrightarrow> agp_reach m sc'"
| kernel_acquire: "agp_reach m sc \<Longrightarrow> agp_reach m (snd (agp_acquire sc))"
| kernel_release: "agp_reach m sc \<Longrightarrow> agp_reach m (snd (agp_release sc))"

lemma agp_start_inv: "agp_start sc \<Longrightarrow> agp_inv sc"
  by (simp add: agp_start_def agp_inv_def mems_inv_def)

lemma agp_ioctl_inv:
  assumes inv: "agp_inv sc" and en: "\<forall>s mode. core (snd (en s mode)) = core s"
    and run: "agpioctl (agp_driver_methods bd raw pv cw en drv) fwrite sc cmd = Ret (e, reply, sc')"
  shows "agp_inv sc'"
proof (cases cmd)
  case (AGPIOC_SETUP mode)
  have en': "enable (chip_ops pv cw en drv) = en" by (simp add: chip_ops_def split: agp_driver.split)
  obtain e1 s1 where r: "en sc mode = (e1, s1)" by fastforce
  have "core s1 = core sc" using en[rule_format, of sc mode] by (simp add: r)
  then have "agp_inv s1" using inv core_inv[of s1 sc] by simp
  then show ?thesis
    using run inv AGPIOC_SETUP
    by (auto simp: agpioctl_def agp_setup_user_def no_reply_def en' r split: if_splits)
next
  case (AGPIOC_ALLOCATE ty n)
  then show ?thesis
    using run inv
    by (auto simp: agpioctl_def agp_allocate_user_def split: if_splits prod.splits option.splits
        dest: alloc_memory_inv)
next
  case (AGPIOC_ACQUIRE)
  then show ?thesis
    using run inv by (auto simp: agpioctl_def no_reply_def agp_acquire_helper_def agp_inv_def split: if_splits prod.splits)
next
  case (AGPIOC_RELEASE)
  then show ?thesis
    using run inv by (auto simp: agpioctl_def no_reply_def agp_release_helper_def agp_inv_def split: if_splits prod.splits)
qed (use run inv in \<open>auto simp: agpioctl_def agp_deallocate_user_def agp_bind_user_def agp_unbind_user_def
      no_reply_def obind_eq_Ret split: if_splits prod.splits option.splits
      dest: free_memory_inv chip.bind_memory_inv chip.unbind_memory_inv\<close>)

lemma agp_close_inv:
  assumes "agp_inv sc" "agpclose (agp_driver_methods bd raw pv cw en drv) sc = Some (Ret (e, sc'))"
  shows "agp_inv sc'"
  using assms chip.agpclose_loop_inv[of bd raw pv cw en drv sc]
  by (auto simp: agpclose_def obind_eq_Ret split: if_splits)

lemma agp_reach_inv:
  assumes "agp_reach (agp_driver_methods bd raw pv cw en drv) sc" "\<forall>s mode. core (snd (en s mode)) = core s"
  shows "agp_inv sc"
  using assms
proof (induction rule: agp_reach.induct)
  case (dev_open sc)
  then show ?case by (auto simp: agpopen_def)
qed (auto simp: agp_start_inv agp_acquire_def agp_release_def intro: agp_ioctl_inv agp_close_inv)

lemma agp_ioctl_no_panic:
  assumes inv: "agp_inv sc"
  shows "agpioctl (agp_driver_methods bd raw pv cw en drv) fwrite sc cmd \<noteq> Panic"
proof -
  have unlocked: "\<not> as_mtx sc" using inv by (simp add: agp_inv_def)
  have bind: "agp_generic_bind_memory bd (chip_ops pv cw en drv) sc (am_id mem) off \<noteq> Panic"
    if "agp_find_memory sc k = Some mem" for k mem off
  proof -
    have f: "agp_find_memory sc (am_id mem) = Some mem" using that find_memory_id[OF that] by simp
    show ?thesis by (rule chip.bind_memory_core[OF unlocked f, where bd = bd and off = off and pv = pv and cw = cw and en = en and drv = drv]) simp
  qed
  have unbind: "agp_generic_unbind_memory (chip_ops pv cw en drv) sc (am_id mem) \<noteq> Panic"
    if "agp_find_memory sc k = Some mem" for k mem
  proof -
    have f: "agp_find_memory sc (am_id mem) = Some mem" using that find_memory_id[OF that] by simp
    show ?thesis by (rule chip.unbind_memory_core[OF unlocked f, where pv = pv and cw = cw and en = en and drv = drv]) simp_all
  qed
  have free: "agp_generic_free_memory sc (am_id mem) \<noteq> Panic" if "agp_find_memory sc k = Some mem" for k mem
    using that find_memory_id[OF that] by (simp add: agp_generic_free_memory_def)
  show ?thesis
    by (cases cmd)
      (auto simp: agpioctl_def agp_deallocate_user_def agp_bind_user_def agp_unbind_user_def
        obind_eq_Panic bind unbind free split: option.splits prod.splits)
qed

section \<open>A concrete driver\<close>

text \<open>
  The Intel driver with a table of four pages, registers that store, and a kernel that grants every
  request: the setting of the witnesses.
\<close>

definition demo_bus :: bus_dma where
  "demo_bus = \<lparr>bd_malloc = \<lambda>_ _. True, bd_create = \<lambda>_ _ _ _. E_OK,
     bd_alloc = \<lambda>_ sz _ _. Inr [(0x100000, sz)], bd_kva = \<lambda>_ _ _. Inr 0x200000,
     bd_load = \<lambda>_ _ sz. Inr [(0x100000, sz)]\<rparr>"

definition demo_vendors :: pci_vendors where
  "demo_vendors = \<lparr>VENDOR_ALI = 0x10b9, VENDOR_NVIDIA = 0x10de, VENDOR_VIATECH = 0x1106\<rparr>"

definition demo_write :: conf_write where "demo_write r v c = c(r := v)"

definition demo_enable :: "agp_softc \<Rightarrow> u32 \<Rightarrow> errno \<times> agp_softc" where
  "demo_enable sc mode = (E_OK, sc)"

definition demo_block :: "int \<Rightarrow> agp_memory" where
  "demo_block i = \<lparr>am_id = i, am_size = 4096, am_type = 0, am_offset = 0, am_is_bound = 0, am_physical = 0,
     am_kva = 0, am_mapref = 0, am_virtual = 0, am_dmamap = [], am_dmaseg = []\<rparr>"

definition demo_gatt :: agp_gatt where
  "demo_gatt = \<lparr>ag_entries = 4, ag_virtual = [0, 0, 0, 0], ag_physical = 0x300000, ag_loaded = [], ag_dmaseg = [],
     ag_kva = 0, ag_size = 16\<rparr>"

definition demo_chip :: agp_chipc where
  "demo_chip = \<lparr>initial_aperture = 0, gatt = demo_gatt, aperture_mask = 0x3f, chiptype = 1, via_v3 = False,
     ch_apbase = 0, mctrl_tag = [8, 9], ctrl_tag = 7, via_agp = False\<rparr>"

definition demo_agp :: agp_softc where
  "demo_agp = \<lparr>as_capoff = 0x40, as_apaddr = 0xe0000000, as_apsize = 0x10000000, as_maxmem = 0x100000,
     as_allocated = 0, as_state = AGP_ACQUIRE_FREE, as_memory = [], as_nextid = 0, as_isopen = 0,
     as_mtx = False, as_chipc = Some demo_chip, as_tag = 0, as_id = 0x8086, as_conf = \<lambda>_. 0, as_live = {#}\<rparr>"

text \<open>The same with one block of a page allocated.\<close>

definition demo_agp1 :: agp_softc where
  "demo_agp1 = demo_agp\<lparr>as_allocated := 4096, as_memory := [demo_block 0], as_nextid := 1,
     as_live := {#R_map, R_mem K_AGPMEM#}\<rparr>"

abbreviation demo_methods :: agp_methods where
  "demo_methods \<equiv> agp_driver_methods demo_bus (demo_block 0) demo_vendors demo_write demo_enable DRV_INTEL"

lemmas demo_defs =
  demo_bus_def demo_vendors_def demo_write_def demo_enable_def demo_block_def demo_gatt_def demo_chip_def
  demo_agp_def demo_agp1_def

lemma demo_alloc:
  "agpioctl demo_methods True demo_agp (AGPIOC_ALLOCATE 0 1) = Ret (E_OK, KEY 0 0, demo_agp1)"
  by (simp add: agpioctl_def agp_allocate_user_def agp_generic_alloc_memory_def demo_defs AGP_PAGE_SIZE_def
      AGP_PAGE_SHIFT_def agp_find_memory_def Let_def)

lemma demo_reach: "agp_reach demo_methods demo_agp1"
  by (rule agp_reach.ioctl[OF agp_reach.start demo_alloc]) (simp add: agp_start_def demo_agp_def)

lemma demo_inv: "agp_inv demo_agp1"
  by (simp add: agp_inv_def mems_inv_def demo_defs mem_res_def)

lemma demo_find: "agp_find_memory demo_agp1 0 = Some (demo_block 0)"
  by (simp add: agp_find_memory_def demo_defs)

lemma demo_gatt_ok: "gatt_ok demo_agp1"
  by (simp add: gatt_ok_def demo_defs)

lemma demo_pages: "dma_pages demo_bus"
  by (auto simp: dma_pages_def demo_bus_def whole_pages_def segs_pages_def seg_pages_def)

section \<open>Requests\<close>

text \<open>
  C14: in every state that requests, opens, closes and the kernel's acquire and release lead to
  from an attached driver, on any of the chipset drivers, the amount allocated is the sum of the
  blocks, the resources owned are exactly those of the blocks (more for a bound one), the keys are
  distinct, the mutex is free, and no further request panics. The chip's enable operation is
  relied on to touch only registers.
\<close>

theorem agp_requests_safe:
  assumes "agp_reach (agp_driver_methods bd raw pv cw en drv) sc"
    and "\<forall>s mode. core (snd (en s mode)) = core s"
  shows "agp_inv sc \<and> (\<forall>fwrite cmd. agpioctl (agp_driver_methods bd raw pv cw en drv) fwrite sc cmd \<noteq> Panic)"
  using agp_reach_inv[OF assms] agp_ioctl_no_panic by blast

theorem agp_requests_safe_witness:
  "agp_inv demo_agp1 \<and> agpioctl demo_methods True demo_agp1 (AGPIOC_BIND 0 1) \<noteq> Panic"
  using agp_requests_safe[OF demo_reach] by (simp add: demo_enable_def)

text \<open>
  C15: a bind that succeeds, on any chipset driver, has written for each page of the block the
  translation of the page's own bus address into the entries from the given offset on, all of them
  inside the table, and no other entry has changed.
\<close>

theorem agp_bind_installs:
  assumes "agp_inv sc" "gatt_ok sc" "agp_find_memory sc i = Some mem" "dma_pages bd"
    and "agp_generic_bind_memory bd (chip_ops pv cw en drv) sc i off = Ret (E_OK, sc')"
  shows "\<exists>m'. agp_find_memory sc' i = Some m' \<and> am_is_bound m' = 1 \<and> am_offset m' = off
    \<and> (nat (off div 4096) + mem_pages mem \<le> gatt_len sc \<or> mem_pages mem = 0)
    \<and> (\<forall>k. pte sc' k = (if nat (off div 4096) \<le> k \<and> k < nat (off div 4096) + mem_pages mem
                      then chip_pte drv (segs_pages (am_dmamap m') ! (k - nat (off div 4096))) else pte sc k))"
  by (rule chip.bind_memory_table[OF assms]) blast

definition demo_bound :: agp_softc where
  "demo_bound = demo_agp1\<lparr>
     as_memory := [(demo_block 0)\<lparr>am_offset := 4096, am_is_bound := 1, am_virtual := 0x200000,
       am_dmamap := [(0x100000, 4096)], am_dmaseg := [(0x100000, 4096)]\<rparr>],
     as_chipc := Some (demo_chip\<lparr>gatt := demo_gatt\<lparr>ag_virtual := [0, 0x100017, 0, 0]\<rparr>\<rparr>),
     as_conf := (\<lambda>_. 0)((0, AGP_INTEL_AGPCTRL) := AGPCTRL_GTLB),
     as_live := {#R_map, R_mem K_AGPMEM, R_mem K_AGPSEGS, R_segs [(0x100000, 4096)], R_kva 0x200000 4096,
       R_load [(0x100000, 4096)]#}\<rparr>"

lemma demo_bind:
  "agp_generic_bind_memory demo_bus (chip_ops demo_vendors demo_write demo_enable DRV_INTEL) demo_agp1 0 4096
   = Ret (E_OK, demo_bound)"
  by (simp add: agp_generic_bind_memory_def mtx_enter_def mtx_exit_def demo_find[unfolded agp_find_memory_def]
      agp_find_memory_def demo_defs demo_bound_def chip_ops_def AGP_PAGE_SIZE_def agp_intel_get_aperture_def
      bind_chunks.simps bind_seg.simps agp_intel_bind_page_def agp_intel_flush_tlb_def upd_mem_def Let_def
      chipc_def pci_conf_read_def pci_conf_write_def gatt_bytes_def set_pte_def AGP_PAGE_SHIFT_def
      AGP_INTEL_AGPCTRL_def AGPCTRL_GTLB_def CHIP_INTEL_def)

theorem agp_bind_installs_witness: "pte demo_bound 1 = 0x100017 \<and> pte demo_bound 0 = 0"
proof -
  obtain m' where m': "agp_find_memory demo_bound 0 = Some m'"
    "\<forall>k. pte demo_bound k =
        (if nat (4096 div 4096) \<le> k \<and> k < nat (4096 div 4096) + mem_pages (demo_block 0)
         then chip_pte DRV_INTEL (segs_pages (am_dmamap m') ! (k - nat (4096 div 4096))) else pte demo_agp1 k)"
    using agp_bind_installs[OF demo_inv demo_gatt_ok demo_find demo_pages demo_bind] by blast
  have map: "am_dmamap m' = [(0x100000, 4096)]"
    using m'(1) by (auto simp: agp_find_memory_def demo_bound_def demo_agp1_def demo_block_def)
  have one: "mem_pages (demo_block 0) = 1" by (simp add: mem_pages_def demo_block_def)
  have "pte demo_bound 1 = chip_pte DRV_INTEL (segs_pages [(0x100000, 4096)] ! 0)"
    using m'(2)[rule_format, of 1] by (simp add: one map)
  moreover have "pte demo_bound 0 = pte demo_agp1 0" using m'(2)[rule_format, of 0] by simp
  ultimately show ?thesis
    by (simp add: chip_pte_def segs_pages_def seg_pages_def pte_def chipc_def demo_agp1_def demo_agp_def
        demo_chip_def demo_gatt_def)
qed






section \<open>Release\<close>

text \<open>
  C17: when no block is mapped into the kernel, the last close of a device that user space has
  acquired returns, and every block is gone with everything it owned.
\<close>

theorem agpclose_returns:
  assumes "agp_inv sc" "as_state sc = AGP_ACQUIRE_USER" "\<forall>m\<in>set (as_memory sc). am_mapref m = 0"
  shows "\<exists>sc'. agpclose (agp_driver_methods bd raw pv cw en drv) sc = Some (Ret (E_OK, sc'))
    \<and> as_memory sc' = [] \<and> as_live sc' = {#} \<and> as_allocated sc' = 0 \<and> as_state sc' = AGP_ACQUIRE_FREE
    \<and> as_isopen sc' = 0"
  using chip.agpclose_loop_returns[OF assms(1,3), of bd raw pv cw en drv] assms(2)
  by (auto simp: agpclose_def agp_release_helper_def agp_inv_def mems_inv_def)

theorem agpclose_returns_witness:
  "\<exists>sc'. agpclose demo_methods (demo_bound\<lparr>as_state := AGP_ACQUIRE_USER\<rparr>) = Some (Ret (E_OK, sc')) \<and> as_live sc' = {#}"
proof -
  have "agp_inv demo_bound" by (rule chip.bind_memory_inv[OF demo_inv demo_bind])
  then have inv: "agp_inv (demo_bound\<lparr>as_state := AGP_ACQUIRE_USER\<rparr>)" by (simp add: agp_inv_def)
  show ?thesis
    using agpclose_returns[OF inv, of demo_bus "demo_block 0" demo_vendors demo_write demo_enable DRV_INTEL]
    by (auto simp: demo_bound_def demo_agp1_def demo_block_def)
qed

text \<open>
  C18: on a bridge whose aperture is not reachable by the processor, mapping an address of the
  first block takes a reference to it, and a close by user space that follows never returns: the
  block can be neither unbound nor freed, and stays the first of the list.
\<close>

theorem agpclose_mapped_hangs:
  assumes "agp_inv sc" "as_state sc = AGP_ACQUIRE_USER" "as_memory sc = mem # ms" "as_apaddr sc = 0"
    and "agp_lookup_memory sc (uint address) = Some mem" "am_mapref mem + 1 \<noteq> 0"
    and "agp_map bsm bd' sc address sz = (Some va, sc')"
  shows "agpclose (agp_driver_methods bd raw pv cw en drv) sc' = None"
proof -
  have bound: "am_is_bound mem \<noteq> 0" using assms(5) by (auto simp: agp_lookup_memory_def find_Some_iff)
  have unlocked: "\<not> as_mtx sc" using assms(1) by (simp add: agp_inv_def)
  obtain mem' ms' where ms': "as_memory sc' = mem' # ms'" "am_is_bound mem' \<noteq> 0" "am_mapref mem' > 0"
      "\<not> as_mtx sc'" "as_state sc' = AGP_ACQUIRE_USER"
    using assms(2-7) bound unlocked
    by (auto simp: agp_map_def word_neq_0_conv split: if_splits sum.splits)
  then show ?thesis
    using chip.agpclose_loop_stuck[OF ms'(4,1-3), of bd raw pv cw en drv] by (simp add: agpclose_def)
qed

definition demo_mapped :: agp_softc where
  "demo_mapped = demo_bound\<lparr>as_apaddr := 0, as_state := AGP_ACQUIRE_USER\<rparr>"

theorem agpclose_mapped_hangs_witness:
  "agpclose demo_methods (snd (agp_map (\<lambda>_ _. None) demo_bus demo_mapped 4096 4096)) = None"
proof -
  have "agp_inv demo_bound" by (rule chip.bind_memory_inv[OF demo_inv demo_bind])
  then have inv: "agp_inv demo_mapped" by (simp add: agp_inv_def demo_mapped_def)
  obtain mem where mem: "as_memory demo_mapped = [mem]" "agp_lookup_memory demo_mapped (uint (4096 :: u64)) = Some mem"
      "am_mapref mem = 0"
    by (auto simp: demo_mapped_def demo_bound_def demo_agp1_def demo_block_def agp_lookup_memory_def)
  obtain va s where m: "agp_map (\<lambda>_ _. None) demo_bus demo_mapped 4096 4096 = (Some va, s)"
    using mem by (simp add: agp_map_def demo_mapped_def demo_bound_def demo_defs)
  show ?thesis
    using agpclose_mapped_hangs[OF inv _ mem(1) _ mem(2) _ m] mem(3) m by (simp add: demo_mapped_def)
qed

text \<open>
  the address \<^verbatim>\<open>agp_map\<close> hands out for such a bridge adds the offset in the aperture, not the
  offset in the block, to the block's address: from an aperture offset of the block's size on, it lies
  behind the block.
\<close>

theorem agp_map_behind_block:
  assumes "as_chipc sc \<noteq> None" "as_apaddr sc = 0" "address < as_apsize sc"
    and "agp_lookup_memory sc (uint address) = Some mem" "am_mapref mem = 0"
    and "bd_kva bd (as_live sc) (am_dmaseg mem) (am_size mem) = Inr kva"
    and "am_size mem \<le> address" "unat kva + unat address < 2 ^ 64"
  shows "\<exists>va. fst (agp_map bsm bd sc address sz) = Some va \<and> unat kva + unat (am_size mem) \<le> unat va"
proof -
  have "fst (agp_map bsm bd sc address sz) = Some (kva + address)"
    using assms by (simp add: agp_map_def not_le)
  moreover have "unat (kva + address) = unat kva + unat address"
    using assms(8) by (simp add: unat_word_ariths)
  ultimately show ?thesis using assms(7) by (simp add: word_le_nat_alt)
qed

theorem agp_map_behind_block_witness:
  "\<exists>va. fst (agp_map (\<lambda>_ _. None) demo_bus demo_mapped 4096 4096) = Some va \<and> 0x200000 + 4096 \<le> unat va"
proof -
  obtain mem where mem: "agp_lookup_memory demo_mapped (uint (4096 :: u64)) = Some mem"
      "am_mapref mem = 0" "am_size mem = 4096"
    by (auto simp: demo_mapped_def demo_bound_def demo_agp1_def demo_block_def agp_lookup_memory_def)
  show ?thesis
    using agp_map_behind_block[OF _ _ _ mem(1,2), of demo_bus "0x200000" "\<lambda>_ _. None" 4096] mem(3)
    by (simp add: demo_mapped_def demo_bound_def demo_defs)
qed

text \<open>
  deallocating a bound block answers success and does nothing: the error of the release is
  dropped.
\<close>

theorem agp_deallocate_bound:
  assumes "agp_find_memory sc i = Some mem" "am_is_bound mem \<noteq> 0"
  shows "agpioctl (agp_driver_methods bd raw pv cw en drv) True sc (AGPIOC_DEALLOCATE i) = Ret (E_OK, NO_REPLY, sc)"
  using assms find_memory_id[OF assms(1)]
  by (simp add: agpioctl_def agp_deallocate_user_def agp_generic_free_memory_def no_reply_def)

theorem agp_deallocate_bound_witness:
  "agpioctl demo_methods True demo_bound (AGPIOC_DEALLOCATE 0) = Ret (E_OK, NO_REPLY, demo_bound)"
proof -
  obtain mem where "agp_find_memory demo_bound 0 = Some mem" "am_is_bound mem \<noteq> 0"
    by (auto simp: demo_bound_def demo_agp1_def demo_block_def agp_find_memory_def)
  then show ?thesis by (rule agp_deallocate_bound)
qed

end
