(* ===== verification/Agp_Aperture.thy ===== *)
theory Agp_Aperture
  imports Agp_Props
begin

text \<open>
  The aperture registers and the table entries of the chipset drivers, at the level of bits: which
  drivers read back the aperture they were asked to set, and which do not.
\<close>

section \<open>Fields of a register\<close>

lemma insert_field:
  fixes k m x :: u32
  assumes "k AND NOT m = 0"
  shows "((x AND NOT m) OR k) AND m = k"
proof (rule bit_word_eqI)
  fix n
  assume n: "n < LENGTH(32)"
  have "bit (k AND NOT m) n = False" using assms by simp
  then show "bit (((x AND NOT m) OR k) AND m) n = bit k n" using n by (auto simp: bit_simps)
qed

lemma xor_mask_twice:
  fixes d m :: u32
  assumes "d AND NOT m = 0"
  shows "((d XOR m) AND m) XOR m = d"
proof (rule bit_word_eqI)
  fix n
  assume n: "n < LENGTH(32)"
  have "bit (d AND NOT m) n = False" using assms by simp
  then show "bit (((d XOR m) AND m) XOR m) n = bit d n" using n by (auto simp: bit_simps)
qed

lemma xor_twice: "((d :: u32) XOR m) XOR m = d"
  by (simp add: xor.assoc)

lemma table_index_Some: "table_index t v = Some i \<Longrightarrow> i < length t \<and> t ! i = v"
  by (auto simp: table_index_def find_Some_iff)

lemma read_write:
  assumes "stores cw UNIV"
  shows "pci_conf_read (pci_conf_write cw sc t r v) t' r' = (if t' = t \<and> r' = r then v else pci_conf_read sc t' r')"
  using assms by (auto simp: stores_def pci_conf_read_def pci_conf_write_def)

lemma write_sel [simp]:
  "chipc (pci_conf_write cw sc t r v) = chipc sc" "as_tag (pci_conf_write cw sc t r v) = as_tag sc"
  "as_id (pci_conf_write cw sc t r v) = as_id sc"
  by (simp_all add: pci_conf_write_def chipc_def)

section \<open>Drivers that read back what they set\<close>

text \<open>
  The sizes for which a driver works: on Intel those within the mask of the register, on the old VIA
  bridges up to 256 megabytes, and on no size for SiS and AMD 751.
\<close>

definition aperture_programmable :: "agp_driver \<Rightarrow> agp_softc \<Rightarrow> u32 \<Rightarrow> bool" where
  "aperture_programmable drv sc a =
     (case drv of
        DRV_INTEL \<Rightarrow> drop_bit 22 (a - 1) AND NOT (aperture_mask (chipc sc)) = 0
      | DRV_SIS \<Rightarrow> False
      | DRV_ALI \<Rightarrow> True
      | DRV_VIA \<Rightarrow> via_v3 (chipc sc) \<or> drop_bit 20 (a - 1) AND NOT 0xff = 0
      | DRV_AMD \<Rightarrow> False
      | DRV_AMD64 \<Rightarrow> mctrl_tag (chipc sc) \<noteq> [])"

lemma intel_roundtrip:
  assumes "stores cw UNIV" "agp_intel_set_aperture cw sc a = (E_OK, sc')"
    and "drop_bit 22 (a - 1) AND NOT (aperture_mask (chipc sc)) = 0"
  shows "agp_intel_get_aperture sc' = a"
proof -
  let ?m = "aperture_mask (chipc sc)" and ?d = "drop_bit 22 (a - 1)"
  have sc': "sc' = pci_conf_write cw sc (as_tag sc) AGP_INTEL_APSIZE (?d XOR ?m)"
    and check: "(push_bit 22 ((?d XOR ?m) XOR ?m) OR (push_bit 22 1 - 1)) + 1 = a"
    using assms(2) by (auto simp: agp_intel_set_aperture_def Let_def split: if_splits)
  have "agp_intel_get_aperture sc' = (push_bit 22 (((?d XOR ?m) AND ?m) XOR ?m) OR (push_bit 22 1 - 1)) + 1"
    by (simp only: agp_intel_get_aperture_def Let_def sc' write_sel read_write[OF assms(1)] simp_thms if_True)
  then show ?thesis using check unfolding xor_mask_twice[OF assms(3)] xor_twice by simp
qed

lemma ali_index_field: "i < 11 \<Longrightarrow> unat (((x AND - 16) OR of_nat i) AND (15 :: u32)) = i"
proof -
  assume i: "i < 11"
  then have "i \<in> {0, 1, 2, 3, 4, 5, 6, 7, 8, 9, 10}" by (auto simp: numeral_eq_Suc less_Suc_eq)
  then have "(of_nat i :: u32) AND NOT 15 = 0" by auto
  then have "((x AND - 16) OR of_nat i) AND (15 :: u32) = of_nat i" using insert_field[of "of_nat i" 15 x] by simp
  then show ?thesis using i by (simp add: unat_of_nat)
qed

lemma ali_roundtrip:
  assumes "stores cw UNIV" "agp_ali_set_aperture cw sc a = (E_OK, sc')"
  shows "agp_ali_get_aperture sc' = a"
proof -
  obtain i where i: "table_index agp_ali_table a = Some i"
      "sc' = pci_conf_write cw sc (as_tag sc) AGP_ALI_ATTBASE
         ((pci_conf_read sc (as_tag sc) AGP_ALI_ATTBASE AND NOT 0xf) OR of_nat i)"
    using assms(2) by (auto simp: agp_ali_set_aperture_def split: if_splits option.splits)
  have lt: "i < length agp_ali_table" "agp_ali_table ! i = a"
    using table_index_Some[OF i(1)] by simp_all
  have "i < 11" using lt(1) by (simp add: agp_ali_table_def)
  then show ?thesis
    using lt by (simp add: agp_ali_get_aperture_def i(2) read_write[OF assms(1)] ali_index_field Let_def)
qed

lemma via3_key_size: "via3_key a = Some k \<Longrightarrow> via3_size k = Some a \<and> k AND NOT 0xfff = 0"
  by (auto simp: via3_key_def via3_size_def split: if_splits)

lemma via_roundtrip:
  assumes "stores cw UNIV" "agp_via_set_aperture cw sc a = (E_OK, sc')"
    and "via_v3 (chipc sc) \<or> drop_bit 20 (a - 1) AND NOT 0xff = 0"
  shows "agp_via_get_aperture sc' = a"
proof (cases "via_v3 (chipc sc)")
  case True
  obtain k where k: "via3_key a = Some k"
      "sc' = pci_conf_write cw sc (as_tag sc) (via_reg_apsize True)
         ((pci_conf_read sc (as_tag sc) (via_reg_apsize True) AND NOT 0xfff) OR k)"
    using assms(2) True by (auto simp: agp_via_set_aperture_def split: option.splits)
  show ?thesis
    using via3_key_size[OF k(1)] True insert_field[of k "0xfff" "pci_conf_read sc (as_tag sc) (via_reg_apsize True)"]
    by (simp add: agp_via_get_aperture_def k(2) read_write[OF assms(1)])
next
  case False
  let ?d = "drop_bit 20 (a - 1)"
  have d: "?d AND NOT 0xff = 0" using assms(3) False by simp
  have "(?d XOR 0xff) AND NOT 0xff = 0"
  proof (rule bit_word_eqI)
    fix n
    assume "n < LENGTH(32)"
    moreover have "bit (?d AND NOT 0xff) n = False" unfolding d by simp
    ultimately show "bit ((?d XOR 0xff) AND NOT 0xff) n = bit (0 :: u32) n" by (auto simp: bit_simps)
  qed
  then have field: "((x AND NOT 0xff) OR (?d XOR 0xff)) AND 0xff = ?d XOR 0xff" for x :: u32
    by (rule insert_field)
  have sc': "sc' = pci_conf_write cw sc (as_tag sc) (via_reg_apsize False)
      ((pci_conf_read sc (as_tag sc) (via_reg_apsize False) AND NOT 0xff) OR (?d XOR 0xff))"
    and check: "(push_bit 20 ((?d XOR 0xff) XOR 0xff) OR (push_bit 20 1 - 1)) + 1 = a"
    using assms(2) False by (auto simp: agp_via_set_aperture_def Let_def split: if_splits)
  have v: "\<not> via_v3 (chipc sc')" using False by (simp add: sc')
  have "agp_via_get_aperture sc' = (push_bit 20 ((?d XOR 0xff) XOR 0xff) OR (push_bit 20 1 - 1)) + 1"
    by (simp only: agp_via_get_aperture_def v Let_def sc' write_sel read_write[OF assms(1)] field simp_thms if_True
        not_False_eq_True) (use v sc' in simp)
  then show ?thesis using check by simp
qed

subsection \<open>AMD64\<close>

lemma amd64_set_units_sel [simp]:
  "chipc (amd64_set_units cw i n sc) = chipc sc" "as_tag (amd64_set_units cw i n sc) = as_tag sc"
  "as_id (amd64_set_units cw i n sc) = as_id sc"
  by (induction cw i n sc rule: amd64_set_units.induct) (simp_all add: Let_def)

lemma amd64_set_units_read:
  assumes "stores cw UNIV"
  shows "pci_conf_read (amd64_set_units cw i n sc) t r =
    (if t = mctrl_tag (chipc sc) ! 0 \<and> r = AGP_AMD64_APCTRL \<and> 0 < n
     then (pci_conf_read sc t r AND NOT AGP_AMD64_APCTRL_SIZE_MASK) OR push_bit 1 i
     else pci_conf_read sc t r)"
proof (induction n arbitrary: sc)
  case (Suc n)
  have twice: "(((x AND NOT m) OR p) AND NOT m) OR p = (x AND NOT m) OR p" for x m p :: u32
    by (rule bit_word_eqI) (auto simp: bit_simps)
  show ?case by (simp add: Let_def Suc.IH read_write[OF assms] twice)
qed simp

lemma amd64_bridge_read:
  assumes "stores cw UNIV" "agp_amd64_set_aperture pv cw sc a = (e, sc')" "table_index agp_amd64_table a = Some i"
  shows "pci_conf_read sc' t AGP_AMD64_APCTRL =
      pci_conf_read (amd64_set_units cw (of_nat i) (length (mctrl_tag (chipc sc))) sc) t AGP_AMD64_APCTRL
    \<and> chipc sc' = chipc sc"
  using assms(2,3)
  by (auto simp: agp_amd64_set_aperture_def Let_def agp_amd64_uli_set_aperture_def
      agp_amd64_nvidia_set_aperture_def agp_amd64_via_set_aperture_def read_write[OF assms(1)]
      AGP_AMD64_APCTRL_def AGP_AMD64_ULI_ENU_SCR_def AGP_AMD64_NVIDIA_1_APSIZE_def
      AGP_AMD64_NVIDIA_1_APLIMIT1_def AGP_AMD64_NVIDIA_1_APLIMIT2_def AGP3_VIA_APSIZE_def
      split: if_splits option.splits)

lemma amd64_index_field:
  "i < 7 \<Longrightarrow> unat (drop_bit 1 (((x AND - 15) OR push_bit 1 (of_nat i)) AND (14 :: u32))) = i"
proof -
  assume "i < 7"
  then have i: "i \<in> {0, 1, 2, 3, 4, 5, 6}" by (auto simp: numeral_eq_Suc less_Suc_eq)
  then have "push_bit 1 (of_nat i :: u32) AND NOT 14 = 0" by auto
  then have "((x AND - 15) OR push_bit 1 (of_nat i)) AND (14 :: u32) = push_bit 1 (of_nat i)"
    using insert_field[of "push_bit 1 (of_nat i)" 14 x] by simp
  then show ?thesis using i by auto
qed

lemma amd64_roundtrip:
  assumes "stores cw UNIV" "agp_amd64_set_aperture pv cw sc a = (E_OK, sc')" "mctrl_tag (chipc sc) \<noteq> []"
  shows "agp_amd64_get_aperture sc' = a"
proof -
  obtain i where i: "table_index agp_amd64_table a = Some i"
    using assms(2) by (auto simp: agp_amd64_set_aperture_def split: option.splits)
  have lt: "i < length agp_amd64_table" "agp_amd64_table ! i = a"
    using table_index_Some[OF i] by simp_all
  have "i < 7" using lt(1) by (simp add: agp_amd64_table_def)
  then show ?thesis
    using lt assms(3) amd64_bridge_read[OF assms(1,2) i] amd64_index_field[of i]
    by (simp add: agp_amd64_get_aperture_def amd64_set_units_read[OF assms(1)] AGP_AMD64_APCTRL_SIZE_MASK_def Let_def)
qed

text \<open>
  On ALi, AMD64, the newer VIA bridges, the older ones up to 256 megabytes and Intel within the
  register's mask, an aperture that is accepted is the aperture read back, whatever the registers held.
\<close>

theorem aperture_roundtrip:
  assumes "stores cw UNIV" "set_aperture (chip_ops pv cw en drv) sc a = (E_OK, sc')"
    and "aperture_programmable drv sc a"
  shows "get_aperture (chip_ops pv cw en drv) sc' = a"
  using assms
  by (cases drv)
    (auto simp: chip_ops_def aperture_programmable_def
      intro: intel_roundtrip ali_roundtrip via_roundtrip amd64_roundtrip)

lemma demo_stores: "stores demo_write UNIV"
  by (auto simp: stores_def demo_write_def)

theorem aperture_roundtrip_witness:
  "get_aperture (chip_ops demo_vendors demo_write demo_enable DRV_ALI)
     (snd (set_aperture (chip_ops demo_vendors demo_write demo_enable DRV_ALI) demo_agp 0x2000000)) = 0x2000000"
proof -
  have "set_aperture (chip_ops demo_vendors demo_write demo_enable DRV_ALI) demo_agp 0x2000000 =
      (E_OK, snd (set_aperture (chip_ops demo_vendors demo_write demo_enable DRV_ALI) demo_agp 0x2000000))"
    by (simp add: chip_ops_def agp_ali_set_aperture_def table_index_def agp_ali_table_def MBYTE_def upt_rec)
  then show ?thesis by (rule aperture_roundtrip[OF demo_stores]) (simp add: aperture_programmable_def)
qed

section \<open>Drivers that do not\<close>

text \<open>A word that shares no bit with its predecessor is divisible by every power of two up to itself.\<close>

lemma pow2_divides:
  fixes a :: u32
  assumes "a AND (a - 1) = 0" "2 ^ n \<le> unat a"
  shows "unat a mod 2 ^ n = 0"
proof (rule ccontr)
  assume r: "unat a mod 2 ^ n \<noteq> 0"
  note pos = assms(2)
  have "a \<noteq> 0" using pos by auto
  then have pred: "unat (a - 1) = unat a - 1" by (metis unat_minus_one)
  have "(unat a - 1) div 2 ^ n = unat a div 2 ^ n"
  proof -
    have eq: "unat a - 1 = unat a div 2 ^ n * 2 ^ n + (unat a mod 2 ^ n - 1)"
      using r div_mult_mod_eq[of "unat a" "2 ^ n"] by linarith
    have lt: "unat a mod 2 ^ n - 1 < 2 ^ n" using r by (simp add: less_imp_diff_less)
    show ?thesis unfolding eq using lt by simp
  qed
  then have "drop_bit n (a - 1) = drop_bit n a"
    unfolding word_unat_eq_iff unat_drop_bit_eq by (simp add: drop_bit_eq_div pred)
  then have "drop_bit n (a AND (a - 1)) = drop_bit n a" by (simp add: drop_bit_and)
  then have "unat a div 2 ^ n = 0"
    using assms(1) by (metis drop_bit_eq_div drop_bit_of_0 unat_0 unat_drop_bit_eq)
  then show False using pos by (simp add: div_eq_0_iff)
qed

lemma ffs_zero: "ffs 0 = 0"
proof -
  have "find (bit (0 :: u32)) [0..<32] = None" unfolding find_None_iff by simp
  then show ?thesis by (simp only: ffs_def option.case)
qed

text \<open>The size in units, times a megabyte once more, leaves no bit in a word.\<close>

lemma sis_units_zero:
  fixes a :: u32
  assumes "a AND (a - 1) = 0" "4 * 1024 * 1024 \<le> a"
  shows "a div 4 * 1024 * 1024 = 0"
proof -
  have "unat a mod 2 ^ 22 = 0"
    by (rule pow2_divides[OF assms(1)]) (use assms(2) in \<open>simp add: word_le_nat_alt\<close>)
  then obtain q where q: "unat a = 4194304 * q" by auto
  have "a div 4 = of_nat (1048576 * q)" by (simp add: word_arith_nat_div q)
  then have "a div 4 * 1024 * 1024 = of_nat (4294967296 * (256 * q))" by simp
  also have "\<dots> = of_nat 4294967296 * of_nat (256 * q)" by (rule of_nat_mult)
  also have "of_nat 4294967296 = (0 :: u32)" by simp
  finally show ?thesis by simp
qed

lemma amd_units_zero:
  fixes a :: u32
  assumes "a AND (a - 1) = 0" "32 * 1024 * 1024 \<le> a"
  shows "a div 32 * 1024 * 1024 = 0"
proof -
  have "unat a mod 2 ^ 25 = 0"
    by (rule pow2_divides[OF assms(1)]) (use assms(2) in \<open>simp add: word_le_nat_alt\<close>)
  then obtain q where q: "unat a = 33554432 * q" by auto
  have "a div 32 = of_nat (1048576 * q)" by (simp add: word_arith_nat_div q)
  then have "a div 32 * 1024 * 1024 = of_nat (4294967296 * (256 * q))" by simp
  also have "\<dots> = of_nat 4294967296 * of_nat (256 * q)" by (rule of_nat_mult)
  also have "of_nat 4294967296 = (0 :: u32)" by simp
  finally show ?thesis by simp
qed

lemma or_high: "(((x :: u32) AND m) OR k) AND f = f" if "k AND f = f" for k f
proof (rule bit_word_eqI)
  fix n
  assume "n < LENGTH(32)"
  have "bit (k AND f) n = bit f n" using that by simp
  then show "bit (((x AND m) OR k) AND f) n = bit f n" by (auto simp: bit_simps)
qed

text \<open>
  the SiS and the AMD 751 drivers cannot set an aperture: the number of the size is computed
  from \<^verbatim>\<open>aperture / 4*1024*1024\<close>, which is 0 in 32 bits for every accepted size, so that all the bits
  of the size are set and the aperture read back is the largest, 512 and 256 megabytes.
\<close>

theorem sis_amd_set_aperture:
  assumes "stores cw UNIV"
  shows "(agp_sis_set_aperture cw sc a = (E_OK, sc') \<longrightarrow> agp_sis_get_aperture sc' = 512 * 1024 * 1024)
    \<and> (agp_amd_set_aperture cw sc a = (E_OK, sc') \<longrightarrow> agp_amd_get_aperture sc' = 256 * 1024 * 1024)"
proof (intro conjI impI)
  assume set: "agp_sis_set_aperture cw sc a = (E_OK, sc')"
  then have a: "a AND (a - 1) = 0" "4 * 1024 * 1024 \<le> a"
    by (auto simp: agp_sis_set_aperture_def not_less split: if_splits)
  have sc': "sc' = pci_conf_write cw sc (as_tag sc) AGP_SIS_WINCTRL
      ((pci_conf_read sc (as_tag sc) AGP_SIS_WINCTRL AND NOT 0x70) OR word_of_int (- 16))"
    using set by (simp add: agp_sis_set_aperture_def sis_units_zero[OF a] ffs_zero Let_def split: if_splits)
  have "((x AND NOT 0x70) OR word_of_int (- 16)) AND 0x70 = (0x70 :: u32)" for x
    by (rule or_high) simp
  then have "agp_sis_get_aperture sc' = push_bit (unat (drop_bit 4 0x70 :: u32)) (4 * 1024 * 1024)"
    by (simp only: agp_sis_get_aperture_def sc' write_sel read_write[OF assms] Let_def simp_thms if_True)
  then show "agp_sis_get_aperture sc' = 512 * 1024 * 1024" by (simp add: push_bit_eq_mult)
next
  assume set: "agp_amd_set_aperture cw sc a = (E_OK, sc')"
  then have a: "a AND (a - 1) = 0" "32 * 1024 * 1024 \<le> a"
    by (auto simp: agp_amd_set_aperture_def not_less split: if_splits)
  have sc': "sc' = pci_conf_write cw sc (as_tag sc) AGP_AMD751_APCTRL
      ((pci_conf_read sc (as_tag sc) AGP_AMD751_APCTRL AND NOT 0x06) OR word_of_int (- 2))"
    using set by (simp add: agp_amd_set_aperture_def amd_units_zero[OF a] ffs_zero Let_def split: if_splits)
  have "((x AND NOT 0x06) OR word_of_int (- 2)) AND 0x06 = (0x06 :: u32)" for x
    by (rule or_high) simp
  then have "agp_amd_get_aperture sc' = push_bit (unat (drop_bit 1 0x06 :: u32)) (32 * 1024 * 1024)"
    by (simp only: agp_amd_get_aperture_def sc' write_sel read_write[OF assms] Let_def simp_thms if_True)
  then show "agp_amd_get_aperture sc' = 256 * 1024 * 1024" by (simp add: push_bit_eq_mult)
qed

theorem sis_amd_set_aperture_witness:
  "agp_sis_set_aperture demo_write demo_agp 0x400000 =
     (E_OK, snd (agp_sis_set_aperture demo_write demo_agp 0x400000))
   \<and> agp_sis_get_aperture (snd (agp_sis_set_aperture demo_write demo_agp 0x400000)) = 512 * 1024 * 1024"
proof -
  have ok: "agp_sis_set_aperture demo_write demo_agp 0x400000 =
     (E_OK, snd (agp_sis_set_aperture demo_write demo_agp 0x400000))"
    by (simp add: agp_sis_set_aperture_def)
  then show ?thesis using sis_amd_set_aperture[OF demo_stores] by blast
qed

text \<open>
  on AMD64 setting the aperture programs the first control unit only: the register of every
  other processor's unit keeps its size.
\<close>

theorem amd64_other_units_unset:
  assumes "stores cw UNIV" "agp_amd64_set_aperture pv cw sc a = (e, sc')"
    and "t \<in> set (mctrl_tag (chipc sc))" "t \<noteq> mctrl_tag (chipc sc) ! 0"
  shows "pci_conf_read sc' t AGP_AMD64_APCTRL = pci_conf_read sc t AGP_AMD64_APCTRL"
proof (cases "table_index agp_amd64_table a")
  case None
  then show ?thesis using assms(2) by (simp add: agp_amd64_set_aperture_def)
next
  case (Some i)
  then show ?thesis
    using amd64_bridge_read[OF assms(1,2) Some] assms(4) by (simp add: amd64_set_units_read[OF assms(1)])
qed

theorem amd64_other_units_unset_witness:
  "pci_conf_read (snd (agp_amd64_set_aperture demo_vendors demo_write demo_agp 0x4000000)) 9 AGP_AMD64_APCTRL = 0"
proof -
  have "pci_conf_read (snd (agp_amd64_set_aperture demo_vendors demo_write demo_agp 0x4000000)) 9 AGP_AMD64_APCTRL
      = pci_conf_read demo_agp 9 AGP_AMD64_APCTRL"
    by (rule amd64_other_units_unset[OF demo_stores prod.collapse[symmetric]])
      (simp_all add: chipc_def demo_agp_def demo_chip_def)
  then show ?thesis by (simp add: pci_conf_read_def demo_agp_def)
qed

section \<open>The entries of AMD64\<close>

text \<open>
  an entry of the AMD64 table holds every page address below 2 to the 40: bits 12 to 31 in
  place, bits 32 to 39 in bits 4 to 11.
\<close>

theorem amd64_pte_roundtrip:
  assumes "pa AND 0xfff = 0" "drop_bit 40 pa = 0"
  shows "(ucast (amd64_pte pa) AND 0xfffff000) OR push_bit 28 (ucast (amd64_pte pa) AND 0xff0) = pa"
proof (rule bit_word_eqI)
  fix n
  assume n: "n < LENGTH(64)"
  have masks: "(0xfff :: u64) = mask 12" "(0xfffff000 :: u64) = push_bit 12 (mask 20)"
    "(0xff0 :: u64) = push_bit 4 (mask 8)" "(3 :: u64) = mask 2"
    by (simp_all add: mask_eq_exp_minus_1 push_bit_eq_mult)
  have low: "\<not> bit pa k" if "k < 12" for k
  proof -
    have "bit (pa AND mask 12) k = False" using assms(1) unfolding masks by simp
    then show ?thesis using that by (auto simp: bit_simps)
  qed
  have high: "\<not> bit pa k" if "40 \<le> k" for k
  proof -
    have "bit (drop_bit 40 pa) (k - 40) = False" using assms(2) by simp
    then show ?thesis using that by (simp add: bit_drop_bit_eq)
  qed
  have pte: "bit (amd64_pte pa) k \<longleftrightarrow>
      k < 32 \<and> (12 \<le> k \<and> bit pa k \<or> 4 \<le> k \<and> k < 12 \<and> bit pa (28 + k) \<or> k < 2)" for k
    unfolding amd64_pte_def masks by (auto simp: bit_simps)
  consider "n < 12" | "12 \<le> n" "n < 32" | "32 \<le> n" "n < 40" | "40 \<le> n" by linarith
  then show "bit ((ucast (amd64_pte pa) AND 0xfffff000) OR push_bit 28 (ucast (amd64_pte pa) AND 0xff0) :: u64) n = bit pa n"
    unfolding masks using n
    by cases (auto simp: bit_simps pte low high)
qed

theorem amd64_pte_roundtrip_witness:
  "(ucast (amd64_pte 0x9876543000) AND 0xfffff000) OR push_bit 28 (ucast (amd64_pte 0x9876543000) AND 0xff0)
   = (0x9876543000 :: u64)"
  by (rule amd64_pte_roundtrip) simp_all

end
