(* ===== verification/Drm_Bus.thy ===== *)
theory Drm_Bus
  imports Drm_Irq Agp_User
begin

text \<open>
  The part of \<^verbatim>\<open>struct drm_device\<close> that holds maps, AGP memory, scatter-gather memory and DMA
  buffers (\<^verbatim>\<open>drmP.h\<close>), its lock \<^verbatim>\<open>dev_lock\<close>, the memory type registers (\<^verbatim>\<open>drm_memory.c\<close>) and
  \<^verbatim>\<open>_bus_dmamem_mmap\<close> (\<^verbatim>\<open>bus_dma.c\<close>). The answers of the host kernel are the record \<open>kern\<close>.
\<close>

section \<open>The kernel's answers\<close>

text \<open>
  \<open>ext_alloc\<close> is \<^verbatim>\<open>extent_alloc\<close> with page alignment, given the regions allocated already;
  \<open>mtrr_set\<close> sets (\<open>True\<close>) or clears a memory type range, \<open>None\<close> on a kernel without
  \<^verbatim>\<open>MTRR_GETSET_KERNEL\<close>; \<open>bs_map\<close> and \<open>bs_mmap\<close> are \<^verbatim>\<open>bus_space_map\<close> followed by
  \<^verbatim>\<open>bus_space_vaddr\<close>, and \<^verbatim>\<open>bus_space_mmap\<close>.
\<close>

record kern = bus_dma +
  ext_alloc :: "(u64 \<times> u64) list \<Rightarrow> u64 \<Rightarrow> errno + u64"
  mtrr_set :: "(u64 \<Rightarrow> u64 \<Rightarrow> bool \<Rightarrow> errno) option"
  bs_map :: "u64 \<Rightarrow> u64 \<Rightarrow> u64 option"
  bs_mmap :: "u64 \<Rightarrow> u64 \<Rightarrow> u64 option"

text \<open>What \<^verbatim>\<open>extent(9)\<close> promises: a page-aligned region of the extent, apart from the others.\<close>

definition ext_region :: "u64 \<times> u64 \<Rightarrow> nat set" where
  "ext_region r = {unat (fst r) ..< unat (fst r) + unat (snd r)}"

definition extent_law :: "('z) kern_scheme \<Rightarrow> bool" where
  "extent_law kn \<longleftrightarrow>
     (\<forall>rs sz. ext_alloc kn rs sz \<noteq> Inl E_OK) \<and>
     (\<forall>rs sz a. sz \<noteq> 0 \<longrightarrow> ext_alloc kn rs sz = Inr a \<longrightarrow>
        2 ^ 30 \<le> unat a \<and> unat a + unat sz \<le> 2 ^ 63 \<and> a AND (of_nat PAGE_SIZE - 1) = 0 \<and>
        (\<forall>r\<in>set rs. ext_region (a, sz) \<inter> ext_region r = {}))"

section \<open>Structures\<close>

definition DRM_FRAME_BUFFER :: u32 where "DRM_FRAME_BUFFER = 0"
definition DRM_REGISTERS :: u32 where "DRM_REGISTERS = 1"
definition DRM_SHM :: u32 where "DRM_SHM = 2"
definition DRM_AGP :: u32 where "DRM_AGP = 3"
definition DRM_SCATTER_GATHER :: u32 where "DRM_SCATTER_GATHER = 4"
definition DRM_CONSISTENT :: u32 where "DRM_CONSISTENT = 5"

lemmas map_types =
  DRM_FRAME_BUFFER_def DRM_REGISTERS_def DRM_SHM_def DRM_AGP_def DRM_SCATTER_GATHER_def DRM_CONSISTENT_def

lemma map_types_neq [simp]:
  "DRM_FRAME_BUFFER \<noteq> DRM_REGISTERS" "DRM_FRAME_BUFFER \<noteq> DRM_SHM" "DRM_FRAME_BUFFER \<noteq> DRM_AGP" "DRM_FRAME_BUFFER \<noteq> DRM_SCATTER_GATHER" "DRM_FRAME_BUFFER \<noteq> DRM_CONSISTENT"
  "DRM_REGISTERS \<noteq> DRM_FRAME_BUFFER" "DRM_REGISTERS \<noteq> DRM_SHM" "DRM_REGISTERS \<noteq> DRM_AGP" "DRM_REGISTERS \<noteq> DRM_SCATTER_GATHER" "DRM_REGISTERS \<noteq> DRM_CONSISTENT"
  "DRM_SHM \<noteq> DRM_FRAME_BUFFER" "DRM_SHM \<noteq> DRM_REGISTERS" "DRM_SHM \<noteq> DRM_AGP" "DRM_SHM \<noteq> DRM_SCATTER_GATHER" "DRM_SHM \<noteq> DRM_CONSISTENT"
  "DRM_AGP \<noteq> DRM_FRAME_BUFFER" "DRM_AGP \<noteq> DRM_REGISTERS" "DRM_AGP \<noteq> DRM_SHM" "DRM_AGP \<noteq> DRM_SCATTER_GATHER" "DRM_AGP \<noteq> DRM_CONSISTENT"
  "DRM_SCATTER_GATHER \<noteq> DRM_FRAME_BUFFER" "DRM_SCATTER_GATHER \<noteq> DRM_REGISTERS" "DRM_SCATTER_GATHER \<noteq> DRM_SHM" "DRM_SCATTER_GATHER \<noteq> DRM_AGP" "DRM_SCATTER_GATHER \<noteq> DRM_CONSISTENT"
  "DRM_CONSISTENT \<noteq> DRM_FRAME_BUFFER" "DRM_CONSISTENT \<noteq> DRM_REGISTERS" "DRM_CONSISTENT \<noteq> DRM_SHM" "DRM_CONSISTENT \<noteq> DRM_AGP" "DRM_CONSISTENT \<noteq> DRM_SCATTER_GATHER"
  by (simp_all add: map_types)

definition DRM_RESTRICTED :: u32 where "DRM_RESTRICTED = 0x01"
definition DRM_WRITE_COMBINING :: u32 where "DRM_WRITE_COMBINING = 0x10"
definition DRM_CONTAINS_LOCK :: u32 where "DRM_CONTAINS_LOCK = 0x20"
definition DRM_REMOVABLE :: u32 where "DRM_REMOVABLE = 0x40"
definition DRM_DRIVER :: u32 where "DRM_DRIVER = 0x80"

text \<open>A map is named by \<open>lm_id\<close>, which is what a pointer to it stands for.\<close>

record drm_local_map =
  lm_id :: nat
  lm_dmamem :: "drm_dmamem option"
  lm_handle :: u64
  lm_ext :: u64
  lm_offset :: u64
  lm_size :: u64
  lm_mtrr :: int
  lm_flags :: u32
  lm_type :: u32

record drm_agp_mem =
  ae_handle :: int
  ae_bound :: u64
  ae_pages :: int

text \<open>The AGP device that \<^verbatim>\<open>agpdev\<close> points to is \<open>agp_dev\<close> of the device record below.\<close>

record drm_agp_head =
  ah_memory :: "drm_agp_mem list"
  ah_info :: agp_info
  ah_base :: u64
  ah_mode :: u64
  ah_acquired :: int
  ah_enabled :: int
  ah_mtrr :: int

record drm_sg_mem =
  sg_mem :: drm_dmamem
  sg_handle :: u64

record drm_buf =
  b_idx :: int
  b_total :: int
  b_used :: int
  b_offset :: u64
  b_address :: u64
  b_bus_address :: u64
  b_pending :: int
  b_file_priv :: "int option"
  b_dev_private :: bool

record drm_buf_entry =
  be_seglist :: "drm_dmamem option list"
  be_buflist :: "drm_buf list"
  be_buf_count :: int
  be_buf_size :: int
  be_page_order :: nat
  be_seg_count :: int

text \<open>An element of \<open>dma_buflist\<close> is a pointer into \<open>dma_bufs\<close>: the order and the index.\<close>

record drm_device_dma =
  dma_lock :: bool
  dma_bufs :: "drm_buf_entry list"
  dma_buflist :: "(nat \<times> nat) list option"
  dma_pagelist :: "u64 list option"
  dma_byte_count :: u64
  dma_buf_use :: int
  dma_buf_count :: int
  dma_page_count :: int
  dma_seg_count :: int
  dma_flags :: u32

text \<open>
  \<open>lock_kva\<close> is the pointer \<^verbatim>\<open>dev->lock.hw_lock\<close>, whose word is \<open>hw_lock\<close> of \<open>drm_lock_data\<close>;
  \<open>next_map\<close> names the next map; \<open>dma_mem\<close> is what the device has allocated.
\<close>

record bus_dev = irq_dev +
  dev_lock :: bool
  handle_ext :: "(u64 \<times> u64) list"
  maplist :: "drm_local_map list"
  next_map :: nat
  lock_kva :: "u64 option"
  agp :: "drm_agp_head option"
  agp_dev :: agp_softc
  sg :: "drm_sg_mem option"
  dma :: "drm_device_dma option"
  agp_buffer_map :: "drm_local_map option"
  dma_mem :: dma_live
  buf_pgid :: int
  unique :: string

section \<open>The device lock\<close>

definition DRM_LOCK :: "'a bus_dev_scheme \<Rightarrow> 'a bus_dev_scheme outcome" where
  "DRM_LOCK d = (if dev_lock d then Panic else Ret (d\<lparr>dev_lock := True\<rparr>))"

definition DRM_UNLOCK :: "'a bus_dev_scheme \<Rightarrow> 'a bus_dev_scheme outcome" where
  "DRM_UNLOCK d = (if dev_lock d then Ret (d\<lparr>dev_lock := False\<rparr>) else Panic)"

section \<open>Memory\<close>

definition drm_new :: "('z) kern_scheme \<Rightarrow> kobj \<Rightarrow> dma_live \<Rightarrow> dma_live option" where
  "drm_new kn k l = (if bd_malloc (bus_dma.truncate kn) l k then Some (add_mset (R_mem k) l) else None)"

definition drm_free :: "kobj \<Rightarrow> dma_live \<Rightarrow> dma_live" where
  "drm_free k l = l - {#R_mem k#}"

lemma drm_new_Some: "drm_new kn k l = Some l' \<Longrightarrow> l' = add_mset (R_mem k) l"
  by (auto simp: drm_new_def split: if_splits)

lemma drm_free_new [simp]: "drm_free k (add_mset (R_mem k) l) = l"
  by (simp add: drm_free_def)

definition drm_mtrr_add :: "('z) kern_scheme \<Rightarrow> u64 \<Rightarrow> u64 \<Rightarrow> dma_live \<Rightarrow> errno \<times> dma_live" where
  "drm_mtrr_add kn offset sz l =
     (case mtrr_set kn of
        None \<Rightarrow> (E_OK, l)
      | Some f \<Rightarrow> (let e = f offset sz True in (e, if e = E_OK then add_mset (R_mtrr offset sz) l else l)))"

definition drm_mtrr_del :: "('z) kern_scheme \<Rightarrow> u64 \<Rightarrow> u64 \<Rightarrow> dma_live \<Rightarrow> errno \<times> dma_live" where
  "drm_mtrr_del kn offset sz l =
     (case mtrr_set kn of
        None \<Rightarrow> (E_OK, l)
      | Some f \<Rightarrow> (let e = f offset sz False in (e, if e = E_OK then l - {#R_mtrr offset sz#} else l)))"

text \<open>\<open>None\<close> is the address \<open>-1\<close>; the result is a page frame number.\<close>

fun bus_dmamem_mmap :: "dma_seg list \<Rightarrow> u64 \<Rightarrow> u64 option" where
  "bus_dmamem_mmap [] off = None"
| "bus_dmamem_mmap ((addr, len) # segs) off =
     (if off \<ge> len then bus_dmamem_mmap segs (off - len) else Some (drop_bit 12 (addr + off)))"

section \<open>Mapping for the kernel\<close>

definition drm_core_ioremap ::
  "('z) kern_scheme \<Rightarrow> drm_local_map \<Rightarrow> 'a bus_dev_scheme \<Rightarrow> (drm_local_map \<times> 'a bus_dev_scheme) outcome" where
  "drm_core_ioremap kn map0 d =
     (let m = map0\<lparr>lm_handle := 0\<rparr>
      in if lm_type m = DRM_AGP then
           (case agp d of
              None \<Rightarrow> Panic
            | Some h \<Rightarrow>
                (case agp_map (bs_map kn) (bus_dma.truncate kn) (agp_dev d) (lm_offset m - ah_base h) (lm_size m) of
                   (None, sc) \<Rightarrow> Ret (m, d\<lparr>agp_dev := sc\<rparr>)
                 | (Some a, sc) \<Rightarrow> Ret (m\<lparr>lm_handle := a\<rparr>, d\<lparr>agp_dev := sc\<rparr>)))
         else if lm_type m = DRM_FRAME_BUFFER then
           (case bs_map kn (lm_offset m) (lm_size m) of
              None \<Rightarrow> Ret (m, d)
            | Some a \<Rightarrow> Ret (m\<lparr>lm_handle := a\<rparr>, d))
         else Ret (m, d))"

definition drm_core_ioremapfree ::
  "drm_local_map \<Rightarrow> 'a bus_dev_scheme \<Rightarrow> (drm_local_map \<times> 'a bus_dev_scheme) outcome" where
  "drm_core_ioremapfree m d =
     (if lm_handle m = 0 \<or> lm_size m = 0 then Ret (m, d)
      else if lm_type m = DRM_AGP then
        (case agp d of
           None \<Rightarrow> Panic
         | Some _ \<Rightarrow> Ret (m\<lparr>lm_handle := 0\<rparr>, d\<lparr>agp_dev := agp_unmap (agp_dev d) (lm_handle m)\<rparr>))
      else if lm_type m = DRM_FRAME_BUFFER then Ret (m\<lparr>lm_handle := 0\<rparr>, d)
      else Ret (m, d))"

end
