(* ===== verification/Drm_Maps.thy ===== *)
theory Drm_Maps
  imports Drm_Bus
begin

text \<open>
  Maps: \<^verbatim>\<open>drm_core_findmap\<close>, \<^verbatim>\<open>drm_addmap\<close>, \<^verbatim>\<open>drm_rmmap\<close> and their ioctls (\<^verbatim>\<open>drm_bufs.c\<close>),
  \<^verbatim>\<open>drm_getsarea\<close> and \<^verbatim>\<open>drmmmap\<close> (\<^verbatim>\<open>drm_drv.c\<close>), and scatter-gather memory (\<^verbatim>\<open>drm_scatter.c\<close>).
  Where the code releases \<^verbatim>\<open>dev_lock\<close>, others may run: \<open>env k\<close> is what they do to the device in the
  \<open>k\<close>-th such window.
\<close>

section \<open>Adding a map\<close>

definition drm_core_findmap ::
  "'a bus_dev_scheme \<Rightarrow> u64 \<Rightarrow> (drm_local_map option \<times> 'a bus_dev_scheme) outcome" where
  "drm_core_findmap d offset =
     obind (DRM_LOCK d) (\<lambda>d.
       let m = find (\<lambda>m. offset = lm_ext m) (maplist d)
       in obind (DRM_UNLOCK d) (\<lambda>d. Ret (m, d)))"

text \<open>The search for another version of a map the kernel has.\<close>

definition kernel_map :: "u64 \<Rightarrow> u32 \<Rightarrow> drm_local_map \<Rightarrow> bool" where
  "kernel_map offset ty m \<longleftrightarrow>
     lm_type m = ty \<and>
     (lm_offset m = offset \<or> lm_type m = DRM_SHM \<and> lm_flags m = DRM_CONTAINS_LOCK)"

definition find_kernel_map :: "u64 \<Rightarrow> u32 \<Rightarrow> drm_local_map list \<Rightarrow> drm_local_map option" where
  "find_kernel_map offset ty ms =
     (if ty = DRM_REGISTERS \<or> ty = DRM_FRAME_BUFFER \<or> ty = DRM_SHM
      then find (kernel_map offset ty) ms else None)"

text \<open>
  The alignment is computed in an \<^verbatim>\<open>int\<close>; the first segment of a map without segments is what
  \<^verbatim>\<open>bus_dmamap_create\<close> left there, 0.
\<close>

definition map_align :: "u64 \<Rightarrow> u64" where
  "map_align sz =
     (let align = (ucast sz :: u32)
      in scast (if align AND (align - 1) \<noteq> 0 then of_nat PAGE_SIZE else align))"

definition dm_segs0 :: "drm_dmamem \<Rightarrow> u64" where
  "dm_segs0 mem = (case dm_map mem of [] \<Rightarrow> 0 | (addr, _) # _ \<Rightarrow> addr)"

text \<open>
  The \<^verbatim>\<open>switch\<close> on the type of the new map \<open>m\<close>; an error frees the structure, and only that.
\<close>

definition addmap_setup ::
  "('z) kern_scheme \<Rightarrow> (nat \<Rightarrow> 'a bus_dev_scheme \<Rightarrow> 'a bus_dev_scheme) \<Rightarrow> drm_local_map \<Rightarrow>
   'a bus_dev_scheme \<Rightarrow> ((errno \<times> drm_local_map) \<times> 'a bus_dev_scheme) outcome" where
  "addmap_setup kn env m d =
     (let fail = (\<lambda>e d. Ret ((e, m), d\<lparr>dma_mem := drm_free K_MAP (dma_mem d)\<rparr>))
      in if lm_type m = DRM_REGISTERS \<and> lm_flags m AND DRM_WRITE_COMBINING = 0 then Ret ((E_OK, m), d)
      else if lm_type m = DRM_REGISTERS \<or> lm_type m = DRM_FRAME_BUFFER then
        (case drm_mtrr_add kn (lm_offset m) (lm_size m) (dma_mem d) of
           (e, l) \<Rightarrow> Ret ((E_OK, if e = E_OK then m\<lparr>lm_mtrr := 1\<rparr> else m), d\<lparr>dma_mem := l\<rparr>))
      else if lm_type m = DRM_AGP then
        (case agp d of
           None \<Rightarrow> Panic
         | Some h \<Rightarrow>
             let off = if lm_offset m < ah_base h
                         \<or> lm_offset m > ah_base h + ai_aperture_size (ah_info h) - 1
                       then lm_offset m + ah_base h else lm_offset m
             in Ret ((E_OK, m\<lparr>lm_offset := off, lm_mtrr := ah_mtrr h\<rparr>), d))
      else if lm_type m = DRM_SCATTER_GATHER then
        (case sg d of
           None \<Rightarrow> fail EINVAL d
         | Some s \<Rightarrow> Ret ((E_OK, m\<lparr>lm_offset := lm_offset m + sg_handle s\<rparr>), d))
      else if lm_type m = DRM_SHM \<or> lm_type m = DRM_CONSISTENT then
        (case drm_dmamem_alloc (bus_dma.truncate kn) (lm_size m) (map_align (lm_size m)) 1 (lm_size m) (dma_mem d) of
           (None, l) \<Rightarrow> fail ENOMEM (d\<lparr>dma_mem := l\<rparr>)
         | (Some mem, l) \<Rightarrow>
             let m = m\<lparr>lm_dmamem := Some mem, lm_handle := dm_kva mem, lm_offset := dm_segs0 mem\<rparr>;
                 d = d\<lparr>dma_mem := l\<rparr>
             in if lm_type m = DRM_SHM \<and> lm_flags m AND DRM_CONTAINS_LOCK \<noteq> 0 then
                  obind (DRM_LOCK (env 1 d)) (\<lambda>d.
                  if lock_kva d \<noteq> None then
                    obind (DRM_UNLOCK d) (\<lambda>d.
                    Ret ((EBUSY, m),
                         d\<lparr>dma_mem := drm_free K_MAP (drm_dmamem_free (Some mem) (dma_mem d))\<rparr>))
                  else
                    obind (DRM_UNLOCK (d\<lparr>lock_kva := Some (lm_handle m),
                                         lock := (lock d)\<lparr>hw_lock := Some 0\<rparr>\<rparr>)) (\<lambda>d.
                    Ret ((E_OK, m), d)))
                else Ret ((E_OK, m), d))
      else fail EINVAL d)"

text \<open>The lock is kept when the structure cannot be allocated.\<close>

definition drm_addmap ::
  "('z) kern_scheme \<Rightarrow> (nat \<Rightarrow> 'a bus_dev_scheme \<Rightarrow> 'a bus_dev_scheme) \<Rightarrow> u64 \<Rightarrow> u64 \<Rightarrow> u32 \<Rightarrow> u32 \<Rightarrow>
   'a bus_dev_scheme \<Rightarrow> ((errno \<times> drm_local_map option) \<times> 'a bus_dev_scheme) outcome" where
  "drm_addmap kn env offset sz ty fl d =
     (if fl AND DRM_REMOVABLE \<noteq> 0 \<and> ty \<noteq> DRM_SHM then Ret ((EINVAL, None), d)
      else if offset AND (of_nat PAGE_SIZE - 1) \<noteq> 0 \<or> sz AND (of_nat PAGE_SIZE - 1) \<noteq> 0
      then Ret ((EINVAL, None), d)
      else if offset + sz < offset then Ret ((EINVAL, None), d)
      else obind (DRM_LOCK d) (\<lambda>d.
      case find_kernel_map offset ty (maplist d) of
        Some m \<Rightarrow> obind (DRM_UNLOCK d) (\<lambda>d. Ret ((E_OK, Some m), d))
      | None \<Rightarrow>
          obind (DRM_UNLOCK d) (\<lambda>d.
          let d = env 0 d in
          case drm_new kn K_MAP (dma_mem d) of
            None \<Rightarrow> obind (DRM_LOCK d) (\<lambda>d. Ret ((ENOMEM, None), d))
          | Some l \<Rightarrow>
              obind (DRM_LOCK (d\<lparr>dma_mem := l\<rparr>)) (\<lambda>d.
              case ext_alloc kn (handle_ext d) sz of
                Inl e \<Rightarrow> obind (DRM_UNLOCK d) (\<lambda>d.
                  Ret ((e, None), d\<lparr>dma_mem := drm_free K_MAP (dma_mem d)\<rparr>))
              | Inr ext \<Rightarrow>
                  let m = \<lparr>lm_id = next_map d, lm_dmamem = None, lm_handle = 0, lm_ext = ext,
                            lm_offset = offset, lm_size = sz, lm_mtrr = 0, lm_flags = fl, lm_type = ty\<rparr>
                  in obind (DRM_UNLOCK (d\<lparr>handle_ext := (ext, sz) # handle_ext d,
                                         next_map := Suc (next_map d)\<rparr>)) (\<lambda>d.
                  obind (addmap_setup kn env m d) (\<lambda>((e, m), d).
                  if e \<noteq> E_OK then Ret ((e, None), d)
                  else obind (DRM_LOCK (env 2 d)) (\<lambda>d.
                       obind (DRM_UNLOCK (d\<lparr>maplist := maplist d @ [m]\<rparr>)) (\<lambda>d.
                       Ret ((E_OK, Some m), d)))))))))"

text \<open>The request holds the fields of \<^verbatim>\<open>struct drm_map\<close>.\<close>

record drm_map =
  rq_offset :: u64
  rq_size :: u64
  rq_type :: u32
  rq_flags :: u32
  rq_handle :: u64
  rq_mtrr :: int

definition FREAD :: u32 where "FREAD = 1"
definition FWRITE :: u32 where "FWRITE = 2"

definition drm_addmap_ioctl ::
  "('z) kern_scheme \<Rightarrow> (nat \<Rightarrow> 'a bus_dev_scheme \<Rightarrow> 'a bus_dev_scheme) \<Rightarrow> drm_map \<Rightarrow> drm_file \<Rightarrow>
   'a bus_dev_scheme \<Rightarrow> ((errno \<times> drm_map) \<times> 'a bus_dev_scheme) outcome" where
  "drm_addmap_ioctl kn env rq f d =
     (if f_flags f AND (FREAD OR FWRITE) = 0 then Ret ((EACCES, rq), d)
      else obind (drm_addmap kn env (rq_offset rq) (rq_size rq) (rq_type rq) (rq_flags rq) d)
        (\<lambda>((e, mo), d).
         case mo of
           None \<Rightarrow> Ret ((e, rq), d)
         | Some m \<Rightarrow>
             if e \<noteq> E_OK then Ret ((e, rq), d)
             else Ret ((E_OK, \<lparr>rq_offset = lm_offset m, rq_size = lm_size m, rq_type = lm_type m,
                              rq_flags = lm_flags m, rq_handle = lm_ext m, rq_mtrr = lm_mtrr m\<rparr>), d)))"

section \<open>Removing a map\<close>

text \<open>
  Taking a map out of a list it is not on, and giving back a region that is not allocated, are
  panics.
\<close>

definition drm_rmmap_locked ::
  "('z) kern_scheme \<Rightarrow> drm_local_map \<Rightarrow> 'a bus_dev_scheme \<Rightarrow> 'a bus_dev_scheme outcome" where
  "drm_rmmap_locked kn m d =
     (if m \<notin> set (maplist d) then Panic
      else let d = d\<lparr>maplist := filter (\<lambda>x. lm_id x \<noteq> lm_id m) (maplist d)\<rparr>;
               l = (if (lm_type m = DRM_REGISTERS \<or> lm_type m = DRM_FRAME_BUFFER) \<and> lm_mtrr m \<noteq> 0
                    then snd (drm_mtrr_del kn (lm_offset m) (lm_size m) (dma_mem d))
                    else if lm_type m = DRM_SHM \<or> lm_type m = DRM_CONSISTENT
                    then drm_dmamem_free (lm_dmamem m) (dma_mem d)
                    else dma_mem d)
           in if (lm_ext m, lm_size m) \<notin> set (handle_ext d) then Panic
              else Ret (d\<lparr>handle_ext := remove1 (lm_ext m, lm_size m) (handle_ext d),
                          dma_mem := drm_free K_MAP l\<rparr>))"

definition drm_rmmap ::
  "('z) kern_scheme \<Rightarrow> drm_local_map \<Rightarrow> 'a bus_dev_scheme \<Rightarrow> 'a bus_dev_scheme outcome" where
  "drm_rmmap kn m d = obind (DRM_LOCK d) (\<lambda>d. obind (drm_rmmap_locked kn m d) DRM_UNLOCK)"

definition drm_rmmap_ioctl ::
  "('z) kern_scheme \<Rightarrow> u64 \<Rightarrow> 'a bus_dev_scheme \<Rightarrow> (errno \<times> 'a bus_dev_scheme) outcome" where
  "drm_rmmap_ioctl kn handle d =
     obind (DRM_LOCK d) (\<lambda>d.
     case find (\<lambda>m. lm_handle m = handle \<and> lm_flags m AND DRM_REMOVABLE \<noteq> 0) (maplist d) of
       None \<Rightarrow> obind (DRM_UNLOCK d) (\<lambda>d. Ret (EINVAL, d))
     | Some m \<Rightarrow>
         obind (drm_rmmap_locked kn m d) (\<lambda>d. obind (DRM_UNLOCK d) (\<lambda>d. Ret (E_OK, d))))"

section \<open>Scatter-gather memory\<close>

definition drm_sg_cleanup :: "drm_sg_mem option \<Rightarrow> dma_live \<Rightarrow> dma_live" where
  "drm_sg_cleanup entry l =
     (case entry of None \<Rightarrow> l | Some s \<Rightarrow> drm_free K_SG (drm_dmamem_free (Some (sg_mem s)) l))"

text \<open>The request is its size; the handle comes back.\<close>

definition round_page :: "u64 \<Rightarrow> u64" where
  "round_page x = (x + (of_nat PAGE_SIZE - 1)) AND NOT (of_nat PAGE_SIZE - 1)"

definition drm_sg_alloc ::
  "('z) kern_scheme \<Rightarrow> (nat \<Rightarrow> 'a bus_dev_scheme \<Rightarrow> 'a bus_dev_scheme) \<Rightarrow> u64 \<Rightarrow>
   'a bus_dev_scheme \<Rightarrow> ((errno \<times> u64 option) \<times> 'a bus_dev_scheme) outcome" where
  "drm_sg_alloc kn env rsize d =
     (if sg d \<noteq> None then Ret ((EINVAL, None), d)
      else case drm_new kn K_SG (dma_mem d) of
        None \<Rightarrow> Ret ((ENOMEM, None), d)
      | Some l \<Rightarrow>
          let pages = round_page rsize div of_nat PAGE_SIZE;
              sz = push_bit 12 pages
          in case drm_dmamem_alloc (bus_dma.truncate kn) sz (of_nat PAGE_SIZE)
                    (unat (ucast pages :: u32)) (of_nat PAGE_SIZE) l of
               (None, l) \<Rightarrow> Ret ((ENOMEM, None), d\<lparr>dma_mem := l\<rparr>)
             | (Some mem, l) \<Rightarrow>
                 let s = \<lparr>sg_mem = mem, sg_handle = dm_kva mem\<rparr>
                 in obind (DRM_LOCK (env 0 (d\<lparr>dma_mem := l\<rparr>))) (\<lambda>d.
                    if sg d \<noteq> None then
                      obind (DRM_UNLOCK d) (\<lambda>d.
                      Ret ((EINVAL, Some (sg_handle s)), d\<lparr>dma_mem := drm_sg_cleanup (Some s) (dma_mem d)\<rparr>))
                    else obind (DRM_UNLOCK (d\<lparr>sg := Some s\<rparr>)) (\<lambda>d.
                      Ret ((E_OK, Some (sg_handle s)), d))))"

definition drm_sg_alloc_ioctl ::
  "('z) kern_scheme \<Rightarrow> (nat \<Rightarrow> 'a bus_dev_scheme \<Rightarrow> 'a bus_dev_scheme) \<Rightarrow> u64 \<Rightarrow>
   'a bus_dev_scheme \<Rightarrow> ((errno \<times> u64 option) \<times> 'a bus_dev_scheme) outcome" where
  "drm_sg_alloc_ioctl kn env rsize d = drm_sg_alloc kn env rsize d"

definition drm_sg_free :: "u64 \<Rightarrow> 'a bus_dev_scheme \<Rightarrow> (errno \<times> 'a bus_dev_scheme) outcome" where
  "drm_sg_free handle d =
     obind (DRM_LOCK d) (\<lambda>d.
     let entry = sg d in
     obind (DRM_UNLOCK (d\<lparr>sg := None\<rparr>)) (\<lambda>d.
     case entry of
       None \<Rightarrow> Ret (EINVAL, d)
     | Some s \<Rightarrow>
         if sg_handle s \<noteq> handle then Ret (EINVAL, d)
         else Ret (E_OK, d\<lparr>dma_mem := drm_sg_cleanup (Some s) (dma_mem d)\<rparr>)))"

section \<open>Mapping for user space\<close>

definition drm_getsarea :: "'a bus_dev_scheme \<Rightarrow> (drm_local_map option \<times> 'a bus_dev_scheme) outcome" where
  "drm_getsarea d =
     obind (DRM_LOCK d) (\<lambda>d.
       let m = find (\<lambda>m. lm_type m = DRM_SHM \<and> lm_flags m AND DRM_CONTAINS_LOCK \<noteq> 0) (maplist d)
       in obind (DRM_UNLOCK d) (\<lambda>d. Ret (m, d)))"

text \<open>
  \<open>offset\<close> is the \<^verbatim>\<open>off_t\<close> of the request; compared with a map it is converted to unsigned.
  \<open>None\<close> is the answer \<open>-1\<close>.
\<close>

definition map_of_offset :: "drm_local_map list \<Rightarrow> int \<Rightarrow> drm_local_map option" where
  "map_of_offset ms offset =
     find (\<lambda>m. (word_of_int offset :: u64) \<ge> lm_ext m \<and> (word_of_int offset :: u64) < lm_ext m + lm_size m) ms"

text \<open>The \<^verbatim>\<open>switch\<close> of \<^verbatim>\<open>drmmmap\<close>, at \<open>off\<close> bytes into the map.\<close>

definition drmmmap_type ::
  "('z) kern_scheme \<Rightarrow> 'a bus_dev_scheme \<Rightarrow> drm_local_map \<Rightarrow> u64 \<Rightarrow> u64 option outcome" where
  "drmmmap_type kn d m off =
     (if lm_type m = DRM_AGP then
        (case agp d of
           None \<Rightarrow> Panic
         | Some h \<Rightarrow>
             Ret (agp_mmap (bs_mmap kn) (\<lambda>segs o'. bus_dmamem_mmap segs (word_of_int o')) (agp_dev d)
                    (sint (off + lm_offset m - ah_base h))))
      else if lm_type m = DRM_FRAME_BUFFER \<or> lm_type m = DRM_REGISTERS
      then Ret (Some (off + lm_offset m))
      else if lm_type m = DRM_SCATTER_GATHER then
        (case sg d of
           None \<Rightarrow> Panic
         | Some s \<Rightarrow> Ret (bus_dmamem_mmap (dm_segs (sg_mem s)) (lm_offset m - sg_handle s + off)))
      else if lm_type m = DRM_SHM \<or> lm_type m = DRM_CONSISTENT then
        (case lm_dmamem m of
           None \<Rightarrow> Panic
         | Some mem \<Rightarrow> Ret (bus_dmamem_mmap (dm_segs mem) off))
      else Ret None)"

definition drmmmap ::
  "('z) kern_scheme \<Rightarrow> int \<Rightarrow> int \<Rightarrow> 'a bus_dev_scheme \<Rightarrow> (u64 option \<times> 'a bus_dev_scheme) outcome" where
  "drmmmap kn minor offset d =
     obind (DRM_LOCK d) (\<lambda>d.
     let fp = drm_find_file_by_minor d minor in
     obind (DRM_UNLOCK d) (\<lambda>d.
     case fp of
       None \<Rightarrow> Ret (None, d)
     | Some f \<Rightarrow>
         if authenticated f = 0 then Ret (None, d)
         else if dma d \<noteq> None \<and> offset \<ge> 0 \<and> offset < dma_page_count (the (dma d)) * int PAGE_SIZE
         then (if dma_lock (the (dma d)) then Panic
               else case dma_pagelist (the (dma d)) of
                 None \<Rightarrow> Ret (None, d)
               | Some ps \<Rightarrow> Ret (Some (ps ! nat (offset div int PAGE_SIZE)), d))
         else obind (DRM_LOCK d) (\<lambda>d.
         case map_of_offset (maplist d) offset of
           None \<Rightarrow> obind (DRM_UNLOCK d) (\<lambda>d. Ret (None, d))
         | Some m \<Rightarrow>
             let off = (word_of_int offset :: u64) - lm_ext m in
             if lm_flags m AND DRM_RESTRICTED \<noteq> 0 \<and> master f = 0
             then obind (DRM_UNLOCK d) (\<lambda>d. Ret (None, d))
             else obind (DRM_UNLOCK d) (\<lambda>d.
             obind (drmmmap_type kn d m off) (\<lambda>pa. Ret (pa, d))))))"

end
