(* ===== verification/Bus_Inv.thy ===== *)
theory Bus_Inv
  imports Drm_Maps
begin

text \<open>
  What a device owns: the invariant \<open>bus_inv\<close> states that the regions of the extent are apart from
  each other and are those of the maps, and that the memory the device has allocated is exactly
  that of its maps, scatter-gather memory, AGP entries and DMA buffers. \<open>ex\<close> and \<open>lv\<close> are what is
  allocated beyond that: by a call that is under way, or lost.
\<close>

section \<open>Resources\<close>

definition map_region :: "drm_local_map \<Rightarrow> u64 \<times> u64" where
  "map_region m = (lm_ext m, lm_size m)"

definition map_mtrr :: "('z) kern_scheme \<Rightarrow> drm_local_map \<Rightarrow> dma_live" where
  "map_mtrr kn m =
     (if (lm_type m = DRM_REGISTERS \<or> lm_type m = DRM_FRAME_BUFFER) \<and> lm_mtrr m \<noteq> 0 \<and> mtrr_set kn \<noteq> None
      then {#R_mtrr (lm_offset m) (lm_size m)#} else {#})"

definition map_res :: "('z) kern_scheme \<Rightarrow> drm_local_map \<Rightarrow> dma_live" where
  "map_res kn m =
     {#R_mem K_MAP#} + (case lm_dmamem m of None \<Rightarrow> {#} | Some mem \<Rightarrow> footprint mem) + map_mtrr kn m"

definition sg_res :: "drm_sg_mem option \<Rightarrow> dma_live" where
  "sg_res so = (case so of None \<Rightarrow> {#} | Some s \<Rightarrow> add_mset (R_mem K_SG) (footprint (sg_mem s)))"

definition agp_res :: "drm_agp_head option \<Rightarrow> dma_live" where
  "agp_res ho =
     (case ho of None \<Rightarrow> {#}
      | Some h \<Rightarrow> add_mset (R_mem K_AGPHEAD) (image_mset (\<lambda>_. R_mem K_AGPENTRY) (mset (ah_memory h))))"

definition seg_mem_res :: "drm_dmamem option list \<Rightarrow> dma_live" where
  "seg_mem_res xs = (\<Sum>so\<in>#mset xs. case so of None \<Rightarrow> {#} | Some mem \<Rightarrow> footprint mem)"

definition priv_res :: "drm_buf list \<Rightarrow> dma_live" where
  "priv_res bs = image_mset (\<lambda>_. R_mem K_BUFPRIV) (mset (filter b_dev_private bs))"

definition entry_res :: "drm_buf_entry \<Rightarrow> dma_live" where
  "entry_res e =
     (if be_seg_count e = 0 then {#} else add_mset (R_mem K_SEGLIST) (seg_mem_res (be_seglist e))) +
     (if be_buf_count e = 0 then {#} else add_mset (R_mem K_BUFS) (priv_res (be_buflist e)))"

definition dma_res_of :: "drm_device_dma option \<Rightarrow> dma_live" where
  "dma_res_of dm =
     (case dm of None \<Rightarrow> {#}
      | Some p \<Rightarrow>
          {#R_mem K_DMA#} + (\<Sum>e\<in>#mset (dma_bufs p). entry_res e) +
          (if dma_buflist p = None then {#} else {#R_mem K_BUFLIST#}) +
          (if dma_pagelist p = None then {#} else {#R_mem K_PAGELIST#}))"

definition bus_res :: "('z) kern_scheme \<Rightarrow> 'a bus_dev_scheme \<Rightarrow> dma_live" where
  "bus_res kn d =
     (\<Sum>m\<in>#mset (maplist d). map_res kn m) + sg_res (sg d) + agp_res (agp d) + dma_res_of (dma d)"

section \<open>The invariant\<close>

definition map_shape :: "drm_local_map \<Rightarrow> bool" where
  "map_shape m \<longleftrightarrow>
     (lm_dmamem m \<noteq> None \<longleftrightarrow> lm_type m = DRM_SHM \<or> lm_type m = DRM_CONSISTENT) \<and>
     lm_type m \<in> {DRM_FRAME_BUFFER, DRM_REGISTERS, DRM_SHM, DRM_AGP, DRM_SCATTER_GATHER, DRM_CONSISTENT}"

definition apart :: "u64 \<times> u64 \<Rightarrow> u64 \<times> u64 \<Rightarrow> bool" where
  "apart r s \<longleftrightarrow> ext_region r \<inter> ext_region s = {}"

definition in_extent :: "u64 \<times> u64 \<Rightarrow> bool" where
  "in_extent r \<longleftrightarrow> snd r = 0 \<or> 2 ^ 30 \<le> unat (fst r) \<and> unat (fst r) + unat (snd r) \<le> 2 ^ 63"

definition ids_ok :: "nat multiset \<Rightarrow> nat \<Rightarrow> bool" where
  "ids_ok ids n \<longleftrightarrow> (\<forall>i. count ids i \<le> 1) \<and> (\<forall>i\<in>#ids. i < n)"

definition bus_inv ::
  "('z) kern_scheme \<Rightarrow> (nat \<times> u64 \<times> u64) multiset \<Rightarrow> dma_live \<Rightarrow> 'a bus_dev_scheme \<Rightarrow> bool" where
  "bus_inv kn ex lv d \<longleftrightarrow>
     ids_ok (image_mset lm_id (mset (maplist d)) + image_mset fst ex) (next_map d) \<and>
     sorted_wrt apart (handle_ext d) \<and> (\<forall>r\<in>set (handle_ext d). in_extent r) \<and>
     mset (handle_ext d) = image_mset map_region (mset (maplist d)) + image_mset snd ex \<and>
     dma_mem d = bus_res kn d + lv \<and>
     (\<forall>m\<in>set (maplist d). map_shape m)"

text \<open>The fields that the invariant does not look at.\<close>

lemma bus_res_frame [simp]:
  "bus_res kn (d\<lparr>dev_lock := b\<rparr>) = bus_res kn d" "bus_res kn (d\<lparr>lock_kva := k\<rparr>) = bus_res kn d"
  "bus_res kn (d\<lparr>lock := ld\<rparr>) = bus_res kn d" "bus_res kn (d\<lparr>dma_mem := l\<rparr>) = bus_res kn d"
  "bus_res kn (d\<lparr>handle_ext := h\<rparr>) = bus_res kn d" "bus_res kn (d\<lparr>next_map := n\<rparr>) = bus_res kn d"
  "bus_res kn (d\<lparr>agp_dev := sc\<rparr>) = bus_res kn d"
  by (simp_all add: bus_res_def)

lemma bus_inv_frame [simp]:
  "bus_inv kn ex lv (d\<lparr>dev_lock := b\<rparr>) = bus_inv kn ex lv d"
  "bus_inv kn ex lv (d\<lparr>lock_kva := k\<rparr>) = bus_inv kn ex lv d"
  "bus_inv kn ex lv (d\<lparr>lock := ld\<rparr>) = bus_inv kn ex lv d"
  "bus_inv kn ex lv (d\<lparr>agp_dev := sc\<rparr>) = bus_inv kn ex lv d"
  by (simp_all add: bus_inv_def)

section \<open>Elementary steps\<close>

lemma bus_inv_more:
  "bus_inv kn ex lv d \<Longrightarrow> dma_mem d + x = l \<Longrightarrow> bus_inv kn ex (lv + x) (d\<lparr>dma_mem := l\<rparr>)"
  by (auto simp: bus_inv_def ac_simps)

lemma bus_inv_less:
  "bus_inv kn ex (lv + x) d \<Longrightarrow> dma_mem d - x = l \<Longrightarrow> bus_inv kn ex lv (d\<lparr>dma_mem := l\<rparr>)"
  by (auto simp: bus_inv_def add.assoc[symmetric])

lemma ids_ok_fresh:
  assumes ok: "ids_ok ids n"
  shows "ids_ok (add_mset n ids) (Suc n)"
proof -
  have "n \<notin># ids"
    using ok unfolding ids_ok_def by blast
  then have "count ids n = 0"
    by (simp only: count_eq_zero_iff not_False_eq_True)
  then show ?thesis
    using ok by (auto simp: ids_ok_def less_SucI)
qed

lemma bus_inv_extent:
  assumes "bus_inv kn ex lv d" and "ext_alloc kn (handle_ext d) sz = Inr a" and law: "extent_law kn"
  shows "bus_inv kn (add_mset (next_map d, a, sz) ex) lv
           (d\<lparr>handle_ext := (a, sz) # handle_ext d, next_map := Suc (next_map d)\<rparr>)"
proof -
  have "\<forall>r\<in>set (handle_ext d). apart (a, sz) r"
    using law assms(2) by (cases "sz = 0") (auto simp: extent_law_def apart_def ext_region_def)
  moreover have "in_extent (a, sz)"
    using law assms(2) by (auto simp: extent_law_def in_extent_def)
  moreover have "ids_ok (image_mset lm_id (mset (maplist d)) + image_mset fst (add_mset (next_map d, a, sz) ex))
                   (Suc (next_map d))"
    using assms(1) ids_ok_fresh by (simp add: bus_inv_def)
  ultimately show ?thesis
    using assms(1) unfolding bus_inv_def by simp
qed

lemma bus_inv_insert:
  assumes "bus_inv kn (add_mset (lm_id m, map_region m) ex) (lv + map_res kn m) d" and "map_shape m"
  shows "bus_inv kn ex lv (d\<lparr>maplist := maplist d @ [m]\<rparr>)"
  using assms by (simp add: bus_inv_def bus_res_def ac_simps ball_Un)

lemma sorted_wrt_remove1: "sorted_wrt P xs \<Longrightarrow> sorted_wrt P (remove1 x xs)"
proof (induction xs)
  case (Cons y xs)
  then show ?case using set_remove1_subset[of x xs] by auto
qed simp

lemma count_le_1_distinct: "(\<forall>i. count (image_mset f (mset xs) + X) i \<le> 1) \<Longrightarrow> distinct (map f xs)"
proof (induction xs)
  case (Cons x xs)
  have le: "count (image_mset f (mset xs) + X) i \<le> 1" for i
    using Cons.prems[rule_format, of i] by (simp split: if_splits)
  have "f x \<notin> f ` set xs"
  proof
    assume "f x \<in> f ` set xs"
    moreover have "count (image_mset f (mset xs)) (f x) = 0"
      using Cons.prems[rule_format, of "f x"] by simp
    then have "f x \<notin># image_mset f (mset xs)"
      by (simp only: count_eq_zero_iff not_False_eq_True)
    ultimately show False
      by simp
  qed
  then show ?case
    using Cons.IH le by simp
qed simp

lemma filter_other_id:
  assumes "distinct (map lm_id (as @ m # bs))"
  shows "filter (\<lambda>x. lm_id x \<noteq> lm_id m) (as @ m # bs) = as @ bs"
proof -
  have "filter (\<lambda>x. lm_id x \<noteq> lm_id m) as = as" "filter (\<lambda>x. lm_id x \<noteq> lm_id m) bs = bs"
    using assms by (auto simp: filter_id_conv image_iff)
  then show ?thesis by simp
qed

lemma ids_ok_mono: "ids_ok (X + Y) n \<Longrightarrow> ids_ok X n"
  unfolding ids_ok_def by (metis add_leD1 count_union union_iff)

lemma bus_inv_remove:
  assumes inv: "bus_inv kn ex lv d" and m: "m \<in> set (maplist d)"
  shows "map_region m \<in> set (handle_ext d)"
    and "bus_inv kn ex (lv + map_res kn m)
           (d\<lparr>maplist := filter (\<lambda>x. lm_id x \<noteq> lm_id m) (maplist d),
              handle_ext := remove1 (map_region m) (handle_ext d)\<rparr>)"
proof -
  have ext: "mset (handle_ext d) = image_mset map_region (mset (maplist d)) + image_mset snd ex"
    and ids: "ids_ok (image_mset lm_id (mset (maplist d)) + image_mset fst ex) (next_map d)"
    using inv unfolding bus_inv_def by blast+
  have dis: "distinct (map lm_id (maplist d))"
    using ids count_le_1_distinct unfolding ids_ok_def by blast
  have "map_region m \<in># mset (handle_ext d)"
    using m by (simp add: ext)
  then show "map_region m \<in> set (handle_ext d)"
    by simp
  obtain as bs where split: "maplist d = as @ m # bs"
    using m by (meson split_list)
  have filt: "filter (\<lambda>x. lm_id x \<noteq> lm_id m) (maplist d) = as @ bs"
    using dis by (simp add: split filter_other_id del: filter_append)
  have ids': "ids_ok (image_mset lm_id (mset (as @ bs)) + image_mset fst ex) (next_map d)"
    using ids ids_ok_mono[of "image_mset lm_id (mset (as @ bs)) + image_mset fst ex" "{#lm_id m#}"]
    by (simp add: split)
  have sub: "\<forall>r\<in>set (remove1 (map_region m) (handle_ext d)). in_extent r"
    using inv set_remove1_subset[of "map_region m" "handle_ext d"] unfolding bus_inv_def by blast
  have "mset (remove1 (map_region m) (handle_ext d)) =
        image_mset map_region (mset (as @ bs)) + image_mset snd ex"
    using ext by (simp add: split)
  then show "bus_inv kn ex (lv + map_res kn m)
          (d\<lparr>maplist := filter (\<lambda>x. lm_id x \<noteq> lm_id m) (maplist d),
             handle_ext := remove1 (map_region m) (handle_ext d)\<rparr>)"
    unfolding filt using inv ids' sub
    by (simp add: bus_inv_def bus_res_def split sorted_wrt_remove1 ball_Un ac_simps)
qed

end
