(* ===== verification/Maps_Ops.thy ===== *)
theory Maps_Ops
  imports Bus_Inv
begin

text \<open>
  Every operation on maps and on scatter-gather memory preserves what the device owns, whatever
  others do while it has released \<^verbatim>\<open>dev_lock\<close>. A call that succeeds loses nothing; one that fails
  may lose the region or the structure it had obtained.
\<close>

section \<open>Owning at least\<close>

text \<open>
  With \<open>lk\<close> false the device owns exactly what it has allocated, \<open>ex\<close> and \<open>lv\<close> aside; with \<open>lk\<close>
  true some of it may have been lost.
\<close>

definition owns ::
  "('z) kern_scheme \<Rightarrow> bool \<Rightarrow> (nat \<times> u64 \<times> u64) multiset \<Rightarrow> dma_live \<Rightarrow> 'a bus_dev_scheme \<Rightarrow> bool" where
  "owns kn lk ex lv d \<longleftrightarrow>
     (\<exists>ex' lv'. (lk \<or> ex' = {#} \<and> lv' = {#}) \<and> bus_inv kn (ex + ex') (lv + lv') d)"

lemma owns_exact: "owns kn False ex lv d \<longleftrightarrow> bus_inv kn ex lv d"
  by (simp add: owns_def)

lemma owns_frame [simp]:
  "owns kn lk ex lv (d\<lparr>dev_lock := b\<rparr>) = owns kn lk ex lv d"
  "owns kn lk ex lv (d\<lparr>lock_kva := k\<rparr>) = owns kn lk ex lv d"
  "owns kn lk ex lv (d\<lparr>lock := ld\<rparr>) = owns kn lk ex lv d"
  "owns kn lk ex lv (d\<lparr>agp_dev := sc\<rparr>) = owns kn lk ex lv d"
  by (simp_all add: owns_def)

lemma owns_unlock_mem [simp]:
  "owns kn lk ex lv (d\<lparr>dev_lock := b, dma_mem := l\<rparr>) = owns kn lk ex lv (d\<lparr>dma_mem := l\<rparr>)"
  by (simp add: owns_def bus_inv_def)

lemma owns_lift:
  "owns kn lk ex lv d \<Longrightarrow>
   (\<And>x y. bus_inv kn (ex + x) (lv + y) d \<Longrightarrow> bus_inv kn (ex2 + x) (lv2 + y) d2) \<Longrightarrow>
   owns kn lk ex2 lv2 d2"
  unfolding owns_def by blast

lemma owns_lose: "owns kn lk (ex + x) (lv + y) d \<Longrightarrow> owns kn True ex lv d"
  unfolding owns_def by (auto simp: add.assoc)

lemma owns_weaken: "owns kn lk ex lv d \<Longrightarrow> owns kn True ex lv d"
  using owns_lose[of kn lk ex "{#}" lv "{#}"] by simp

lemma owns_more:
  assumes "owns kn lk ex lv d" and "dma_mem d + x = l"
  shows "owns kn lk ex (lv + x) (d\<lparr>dma_mem := l\<rparr>)"
proof (rule owns_lift[OF assms(1)])
  fix x' y assume "bus_inv kn (ex + x') (lv + y) d"
  from bus_inv_more[OF this assms(2)] show "bus_inv kn (ex + x') (lv + x + y) (d\<lparr>dma_mem := l\<rparr>)"
    by (simp add: ac_simps)
qed

lemma owns_less:
  assumes "owns kn lk ex (lv + x) d" and "dma_mem d - x = l"
  shows "owns kn lk ex lv (d\<lparr>dma_mem := l\<rparr>)"
proof (rule owns_lift[OF assms(1)])
  fix x' y assume "bus_inv kn (ex + x') (lv + x + y) d"
  then have "bus_inv kn (ex + x') (lv + y + x) d"
    by (simp add: ac_simps)
  from bus_inv_less[OF this assms(2)] show "bus_inv kn (ex + x') (lv + y) (d\<lparr>dma_mem := l\<rparr>)" .
qed

lemma owns_extent:
  assumes "owns kn lk ex lv d" and "ext_alloc kn (handle_ext d) sz = Inr a" and "extent_law kn"
  shows "owns kn lk (add_mset (next_map d, a, sz) ex) lv
           (d\<lparr>handle_ext := (a, sz) # handle_ext d, next_map := Suc (next_map d)\<rparr>)"
  by (rule owns_lift[OF assms(1)]) (use bus_inv_extent[OF _ assms(2,3)] in simp)

lemma owns_insert:
  assumes "owns kn lk (add_mset (lm_id m, map_region m) ex) (lv + map_res kn m) d" and "map_shape m"
  shows "owns kn lk ex lv (d\<lparr>maplist := maplist d @ [m]\<rparr>)"
  by (rule owns_lift[OF assms(1)], rule bus_inv_insert[OF _ assms(2)]) (simp add: ac_simps)

lemma owns_remove:
  assumes "owns kn lk ex lv d" and m: "m \<in> set (maplist d)"
  shows "map_region m \<in> set (handle_ext d)"
    and "owns kn lk ex (lv + map_res kn m)
           (d\<lparr>maplist := filter (\<lambda>x. lm_id x \<noteq> lm_id m) (maplist d),
              handle_ext := remove1 (map_region m) (handle_ext d)\<rparr>)"
proof -
  show "map_region m \<in> set (handle_ext d)"
    using assms bus_inv_remove(1) unfolding owns_def by blast
  show "owns kn lk ex (lv + map_res kn m)
           (d\<lparr>maplist := filter (\<lambda>x. lm_id x \<noteq> lm_id m) (maplist d),
              handle_ext := remove1 (map_region m) (handle_ext d)\<rparr>)"
    by (rule owns_lift[OF assms(1)]) (drule bus_inv_remove(2)[OF _ m], simp add: ac_simps)
qed

lemma owns_shape: "owns kn lk ex lv d \<Longrightarrow> m \<in> set (maplist d) \<Longrightarrow> map_shape m"
  by (auto simp: owns_def bus_inv_def)

section \<open>What others do\<close>

definition calm ::
  "('z) kern_scheme \<Rightarrow> bool \<Rightarrow> (nat \<Rightarrow> 'a bus_dev_scheme \<Rightarrow> 'a bus_dev_scheme) \<Rightarrow> bool" where
  "calm kn lk env \<longleftrightarrow>
     (\<forall>k ex lv d. owns kn lk ex lv d \<longrightarrow> \<not> dev_lock d \<longrightarrow>
        owns kn lk ex lv (env k d) \<and> \<not> dev_lock (env k d) \<and> (agp (env k d) = None) = (agp d = None))"

lemma calmD:
  assumes "calm kn lk env" "owns kn lk ex lv d" "\<not> dev_lock d"
  shows "owns kn lk ex lv (env k d)" "\<not> dev_lock (env k d)" "(agp (env k d) = None) = (agp d = None)"
  using assms by (auto simp: calm_def)

lemma calm_id: "calm kn lk (\<lambda>_ d. d)"
  by (simp add: calm_def)

section \<open>Adding\<close>

lemma DRM_LOCK_Ret: "DRM_LOCK d = Ret d' \<longleftrightarrow> \<not> dev_lock d \<and> d' = d\<lparr>dev_lock := True\<rparr>"
  by (auto simp: DRM_LOCK_def)

lemma DRM_LOCK_ok [simp]: "\<not> dev_lock d \<Longrightarrow> DRM_LOCK d = Ret (d\<lparr>dev_lock := True\<rparr>)"
  by (simp add: DRM_LOCK_def)

lemma DRM_UNLOCK_ok [simp]: "dev_lock d \<Longrightarrow> DRM_UNLOCK d = Ret (d\<lparr>dev_lock := False\<rparr>)"
  by (simp add: DRM_UNLOCK_def)

text \<open>A map just filled in, before the \<^verbatim>\<open>switch\<close>.\<close>

definition fresh_map :: "drm_local_map \<Rightarrow> bool" where
  "fresh_map m \<longleftrightarrow> lm_dmamem m = None \<and> lm_mtrr m = 0"

lemma drm_mtrr_add_res:
  "drm_mtrr_add kn (lm_offset m) (lm_size m) l = (e, l') \<Longrightarrow>
   lm_type m = DRM_REGISTERS \<or> lm_type m = DRM_FRAME_BUFFER \<Longrightarrow> lm_mtrr m = 0 \<Longrightarrow>
   l' = l + map_mtrr kn (if e = E_OK then m\<lparr>lm_mtrr := 1\<rparr> else m)"
  by (auto simp: drm_mtrr_add_def map_mtrr_def Let_def split: option.splits if_splits)

lemma alloc_mem_owns:
  assumes "owns kn lk ex lv d" and "drm_dmamem_alloc bd sz al n mx (dma_mem d) = (Some mem, l)"
  shows "owns kn lk ex (lv + footprint mem) (d\<lparr>dma_mem := l\<rparr>)"
  using assms by (intro owns_more) (auto dest!: drm_dmamem_alloc_Some)

lemma free_struct_owns:
  "owns kn lk ex (lv + {#R_mem k#}) d \<Longrightarrow> owns kn lk ex lv (d\<lparr>dma_mem := drm_free k (dma_mem d)\<rparr>)"
  by (rule owns_less) (simp_all add: drm_free_def)

lemma free_mem_owns:
  "owns kn lk ex (lv + footprint mem) d \<Longrightarrow>
   owns kn lk ex lv (d\<lparr>dma_mem := drm_dmamem_free (Some mem) (dma_mem d)\<rparr>)"
  by (rule owns_less) (simp_all add: drm_dmamem_free_Some)

text \<open>The type-specific part of \<^verbatim>\<open>drm_addmap\<close> for memory the map owns.\<close>

lemma addmap_setup_mem:
  assumes own: "owns kn lk ex (lv + {#R_mem K_MAP#}) d" and unl: "\<not> dev_lock d"
    and fresh: "fresh_map m" and calm: "calm kn lk env"
    and ty: "lm_type m = DRM_SHM \<or> lm_type m = DRM_CONSISTENT"
  shows "\<exists>e m' d'. addmap_setup kn env m d = Ret ((e, m'), d') \<and> \<not> dev_lock d' \<and>
    (e = E_OK \<longrightarrow> owns kn lk ex (lv + map_res kn m') d' \<and> map_shape m' \<and>
       lm_id m' = lm_id m \<and> map_region m' = map_region m \<and> lm_type m' = lm_type m \<and> lm_flags m' = lm_flags m) \<and>
    (e \<noteq> E_OK \<longrightarrow> owns kn lk ex lv d')"
proof -
  obtain mo l where al: "drm_dmamem_alloc (bus_dma.truncate kn) (lm_size m) (map_align (lm_size m)) 1
      (lm_size m) (dma_mem d) = (mo, l)"
    by (cases "drm_dmamem_alloc (bus_dma.truncate kn) (lm_size m) (map_align (lm_size m)) 1
      (lm_size m) (dma_mem d)")
  have ty': "lm_type m \<noteq> DRM_REGISTERS" "lm_type m \<noteq> DRM_FRAME_BUFFER" "lm_type m \<noteq> DRM_AGP"
      "lm_type m \<noteq> DRM_SCATTER_GATHER"
    using ty by (auto simp: map_types)
  show ?thesis
  proof (cases mo)
    case None
    then have "l = dma_mem d"
      using al drm_dmamem_alloc_None by blast
    then show ?thesis
      using None al ty ty' own unl by (simp add: addmap_setup_def free_struct_owns)
  next
    case (Some mem)
    let ?m = "m\<lparr>lm_dmamem := Some mem, lm_handle := dm_kva mem, lm_offset := dm_segs0 mem\<rparr>"
    have res: "map_res kn ?m = {#R_mem K_MAP#} + footprint mem"
      using ty ty' by (simp add: map_res_def map_mtrr_def)
    have shape: "map_shape ?m"
      using ty by (auto simp: map_shape_def)
    have own1: "owns kn lk ex (lv + {#R_mem K_MAP#} + footprint mem) (d\<lparr>dma_mem := l\<rparr>)"
      using alloc_mem_owns[OF own] al Some by simp
    note env = calmD[OF calm own1, of 1]
    show ?thesis
    proof (cases "lm_type m = DRM_SHM \<and> lm_flags m AND DRM_CONTAINS_LOCK \<noteq> 0")
      case False
      then show ?thesis
        using Some al ty ty' own1 unl res shape
        by (auto simp: addmap_setup_def Let_def add.assoc map_region_def)
    next
      case True
      have own2: "owns kn lk ex (lv + {#R_mem K_MAP#} + footprint mem) (env 1 (d\<lparr>dma_mem := l\<rparr>))"
        and unl2: "\<not> dev_lock (env 1 (d\<lparr>dma_mem := l\<rparr>))"
        using env unl by simp_all
      have own3: "owns kn lk ex lv ((env 1 (d\<lparr>dma_mem := l\<rparr>))\<lparr>dma_mem :=
          drm_free K_MAP (drm_dmamem_free (Some mem) (dma_mem (env 1 (d\<lparr>dma_mem := l\<rparr>))))\<rparr>)"
        using free_struct_owns[OF free_mem_owns[OF own2]] by simp
      show ?thesis
        using True Some al ty' own2 own3 unl2 res shape
        by (auto simp: addmap_setup_def Let_def add.assoc map_region_def)
    qed
  qed
qed

lemma addmap_setup_owns:
  assumes own: "owns kn lk ex (lv + {#R_mem K_MAP#}) d" and unl: "\<not> dev_lock d"
    and fresh: "fresh_map m" and calm: "calm kn lk env" and agp: "lm_type m = DRM_AGP \<longrightarrow> agp d \<noteq> None"
  shows "\<exists>e m' d'. addmap_setup kn env m d = Ret ((e, m'), d') \<and> \<not> dev_lock d' \<and>
    (e = E_OK \<longrightarrow> owns kn lk ex (lv + map_res kn m') d' \<and> map_shape m' \<and>
       lm_id m' = lm_id m \<and> map_region m' = map_region m \<and> lm_type m' = lm_type m \<and> lm_flags m' = lm_flags m) \<and>
    (e \<noteq> E_OK \<longrightarrow> owns kn lk ex lv d')"
proof -
  have plain: "map_res kn m = {#R_mem K_MAP#}"
    using fresh by (simp add: fresh_map_def map_res_def map_mtrr_def)
  have fail: "owns kn lk ex lv (d\<lparr>dma_mem := drm_free K_MAP (dma_mem d)\<rparr>)"
    by (rule free_struct_owns[OF own])
  consider (io) "lm_type m = DRM_REGISTERS \<and> lm_flags m AND DRM_WRITE_COMBINING = 0"
    | (wc) "lm_type m = DRM_REGISTERS \<and> lm_flags m AND DRM_WRITE_COMBINING \<noteq> 0 \<or> lm_type m = DRM_FRAME_BUFFER"
    | (agp) "lm_type m = DRM_AGP" | (sg) "lm_type m = DRM_SCATTER_GATHER"
    | (mem) "lm_type m = DRM_SHM \<or> lm_type m = DRM_CONSISTENT"
    | (bad) "lm_type m \<notin> {DRM_FRAME_BUFFER, DRM_REGISTERS, DRM_SHM, DRM_AGP, DRM_SCATTER_GATHER, DRM_CONSISTENT}"
    by auto
  then show ?thesis
  proof cases
    case io
    then show ?thesis
      using own unl plain fresh by (auto simp: addmap_setup_def fresh_map_def map_shape_def map_types)
  next
    case wc
    obtain e l where add: "drm_mtrr_add kn (lm_offset m) (lm_size m) (dma_mem d) = (e, l)"
      by (cases "drm_mtrr_add kn (lm_offset m) (lm_size m) (dma_mem d)")
    let ?m = "if e = E_OK then m\<lparr>lm_mtrr := 1\<rparr> else m"
    have l: "l = dma_mem d + map_mtrr kn ?m"
      using drm_mtrr_add_res[OF add] wc fresh by (auto simp: fresh_map_def)
    have "map_res kn ?m = {#R_mem K_MAP#} + map_mtrr kn ?m"
      using fresh by (simp add: map_res_def fresh_map_def)
    then have "owns kn lk ex (lv + map_res kn ?m) (d\<lparr>dma_mem := l\<rparr>)"
      using owns_more[OF own, of "map_mtrr kn ?m" l] l by (simp add: add.assoc)
    then show ?thesis
      using wc add unl fresh by (auto simp: addmap_setup_def fresh_map_def map_shape_def map_types map_region_def)
  next
    case agp
    with assms(5) obtain h where "agp d = Some h" by auto
    with agp show ?thesis
      using own unl fresh
      by (auto simp: addmap_setup_def fresh_map_def map_shape_def map_types map_region_def map_res_def map_mtrr_def Let_def)
  next
    case sg
    show ?thesis
    proof (cases "sg d")
      case None
      then show ?thesis
        using sg unl fail by (auto simp: addmap_setup_def map_types)
    next
      case (Some s)
      have "map_res kn (m\<lparr>lm_offset := lm_offset m + sg_handle s\<rparr>) = {#R_mem K_MAP#}"
        using fresh by (simp add: fresh_map_def map_res_def map_mtrr_def)
      moreover have "map_shape (m\<lparr>lm_offset := lm_offset m + sg_handle s\<rparr>)"
        using fresh sg by (simp add: fresh_map_def map_shape_def map_types)
      ultimately show ?thesis
        using Some sg own unl by (auto simp: addmap_setup_def map_types map_region_def)
    qed
  next
    case mem
    then show ?thesis
      by (rule addmap_setup_mem[OF own unl fresh calm])
  next
    case bad
    then show ?thesis
      using own unl fail by (auto simp: addmap_setup_def)
  qed
qed

text \<open>The whole of \<^verbatim>\<open>drm_addmap\<close>, path by path.\<close>

lemma relock [simp]: "\<not> dev_lock d \<Longrightarrow> d\<lparr>dev_lock := False\<rparr> = d"
  by (cases d) simp

definition addmap_bad :: "u64 \<Rightarrow> u64 \<Rightarrow> u32 \<Rightarrow> u32 \<Rightarrow> bool" where
  "addmap_bad offset sz ty fl \<longleftrightarrow>
     fl AND DRM_REMOVABLE \<noteq> 0 \<and> ty \<noteq> DRM_SHM \<or>
     offset AND (of_nat PAGE_SIZE - 1) \<noteq> 0 \<or> sz AND (of_nat PAGE_SIZE - 1) \<noteq> 0 \<or> offset + sz < offset"

lemma drm_addmap_bad:
  "addmap_bad offset sz ty fl \<Longrightarrow> drm_addmap kn env offset sz ty fl d = Ret ((EINVAL, None), d)"
  unfolding addmap_bad_def drm_addmap_def by argo

lemma drm_addmap_good:
  assumes "\<not> addmap_bad offset sz ty fl"
  shows "\<not> (fl AND DRM_REMOVABLE \<noteq> 0 \<and> ty \<noteq> DRM_SHM)"
    and "\<not> (offset AND (of_nat PAGE_SIZE - 1) \<noteq> 0 \<or> sz AND (of_nat PAGE_SIZE - 1) \<noteq> 0)"
    and "\<not> offset + sz < offset"
  using assms unfolding addmap_bad_def by blast+

lemma drm_addmap_found:
  assumes "\<not> addmap_bad offset sz ty fl" and "\<not> dev_lock d"
    and "find_kernel_map offset ty (maplist d) = Some m"
  shows "drm_addmap kn env offset sz ty fl d = Ret ((E_OK, Some m), d)"
  unfolding drm_addmap_def using assms(2,3) by (simp only: drm_addmap_good[OF assms(1)] if_False) simp

lemma drm_addmap_nomem:
  assumes "\<not> addmap_bad offset sz ty fl" and "\<not> dev_lock d" and "\<not> dev_lock (env 0 d)"
    and "find_kernel_map offset ty (maplist d) = None" and "drm_new kn K_MAP (dma_mem (env 0 d)) = None"
  shows "drm_addmap kn env offset sz ty fl d = Ret ((ENOMEM, None), (env 0 d)\<lparr>dev_lock := True\<rparr>)"
  unfolding drm_addmap_def using assms(2-)
  by (simp only: drm_addmap_good[OF assms(1)] if_False) (simp add: Let_def)

text \<open>The new map and the device once its region is allocated.\<close>

definition addmap_map :: "u64 \<Rightarrow> u64 \<Rightarrow> u32 \<Rightarrow> u32 \<Rightarrow> u64 \<Rightarrow> 'a bus_dev_scheme \<Rightarrow> drm_local_map" where
  "addmap_map offset sz ty fl a d =
     \<lparr>lm_id = next_map d, lm_dmamem = None, lm_handle = 0, lm_ext = a,
      lm_offset = offset, lm_size = sz, lm_mtrr = 0, lm_flags = fl, lm_type = ty\<rparr>"

definition addmap_dev :: "u64 \<Rightarrow> u64 \<Rightarrow> dma_live \<Rightarrow> 'a bus_dev_scheme \<Rightarrow> 'a bus_dev_scheme" where
  "addmap_dev sz a l d =
     d\<lparr>dma_mem := l, handle_ext := (a, sz) # handle_ext d, next_map := Suc (next_map d)\<rparr>"

lemma addmap_map_sel [simp]:
  "lm_id (addmap_map offset sz ty fl a d) = next_map d" "lm_type (addmap_map offset sz ty fl a d) = ty"
  "lm_flags (addmap_map offset sz ty fl a d) = fl" "map_region (addmap_map offset sz ty fl a d) = (a, sz)"
  "fresh_map (addmap_map offset sz ty fl a d)"
  by (simp_all add: addmap_map_def map_region_def fresh_map_def)

lemma addmap_dev_sel [simp]:
  "dev_lock (addmap_dev sz a l d) = dev_lock d" "agp (addmap_dev sz a l d) = agp d"
  "maplist (addmap_dev sz a l d) = maplist d" "dma_mem (addmap_dev sz a l d) = l"
  "handle_ext (addmap_dev sz a l d) = (a, sz) # handle_ext d" "lock_kva (addmap_dev sz a l d) = lock_kva d"
  "sg (addmap_dev sz a l d) = sg d" "dma (addmap_dev sz a l d) = dma d"
  by (simp_all add: addmap_dev_def)

lemma drm_addmap_full:
  assumes "\<not> addmap_bad offset sz ty fl" and "\<not> dev_lock d" and "\<not> dev_lock (env 0 d)"
    and "find_kernel_map offset ty (maplist d) = None" and "drm_new kn K_MAP (dma_mem (env 0 d)) = Some l"
    and "ext_alloc kn (handle_ext (env 0 d)) sz = Inl e"
  shows "drm_addmap kn env offset sz ty fl d =
           Ret ((e, None), (env 0 d)\<lparr>dma_mem := drm_free K_MAP l\<rparr>)"
  unfolding drm_addmap_def using assms(2-)
  by (simp only: drm_addmap_good[OF assms(1)] if_False) (simp add: Let_def)

lemma drm_addmap_region:
  assumes "\<not> addmap_bad offset sz ty fl" and "\<not> dev_lock d" and "\<not> dev_lock (env 0 d)"
    and "find_kernel_map offset ty (maplist d) = None" and "drm_new kn K_MAP (dma_mem (env 0 d)) = Some l"
    and "ext_alloc kn (handle_ext (env 0 d)) sz = Inr a"
  shows "drm_addmap kn env offset sz ty fl d =
           obind (addmap_setup kn env (addmap_map offset sz ty fl a (env 0 d)) (addmap_dev sz a l (env 0 d)))
             (\<lambda>((e, m), d). if e \<noteq> E_OK then Ret ((e, None), d)
              else obind (DRM_LOCK (env 2 d)) (\<lambda>d.
                   obind (DRM_UNLOCK (d\<lparr>maplist := maplist d @ [m]\<rparr>)) (\<lambda>d. Ret ((E_OK, Some m), d))))"
  unfolding drm_addmap_def using assms(2-)
  by (simp only: drm_addmap_good[OF assms(1)] if_False) (simp add: Let_def addmap_map_def addmap_dev_def)

lemma drm_addmap_owns:
  assumes own: "owns kn lk ex lv d" and unl: "\<not> dev_lock d" and calm: "calm kn lk env"
    and law: "extent_law kn"
  shows "drm_addmap kn env offset sz ty fl d = Panic \<and> ty = DRM_AGP \<and> agp d = None \<or>
    (\<exists>e mo d'. drm_addmap kn env offset sz ty fl d = Ret ((e, mo), d') \<and>
      (e = E_OK \<longrightarrow> owns kn lk ex lv d' \<and> \<not> dev_lock d' \<and> (\<exists>m\<in>set (maplist d'). mo = Some m)) \<and>
      (e \<noteq> E_OK \<longrightarrow> mo = None \<and> owns kn True ex lv d') \<and> (dev_lock d' \<longrightarrow> e = ENOMEM))"
proof -
  let ?d = "env 0 d"
  note env0 = calmD[OF calm own unl, of 0]
  consider (bad) "addmap_bad offset sz ty fl"
    | (found) m where "\<not> addmap_bad offset sz ty fl" "find_kernel_map offset ty (maplist d) = Some m"
    | (nomem) "\<not> addmap_bad offset sz ty fl" "find_kernel_map offset ty (maplist d) = None"
        "drm_new kn K_MAP (dma_mem ?d) = None"
    | (more) l where "\<not> addmap_bad offset sz ty fl" "find_kernel_map offset ty (maplist d) = None"
        "drm_new kn K_MAP (dma_mem ?d) = Some l"
    by fastforce
  then show ?thesis
  proof cases
    case bad
    then show ?thesis
      using owns_weaken[OF own] unl by (simp add: drm_addmap_bad)
  next
    case (found m)
    then have "m \<in> set (maplist d)"
      by (auto simp: find_kernel_map_def find_Some_iff split: if_splits)
    then show ?thesis
      using drm_addmap_found[of offset sz ty fl d m kn env] found own unl by simp
  next
    case nomem
    then show ?thesis
      using drm_addmap_nomem[of offset sz ty fl d env kn] unl env0 owns_weaken[OF env0(1)] by simp
  next
    case (more l)
    have l: "l = add_mset (R_mem K_MAP) (dma_mem ?d)"
      using more(3) drm_new_Some by blast
    have own1: "owns kn lk ex (lv + {#R_mem K_MAP#}) (?d\<lparr>dma_mem := l\<rparr>)"
      by (rule owns_more[OF env0(1)]) (simp add: l)
    show ?thesis
    proof (cases "ext_alloc kn (handle_ext ?d) sz")
      case (Inl e)
      moreover have "e \<noteq> E_OK"
        using law Inl by (auto simp: extent_law_def)
      moreover have "owns kn True ex lv (?d\<lparr>dma_mem := drm_free K_MAP l\<rparr>)"
        using owns_weaken[OF free_struct_owns[OF own1]] by simp
      ultimately show ?thesis
        using drm_addmap_full[where env = env and d = d, OF more(1) unl env0(2) more(2,3)] unl env0 by simp
    next
      case (Inr a)
      let ?m = "addmap_map offset sz ty fl a ?d"
      have own2: "owns kn lk (add_mset (lm_id ?m, map_region ?m) ex) (lv + {#R_mem K_MAP#}) (addmap_dev sz a l ?d)"
        using owns_extent[OF own1 _ law, of sz a] Inr by (simp add: addmap_dev_def)
      show ?thesis
      proof (cases "ty = DRM_AGP \<and> agp d = None")
        case True
        then have "addmap_setup kn env ?m (addmap_dev sz a l ?d) = Panic"
          using env0 by (simp add: addmap_setup_def map_types)
        then show ?thesis
          using drm_addmap_region[where env = env and d = d, OF more(1) unl env0(2) more(2,3) Inr] True by simp
      next
        case agp: False
        have pre: "\<not> dev_lock (addmap_dev sz a l ?d)" "lm_type ?m = DRM_AGP \<longrightarrow> agp (addmap_dev sz a l ?d) \<noteq> None"
          using env0 agp by simp_all
        obtain e m' d3 where run1: "addmap_setup kn env ?m (addmap_dev sz a l ?d) = Ret ((e, m'), d3)"
          and unl3: "\<not> dev_lock d3"
          and ok: "e = E_OK \<Longrightarrow> owns kn lk (add_mset (lm_id ?m, map_region ?m) ex) (lv + map_res kn m') d3
            \<and> map_shape m' \<and> lm_id m' = lm_id ?m \<and> map_region m' = map_region ?m"
          and fail: "e \<noteq> E_OK \<Longrightarrow> owns kn lk (add_mset (lm_id ?m, map_region ?m) ex) lv d3"
          using addmap_setup_owns[OF own2 pre(1) addmap_map_sel(5) calm pre(2)] by blast
        note run = drm_addmap_region[where env = env and d = d, OF more(1) unl env0(2) more(2,3) Inr, unfolded run1, simplified]
        show ?thesis
        proof (cases "e = E_OK")
          case True
          note env2 = calmD[OF calm conjunct1[OF ok[OF True]] unl3, of 2]
          have "owns kn lk ex lv ((env 2 d3)\<lparr>maplist := maplist (env 2 d3) @ [m']\<rparr>)"
            using owns_insert[of kn lk m' ex lv "env 2 d3"] env2(1) ok[OF True] by simp
          then have "owns kn lk ex lv ((env 2 d3)\<lparr>dev_lock := False, maplist := maplist (env 2 d3) @ [m']\<rparr>)"
            by (simp add: owns_def bus_inv_def bus_res_def)
          then show ?thesis
            using run True env2(2) by simp
        next
          case False
          have "owns kn True ex lv d3"
            using owns_lose[of kn lk ex "{#(lm_id ?m, map_region ?m)#}" lv "{#}" d3] fail[OF False] by simp
          then show ?thesis
            using run False unl3 by simp
        qed
      qed
    qed
  qed
qed

section \<open>Removing\<close>

definition mtrr_law :: "('z) kern_scheme \<Rightarrow> bool" where
  "mtrr_law kn \<longleftrightarrow> (\<forall>f off sz. mtrr_set kn = Some f \<longrightarrow> f off sz False = E_OK)"

text \<open>What \<^verbatim>\<open>drm_rmmap_locked\<close> gives back: all of the map, if its memory type can be cleared.\<close>

lemma drm_rmmap_locked_owns:
  assumes own: "owns kn lk ex lv d" and m: "m \<in> set (maplist d)"
  shows "\<exists>d'. drm_rmmap_locked kn m d = Ret d' \<and> owns kn (lk \<or> \<not> mtrr_law kn) ex lv d' \<and>
    maplist d' = filter (\<lambda>x. lm_id x \<noteq> lm_id m) (maplist d) \<and> dev_lock d' = dev_lock d \<and>
    agp d' = agp d \<and> sg d' = sg d \<and> dma d' = dma d \<and> lock_kva d' = lock_kva d \<and>
    handle_ext d' = remove1 (map_region m) (handle_ext d)"
proof -
  let ?d = "d\<lparr>maplist := filter (\<lambda>x. lm_id x \<noteq> lm_id m) (maplist d),
              handle_ext := remove1 (map_region m) (handle_ext d)\<rparr>"
  let ?io = "lm_type m = DRM_REGISTERS \<or> lm_type m = DRM_FRAME_BUFFER"
  let ?mem = "lm_type m = DRM_SHM \<or> lm_type m = DRM_CONSISTENT"
  define l where "l = (if ?io \<and> lm_mtrr m \<noteq> 0 then snd (drm_mtrr_del kn (lm_offset m) (lm_size m) (dma_mem d))
      else if ?mem then drm_dmamem_free (lm_dmamem m) (dma_mem d) else dma_mem d)"
  note own1 = owns_remove(2)[OF own m]
  have shape: "map_shape m"
    by (rule owns_shape[OF own m])
  have run: "drm_rmmap_locked kn m d = Ret (?d\<lparr>dma_mem := drm_free K_MAP l\<rparr>)"
    using m owns_remove(1)[OF own m] by (simp add: drm_rmmap_locked_def map_region_def l_def Let_def)
  have "owns kn (lk \<or> \<not> mtrr_law kn) ex (lv + {#R_mem K_MAP#}) (?d\<lparr>dma_mem := l\<rparr>)"
  proof (cases "?io \<and> lm_mtrr m \<noteq> 0")
    case True
    then have res: "map_res kn m = {#R_mem K_MAP#} + map_mtrr kn m"
      using shape by (auto simp: map_res_def map_shape_def map_types)
    show ?thesis
    proof (cases "l = dma_mem d - map_mtrr kn m")
      case True
      then have "owns kn lk ex (lv + {#R_mem K_MAP#}) (?d\<lparr>dma_mem := l\<rparr>)"
        using own1 by (intro owns_less[where x = "map_mtrr kn m"]) (simp_all add: res add.assoc)
      then show ?thesis
        using owns_weaken[of kn lk] by (cases "mtrr_law kn") auto
    next
      case False
      then have "l = dma_mem d" "\<not> mtrr_law kn"
        using True by (auto simp: l_def drm_mtrr_del_def map_mtrr_def mtrr_law_def Let_def split: option.splits if_splits)
      moreover have "owns kn True ex (lv + {#R_mem K_MAP#}) ?d"
        using own1 owns_lose[of kn lk ex "{#}" "lv + {#R_mem K_MAP#}" "map_mtrr kn m"] by (simp add: res add.assoc)
      ultimately show ?thesis by (simp add: owns_def bus_inv_def bus_res_def)
    qed
  next
    case False
    then have "map_mtrr kn m = {#}"
      by (auto simp: map_mtrr_def)
    then have "map_res kn m = {#R_mem K_MAP#} + (case lm_dmamem m of None \<Rightarrow> {#} | Some mem \<Rightarrow> footprint mem)"
      by (simp add: map_res_def)
    moreover have "l = dma_mem d - (case lm_dmamem m of None \<Rightarrow> {#} | Some mem \<Rightarrow> footprint mem)"
      using False shape by (auto simp: l_def map_shape_def drm_dmamem_free_Some)
    ultimately have "owns kn lk ex (lv + {#R_mem K_MAP#}) (?d\<lparr>dma_mem := l\<rparr>)"
      using own1 by (intro owns_less[where x = "case lm_dmamem m of None \<Rightarrow> {#} | Some mem \<Rightarrow> footprint mem"])
        (simp_all add: add.assoc)
    then show ?thesis
      using owns_weaken[of kn lk] by (cases "mtrr_law kn") auto
  qed
  from free_struct_owns[OF this]
  have "owns kn (lk \<or> \<not> mtrr_law kn) ex lv (?d\<lparr>dma_mem := drm_free K_MAP l\<rparr>)" by simp
  with run show ?thesis by simp
qed

end
