(* ===== verification/Maps_Props.thy ===== *)
theory Maps_Props
  imports Maps_Ops
begin

text \<open>
  The properties of maps: regions apart under interference, the SAREA, removal as the inverse of
  addition, access control of \<^verbatim>\<open>drmmmap\<close>, and the two ways a failed addition hurts the device.
\<close>

section \<open>Scatter-gather memory\<close>

lemma sg_set_owns:
  assumes "owns kn lk ex (lv + sg_res (Some s)) d" and "sg d = None"
  shows "owns kn lk ex lv (d\<lparr>sg := Some s\<rparr>)"
  by (rule owns_lift[OF assms(1)]) (use assms(2) in \<open>auto simp: bus_inv_def bus_res_def sg_res_def ac_simps\<close>)

lemma sg_clear_owns:
  assumes "owns kn lk ex lv d"
  shows "owns kn lk ex (lv + sg_res (sg d)) (d\<lparr>sg := None\<rparr>)"
  by (rule owns_lift[OF assms]) (auto simp: bus_inv_def bus_res_def sg_res_def ac_simps)

lemma sg_cleanup_owns:
  "owns kn lk ex (lv + sg_res (Some s)) d \<Longrightarrow> owns kn lk ex lv (d\<lparr>dma_mem := drm_sg_cleanup (Some s) (dma_mem d)\<rparr>)"
  by (erule owns_less) (simp add: drm_sg_cleanup_def sg_res_def drm_free_def drm_dmamem_free_Some)

lemma drm_sg_alloc_owns:
  assumes own: "owns kn lk ex lv d" and unl: "\<not> dev_lock d" and calm: "calm kn lk env"
  shows "\<exists>e h d'. drm_sg_alloc kn env rsize d = Ret ((e, h), d') \<and> \<not> dev_lock d' \<and>
    (e = E_OK \<longrightarrow> owns kn lk ex lv d') \<and> owns kn True ex lv d'"
proof (cases "sg d = None \<and> drm_new kn K_SG (dma_mem d) \<noteq> None")
  case False
  then show ?thesis
    using own unl owns_weaken[OF own] by (auto simp: drm_sg_alloc_def)
next
  case True
  then obtain l where sg: "sg d = None" and l: "drm_new kn K_SG (dma_mem d) = Some l" by auto
  have own1: "owns kn lk ex (lv + {#R_mem K_SG#}) (d\<lparr>dma_mem := l\<rparr>)"
    using drm_new_Some[OF l] by (intro owns_more[OF own]) simp
  let ?al = "drm_dmamem_alloc (bus_dma.truncate kn) (push_bit 12 (round_page rsize div of_nat PAGE_SIZE)) (of_nat PAGE_SIZE)
      (unat (ucast (round_page rsize div of_nat PAGE_SIZE) :: u32)) (of_nat PAGE_SIZE) l"
  obtain mo l2 where al: "?al = (mo, l2)" by (cases ?al)
  show ?thesis
  proof (cases mo)
    case None
    then have "owns kn True ex lv (d\<lparr>dma_mem := l2\<rparr>)"
      using al own1 owns_lose[of kn lk ex "{#}" lv "{#R_mem K_SG#}"] drm_dmamem_alloc_None by fastforce
    then show ?thesis
      using None sg l al unl by (simp add: drm_sg_alloc_def Let_def)
  next
    case (Some mem)
    let ?s = "\<lparr>sg_mem = mem, sg_handle = dm_kva mem\<rparr>"
    have "owns kn lk ex (lv + {#R_mem K_SG#} + footprint mem) (d\<lparr>dma_mem := l2\<rparr>)"
      using alloc_mem_owns[OF own1] al Some by simp
    then have own2: "owns kn lk ex (lv + sg_res (Some ?s)) (d\<lparr>dma_mem := l2\<rparr>)"
      by (simp add: sg_res_def)
    note env = calmD[OF calm own2, of 0, simplified, OF unl]
    show ?thesis
    proof (cases "sg (env 0 (d\<lparr>dma_mem := l2\<rparr>))")
      case None
      note own3 = sg_set_owns[OF env(1) None]
      have "owns kn lk ex lv ((env 0 (d\<lparr>dma_mem := l2\<rparr>))\<lparr>dev_lock := False, sg := Some ?s\<rparr>)"
        using own3 by (simp add: owns_def bus_inv_def bus_res_def)
      then show ?thesis
        using Some None sg l al env own3 owns_weaken[OF own3] unl by (simp add: drm_sg_alloc_def Let_def)
    next
      case (Some s')
      note own3 = sg_cleanup_owns[OF env(1)]
      show ?thesis
        using Some \<open>mo = Some mem\<close> sg l al env own3 owns_weaken[OF own3] unl
        by (simp add: drm_sg_alloc_def Let_def)
    qed
  qed
qed

lemma sg_none [simp]: "sg d = None \<Longrightarrow> d\<lparr>sg := None\<rparr> = d"
  by (cases d) simp

lemma drm_sg_free_owns:
  assumes own: "owns kn lk ex lv d" and unl: "\<not> dev_lock d"
  shows "\<exists>e d'. drm_sg_free h d = Ret (e, d') \<and> \<not> dev_lock d' \<and>
    (e = E_OK \<longrightarrow> owns kn lk ex lv d') \<and> owns kn True ex lv d'"
proof (cases "sg d")
  case None
  then show ?thesis
    using own unl owns_weaken[OF own] by (simp add: drm_sg_free_def)
next
  case (Some s)
  note own1 = sg_clear_owns[OF own, unfolded Some]
  show ?thesis
    using Some unl sg_cleanup_owns[OF own1] owns_lose[of kn lk ex "{#}" lv, simplified, OF own1]
    by (auto simp: drm_sg_free_def Let_def owns_weaken)
qed

section \<open>Adding without interference\<close>

lemma owns_distinct: "owns kn lk ex lv d \<Longrightarrow> distinct (map lm_id (maplist d))"
  unfolding owns_def bus_inv_def ids_ok_def using count_le_1_distinct by blast

lemma addmap_setup_frame:
  "addmap_setup kn (\<lambda>_ d. d) m d = Ret ((e, m'), d') \<Longrightarrow> \<not> dev_lock d \<Longrightarrow>
   maplist d' = maplist d \<and> handle_ext d' = handle_ext d \<and> sg d' = sg d \<and> agp d' = agp d \<and> dma d' = dma d \<and>
   lm_id m' = lm_id m \<and> map_region m' = map_region m \<and> lm_flags m' = lm_flags m \<and> lm_type m' = lm_type m \<and>
   \<not> dev_lock d'"
  by (auto simp: addmap_setup_def Let_def obind_eq_Ret map_region_def
      split: if_splits option.splits prod.splits)

lemma drm_addmap_frame:
  assumes unl: "\<not> dev_lock d" and new: "find_kernel_map offset ty (maplist d) = None"
    and add: "drm_addmap kn (\<lambda>_ d. d) offset sz ty fl d = Ret ((E_OK, Some m), d1)"
  shows "maplist d1 = maplist d @ [m] \<and> handle_ext d1 = map_region m # handle_ext d \<and> sg d1 = sg d \<and>
    agp d1 = agp d \<and> dma d1 = dma d \<and> lm_id m = next_map d \<and> \<not> dev_lock d1"
proof -
  have good: "\<not> addmap_bad offset sz ty fl"
    using add by (auto simp: drm_addmap_bad)
  obtain l where l: "drm_new kn K_MAP (dma_mem d) = Some l"
    using drm_addmap_nomem[OF good unl _ new, of "\<lambda>_ d. d" kn] unl add by fastforce
  obtain a where a: "ext_alloc kn (handle_ext d) sz = Inr a"
    using drm_addmap_full[OF good unl _ new, of "\<lambda>_ d. d" kn l] unl l add
    by (cases "ext_alloc kn (handle_ext d) sz") auto
  note run = drm_addmap_region[OF good unl _ new, of "\<lambda>_ d. d" kn l a, simplified, OF unl l a]
  obtain m' d2 where st: "addmap_setup kn (\<lambda>_ d. d) (addmap_map offset sz ty fl a d) (addmap_dev sz a l d) = Ret ((E_OK, m'), d2)"
    and d1: "m' = m" "obind (DRM_LOCK d2) (\<lambda>d. DRM_UNLOCK (d\<lparr>maplist := maplist d @ [m]\<rparr>)) = Ret d1"
    using add run by (auto simp: obind_eq_Ret split: if_splits)
  show ?thesis
    using addmap_setup_frame[OF st] unl d1 by auto
qed

lemma addmap_rmmap_same:
  assumes law: "extent_law kn" and mtrr: "mtrr_law kn" and inv: "bus_inv kn ex lv d" and unl: "\<not> dev_lock d"
    and new: "find_kernel_map offset ty (maplist d) = None"
    and add: "drm_addmap kn (\<lambda>_ d. d) offset sz ty fl d = Ret ((E_OK, Some m), d1)"
    and rm: "drm_rmmap kn m d1 = Ret d2"
  shows "maplist d2 = maplist d \<and> handle_ext d2 = handle_ext d \<and> dma_mem d2 = dma_mem d \<and>
    maplist d1 = maplist d @ [m] \<and> (\<exists>r. handle_ext d1 = r # handle_ext d)"
proof -
  note frame = drm_addmap_frame[OF unl new add]
  have own1: "owns kn False ex lv d1"
    using drm_addmap_owns[of kn False ex lv d "\<lambda>_ d. d" offset sz ty fl] inv unl law add calm_id
    by (auto simp: owns_exact)
  let ?d1 = "d1\<lparr>dev_lock := True\<rparr>"
  have m: "m \<in> set (maplist ?d1)" and own1': "owns kn False ex lv ?d1"
    using frame own1 by simp_all
  obtain d3 where rml: "drm_rmmap_locked kn m ?d1 = Ret d3" and own3: "owns kn False ex lv d3"
    and d3: "maplist d3 = filter (\<lambda>x. lm_id x \<noteq> lm_id m) (maplist ?d1)" "dev_lock d3" "agp d3 = agp d1"
      "sg d3 = sg d1" "dma d3 = dma d1" "handle_ext d3 = remove1 (map_region m) (handle_ext ?d1)"
    using drm_rmmap_locked_owns[OF own1' m] mtrr by auto
  have d2: "d2 = d3\<lparr>dev_lock := False\<rparr>"
    using rm rml d3(2) frame by (simp add: drm_rmmap_def)
  have "distinct (map lm_id (maplist d @ [m]))"
    using owns_distinct[OF own1] frame by simp
  then have maps: "maplist d2 = maplist d"
    using d3(1) frame filter_other_id[of "maplist d" m "[]"] by (simp add: d2)
  have "dma_mem d2 = bus_res kn d2 + lv" "dma_mem d = bus_res kn d + lv"
    using own3 inv by (simp_all add: d2 owns_exact bus_inv_def)
  moreover have "bus_res kn d2 = bus_res kn d"
    using maps d3 frame by (simp add: bus_res_def d2)
  ultimately show ?thesis
    using maps d3 frame by (simp add: d2)
qed

section \<open>Requests\<close>

text \<open>
  The requests on maps and scatter-gather memory that return, made with \<^verbatim>\<open>dev_lock\<close> free, while
  others do what they like between them as long as they keep what the device owns.
\<close>

inductive map_req :: "('z) kern_scheme \<Rightarrow> 'a bus_dev_scheme \<Rightarrow> 'a bus_dev_scheme \<Rightarrow> bool" for kn where
  mr_addmap: "calm kn True env \<Longrightarrow> \<not> dev_lock d \<Longrightarrow>
     drm_addmap_ioctl kn env rq f d = Ret (r, d') \<Longrightarrow> map_req kn d d'"
| mr_addmap_kernel: "calm kn True env \<Longrightarrow> \<not> dev_lock d \<Longrightarrow>
     drm_addmap kn env offset sz ty fl d = Ret (r, d') \<Longrightarrow> map_req kn d d'"
| mr_rmmap_ioctl: "\<not> dev_lock d \<Longrightarrow> drm_rmmap_ioctl kn h d = Ret (e, d') \<Longrightarrow> map_req kn d d'"
| mr_rmmap: "\<not> dev_lock d \<Longrightarrow> drm_rmmap kn m d = Ret d' \<Longrightarrow> map_req kn d d'"
| mr_sg_alloc: "calm kn True env \<Longrightarrow> \<not> dev_lock d \<Longrightarrow>
     drm_sg_alloc_ioctl kn env sz d = Ret (r, d') \<Longrightarrow> map_req kn d d'"
| mr_sg_free: "\<not> dev_lock d \<Longrightarrow> drm_sg_free h d = Ret (e, d') \<Longrightarrow> map_req kn d d'"
| mr_mmap: "\<not> dev_lock d \<Longrightarrow> drmmmap kn mi off d = Ret (pa, d') \<Longrightarrow> map_req kn d d'"

inductive map_reach :: "('z) kern_scheme \<Rightarrow> 'a bus_dev_scheme \<Rightarrow> bool" for kn where
  map_start: "maplist d = [] \<Longrightarrow> handle_ext d = [] \<Longrightarrow> dma_mem d = bus_res kn d \<Longrightarrow> map_reach kn d"
| map_step: "map_reach kn d \<Longrightarrow> map_req kn d d' \<Longrightarrow> map_reach kn d'"

lemma bus_inv_start:
  "maplist d = [] \<Longrightarrow> handle_ext d = [] \<Longrightarrow> dma_mem d = bus_res kn d \<Longrightarrow> bus_inv kn {#} {#} d"
  by (simp add: bus_inv_def ids_ok_def)

lemma drm_addmap_ioctl_owns:
  assumes own: "owns kn True ex lv d" and unl: "\<not> dev_lock d" and calm: "calm kn True env" and law: "extent_law kn"
    and run: "drm_addmap_ioctl kn env rq f d = Ret (r, d')"
  shows "owns kn True ex lv d'"
proof (cases "f_flags f AND (FREAD OR FWRITE) = 0")
  case True
  then show ?thesis using run own by (simp add: drm_addmap_ioctl_def)
next
  case False
  let ?add = "drm_addmap kn env (rq_offset rq) (rq_size rq) (rq_type rq) (rq_flags rq) d"
  have "?add \<noteq> Panic"
    using run False by (auto simp: drm_addmap_ioctl_def)
  then obtain e mo d2 where add: "?add = Ret ((e, mo), d2)" and "owns kn True ex lv d2"
    using drm_addmap_owns[OF own unl calm law] by blast
  then show ?thesis
    using run False by (auto simp: drm_addmap_ioctl_def split: if_splits option.splits)
qed

lemma drm_rmmap_locked_ret:
  assumes "owns kn True ex lv d" and "drm_rmmap_locked kn m d = Ret d'"
  shows "owns kn True ex lv d'" and "dev_lock d' = dev_lock d" and "m \<in> set (maplist d)"
proof -
  show m: "m \<in> set (maplist d)"
    using assms(2) by (auto simp: drm_rmmap_locked_def split: if_splits)
  show "owns kn True ex lv d'" "dev_lock d' = dev_lock d"
    using drm_rmmap_locked_owns[OF assms(1) m] assms(2) by auto
qed

lemma drm_rmmap_owns:
  assumes own: "owns kn True ex lv d" and unl: "\<not> dev_lock d" and run: "drm_rmmap kn m d = Ret d'"
  shows "owns kn True ex lv d'"
proof -
  obtain d2 where rm: "drm_rmmap_locked kn m (d\<lparr>dev_lock := True\<rparr>) = Ret d2" and unlock: "DRM_UNLOCK d2 = Ret d'"
    using run unl by (auto simp: drm_rmmap_def obind_eq_Ret)
  have "owns kn True ex lv (d\<lparr>dev_lock := True\<rparr>)"
    using own by simp
  from drm_rmmap_locked_ret[OF this rm] show ?thesis
    using unlock by auto
qed

lemma drm_rmmap_ioctl_owns:
  assumes own: "owns kn True ex lv d" and unl: "\<not> dev_lock d" and run: "drm_rmmap_ioctl kn h d = Ret (e, d')"
  shows "owns kn True ex lv d'"
proof (cases "find (\<lambda>m. lm_handle m = h \<and> lm_flags m AND DRM_REMOVABLE \<noteq> 0) (maplist d)")
  case None
  then show ?thesis using run unl own by (simp add: drm_rmmap_ioctl_def)
next
  case (Some m)
  then have "drm_rmmap kn m d = Ret d'"
    using run unl by (auto simp: drm_rmmap_ioctl_def drm_rmmap_def obind_eq_Ret)
  then show ?thesis
    by (rule drm_rmmap_owns[OF own unl])
qed

lemma drmmmap_state: "\<not> dev_lock d \<Longrightarrow> drmmmap kn mi off d = Ret (pa, d') \<Longrightarrow> d' = d"
  by (auto simp: drmmmap_def Let_def obind_eq_Ret split: option.splits if_splits)

lemma map_req_owns:
  "map_req kn d d' \<Longrightarrow> extent_law kn \<Longrightarrow> owns kn True ex lv d \<Longrightarrow> owns kn True ex lv d'"
proof (induction rule: map_req.induct)
  case (mr_addmap env d rq f r d')
  then show ?case by (blast intro: drm_addmap_ioctl_owns)
next
  case (mr_addmap_kernel env d offset sz ty fl r d')
  then show ?case
    using drm_addmap_owns[of kn True ex lv d env offset sz ty fl] by auto
next
  case (mr_sg_alloc env d sz r d')
  then show ?case
    using drm_sg_alloc_owns[of kn True ex lv d env sz] by (auto simp: drm_sg_alloc_ioctl_def)
next
  case (mr_sg_free d h e d')
  then show ?case
    using drm_sg_free_owns[of kn True ex lv d h] by auto
next
  case (mr_mmap d mi off pa d')
  then show ?case
    using drmmmap_state by blast
qed (blast intro: drm_rmmap_ioctl_owns drm_rmmap_owns)+

lemma map_reach_owns:
  assumes "map_reach kn d" and law: "extent_law kn"
  shows "owns kn True {#} {#} d"
  using assms(1)
proof induction
  case (map_start d)
  then show ?case
    using bus_inv_start owns_exact owns_weaken by blast
next
  case (map_step d d')
  then show ?case
    using map_req_owns[OF _ law] by blast
qed

section \<open>Regions\<close>

lemma apart_sym: "apart x y \<Longrightarrow> apart y x"
  by (auto simp: apart_def)

lemma sorted_wrt_apart_perm:
  "sorted_wrt apart xs \<Longrightarrow> mset xs = mset ys \<Longrightarrow> sorted_wrt apart ys"
proof (induction ys arbitrary: xs)
  case (Cons y ys)
  have "y \<in> set xs"
    using Cons.prems(2) by (metis list.set_intros(1) set_mset_mset)
  then obtain as bs where xs: "xs = as @ y # bs"
    by (meson split_list)
  have perm: "mset (as @ bs) = mset ys"
    using Cons.prems(2) xs by simp
  have "\<forall>z\<in>set (as @ bs). apart y z"
    using Cons.prems(1) by (auto simp: xs sorted_wrt_append intro: apart_sym)
  then have "\<forall>z\<in>set ys. apart y z"
    using perm by (metis set_mset_mset)
  moreover have "sorted_wrt apart (as @ bs)"
    using Cons.prems(1) by (simp add: xs sorted_wrt_append)
  ultimately show ?case
    using Cons.IH perm by simp
qed simp

lemma sorted_wrt_apart_pair:
  "sorted_wrt apart (map f xs) \<Longrightarrow> x \<in> set xs \<Longrightarrow> y \<in> set xs \<Longrightarrow> x \<noteq> y \<Longrightarrow> apart (f x) (f y)"
  by (induction xs) (auto intro: apart_sym)

lemma owns_extents:
  assumes "owns kn lk ex lv d"
  obtains X where "sorted_wrt apart (handle_ext d)" and "\<forall>r\<in>set (handle_ext d). in_extent r"
    and "mset (handle_ext d) = image_mset map_region (mset (maplist d)) + X"
proof -
  obtain ex' lv' where "bus_inv kn (ex + ex') (lv + lv') d"
    using assms unfolding owns_def by blast
  then show ?thesis
    by (intro that[of "image_mset snd (ex + ex')"]) (simp_all add: bus_inv_def)
qed

lemma owns_apart:
  assumes own: "owns kn lk ex lv d" and m: "m1 \<in> set (maplist d)" "m2 \<in> set (maplist d)" "m1 \<noteq> m2"
  shows "apart (map_region m1) (map_region m2)"
proof -
  obtain X where sorted: "sorted_wrt apart (handle_ext d)"
    and ms: "mset (handle_ext d) = image_mset map_region (mset (maplist d)) + X"
    using owns_extents[OF own] by blast
  obtain xs where "mset xs = X"
    using ex_mset by blast
  then have "sorted_wrt apart (map map_region (maplist d) @ xs)"
    using sorted_wrt_apart_perm[OF sorted] ms by simp
  then have "sorted_wrt apart (map map_region (maplist d))"
    unfolding sorted_wrt_append by blast
  then show ?thesis
    by (rule sorted_wrt_apart_pair[OF _ m])
qed

lemma owns_in_extent: "owns kn lk ex lv d \<Longrightarrow> m \<in> set (maplist d) \<Longrightarrow> in_extent (map_region m)"
proof -
  assume own: "owns kn lk ex lv d" and m: "m \<in> set (maplist d)"
  then obtain X where "mset (handle_ext d) = image_mset map_region (mset (maplist d)) + X"
    and inx: "\<forall>r\<in>set (handle_ext d). in_extent r"
    using owns_extents by blast
  then have "map_region m \<in># mset (handle_ext d)"
    using m by simp
  then show ?thesis using inx by simp
qed

text \<open>What the search of \<^verbatim>\<open>drmmmap\<close> tests is membership in the region.\<close>

lemma offset_in_region:
  assumes "in_extent (map_region m)" and "0 \<le> offset" "offset < 2 ^ 63"
  shows "((word_of_int offset :: u64) \<ge> lm_ext m \<and> (word_of_int offset :: u64) < lm_ext m + lm_size m) \<longleftrightarrow>
         nat offset \<in> ext_region (map_region m)"
proof (cases "lm_size m = 0")
  case True
  then show ?thesis by (auto simp: ext_region_def map_region_def)
next
  case False
  then have lim: "unat (lm_ext m) + unat (lm_size m) \<le> 2 ^ 63"
    using assms(1) by (simp add: in_extent_def map_region_def)
  have off: "unat (word_of_int offset :: u64) = nat offset"
    using assms(2,3) by (simp add: unat_eq_nat_uint uint_word_of_int)
  have sum: "unat (lm_ext m + lm_size m) = unat (lm_ext m) + unat (lm_size m)"
    using lim by (subst unat_plus_if_size) (simp add: word_size)
  show ?thesis
    by (simp add: word_le_nat_alt word_less_nat_alt off sum ext_region_def map_region_def)
qed

lemma map_of_offset_unique:
  assumes own: "owns kn lk ex lv d" and m: "m \<in> set (maplist d)" and off: "0 \<le> offset" "offset < 2 ^ 63"
    and reg: "nat offset \<in> ext_region (map_region m)"
  shows "map_of_offset (maplist d) offset = Some m"
proof (cases "map_of_offset (maplist d) offset")
  case None
  then show ?thesis
    using m reg offset_in_region[OF owns_in_extent[OF own m] off]
    by (auto simp: map_of_offset_def find_None_iff)
next
  case (Some m')
  then have m': "m' \<in> set (maplist d)"
    and "(word_of_int offset :: u64) \<ge> lm_ext m' \<and> (word_of_int offset :: u64) < lm_ext m' + lm_size m'"
    by (auto simp: map_of_offset_def find_Some_iff)
  then have "nat offset \<in> ext_region (map_region m')"
    using offset_in_region[OF owns_in_extent[OF own m'] off] by blast
  then have "m' = m"
    using owns_apart[OF own m' m] reg by (auto simp: apart_def)
  then show ?thesis using Some by simp
qed

end
