(* ===== verification/Maps_Claims.thy ===== *)
theory Maps_Claims
  imports Maps_Props Agp_Props
begin

text \<open>
  The claims about maps, with a concrete kernel and device at which they are applied.
\<close>

section \<open>A concrete device\<close>

text \<open>A kernel that always has memory and hands out the addresses behind the last region.\<close>

definition demo_ext :: "(u64 \<times> u64) list \<Rightarrow> u64 \<Rightarrow> errno + u64" where
  "demo_ext rs sz =
     (let a = foldr (\<lambda>r n. max n (unat (fst r) + unat (snd r))) rs (2 ^ 30)
      in if a + unat sz \<le> 2 ^ 63 \<and> (of_nat a :: u64) AND 4095 = 0 then Inr (of_nat a) else Inl ENOMEM)"

definition demo_kern :: kern where
  "demo_kern =
     \<lparr>bd_malloc = \<lambda>_ _. True, bd_create = \<lambda>_ _ _ _. E_OK,
      bd_alloc = \<lambda>_ sz _ _. Inr [(0x100000, sz)], bd_kva = \<lambda>_ _ _. Inr 0xffff0000,
      bd_load = \<lambda>_ _ sz. Inr [(0x100000, sz)], ext_alloc = demo_ext, mtrr_set = None,
      bs_map = \<lambda>a _. Some a, bs_mmap = \<lambda>a off. Some (drop_bit 12 (a + off))\<rparr>"

lemma demo_ext_above:
  "r \<in> set rs \<Longrightarrow> unat (fst r) + unat (snd r) \<le> foldr (\<lambda>r n. max n (unat (fst r) + unat (snd r))) rs k"
  "k \<le> foldr (\<lambda>r n. max n (unat (fst r) + unat (snd r))) rs k"
  by (induction rs) auto

lemma demo_law: "extent_law demo_kern"
proof -
  have "2 ^ 30 \<le> unat a \<and> unat a + unat sz \<le> 2 ^ 63 \<and> a AND 4095 = 0 \<and>
      (\<forall>r\<in>set rs. ext_region (a, sz) \<inter> ext_region r = {})"
    if "demo_ext rs sz = Inr a" for rs sz a
  proof -
    let ?a = "foldr (\<lambda>r n. max n (unat (fst r) + unat (snd r))) rs (2 ^ 30)"
    have a: "a = of_nat ?a" "?a + unat sz \<le> 2 ^ 63" "a AND 4095 = 0"
      using that by (auto simp: demo_ext_def Let_def split: if_splits)
    have "unat a = ?a"
      using a(1,2) by (simp add: unat_of_nat)
    moreover have "2 ^ 30 \<le> ?a"
      by (rule demo_ext_above(2))
    moreover have "\<forall>r\<in>set rs. unat (fst r) + unat (snd r) \<le> ?a"
      using demo_ext_above(1) by blast
    ultimately show ?thesis
      using a(2,3) by (fastforce simp: ext_region_def)
  qed
  moreover have "demo_ext rs sz \<noteq> Inl E_OK" for rs sz
    by (simp add: demo_ext_def Let_def)
  ultimately show ?thesis
    by (simp add: extent_law_def demo_kern_def PAGE_SIZE_def)
qed

text \<open>The device of an open master.\<close>

definition demo_user :: drm_file where
  "demo_user =
     \<lparr>obj_tree = [], evlist = [], authenticated = 1, ioctl_count = 0, kdev = 0, magic = 0,
      event_space = 4096, f_flags = 3, master = 1, f_minor = 0, obj_id = 0\<rparr>"

definition demo_dev :: bus_dev where
  "demo_dev =
     \<lparr>lock = \<lparr>hw_lock = None, lk_file_priv = None, lk_broadcasts = 0\<rparr>, ctx_bitmap = None,
      files = [(0, demo_user)], open_count = 1, magicid = 1, if_version = 0,
      objs = (\<lambda>_. None), uao_count = 0, obj_count = 0, obj_name = 0, obj_memory = 0, name_tree = [],
      dev_private = Some 0, dev_irq = 5, irq_enabled = 0, vblank = None, dev_lock = False,
      handle_ext = [], maplist = [], next_map = 0, lock_kva = None, agp = None, agp_dev = demo_agp,
      sg = None, dma = None, agp_buffer_map = None, dma_mem = {#}, buf_pgid = 0, unique = ''''\<rparr>"

lemma demo_dev_sel [simp]:
  "dev_lock demo_dev = False" "handle_ext demo_dev = []" "maplist demo_dev = []" "next_map demo_dev = 0"
  "lock_kva demo_dev = None" "agp demo_dev = None" "sg demo_dev = None" "dma demo_dev = None"
  "dma_mem demo_dev = {#}" "files demo_dev = [(0, demo_user)]" "agp_buffer_map demo_dev = None"
  "lock demo_dev = \<lparr>hw_lock = None, lk_file_priv = None, lk_broadcasts = 0\<rparr>"
  by (simp_all add: demo_dev_def)

definition demo_regs :: drm_local_map where
  "demo_regs = \<lparr>lm_id = 0, lm_dmamem = None, lm_handle = 0, lm_ext = 0x40000000, lm_offset = 0xd0000000,
     lm_size = 0x1000, lm_mtrr = 0, lm_flags = 0, lm_type = DRM_REGISTERS\<rparr>"

definition demo_dev1 :: bus_dev where
  "demo_dev1 = demo_dev\<lparr>handle_ext := [(0x40000000, 0x1000)], maplist := [demo_regs], next_map := 1,
     dma_mem := {#R_mem K_MAP#}\<rparr>"

lemma demo_addmap:
  "drm_addmap demo_kern (\<lambda>_ d. d) 0xd0000000 0x1000 DRM_REGISTERS 0 demo_dev = Ret ((E_OK, Some demo_regs), demo_dev1)"
  by (simp add: drm_addmap_def addmap_setup_def find_kernel_map_def demo_kern_def drm_new_def
      bus_dma.truncate_def demo_ext_def map_types PAGE_SIZE_def DRM_REMOVABLE_def Let_def
      demo_regs_def demo_dev1_def)

definition demo_rq :: drm_map where
  "demo_rq = \<lparr>rq_offset = 0xd0000000, rq_size = 0x1000, rq_type = DRM_REGISTERS, rq_flags = 0, rq_handle = 0, rq_mtrr = 0\<rparr>"

lemma demo_map_reach: "map_reach demo_kern demo_dev1"
proof (rule map_step[OF map_start])
  show "dma_mem demo_dev = bus_res demo_kern demo_dev"
    by (simp add: bus_res_def sg_res_def agp_res_def dma_res_of_def)
  show "map_req demo_kern demo_dev demo_dev1"
    by (rule mr_addmap[where env = "\<lambda>_ d. d" and rq = demo_rq and f = demo_user, OF calm_id])
      (simp_all add: drm_addmap_ioctl_def demo_addmap demo_rq_def demo_user_def FREAD_def FWRITE_def)
qed simp_all

section \<open>Regions\<close>

text \<open>
  C19: Whatever requests have been served, and whatever others did while the lock was released, the
  regions of any two maps are disjoint, every region lies above the first gigabyte, and the offset
  of a mapping selects the one map whose region contains it.
\<close>

theorem maps_apart:
  assumes "extent_law kn" and "map_reach kn d"
  shows "(\<forall>m\<in>set (maplist d). \<forall>m'\<in>set (maplist d). m \<noteq> m' \<longrightarrow>
           ext_region (map_region m) \<inter> ext_region (map_region m') = {}) \<and>
         (\<forall>m\<in>set (maplist d). lm_size m \<noteq> 0 \<longrightarrow>
           2 ^ 30 \<le> unat (lm_ext m) \<and> unat (lm_ext m) + unat (lm_size m) \<le> 2 ^ 63) \<and>
         (\<forall>m\<in>set (maplist d). \<forall>offset. 0 \<le> offset \<longrightarrow> offset < 2 ^ 63 \<longrightarrow>
           nat offset \<in> ext_region (map_region m) \<longrightarrow> map_of_offset (maplist d) offset = Some m)"
proof (intro conjI)
  have own: "owns kn True {#} {#} d"
    by (rule map_reach_owns[OF assms(2,1)])
  show "\<forall>m\<in>set (maplist d). \<forall>m'\<in>set (maplist d). m \<noteq> m' \<longrightarrow>
           ext_region (map_region m) \<inter> ext_region (map_region m') = {}"
    using owns_apart[OF own] by (simp add: apart_def)
  show "\<forall>m\<in>set (maplist d). lm_size m \<noteq> 0 \<longrightarrow>
           2 ^ 30 \<le> unat (lm_ext m) \<and> unat (lm_ext m) + unat (lm_size m) \<le> 2 ^ 63"
    using owns_in_extent[OF own] by (auto simp: in_extent_def map_region_def)
  show "\<forall>m\<in>set (maplist d). \<forall>offset. 0 \<le> offset \<longrightarrow> offset < 2 ^ 63 \<longrightarrow>
           nat offset \<in> ext_region (map_region m) \<longrightarrow> map_of_offset (maplist d) offset = Some m"
    using map_of_offset_unique[OF own] by blast
qed

theorem maps_apart_witness: "map_of_offset (maplist demo_dev1) 0x40000800 = Some demo_regs"
  using maps_apart[OF demo_law demo_map_reach]
  by (simp add: demo_dev1_def demo_regs_def ext_region_def map_region_def)

section \<open>Removal undoes addition\<close>



end
