(* ===== verification/Maps_Sarea.thy ===== *)
theory Maps_Sarea
  imports Maps_Claims
begin

text \<open>
  The SAREA is the shared map that holds the hardware lock. Once it is there, every request for
  shared memory is answered with a map the device already has, so that no map a client could
  remove ever comes into being.
\<close>

section \<open>The SAREA stays\<close>

definition sarea_inv :: "'a bus_dev_scheme \<Rightarrow> bool" where
  "sarea_inv d \<longleftrightarrow>
     (\<exists>m\<in>set (maplist d). lm_type m = DRM_SHM \<and> lm_flags m = DRM_CONTAINS_LOCK) \<and>
     (\<forall>m\<in>set (maplist d). lm_flags m AND DRM_REMOVABLE = 0)"

definition keeps_sarea :: "(nat \<Rightarrow> 'a bus_dev_scheme \<Rightarrow> 'a bus_dev_scheme) \<Rightarrow> bool" where
  "keeps_sarea env \<longleftrightarrow>
     (\<forall>k d. sarea_inv d \<longrightarrow> \<not> dev_lock d \<longrightarrow> sarea_inv (env k d) \<and> \<not> dev_lock (env k d))"

lemma keepsD:
  "keeps_sarea env \<Longrightarrow> sarea_inv d \<Longrightarrow> \<not> dev_lock d \<Longrightarrow> sarea_inv (env k d) \<and> \<not> dev_lock (env k d)"
  by (simp add: keeps_sarea_def)

lemma sarea_inv_frame [simp]:
  "sarea_inv (d\<lparr>dma_mem := l\<rparr>) = sarea_inv d" "sarea_inv (d\<lparr>sg := so\<rparr>) = sarea_inv d"
  "sarea_inv (d\<lparr>dev_lock := b\<rparr>) = sarea_inv d"
  by (simp_all add: sarea_inv_def)

lemma sarea_inv_maplist: "maplist d' = maplist d \<Longrightarrow> sarea_inv d \<Longrightarrow> sarea_inv d'"
  by (simp add: sarea_inv_def)

lemma sarea_found: "sarea_inv d \<Longrightarrow> \<exists>m\<in>set (maplist d). find_kernel_map offset DRM_SHM (maplist d) = Some m"
proof -
  assume "sarea_inv d"
  then have "find (kernel_map offset DRM_SHM) (maplist d) \<noteq> None"
    by (auto simp: sarea_inv_def find_None_iff kernel_map_def)
  then show ?thesis
    by (auto simp: find_kernel_map_def find_Some_iff)
qed

lemma addmap_setup_maplist:
  assumes "lm_type m \<noteq> DRM_SHM" and "addmap_setup kn env m d = Ret ((e, m'), d')" and "\<not> dev_lock d"
  shows "maplist d' = maplist d \<and> \<not> dev_lock d' \<and> lm_flags m' = lm_flags m"
  using assms by (auto simp: addmap_setup_def Let_def split: if_splits option.splits prod.splits)

lemma drm_addmap_sarea:
  assumes inv: "sarea_inv d" and unl: "\<not> dev_lock d" and keeps: "keeps_sarea env"
    and run: "drm_addmap kn env offset sz ty fl d = Ret ((e, mo), d')"
  shows "sarea_inv d'"
proof (cases "addmap_bad offset sz ty fl \<or> ty = DRM_SHM")
  case True
  then show ?thesis
    using run inv drm_addmap_bad[of offset sz ty fl kn env d] sarea_found[OF inv, of offset]
      drm_addmap_found[of offset sz ty fl d _ kn env] unl by fastforce
next
  case False
  then have good: "\<not> addmap_bad offset sz ty fl" and ty: "ty \<noteq> DRM_SHM" by auto
  note env0 = keepsD[OF keeps inv unl, of 0]
  have fl: "fl AND DRM_REMOVABLE = 0"
    using drm_addmap_good(1)[OF good] ty by auto
  show ?thesis
  proof (cases "find_kernel_map offset ty (maplist d)")
    case (Some m)
    then show ?thesis
      using run inv drm_addmap_found[OF good unl Some, of kn env] by simp
  next
    case new: None
    show ?thesis
    proof (cases "drm_new kn K_MAP (dma_mem (env 0 d))")
      case None
      then show ?thesis
        using run env0 drm_addmap_nomem[OF good unl _ new, of env kn] by auto
    next
      case (Some l)
      show ?thesis
      proof (cases "ext_alloc kn (handle_ext (env 0 d)) sz")
        case (Inl e)
        then show ?thesis
          using run env0 drm_addmap_full[where env = env and d = d, OF good unl conjunct2[OF env0] new Some Inl] by auto
      next
        case (Inr a)
        note step = drm_addmap_region[where env = env, OF good unl conjunct2[OF env0] new Some Inr]
        obtain e2 m' d2 where st: "addmap_setup kn env (addmap_map offset sz ty fl a (env 0 d)) (addmap_dev sz a l (env 0 d)) = Ret ((e2, m'), d2)"
          and rest: "(if e2 \<noteq> E_OK then Ret ((e2, None), d2)
              else obind (DRM_LOCK (env 2 d2)) (\<lambda>d.
                   obind (DRM_UNLOCK (d\<lparr>maplist := maplist d @ [m']\<rparr>)) (\<lambda>d. Ret ((E_OK, Some m'), d)))) = Ret ((e, mo), d')"
          using run step by (auto simp: obind_eq_Ret)
        have d2: "sarea_inv d2" "\<not> dev_lock d2" "lm_flags m' = fl"
          using addmap_setup_maplist[OF _ st] ty env0 by (auto intro: sarea_inv_maplist[rotated])
        show ?thesis
          using rest d2 keepsD[OF keeps d2(1,2), of 2] fl
          by (auto simp: sarea_inv_def split: if_splits)
      qed
    qed
  qed
qed

text \<open>The requests of clients; the driver does not remove maps here.\<close>

inductive client_req :: "('z) kern_scheme \<Rightarrow> 'a bus_dev_scheme \<Rightarrow> 'a bus_dev_scheme \<Rightarrow> bool" for kn where
  cr_addmap: "keeps_sarea env \<Longrightarrow> \<not> dev_lock d \<Longrightarrow>
     drm_addmap_ioctl kn env rq f d = Ret (r, d') \<Longrightarrow> client_req kn d d'"
| cr_rmmap: "\<not> dev_lock d \<Longrightarrow> drm_rmmap_ioctl kn h d = Ret (e, d') \<Longrightarrow> client_req kn d d'"
| cr_sg_alloc: "keeps_sarea env \<Longrightarrow> \<not> dev_lock d \<Longrightarrow>
     drm_sg_alloc_ioctl kn env sz d = Ret (r, d') \<Longrightarrow> client_req kn d d'"
| cr_sg_free: "\<not> dev_lock d \<Longrightarrow> drm_sg_free h d = Ret (e, d') \<Longrightarrow> client_req kn d d'"
| cr_mmap: "\<not> dev_lock d \<Longrightarrow> drmmmap kn mi off d = Ret (pa, d') \<Longrightarrow> client_req kn d d'"

lemma rmmap_ioctl_sarea:
  "sarea_inv d \<Longrightarrow> \<not> dev_lock d \<Longrightarrow> drm_rmmap_ioctl kn h d = Ret (EINVAL, d)"
proof -
  assume "sarea_inv d" and unl: "\<not> dev_lock d"
  then have "find (\<lambda>m. lm_handle m = h \<and> lm_flags m AND DRM_REMOVABLE \<noteq> 0) (maplist d) = None"
    by (auto simp: sarea_inv_def find_None_iff)
  then show ?thesis using unl by (simp add: drm_rmmap_ioctl_def)
qed

lemma sg_alloc_sarea:
  assumes "sarea_inv d" "\<not> dev_lock d" "keeps_sarea env" "drm_sg_alloc kn env sz d = Ret (r, d')"
  shows "sarea_inv d'"
proof -
  have "sarea_inv (env 0 (d\<lparr>dma_mem := l\<rparr>)) \<and> \<not> dev_lock (env 0 (d\<lparr>dma_mem := l\<rparr>))" for l
    using keepsD[OF assms(3), of "d\<lparr>dma_mem := l\<rparr>" 0] assms(1,2) by simp
  then show ?thesis
    using assms(1,4)
    by (auto simp: drm_sg_alloc_def Let_def split: if_splits option.splits prod.splits)
qed

lemma client_req_sarea: "client_req kn d d' \<Longrightarrow> sarea_inv d \<Longrightarrow> sarea_inv d'"
proof (induction rule: client_req.induct)
  case (cr_addmap env d rq f r d')
  then show ?case
    by (auto simp: drm_addmap_ioctl_def obind_eq_Ret split: if_splits option.splits
        intro: drm_addmap_sarea)
next
  case (cr_rmmap d h e d')
  then show ?case using rmmap_ioctl_sarea[of d kn h] by simp
next
  case (cr_sg_alloc env d sz r d')
  then show ?case using sg_alloc_sarea unfolding drm_sg_alloc_ioctl_def by blast
next
  case (cr_sg_free d h e d')
  then show ?case
    by (auto simp: drm_sg_free_def Let_def split: option.splits if_splits)
next
  case (cr_mmap d mi off pa d')
  then show ?case using drmmmap_state by blast
qed

text \<open>
  C22: As long as the SAREA that the first open installs is there, whatever clients ask for in
  whatever order, a request for shared memory is refused or answered with an existing map without
  any change, and \<^verbatim>\<open>DRM_IOCTL_RM_MAP\<close> finds nothing to remove: it always fails.
\<close>

theorem rm_map_never:
  assumes "(client_req kn)\<^sup>*\<^sup>* d0 d" and "sarea_inv d0" and "\<not> dev_lock d"
  shows "drm_rmmap_ioctl kn h d = Ret (EINVAL, d) \<and>
    (drm_addmap kn env offset sz DRM_SHM fl d = Ret ((EINVAL, None), d) \<or>
     (\<exists>m\<in>set (maplist d). drm_addmap kn env offset sz DRM_SHM fl d = Ret ((E_OK, Some m), d)))"
proof (intro conjI)
  have inv: "sarea_inv d"
    using assms(1,2) by induction (auto intro: client_req_sarea)
  then show "drm_rmmap_ioctl kn h d = Ret (EINVAL, d)"
    by (rule rmmap_ioctl_sarea[OF _ assms(3)])
  obtain m where "m \<in> set (maplist d)" "find_kernel_map offset DRM_SHM (maplist d) = Some m"
    using sarea_found[OF inv] by blast
  then show "drm_addmap kn env offset sz DRM_SHM fl d = Ret ((EINVAL, None), d) \<or>
         (\<exists>m\<in>set (maplist d). drm_addmap kn env offset sz DRM_SHM fl d = Ret ((E_OK, Some m), d))"
    using drm_addmap_bad drm_addmap_found[OF _ assms(3)] by blast
qed

definition demo_mem :: drm_dmamem where
  "demo_mem = \<lparr>dm_map = [(0x100000, 0x2000)], dm_kva = 0xffff0000, dm_size = 0x2000, dm_segs = [(0x100000, 0x2000)]\<rparr>"

definition demo_sarea :: drm_local_map where
  "demo_sarea = \<lparr>lm_id = 0, lm_dmamem = Some demo_mem, lm_handle = 0xffff0000, lm_ext = 0x40000000,
     lm_offset = 0x100000, lm_size = 0x2000, lm_mtrr = 0, lm_flags = DRM_CONTAINS_LOCK, lm_type = DRM_SHM\<rparr>"

definition demo_open :: bus_dev where
  "demo_open = demo_dev\<lparr>lock := \<lparr>hw_lock = Some 0, lk_file_priv = None, lk_broadcasts = 0\<rparr>,
     handle_ext := [(0x40000000, 0x2000)], maplist := [demo_sarea], next_map := 1, lock_kva := Some 0xffff0000,
     dma_mem := add_mset (R_mem K_MAP) (footprint demo_mem)\<rparr>"

lemma demo_add_sarea:
  "drm_addmap demo_kern (\<lambda>_ d. d) 0 0x2000 DRM_SHM DRM_CONTAINS_LOCK demo_dev = Ret ((E_OK, Some demo_sarea), demo_open)"
  by (simp add: drm_addmap_def addmap_setup_def find_kernel_map_def demo_kern_def drm_new_def
      bus_dma.truncate_def demo_ext_def map_types PAGE_SIZE_def DRM_REMOVABLE_def DRM_CONTAINS_LOCK_def Let_def
      drm_dmamem_alloc_def dm_segs0_def demo_sarea_def demo_open_def demo_mem_def footprint_def add_mset_commute)

lemma demo_open_sarea: "sarea_inv demo_open" "\<not> dev_lock demo_open"
  by (simp_all add: sarea_inv_def demo_open_def demo_sarea_def DRM_CONTAINS_LOCK_def DRM_REMOVABLE_def)

theorem rm_map_never_witness:
  "drm_rmmap_ioctl demo_kern 0xffff0000 demo_open = Ret (EINVAL, demo_open)"
  using rm_map_never[OF rtranclp.rtrancl_refl demo_open_sarea] by blast

section \<open>What a client can map\<close>

text \<open>The address is within the map, for the types of which the map itself decides.\<close>

definition within_map :: "drm_local_map \<Rightarrow> int \<Rightarrow> u64 \<Rightarrow> bool" where
  "within_map m offset pa \<longleftrightarrow>
     (lm_type m = DRM_FRAME_BUFFER \<or> lm_type m = DRM_REGISTERS \<longrightarrow>
        pa = lm_offset m + ((word_of_int offset :: u64) - lm_ext m)) \<and>
     (lm_type m = DRM_SHM \<or> lm_type m = DRM_CONSISTENT \<longrightarrow>
        (\<exists>mem. lm_dmamem m = Some mem \<and>
           (\<exists>a len off. (a, len) \<in> set (dm_segs mem) \<and> off < len \<and> pa = drop_bit 12 (a + off))))"

text \<open>Who may map what: the page of a DMA buffer, or a place in a map that is not restricted.\<close>

definition buffer_page :: "'a bus_dev_scheme \<Rightarrow> int \<Rightarrow> u64 \<Rightarrow> bool" where
  "buffer_page d offset pa \<longleftrightarrow>
     (\<exists>p ps. dma d = Some p \<and> 0 \<le> offset \<and> offset < dma_page_count p * int PAGE_SIZE \<and>
        dma_pagelist p = Some ps \<and> pa = ps ! nat (offset div int PAGE_SIZE))"

definition mmap_policy :: "'a bus_dev_scheme \<Rightarrow> int \<Rightarrow> int \<Rightarrow> u64 \<Rightarrow> bool" where
  "mmap_policy d mi offset pa \<longleftrightarrow>
     (\<exists>f. drm_find_file_by_minor d mi = Some f \<and> authenticated f \<noteq> 0 \<and>
        (buffer_page d offset pa \<or>
         (\<exists>m\<in>set (maplist d). map_of_offset (maplist d) offset = Some m \<and>
            (lm_flags m AND DRM_RESTRICTED \<noteq> 0 \<longrightarrow> master f \<noteq> 0) \<and> within_map m offset pa)))"

lemma bus_dmamem_mmap_seg:
  "bus_dmamem_mmap segs off = Some pa \<Longrightarrow>
   \<exists>a len off'. (a, len) \<in> set segs \<and> off' < len \<and> pa = drop_bit 12 (a + off')"
  by (induction segs off rule: bus_dmamem_mmap.induct) (fastforce simp: not_le split: if_splits)+

lemma drmmmap_type_within:
  "drmmmap_type kn d m ((word_of_int offset :: u64) - lm_ext m) = Ret (Some pa) \<Longrightarrow> within_map m offset pa"
  unfolding drmmmap_type_def within_map_def
  by (auto simp: add.commute dest!: bus_dmamem_mmap_seg split: if_splits option.splits)

text \<open>The last part of \<^verbatim>\<open>drmmmap\<close>: the address in the map that was found.\<close>

lemma drmmmap_map:
  assumes run: "drmmmap kn mi offset d = Ret (Some pa, d')" and unl: "\<not> dev_lock d"
    and f: "drm_find_file_by_minor d mi = Some f" "authenticated f \<noteq> 0"
    and page: "\<not> (dma d \<noteq> None \<and> offset \<ge> 0 \<and> offset < dma_page_count (the (dma d)) * int PAGE_SIZE)"
  shows "\<exists>m\<in>set (maplist d). map_of_offset (maplist d) offset = Some m \<and>
    (lm_flags m AND DRM_RESTRICTED \<noteq> 0 \<longrightarrow> master f \<noteq> 0) \<and> within_map m offset pa"
proof (cases "map_of_offset (maplist d) offset")
  case None
  then show ?thesis
    using run unl f page by (auto simp: drmmmap_def Let_def drm_find_file_by_minor_def split: if_splits)
next
  case (Some m)
  then have m: "m \<in> set (maplist d)"
    by (auto simp: map_of_offset_def find_Some_iff)
  have "\<not> (lm_flags m AND DRM_RESTRICTED \<noteq> 0 \<and> master f = 0)"
    using run unl f page Some by (auto simp: drmmmap_def Let_def drm_find_file_by_minor_def split: if_splits)
  moreover from this have "within_map m offset pa"
    using run unl f page Some
    by (auto simp: drmmmap_def Let_def drm_find_file_by_minor_def obind_eq_Ret intro: drmmmap_type_within)
  ultimately show ?thesis
    using Some m by auto
qed

text \<open>
  C21: An address that \<^verbatim>\<open>drmmmap\<close> returns is one the policy allows: a page of the DMA buffers, or
  a place within the map that the offset selects, only for an authenticated file, and in a
  restricted map only for the master.
\<close>

theorem drmmmap_access:
  assumes run: "drmmmap kn mi offset d = Ret (Some pa, d')" and unl: "\<not> dev_lock d"
  shows "d' = d \<and> mmap_policy d mi offset pa"
proof (intro conjI)
  show "d' = d"
    by (rule drmmmap_state[OF unl run])
  obtain f where f: "drm_find_file_by_minor d mi = Some f" "authenticated f \<noteq> 0"
    using run unl by (auto simp: drmmmap_def Let_def drm_find_file_by_minor_def split: option.splits if_splits)
  show "mmap_policy d mi offset pa"
  proof (cases "dma d \<noteq> None \<and> offset \<ge> 0 \<and> offset < dma_page_count (the (dma d)) * int PAGE_SIZE")
    case True
    then have "buffer_page d offset pa"
      using run unl f
      by (auto simp: drmmmap_def Let_def drm_find_file_by_minor_def buffer_page_def split: option.splits if_splits)
    then show ?thesis
      using f by (auto simp: mmap_policy_def)
  next
    case False
    then show ?thesis
      using drmmmap_map[OF run unl f] f by (auto simp: mmap_policy_def)
  qed
qed

theorem drmmmap_access_witness:
  "drmmmap demo_kern 0 0x40000800 demo_dev1 = Ret (Some 0xd0000800, demo_dev1) \<and>
   mmap_policy demo_dev1 0 0x40000800 0xd0000800"
proof -
  have run: "drmmmap demo_kern 0 0x40000800 demo_dev1 = Ret (Some 0xd0000800, demo_dev1)"
    by (simp add: drmmmap_def drmmmap_type_def demo_dev1_def demo_regs_def map_of_offset_def drm_find_file_by_minor_def
        demo_user_def DRM_RESTRICTED_def map_types)
  then show ?thesis
    using drmmmap_access[OF run] by (simp add: demo_dev1_def)
qed

section \<open>Failed additions\<close>

text \<open>
  C23: When the structure of a map cannot be allocated, \<^verbatim>\<open>drm_addmap\<close> returns with the lock held,
  and the next call that takes it never gets it. When the type of a map has no memory behind it,
  the call fails but the region it took from the extent is never given back, so every such request
  makes the extent smaller.
\<close>

theorem drm_addmap_failures:
  assumes "\<not> dev_lock d" and "\<not> addmap_bad offset sz ty fl" and "find_kernel_map offset ty (maplist d) = None"
  shows "(drm_new kn K_MAP (dma_mem d) = None \<longrightarrow>
           drm_addmap kn (\<lambda>_ d. d) offset sz ty fl d = Ret ((ENOMEM, None), d\<lparr>dev_lock := True\<rparr>) \<and>
           (let d' = d\<lparr>dev_lock := True\<rparr> in
             drm_rmmap_ioctl kn h d' = Panic \<and> drm_sg_free h d' = Panic \<and> drmmmap kn mi off d' = Panic)) \<and>
         (drm_new kn K_MAP (dma_mem d) = Some l \<longrightarrow> ext_alloc kn (handle_ext d) sz = Inr a \<longrightarrow>
         ty > DRM_CONSISTENT \<or> ty = DRM_SCATTER_GATHER \<and> sg d = None \<longrightarrow>
           (\<exists>d'. drm_addmap kn (\<lambda>_ d. d) offset sz ty fl d = Ret ((EINVAL, None), d') \<and>
             handle_ext d' = (a, sz) # handle_ext d \<and> maplist d' = maplist d \<and> dma_mem d' = dma_mem d))"
proof (rule conjI; intro impI)
  assume "drm_new kn K_MAP (dma_mem d) = None"
  then have "drm_addmap kn (\<lambda>_ d. d) offset sz ty fl d = Ret ((ENOMEM, None), d\<lparr>dev_lock := True\<rparr>)"
    using drm_addmap_nomem[OF assms(2,1) _ assms(3), of "\<lambda>_ d. d" kn] assms(1) by simp
  moreover have "(let d' = d\<lparr>dev_lock := True\<rparr> in
             drm_rmmap_ioctl kn h d' = Panic \<and> drm_sg_free h d' = Panic \<and> drmmmap kn mi off d' = Panic)"
    by (simp add: drm_rmmap_ioctl_def drm_sg_free_def drmmmap_def DRM_LOCK_def)
  ultimately show "drm_addmap kn (\<lambda>_ d. d) offset sz ty fl d = Ret ((ENOMEM, None), d\<lparr>dev_lock := True\<rparr>) \<and>
           (let d' = d\<lparr>dev_lock := True\<rparr> in
             drm_rmmap_ioctl kn h d' = Panic \<and> drm_sg_free h d' = Panic \<and> drmmmap kn mi off d' = Panic)"
    by simp
next
  assume l: "drm_new kn K_MAP (dma_mem d) = Some l" and a: "ext_alloc kn (handle_ext d) sz = Inr a"
    and ty: "ty > DRM_CONSISTENT \<or> ty = DRM_SCATTER_GATHER \<and> sg d = None"
  have "ty \<noteq> DRM_REGISTERS \<and> ty \<noteq> DRM_FRAME_BUFFER \<and> ty \<noteq> DRM_AGP \<and> ty \<noteq> DRM_SHM \<and> ty \<noteq> DRM_CONSISTENT"
    using ty by (auto simp: map_types)
  then have "addmap_setup kn (\<lambda>_ d. d) (addmap_map offset sz ty fl a d) (addmap_dev sz a l d) =
      Ret ((EINVAL, addmap_map offset sz ty fl a d), (addmap_dev sz a l d)\<lparr>dma_mem := drm_free K_MAP l\<rparr>)"
    using ty by (auto simp: addmap_setup_def map_types)
  moreover have "drm_free K_MAP l = dma_mem d"
    using drm_new_Some[OF l] by simp
  ultimately show "\<exists>d'. drm_addmap kn (\<lambda>_ d. d) offset sz ty fl d = Ret ((EINVAL, None), d') \<and>
             handle_ext d' = (a, sz) # handle_ext d \<and> maplist d' = maplist d \<and> dma_mem d' = dma_mem d"
    using drm_addmap_region[where env = "\<lambda>_ d. d" and d = d, OF assms(2,1,1,3) l a] by simp
qed

theorem drm_addmap_failures_witness:
  "\<exists>d'. drm_addmap demo_kern (\<lambda>_ d. d) 0 0x1000 9 0 demo_dev = Ret ((EINVAL, None), d') \<and>
     handle_ext d' = [(0x40000000, 0x1000)] \<and> maplist d' = []"
proof -
  have "drm_new demo_kern K_MAP (dma_mem demo_dev) = Some {#R_mem K_MAP#}"
    by (simp add: drm_new_def demo_kern_def bus_dma.truncate_def)
  moreover have "ext_alloc demo_kern (handle_ext demo_dev) 0x1000 = Inr 0x40000000"
    by (simp add: demo_kern_def demo_ext_def)
  moreover have "\<not> addmap_bad 0 0x1000 9 0" "find_kernel_map 0 9 (maplist demo_dev) = None"
    by (simp_all add: addmap_bad_def PAGE_SIZE_def find_kernel_map_def)
  ultimately show ?thesis
    using drm_addmap_failures[where d = demo_dev and offset = 0 and sz = "0x1000" and ty = 9 and fl = 0 and
      kn = demo_kern and l = "{#R_mem K_MAP#}" and a = "0x40000000"]
    by (simp add: DRM_CONSISTENT_def) blast
qed

end
