(* ===== verification/Drm_Agpsup.thy ===== *)
theory Drm_Agpsup
  imports Drm_Maps
begin

text \<open>
  \<^verbatim>\<open>drm_agpsupport.c\<close>: the AGP memory that DRM clients allocate, bind and free through the AGP
  driver, whose kernel interface (the last part of \<^verbatim>\<open>agp.c\<close>) opens the theory.
\<close>

section \<open>The kernel interface of the AGP driver\<close>

definition agp_enable :: "agp_methods \<Rightarrow> agp_softc \<Rightarrow> u32 \<Rightarrow> errno \<times> agp_softc" where
  "agp_enable m sc agp_mode = enable m sc agp_mode"

definition agp_alloc_memory :: "agp_methods \<Rightarrow> agp_softc \<Rightarrow> u32 \<Rightarrow> u64 \<Rightarrow> int option \<times> agp_softc" where
  "agp_alloc_memory m sc ty bytes = alloc_memory m sc ty bytes"

definition agp_free_memory :: "agp_methods \<Rightarrow> agp_softc \<Rightarrow> int \<Rightarrow> agp_softc outcome" where
  "agp_free_memory m sc handle = obind (free_memory m sc handle) (\<lambda>(_, sc). Ret sc)"

definition agp_bind_memory :: "agp_methods \<Rightarrow> agp_softc \<Rightarrow> int \<Rightarrow> int \<Rightarrow> (errno \<times> agp_softc) outcome" where
  "agp_bind_memory m sc handle offset = bind_memory m sc handle offset"

definition agp_unbind_memory :: "agp_methods \<Rightarrow> agp_softc \<Rightarrow> int \<Rightarrow> (errno \<times> agp_softc) outcome" where
  "agp_unbind_memory m sc handle = unbind_memory m sc handle"

section \<open>Acquiring and releasing\<close>

definition upd_head :: "(drm_agp_head \<Rightarrow> drm_agp_head) \<Rightarrow> 'a bus_dev_scheme \<Rightarrow> 'a bus_dev_scheme" where
  "upd_head f d = d\<lparr>agp := map_option f (agp d)\<rparr>"

text \<open>The head of a device on which an AGP call may be made: it has been acquired.\<close>

definition acquired_head :: "'a bus_dev_scheme \<Rightarrow> drm_agp_head option" where
  "acquired_head d = (case agp d of None \<Rightarrow> None | Some h \<Rightarrow> if ah_acquired h = 0 then None else Some h)"

record drm_agp_info =
  agp_version_major :: int
  agp_version_minor :: int
  agi_mode :: u64
  agi_aperture_base :: u64
  agi_aperture_size :: u64
  agi_memory_allowed :: u64
  agi_memory_used :: u64
  id_vendor :: u16
  id_device :: u16

definition drm_agp_info_get :: "'a bus_dev_scheme \<Rightarrow> (errno \<times> drm_agp_info option) \<times> 'a bus_dev_scheme" where
  "drm_agp_info_get d =
     (case acquired_head d of
        None \<Rightarrow> ((EINVAL, None), d)
      | Some h \<Rightarrow>
          let ker = agp_get_info (agp_dev d) (ah_info h)
          in ((E_OK, Some \<lparr>agp_version_major = 1, agp_version_minor = 0, agi_mode = ucast (ai_mode ker),
                 agi_aperture_base = ai_aperture_base ker, agi_aperture_size = ai_aperture_size ker,
                 agi_memory_allowed = ai_memory_allowed ker, agi_memory_used = ai_memory_used ker,
                 id_vendor = ucast (ai_devid ker AND 0xffff), id_device = ucast (drop_bit 16 (ai_devid ker))\<rparr>),
              upd_head (\<lambda>h. h\<lparr>ah_info := ker\<rparr>) d))"

definition drm_agp_acquire :: "'a bus_dev_scheme \<Rightarrow> errno \<times> 'a bus_dev_scheme" where
  "drm_agp_acquire d =
     (case agp d of
        None \<Rightarrow> (EINVAL, d)
      | Some h \<Rightarrow>
          if ah_acquired h \<noteq> 0 then (EINVAL, d)
          else case agp_acquire (agp_dev d) of
            (e, sc) \<Rightarrow>
              if e \<noteq> E_OK then (e, d\<lparr>agp_dev := sc\<rparr>)
              else (E_OK, upd_head (\<lambda>h. h\<lparr>ah_acquired := 1\<rparr>) (d\<lparr>agp_dev := sc\<rparr>)))"

definition drm_agp_release :: "'a bus_dev_scheme \<Rightarrow> errno \<times> 'a bus_dev_scheme" where
  "drm_agp_release d =
     (case acquired_head d of
        None \<Rightarrow> (EINVAL, d)
      | Some _ \<Rightarrow> (E_OK, upd_head (\<lambda>h. h\<lparr>ah_acquired := 0\<rparr>) (d\<lparr>agp_dev := snd (agp_release (agp_dev d))\<rparr>)))"

text \<open>\<^verbatim>\<open>mode\<close> is an \<^verbatim>\<open>unsigned long\<close> of which \<^verbatim>\<open>agp_enable\<close> takes 32 bits.\<close>

definition drm_agp_enable :: "agp_methods \<Rightarrow> u64 \<Rightarrow> 'a bus_dev_scheme \<Rightarrow> errno \<times> 'a bus_dev_scheme" where
  "drm_agp_enable m agp_mode d =
     (case acquired_head d of
        None \<Rightarrow> (EINVAL, d)
      | Some _ \<Rightarrow>
          (case agp_enable m (agp_dev d) (ucast agp_mode) of
             (e, sc) \<Rightarrow>
               (e, upd_head (\<lambda>h. h\<lparr>ah_mode := agp_mode, ah_enabled := (if e = E_OK then 1 else ah_enabled h)\<rparr>)
                     (d\<lparr>agp_dev := sc\<rparr>))))"

section \<open>Memory\<close>

text \<open>The reply is the handle and the physical address.\<close>

definition drm_agp_alloc ::
  "('z) kern_scheme \<Rightarrow> agp_methods \<Rightarrow> u64 \<Rightarrow> u64 \<Rightarrow> 'a bus_dev_scheme \<Rightarrow>
   ((errno \<times> (int \<times> u64) option) \<times> 'a bus_dev_scheme) outcome" where
  "drm_agp_alloc kn m rsize rtype d =
     (case acquired_head d of
        None \<Rightarrow> Ret ((EINVAL, None), d)
      | Some _ \<Rightarrow>
          (case drm_new kn K_AGPENTRY (dma_mem d) of
             None \<Rightarrow> Ret ((ENOMEM, None), d)
           | Some l \<Rightarrow>
               let pages = (rsize + (of_nat PAGE_SIZE - 1)) div of_nat PAGE_SIZE
               in (case agp_alloc_memory m (agp_dev d) (ucast rtype) (push_bit AGP_PAGE_SHIFT pages) of
                     (None, sc) \<Rightarrow> Ret ((ENOMEM, None), d\<lparr>agp_dev := sc, dma_mem := drm_free K_AGPENTRY l\<rparr>)
                   | (Some handle, sc) \<Rightarrow>
                       (case agp_memory_info sc handle of
                          None \<Rightarrow> Panic
                        | Some info \<Rightarrow>
                            obind (DRM_LOCK (d\<lparr>agp_dev := sc, dma_mem := l\<rparr>)) (\<lambda>d.
                            obind (DRM_UNLOCK (upd_head (\<lambda>h. h\<lparr>ah_memory :=
                                \<lparr>ae_handle = handle, ae_bound = 0, ae_pages = sint (ucast pages :: u32)\<rparr>
                                # ah_memory h\<rparr>) d)) (\<lambda>d.
                            Ret ((E_OK, Some (handle, ami_physical info)), d)))))))"

definition drm_agp_lookup_entry :: "'a bus_dev_scheme \<Rightarrow> int \<Rightarrow> drm_agp_mem option" where
  "drm_agp_lookup_entry d handle =
     (case agp d of None \<Rightarrow> None | Some h \<Rightarrow> find (\<lambda>e. ae_handle e = handle) (ah_memory h))"

text \<open>A write through the pointer to the entry of a handle.\<close>

definition set_bound :: "int \<Rightarrow> u64 \<Rightarrow> 'a bus_dev_scheme \<Rightarrow> 'a bus_dev_scheme" where
  "set_bound handle b =
     upd_head (\<lambda>h. h\<lparr>ah_memory := map (\<lambda>e. if ae_handle e = handle then e\<lparr>ae_bound := b\<rparr> else e) (ah_memory h)\<rparr>)"

definition drm_agp_unbind :: "agp_methods \<Rightarrow> int \<Rightarrow> 'a bus_dev_scheme \<Rightarrow> (errno \<times> 'a bus_dev_scheme) outcome" where
  "drm_agp_unbind m handle d =
     (case acquired_head d of
        None \<Rightarrow> Ret (EINVAL, d)
      | Some h \<Rightarrow>
          obind (DRM_LOCK d) (\<lambda>d.
          case drm_agp_lookup_entry d handle of
            None \<Rightarrow> obind (DRM_UNLOCK d) (\<lambda>d. Ret (EINVAL, d))
          | Some e \<Rightarrow>
              if ae_bound e = 0 \<and> ah_base h \<noteq> 0 then obind (DRM_UNLOCK d) (\<lambda>d. Ret (EINVAL, d))
              else obind (agp_unbind_memory m (agp_dev d) (ae_handle e)) (\<lambda>(r, sc).
                   obind (DRM_UNLOCK (let d = d\<lparr>agp_dev := sc\<rparr> in if r = E_OK then set_bound handle 0 d else d))
                     (\<lambda>d. Ret (r, d)))))"

text \<open>\<^verbatim>\<open>page\<close> is an \<^verbatim>\<open>int\<close>, and so are the products with the page size.\<close>

definition bind_page_no :: "u64 \<Rightarrow> u32" where
  "bind_page_no roffset = ucast ((roffset + (of_nat PAGE_SIZE - 1)) div of_nat PAGE_SIZE)"

definition drm_agp_bind ::
  "agp_methods \<Rightarrow> int \<Rightarrow> u64 \<Rightarrow> 'a bus_dev_scheme \<Rightarrow> (errno \<times> 'a bus_dev_scheme) outcome" where
  "drm_agp_bind m handle roffset d =
     (case acquired_head d of
        None \<Rightarrow> Ret (EINVAL, d)
      | Some h \<Rightarrow>
          obind (DRM_LOCK d) (\<lambda>d.
          case drm_agp_lookup_entry d handle of
            None \<Rightarrow> obind (DRM_UNLOCK d) (\<lambda>d. Ret (EINVAL, d))
          | Some e \<Rightarrow>
              if ae_bound e \<noteq> 0 then obind (DRM_UNLOCK d) (\<lambda>d. Ret (EINVAL, d))
              else let page = bind_page_no roffset in
                   obind (agp_bind_memory m (agp_dev d) (ae_handle e) (sint (page * of_nat PAGE_SIZE))) (\<lambda>(r, sc).
                   obind (DRM_UNLOCK (let d = d\<lparr>agp_dev := sc\<rparr> in
                            if r = E_OK then set_bound handle (ah_base h + scast (push_bit 12 page)) d else d))
                     (\<lambda>d. Ret (r, d)))))"

text \<open>What the AGP driver answers is not looked at.\<close>

definition drm_agp_remove_entry ::
  "agp_methods \<Rightarrow> drm_agp_mem \<Rightarrow> 'a bus_dev_scheme \<Rightarrow> 'a bus_dev_scheme outcome" where
  "drm_agp_remove_entry m e d =
     (let d = upd_head (\<lambda>h. h\<lparr>ah_memory := remove1 e (ah_memory h)\<rparr>) d
      in obind (if ae_bound e \<noteq> 0
                then obind (agp_unbind_memory m (agp_dev d) (ae_handle e)) (\<lambda>(_, sc). Ret (d\<lparr>agp_dev := sc\<rparr>))
                else Ret d) (\<lambda>d.
         obind (agp_free_memory m (agp_dev d) (ae_handle e)) (\<lambda>sc.
         Ret (d\<lparr>agp_dev := sc, dma_mem := drm_free K_AGPENTRY (dma_mem d)\<rparr>))))"

text \<open>\<^verbatim>\<open>while ((entry = TAILQ_FIRST(...)) != NULL)\<close>: each turn takes the first entry off the list.\<close>

fun agp_takedown_loop ::
  "agp_methods \<Rightarrow> drm_agp_mem list \<Rightarrow> 'a bus_dev_scheme \<Rightarrow> 'a bus_dev_scheme outcome" where
  "agp_takedown_loop m [] d = Ret d"
| "agp_takedown_loop m (e # es) d = obind (drm_agp_remove_entry m e d) (agp_takedown_loop m es)"

definition drm_agp_takedown :: "agp_methods \<Rightarrow> 'a bus_dev_scheme \<Rightarrow> 'a bus_dev_scheme outcome" where
  "drm_agp_takedown m d =
     (case agp d of
        None \<Rightarrow> Ret d
      | Some h \<Rightarrow>
          obind (DRM_LOCK d) (\<lambda>d.
          obind (agp_takedown_loop m (ah_memory h) d) (\<lambda>d.
          obind (DRM_UNLOCK d) (\<lambda>d.
          Ret (upd_head (\<lambda>h. h\<lparr>ah_enabled := 0\<rparr>) (snd (drm_agp_release d)))))))"

definition drm_agp_free :: "agp_methods \<Rightarrow> int \<Rightarrow> 'a bus_dev_scheme \<Rightarrow> (errno \<times> 'a bus_dev_scheme) outcome" where
  "drm_agp_free m handle d =
     (case acquired_head d of
        None \<Rightarrow> Ret (EINVAL, d)
      | Some _ \<Rightarrow>
          obind (DRM_LOCK d) (\<lambda>d.
          case drm_agp_lookup_entry d handle of
            None \<Rightarrow> obind (DRM_UNLOCK d) (\<lambda>d. Ret (EINVAL, d))
          | Some e \<Rightarrow> obind (drm_agp_remove_entry m e d) (\<lambda>d. obind (DRM_UNLOCK d) (\<lambda>d. Ret (E_OK, d)))))"

text \<open>\<^verbatim>\<open>drm_agp_init\<close>: \<open>present\<close> tells whether \<^verbatim>\<open>agp_find_device(0)\<close> finds the device.\<close>

definition drm_agp_init :: "('z) kern_scheme \<Rightarrow> bool \<Rightarrow> agp_softc \<Rightarrow> dma_live \<Rightarrow> drm_agp_head option \<times> dma_live" where
  "drm_agp_init kn present sc l =
     (if \<not> present then (None, l)
      else case drm_new kn K_AGPHEAD l of
        None \<Rightarrow> (None, l)
      | Some l' \<Rightarrow>
          let info = agp_get_info sc \<lparr>ai_mode = 0, ai_aperture_base = 0, ai_aperture_size = 0,
                       ai_memory_allowed = 0, ai_memory_used = 0, ai_devid = 0\<rparr>
          in (Some \<lparr>ah_memory = [], ah_info = info, ah_base = ai_aperture_base info, ah_mode = 0,
                ah_acquired = 0, ah_enabled = 0, ah_mtrr = 0\<rparr>, l'))"

end
