(* ===== verification/Agpsup_Inv.thy ===== *)
theory Agpsup_Inv
  imports Drm_Agpsup Maps_Ops Agp_Props
begin

text \<open>
  The AGP driver as the DRM relies on it: a locale whose laws say what each call does to the
  blocks and their bindings, the DRM's proofs inside it, and its interpretation on the generic
  operations over all six chipset drivers.
\<close>

section \<open>The contract\<close>

text \<open>\<open>view\<close> gives, for each block, the offset it is bound at, if it is bound.\<close>

type_synonym agp_view = "int \<rightharpoonup> int option"

locale agp_backend =
  fixes m :: agp_methods
    and ok :: "agp_softc \<Rightarrow> bool"
    and view :: "agp_softc \<Rightarrow> agp_view"
  assumes alloc: "ok sc \<Longrightarrow> alloc_memory m sc ty sz = (Some i, sc') \<Longrightarrow>
      ok sc' \<and> view sc i = None \<and> view sc' = (view sc)(i \<mapsto> None) \<and>
      agp_memory_info sc' i \<noteq> None \<and> as_state sc' = as_state sc"
    and alloc_fail: "ok sc \<Longrightarrow> alloc_memory m sc ty sz = (None, sc') \<Longrightarrow>
      ok sc' \<and> view sc' = view sc \<and> as_state sc' = as_state sc"
    and free: "ok sc \<Longrightarrow> view sc i = Some None \<Longrightarrow>
      \<exists>sc'. free_memory m sc i = Ret (E_OK, sc') \<and> ok sc' \<and> view sc' = (view sc)(i := None) \<and>
        as_state sc' = as_state sc"
    and bind: "ok sc \<Longrightarrow> view sc i = Some None \<Longrightarrow>
      \<exists>e sc'. bind_memory m sc i off = Ret (e, sc') \<and> ok sc' \<and> as_state sc' = as_state sc \<and>
        view sc' = (if e = E_OK then (view sc)(i \<mapsto> Some off) else view sc) \<and> (e = E_OK \<longrightarrow> 0 \<le> off)"
    and unbind: "ok sc \<Longrightarrow> view sc i = Some (Some off) \<Longrightarrow>
      \<exists>sc'. unbind_memory m sc i = Ret (E_OK, sc') \<and> ok sc' \<and> view sc' = (view sc)(i \<mapsto> None) \<and>
        as_state sc' = as_state sc"
    and unbind_free: "ok sc \<Longrightarrow> view sc i = Some None \<Longrightarrow> unbind_memory m sc i = Ret (EINVAL, sc)"
    and enable: "ok sc \<Longrightarrow> enable m sc agp_mode = (e, sc') \<Longrightarrow>
      ok sc' \<and> view sc' = view sc \<and> as_state sc' = as_state sc"
    and owner: "ok sc \<Longrightarrow> ok (sc\<lparr>as_state := st\<rparr>)" "view (sc\<lparr>as_state := st\<rparr>) = view sc"

section \<open>The DRM's entries mirror the blocks\<close>

text \<open>What an entry records of a binding.\<close>

definition bound_addr :: "u64 \<Rightarrow> int option \<Rightarrow> u64" where
  "bound_addr base v = (case v of None \<Rightarrow> 0 | Some off \<Rightarrow> base + word_of_int off)"

definition entry_view :: "drm_agp_mem list \<Rightarrow> int \<rightharpoonup> u64" where
  "entry_view es = map_of (map (\<lambda>e. (ae_handle e, ae_bound e)) es)"

text \<open>The aperture begins above 0 and a 31-bit offset does not leave the address space.\<close>

definition base_ok :: "u64 \<Rightarrow> bool" where
  "base_ok base \<longleftrightarrow> base \<noteq> 0 \<and> unat base + 2 ^ 31 < 2 ^ 64"

definition mirrors :: "drm_agp_head \<Rightarrow> agp_view \<Rightarrow> bool" where
  "mirrors h v \<longleftrightarrow>
     distinct (map ae_handle (ah_memory h)) \<and>
     entry_view (ah_memory h) = (\<lambda>i. map_option (bound_addr (ah_base h)) (v i)) \<and>
     (\<forall>i off. v i = Some (Some off) \<longrightarrow> 0 \<le> off \<and> off < 2 ^ 31)"

lemma bound_addr_zero: "base_ok base \<Longrightarrow> 0 \<le> off \<Longrightarrow> off < 2 ^ 31 \<Longrightarrow> bound_addr base (Some off) \<noteq> 0"
proof
  assume base: "base_ok base" and off: "0 \<le> off" "off < 2 ^ 31" and zero: "bound_addr base (Some off) = 0"
  have u: "unat (word_of_int off :: u64) = nat off"
    using off by (simp add: unat_eq_nat_uint uint_word_of_int)
  have "nat off < 2 ^ 31"
    using off by simp
  then have "unat (base + word_of_int off) = unat base + nat off"
    using base u by (subst unat_plus_if_size) (simp add: base_ok_def word_size)
  then have "unat base = 0"
    using zero by (simp add: bound_addr_def)
  then show False
    using base by (simp add: base_ok_def unat_eq_0)
qed

lemma entry_view_Some:
  "distinct (map ae_handle es) \<Longrightarrow> entry_view es i = Some b \<longleftrightarrow> (\<exists>e\<in>set es. ae_handle e = i \<and> ae_bound e = b)"
  by (induction es) (auto simp: entry_view_def image_iff)

lemma entry_view_dom: "entry_view es i = None \<longleftrightarrow> i \<notin> ae_handle ` set es"
  by (induction es) (auto simp: entry_view_def)

lemma mirrors_entry:
  assumes "mirrors h v" and e: "e \<in> set (ah_memory h)"
  shows "\<exists>b. v (ae_handle e) = Some b \<and> ae_bound e = bound_addr (ah_base h) b"
proof -
  have dis: "distinct (map ae_handle (ah_memory h))"
    and ev: "entry_view (ah_memory h) (ae_handle e) = map_option (bound_addr (ah_base h)) (v (ae_handle e))"
    using assms(1) by (simp_all add: mirrors_def)
  have "entry_view (ah_memory h) (ae_handle e) = Some (ae_bound e)"
    using entry_view_Some[OF dis] e by blast
  then show ?thesis
    using ev by auto
qed

lemma mirrors_find:
  assumes "mirrors h v" and "find (\<lambda>e. ae_handle e = i) (ah_memory h) = Some e"
  shows "\<exists>b. v i = Some b \<and> ae_bound e = bound_addr (ah_base h) b \<and> ae_handle e = i \<and> e \<in> set (ah_memory h)"
proof -
  have "e \<in> set (ah_memory h)" "ae_handle e = i"
    using assms(2) by (auto simp: find_Some_iff)
  then show ?thesis
    using mirrors_entry[OF assms(1)] by blast
qed

lemma mirrors_bound:
  "mirrors h v \<Longrightarrow> base_ok (ah_base h) \<Longrightarrow> v i = Some b \<Longrightarrow> bound_addr (ah_base h) b = 0 \<longleftrightarrow> b = None"
  by (cases b) (auto simp: mirrors_def bound_addr_zero, simp add: bound_addr_def)

lemma entry_view_set:
  "entry_view (map (\<lambda>e. if ae_handle e = i then e\<lparr>ae_bound := b\<rparr> else e) es) =
   (if i \<in> ae_handle ` set es then (entry_view es)(i \<mapsto> b) else entry_view es)"
  by (induction es) (auto simp: entry_view_def fun_eq_iff)

lemma map_handle_set [simp]:
  "map ae_handle (map (\<lambda>e. if ae_handle e = i then e\<lparr>ae_bound := b\<rparr> else e) es) = map ae_handle es"
  by (induction es) auto

lemma mirrors_set:
  assumes "mirrors h v" and "v i \<noteq> None" and "\<forall>off. b = Some off \<longrightarrow> 0 \<le> off \<and> off < 2 ^ 31"
    and "addr = bound_addr (ah_base h) b"
  shows "mirrors (h\<lparr>ah_memory := map (\<lambda>e. if ae_handle e = i then e\<lparr>ae_bound := addr\<rparr> else e)
           (ah_memory h)\<rparr>) (v(i \<mapsto> b))"
proof -
  have "entry_view (ah_memory h) i \<noteq> None"
    using assms(1,2) by (auto simp: mirrors_def)
  then have "i \<in> ae_handle ` set (ah_memory h)"
    by (simp add: entry_view_dom)
  then show ?thesis
    using assms(1,3,4) by (auto simp: mirrors_def entry_view_set fun_eq_iff simp del: map_map)
qed

lemma mirrors_insert:
  assumes "mirrors h v" and "v i = None"
  shows "mirrors (h\<lparr>ah_memory := \<lparr>ae_handle = i, ae_bound = 0, ae_pages = n\<rparr> # ah_memory h\<rparr>) (v(i \<mapsto> None))"
proof -
  have "i \<notin> ae_handle ` set (ah_memory h)"
    using assms by (metis entry_view_dom mirrors_def option.map_disc_iff)
  moreover have "entry_view (\<lparr>ae_handle = i, ae_bound = 0, ae_pages = n\<rparr> # es) = (entry_view es)(i \<mapsto> 0)" for es
    by (simp add: entry_view_def)
  ultimately show ?thesis
    using assms by (auto simp: mirrors_def fun_eq_iff bound_addr_def)
qed

lemma remove1_handle:
  "distinct (map ae_handle es) \<Longrightarrow> e \<in> set es \<Longrightarrow>
   entry_view (remove1 e es) = (entry_view es)(ae_handle e := None) \<and> distinct (map ae_handle (remove1 e es))"
proof (induction es)
  case (Cons x es)
  show ?case
  proof (cases "x = e")
    case True
    then have "ae_handle e \<notin> ae_handle ` set es" using Cons.prems by auto
    then show ?thesis
      using True Cons.prems by (auto simp: entry_view_def fun_eq_iff map_of_eq_None_iff)
  next
    case False
    then have e: "e \<in> set es" "ae_handle x \<noteq> ae_handle e" using Cons.prems by auto
    then show ?thesis
      using False Cons set_remove1_subset[of e es] by (auto simp: entry_view_def fun_eq_iff image_iff)
  qed
qed simp

lemma mirrors_remove:
  assumes "mirrors h v" and "e \<in> set (ah_memory h)"
  shows "mirrors (h\<lparr>ah_memory := remove1 e (ah_memory h)\<rparr>) (v(ae_handle e := None))"
  using assms remove1_handle[of "ah_memory h" e] by (auto simp: mirrors_def fun_eq_iff split: if_splits)

section \<open>The client's proofs\<close>

definition head_ok :: "(agp_softc \<Rightarrow> bool) \<Rightarrow> (agp_softc \<Rightarrow> agp_view) \<Rightarrow> 'a bus_dev_scheme \<Rightarrow> bool" where
  "head_ok ok view d \<longleftrightarrow>
     (\<exists>h. agp d = Some h \<and> ok (agp_dev d) \<and> base_ok (ah_base h) \<and> mirrors h (view (agp_dev d)) \<and>
        (ah_acquired h \<noteq> 0 \<longrightarrow> as_state (agp_dev d) = AGP_ACQUIRE_KERNEL)) \<and> \<not> dev_lock d"

lemma upd_head_sel [simp]:
  "agp (upd_head f d) = map_option f (agp d)" "agp_dev (upd_head f d) = agp_dev d"
  "dev_lock (upd_head f d) = dev_lock d" "dma_mem (upd_head f d) = dma_mem d"
  by (simp_all add: upd_head_def)

context agp_backend
begin

lemma remove_entry_ok:
  assumes h: "agp d = Some h" and ok: "ok (agp_dev d)" and base: "base_ok (ah_base h)"
    and mir: "mirrors h (view (agp_dev d))" and e: "e \<in> set (ah_memory h)"
  obtains d' sc where "drm_agp_remove_entry m e d = Ret d'"
    "d' = (upd_head (\<lambda>h. h\<lparr>ah_memory := remove1 e (ah_memory h)\<rparr>) d)
            \<lparr>agp_dev := sc, dma_mem := drm_free K_AGPENTRY (dma_mem d)\<rparr>"
    "ok sc" "view sc = (view (agp_dev d))(ae_handle e := None)" "as_state sc = as_state (agp_dev d)"
proof -
  obtain b where b: "view (agp_dev d) (ae_handle e) = Some b" and addr: "ae_bound e = bound_addr (ah_base h) b"
    using mirrors_entry[OF mir e] by blast
  have zero: "ae_bound e = 0 \<longleftrightarrow> b = None"
    using mirrors_bound[OF mir base b] addr by simp
  show ?thesis
  proof (cases b)
    case None
    obtain sc where sc: "free_memory m (agp_dev d) (ae_handle e) = Ret (E_OK, sc)" "ok sc"
      "view sc = (view (agp_dev d))(ae_handle e := None)" "as_state sc = as_state (agp_dev d)"
      using free[OF ok] b None by blast
    then show ?thesis
      using that[of _ sc] zero None by (simp add: drm_agp_remove_entry_def Let_def agp_free_memory_def)
  next
    case (Some off)
    obtain s1 where s1: "unbind_memory m (agp_dev d) (ae_handle e) = Ret (E_OK, s1)" "ok s1"
      "view s1 = (view (agp_dev d))(ae_handle e \<mapsto> None)" "as_state s1 = as_state (agp_dev d)"
      using unbind[OF ok] b Some by blast
    obtain sc where sc: "free_memory m s1 (ae_handle e) = Ret (E_OK, sc)" "ok sc"
      "view sc = (view s1)(ae_handle e := None)" "as_state sc = as_state s1"
      using free[OF s1(2), of "ae_handle e"] s1(3) by auto
    then show ?thesis
      using that[of _ sc] zero Some s1
      by (simp add: drm_agp_remove_entry_def Let_def agp_free_memory_def agp_unbind_memory_def)
  qed
qed

lemma takedown_loop_ok:
  assumes "agp d = Some h" "ok (agp_dev d)" "base_ok (ah_base h)" "mirrors h (view (agp_dev d))"
  shows "\<exists>d'. agp_takedown_loop m (ah_memory h) d = Ret d' \<and> agp d' = Some (h\<lparr>ah_memory := []\<rparr>) \<and>
    ok (agp_dev d') \<and> view (agp_dev d') = Map.empty \<and> as_state (agp_dev d') = as_state (agp_dev d) \<and>
    dev_lock d' = dev_lock d \<and>
    dma_mem d' = dma_mem d - image_mset (\<lambda>_. R_mem K_AGPENTRY) (mset (ah_memory h))"
  using assms
proof (induction "ah_memory h" arbitrary: d h)
  case Nil
  have h: "h\<lparr>ah_memory := []\<rparr> = h"
    using Nil.hyps by (cases h) simp
  have "entry_view (ah_memory h) i = None" for i
    by (simp add: entry_view_def flip: Nil.hyps)
  then have "map_option (bound_addr (ah_base h)) (view (agp_dev d) i) = None" for i
    using Nil.prems(4) unfolding mirrors_def by metis
  then have "view (agp_dev d) = Map.empty"
    by (simp add: fun_eq_iff)
  moreover have "agp_takedown_loop m (ah_memory h) d = Ret d" "mset (ah_memory h) = {#}"
    by (simp_all flip: Nil.hyps)
  ultimately show ?case
    using Nil.prems h by simp
next
  case (Cons e es)
  have e: "e \<in> set (ah_memory h)"
    by (simp flip: Cons.hyps(2))
  have tl: "remove1 e (ah_memory h) = es"
    by (simp flip: Cons.hyps(2))
  obtain d1 sc where d1: "drm_agp_remove_entry m e d = Ret d1"
    "d1 = (upd_head (\<lambda>h. h\<lparr>ah_memory := remove1 e (ah_memory h)\<rparr>) d)
            \<lparr>agp_dev := sc, dma_mem := drm_free K_AGPENTRY (dma_mem d)\<rparr>"
    "ok sc" "view sc = (view (agp_dev d))(ae_handle e := None)" "as_state sc = as_state (agp_dev d)"
    by (rule remove_entry_ok[OF Cons.prems e])
  let ?h = "h\<lparr>ah_memory := es\<rparr>"
  have "mirrors ?h (view (agp_dev d1))"
    using mirrors_remove[OF Cons.prems(4) e] d1 tl by simp
  then obtain d' where "agp_takedown_loop m es d1 = Ret d'" "agp d' = Some (h\<lparr>ah_memory := []\<rparr>)"
    "ok (agp_dev d')" "view (agp_dev d') = Map.empty" "as_state (agp_dev d') = as_state (agp_dev d1)"
    "dev_lock d' = dev_lock d1"
    "dma_mem d' = dma_mem d1 - image_mset (\<lambda>_. R_mem K_AGPENTRY) (mset es)"
    using Cons.hyps(1)[of ?h d1] Cons.prems d1 tl by auto
  then show ?case
    using d1 by (simp add: drm_free_def flip: Cons.hyps(2))
qed

lemma head_okE:
  assumes "head_ok ok view d"
  obtains h where "agp d = Some h" "ok (agp_dev d)" "base_ok (ah_base h)" "mirrors h (view (agp_dev d))"
    "ah_acquired h \<noteq> 0 \<longrightarrow> as_state (agp_dev d) = AGP_ACQUIRE_KERNEL" "\<not> dev_lock d"
  using assms by (auto simp: head_ok_def)

lemma acquire_ok: "head_ok ok view d \<Longrightarrow> head_ok ok view (snd (drm_agp_acquire d))"
  using owner by (auto simp: head_ok_def drm_agp_acquire_def agp_acquire_def agp_acquire_helper_def mirrors_def
      split: if_splits)

lemma release_ok: "head_ok ok view d \<Longrightarrow> head_ok ok view (snd (drm_agp_release d))"
  using owner
  by (auto simp: head_ok_def drm_agp_release_def acquired_head_def agp_release_def agp_release_helper_def mirrors_def
      split: if_splits)

lemma info_ok: "head_ok ok view d \<Longrightarrow> head_ok ok view (snd (drm_agp_info_get d))"
  by (auto simp: head_ok_def drm_agp_info_get_def acquired_head_def Let_def mirrors_def split: if_splits)

lemma enable_ok:
  assumes "head_ok ok view d"
  shows "head_ok ok view (snd (drm_agp_enable m agp_mode d))"
proof (rule head_okE[OF assms])
  fix h assume h: "agp d = Some h" "ok (agp_dev d)" "base_ok (ah_base h)" "mirrors h (view (agp_dev d))"
    "ah_acquired h \<noteq> 0 \<longrightarrow> as_state (agp_dev d) = AGP_ACQUIRE_KERNEL" "\<not> dev_lock d"
  obtain e sc where en: "enable m (agp_dev d) (ucast agp_mode) = (e, sc)" by fastforce
  show ?thesis
    using h en enable[OF h(2) en]
    by (auto simp: drm_agp_enable_def acquired_head_def agp_enable_def head_ok_def mirrors_def)
qed

lemma alloc_ok:
  assumes "head_ok ok view d"
  shows "\<exists>r d'. drm_agp_alloc kn m rsize rtype d = Ret (r, d') \<and> head_ok ok view d'"
proof (rule head_okE[OF assms])
  fix h assume h: "agp d = Some h" "ok (agp_dev d)" "base_ok (ah_base h)" "mirrors h (view (agp_dev d))"
    "ah_acquired h \<noteq> 0 \<longrightarrow> as_state (agp_dev d) = AGP_ACQUIRE_KERNEL" "\<not> dev_lock d"
  let ?pages = "(rsize + (of_nat PAGE_SIZE - 1)) div of_nat PAGE_SIZE"
  obtain io sc where al: "alloc_memory m (agp_dev d) (ucast rtype) (push_bit AGP_PAGE_SHIFT ?pages) = (io, sc)"
    by fastforce
  show ?thesis
  proof (cases "ah_acquired h = 0 \<or> drm_new kn K_AGPENTRY (dma_mem d) = None")
    case True
    then show ?thesis using h assms by (auto simp: drm_agp_alloc_def acquired_head_def)
  next
    case False
    then obtain l where l: "drm_new kn K_AGPENTRY (dma_mem d) = Some l" and acq: "ah_acquired h \<noteq> 0" by auto
    show ?thesis
    proof (cases io)
      case None
      then show ?thesis
        using h l acq al alloc_fail[OF h(2), of "ucast rtype" _ sc]
        by (auto simp: drm_agp_alloc_def acquired_head_def agp_alloc_memory_def Let_def head_ok_def mirrors_def)
    next
      case (Some i)
      then have a: "ok sc" "view (agp_dev d) i = None" "view sc = (view (agp_dev d))(i \<mapsto> None)"
        "agp_memory_info sc i \<noteq> None" "as_state sc = as_state (agp_dev d)"
        using alloc[OF h(2)] al by blast+
      have "mirrors (h\<lparr>ah_memory := \<lparr>ae_handle = i, ae_bound = 0, ae_pages = sint (ucast ?pages :: u32)\<rparr> # ah_memory h\<rparr>) (view sc)"
        using mirrors_insert[OF h(4) a(2)] a(3) by simp
      then show ?thesis
        using h l acq al Some a
        by (auto simp: drm_agp_alloc_def acquired_head_def agp_alloc_memory_def Let_def head_ok_def)
    qed
  qed
qed

text \<open>The search for the entry of a handle.\<close>

lemma lookup_cases:
  assumes "agp d = Some h" "mirrors h (view (agp_dev d))"
  obtains "drm_agp_lookup_entry d i = None"
  | e b where "drm_agp_lookup_entry d i = Some e" "view (agp_dev d) i = Some b" "ae_handle e = i"
      "ae_bound e = bound_addr (ah_base h) b" "e \<in> set (ah_memory h)"
proof (cases "drm_agp_lookup_entry d i")
  case (Some e)
  then show ?thesis
    using mirrors_find[OF assms(2), of i e] assms(1) that(2)
    by (auto simp: drm_agp_lookup_entry_def)
qed (use that in auto)

lemma lookup_lock [simp]: "drm_agp_lookup_entry (d\<lparr>dev_lock := b\<rparr>) i = drm_agp_lookup_entry d i"
  by (simp add: drm_agp_lookup_entry_def)

lemma head_ok_unlocked: "head_ok ok view d \<Longrightarrow> head_ok ok view (d\<lparr>dev_lock := False\<rparr>)"
  by (simp add: head_ok_def)

lemma free_ok:
  assumes "head_ok ok view d"
  shows "\<exists>r d'. drm_agp_free m i d = Ret (r, d') \<and> head_ok ok view d'"
proof (rule head_okE[OF assms])
  fix h assume h: "agp d = Some h" "ok (agp_dev d)" "base_ok (ah_base h)" "mirrors h (view (agp_dev d))"
    "ah_acquired h \<noteq> 0 \<longrightarrow> as_state (agp_dev d) = AGP_ACQUIRE_KERNEL" "\<not> dev_lock d"
  let ?d = "d\<lparr>dev_lock := True\<rparr>"
  show ?thesis
  proof (cases "ah_acquired h = 0")
    case True
    then show ?thesis using h assms by (auto simp: drm_agp_free_def acquired_head_def)
  next
    case acq: False
    show ?thesis
    proof (rule lookup_cases[OF h(1,4), of i])
      assume "drm_agp_lookup_entry d i = None"
      then show ?thesis using acq h assms by (auto simp: drm_agp_free_def acquired_head_def)
    next
      fix e b assume e: "drm_agp_lookup_entry d i = Some e" "e \<in> set (ah_memory h)"
      have pre: "agp ?d = Some h" "ok (agp_dev ?d)" "mirrors h (view (agp_dev ?d))" using h by simp_all
      obtain d' sc where r: "drm_agp_remove_entry m e ?d = Ret d'"
        "d' = (upd_head (\<lambda>h. h\<lparr>ah_memory := remove1 e (ah_memory h)\<rparr>) ?d)
              \<lparr>agp_dev := sc, dma_mem := drm_free K_AGPENTRY (dma_mem ?d)\<rparr>"
        "ok sc" "view sc = (view (agp_dev ?d))(ae_handle e := None)" "as_state sc = as_state (agp_dev ?d)"
        by (rule remove_entry_ok[OF pre(1,2) h(3) pre(3) e(2)])
      then show ?thesis
        using acq h e mirrors_remove[OF h(4) e(2)]
        by (auto simp: drm_agp_free_def acquired_head_def head_ok_def)
    qed
  qed
qed

lemma unbind_ok:
  assumes "head_ok ok view d"
  shows "\<exists>r d'. drm_agp_unbind m i d = Ret (r, d') \<and> head_ok ok view d'"
proof (rule head_okE[OF assms])
  fix h assume h: "agp d = Some h" "ok (agp_dev d)" "base_ok (ah_base h)" "mirrors h (view (agp_dev d))"
    "ah_acquired h \<noteq> 0 \<longrightarrow> as_state (agp_dev d) = AGP_ACQUIRE_KERNEL" "\<not> dev_lock d"
  show ?thesis
  proof (cases "ah_acquired h = 0")
    case True
    then show ?thesis using h assms by (auto simp: drm_agp_unbind_def acquired_head_def)
  next
    case acq: False
    show ?thesis
    proof (rule lookup_cases[OF h(1,4), of i])
      assume "drm_agp_lookup_entry d i = None"
      then show ?thesis using acq h assms by (auto simp: drm_agp_unbind_def acquired_head_def)
    next
      fix e b assume e: "drm_agp_lookup_entry d i = Some e" "view (agp_dev d) i = Some b" "ae_handle e = i"
        "ae_bound e = bound_addr (ah_base h) b"
      have base: "ah_base h \<noteq> 0" using h(3) by (simp add: base_ok_def)
      have zero: "ae_bound e = 0 \<longleftrightarrow> b = None"
        using mirrors_bound[OF h(4,3) e(2)] e(4) by simp
      show ?thesis
      proof (cases b)
        case None
        then show ?thesis
          using acq h e base zero assms by (auto simp: drm_agp_unbind_def acquired_head_def)
      next
        case (Some off)
        obtain sc where sc: "unbind_memory m (agp_dev d) i = Ret (E_OK, sc)" "ok sc"
          "view sc = (view (agp_dev d))(i \<mapsto> None)" "as_state sc = as_state (agp_dev d)"
          using unbind[OF h(2)] e(2) Some by blast
        have "mirrors (h\<lparr>ah_memory := map (\<lambda>e. if ae_handle e = i then e\<lparr>ae_bound := 0\<rparr> else e) (ah_memory h)\<rparr>) (view sc)"
          using mirrors_set[OF h(4), of i None 0] e(2) sc(3) by (simp add: bound_addr_def)
        then show ?thesis
          using acq h e base zero Some sc
          by (auto simp: drm_agp_unbind_def acquired_head_def agp_unbind_memory_def set_bound_def head_ok_def)
      qed
    qed
  qed
qed

lemma page_addr: "scast (push_bit 12 page :: u32) = (word_of_int (sint (page * of_nat PAGE_SIZE)) :: u64)"
proof -
  have "push_bit 12 page = page * of_nat PAGE_SIZE"
    by (simp add: push_bit_eq_mult PAGE_SIZE_def)
  then show ?thesis by (simp only: scast_eq)
qed

lemma page_addr_lim: "sint (page * of_nat PAGE_SIZE :: u32) < 2 ^ 31"
  using sint_lt[of "page * of_nat PAGE_SIZE :: u32"] by simp

lemma bind_ok:
  assumes "head_ok ok view d"
  shows "\<exists>r d'. drm_agp_bind m i roffset d = Ret (r, d') \<and> head_ok ok view d'"
proof (rule head_okE[OF assms])
  fix h assume h: "agp d = Some h" "ok (agp_dev d)" "base_ok (ah_base h)" "mirrors h (view (agp_dev d))"
    "ah_acquired h \<noteq> 0 \<longrightarrow> as_state (agp_dev d) = AGP_ACQUIRE_KERNEL" "\<not> dev_lock d"
  show ?thesis
  proof (cases "ah_acquired h = 0")
    case True
    then show ?thesis using h assms by (auto simp: drm_agp_bind_def acquired_head_def)
  next
    case acq: False
    show ?thesis
    proof (rule lookup_cases[OF h(1,4), of i])
      assume "drm_agp_lookup_entry d i = None"
      then show ?thesis using acq h assms by (auto simp: drm_agp_bind_def acquired_head_def)
    next
      fix e b assume e: "drm_agp_lookup_entry d i = Some e" "view (agp_dev d) i = Some b" "ae_handle e = i"
        "ae_bound e = bound_addr (ah_base h) b"
      have zero: "ae_bound e = 0 \<longleftrightarrow> b = None"
        using mirrors_bound[OF h(4,3) e(2)] e(4) by simp
      show ?thesis
      proof (cases b)
        case (Some off)
        then show ?thesis
          using acq h e zero assms by (auto simp: drm_agp_bind_def acquired_head_def)
      next
        case None
        let ?off = "sint (bind_page_no roffset * of_nat PAGE_SIZE)"
        obtain r sc where sc: "bind_memory m (agp_dev d) i ?off = Ret (r, sc)" "ok sc" "as_state sc = as_state (agp_dev d)"
          "view sc = (if r = E_OK then (view (agp_dev d))(i \<mapsto> Some ?off) else view (agp_dev d))"
          "r = E_OK \<longrightarrow> 0 \<le> ?off"
          using bind[OF h(2)] e(2) None by blast
        let ?b = "ah_base h + scast (push_bit 12 (bind_page_no roffset))"
        have "mirrors (h\<lparr>ah_memory := map (\<lambda>e. if ae_handle e = i then e\<lparr>ae_bound := ?b\<rparr> else e) (ah_memory h)\<rparr>) (view sc)"
          if "r = E_OK"
          using mirrors_set[OF h(4), of i "Some ?off" ?b] e(2) sc(4,5) that page_addr_lim
          by (simp add: bound_addr_def page_addr)
        then show ?thesis
          using acq h e zero None sc
          by (cases "r = E_OK")
            (auto simp: drm_agp_bind_def acquired_head_def agp_bind_memory_def set_bound_def head_ok_def Let_def mirrors_def)
      qed
    qed
  qed
qed

text \<open>What is left after \<^verbatim>\<open>drm_agp_takedown\<close>: no block, no entry, and the chipset released.\<close>

lemma takedown_frees:
  assumes "head_ok ok view d"
  shows "\<exists>d' h h'. drm_agp_takedown m d = Ret d' \<and> agp d = Some h \<and> agp d' = Some h' \<and>
    ah_memory h' = [] \<and> ah_enabled h' = 0 \<and> ah_acquired h' = 0 \<and> ok (agp_dev d') \<and>
    view (agp_dev d') = Map.empty \<and> (ah_acquired h \<noteq> 0 \<longrightarrow> as_state (agp_dev d') = AGP_ACQUIRE_FREE) \<and>
    \<not> dev_lock d' \<and> dma_mem d' = dma_mem d - image_mset (\<lambda>_. R_mem K_AGPENTRY) (mset (ah_memory h))"
proof -
  obtain h where h: "agp d = Some h" "ok (agp_dev d)" "base_ok (ah_base h)" "mirrors h (view (agp_dev d))"
    "ah_acquired h \<noteq> 0 \<longrightarrow> as_state (agp_dev d) = AGP_ACQUIRE_KERNEL" and unl: "\<not> dev_lock d"
    using assms by (auto simp: head_ok_def)
  let ?d = "d\<lparr>dev_lock := True\<rparr>"
  obtain d1 where d1: "agp_takedown_loop m (ah_memory h) ?d = Ret d1" "agp d1 = Some (h\<lparr>ah_memory := []\<rparr>)"
    "ok (agp_dev d1)" "view (agp_dev d1) = Map.empty" "as_state (agp_dev d1) = as_state (agp_dev d)"
    "dev_lock d1" "dma_mem d1 = dma_mem d - image_mset (\<lambda>_. R_mem K_AGPENTRY) (mset (ah_memory h))"
    using takedown_loop_ok[of ?d h] h by auto
  show ?thesis
  proof (cases "ah_acquired h = 0")
    case True
    then show ?thesis
      using h unl d1 by (simp add: drm_agp_takedown_def drm_agp_release_def acquired_head_def)
  next
    case False
    then have "agp_release (agp_dev d1) = (E_OK, (agp_dev d1)\<lparr>as_state := AGP_ACQUIRE_FREE\<rparr>)"
      using h d1 by (simp add: agp_release_def agp_release_helper_def)
    then show ?thesis
      using False h unl d1 owner by (simp add: drm_agp_takedown_def drm_agp_release_def acquired_head_def)
  qed
qed

end

end
