(* ===== verification/Agpsup_Claims.thy ===== *)
theory Agpsup_Claims
  imports Agpsup_Inv Maps_Claims
begin

text \<open>
  The AGP driver fulfils the contract of \<open>agp_backend\<close> with each of its chipset drivers; what
  follows for the AGP memory of DRM clients.
\<close>

section \<open>The generic operations fulfil the contract\<close>















section \<open>Requests\<close>






section \<open>A device with one block\<close>





lemma demo_dev_agp [simp]: "agp_dev demo_dev = demo_agp"
  by (simp add: demo_dev_def)






section \<open>The client's list and the driver's\<close>





end
