(* ===== verification/Drm_Bufs.thy ===== *)
theory Drm_Bufs
  imports Drm_Maps
begin

text \<open>
  The DMA buffers of \<^verbatim>\<open>drm_bufs.c\<close>: their sizes, the three ways of adding them, freeing, mapping
  and reclaiming them, and their takedown.
\<close>

section \<open>Orders\<close>

definition DRM_MIN_ORDER :: nat where "DRM_MIN_ORDER = 5"
definition DRM_MAX_ORDER :: nat where "DRM_MAX_ORDER = 22"
definition PAGE_SHIFT :: nat where "PAGE_SHIFT = 12"

lemma drop_one_less: "drop_bit 1 (w :: u64) \<noteq> 0 \<Longrightarrow> unat (drop_bit 1 w) < unat w"
proof -
  assume "drop_bit 1 w \<noteq> 0"
  then have "0 < unat w"
    by (metis drop_bit_of_0 unat_gt_0)
  then have "drop_bit 1 (unat w) < unat w"
    unfolding drop_bit_eq_div by simp
  then show ?thesis
    by (simp only: unat_drop_bit_eq)
qed

text \<open>\<^verbatim>\<open>for (order = 0, tmp = size; tmp >>= 1; ++order)\<close>\<close>

function order_loop :: "u64 \<Rightarrow> nat \<Rightarrow> nat" where
  "order_loop tmp order =
     (let tmp = drop_bit 1 tmp in if tmp = 0 then order else order_loop tmp (order + 1))"
  by pat_completeness auto

termination
  by (relation "measure (\<lambda>(tmp, _). unat tmp)") (simp_all add: drop_one_less del: One_nat_def)

declare order_loop.simps [simp del]

text \<open>
  \<^verbatim>\<open>1 << order\<close> is an \<^verbatim>\<open>int\<close>; the processor takes the count modulo 32, which is what happens to the
  sizes above $2^{31}$ for which C leaves it undefined.
\<close>

definition drm_order :: "u64 \<Rightarrow> nat" where
  "drm_order sz =
     (let order = order_loop sz 0
      in if sz AND scast (NOT (push_bit (order mod 32) (1 :: u32))) \<noteq> 0 then order + 1 else order)"

section \<open>Structures and requests\<close>

definition DRM_PAGE_ALIGN :: u32 where "DRM_PAGE_ALIGN = 0x01"
definition DRM_AGP_BUFFER :: u32 where "DRM_AGP_BUFFER = 0x02"
definition DRM_SG_BUFFER :: u32 where "DRM_SG_BUFFER = 0x04"
definition DRM_DMA_USE_AGP :: u32 where "DRM_DMA_USE_AGP = 0x01"
definition DRM_DMA_USE_SG :: u32 where "DRM_DMA_USE_SG = 0x02"

record drm_buf_desc =
  rq_count :: int
  rq_bsize :: int
  low_mark :: int
  high_mark :: int
  rq_bflags :: u32
  rq_agp_start :: u64

text \<open>What \<^verbatim>\<open>M_ZERO\<close> leaves in the structures.\<close>

definition zero_buf :: drm_buf where
  "zero_buf = \<lparr>b_idx = 0, b_total = 0, b_used = 0, b_offset = 0, b_address = 0, b_bus_address = 0,
     b_pending = 0, b_file_priv = None, b_dev_private = False\<rparr>"

definition zero_entry :: drm_buf_entry where
  "zero_entry = \<lparr>be_seglist = [], be_buflist = [], be_buf_count = 0, be_buf_size = 0, be_page_order = 0,
     be_seg_count = 0\<rparr>"

definition zero_dma :: drm_device_dma where
  "zero_dma = \<lparr>dma_lock = False, dma_bufs = replicate (DRM_MAX_ORDER + 1) zero_entry, dma_buflist = None,
     dma_pagelist = None, dma_byte_count = 0, dma_buf_use = 0, dma_buf_count = 0, dma_page_count = 0,
     dma_seg_count = 0, dma_flags = 0\<rparr>"

text \<open>The buffer that an element of \<^verbatim>\<open>dma->buflist\<close> points to, and a write through the pointer.\<close>

definition the_buf :: "drm_device_dma \<Rightarrow> nat \<times> nat \<Rightarrow> drm_buf" where
  "the_buf p r = be_buflist (dma_bufs p ! fst r) ! snd r"

definition upd_buf :: "nat \<times> nat \<Rightarrow> (drm_buf \<Rightarrow> drm_buf) \<Rightarrow> drm_device_dma \<Rightarrow> drm_device_dma" where
  "upd_buf r f p =
     p\<lparr>dma_bufs := (dma_bufs p)[fst r := (dma_bufs p ! fst r)\<lparr>be_buflist :=
         (be_buflist (dma_bufs p ! fst r))[snd r := f (the_buf p r)]\<rparr>]\<rparr>"

definition buf_ref :: "drm_device_dma \<Rightarrow> nat \<Rightarrow> nat \<times> nat" where
  "buf_ref p i = the (dma_buflist p) ! i"

section \<open>Set-up and takedown\<close>

definition drm_dma_setup :: "('z) kern_scheme \<Rightarrow> 'a bus_dev_scheme \<Rightarrow> errno \<times> 'a bus_dev_scheme" where
  "drm_dma_setup kn d =
     (case drm_new kn K_DMA (dma_mem d) of
        None \<Rightarrow> (ENOMEM, d\<lparr>dma := None\<rparr>)
      | Some l \<Rightarrow> (E_OK, d\<lparr>dma := Some zero_dma, dma_mem := l\<rparr>))"

definition free_privs :: "drm_buf list \<Rightarrow> dma_live \<Rightarrow> dma_live" where
  "free_privs bs l = foldl (\<lambda>l b. if b_dev_private b then drm_free K_BUFPRIV l else l) l bs"

definition drm_cleanup_buf :: "drm_buf_entry \<Rightarrow> dma_live \<Rightarrow> drm_buf_entry \<times> dma_live" where
  "drm_cleanup_buf e l =
     (let (e, l) =
        (if be_seg_count e \<noteq> 0
         then (e\<lparr>be_seg_count := 0\<rparr>,
               drm_free K_SEGLIST (foldl (\<lambda>l m. drm_dmamem_free m l) l (take (nat (be_seg_count e)) (be_seglist e))))
         else (e, l))
      in if be_buf_count e \<noteq> 0
         then (e\<lparr>be_buf_count := 0\<rparr>,
               drm_free K_BUFS (free_privs (take (nat (be_buf_count e)) (be_buflist e)) l))
         else (e, l))"

fun cleanup_bufs :: "drm_buf_entry list \<Rightarrow> dma_live \<Rightarrow> dma_live" where
  "cleanup_bufs [] l = l"
| "cleanup_bufs (e # es) l = cleanup_bufs es (snd (drm_cleanup_buf e l))"

definition drm_free_opt :: "kobj \<Rightarrow> 'b option \<Rightarrow> dma_live \<Rightarrow> dma_live" where
  "drm_free_opt k po l = (case po of None \<Rightarrow> l | Some _ \<Rightarrow> drm_free k l)"

definition drm_dma_takedown :: "'a bus_dev_scheme \<Rightarrow> 'a bus_dev_scheme" where
  "drm_dma_takedown d =
     (case dma d of
        None \<Rightarrow> d
      | Some p \<Rightarrow>
          d\<lparr>dma := None,
            dma_mem := drm_free K_DMA (drm_free_opt K_PAGELIST (dma_pagelist p)
              (drm_free_opt K_BUFLIST (dma_buflist p) (cleanup_bufs (dma_bufs p) (dma_mem d))))\<rparr>)"

section \<open>Returning buffers\<close>

definition drm_free_buffer :: "drm_buf \<Rightarrow> drm_buf" where
  "drm_free_buffer b = b\<lparr>b_pending := 0, b_file_priv := None, b_used := 0\<rparr>"

definition reclaim_one :: "int \<Rightarrow> drm_device_dma \<Rightarrow> nat \<Rightarrow> drm_device_dma" where
  "reclaim_one mi p i =
     (if b_file_priv (the_buf p (buf_ref p i)) = Some mi then upd_buf (buf_ref p i) drm_free_buffer p else p)"

definition drm_reclaim_buffers :: "int \<Rightarrow> 'a bus_dev_scheme \<Rightarrow> 'a bus_dev_scheme" where
  "drm_reclaim_buffers mi d =
     (case dma d of
        None \<Rightarrow> d
      | Some p \<Rightarrow> d\<lparr>dma := Some (foldl (reclaim_one mi) p [0..<nat (dma_buf_count p)])\<rparr>)"

definition rw_enter_write :: "drm_device_dma option \<Rightarrow> drm_device_dma outcome" where
  "rw_enter_write po =
     (case po of None \<Rightarrow> Panic | Some p \<Rightarrow> if dma_lock p then Panic else Ret (p\<lparr>dma_lock := True\<rparr>))"

definition rw_exit_write :: "drm_device_dma \<Rightarrow> drm_device_dma" where
  "rw_exit_write p = p\<lparr>dma_lock := False\<rparr>"

text \<open>The list of the request: \<open>None\<close> where it cannot be read.\<close>

fun freebufs_loop :: "int \<Rightarrow> int option list \<Rightarrow> drm_device_dma \<Rightarrow> errno \<times> drm_device_dma" where
  "freebufs_loop mi [] p = (E_OK, p)"
| "freebufs_loop mi (None # xs) p = (EFAULT, p)"
| "freebufs_loop mi (Some idx # xs) p =
     (if idx < 0 \<or> idx \<ge> dma_buf_count p then (EINVAL, p)
      else if b_file_priv (the_buf p (buf_ref p (nat idx))) \<noteq> Some mi then (EINVAL, p)
      else freebufs_loop mi xs (upd_buf (buf_ref p (nat idx)) drm_free_buffer p))"

definition drm_freebufs ::
  "int option list \<Rightarrow> int \<Rightarrow> 'a bus_dev_scheme \<Rightarrow> (errno \<times> 'a bus_dev_scheme) outcome" where
  "drm_freebufs xs mi d =
     obind (rw_enter_write (dma d)) (\<lambda>p.
     case freebufs_loop mi xs p of (e, p) \<Rightarrow> Ret (e, d\<lparr>dma := Some (rw_exit_write p)\<rparr>))"

section \<open>Adding buffers\<close>

text \<open>\<^verbatim>\<open>drm_calloc(n, ...)\<close>, which gives nothing for no elements.\<close>

definition drm_new_array :: "('z) kern_scheme \<Rightarrow> kobj \<Rightarrow> nat \<Rightarrow> dma_live \<Rightarrow> dma_live option" where
  "drm_new_array kn k n l = (if n = 0 then None else drm_new kn k l)"

definition buf_align :: "u32 \<Rightarrow> nat \<Rightarrow> u64" where
  "buf_align fl order = (if fl AND DRM_PAGE_ALIGN \<noteq> 0 then round_page (2 ^ order) else 2 ^ order)"

definition page_order_of :: "nat \<Rightarrow> nat" where
  "page_order_of order = order - PAGE_SHIFT"

definition buf_total :: "nat \<Rightarrow> nat" where
  "buf_total page_order = PAGE_SIZE * 2 ^ page_order"

text \<open>The next buffer of an entry, and a write to it.\<close>

definition init_buf :: "drm_device_dma \<Rightarrow> drm_buf_entry \<Rightarrow> u64 \<Rightarrow> u64 \<Rightarrow> u64 \<Rightarrow> drm_buf" where
  "init_buf p e alignment offset bus =
     (be_buflist e ! nat (be_buf_count e))
       \<lparr>b_idx := dma_buf_count p + be_buf_count e, b_total := uint alignment, b_used := 0,
        b_offset := dma_byte_count p + offset, b_bus_address := bus, b_pending := 0, b_file_priv := None\<rparr>"

definition put_buf :: "drm_buf \<Rightarrow> drm_buf_entry \<Rightarrow> drm_buf_entry" where
  "put_buf b e = e\<lparr>be_buflist := (be_buflist e)[nat (be_buf_count e) := b]\<rparr>"

text \<open>
  The loop over the buffers that follow each other in AGP or scatter-gather memory, the first
  argument that is a number being how many are still to come. \<open>False\<close> if a private part cannot
  be allocated. \<^verbatim>\<open>byte_count\<close> is an \<^verbatim>\<open>int\<close>.
\<close>

fun fill_bufs ::
  "('z) kern_scheme \<Rightarrow> drm_device_dma \<Rightarrow> u64 \<Rightarrow> u64 \<Rightarrow> nat \<Rightarrow> drm_buf_entry \<Rightarrow> u64 \<Rightarrow> u32 \<Rightarrow> dma_live \<Rightarrow>
   bool \<times> drm_buf_entry \<times> u32 \<times> dma_live" where
  "fill_bufs kn p agp_offset alignment 0 e offset byte_count l = (True, e, byte_count, l)"
| "fill_bufs kn p agp_offset alignment (Suc n) e offset byte_count l =
     (let b = init_buf p e alignment offset (agp_offset + offset)
      in case drm_new kn K_BUFPRIV l of
           None \<Rightarrow> (False, put_buf b e, byte_count, l)
         | Some l \<Rightarrow>
             fill_bufs kn p agp_offset alignment n
               ((put_buf (b\<lparr>b_dev_private := True\<rparr>) e)\<lparr>be_buf_count := be_buf_count e + 1\<rparr>)
               (offset + alignment) (byte_count + of_nat (buf_total (be_page_order e))) l)"

text \<open>\<^verbatim>\<open>drm_realloc\<close> of the list of buffers, and the pointers to the new ones.\<close>

definition grow_buflist ::
  "('z) kern_scheme \<Rightarrow> drm_device_dma \<Rightarrow> drm_buf_entry \<Rightarrow> nat \<Rightarrow> dma_live \<Rightarrow>
   ((nat \<times> nat) list \<times> dma_live) option" where
  "grow_buflist kn p e order l =
     (case drm_new kn K_BUFLIST l of
        None \<Rightarrow> None
      | Some l \<Rightarrow>
          let new = map (\<lambda>i. (order, i)) [0..<nat (be_buf_count e)]
          in (case dma_buflist p of
                None \<Rightarrow> Some (new, l)
              | Some old \<Rightarrow>
                  Some (take (nat (dma_buf_count p)) old @ new,
                        if dma_buf_count p \<noteq> 0 then drm_free K_BUFLIST l else l)))"

definition set_entry :: "nat \<Rightarrow> drm_buf_entry \<Rightarrow> drm_device_dma \<Rightarrow> drm_device_dma" where
  "set_entry order e p = p\<lparr>dma_bufs := (dma_bufs p)[order := e]\<rparr>"

definition addbufs_range ::
  "('z) kern_scheme \<Rightarrow> u64 \<Rightarrow> u32 \<Rightarrow> drm_buf_desc \<Rightarrow> drm_device_dma \<Rightarrow> 'a bus_dev_scheme \<Rightarrow>
   (errno \<times> drm_buf_desc \<times> 'a bus_dev_scheme) outcome" where
  "addbufs_range kn agp_offset use rq p d =
     (let count = rq_count rq;
          order = drm_order (word_of_int (rq_bsize rq));
          alignment = buf_align (rq_bflags rq) order;
          e = dma_bufs p ! order;
          fail = (\<lambda>e l. Ret (ENOMEM, rq, d\<lparr>dma := Some (set_entry order e p), dma_mem := l\<rparr>))
      in case drm_new_array kn K_BUFS (nat count) (dma_mem d) of
           None \<Rightarrow> fail (e\<lparr>be_buflist := []\<rparr>) (dma_mem d)
         | Some l \<Rightarrow>
             let e = e\<lparr>be_buflist := replicate (nat count) zero_buf, be_buf_size := 2 ^ order,
                   be_page_order := page_order_of order\<rparr>
             in (case fill_bufs kn p agp_offset alignment (nat (count - be_buf_count e)) e 0 0 l of
                   (False, e, byte_count, l) \<Rightarrow>
                     (case drm_cleanup_buf (e\<lparr>be_buf_count := count\<rparr>) l of (e, l) \<Rightarrow> fail e l)
                 | (True, e, byte_count, l) \<Rightarrow>
                     (case grow_buflist kn p e order l of
                        None \<Rightarrow> (case drm_cleanup_buf e l of (e, l) \<Rightarrow> fail e l)
                      | Some (bl, l) \<Rightarrow>
                          Ret (E_OK, rq\<lparr>rq_count := be_buf_count e, rq_bsize := 2 ^ order\<rparr>,
                               d\<lparr>dma := Some ((set_entry order e p)
                                   \<lparr>dma_buflist := Some bl, dma_buf_count := dma_buf_count p + be_buf_count e,
                                    dma_byte_count := dma_byte_count p + scast byte_count, dma_flags := use\<rparr>),
                                 dma_mem := l\<rparr>))))"

definition drm_addbufs_agp ::
  "('z) kern_scheme \<Rightarrow> drm_buf_desc \<Rightarrow> drm_device_dma \<Rightarrow> 'a bus_dev_scheme \<Rightarrow>
   (errno \<times> drm_buf_desc \<times> 'a bus_dev_scheme) outcome" where
  "drm_addbufs_agp kn rq p d =
     (case agp d of
        None \<Rightarrow> Panic
      | Some h \<Rightarrow> addbufs_range kn (ah_base h + rq_agp_start rq) DRM_DMA_USE_AGP rq p d)"

definition drm_addbufs_sg ::
  "('z) kern_scheme \<Rightarrow> drm_buf_desc \<Rightarrow> drm_device_dma \<Rightarrow> 'a bus_dev_scheme \<Rightarrow>
   (errno \<times> drm_buf_desc \<times> 'a bus_dev_scheme) outcome" where
  "drm_addbufs_sg kn rq p d = addbufs_range kn (rq_agp_start rq) DRM_DMA_USE_SG rq p d"

section \<open>Buffers in DMA memory\<close>

definition put_pages :: "u64 list \<Rightarrow> nat \<Rightarrow> u64 \<Rightarrow> nat \<Rightarrow> u64 list" where
  "put_pages tp start kva n = foldl (\<lambda>tp i. tp[start + i := kva + of_nat (PAGE_SIZE * i)]) tp [0..<n]"

text \<open>The inner loop: the buffers in one segment; at most the given number.\<close>

fun fill_seg ::
  "('z) kern_scheme \<Rightarrow> drm_device_dma \<Rightarrow> drm_dmamem \<Rightarrow> u64 \<Rightarrow> u64 \<Rightarrow> u32 \<Rightarrow> nat \<Rightarrow> u64 \<Rightarrow> drm_buf_entry \<Rightarrow> dma_live \<Rightarrow>
   bool \<times> drm_buf_entry \<times> dma_live" where
  "fill_seg kn p mem sz alignment byte_count 0 offset e l = (True, e, l)"
| "fill_seg kn p mem sz alignment byte_count (Suc n) offset e l =
     (if offset + sz > of_nat (buf_total (be_page_order e)) then (True, e, l)
      else let b = (init_buf p e alignment (scast byte_count + offset) (dm_segs0 mem + offset))
                     \<lparr>b_address := dm_kva mem + offset\<rparr>
           in case drm_new kn K_BUFPRIV l of
                None \<Rightarrow> (False, put_buf b e, l)
              | Some l \<Rightarrow>
                  fill_seg kn p mem sz alignment byte_count n (offset + alignment)
                    ((put_buf (b\<lparr>b_dev_private := True\<rparr>) e)\<lparr>be_buf_count := be_buf_count e + 1\<rparr>) l)"

text \<open>
  The outer loop: a segment in each turn. The number is a bound on the turns, which
  \<^verbatim>\<open>drm_addbufs_pci\<close> sets to the number of buffers; \<open>None\<close> if it is reached.
\<close>

fun fill_segs ::
  "('z) kern_scheme \<Rightarrow> drm_device_dma \<Rightarrow> nat \<Rightarrow> u64 \<Rightarrow> int \<Rightarrow> nat \<Rightarrow> drm_buf_entry \<Rightarrow> u64 list \<Rightarrow> nat \<Rightarrow> u32 \<Rightarrow> dma_live \<Rightarrow>
   (bool \<times> drm_buf_entry \<times> u64 list \<times> dma_live) option" where
  "fill_segs kn p order alignment n_bufs 0 e tp page_count byte_count l =
     (if be_buf_count e < n_bufs then None else Some (True, e, tp, l))"
| "fill_segs kn p order alignment n_bufs (Suc turns) e tp page_count byte_count l =
     (if be_buf_count e < n_bufs then
        (case drm_dmamem_alloc (bus_dma.truncate kn) (2 ^ order) alignment 1 (2 ^ order) l of
           (None, l) \<Rightarrow> Some (False, e, tp, l)
         | (Some mem, l) \<Rightarrow>
             let e = e\<lparr>be_seglist := (be_seglist e)[nat (be_seg_count e) := Some mem],
                       be_seg_count := be_seg_count e + 1\<rparr>;
                 tp = put_pages tp (nat (dma_page_count p) + page_count) (dm_kva mem) (2 ^ be_page_order e)
             in (case fill_seg kn p mem (2 ^ order) alignment byte_count (nat (n_bufs - be_buf_count e)) 0 e l of
                   (False, e, l) \<Rightarrow> Some (False, e, tp, l)
                 | (True, e, l) \<Rightarrow>
                     fill_segs kn p order alignment n_bufs turns e tp (page_count + 2 ^ be_page_order e)
                       (byte_count + of_nat (buf_total (be_page_order e))) l))
      else Some (True, e, tp, l))"

text \<open>The three arrays of a request, or what is left allocated when one of them fails.\<close>

definition pci_arrays :: "('z) kern_scheme \<Rightarrow> nat \<Rightarrow> nat \<Rightarrow> dma_live \<Rightarrow> dma_live + dma_live" where
  "pci_arrays kn n_bufs pages l0 =
     (let bl = drm_new_array kn K_BUFS n_bufs l0;
          l1 = (case bl of None \<Rightarrow> l0 | Some l \<Rightarrow> l);
          sl = drm_new_array kn K_SEGLIST n_bufs l1;
          l2 = (case sl of None \<Rightarrow> l1 | Some l \<Rightarrow> l);
          tp = drm_new_array kn K_PAGELIST pages l2;
          l3 = (case tp of None \<Rightarrow> l2 | Some l \<Rightarrow> l)
      in if bl = None \<or> sl = None \<or> tp = None
         then Inl (drm_free_opt K_BUFS bl (drm_free_opt K_SEGLIST sl (drm_free_opt K_PAGELIST tp l3)))
         else Inr l3)"

definition drm_addbufs_pci ::
  "('z) kern_scheme \<Rightarrow> drm_buf_desc \<Rightarrow> drm_device_dma \<Rightarrow> 'a bus_dev_scheme \<Rightarrow>
   (errno \<times> drm_buf_desc \<times> 'a bus_dev_scheme) outcome" where
  "drm_addbufs_pci kn rq p d =
     (let count = rq_count rq;
          order = drm_order (word_of_int (rq_bsize rq));
          alignment = buf_align (rq_bflags rq) order;
          page_order = page_order_of order;
          pages = nat (dma_page_count p) + nat count * 2 ^ page_order;
          e = dma_bufs p ! order;
          fail = (\<lambda>e l. Ret (ENOMEM, rq, d\<lparr>dma := Some (set_entry order e p), dma_mem := l\<rparr>))
      in case pci_arrays kn (nat count) pages (dma_mem d) of
           Inl l \<Rightarrow> fail (e\<lparr>be_buflist := [], be_seglist := []\<rparr>) l
         | Inr l \<Rightarrow>
             let tp = take (nat (dma_page_count p)) (case dma_pagelist p of None \<Rightarrow> [] | Some pl \<Rightarrow> pl)
                        @ replicate (nat count * 2 ^ page_order) 0;
                 e = e\<lparr>be_buflist := replicate (nat count) zero_buf, be_seglist := replicate (nat count) None,
                       be_buf_size := 2 ^ order, be_page_order := page_order\<rparr>
             in (case fill_segs kn p order alignment count (nat count) e tp 0 0 l of
                   None \<Rightarrow> Asleep
                 | Some (False, e, tp, l) \<Rightarrow>
                     (case drm_cleanup_buf (e\<lparr>be_buf_count := count, be_seg_count := count\<rparr>) l of
                        (e, l) \<Rightarrow> fail e (drm_free K_PAGELIST l))
                 | Some (True, e, tp, l) \<Rightarrow>
                     (case grow_buflist kn p e order l of
                        None \<Rightarrow> (case drm_cleanup_buf e l of (e, l) \<Rightarrow> fail e (drm_free K_PAGELIST l))
                      | Some (bl, l) \<Rightarrow>
                          Ret (E_OK, rq\<lparr>rq_count := be_buf_count e, rq_bsize := 2 ^ order\<rparr>,
                               d\<lparr>dma := Some ((set_entry order e p)
                                   \<lparr>dma_buflist := Some bl, dma_pagelist := Some tp,
                                    dma_buf_count := dma_buf_count p + be_buf_count e,
                                    dma_seg_count := dma_seg_count p + be_seg_count e,
                                    dma_page_count := dma_page_count p + be_seg_count e * 2 ^ page_order,
                                    dma_byte_count := dma_byte_count p +
                                      scast (word_of_int (int PAGE_SIZE * (be_seg_count e * 2 ^ page_order)) :: u32)\<rparr>),
                                 dma_mem := drm_free_opt K_PAGELIST (dma_pagelist p) l\<rparr>))))"

definition drm_addbufs ::
  "('z) kern_scheme \<Rightarrow> drm_buf_desc \<Rightarrow> 'a bus_dev_scheme \<Rightarrow>
   (errno \<times> drm_buf_desc \<times> 'a bus_dev_scheme) outcome" where
  "drm_addbufs kn rq d =
     (let order = drm_order (word_of_int (rq_bsize rq))
      in if rq_count rq < 0 \<or> rq_count rq > 4096 then Ret (EINVAL, rq, d)
         else if order < DRM_MIN_ORDER \<or> order > DRM_MAX_ORDER then Ret (EINVAL, rq, d)
         else obind (rw_enter_write (dma d)) (\<lambda>p.
           let d = d\<lparr>dma := Some p\<rparr>;
               unlock = (\<lambda>d. d\<lparr>dma := map_option rw_exit_write (dma d)\<rparr>)
           in if dma_buf_use p \<noteq> 0 then Ret (EBUSY, rq, unlock d)
              else if be_buf_count (dma_bufs p ! order) \<noteq> 0 then Ret (ENOMEM, rq, unlock d)
              else obind (if rq_bflags rq AND DRM_AGP_BUFFER \<noteq> 0 then drm_addbufs_agp kn rq p d
                          else if rq_bflags rq AND DRM_SG_BUFFER \<noteq> 0 then drm_addbufs_sg kn rq p d
                          else drm_addbufs_pci kn rq p d)
                     (\<lambda>(e, rq, d). Ret (e, rq, unlock d))))"

section \<open>Using buffers\<close>

record drm_dma =
  send_count :: int
  request_count :: int
  granted_count :: int

definition drm_dma_call ::
  "('a bus_dev_scheme) drm_driver_info \<Rightarrow> drm_dma \<Rightarrow> int \<Rightarrow> 'a bus_dev_scheme \<Rightarrow>
   (errno \<times> drm_dma \<times> 'a bus_dev_scheme) outcome" where
  "drm_dma_call drv rq mi d =
     (case dma_ioctl drv of
        None \<Rightarrow> Ret (EINVAL, rq, d)
      | Some handler \<Rightarrow>
          (case hw_lock (lock d) of
             None \<Rightarrow> Panic
           | Some w \<Rightarrow>
               if \<not> lock_is_held w \<or> lk_file_priv (lock d) \<noteq> Some mi then Ret (EINVAL, rq, d)
               else if send_count rq \<noteq> 0 then Ret (EINVAL, rq, d)
               else if request_count rq < 0 then Ret (EINVAL, rq, d)
               else (case dma d of
                  None \<Rightarrow> Panic
                | Some p \<Rightarrow>
                    if request_count rq > dma_buf_count p then Ret (EINVAL, rq, d)
                    else if request_count rq = 0 then Ret (E_OK, rq\<lparr>granted_count := 0\<rparr>, d)
                    else (case handler d mi (request_count rq) of
                            (e, granted, d) \<Rightarrow> Ret (e, rq\<lparr>granted_count := granted\<rparr>, d)))))"

text \<open>The fields that are copied out for each buffer, in the order of the calls.\<close>

datatype pub_field = PUB_IDX int | PUB_TOTAL int | PUB_USED int | PUB_ADDRESS u64

fun copy_fields :: "(nat \<Rightarrow> pub_field \<Rightarrow> bool) \<Rightarrow> nat \<Rightarrow> pub_field list \<Rightarrow> bool \<times> (nat \<times> pub_field) list" where
  "copy_fields co i [] = (True, [])"
| "copy_fields co i (f # fs) =
     (if co i f then (case copy_fields co i fs of (ok, ws) \<Rightarrow> (ok, (i, f) # ws)) else (False, []))"

fun copy_bufs ::
  "(nat \<Rightarrow> pub_field \<Rightarrow> bool) \<Rightarrow> drm_device_dma \<Rightarrow> u64 \<Rightarrow> nat list \<Rightarrow> errno \<times> (nat \<times> pub_field) list" where
  "copy_bufs co p vaddr [] = (E_OK, [])"
| "copy_bufs co p vaddr (i # is) =
     (let b = the_buf p (buf_ref p i)
      in case copy_fields co i [PUB_IDX (b_idx b), PUB_TOTAL (b_total b), PUB_USED 0, PUB_ADDRESS (vaddr + b_offset b)] of
           (False, ws) \<Rightarrow> (EFAULT, ws)
         | (True, ws) \<Rightarrow> (case copy_bufs co p vaddr is of (e, ws') \<Rightarrow> (e, ws @ ws')))"

text \<open>
  \<open>found\<close> is the answer of \<^verbatim>\<open>vfinddev\<close>, \<open>mm\<close> that of \<^verbatim>\<open>uvm_mmap\<close> for a size and an offset, and
  \<open>co\<close> tells whether a copy to user space succeeds. The reply is the count, the address and what
  was copied.
\<close>

record mapbufs_reply =
  mr_count :: int
  mr_virtual :: "u64 option"
  mr_list :: "(nat \<times> pub_field) list"

definition drm_mapbufs ::
  "u32 \<Rightarrow> bool \<Rightarrow> (u64 \<Rightarrow> u64 \<Rightarrow> errno + u64) \<Rightarrow> (nat \<Rightarrow> pub_field \<Rightarrow> bool) \<Rightarrow> int \<Rightarrow> 'a bus_dev_scheme \<Rightarrow>
   (errno \<times> mapbufs_reply \<times> 'a bus_dev_scheme) outcome" where
  "drm_mapbufs fl found mm co req_count d =
     (if \<not> found then Ret (EINVAL, \<lparr>mr_count = req_count, mr_virtual = None, mr_list = []\<rparr>, d)
      else obind (rw_enter_write (dma d)) (\<lambda>p.
        let p = rw_exit_write (p\<lparr>dma_buf_use := dma_buf_use p + 1\<rparr>);
            d = d\<lparr>dma := Some p\<rparr>;
            finish = (\<lambda>e va ws. Ret (e, \<lparr>mr_count = dma_buf_count p, mr_virtual = va, mr_list = ws\<rparr>, d));
            mmap = (\<lambda>sz foff.
              (case mm sz foff of
                 Inl e \<Rightarrow> finish e None []
               | Inr vaddr \<Rightarrow>
                   (case copy_bufs co p vaddr [0..<nat (dma_buf_count p)] of (e, ws) \<Rightarrow> finish e (Some vaddr) ws)))
        in if req_count < dma_buf_count p then finish E_OK None []
           else if has_flag fl DRIVER_AGP \<and> dma_flags p AND DRM_DMA_USE_AGP \<noteq> 0 \<or>
                   has_flag fl DRIVER_SG \<and> dma_flags p AND DRM_DMA_USE_SG \<noteq> 0 then
             (case agp_buffer_map d of
                None \<Rightarrow> finish EINVAL None []
              | Some m \<Rightarrow> mmap (round_page (lm_size m)) (lm_ext m))
           else mmap (round_page (dma_byte_count p)) 0))"

end
