(* ===== verification/Bufs_Inv.thy ===== *)
theory Bufs_Inv
  imports Drm_Bufs Bus_Inv "HOL-Library.Log_Nat"
begin

text \<open>
  What the DMA buffers keep: \<^verbatim>\<open>drm_order\<close> is the binary logarithm rounded up; the lists of
  buffers are consistent (\<open>bufs_ok\<close>), and the memory of every request is accounted for.
\<close>

section \<open>Orders\<close>

lemma order_loop_bounds:
  "w \<noteq> 0 \<Longrightarrow> \<exists>r. order_loop w k = k + r \<and> 2 ^ r \<le> unat w \<and> unat w < 2 ^ (r + 1)"
proof (induction w k rule: order_loop.induct)
  case (1 w k)
  have half: "unat (drop_bit 1 w) = unat w div 2"
    using unat_drop_bit_eq[of 1 w] by (simp add: drop_bit_eq_div del: One_nat_def)
  have pos: "0 < unat w"
    using 1(2) by (simp add: unat_gt_0)
  show ?case
  proof (cases "drop_bit 1 w = 0")
    case True
    then have "unat w div 2 = 0"
      using half by (simp del: One_nat_def)
    then have "unat w = 1"
      using pos by simp
    then show ?thesis
      using True by (subst order_loop.simps) (auto simp: Let_def intro!: exI[of _ 0])
  next
    case False
    obtain r where r: "order_loop (drop_bit 1 w) (k + 1) = k + 1 + r" "2 ^ r \<le> unat w div 2"
      "unat w div 2 < 2 ^ (r + 1)"
      using 1(1)[OF refl False False] half by auto
    then have "2 ^ (r + 1) \<le> unat w" "unat w < 2 ^ (r + 1 + 1)"
      by (simp_all add: div_less_iff_less_mult)
    then show ?thesis
      using r(1) False by (subst order_loop.simps) (auto simp: Let_def intro!: exI[of _ "r + 1"])
  qed
qed

lemma not_bit_above: "unat (w :: u64) < 2 ^ k \<Longrightarrow> k \<le> n \<Longrightarrow> \<not> bit w n"
proof
  assume lim: "unat w < 2 ^ k" "k \<le> n" and "bit w n"
  then have "bit (unat w) n"
    by (simp add: bit_unsigned_iff bit_imp_le_length)
  then have "\<not> unat w < 2 ^ n"
    by (auto simp: bit_iff_odd)
  moreover have "(2 :: nat) ^ k \<le> 2 ^ n"
    using lim(2) by (simp add: power_increasing)
  ultimately show False
    using lim(1) by linarith
qed

lemma order_rest:
  assumes w: "2 ^ r \<le> unat (w :: u64)" "unat w < 2 ^ (r + 1)" and r: "r < 32"
  shows "w AND scast (NOT (push_bit (r mod 32) (1 :: u32))) = 0 \<longleftrightarrow> unat w = 2 ^ r"
proof -
  have "w AND scast (NOT (push_bit (r mod 32) (1 :: u32))) = take_bit r w"
  proof (rule bit_word_eqI)
    fix n assume n: "n < LENGTH(64)"
    consider "n < r" | "n = r" | "r + 1 \<le> n" by linarith
    then show "bit (w AND scast (NOT (push_bit (r mod 32) (1 :: u32)))) n = bit (take_bit r w) n"
    proof cases
      case 1
      then show ?thesis
        using r n by (simp add: bit_and_iff bit_take_bit_iff bit_signed_iff bit_not_iff bit_push_bit_iff min_def)
    next
      case 2
      then show ?thesis
        using r n by (simp add: bit_and_iff bit_take_bit_iff bit_signed_iff bit_not_iff bit_push_bit_iff min_def)
    next
      case 3
      then show ?thesis
        using not_bit_above[OF w(2) 3] by (simp add: bit_and_iff bit_take_bit_iff)
    qed
  qed
  moreover have "take_bit r w = 0 \<longleftrightarrow> unat w mod 2 ^ r = 0"
    by (metis take_bit_eq_mod unat_eq_zero unsigned_take_bit_eq)
  moreover have "unat w mod 2 ^ r = unat w - 2 ^ r"
    using w by (simp add: mod_if)
  ultimately show ?thesis
    using w by auto
qed

lemma drm_order_zero: "drm_order 0 = 0"
  by (simp add: drm_order_def order_loop.simps)

lemma drm_order_ceil:
  assumes "unat sz < 2 ^ 32"
  shows "drm_order sz = ceillog2 (unat sz)"
proof (cases "sz = 0")
  case False
  obtain r where r: "order_loop sz 0 = r" "2 ^ r \<le> unat sz" "unat sz < 2 ^ (r + 1)"
    using order_loop_bounds[OF False, of 0] by auto
  then have "(2 :: nat) ^ r < 2 ^ 32"
    using assms by linarith
  then have lim: "r < 32"
    by (rule power_less_imp_less_exp[rotated]) simp
  show ?thesis
  proof (cases "unat sz = 2 ^ r")
    case True
    then show ?thesis
      using order_rest[OF r(2,3) lim] r(1) by (simp add: drm_order_def)
  next
    case f: False
    then have "ceillog2 (unat sz) = r + 1"
      using r(2,3) by (intro ceillog2_eqI) auto
    then show ?thesis
      using order_rest[OF r(2,3) lim] r(1) f by (simp add: drm_order_def)
  qed
qed (simp add: drm_order_zero)

lemma drm_order_large:
  assumes "\<not> unat sz < 2 ^ 32"
  shows "32 \<le> drm_order sz"
proof -
  have "sz \<noteq> 0"
    using assms by auto
  then obtain r where r: "order_loop sz 0 = r" "unat sz < 2 ^ (r + 1)"
    using order_loop_bounds[of sz 0] by auto
  then have "(2 :: nat) ^ 32 < 2 ^ (r + 1)"
    using assms by linarith
  then have "32 < r + 1"
    by (rule power_less_imp_less_exp[rotated]) simp
  then show ?thesis
    using r(1) by (simp add: drm_order_def)
qed

section \<open>Memory of an entry\<close>

lemma free_privs_res: "free_privs bs l = l - priv_res bs"
  unfolding free_privs_def
  by (induction bs arbitrary: l) (simp_all add: priv_res_def drm_free_def diff_diff_add_mset[symmetric])

lemma free_segs_res: "foldl (\<lambda>l m. drm_dmamem_free m l) l xs = l - seg_mem_res xs"
proof (induction xs arbitrary: l)
  case (Cons x xs)
  then show ?case
    by (cases x) (simp_all add: seg_mem_res_def drm_dmamem_free_Some)
qed (simp add: seg_mem_res_def)

lemma seg_mem_res_append [simp]: "seg_mem_res (xs @ ys) = seg_mem_res xs + seg_mem_res ys"
  by (simp add: seg_mem_res_def)

lemma seg_mem_res_none: "\<forall>x\<in>set xs. x = None \<Longrightarrow> seg_mem_res xs = {#}"
  by (induction xs) (simp_all add: seg_mem_res_def)

text \<open>The counts of an entry agree with its lists, and what is beyond the count of segments is NULL.\<close>

definition entry_wf :: "drm_buf_entry \<Rightarrow> bool" where
  "entry_wf e \<longleftrightarrow>
     0 \<le> be_buf_count e \<and> 0 \<le> be_seg_count e \<and>
     (be_buf_count e \<noteq> 0 \<longrightarrow> length (be_buflist e) = nat (be_buf_count e)) \<and>
     (be_seg_count e \<noteq> 0 \<longrightarrow> (\<forall>x\<in>set (drop (nat (be_seg_count e)) (be_seglist e)). x = None)) \<and>
     (be_buf_count e = 0 \<longrightarrow> be_seg_count e = 0)"

lemma cleanup_entry:
  assumes "entry_wf e"
  shows "drm_cleanup_buf e l = (e\<lparr>be_seg_count := 0, be_buf_count := 0\<rparr>, l - entry_res e)"
proof -
  have "seg_mem_res (take (nat (be_seg_count e)) (be_seglist e)) = seg_mem_res (be_seglist e)"
    if "be_seg_count e \<noteq> 0"
  proof -
    have "seg_mem_res (drop (nat (be_seg_count e)) (be_seglist e)) = {#}"
      using assms that by (auto simp: entry_wf_def intro: seg_mem_res_none)
    then show ?thesis
      using seg_mem_res_append[of "take (nat (be_seg_count e)) (be_seglist e)" "drop (nat (be_seg_count e)) (be_seglist e)"]
      by (simp del: seg_mem_res_append)
  qed
  moreover have "take (nat (be_buf_count e)) (be_buflist e) = be_buflist e" if "be_buf_count e \<noteq> 0"
    using assms that by (simp add: entry_wf_def)
  moreover have "e\<lparr>be_seg_count := 0\<rparr> = e" if "be_seg_count e = 0"
    using that by (cases e) simp
  moreover have "e\<lparr>be_buf_count := 0\<rparr> = e" if "be_buf_count e = 0"
    using that by (cases e) simp
  ultimately show ?thesis
    by (cases "be_seg_count e = 0"; cases "be_buf_count e = 0")
      (simp_all add: drm_cleanup_buf_def entry_res_def free_privs_res free_segs_res drm_free_def)
qed

lemma entry_res_zero: "entry_wf e \<Longrightarrow> be_buf_count e = 0 \<Longrightarrow> entry_res e = {#}"
  by (simp add: entry_wf_def entry_res_def)

lemma cleanup_bufs_res:
  "\<forall>e\<in>set es. entry_wf e \<Longrightarrow> cleanup_bufs es l = l - (\<Sum>e\<in>#mset es. entry_res e)"
  by (induction es arbitrary: l) (simp_all add: cleanup_entry)

lemma sum_mset_update:
  fixes f :: "'b \<Rightarrow> 'c multiset"
  shows "i < length xs \<Longrightarrow>
    (\<Sum>x\<in>#mset (xs[i := y]). f x) + f (xs ! i) = (\<Sum>x\<in>#mset xs. f x) + f y"
proof (induction xs arbitrary: i)
  case (Cons x xs)
  show ?case
  proof (cases i)
    case (Suc n)
    then show ?thesis
      using Cons.IH[of n] Cons.prems by (simp add: add.assoc)
  qed (simp add: ac_simps)
qed simp

lemma priv_res_sum:
  "priv_res bs = (\<Sum>b\<in>#mset bs. if b_dev_private b then {#R_mem K_BUFPRIV#} else {#})"
  by (induction bs) (simp_all add: priv_res_def)

lemma priv_res_update:
  "i < length bs \<Longrightarrow>
   priv_res (bs[i := b]) + (if b_dev_private (bs ! i) then {#R_mem K_BUFPRIV#} else {#}) =
   priv_res bs + (if b_dev_private b then {#R_mem K_BUFPRIV#} else {#})"
  unfolding priv_res_sum by (rule sum_mset_update)

section \<open>The buffers of a device\<close>

definition refs :: "drm_device_dma \<Rightarrow> (nat \<times> nat) list" where
  "refs p = (case dma_buflist p of None \<Rightarrow> [] | Some l \<Rightarrow> l)"

definition bufs_ok :: "drm_device_dma \<Rightarrow> bool" where
  "bufs_ok p \<longleftrightarrow>
     length (dma_bufs p) = DRM_MAX_ORDER + 1 \<and> (\<forall>e\<in>set (dma_bufs p). entry_wf e) \<and>
     dma_buf_count p = int (length (refs p)) \<and> (dma_buflist p = None \<longleftrightarrow> dma_buf_count p = 0) \<and>
     distinct (refs p) \<and>
     set (refs p) = {(ord, k). ord \<le> DRM_MAX_ORDER \<and> int k < be_buf_count (dma_bufs p ! ord)} \<and>
     (\<forall>i < length (refs p). b_idx (the_buf p (refs p ! i)) = int i) \<and>
     0 \<le> dma_page_count p \<and>
     dma_page_count p \<le> int (case dma_pagelist p of None \<Rightarrow> 0 | Some l \<Rightarrow> length l)"

lemma bufs_ok_entry: "bufs_ok p \<Longrightarrow> ord \<le> DRM_MAX_ORDER \<Longrightarrow> entry_wf (dma_bufs p ! ord)"
  by (simp add: bufs_ok_def)

section \<open>Filling an entry\<close>

text \<open>An entry with room for \<open>n\<close> more buffers, and what the buffers that were put there have.\<close>

definition room :: "drm_buf_entry \<Rightarrow> nat \<Rightarrow> bool" where
  "room e n \<longleftrightarrow>
     0 \<le> be_buf_count e \<and> length (be_buflist e) = nat (be_buf_count e) + n \<and>
     (\<forall>i. nat (be_buf_count e) \<le> i \<longrightarrow> i < length (be_buflist e) \<longrightarrow> \<not> b_dev_private (be_buflist e ! i))"

definition good_buf :: "drm_device_dma \<Rightarrow> nat \<Rightarrow> drm_buf \<Rightarrow> bool" where
  "good_buf p i b \<longleftrightarrow> b_idx b = dma_buf_count p + int i \<and> b_file_priv b = None"

definition filled :: "drm_device_dma \<Rightarrow> drm_buf_entry \<Rightarrow> nat \<Rightarrow> drm_buf_entry \<Rightarrow> bool" where
  "filled p e n e' \<longleftrightarrow>
     be_buf_count e' = be_buf_count e + int n \<and> length (be_buflist e') = length (be_buflist e) \<and>
     be_page_order e' = be_page_order e \<and>
     take (nat (be_buf_count e)) (be_buflist e') = take (nat (be_buf_count e)) (be_buflist e) \<and>
     (\<forall>i. nat (be_buf_count e) \<le> i \<longrightarrow> i < nat (be_buf_count e) + n \<longrightarrow> good_buf p i (be_buflist e' ! i))"

lemma filled_refl [simp]: "filled p e 0 e"
  by (simp add: filled_def)

lemma filled_trans:
  assumes "filled p e m e1" "filled p e1 n e2" "0 \<le> be_buf_count e"
  shows "filled p e (m + n) e2"
proof -
  let ?k = "nat (be_buf_count e)"
  have k1: "nat (be_buf_count e1) = ?k + m"
    using assms(1,3) by (simp add: filled_def)
  have pre: "take (?k + m) (be_buflist e2) = take (?k + m) (be_buflist e1)"
    using assms(2) by (simp add: filled_def k1)
  have old: "take ?k (be_buflist e2) = take ?k (be_buflist e)"
    using arg_cong[OF pre, of "take ?k"] assms(1) by (simp add: filled_def min_def)
  have len: "length (be_buflist e2) = length (be_buflist e1)"
    using assms(2) by (simp add: filled_def)
  have "good_buf p i (be_buflist e2 ! i)" if i: "?k \<le> i" "i < ?k + (m + n)" for i
  proof (cases "i < ?k + m")
    case True
    have "be_buflist e2 ! i = be_buflist e1 ! i"
      using arg_cong[OF pre, of "\<lambda>xs. xs ! i"] True by simp
    then show ?thesis
      using assms(1) i True by (simp add: filled_def)
  next
    case False
    then show ?thesis
      using assms(2) i by (simp add: filled_def k1)
  qed
  then show ?thesis
    using assms old by (simp add: filled_def)
qed

text \<open>One buffer more.\<close>

definition one_more :: "drm_buf \<Rightarrow> drm_buf_entry \<Rightarrow> drm_buf_entry" where
  "one_more b e = (put_buf b e)\<lparr>be_buf_count := be_buf_count e + 1\<rparr>"

lemma put_buf_sel [simp]:
  "be_buf_count (put_buf b e) = be_buf_count e" "be_seg_count (put_buf b e) = be_seg_count e"
  "be_seglist (put_buf b e) = be_seglist e" "be_page_order (put_buf b e) = be_page_order e"
  "be_buf_size (put_buf b e) = be_buf_size e" "length (be_buflist (put_buf b e)) = length (be_buflist e)"
  by (simp_all add: put_buf_def)

lemma one_more_sel [simp]:
  "be_buf_count (one_more b e) = be_buf_count e + 1" "be_seg_count (one_more b e) = be_seg_count e"
  "be_seglist (one_more b e) = be_seglist e" "be_page_order (one_more b e) = be_page_order e"
  "be_buf_size (one_more b e) = be_buf_size e"
  "be_buflist (one_more b e) = (be_buflist e)[nat (be_buf_count e) := b]"
  by (simp_all add: one_more_def put_buf_def)

lemma one_more_room: "room e (Suc n) \<Longrightarrow> room (one_more b e) n"
  by (auto simp: room_def nth_list_update)

lemma one_more_filled: "room e (Suc n) \<Longrightarrow> good_buf p (nat (be_buf_count e)) b \<Longrightarrow> filled p e 1 (one_more b e)"
proof -
  assume r: "room e (Suc n)" and b: "good_buf p (nat (be_buf_count e)) b"
  have "good_buf p i ((be_buflist e)[nat (be_buf_count e) := b] ! i)"
    if "nat (be_buf_count e) \<le> i" "i < nat (be_buf_count e) + 1" for i
  proof -
    have i: "i = nat (be_buf_count e)"
      using that by simp
    have "nat (be_buf_count e) < length (be_buflist e)"
      using r by (simp add: room_def)
    then show ?thesis
      using b by (simp add: i)
  qed
  then show ?thesis
    using r by (simp add: filled_def room_def)
qed

lemma priv_res_room:
  assumes "room e (Suc n)"
  shows "priv_res (be_buflist (one_more b e)) =
           (if b_dev_private b then add_mset (R_mem K_BUFPRIV) (priv_res (be_buflist e)) else priv_res (be_buflist e))"
    and "priv_res (be_buflist (put_buf b e)) =
           (if b_dev_private b then add_mset (R_mem K_BUFPRIV) (priv_res (be_buflist e)) else priv_res (be_buflist e))"
proof -
  have "nat (be_buf_count e) < length (be_buflist e)" "\<not> b_dev_private (be_buflist e ! nat (be_buf_count e))"
    using assms by (auto simp: room_def)
  then show "priv_res (be_buflist (one_more b e)) =
           (if b_dev_private b then add_mset (R_mem K_BUFPRIV) (priv_res (be_buflist e)) else priv_res (be_buflist e))"
    "priv_res (be_buflist (put_buf b e)) =
           (if b_dev_private b then add_mset (R_mem K_BUFPRIV) (priv_res (be_buflist e)) else priv_res (be_buflist e))"
    using priv_res_update[of "nat (be_buf_count e)" "be_buflist e" b] by (simp_all add: put_buf_def)
qed

lemma init_buf_sel [simp]:
  "b_idx (init_buf p e al off bus) = dma_buf_count p + be_buf_count e" "b_file_priv (init_buf p e al off bus) = None"
  "b_offset (init_buf p e al off bus) = dma_byte_count p + off" "b_total (init_buf p e al off bus) = uint al"
  "b_dev_private (init_buf p e al off bus) = b_dev_private (be_buflist e ! nat (be_buf_count e))"
  by (simp_all add: init_buf_def)

lemma room_fresh: "room e (Suc n) \<Longrightarrow> \<not> b_dev_private (be_buflist e ! nat (be_buf_count e))"
  by (auto simp: room_def)

text \<open>What the loop does, whether it succeeds or not.\<close>

lemma fill_bufs_spec:
  assumes "fill_bufs kn p agp_offset al n e off bc l = (ok, e', bc', l')" and "room e n"
  shows "be_seglist e' = be_seglist e \<and> be_seg_count e' = be_seg_count e \<and>
    length (be_buflist e') = length (be_buflist e) \<and>
    l' + priv_res (be_buflist e) = l + priv_res (be_buflist e') \<and>
    (ok \<longrightarrow> filled p e n e' \<and> bc' = bc + of_nat n * of_nat (buf_total (be_page_order e)))"
  using assms
proof (induction n arbitrary: e off bc l)
  case (Suc n)
  let ?b = "init_buf p e al off (agp_offset + off)"
  have fresh: "\<not> b_dev_private ?b"
    using room_fresh[OF Suc.prems(2)] by simp
  have pos: "0 \<le> be_buf_count e"
    using Suc.prems(2) by (simp add: room_def)
  show ?case
  proof (cases "drm_new kn K_BUFPRIV l")
    case None
    then show ?thesis
      using Suc.prems fresh priv_res_room(2)[OF Suc.prems(2), of ?b] by (auto simp: Let_def)
  next
    case (Some l1)
    let ?e = "one_more (?b\<lparr>b_dev_private := True\<rparr>) e"
    have rest: "fill_bufs kn p agp_offset al n ?e (off + al) (bc + of_nat (buf_total (be_page_order e))) l1 =
        (ok, e', bc', l')"
      using Suc.prems(1) Some by (simp add: Let_def one_more_def)
    have one: "filled p e 1 ?e"
      by (rule one_more_filled[OF Suc.prems(2)]) (simp add: good_buf_def pos)
    note ih = Suc.IH[OF rest one_more_room[OF Suc.prems(2)]]
    have "l' + priv_res (be_buflist e) = l + priv_res (be_buflist e')"
      using ih priv_res_room(1)[OF Suc.prems(2), of "?b\<lparr>b_dev_private := True\<rparr>"] drm_new_Some[OF Some]
      by (simp add: add_mset_commute)
    moreover have "filled p e (Suc n) e'" if ok
      using filled_trans[OF one _ pos] ih that by simp
    ultimately show ?thesis
      using ih by (simp add: algebra_simps)
  qed
qed simp

section \<open>Adding an entry to the device\<close>

text \<open>\<open>e\<close> with \<open>n\<close> buffers has replaced an empty entry.\<close>

definition added :: "drm_device_dma \<Rightarrow> nat \<Rightarrow> nat \<Rightarrow> drm_buf_entry \<Rightarrow> drm_device_dma \<Rightarrow> bool" where
  "added p ord n e p' \<longleftrightarrow>
     0 < n \<and> dma_bufs p' = (dma_bufs p)[ord := e] \<and> dma_buflist p' = Some (refs p @ map (Pair ord) [0..<n]) \<and>
     dma_buf_count p' = dma_buf_count p + int n \<and> be_buf_count e = int n \<and> entry_wf e \<and>
     (\<forall>i < n. good_buf p i (be_buflist e ! i)) \<and>
     0 \<le> dma_page_count p' \<and>
     dma_page_count p' \<le> int (case dma_pagelist p' of None \<Rightarrow> 0 | Some l \<Rightarrow> length l)"

lemma refs_ord:
  assumes "bufs_ok p" "be_buf_count (dma_bufs p ! ord) = 0" "r \<in> set (refs p)"
  shows "fst r \<noteq> ord"
proof
  assume "fst r = ord"
  then have "int (snd r) < be_buf_count (dma_bufs p ! ord)"
    using assms(1,3) unfolding bufs_ok_def by (cases r) auto
  then show False using assms(2) by simp
qed

lemma bufs_ok_refs_count: "bufs_ok p \<Longrightarrow> dma_buf_count p = int (length (refs p))"
  by (simp add: bufs_ok_def)

lemma added_bufs_ok:
  assumes ok: "bufs_ok p" and ord: "ord \<le> DRM_MAX_ORDER" "be_buf_count (dma_bufs p ! ord) = 0"
    and new: "added p ord n e p'"
  shows "bufs_ok p'"
proof -
  have len: "length (dma_bufs p) = DRM_MAX_ORDER + 1" and dis: "distinct (refs p)"
    and old: "set (refs p) = {(ord, k). ord \<le> DRM_MAX_ORDER \<and> int k < be_buf_count (dma_bufs p ! ord)}"
    and wf: "\<forall>e\<in>set (dma_bufs p). entry_wf e"
    and idx: "\<forall>i < length (refs p). b_idx (the_buf p (refs p ! i)) = int i"
    using ok by (simp_all add: bufs_ok_def)
  have refs: "refs p' = refs p @ map (Pair ord) [0..<n]"
    using new by (simp add: added_def refs_def[of p'])
  have bufs: "dma_bufs p' = (dma_bufs p)[ord := e]" and n: "be_buf_count e = int n" "0 < n"
    using new by (simp_all add: added_def)
  have ord_lim: "ord < length (dma_bufs p)"
    using ord(1) len by simp
  have off: "fst r \<noteq> ord" if "r \<in> set (refs p)" for r
    by (rule refs_ord[OF ok ord(2) that])
  have "b_idx (the_buf p' (refs p' ! i)) = int i" if i: "i < length (refs p')" for i
  proof (cases "i < length (refs p)")
    case True
    then have "fst (refs p ! i) \<noteq> ord"
      using off by simp
    then show ?thesis
      using idx True by (simp add: refs nth_append the_buf_def bufs)
  next
    case False
    then have "refs p' ! i = (ord, i - length (refs p))" "i - length (refs p) < n"
      using i by (auto simp: refs nth_append)
    then show ?thesis
      using new False bufs_ok_refs_count[OF ok] ord_lim
      by (simp add: the_buf_def bufs added_def good_buf_def)
  qed
  moreover have "distinct (refs p')"
    using dis off by (fastforce simp: refs distinct_map inj_on_def)
  moreover have "set (refs p') = {(o', k). o' \<le> DRM_MAX_ORDER \<and> int k < be_buf_count (dma_bufs p' ! o')}"
    using ord ord_lim by (auto simp: refs bufs old n nth_list_update split: if_splits)
  moreover have "\<forall>e\<in>set (dma_bufs p'). entry_wf e"
    using wf new bufs set_update_subset_insert[of "dma_bufs p" ord e] by (auto simp: added_def)
  ultimately show ?thesis
    using new len bufs_ok_refs_count[OF ok] by (auto simp: bufs_ok_def refs added_def)
qed

text \<open>A failed request leaves an empty entry.\<close>

lemma failed_bufs_ok:
  assumes ok: "bufs_ok p" and ord: "ord \<le> DRM_MAX_ORDER" "be_buf_count (dma_bufs p ! ord) = 0"
    and e: "be_buf_count e = 0" "be_seg_count e = 0"
  shows "bufs_ok (set_entry ord e p)"
proof -
  have off: "fst r \<noteq> ord" if "r \<in> set (refs p)" for r
    by (rule refs_ord[OF ok ord(2) that])
  have same: "the_buf (set_entry ord e p) r = the_buf p r" if "r \<in> set (refs p)" for r
    using off[OF that] by (simp add: the_buf_def set_entry_def)
  have refs: "refs (set_entry ord e p) = refs p"
    by (simp add: refs_def set_entry_def)
  have "entry_wf e"
    using e by (simp add: entry_wf_def)
  then have "\<forall>x\<in>set ((dma_bufs p)[ord := e]). entry_wf x"
    using ok set_update_subset_insert[of "dma_bufs p" ord e] by (auto simp: bufs_ok_def)
  moreover have "be_buf_count ((dma_bufs p)[ord := e] ! x) = be_buf_count (dma_bufs p ! x)" for x
    using ord e ok by (cases "x = ord") (simp_all add: bufs_ok_def)
  moreover have "\<forall>i < length (refs p). b_idx (the_buf (set_entry ord e p) (refs p ! i)) = int i"
    using ok same nth_mem by (metis bufs_ok_def)
  ultimately show ?thesis
    using ok by (simp add: bufs_ok_def refs) (simp add: set_entry_def)
qed

text \<open>The memory of the device when one of its entries is replaced.\<close>

definition dma_res_but :: "nat \<Rightarrow> drm_device_dma \<Rightarrow> dma_live" where
  "dma_res_but ord p =
     {#R_mem K_DMA#} + (\<Sum>e\<in>#mset (dma_bufs p) - {#dma_bufs p ! ord#}. entry_res e) +
     (if dma_buflist p = None then {#} else {#R_mem K_BUFLIST#}) +
     (if dma_pagelist p = None then {#} else {#R_mem K_PAGELIST#})"

lemma dma_res_entry:
  assumes "ord < length (dma_bufs p)"
  shows "dma_res_of (Some p) = dma_res_but ord p + entry_res (dma_bufs p ! ord)"
proof -
  have "mset (dma_bufs p) = add_mset (dma_bufs p ! ord) (mset (dma_bufs p) - {#dma_bufs p ! ord#})"
    using assms by simp
  then have "(\<Sum>e\<in>#mset (dma_bufs p). entry_res e) =
      entry_res (dma_bufs p ! ord) + (\<Sum>e\<in>#mset (dma_bufs p) - {#dma_bufs p ! ord#}. entry_res e)"
    by (metis image_mset_add_mset sum_mset.insert)
  then show ?thesis
    by (simp add: dma_res_of_def dma_res_but_def)
qed

lemma dma_res_but_update:
  assumes "ord < length (dma_bufs p)"
  shows "dma_res_but ord (set_entry ord e p) = dma_res_but ord p"
  using assms by (simp add: dma_res_but_def set_entry_def mset_update)

abbreviation list_res :: "kobj \<Rightarrow> 'b option \<Rightarrow> dma_live" where
  "list_res k po \<equiv> (if po = None then {#} else {#R_mem k#})"

lemma dma_res_added:
  assumes "ord < length (dma_bufs p)" "entry_res (dma_bufs p ! ord) = {#}" "dma_bufs p' = (dma_bufs p)[ord := e]"
  shows "dma_res_of (Some p') + list_res K_BUFLIST (dma_buflist p) + list_res K_PAGELIST (dma_pagelist p) =
         dma_res_of (Some p) + entry_res e + list_res K_BUFLIST (dma_buflist p') + list_res K_PAGELIST (dma_pagelist p')"
proof -
  have "(\<Sum>x\<in>#mset ((dma_bufs p)[ord := e]). entry_res x) = (\<Sum>x\<in>#mset (dma_bufs p). entry_res x) + entry_res e"
    using sum_mset_update[OF assms(1), of entry_res e] assms(2) by simp
  then show ?thesis
    by (simp add: dma_res_of_def assms(3) ac_simps)
qed

lemma failed_res:
  assumes ok: "bufs_ok p" and ord: "ord \<le> DRM_MAX_ORDER" "be_buf_count (dma_bufs p ! ord) = 0"
    and e: "be_buf_count e = 0" "be_seg_count e = 0"
  shows "dma_res_of (Some (set_entry ord e p)) = dma_res_of (Some p)"
proof -
  have "entry_res (dma_bufs p ! ord) = {#}"
    using entry_res_zero[OF bufs_ok_entry[OF ok ord(1)] ord(2)] .
  moreover have "entry_res e = {#}"
    using e by (simp add: entry_res_def)
  ultimately show ?thesis
    using dma_res_added[of ord p "set_entry ord e p" e] ok ord by (simp add: bufs_ok_def set_entry_def)
qed

lemma grow_buflist_spec:
  assumes "grow_buflist kn p e ord l = Some (bl, l')" and "bufs_ok p"
  shows "bl = refs p @ map (Pair ord) [0..<nat (be_buf_count e)]"
    and "l' + list_res K_BUFLIST (dma_buflist p) = add_mset (R_mem K_BUFLIST) l"
proof -
  have cnt: "dma_buf_count p = int (length (refs p))" "dma_buflist p = None \<longleftrightarrow> dma_buf_count p = 0"
    using assms(2) unfolding bufs_ok_def by blast+
  obtain l1 where l1: "drm_new kn K_BUFLIST l = Some l1"
    using assms(1) by (cases "drm_new kn K_BUFLIST l") (simp_all add: grow_buflist_def)
  have "bl = refs p @ map (Pair ord) [0..<nat (be_buf_count e)] \<and>
      l' + list_res K_BUFLIST (dma_buflist p) = add_mset (R_mem K_BUFLIST) l"
  proof (cases "dma_buflist p")
    case None
    then show ?thesis
      using assms(1) l1 drm_new_Some[OF l1] by (simp add: grow_buflist_def refs_def Let_def)
  next
    case (Some old)
    then have "take (nat (dma_buf_count p)) old = old" "dma_buf_count p \<noteq> 0"
      using cnt by (simp_all add: refs_def)
    then show ?thesis
      using Some assms(1) l1 drm_new_Some[OF l1] by (simp add: grow_buflist_def refs_def Let_def)
  qed
  then show "bl = refs p @ map (Pair ord) [0..<nat (be_buf_count e)]"
    "l' + list_res K_BUFLIST (dma_buflist p) = add_mset (R_mem K_BUFLIST) l"
    by blast+
qed

section \<open>Requests\<close>

text \<open>What a request to add buffers leaves behind.\<close>

definition addbufs_post ::
  "drm_device_dma \<Rightarrow> nat \<Rightarrow> dma_live \<Rightarrow> errno \<Rightarrow> nat \<Rightarrow> drm_device_dma \<Rightarrow> dma_live \<Rightarrow> bool" where
  "addbufs_post p ord X r n p' l' \<longleftrightarrow>
     bufs_ok p' \<and> l' = X + dma_res_of (Some p') \<and> dma_lock p' = dma_lock p \<and> dma_buf_use p' = dma_buf_use p \<and>
     (if r = E_OK then \<exists>e. added p ord n e p' else \<exists>e. be_buf_count e = 0 \<and> p' = set_entry ord e p)"

lemma addbufs_failed:
  assumes "bufs_ok p" "ord \<le> DRM_MAX_ORDER" "be_buf_count (dma_bufs p ! ord) = 0"
    and "be_buf_count e = 0" "be_seg_count e = 0" and "l = X + dma_res_of (Some p)" and "r \<noteq> E_OK"
  shows "addbufs_post p ord X r n (set_entry ord e p) l"
proof -
  have "bufs_ok (set_entry ord e p)" "dma_res_of (Some (set_entry ord e p)) = dma_res_of (Some p)"
    using failed_bufs_ok[OF assms(1-5)] failed_res[OF assms(1-5)] by simp_all
  then show ?thesis
    using assms(4,6,7) by (auto simp: addbufs_post_def) (simp_all add: set_entry_def)
qed

lemma addbufs_range_post:
  assumes ok: "bufs_ok p" and ord: "ord \<le> DRM_MAX_ORDER" "be_buf_count (dma_bufs p ! ord) = 0"
    and rq: "ord = drm_order (word_of_int (rq_bsize rq))" "0 \<le> rq_count rq"
    and mem: "dma_mem d = X + dma_res_of (Some p)"
  shows "\<exists>r rq' p' l'. addbufs_range kn agp_offset use rq p d = Ret (r, rq', d\<lparr>dma := Some p', dma_mem := l'\<rparr>) \<and>
           addbufs_post p ord X r (nat (rq_count rq)) p' l'"
proof -
  let ?n = "nat (rq_count rq)"
  let ?e0 = "dma_bufs p ! ord"
  have wf0: "entry_wf ?e0"
    by (rule bufs_ok_entry[OF ok ord(1)])
  have seg0: "be_seg_count ?e0 = 0"
    using wf0 ord(2) by (simp add: entry_wf_def)
  note failed = addbufs_failed[OF ok ord]
  show ?thesis
  proof (cases "drm_new_array kn K_BUFS ?n (dma_mem d)")
    case None
    then show ?thesis
      using failed[of "?e0\<lparr>be_buflist := []\<rparr>" "dma_mem d" X ENOMEM ?n] ord seg0 mem rq
      by (auto simp: addbufs_range_def Let_def)
  next
    case (Some l)
    have n: "0 < ?n" and l: "l = add_mset (R_mem K_BUFS) (dma_mem d)"
      using Some drm_new_Some by (auto simp: drm_new_array_def split: if_splits)
    let ?e = "?e0\<lparr>be_buflist := replicate ?n zero_buf, be_buf_size := 2 ^ ord, be_page_order := page_order_of ord\<rparr>"
    have room: "room ?e ?n"
      using ord(2) by (simp add: room_def zero_buf_def)
    obtain b e bc l1 where fill:
      "fill_bufs kn p agp_offset (buf_align (rq_bflags rq) ord) ?n ?e 0 0 l = (b, e, bc, l1)"
      by (metis prod_cases4)
    have e: "be_seg_count e = 0" "length (be_buflist e) = ?n" "b \<longrightarrow> filled p ?e ?n e"
      and l1: "l1 = l + priv_res (be_buflist e)"
      using fill_bufs_spec[OF fill room] seg0 by (simp_all add: priv_res_def zero_buf_def)
    have full: "entry_wf (e\<lparr>be_buf_count := rq_count rq\<rparr>)"
      "entry_res (e\<lparr>be_buf_count := rq_count rq\<rparr>) = add_mset (R_mem K_BUFS) (priv_res (be_buflist e))"
      using e n rq(2) by (simp_all add: entry_wf_def entry_res_def)
    have undo: "l1 - entry_res (e\<lparr>be_buf_count := rq_count rq\<rparr>) = dma_mem d"
      by (simp add: full(2) l1 l)
    show ?thesis
    proof (cases b)
      case False
      have "addbufs_range kn agp_offset use rq p d =
          Ret (ENOMEM, rq, d\<lparr>dma := Some (set_entry ord (e\<lparr>be_seg_count := 0, be_buf_count := 0\<rparr>) p), dma_mem := dma_mem d\<rparr>)"
        using Some fill False ord(2) cleanup_entry[OF full(1)] undo
        by (simp add: addbufs_range_def Let_def flip: rq(1))
      then show ?thesis
        using failed[of "e\<lparr>be_seg_count := 0, be_buf_count := 0\<rparr>" "dma_mem d" X ENOMEM ?n] mem by auto
    next
      case True
      then have cnt: "be_buf_count e = rq_count rq"
        using e(3) ord(2) rq(2) by (simp add: filled_def)
      then have same: "e\<lparr>be_buf_count := rq_count rq\<rparr> = e"
        by (cases e) simp
      show ?thesis
      proof (cases "grow_buflist kn p e ord l1")
        case None
        have "addbufs_range kn agp_offset use rq p d =
            Ret (ENOMEM, rq, d\<lparr>dma := Some (set_entry ord (e\<lparr>be_seg_count := 0, be_buf_count := 0\<rparr>) p), dma_mem := dma_mem d\<rparr>)"
          using Some fill True None ord(2) cleanup_entry[OF full(1)] undo same
          by (simp add: addbufs_range_def Let_def flip: rq(1))
        then show ?thesis
          using failed[of "e\<lparr>be_seg_count := 0, be_buf_count := 0\<rparr>" "dma_mem d" X ENOMEM ?n] mem by auto
      next
        case grow: (Some bl_l)
        obtain bl l2 where bl: "bl_l = (bl, l2)" by fastforce
        let ?p = "(set_entry ord e p)\<lparr>dma_buflist := Some bl, dma_buf_count := dma_buf_count p + be_buf_count e,
            dma_byte_count := dma_byte_count p + scast bc, dma_flags := use\<rparr>"
        note gs = grow_buflist_spec[OF grow[unfolded bl] ok]
        have run: "addbufs_range kn agp_offset use rq p d =
            Ret (E_OK, rq\<lparr>rq_count := be_buf_count e, rq_bsize := 2 ^ ord\<rparr>, d\<lparr>dma := Some ?p, dma_mem := l2\<rparr>)"
          using Some fill True grow bl ord(2) by (simp add: addbufs_range_def Let_def flip: rq(1))
        have wf: "entry_wf e"
          using full(1) same by simp
        have good: "\<forall>i<?n. good_buf p i (be_buflist e ! i)"
          using e(3) True ord(2) by (simp add: filled_def)
        have add: "added p ord ?n e ?p"
          using n gs(1) cnt rq(2) wf good ok by (simp add: added_def) (simp add: set_entry_def bufs_ok_def)
        have lim: "ord < length (dma_bufs p)"
          using ok ord(1) by (simp add: bufs_ok_def)
        have "l2 + list_res K_BUFLIST (dma_buflist p) = X + dma_res_of (Some ?p) + list_res K_BUFLIST (dma_buflist p)"
          using dma_res_added[OF lim entry_res_zero[OF wf0 ord(2)], of ?p e] gs(2) l1 l full(2) same mem
          by (simp add: set_entry_def ac_simps)
        then have "addbufs_post p ord X E_OK ?n ?p l2"
          using add added_bufs_ok[OF ok ord add] by (auto simp: addbufs_post_def) (simp_all add: set_entry_def)
        then show ?thesis
          using run by blast
      qed
    qed
  qed
qed

section \<open>Buffers in DMA memory\<close>

lemma buf_total_nat: "2 ^ ord \<le> buf_total (page_order_of ord)"
proof (cases "ord \<le> 12")
  case True
  then have "(2 :: nat) ^ ord \<le> 2 ^ 12"
    by (rule power_increasing) simp
  then show ?thesis
    using True by (simp add: buf_total_def page_order_of_def PAGE_SHIFT_def PAGE_SIZE_def)
next
  case False
  then obtain k where "ord = k + 12"
    by (metis le_add_diff_inverse2 nat_le_linear)
  then show ?thesis
    by (simp add: buf_total_def page_order_of_def PAGE_SHIFT_def PAGE_SIZE_def power_add)
qed

lemma buf_total_le:
  assumes "ord \<le> DRM_MAX_ORDER"
  shows "buf_total (page_order_of ord) \<le> 2 ^ 22"
proof -
  have "(2 :: nat) ^ (ord - 12) \<le> 2 ^ 10"
    using assms by (intro power_increasing) (simp_all add: DRM_MAX_ORDER_def)
  then show ?thesis
    by (simp add: buf_total_def page_order_of_def PAGE_SHIFT_def PAGE_SIZE_def)
qed

lemma unat_buf_total: "ord \<le> DRM_MAX_ORDER \<Longrightarrow> unat (of_nat (buf_total (page_order_of ord)) :: u64) = buf_total (page_order_of ord)"
  using buf_total_le[of ord] by (simp add: unat_of_nat)

lemma unat_pow_order: "ord \<le> DRM_MAX_ORDER \<Longrightarrow> unat ((2 :: u64) ^ ord) = 2 ^ ord"
proof -
  assume "ord \<le> DRM_MAX_ORDER"
  then have "(2 :: nat) ^ ord < 2 ^ 64"
    by (intro power_strict_increasing) (simp_all add: DRM_MAX_ORDER_def)
  moreover have "unat (of_nat (2 ^ ord) :: u64) = 2 ^ ord mod 2 ^ LENGTH(64)"
    by (rule unat_of_nat)
  ultimately show ?thesis
    by simp
qed

lemma first_fits: "ord \<le> DRM_MAX_ORDER \<Longrightarrow> \<not> (2 :: u64) ^ ord > of_nat (buf_total (page_order_of ord))"
  using buf_total_nat[of ord] by (simp add: word_less_nat_alt unat_buf_total unat_pow_order not_less)

lemma filled_room: "filled p e j e' \<Longrightarrow> room e n \<Longrightarrow> j \<le> n \<Longrightarrow>
    \<forall>i. nat (be_buf_count e) + j \<le> i \<longrightarrow> i < length (be_buflist e) \<longrightarrow> \<not> b_dev_private (be_buflist e' ! i) \<Longrightarrow> room e' (n - j)"
  by (auto simp: filled_def room_def nat_add_distrib)

lemma fill_seg_spec:
  assumes "fill_seg kn p mem sz al bc n off e l = (ok, e', l')" and "room e n"
  shows "\<exists>j\<le>n. be_seglist e' = be_seglist e \<and> be_seg_count e' = be_seg_count e \<and>
    length (be_buflist e') = length (be_buflist e) \<and>
    l' + priv_res (be_buflist e) = l + priv_res (be_buflist e') \<and>
    (ok \<longrightarrow> filled p e j e' \<and> room e' (n - j)) \<and>
    (ok \<longrightarrow> 0 < n \<longrightarrow> \<not> off + sz > of_nat (buf_total (be_page_order e)) \<longrightarrow> 0 < j)"
  using assms
proof (induction n arbitrary: e off l)
  case (Suc n)
  let ?b = "(init_buf p e al (scast bc + off) (dm_segs0 mem + off))\<lparr>b_address := dm_kva mem + off\<rparr>"
  have fresh: "\<not> b_dev_private ?b"
    using room_fresh[OF Suc.prems(2)] by simp
  have pos: "0 \<le> be_buf_count e"
    using Suc.prems(2) by (simp add: room_def)
  show ?case
  proof (cases "off + sz > of_nat (buf_total (be_page_order e))")
    case True
    then show ?thesis
      using Suc.prems by (intro exI[of _ 0]) simp
  next
    case fits: False
    show ?thesis
    proof (cases "drm_new kn K_BUFPRIV l")
      case None
      then show ?thesis
        using Suc.prems fresh fits priv_res_room(2)[OF Suc.prems(2), of ?b] by (auto simp: Let_def)
    next
      case (Some l1)
      let ?e = "one_more (?b\<lparr>b_dev_private := True\<rparr>) e"
      have rest: "fill_seg kn p mem sz al bc n (off + al) ?e l1 = (ok, e', l')"
        using Suc.prems(1) Some fits by (simp add: Let_def one_more_def)
      have one: "filled p e 1 ?e"
        by (rule one_more_filled[OF Suc.prems(2)]) (simp add: good_buf_def pos)
      obtain j where j: "j \<le> n" "be_seglist e' = be_seglist ?e" "be_seg_count e' = be_seg_count ?e"
        "length (be_buflist e') = length (be_buflist ?e)"
        "l' + priv_res (be_buflist ?e) = l1 + priv_res (be_buflist e')"
        "ok \<longrightarrow> filled p ?e j e' \<and> room e' (n - j)"
        using Suc.IH[OF rest one_more_room[OF Suc.prems(2)]] by blast
      have "l' + priv_res (be_buflist e) = l + priv_res (be_buflist e')"
        using j(5) priv_res_room(1)[OF Suc.prems(2), of "?b\<lparr>b_dev_private := True\<rparr>"] drm_new_Some[OF Some]
        by (simp add: add_mset_commute)
      moreover have "filled p e (Suc j) e'" if ok
        using filled_trans[OF one _ pos] j(6) that by simp
      ultimately show ?thesis
        using j by (intro exI[of _ "Suc j"]) simp
    qed
  qed
qed (auto intro: exI[of _ 0])

text \<open>An entry with room for \<open>n\<close> more segments.\<close>

definition seg_room :: "drm_buf_entry \<Rightarrow> nat \<Rightarrow> bool" where
  "seg_room e n \<longleftrightarrow>
     0 \<le> be_seg_count e \<and> length (be_seglist e) \<ge> nat (be_seg_count e) + n \<and>
     (\<forall>x\<in>set (drop (nat (be_seg_count e)) (be_seglist e)). x = None)"

lemma seg_mem_res_update:
  "i < length xs \<Longrightarrow> xs ! i = None \<Longrightarrow> seg_mem_res (xs[i := Some mem]) = seg_mem_res xs + footprint mem"
  using sum_mset_update[of i xs "\<lambda>so. case so of None \<Rightarrow> {#} | Some mem \<Rightarrow> footprint mem" "Some mem"]
  by (simp add: seg_mem_res_def)

lemma seg_room_step:
  assumes "seg_room e (Suc n)"
  shows "seg_room (e\<lparr>be_seglist := (be_seglist e)[nat (be_seg_count e) := Some mem], be_seg_count := be_seg_count e + 1\<rparr>) n"
    and "seg_mem_res ((be_seglist e)[nat (be_seg_count e) := Some mem]) = seg_mem_res (be_seglist e) + footprint mem"
proof -
  let ?k = "nat (be_seg_count e)"
  have k: "?k < length (be_seglist e)" "nat (be_seg_count e + 1) = Suc ?k" and none: "\<forall>x\<in>set (drop ?k (be_seglist e)). x = None"
    using assms by (auto simp: seg_room_def)
  have "be_seglist e ! ?k \<in> set (drop ?k (be_seglist e))"
    using k(1) by (metis Cons_nth_drop_Suc list.set_intros(1))
  then show "seg_mem_res ((be_seglist e)[?k := Some mem]) = seg_mem_res (be_seglist e) + footprint mem"
    using seg_mem_res_update[OF k(1)] none by simp
  have "set (drop (Suc ?k) (be_seglist e)) \<subseteq> set (drop ?k (be_seglist e))"
    by (simp add: set_drop_subset_set_drop)
  then show "seg_room (e\<lparr>be_seglist := (be_seglist e)[?k := Some mem], be_seg_count := be_seg_count e + 1\<rparr>) n"
    using assms k none by (auto simp: seg_room_def)
qed

lemma put_pages_length [simp]: "length (put_pages tp start kva n) = length tp"
  by (induction n) (simp_all add: put_pages_def)

definition seg_step :: "drm_buf_entry \<Rightarrow> drm_dmamem \<Rightarrow> drm_buf_entry" where
  "seg_step e mem =
     e\<lparr>be_seglist := (be_seglist e)[nat (be_seg_count e) := Some mem], be_seg_count := be_seg_count e + 1\<rparr>"

lemma seg_step_sel [simp]:
  "be_buf_count (seg_step e mem) = be_buf_count e" "be_buflist (seg_step e mem) = be_buflist e"
  "be_page_order (seg_step e mem) = be_page_order e" "be_seg_count (seg_step e mem) = be_seg_count e + 1"
  "length (be_seglist (seg_step e mem)) = length (be_seglist e)" "room (seg_step e mem) n = room e n"
  "filled p (seg_step e mem) n e' = filled p e n e'"
  by (simp_all add: seg_step_def room_def filled_def)

abbreviation both_res :: "drm_buf_entry \<Rightarrow> dma_live" where
  "both_res e \<equiv> priv_res (be_buflist e) + seg_mem_res (be_seglist e)"

lemma acct_trans:
  fixes l :: "'b multiset"
  assumes "l1 + x = l + x1" and "l2 + x1 = l1 + x2"
  shows "l2 + x = l + x2"
proof -
  have "l2 + x + x1 = l + x2 + x1"
    using assms by (metis add.assoc add.commute)
  then show ?thesis by simp
qed

lemma fill_segs_spec:
  assumes "room e n" "n = nat (cnt - be_buf_count e)" "n \<le> turns" "seg_room e n"
    and "be_page_order e = page_order_of ord" "ord \<le> DRM_MAX_ORDER"
  shows "\<exists>ok e' tp' l'. fill_segs kn p ord al cnt turns e tp pc bc l = Some (ok, e', tp', l') \<and>
    length tp' = length tp \<and> length (be_buflist e') = length (be_buflist e) \<and>
    length (be_seglist e') = length (be_seglist e) \<and> seg_room e' 0 \<and>
    be_seg_count e \<le> be_seg_count e' \<and> be_seg_count e' \<le> be_seg_count e + int n \<and>
    l' + both_res e = l + both_res e' \<and> (ok \<longrightarrow> filled p e n e') \<and>
    (ok \<longrightarrow> 0 < n \<longrightarrow> be_seg_count e < be_seg_count e')"
  using assms
proof (induction turns arbitrary: e n tp pc bc l)
  case 0
  then show ?case by (auto simp: seg_room_def)
next
  case (Suc turns)
  show ?case
  proof (cases "be_buf_count e < cnt")
    case False
    then show ?thesis
      using Suc.prems by (auto simp: seg_room_def)
  next
    case True
    then have "0 < n"
      using Suc.prems(2) by simp
    then obtain n' where n: "n = Suc n'"
      by (cases n) auto
    have pos: "0 \<le> be_buf_count e"
      using Suc.prems(1) by (simp add: room_def)
    show ?thesis
    proof (cases "fst (drm_dmamem_alloc (bus_dma.truncate kn) (2 ^ ord) al 1 (2 ^ ord) l)")
      case None
      then obtain l1 where l1: "drm_dmamem_alloc (bus_dma.truncate kn) (2 ^ ord) al 1 (2 ^ ord) l = (None, l1)"
        by (metis prod.collapse)
      then have "l1 = l"
        by (rule drm_dmamem_alloc_None)
      then show ?thesis
        using l1 True Suc.prems by (auto simp: seg_room_def)
    next
      case (Some mem)
      then obtain l1 where mem: "drm_dmamem_alloc (bus_dma.truncate kn) (2 ^ ord) al 1 (2 ^ ord) l = (Some mem, l1)"
        by (metis prod.collapse)
      have l1: "l1 = l + footprint mem"
        using drm_dmamem_alloc_Some[OF mem] by simp
      let ?e = "seg_step e mem"
      let ?tp = "put_pages tp (nat (dma_page_count p) + pc) (dm_kva mem) (2 ^ be_page_order e)"
      have sr: "seg_room ?e n'" and sm: "seg_mem_res (be_seglist ?e) = seg_mem_res (be_seglist e) + footprint mem"
        using seg_room_step[of e n' mem] Suc.prems(4) by (simp_all add: seg_step_def n)
      obtain b e1 l2 where fs: "fill_seg kn p mem (2 ^ ord) al bc n 0 ?e l1 = (b, e1, l2)"
        by (metis prod_cases3)
      have room': "room ?e n"
        using Suc.prems(1) by simp
      obtain j where j: "j \<le> n" "be_seglist e1 = be_seglist ?e" "be_seg_count e1 = be_seg_count ?e"
        "length (be_buflist e1) = length (be_buflist ?e)"
        "l2 + priv_res (be_buflist ?e) = l1 + priv_res (be_buflist e1)"
        "b \<longrightarrow> filled p ?e j e1 \<and> room e1 (n - j)" "b \<longrightarrow> 0 < j"
        using fill_seg_spec[OF fs room'] first_fits[OF Suc.prems(6)] Suc.prems(5) n by auto
      have acct: "l2 + both_res e = l + both_res e1"
        using j(5) sm by (simp add: l1 j(2) ac_simps)
      have sr1: "seg_room e1 n'"
        using sr j(2,3) by (simp add: seg_room_def)
      show ?thesis
      proof (cases b)
        case False
        then show ?thesis
          using mem fs True Suc.prems(2) j acct sr1 n
          by (auto simp: seg_step_def seg_room_def Let_def)
      next
        case b: True
        have f1: "filled p e j e1" "room e1 (n - j)" "0 < j"
          using j(6,7) b by simp_all
        have cnt1: "n - j = nat (cnt - be_buf_count e1)"
          using f1(1) Suc.prems(2) by (simp add: filled_def)
        have po: "be_page_order e1 = page_order_of ord"
          using f1(1) Suc.prems(5) by (simp add: filled_def)
        have sr2: "seg_room e1 (n - j)"
          using sr1 f1(3) n by (auto simp: seg_room_def)
        have turns': "n - j \<le> turns"
          using Suc.prems(3) f1(3) by simp
        obtain ok e' tp' l' where ih:
          "fill_segs kn p ord al cnt turns e1 ?tp (pc + 2 ^ be_page_order e1)
             (bc + of_nat (buf_total (be_page_order e1))) l2 = Some (ok, e', tp', l')"
          "length tp' = length ?tp" "length (be_buflist e') = length (be_buflist e1)"
          "length (be_seglist e') = length (be_seglist e1)" "seg_room e' 0"
          "be_seg_count e1 \<le> be_seg_count e'" "be_seg_count e' \<le> be_seg_count e1 + int (n - j)"
          "l' + both_res e1 = l2 + both_res e'" "ok \<longrightarrow> filled p e1 (n - j) e'"
          using Suc.IH[OF f1(2) cnt1 turns' sr2 po Suc.prems(6)] by blast
        have run: "fill_segs kn p ord al cnt (Suc turns) e tp pc bc l = Some (ok, e', tp', l')"
          using ih(1) mem fs b True Suc.prems(2) f1(1) by (simp add: seg_step_def Let_def filled_def)
        have "l' + both_res e = l + both_res e'"
          by (rule acct_trans[OF acct ih(8)])
        moreover have "filled p e n e'" if ok
          using filled_trans[OF f1(1) _ pos] ih(9) that j(1) by fastforce
        ultimately show ?thesis
          using run ih j f1(3) by (intro exI[of _ ok] exI[of _ e'] exI[of _ tp'] exI[of _ l']) auto
      qed
    qed
  qed
qed

lemma pci_arrays_spec:
  "pci_arrays kn n pages l = Inl l' \<Longrightarrow> l' = l"
  "pci_arrays kn n pages l = Inr l' \<Longrightarrow>
     l' = add_mset (R_mem K_PAGELIST) (add_mset (R_mem K_SEGLIST) (add_mset (R_mem K_BUFS) l)) \<and> 0 < n"
  by (auto simp: pci_arrays_def Let_def drm_new_array_def drm_new_def drm_free_opt_def drm_free_def
      split: if_splits)

lemma addbufs_pci_post:
  assumes ok: "bufs_ok p" and ord: "ord \<le> DRM_MAX_ORDER" "be_buf_count (dma_bufs p ! ord) = 0"
    and rq: "ord = drm_order (word_of_int (rq_bsize rq))" "0 \<le> rq_count rq"
    and mem: "dma_mem d = X + dma_res_of (Some p)"
  shows "\<exists>r rq' p' l'. drm_addbufs_pci kn rq p d = Ret (r, rq', d\<lparr>dma := Some p', dma_mem := l'\<rparr>) \<and>
           addbufs_post p ord X r (nat (rq_count rq)) p' l'"
proof -
  let ?n = "nat (rq_count rq)"
  let ?e0 = "dma_bufs p ! ord"
  let ?pages = "nat (dma_page_count p) + ?n * 2 ^ page_order_of ord"
  have wf0: "entry_wf ?e0"
    by (rule bufs_ok_entry[OF ok ord(1)])
  have seg0: "be_seg_count ?e0 = 0"
    using wf0 ord(2) by (simp add: entry_wf_def)
  note failed = addbufs_failed[OF ok ord]
  have lim: "ord < length (dma_bufs p)"
    using ok ord(1) by (simp add: bufs_ok_def)
  show ?thesis
  proof (cases "pci_arrays kn ?n ?pages (dma_mem d)")
    case (Inl l)
    then show ?thesis
      using failed[of "?e0\<lparr>be_buflist := [], be_seglist := []\<rparr>" l X ENOMEM ?n] ord seg0 mem rq pci_arrays_spec(1)[OF Inl]
      by (auto simp: drm_addbufs_pci_def Let_def)
  next
    case (Inr l)
    have n: "0 < ?n"
      and l: "l = add_mset (R_mem K_PAGELIST) (add_mset (R_mem K_SEGLIST) (add_mset (R_mem K_BUFS) (dma_mem d)))"
      using pci_arrays_spec(2)[OF Inr] by simp_all
    let ?e = "?e0\<lparr>be_buflist := replicate ?n zero_buf, be_seglist := replicate ?n None,
        be_buf_size := 2 ^ ord, be_page_order := page_order_of ord\<rparr>"
    let ?tp = "take (nat (dma_page_count p)) (case dma_pagelist p of None \<Rightarrow> [] | Some pl \<Rightarrow> pl)
        @ replicate (?n * 2 ^ page_order_of ord) 0"
    have room: "room ?e ?n" "seg_room ?e ?n"
      using ord(2) seg0 by (simp_all add: room_def seg_room_def zero_buf_def)
    have tp_len: "length ?tp = ?pages"
      using ok by (auto simp: bufs_ok_def min_def split: option.splits)
    obtain b e tp l1 where fill:
      "fill_segs kn p ord (buf_align (rq_bflags rq) ord) (rq_count rq) ?n ?e ?tp 0 0 l = Some (b, e, tp, l1)"
      and tp: "length tp = ?pages" and e: "length (be_buflist e) = ?n" "length (be_seglist e) = ?n" "seg_room e 0"
      "0 \<le> be_seg_count e" "be_seg_count e \<le> int ?n" "b \<longrightarrow> filled p ?e ?n e"
      and some_seg: "b \<longrightarrow> 0 < be_seg_count e" and acct: "l1 + both_res ?e = l + both_res e"
      using fill_segs_spec[OF room(1) _ _ room(2), of "rq_count rq" ?n ord kn p "buf_align (rq_bflags rq) ord" ?tp 0 0 l]
        ord seg0 tp_len n by auto
    have l1: "l1 = l + both_res e"
      using acct by (simp add: priv_res_def zero_buf_def seg_mem_res_none)
    let ?full = "e\<lparr>be_buf_count := rq_count rq, be_seg_count := rq_count rq\<rparr>"
    have full: "entry_wf ?full" "drm_free K_PAGELIST (l1 - entry_res ?full) = dma_mem d"
      using e n rq(2) by (simp_all add: entry_wf_def entry_res_def drm_free_def l1 l)
    show ?thesis
    proof (cases b)
      case False
      have "drm_addbufs_pci kn rq p d =
          Ret (ENOMEM, rq, d\<lparr>dma := Some (set_entry ord (?full\<lparr>be_seg_count := 0, be_buf_count := 0\<rparr>) p), dma_mem := dma_mem d\<rparr>)"
        using Inr fill False cleanup_entry[OF full(1)] full(2)
        by (simp add: drm_addbufs_pci_def Let_def flip: rq(1))
      then show ?thesis
        using failed[of "?full\<lparr>be_seg_count := 0, be_buf_count := 0\<rparr>" "dma_mem d" X ENOMEM ?n] mem by fastforce
    next
      case True
      have cnt: "be_buf_count e = rq_count rq"
        using e(6) True ord(2) rq(2) by (simp add: filled_def)
      have wf: "entry_wf e"
        using e cnt n rq(2) by (auto simp: entry_wf_def seg_room_def)
      have res: "entry_res e = add_mset (R_mem K_SEGLIST) (add_mset (R_mem K_BUFS) (both_res e))"
        using cnt n some_seg True by (simp add: entry_res_def)
      show ?thesis
      proof (cases "grow_buflist kn p e ord l1")
        case None
        have "drm_addbufs_pci kn rq p d =
            Ret (ENOMEM, rq, d\<lparr>dma := Some (set_entry ord (e\<lparr>be_seg_count := 0, be_buf_count := 0\<rparr>) p), dma_mem := dma_mem d\<rparr>)"
          using Inr fill True None cleanup_entry[OF wf] res
          by (simp add: drm_addbufs_pci_def Let_def drm_free_def l1 l flip: rq(1))
        then show ?thesis
          using failed[of "e\<lparr>be_seg_count := 0, be_buf_count := 0\<rparr>" "dma_mem d" X ENOMEM ?n] mem by fastforce
      next
        case grow: (Some bl_l)
        obtain bl l2 where bl: "bl_l = (bl, l2)" by fastforce
        let ?p = "(set_entry ord e p)\<lparr>dma_buflist := Some bl, dma_pagelist := Some tp,
            dma_buf_count := dma_buf_count p + be_buf_count e, dma_seg_count := dma_seg_count p + be_seg_count e,
            dma_page_count := dma_page_count p + be_seg_count e * 2 ^ page_order_of ord,
            dma_byte_count := dma_byte_count p +
              scast (word_of_int (int PAGE_SIZE * (be_seg_count e * 2 ^ page_order_of ord)) :: u32)\<rparr>"
        let ?l = "drm_free_opt K_PAGELIST (dma_pagelist p) l2"
        note gs = grow_buflist_spec[OF grow[unfolded bl] ok]
        have run: "drm_addbufs_pci kn rq p d =
            Ret (E_OK, rq\<lparr>rq_count := be_buf_count e, rq_bsize := 2 ^ ord\<rparr>, d\<lparr>dma := Some ?p, dma_mem := ?l\<rparr>)"
          using Inr fill True grow bl by (simp add: drm_addbufs_pci_def Let_def flip: rq(1))
        have good: "\<forall>i<?n. good_buf p i (be_buflist e ! i)"
          using e(6) True ord(2) by (simp add: filled_def)
        have pages: "0 \<le> dma_page_count p" "be_seg_count e * 2 ^ page_order_of ord \<le> int ?n * 2 ^ page_order_of ord"
          using ok e(5) by (simp_all add: bufs_ok_def mult_right_mono)
        have add: "added p ord ?n e ?p"
          using n gs(1) cnt rq(2) wf good pages e(4) tp by (simp add: added_def) (simp add: set_entry_def)
        have "R_mem K_PAGELIST \<in># l2 + list_res K_BUFLIST (dma_buflist p)"
          unfolding gs(2) by (simp add: l1 l)
        then have "R_mem K_PAGELIST \<in># l2"
          by (auto split: if_splits)
        then have "?l + list_res K_PAGELIST (dma_pagelist p) = l2"
          by (auto simp: drm_free_opt_def drm_free_def split: option.split)
        then have "?l + list_res K_BUFLIST (dma_buflist p) + list_res K_PAGELIST (dma_pagelist p) =
            l2 + list_res K_BUFLIST (dma_buflist p)"
          by (simp add: ac_simps)
        also have "\<dots> = X + (dma_res_of (Some p) + entry_res e + {#R_mem K_BUFLIST#} + {#R_mem K_PAGELIST#})"
          unfolding gs(2) by (simp add: l1 l res mem)
        also have "\<dots> = X + dma_res_of (Some ?p) + list_res K_BUFLIST (dma_buflist p) + list_res K_PAGELIST (dma_pagelist p)"
          using dma_res_added[OF lim entry_res_zero[OF wf0 ord(2)], of ?p e] by (simp add: set_entry_def ac_simps)
        finally have "?l = X + dma_res_of (Some ?p)"
          by (simp only: add_right_cancel)
        then have "addbufs_post p ord X E_OK ?n ?p ?l"
          using add added_bufs_ok[OF ok ord add] by (auto simp: addbufs_post_def) (simp_all add: set_entry_def)
        then show ?thesis
          using run by blast
      qed
    qed
  qed
qed

end
