(* ===== verification/Bufs_Claims.thy ===== *)
theory Bufs_Claims
  imports Bufs_Inv Maps_Claims
begin

text \<open>
  What holds of the DMA buffers in every state that requests lead to: orders, consistent lists and
  exact memory.
\<close>

section \<open>Sizes\<close>

text \<open>
  C26: \<^verbatim>\<open>drm_order\<close> is the binary logarithm rounded up for every size of up to 32 bits, and lies
  beyond the largest order for every other one (a negative \<^verbatim>\<open>int\<close> size becomes one of these).
\<close>

theorem drm_order_ceillog2:
  "if unat sz < 2 ^ 32 then drm_order sz = ceillog2 (unat sz) else DRM_MAX_ORDER < drm_order sz"
proof (cases "unat sz < 2 ^ 32")
  case True
  then show ?thesis
    using drm_order_ceil[of sz] by simp
next
  case False
  have "32 \<le> drm_order sz"
    by (rule drm_order_large[OF False])
  then show ?thesis
    using False by (simp add: DRM_MAX_ORDER_def)
qed

section \<open>Requests\<close>

text \<open>
  \<open>X\<close> is what the device has allocated besides. A driver may hand out buffers and take them back.
\<close>

definition dev_bufs :: "dma_live \<Rightarrow> 'a bus_dev_scheme \<Rightarrow> bool" where
  "dev_bufs X d \<longleftrightarrow>
     (\<exists>p. dma d = Some p \<and> bufs_ok p \<and> \<not> dma_lock p \<and> dma_mem d = X + dma_res_of (Some p))"

definition hand_out :: "int option \<Rightarrow> int \<Rightarrow> int \<Rightarrow> drm_buf \<Rightarrow> drm_buf" where
  "hand_out mo used pend b = b\<lparr>b_file_priv := mo, b_used := used, b_pending := pend\<rparr>"

inductive bufs_req :: "kern \<Rightarrow> 'a bus_dev_scheme \<Rightarrow> 'a bus_dev_scheme \<Rightarrow> bool" for kn where
  br_add: "drm_addbufs kn rq d = Ret (r, rq', d') \<Longrightarrow> bufs_req kn d d'"
| br_free: "drm_freebufs xs mi d = Ret (r, d') \<Longrightarrow> bufs_req kn d d'"
| br_map: "drm_mapbufs fl found mm co n d = Ret (r, reply, d') \<Longrightarrow> bufs_req kn d d'"
| br_reclaim: "bufs_req kn d (drm_reclaim_buffers mi d)"
| br_driver: "dma d = Some p \<Longrightarrow> i < nat (dma_buf_count p) \<Longrightarrow>
    bufs_req kn d (d\<lparr>dma := Some (upd_buf (buf_ref p i) (hand_out mo used pend) p)\<rparr>)"

lemma bufs_ok_frame [simp]:
  "bufs_ok (p\<lparr>dma_lock := b\<rparr>) = bufs_ok p" "bufs_ok (p\<lparr>dma_buf_use := n\<rparr>) = bufs_ok p"
  by (simp_all add: bufs_ok_def refs_def the_buf_def)

lemma dma_res_frame [simp]:
  "dma_res_of (Some (p\<lparr>dma_lock := b\<rparr>)) = dma_res_of (Some p)"
  "dma_res_of (Some (p\<lparr>dma_buf_use := n\<rparr>)) = dma_res_of (Some p)"
  by (simp_all add: dma_res_of_def)

text \<open>A write that keeps a buffer's place and private part.\<close>

definition keeps_buf :: "(drm_buf \<Rightarrow> drm_buf) \<Rightarrow> bool" where
  "keeps_buf f \<longleftrightarrow> (\<forall>b. b_idx (f b) = b_idx b \<and> b_dev_private (f b) = b_dev_private b \<and>
     b_offset (f b) = b_offset b \<and> b_total (f b) = b_total b)"

lemma keeps_buf_simps [simp]: "keeps_buf drm_free_buffer" "keeps_buf (hand_out mo used pend)"
  by (simp_all add: keeps_buf_def drm_free_buffer_def hand_out_def)

lemma ref_valid:
  assumes "bufs_ok p" "r \<in> set (refs p)"
  shows "fst r < length (dma_bufs p)" "snd r < length (be_buflist (dma_bufs p ! fst r))"
proof -
  have r: "fst r \<le> DRM_MAX_ORDER" "int (snd r) < be_buf_count (dma_bufs p ! fst r)"
    using assms by (auto simp: bufs_ok_def)
  then have "length (be_buflist (dma_bufs p ! fst r)) = nat (be_buf_count (dma_bufs p ! fst r))"
    using bufs_ok_entry[OF assms(1) r(1)] by (simp add: entry_wf_def)
  then show "snd r < length (be_buflist (dma_bufs p ! fst r))" using r(2) by simp
  show "fst r < length (dma_bufs p)" using r(1) assms(1) by (simp add: bufs_ok_def)
qed

lemma upd_buf_the:
  assumes "bufs_ok p" "r \<in> set (refs p)" "s \<in> set (refs p)"
  shows "the_buf (upd_buf r f p) s = (if s = r then f (the_buf p r) else the_buf p s)"
  using ref_valid[OF assms(1,2)] by (cases r; cases s) (auto simp: upd_buf_def the_buf_def nth_list_update)

lemma upd_buf_frame:
  assumes ok: "bufs_ok p" and r: "r \<in> set (refs p)" and f: "keeps_buf f"
  shows "bufs_ok (upd_buf r f p)" "dma_res_of (Some (upd_buf r f p)) = dma_res_of (Some p)"
    "refs (upd_buf r f p) = refs p" "dma_lock (upd_buf r f p) = dma_lock p"
    "dma_buf_count (upd_buf r f p) = dma_buf_count p" "buf_ref (upd_buf r f p) = buf_ref p"
proof -
  let ?e = "dma_bufs p ! fst r"
  let ?e' = "?e\<lparr>be_buflist := (be_buflist ?e)[snd r := f (the_buf p r)]\<rparr>"
  note v = ref_valid[OF ok r]
  show same: "refs (upd_buf r f p) = refs p" "dma_lock (upd_buf r f p) = dma_lock p"
    "dma_buf_count (upd_buf r f p) = dma_buf_count p" "buf_ref (upd_buf r f p) = buf_ref p"
    by (simp_all add: upd_buf_def refs_def buf_ref_def fun_eq_iff)
  have lists: "dma_buflist (upd_buf r f p) = dma_buflist p" "dma_pagelist (upd_buf r f p) = dma_pagelist p"
    by (simp_all add: upd_buf_def)
  have bufs: "dma_bufs (upd_buf r f p) = (dma_bufs p)[fst r := ?e']"
    by (simp add: upd_buf_def)
  have "priv_res ((be_buflist ?e)[snd r := f (the_buf p r)]) = priv_res (be_buflist ?e)"
    using priv_res_update[OF v(2), of "f (the_buf p r)"] f by (simp add: keeps_buf_def the_buf_def split: if_splits)
  then have "entry_res ?e' = entry_res ?e"
    by (simp add: entry_res_def)
  then have "(\<Sum>e\<in>#mset (dma_bufs (upd_buf r f p)). entry_res e) = (\<Sum>e\<in>#mset (dma_bufs p). entry_res e)"
    using sum_mset_update[OF v(1), of entry_res ?e'] by (simp add: bufs)
  then show "dma_res_of (Some (upd_buf r f p)) = dma_res_of (Some p)"
    by (simp add: dma_res_of_def lists)
  have "entry_wf ?e"
    using ok v(1) by (simp add: bufs_ok_def)
  then have wf: "entry_wf ?e'"
    by (simp add: entry_wf_def)
  then have "\<forall>e\<in>set (dma_bufs (upd_buf r f p)). entry_wf e"
    using ok set_update_subset_insert[of "dma_bufs p" "fst r" ?e'] by (auto simp: bufs_ok_def bufs)
  moreover have "be_buf_count (dma_bufs (upd_buf r f p) ! o') = be_buf_count (dma_bufs p ! o')" for o'
    using v(1) by (simp add: bufs nth_list_update)
  moreover have "\<forall>i < length (refs p). b_idx (the_buf (upd_buf r f p) (refs p ! i)) = int i"
  proof (intro allI impI)
    fix i assume i: "i < length (refs p)"
    then have "b_idx (the_buf (upd_buf r f p) (refs p ! i)) = b_idx (the_buf p (refs p ! i))"
      using upd_buf_the[OF ok r, of "refs p ! i" f] f by (auto simp: keeps_buf_def)
    then show "b_idx (the_buf (upd_buf r f p) (refs p ! i)) = int i"
      using ok i by (simp add: bufs_ok_def)
  qed
  ultimately show "bufs_ok (upd_buf r f p)"
    using ok by (simp add: bufs_ok_def same) (simp add: upd_buf_def)
qed

lemma buf_ref_set:
  assumes "bufs_ok p" "i < nat (dma_buf_count p)"
  shows "buf_ref p i \<in> set (refs p)" "buf_ref p i = refs p ! i"
proof -
  have n: "dma_buf_count p = int (length (refs p))"
    using assms(1) by (rule bufs_ok_refs_count)
  then have "refs p \<noteq> []"
    using assms(2) by auto
  then show eq: "buf_ref p i = refs p ! i"
    by (auto simp: refs_def buf_ref_def split: option.splits)
  have "refs p ! i \<in> set (refs p)"
    using n assms(2) by simp
  then show "buf_ref p i \<in> set (refs p)"
    by (simp add: eq)
qed

lemma freebufs_loop_frame:
  assumes "bufs_ok p" "freebufs_loop mi xs p = (r, p')"
  shows "bufs_ok p' \<and> dma_res_of (Some p') = dma_res_of (Some p) \<and> dma_lock p' = dma_lock p"
  using assms
proof (induction mi xs p rule: freebufs_loop.induct)
  case (3 mi idx xs p)
  show ?case
  proof (cases "idx < 0 \<or> idx \<ge> dma_buf_count p \<or> b_file_priv (the_buf p (buf_ref p (nat idx))) \<noteq> Some mi")
    case True
    then show ?thesis using 3 by (auto split: if_splits)
  next
    case False
    then have r: "buf_ref p (nat idx) \<in> set (refs p)"
      using buf_ref_set[OF 3(2), of "nat idx"] by simp
    note fr = upd_buf_frame[OF 3(2) r keeps_buf_simps(1)]
    show ?thesis
      using 3(1)[OF _ _ fr(1)] 3(3) False fr(2,4) by simp
  qed
qed auto

lemma reclaim_frame:
  assumes "bufs_ok p" "set is \<subseteq> {..<nat (dma_buf_count p)}"
  shows "bufs_ok (foldl (reclaim_one mi) p is) \<and> dma_res_of (Some (foldl (reclaim_one mi) p is)) = dma_res_of (Some p) \<and>
    dma_lock (foldl (reclaim_one mi) p is) = dma_lock p"
  using assms
proof (induction "is" arbitrary: p)
  case (Cons i "is")
  have r: "buf_ref p i \<in> set (refs p)"
    using buf_ref_set[OF Cons.prems(1), of i] Cons.prems(2) by simp
  note fr = upd_buf_frame[OF Cons.prems(1) r keeps_buf_simps(1)]
  show ?case
    using Cons.IH[OF fr(1)] Cons.IH[of p] Cons.prems fr by (simp add: reclaim_one_def)
qed simp

section \<open>Every request keeps the buffers\<close>

text \<open>The three ways of adding buffers.\<close>

definition addbufs_kind ::
  "('z) kern_scheme \<Rightarrow> drm_buf_desc \<Rightarrow> drm_device_dma \<Rightarrow> 'a bus_dev_scheme \<Rightarrow>
   (errno \<times> drm_buf_desc \<times> 'a bus_dev_scheme) outcome" where
  "addbufs_kind kn rq p d =
     (if rq_bflags rq AND DRM_AGP_BUFFER \<noteq> 0 then drm_addbufs_agp kn rq p d
      else if rq_bflags rq AND DRM_SG_BUFFER \<noteq> 0 then drm_addbufs_sg kn rq p d
      else drm_addbufs_pci kn rq p d)"

lemma addbufs_kind_post:
  assumes "bufs_ok p" "ord \<le> DRM_MAX_ORDER" "be_buf_count (dma_bufs p ! ord) = 0"
    and "ord = drm_order (word_of_int (rq_bsize rq))" "0 \<le> rq_count rq"
    and "dma_mem d = X + dma_res_of (Some p)"
    and "rq_bflags rq AND DRM_AGP_BUFFER \<noteq> 0 \<longrightarrow> agp d \<noteq> None"
  shows "\<exists>r rq' p' l'. addbufs_kind kn rq p d = Ret (r, rq', d\<lparr>dma := Some p', dma_mem := l'\<rparr>) \<and>
           addbufs_post p ord X r (nat (rq_count rq)) p' l'"
proof -
  note range = addbufs_range_post[OF assms(1-6)] and pci = addbufs_pci_post[OF assms(1-6)]
  consider "rq_bflags rq AND DRM_AGP_BUFFER \<noteq> 0" | "rq_bflags rq AND DRM_AGP_BUFFER = 0" "rq_bflags rq AND DRM_SG_BUFFER \<noteq> 0"
    | "rq_bflags rq AND DRM_AGP_BUFFER = 0" "rq_bflags rq AND DRM_SG_BUFFER = 0" by blast
  then show ?thesis
  proof cases
    case 1
    then obtain h where "agp d = Some h" using assms(7) by auto
    then show ?thesis
      using range[of kn "ah_base h + rq_agp_start rq" DRM_DMA_USE_AGP] 1 by (simp only: addbufs_kind_def drm_addbufs_agp_def if_True option.case simp_thms)
  next
    case 2
    then show ?thesis
      using range[of kn "rq_agp_start rq" DRM_DMA_USE_SG] by (simp only: addbufs_kind_def drm_addbufs_sg_def if_True if_False simp_thms)
  next
    case 3
    then show ?thesis
      using pci[of kn] by (simp only: addbufs_kind_def if_False simp_thms)
  qed
qed

lemma addbufs_keeps:
  assumes d: "dev_bufs X d" and agp: "rq_bflags rq AND DRM_AGP_BUFFER \<noteq> 0 \<longrightarrow> agp d \<noteq> None"
  shows "\<exists>r rq' d'. drm_addbufs kn rq d = Ret (r, rq', d') \<and> dev_bufs X d'"
proof -
  obtain p where p: "dma d = Some p" "bufs_ok p" "\<not> dma_lock p" "dma_mem d = X + dma_res_of (Some p)"
    using d by (auto simp: dev_bufs_def)
  let ?ord = "drm_order (word_of_int (rq_bsize rq))"
  let ?p = "p\<lparr>dma_lock := True\<rparr>"
  let ?d = "d\<lparr>dma := Some ?p\<rparr>"
  have unlock: "dev_bufs X (d\<lparr>dma := Some (rw_exit_write p'), dma_mem := l'\<rparr>)"
    if "bufs_ok p'" "l' = X + dma_res_of (Some p')" for p' l'
    using that by (simp add: dev_bufs_def rw_exit_write_def)
  consider (bad) "rq_count rq < 0 \<or> rq_count rq > 4096 \<or> ?ord < DRM_MIN_ORDER \<or> ?ord > DRM_MAX_ORDER"
    | (busy) "\<not> (rq_count rq < 0 \<or> rq_count rq > 4096)" "\<not> (?ord < DRM_MIN_ORDER \<or> ?ord > DRM_MAX_ORDER)"
        "dma_buf_use p \<noteq> 0 \<or> be_buf_count (dma_bufs p ! ?ord) \<noteq> 0"
    | (go) "\<not> (rq_count rq < 0 \<or> rq_count rq > 4096)" "\<not> (?ord < DRM_MIN_ORDER \<or> ?ord > DRM_MAX_ORDER)"
        "dma_buf_use p = 0" "be_buf_count (dma_bufs p ! ?ord) = 0"
    by blast
  then show ?thesis
  proof cases
    case bad
    then show ?thesis
      using d by (auto simp: drm_addbufs_def Let_def)
  next
    case busy
    have "p\<lparr>dma_lock := False\<rparr> = p" "d\<lparr>dma := Some p\<rparr> = d"
      using p(1,3) by simp_all
    then show ?thesis
      using busy p by (auto simp: drm_addbufs_def Let_def rw_enter_write_def rw_exit_write_def dev_bufs_def)
  next
    case go
    let ?n = "nat (rq_count rq)"
    have ord: "?ord \<le> DRM_MAX_ORDER" "be_buf_count (dma_bufs ?p ! ?ord) = 0"
      and ok: "bufs_ok ?p" and cnt: "0 \<le> rq_count rq" and mem: "dma_mem ?d = X + dma_res_of (Some ?p)"
      using go p by simp_all
    have "\<exists>r rq' p' l'. addbufs_kind kn rq ?p ?d = Ret (r, rq', ?d\<lparr>dma := Some p', dma_mem := l'\<rparr>) \<and>
        addbufs_post ?p ?ord X r ?n p' l'"
      by (rule addbufs_kind_post[OF ok ord refl cnt mem]) (use agp in simp)
    then obtain r rq' p' l' where run: "addbufs_kind kn rq ?p ?d = Ret (r, rq', ?d\<lparr>dma := Some p', dma_mem := l'\<rparr>)"
      and post: "addbufs_post ?p ?ord X r ?n p' l'"
      by blast
    have "drm_addbufs kn rq d = Ret (r, rq', d\<lparr>dma := Some (rw_exit_write p'), dma_mem := l'\<rparr>)"
      using go p run by (simp add: drm_addbufs_def addbufs_kind_def Let_def rw_enter_write_def)
    then show ?thesis
      using unlock post by (auto simp: addbufs_post_def)
  qed
qed

lemma rw_enter_ok: "\<not> dma_lock p \<Longrightarrow> rw_enter_write (Some p) = Ret (p\<lparr>dma_lock := True\<rparr>)"
  by (simp add: rw_enter_write_def)

lemma freebufs_keeps:
  assumes "dev_bufs X d"
  shows "\<exists>r d'. drm_freebufs xs mi d = Ret (r, d') \<and> dev_bufs X d'"
proof -
  obtain p where p: "dma d = Some p" "bufs_ok p" "\<not> dma_lock p" "dma_mem d = X + dma_res_of (Some p)"
    using assms by (auto simp: dev_bufs_def)
  obtain r p' where run: "freebufs_loop mi xs (p\<lparr>dma_lock := True\<rparr>) = (r, p')" by fastforce
  then show ?thesis
    using freebufs_loop_frame[OF _ run] p
    by (auto simp: drm_freebufs_def rw_enter_ok rw_exit_write_def dev_bufs_def)
qed

lemma mapbufs_keeps:
  assumes "dev_bufs X d"
  shows "\<exists>r reply d'. drm_mapbufs fl found mm co n d = Ret (r, reply, d') \<and> dev_bufs X d'"
proof -
  obtain p where p: "dma d = Some p" "bufs_ok p" "\<not> dma_lock p" "dma_mem d = X + dma_res_of (Some p)"
    using assms by (auto simp: dev_bufs_def)
  let ?d = "d\<lparr>dma := Some (rw_exit_write (p\<lparr>dma_lock := True, dma_buf_use := dma_buf_use p + 1\<rparr>))\<rparr>"
  have "dev_bufs X ?d"
    using p by (simp add: dev_bufs_def rw_exit_write_def)
  moreover have "\<exists>r reply d'. drm_mapbufs fl found mm co n d = Ret (r, reply, d') \<and> (d' = d \<or> d' = ?d)"
    using p(1,3) by (auto simp: drm_mapbufs_def rw_enter_ok Let_def split: option.split sum.split prod.split)
  ultimately show ?thesis
    using assms by blast
qed

lemma reclaim_keeps: "dev_bufs X d \<Longrightarrow> dev_bufs X (drm_reclaim_buffers mi d)"
proof -
  assume "dev_bufs X d"
  then obtain p where p: "dma d = Some p" "bufs_ok p" "\<not> dma_lock p" "dma_mem d = X + dma_res_of (Some p)"
    by (auto simp: dev_bufs_def)
  then show ?thesis
    using reclaim_frame[of p "[0..<nat (dma_buf_count p)]" mi]
    by (simp add: dev_bufs_def drm_reclaim_buffers_def atLeast0LessThan)
qed

lemma driver_keeps:
  assumes "dev_bufs X d" "dma d = Some p" "i < nat (dma_buf_count p)"
  shows "dev_bufs X (d\<lparr>dma := Some (upd_buf (buf_ref p i) (hand_out mo used pend) p)\<rparr>)"
proof -
  have ok: "bufs_ok p" using assms(1,2) by (simp add: dev_bufs_def)
  show ?thesis
    using upd_buf_frame[OF ok buf_ref_set(1)[OF ok assms(3)] keeps_buf_simps(2)] assms by (simp add: dev_bufs_def)
qed

lemma addbufs_null_agp:
  assumes "drm_addbufs kn rq d = Ret (r, rq', d')" "dev_bufs X d" "rq_bflags rq AND DRM_AGP_BUFFER \<noteq> 0" "agp d = None"
  shows "dev_bufs X d'"
proof -
  obtain p where p: "dma d = Some p" "bufs_ok p" "\<not> dma_lock p" "dma_mem d = X + dma_res_of (Some p)"
    using assms(2) by (auto simp: dev_bufs_def)
  have "d' = d \<or> d' = d\<lparr>dma := Some (p\<lparr>dma_lock := False\<rparr>)\<rparr>"
    using assms p
    by (auto simp: drm_addbufs_def drm_addbufs_agp_def rw_enter_ok rw_exit_write_def Let_def split: if_splits)
  then show ?thesis
    using assms(2) p by (auto simp: dev_bufs_def)
qed

lemma bufs_req_keeps: "bufs_req kn d d' \<Longrightarrow> dev_bufs X d \<Longrightarrow> dev_bufs X d'"
proof (induction rule: bufs_req.induct)
  case (br_add rq d r rq' d')
  then show ?case
    using addbufs_keeps[OF br_add(2), of rq kn] addbufs_null_agp[OF br_add] by fastforce
next
  case (br_free xs mi d r d')
  then show ?case using freebufs_keeps[OF br_free(2), of xs mi] by auto
next
  case (br_map fl found mm co n d r reply d')
  then show ?case using mapbufs_keeps[OF br_map(2), of fl found mm co n] by auto
next
  case (br_reclaim d mi)
  then show ?case by (rule reclaim_keeps)
next
  case (br_driver d p i mo used pend)
  then show ?case using driver_keeps by blast
qed

lemma bufs_reqs_keep: "(bufs_req kn)\<^sup>*\<^sup>* d d' \<Longrightarrow> dev_bufs X d \<Longrightarrow> dev_bufs X d'"
  by (induction rule: rtranclp_induct) (auto intro: bufs_req_keeps)

lemma dma_setup_bufs:
  assumes "drm_dma_setup kn d = (E_OK, d')"
  shows "dev_bufs (dma_mem d) d'"
proof -
  obtain l where l: "drm_new kn K_DMA (dma_mem d) = Some l" "d' = d\<lparr>dma := Some zero_dma, dma_mem := l\<rparr>"
    using assms by (auto simp: drm_dma_setup_def split: option.splits)
  have e: "entry_wf zero_entry" "entry_res zero_entry = {#}"
    by (simp_all add: entry_wf_def entry_res_def zero_entry_def)
  have "bufs_ok zero_dma"
    using e by (auto simp: bufs_ok_def zero_dma_def refs_def zero_entry_def nth_Cons' DRM_MAX_ORDER_def less_Suc_eq_le)
  moreover have "dma_res_of (Some zero_dma) = {#R_mem K_DMA#}"
    using e by (simp add: dma_res_of_def zero_dma_def)
  ultimately show ?thesis
    using l drm_new_Some[OF l(1)] by (simp add: dev_bufs_def) (simp add: zero_dma_def)
qed

lemma takedown_empty:
  assumes "dev_bufs X d"
  shows "dma (drm_dma_takedown d) = None \<and> dma_mem (drm_dma_takedown d) = X"
proof -
  obtain p where p: "dma d = Some p" "bufs_ok p" "dma_mem d = X + dma_res_of (Some p)"
    using assms by (auto simp: dev_bufs_def)
  have "cleanup_bufs (dma_bufs p) (dma_mem d) =
      X + {#R_mem K_DMA#} + list_res K_BUFLIST (dma_buflist p) + list_res K_PAGELIST (dma_pagelist p)"
    using p(2) by (simp add: cleanup_bufs_res bufs_ok_def p(3) dma_res_of_def)
  then show ?thesis
    using p(1)
    by (cases "dma_buflist p"; cases "dma_pagelist p")
      (simp_all add: drm_dma_takedown_def drm_free_opt_def drm_free_def)
qed

section \<open>Well-typed buffers\<close>

text \<open>Two buffers of 4096 bytes in scatter-gather memory.\<close>

definition demo_desc :: drm_buf_desc where
  "demo_desc = \<lparr>rq_count = 2, rq_bsize = 4096, low_mark = 0, high_mark = 0, rq_bflags = DRM_SG_BUFFER,
     rq_agp_start = 0x100000\<rparr>"

definition demo_buf :: "nat \<Rightarrow> drm_buf" where
  "demo_buf i = \<lparr>b_idx = int i, b_total = 4096, b_used = 0, b_offset = of_nat (4096 * i), b_address = 0,
     b_bus_address = 0x100000 + of_nat (4096 * i), b_pending = 0, b_file_priv = None, b_dev_private = True\<rparr>"

definition demo_dma :: drm_device_dma where
  "demo_dma = \<lparr>dma_lock = False,
     dma_bufs = (replicate 23 zero_entry)[12 := \<lparr>be_seglist = [], be_buflist = [demo_buf 0, demo_buf 1],
       be_buf_count = 2, be_buf_size = 4096, be_page_order = 0, be_seg_count = 0\<rparr>],
     dma_buflist = Some [(12, 0), (12, 1)], dma_pagelist = None, dma_byte_count = 8192, dma_buf_use = 0,
     dma_buf_count = 2, dma_page_count = 0, dma_seg_count = 0, dma_flags = DRM_DMA_USE_SG\<rparr>"

definition demo_bufd0 :: bus_dev where
  "demo_bufd0 = demo_dev\<lparr>dma := Some zero_dma, dma_mem := {#R_mem K_DMA#}\<rparr>"

definition demo_bufd :: bus_dev where
  "demo_bufd = demo_dev\<lparr>dma := Some demo_dma,
     dma_mem := {#R_mem K_DMA, R_mem K_BUFS, R_mem K_BUFPRIV, R_mem K_BUFPRIV, R_mem K_BUFLIST#}\<rparr>"

lemma demo_setup: "drm_dma_setup demo_kern demo_dev = (E_OK, demo_bufd0)"
  by (simp add: drm_dma_setup_def drm_new_def demo_kern_def bus_dma.truncate_def demo_bufd0_def)

lemma demo_order: "drm_order 4096 = 12"
  by (simp add: drm_order_def order_loop.simps)

lemma demo_desc_sel [simp]:
  "rq_count demo_desc = 2" "rq_bsize demo_desc = 4096" "rq_bflags demo_desc = DRM_SG_BUFFER" "rq_agp_start demo_desc = 0x100000"
  by (simp_all add: demo_desc_def)

lemma demo_new [simp]: "drm_new demo_kern k l = Some (add_mset (R_mem k) l)"
  by (simp add: drm_new_def demo_kern_def bus_dma.truncate_def)

abbreviation demo_p :: drm_device_dma where
  "demo_p \<equiv> zero_dma\<lparr>dma_lock := True\<rparr>"

lemma demo_p_sel [simp]:
  "dma_bufs demo_p = replicate 23 zero_entry" "dma_buf_count demo_p = 0" "dma_byte_count demo_p = 0"
  "dma_buflist demo_p = None" "dma_buf_use demo_p = 0"
  by (simp_all add: zero_dma_def DRM_MAX_ORDER_def)

lemma demo_range:
  "addbufs_range demo_kern 0x100000 DRM_DMA_USE_SG demo_desc demo_p (demo_bufd0\<lparr>dma := Some demo_p\<rparr>) =
   Ret (E_OK, demo_desc, demo_bufd\<lparr>dma := Some (demo_dma\<lparr>dma_lock := True\<rparr>)\<rparr>)"
proof -
  let ?e = "zero_entry\<lparr>be_buflist := [zero_buf, zero_buf], be_buf_size := 4096, be_page_order := 0\<rparr>"
  have fill: "fill_bufs demo_kern demo_p 0x100000 4096 2 ?e 0 0 {#R_mem K_BUFS, R_mem K_DMA#} =
      (True, ?e\<lparr>be_buflist := [demo_buf 0, demo_buf 1], be_buf_count := 2\<rparr>, 8192,
       {#R_mem K_BUFPRIV, R_mem K_BUFPRIV, R_mem K_BUFS, R_mem K_DMA#})"
    unfolding numeral_2_eq_2
    by (simp add: zero_entry_def zero_buf_def init_buf_def put_buf_def buf_total_def PAGE_SIZE_def demo_buf_def Let_def)
  have pre: "drm_order (word_of_int (rq_bsize demo_desc)) = 12" "buf_align DRM_SG_BUFFER 12 = 4096"
    "page_order_of 12 = 0" "replicate 2 zero_buf = [zero_buf, zero_buf]" "be_buf_count zero_entry = 0"
    "dma_mem (demo_bufd0\<lparr>dma := Some demo_p\<rparr>) = {#R_mem K_DMA#}" "[0..<2] = [0, Suc 0]"
    by (simp_all add: demo_order buf_align_def DRM_SG_BUFFER_def DRM_PAGE_ALIGN_def page_order_of_def PAGE_SHIFT_def
        zero_entry_def demo_bufd0_def numeral_2_eq_2)
  have "grow_buflist demo_kern demo_p (?e\<lparr>be_buflist := [demo_buf 0, demo_buf 1], be_buf_count := 2\<rparr>) 12 l =
      Some ([(12, 0), (12, 1)], add_mset (R_mem K_BUFLIST) l)" for l
    by (simp add: grow_buflist_def pre(7))
  moreover have "(demo_bufd0\<lparr>dma := Some demo_p\<rparr>)\<lparr>dma := x, dma_mem := l\<rparr> = demo_dev\<lparr>dma := x, dma_mem := l\<rparr>" for x l
    by (simp add: demo_bufd0_def)
  moreover have "(set_entry 12 (?e\<lparr>be_buflist := [demo_buf 0, demo_buf 1], be_buf_count := 2\<rparr>) demo_p)
      \<lparr>dma_buflist := Some [(12, 0), (12, 1)], dma_buf_count := 2, dma_byte_count := 8192, dma_flags := DRM_DMA_USE_SG\<rparr> =
      demo_dma\<lparr>dma_lock := True\<rparr>"
    by (simp add: set_entry_def demo_dma_def zero_dma_def zero_entry_def DRM_MAX_ORDER_def)
  ultimately show ?thesis
    using fill
    by (simp add: addbufs_range_def pre demo_order Let_def drm_new_array_def demo_bufd_def add_mset_commute)
qed

lemma demo_addbufs:
  "drm_addbufs demo_kern demo_desc demo_bufd0 = Ret (E_OK, demo_desc, demo_bufd)"
proof -
  have "drm_addbufs demo_kern demo_desc demo_bufd0 =
      obind (addbufs_range demo_kern 0x100000 DRM_DMA_USE_SG demo_desc demo_p (demo_bufd0\<lparr>dma := Some demo_p\<rparr>))
        (\<lambda>(e, rq, d). Ret (e, rq, d\<lparr>dma := map_option rw_exit_write (dma d)\<rparr>))"
    by (simp add: drm_addbufs_def demo_order DRM_MIN_ORDER_def DRM_MAX_ORDER_def rw_enter_write_def Let_def
        demo_bufd0_def drm_addbufs_sg_def DRM_SG_BUFFER_def DRM_AGP_BUFFER_def)
      (simp add: zero_dma_def zero_entry_def)
  then show ?thesis
    by (simp add: demo_range rw_exit_write_def demo_bufd_def) (simp add: demo_dma_def)
qed

text \<open>
  C27: Whatever requests follow \<^verbatim>\<open>drm_dma_setup\<close>, with memory running out anywhere, and whatever
  buffers a driver hands out, the buffers stay well-typed: the list of \<^verbatim>\<open>buf_count\<close> pointers holds
  every buffer of every order exactly once, each pointer is to an element of its array, and the
  element at position \<open>i\<close> has the index \<open>i\<close>; the memory in use is exactly that of the entries and
  lists. No further request panics, unless it asks for AGP buffers of a device without AGP, and a
  takedown gives all memory back.
\<close>

theorem bufs_well_typed:
  assumes "drm_dma_setup kn d0 = (E_OK, d1)" and "(bufs_req kn)\<^sup>*\<^sup>* d1 d"
  shows "(\<exists>p. dma d = Some p \<and> \<not> dma_lock p \<and> dma_buf_count p = int (length (refs p)) \<and> distinct (refs p) \<and>
      set (refs p) = {(ord, k). ord \<le> DRM_MAX_ORDER \<and> int k < be_buf_count (dma_bufs p ! ord)} \<and>
      (\<forall>i < length (refs p). fst (refs p ! i) < length (dma_bufs p) \<and>
         snd (refs p ! i) < length (be_buflist (dma_bufs p ! fst (refs p ! i))) \<and>
         b_idx (the_buf p (refs p ! i)) = int i) \<and>
      dma_mem d = dma_mem d0 + dma_res_of (Some p)) \<and>
    (\<forall>rq. rq_bflags rq AND DRM_AGP_BUFFER = 0 \<or> agp d \<noteq> None \<longrightarrow> (\<exists>r. drm_addbufs kn rq d = Ret r)) \<and>
    (\<exists>r. drm_freebufs xs mi d = Ret r) \<and> (\<exists>r. drm_mapbufs fl found mm co n d = Ret r) \<and>
    dma (drm_dma_takedown d) = None \<and> dma_mem (drm_dma_takedown d) = dma_mem d0"
proof -
  have d: "dev_bufs (dma_mem d0) d"
    by (rule bufs_reqs_keep[OF assms(2) dma_setup_bufs[OF assms(1)]])
  then obtain p where p: "dma d = Some p" "bufs_ok p" "\<not> dma_lock p" "dma_mem d = dma_mem d0 + dma_res_of (Some p)"
    by (auto simp: dev_bufs_def)
  have idx: "\<forall>i < length (refs p). b_idx (the_buf p (refs p ! i)) = int i"
    using p(2) unfolding bufs_ok_def by blast
  have "\<forall>i < length (refs p). fst (refs p ! i) < length (dma_bufs p) \<and>
      snd (refs p ! i) < length (be_buflist (dma_bufs p ! fst (refs p ! i))) \<and> b_idx (the_buf p (refs p ! i)) = int i"
    using ref_valid[OF p(2) nth_mem] idx by blast
  then have "\<exists>p. dma d = Some p \<and> \<not> dma_lock p \<and> dma_buf_count p = int (length (refs p)) \<and> distinct (refs p) \<and>
      set (refs p) = {(ord, k). ord \<le> DRM_MAX_ORDER \<and> int k < be_buf_count (dma_bufs p ! ord)} \<and>
      (\<forall>i < length (refs p). fst (refs p ! i) < length (dma_bufs p) \<and>
         snd (refs p ! i) < length (be_buflist (dma_bufs p ! fst (refs p ! i))) \<and>
         b_idx (the_buf p (refs p ! i)) = int i) \<and>
      dma_mem d = dma_mem d0 + dma_res_of (Some p)"
    using p by (simp add: bufs_ok_def)
  moreover have "\<forall>rq. rq_bflags rq AND DRM_AGP_BUFFER = 0 \<or> agp d \<noteq> None \<longrightarrow> (\<exists>r. drm_addbufs kn rq d = Ret r)"
    using addbufs_keeps[OF d] by blast
  ultimately show ?thesis
    using freebufs_keeps[OF d] mapbufs_keeps[OF d] takedown_empty[OF d] by blast
qed

lemma demo_bufs_reqs: "(bufs_req demo_kern)\<^sup>*\<^sup>* demo_bufd0 demo_bufd"
  by (rule r_into_rtranclp) (rule br_add[OF demo_addbufs])

theorem bufs_well_typed_witness:
  "dma demo_bufd = Some demo_dma \<and> distinct (refs demo_dma) \<and> dma_mem (drm_dma_takedown demo_bufd) = {#}"
proof -
  have "dma demo_bufd = Some demo_dma"
    by (simp add: demo_bufd_def)
  then show ?thesis
    using bufs_well_typed[OF demo_setup demo_bufs_reqs] by simp
qed

end
