(* ===== verification/Drm_Drv.thy ===== *)
theory Drm_Drv
  imports Drm_Agpsup Drm_Bufs
begin

text \<open>
  The driver core of \<^verbatim>\<open>drm_drv.c\<close>: attachment and detachment, the first open and the last close,
  \<^verbatim>\<open>drmopen\<close>, \<^verbatim>\<open>drmclose\<close>, the dispatch of \<^verbatim>\<open>drmioctl\<close> to the operations of the other theories, and
  the ioctls that \<^verbatim>\<open>drm_drv.c\<close> implements itself.
\<close>

section \<open>Requests\<close>

record version_string =
  vs_len :: u64
  vs_given :: bool
  vs_out :: string

record drm_version =
  version_major :: int
  version_minor :: int
  version_patchlevel :: int
  ver_name :: version_string
  ver_date :: version_string
  ver_desc :: version_string

record drm_set_version =
  drm_di_major :: int
  drm_di_minor :: int
  drm_dd_major :: int
  drm_dd_minor :: int

text \<open>
  The commands of \<^verbatim>\<open>drmioctl\<close>, each with what the code reads of its argument;
  \<open>OTHER_IOCTL\<close> is any command the core does not know.
\<close>

datatype (plugins only: size code) drm_cmd =
    FIONBIO | FIOASYNC
  | SIOCSPGRP int | TIOCSPGRP int | FIOSETOWN int
  | SIOCGPGRP | TIOCGPGRP | FIOGETOWN
  | DRM_IOCTL_VERSION drm_version
  | DRM_IOCTL_GET_UNIQUE u64
  | DRM_IOCTL_GET_MAGIC
  | DRM_IOCTL_WAIT_VBLANK drm_wait_vblank_arg
  | DRM_IOCTL_MODESET_CTL int drm_modeset_cmd
  | DRM_IOCTL_GEM_CLOSE u32
  | DRM_IOCTL_GET_MAP | DRM_IOCTL_GET_CLIENT | DRM_IOCTL_GET_STATS
  | DRM_IOCTL_SET_SAREA_CTX | DRM_IOCTL_BLOCK | DRM_IOCTL_UNBLOCK | DRM_IOCTL_MOD_CTX
  | DRM_IOCTL_MARK_BUFS | DRM_IOCTL_FINISH | DRM_IOCTL_INFO_BUFS | DRM_IOCTL_SWITCH_CTX
  | DRM_IOCTL_NEW_CTX | DRM_IOCTL_GET_SAREA_CTX
  | DRM_IOCTL_RM_MAP u64
  | DRM_IOCTL_GET_CTX u32 u32
  | DRM_IOCTL_RES_CTX int
  | DRM_IOCTL_LOCK u32
  | DRM_IOCTL_UNLOCK u32
  | DRM_IOCTL_MAP_BUFS int
  | DRM_IOCTL_FREE_BUFS "int option list"
  | DRM_IOCTL_DMA drm_dma
  | DRM_IOCTL_AGP_INFO
  | DRM_IOCTL_GEM_FLINK u32
  | DRM_IOCTL_GEM_OPEN u32
  | DRM_IOCTL_SET_VERSION drm_set_version
  | DRM_IOCTL_IRQ_BUSID
  | DRM_IOCTL_AUTH_MAGIC u32
  | DRM_IOCTL_ADD_MAP drm_map
  | DRM_IOCTL_ADD_CTX
  | DRM_IOCTL_RM_CTX u32
  | DRM_IOCTL_ADD_BUFS drm_buf_desc
  | DRM_IOCTL_CONTROL drm_control_func int
  | DRM_IOCTL_AGP_ACQUIRE | DRM_IOCTL_AGP_RELEASE
  | DRM_IOCTL_AGP_ENABLE u64
  | DRM_IOCTL_AGP_ALLOC u64 u64
  | DRM_IOCTL_AGP_FREE int
  | DRM_IOCTL_AGP_BIND int u64
  | DRM_IOCTL_AGP_UNBIND int
  | DRM_IOCTL_SG_ALLOC u64
  | DRM_IOCTL_SG_FREE u64
  | DRM_IOCTL_ADD_DRAW | DRM_IOCTL_RM_DRAW | DRM_IOCTL_UPDATE_DRAW
  | DRM_IOCTL_SET_UNIQUE
  | OTHER_IOCTL u64

text \<open>What is written back to the caller's argument.\<close>

datatype drm_reply =
    NO_DATA
  | OWNER int
  | VERSION_REPLY drm_version
  | UNIQUE_REPLY u64 string
  | MAGIC_REPLY u32
  | VBLANK_REPLY drm_wait_vblank_arg
  | CTX_REPLY u32 u32
  | CONTEXTS_REPLY int "u32 list"
  | BUFS_REPLY mapbufs_reply
  | DMA_REPLY drm_dma
  | AGP_INFO_REPLY "drm_agp_info option"
  | NAME_REPLY u32
  | HANDLE_REPLY u32 u64
  | SET_VERSION_REPLY drm_set_version
  | IRQ_REPLY int
  | MAP_REPLY drm_map
  | BUF_DESC_REPLY drm_buf_desc
  | AGP_ALLOC_REPLY "(int \<times> u64) option"
  | SG_REPLY "u64 option"

text \<open>
  The number \<^verbatim>\<open>DRM_IOCTL_NR(cmd)\<close> of a command, by which a driver's own ioctl handler knows it. The
  commands that are not of the DRM group never get there; they have none here.
\<close>

definition cmd_nr :: "drm_cmd \<Rightarrow> u64" where
  "cmd_nr cmd =
     (case cmd of
        DRM_IOCTL_VERSION _ \<Rightarrow> 0x00
      | DRM_IOCTL_GET_UNIQUE _ \<Rightarrow> 0x01
      | DRM_IOCTL_GET_MAGIC \<Rightarrow> 0x02
      | DRM_IOCTL_IRQ_BUSID \<Rightarrow> 0x03
      | DRM_IOCTL_GET_MAP \<Rightarrow> 0x04
      | DRM_IOCTL_GET_CLIENT \<Rightarrow> 0x05
      | DRM_IOCTL_GET_STATS \<Rightarrow> 0x06
      | DRM_IOCTL_SET_VERSION _ \<Rightarrow> 0x07
      | DRM_IOCTL_MODESET_CTL _ _ \<Rightarrow> 0x08
      | DRM_IOCTL_GEM_CLOSE _ \<Rightarrow> 0x09
      | DRM_IOCTL_GEM_FLINK _ \<Rightarrow> 0x0a
      | DRM_IOCTL_GEM_OPEN _ \<Rightarrow> 0x0b
      | DRM_IOCTL_SET_UNIQUE \<Rightarrow> 0x10
      | DRM_IOCTL_AUTH_MAGIC _ \<Rightarrow> 0x11
      | DRM_IOCTL_BLOCK \<Rightarrow> 0x12
      | DRM_IOCTL_UNBLOCK \<Rightarrow> 0x13
      | DRM_IOCTL_CONTROL _ _ \<Rightarrow> 0x14
      | DRM_IOCTL_ADD_MAP _ \<Rightarrow> 0x15
      | DRM_IOCTL_ADD_BUFS _ \<Rightarrow> 0x16
      | DRM_IOCTL_MARK_BUFS \<Rightarrow> 0x17
      | DRM_IOCTL_INFO_BUFS \<Rightarrow> 0x18
      | DRM_IOCTL_MAP_BUFS _ \<Rightarrow> 0x19
      | DRM_IOCTL_FREE_BUFS _ \<Rightarrow> 0x1a
      | DRM_IOCTL_RM_MAP _ \<Rightarrow> 0x1b
      | DRM_IOCTL_SET_SAREA_CTX \<Rightarrow> 0x1c
      | DRM_IOCTL_GET_SAREA_CTX \<Rightarrow> 0x1d
      | DRM_IOCTL_ADD_CTX \<Rightarrow> 0x20
      | DRM_IOCTL_RM_CTX _ \<Rightarrow> 0x21
      | DRM_IOCTL_MOD_CTX \<Rightarrow> 0x22
      | DRM_IOCTL_GET_CTX _ _ \<Rightarrow> 0x23
      | DRM_IOCTL_SWITCH_CTX \<Rightarrow> 0x24
      | DRM_IOCTL_NEW_CTX \<Rightarrow> 0x25
      | DRM_IOCTL_RES_CTX _ \<Rightarrow> 0x26
      | DRM_IOCTL_ADD_DRAW \<Rightarrow> 0x27
      | DRM_IOCTL_RM_DRAW \<Rightarrow> 0x28
      | DRM_IOCTL_DMA _ \<Rightarrow> 0x29
      | DRM_IOCTL_LOCK _ \<Rightarrow> 0x2a
      | DRM_IOCTL_UNLOCK _ \<Rightarrow> 0x2b
      | DRM_IOCTL_FINISH \<Rightarrow> 0x2c
      | DRM_IOCTL_AGP_ACQUIRE \<Rightarrow> 0x30
      | DRM_IOCTL_AGP_RELEASE \<Rightarrow> 0x31
      | DRM_IOCTL_AGP_ENABLE _ \<Rightarrow> 0x32
      | DRM_IOCTL_AGP_INFO \<Rightarrow> 0x33
      | DRM_IOCTL_AGP_ALLOC _ _ \<Rightarrow> 0x34
      | DRM_IOCTL_AGP_FREE _ \<Rightarrow> 0x35
      | DRM_IOCTL_AGP_BIND _ _ \<Rightarrow> 0x36
      | DRM_IOCTL_AGP_UNBIND _ \<Rightarrow> 0x37
      | DRM_IOCTL_SG_ALLOC _ \<Rightarrow> 0x38
      | DRM_IOCTL_SG_FREE _ \<Rightarrow> 0x39
      | DRM_IOCTL_WAIT_VBLANK _ \<Rightarrow> 0x3a
      | DRM_IOCTL_UPDATE_DRAW \<Rightarrow> 0x3f
      | OTHER_IOCTL n \<Rightarrow> n
      | _ \<Rightarrow> 0)"

section \<open>The device and its surroundings\<close>

text \<open>
  The last field of the device that this theory needs; \<open>unique\<close> is the whole buffer
  \<^verbatim>\<open>dev->unique\<close> points to.
\<close>

record drv_dev = bus_dev +
  unique_len :: nat

text \<open>
  What one call gets from outside: the kernel's answers, the AGP driver, the hardware driver's
  callbacks, and what others do while the call sleeps, has released \<^verbatim>\<open>dev_lock\<close> or competes for the
  lock word. \<open>sy_calloc\<close> tells whether the small structures of an ioctl can be allocated; those the
  device keeps, the file's among them, are asked of \<open>sy_kern\<close>.
\<close>

record 'd drm_sys =
  sy_kern :: kern
  sy_agp :: agp_methods
  sy_driver :: "'d drm_driver_info"
  sy_env :: "nat \<Rightarrow> 'd \<Rightarrow> 'd"
  sy_turns :: "(u32 list \<times> errno \<times> ('d \<Rightarrow> 'd)) list"
  sy_words :: "u32 list"
  sy_sleeps :: "'d sleeps"
  sy_holds :: "nat \<Rightarrow> nat \<Rightarrow> ('d \<Rightarrow> 'd) list"
  sy_root :: "(u32, nat) splay \<Rightarrow> u32"
  sy_calloc :: bool
  sy_now :: "u64 \<times> u64"
  sy_copyout :: "nat \<Rightarrow> bool"
  sy_copyfield :: "nat \<Rightarrow> pub_field \<Rightarrow> bool"
  sy_vfinddev :: bool
  sy_uvm_mmap :: "u64 \<Rightarrow> u64 \<Rightarrow> errno + u64"
  sy_fsetown :: "drm_cmd \<Rightarrow> int \<Rightarrow> errno \<times> int"
  sy_fgetown :: "drm_cmd \<Rightarrow> int \<Rightarrow> errno \<times> int"

section \<open>Opening the first file and closing the last\<close>

definition SAREA_MAX :: u64 where "SAREA_MAX = 0x2000"

text \<open>What the driver's \<^verbatim>\<open>firstopen\<close> answers is not looked at.\<close>

definition drm_firstopen ::
  "('a drv_dev_scheme) drm_sys \<Rightarrow> 'a drv_dev_scheme \<Rightarrow> (errno \<times> 'a drv_dev_scheme) outcome" where
  "drm_firstopen sy d =
     obind (drm_addmap (sy_kern sy) (sy_env sy) 0 SAREA_MAX DRM_SHM DRM_CONTAINS_LOCK d) (\<lambda>((i, _), d).
     if i \<noteq> E_OK then Ret (i, d)
     else let d = (case firstopen (sy_driver sy) of None \<Rightarrow> d | Some f \<Rightarrow> snd (f d));
              (i, d) = (if has_flag (drv_flags (sy_driver sy)) DRIVER_DMA
                        then drm_dma_setup (sy_kern sy) d else (E_OK, d))
          in if i \<noteq> E_OK then Ret (i, d)
             else Ret (E_OK, d\<lparr>magicid := 1, irq_enabled := 0, if_version := 0, buf_pgid := 0\<rparr>))"

text \<open>The maps of the list are those at the start: the lock is held throughout.\<close>

fun rmmap_all :: "('z) kern_scheme \<Rightarrow> drm_local_map list \<Rightarrow> 'a bus_dev_scheme \<Rightarrow> 'a bus_dev_scheme outcome" where
  "rmmap_all kn [] d = Ret d"
| "rmmap_all kn (m # ms) d =
     (if lm_flags m AND DRM_DRIVER = 0 then obind (drm_rmmap_locked kn m d) (rmmap_all kn ms)
      else rmmap_all kn ms d)"

definition lock_gone :: "'a bus_dev_scheme \<Rightarrow> 'a bus_dev_scheme" where
  "lock_gone d =
     (if hw_lock (lock d) = None then d
      else d\<lparr>lock_kva := None, lock := (lock d)\<lparr>hw_lock := None, lk_file_priv := None,
                lk_broadcasts := Suc (lk_broadcasts (lock d))\<rparr>\<rparr>)"

definition drm_lastclose ::
  "('a drv_dev_scheme) drm_sys \<Rightarrow> 'a drv_dev_scheme \<Rightarrow> (errno \<times> 'a drv_dev_scheme) outcome" where
  "drm_lastclose sy d =
     (let d = (case lastclose (sy_driver sy) of None \<Rightarrow> d | Some f \<Rightarrow> f d)
      in obind (if irq_enabled d \<noteq> 0 then drm_irq_uninstall (sy_driver sy) d else Ret (E_OK, d)) (\<lambda>(_, d).
         obind (drm_agp_takedown (sy_agp sy) d) (\<lambda>d.
         obind (DRM_LOCK (drm_dma_takedown d)) (\<lambda>d.
         obind (case sg d of
                  None \<Rightarrow> Ret d
                | Some s \<Rightarrow>
                    obind (DRM_UNLOCK (d\<lparr>sg := None\<rparr>)) (\<lambda>d.
                    DRM_LOCK (sy_env sy 0 (d\<lparr>dma_mem := drm_sg_cleanup (Some s) (dma_mem d)\<rparr>)))) (\<lambda>d.
         obind (rmmap_all (sy_kern sy) (maplist d) d) (\<lambda>d.
         obind (DRM_UNLOCK (lock_gone d)) (\<lambda>d. Ret (E_OK, d))))))))"

section \<open>Attaching and detaching\<close>

fun hex_digits :: "nat \<Rightarrow> string" where
  "hex_digits n =
     (if n < 16 then [char_of (if n < 10 then 48 + n else 87 + n)]
      else hex_digits (n div 16) @ [char_of (if n mod 16 < 10 then 48 + n mod 16 else 87 + n mod 16)])"

declare hex_digits.simps [simp del]

text \<open>\<^verbatim>\<open>%0wx\<close>\<close>

definition hex_field :: "nat \<Rightarrow> nat \<Rightarrow> string" where
  "hex_field w n = (let s = hex_digits n in replicate (w - length s) (CHR ''0'') @ s)"

text \<open>\<^verbatim>\<open>snprintf\<close> into a buffer: what does not fit is cut off, what lies behind stays.\<close>

definition snprintf_to :: "nat \<Rightarrow> string \<Rightarrow> string \<Rightarrow> string" where
  "snprintf_to n s buf = (let t = take (n - 1) s @ [CHR 0x00] in t @ drop (length t) buf)"

definition pci_busid :: "nat \<Rightarrow> nat \<Rightarrow> nat \<Rightarrow> nat \<Rightarrow> string" where
  "pci_busid domain bus device func =
     ''pci:'' @ hex_field 4 domain @ '':'' @ hex_field 2 bus @ '':'' @ hex_field 2 device @ ''.'' @ hex_digits func"

record 'd drm_attach_args =
  da_driver :: "'d drm_driver_info option"
  da_busid :: string
  da_busid_len :: nat
  da_irq :: int
  da_is_agp :: bool

text \<open>
  \<^verbatim>\<open>drm_attach_pci\<close>: what is handed to \<^verbatim>\<open>config_found\<close>. \<open>junk\<close> is the answer of \<^verbatim>\<open>malloc\<close>: the 21
  bytes as they were.
\<close>

definition drm_attach_pci ::
  "'d drm_driver_info \<Rightarrow> string option \<Rightarrow> nat \<times> nat \<times> nat \<times> nat \<Rightarrow> int \<Rightarrow> bool \<Rightarrow> 'd drm_attach_args option" where
  "drm_attach_pci drv junk addr irqline agpp =
     (case junk of
        None \<Rightarrow> None
      | Some buf \<Rightarrow>
          (case addr of (domain, bus, device, func) \<Rightarrow>
             Some \<lparr>da_driver = Some drv, da_busid = snprintf_to 20 (pci_busid domain bus device func) buf,
                   da_busid_len = 20, da_irq = irqline, da_is_agp = agpp\<rparr>))"

record drm_pcidev =
  pd_vendor :: int
  pd_device :: int

text \<open>The table ends with a vendor of 0; the scan of one that does not runs out of it.\<close>

fun drm_find_description :: "int \<Rightarrow> int \<Rightarrow> drm_pcidev list \<Rightarrow> drm_pcidev option outcome" where
  "drm_find_description vendor device [] = Panic"
| "drm_find_description vendor device (p # ps) =
     (if pd_vendor p = 0 then Ret None
      else if pd_vendor p = vendor \<and> pd_device p = device then Ret (Some p)
      else drm_find_description vendor device ps)"

definition drm_pciprobe :: "int \<Rightarrow> int \<Rightarrow> drm_pcidev list \<Rightarrow> int outcome" where
  "drm_pciprobe vendor product idlist =
     obind (drm_find_description vendor product idlist) (\<lambda>e. Ret (if e \<noteq> None then 1 else 0))"

definition drm_probe :: "'d drm_attach_args \<Rightarrow> int" where
  "drm_probe da = (case da_driver da of None \<Rightarrow> 0 | Some _ \<Rightarrow> 1)"

text \<open>
  The answers to \<^verbatim>\<open>drm_vblank_init\<close>'s allocation, \<^verbatim>\<open>extent_create\<close>, \<^verbatim>\<open>agp_find_device\<close> and
  \<^verbatim>\<open>drm_ctxbitmap_init\<close>'s allocation.
\<close>

record attach_answers =
  at_vblank :: bool
  at_extent :: bool
  at_agp :: bool
  at_ctxbitmap :: bool

definition attach_error ::
  "('a drv_dev_scheme) drm_sys \<Rightarrow> 'a drv_dev_scheme \<Rightarrow> 'a drv_dev_scheme outcome" where
  "attach_error sy d = obind (drm_lastclose sy d) (\<lambda>(_, d). Ret (d\<lparr>dev_private := None\<rparr>))"

text \<open>The AGP part: the device, and whether an AGP that is required is missing.\<close>

definition attach_agp ::
  "('a drv_dev_scheme) drm_sys \<Rightarrow> attach_answers \<Rightarrow> ('a drv_dev_scheme) drm_attach_args \<Rightarrow> 'a drv_dev_scheme \<Rightarrow>
   bool \<times> 'a drv_dev_scheme" where
  "attach_agp sy an da d =
     (if \<not> has_flag (drv_flags (sy_driver sy)) DRIVER_AGP then (False, d)
      else let d = (if da_is_agp da
                    then (case drm_agp_init (sy_kern sy) (at_agp an) (agp_dev d) (dma_mem d) of
                            (ho, l) \<Rightarrow> d\<lparr>agp := ho, dma_mem := l\<rparr>)
                    else d)
           in if has_flag (drv_flags (sy_driver sy)) DRIVER_AGP_REQUIRE \<and> agp d = None then (True, d)
              else (case agp d of
                      None \<Rightarrow> (False, d)
                    | Some h \<Rightarrow>
                        (case drm_mtrr_add (sy_kern sy) (ai_aperture_base (ah_info h))
                                (ai_aperture_size (ah_info h)) (dma_mem d) of
                           (e, l) \<Rightarrow>
                             (False, d\<lparr>agp := Some (if e = E_OK then h\<lparr>ah_mtrr := 1\<rparr> else h), dma_mem := l\<rparr>))))"

text \<open>
  The tags \<^verbatim>\<open>dmat\<close> and \<^verbatim>\<open>bst\<close>, the initialisation of locks and of the pool of objects and the
  assertion on the constant \<^verbatim>\<open>gem_size\<close> have no counterpart.
\<close>

definition drm_attach ::
  "('a drv_dev_scheme) drm_sys \<Rightarrow> attach_answers \<Rightarrow> ('a drv_dev_scheme) drm_attach_args \<Rightarrow> nat \<Rightarrow>
   'a drv_dev_scheme \<Rightarrow> 'a drv_dev_scheme outcome" where
  "drm_attach sy an da parent d =
     (let d = d\<lparr>dev_private := Some parent, dev_irq := da_irq da, unique := da_busid da,
                unique_len := da_busid_len da, maplist := [], files := []\<rparr>;
          (e, d) = (if vblank_pipes (sy_driver sy) \<noteq> 0
                    then drm_vblank_init (at_vblank an) (vblank_pipes (sy_driver sy)) d else (E_OK, d))
      in if e \<noteq> E_OK then attach_error sy d
         else if \<not> at_extent an then attach_error sy d
         else (case attach_agp sy an da (d\<lparr>handle_ext := []\<rparr>) of
                 (True, d) \<Rightarrow> attach_error sy d
               | (False, d) \<Rightarrow>
                   obind (drm_ctxbitmap_init (at_ctxbitmap an) d) (\<lambda>(e, d).
                   if e \<noteq> E_OK then attach_error sy d
                   else Ret (if has_flag (drv_flags (sy_driver sy)) DRIVER_GEM then d\<lparr>name_tree := []\<rparr> else d))))"

definition drm_detach ::
  "('a drv_dev_scheme) drm_sys \<Rightarrow> 'a drv_dev_scheme \<Rightarrow> (errno \<times> 'a drv_dev_scheme) outcome" where
  "drm_detach sy d =
     obind (drm_lastclose sy d) (\<lambda>(_, d).
     obind (drm_vblank_cleanup (sy_driver sy) ((drm_ctxbitmap_cleanup d)\<lparr>handle_ext := []\<rparr>)) (\<lambda>d.
     case agp d of
       None \<Rightarrow> Ret (E_OK, d)
     | Some h \<Rightarrow>
         let l = (if ah_mtrr h \<noteq> 0
                  then snd (drm_mtrr_del (sy_kern sy) (ai_aperture_base (ah_info h))
                              (ai_aperture_size (ah_info h)) (dma_mem d))
                  else dma_mem d)
         in Ret (E_OK, d\<lparr>agp := None, dma_mem := drm_free K_AGPHEAD l\<rparr>)))"

section \<open>Open and close\<close>

definition O_EXCL :: u32 where "O_EXCL = 0x800"

definition open_failed :: "errno \<Rightarrow> 'a drv_dev_scheme \<Rightarrow> (errno \<times> 'a drv_dev_scheme) outcome" where
  "open_failed e d =
     obind (DRM_LOCK d) (\<lambda>d. obind (DRM_UNLOCK (d\<lparr>open_count := open_count d - 1\<rparr>)) (\<lambda>d. Ret (e, d)))"

definition new_file :: "int \<Rightarrow> u32 \<Rightarrow> int \<Rightarrow> bool \<Rightarrow> drm_file" where
  "new_file kd fl mi su =
     \<lparr>obj_tree = [], evlist = [], authenticated = (if su then 1 else 0), ioctl_count = 0, kdev = kd,
      magic = 0, event_space = 4096, f_flags = fl, master = 0, f_minor = mi, obj_id = 0\<rparr>"

text \<open>\<^verbatim>\<open>free_priv:\<close>\<close>

definition open_free :: "errno \<Rightarrow> 'a drv_dev_scheme \<Rightarrow> (errno \<times> 'a drv_dev_scheme) outcome" where
  "open_free e d = open_failed e (d\<lparr>dma_mem := drm_free K_FILE (dma_mem d)\<rparr>)"

text \<open>
  \<^verbatim>\<open>SPLAY_INSERT\<close> leaves the tree as it is when a file of this minor number is in it, which is not
  noticed. \<open>su\<close> is what \<^verbatim>\<open>DRM_SUSER\<close> tells of the caller.
\<close>

definition open_insert :: "drm_file \<Rightarrow> bool \<Rightarrow> 'a drv_dev_scheme \<Rightarrow> (errno \<times> 'a drv_dev_scheme) outcome" where
  "open_insert f su d =
     obind (DRM_LOCK d) (\<lambda>d.
     if files d = [] \<and> \<not> su then obind (DRM_UNLOCK d) (open_free EPERM)
     else obind (DRM_UNLOCK (d\<lparr>files :=
              sp_insert (f_minor f) (f\<lparr>master := (if files d = [] then 1 else 0)\<rparr>) (files d)\<rparr>))
            (\<lambda>d. Ret (E_OK, d)))"

definition open_file ::
  "('a drv_dev_scheme) drm_sys \<Rightarrow> int \<Rightarrow> u32 \<Rightarrow> int \<Rightarrow> bool \<Rightarrow> 'a drv_dev_scheme \<Rightarrow>
   (errno \<times> 'a drv_dev_scheme) outcome" where
  "open_file sy kd fl mi su d =
     (case drm_new (sy_kern sy) K_FILE (dma_mem d) of
        None \<Rightarrow> open_failed ENOMEM d
      | Some l \<Rightarrow>
          (case (case open_cb (sy_driver sy) of
                   None \<Rightarrow> (E_OK, d\<lparr>dma_mem := l\<rparr>)
                 | Some cb \<Rightarrow> cb (d\<lparr>dma_mem := l\<rparr>) mi) of
             (ret, d) \<Rightarrow> if ret \<noteq> E_OK then open_free ret d else open_insert (new_file kd fl mi su) su d))"

definition drmopen ::
  "('a drv_dev_scheme) drm_sys \<Rightarrow> int \<Rightarrow> u32 \<Rightarrow> int \<Rightarrow> bool \<Rightarrow> 'a drv_dev_scheme \<Rightarrow>
   (errno \<times> 'a drv_dev_scheme) outcome" where
  "drmopen sy kd fl mi su d =
     (if dev_private d = None then Ret (ENXIO, d)
      else if fl AND O_EXCL \<noteq> 0 then Ret (EBUSY, d)
      else obind (DRM_LOCK d) (\<lambda>d.
      let first = (open_count d = 0)
      in obind (DRM_UNLOCK (d\<lparr>open_count := open_count d + 1\<rparr>)) (\<lambda>d.
         obind (if first then drm_firstopen sy d else Ret (E_OK, d)) (\<lambda>(ret, d).
         if ret \<noteq> E_OK then open_failed ret d else open_file sy kd fl mi su d))))"

text \<open>The lock of a process that closes its file while it holds it is freed.\<close>

definition close_lock :: "u32 list \<Rightarrow> int \<Rightarrow> 'a lock_dev_scheme \<Rightarrow> 'a lock_dev_scheme outcome" where
  "close_lock ws mi d =
     (case hw_lock (lock d) of
        None \<Rightarrow> Ret d
      | Some w \<Rightarrow>
          if lock_is_held w \<and> lk_file_priv (lock d) = Some mi
          then obind (drm_lock_free (lock d) (locking_context w) ws) (\<lambda>(_, ld). Ret (d\<lparr>lock := ld\<rparr>))
          else Ret d)"

text \<open>\<^verbatim>\<open>done:\<close>\<close>

definition close_done ::
  "('a drv_dev_scheme) drm_sys \<Rightarrow> errno \<Rightarrow> 'a drv_dev_scheme \<Rightarrow> (errno \<times> 'a drv_dev_scheme) outcome" where
  "close_done sy retcode d =
     (let d = d\<lparr>open_count := open_count d - 1\<rparr>
      in obind (DRM_UNLOCK d) (\<lambda>d'. if open_count d = 0 then drm_lastclose sy d' else Ret (retcode, d')))"

text \<open>What the file holds: the lock, DMA buffers, events and handles.\<close>

definition close_holdings ::
  "('a drv_dev_scheme) drm_sys \<Rightarrow> int \<Rightarrow> 'a drv_dev_scheme \<Rightarrow> 'a drv_dev_scheme outcome" where
  "close_holdings sy mi d =
     (let drv = sy_driver sy
      in obind (close_lock (sy_words sy) mi (case close_cb drv of None \<Rightarrow> d | Some cb \<Rightarrow> cb d mi)) (\<lambda>d.
         obind (close_events mi (if has_flag (drv_flags drv) DRIVER_DMA then drm_reclaim_buffers mi d else d)) (\<lambda>d.
         obind (DRM_LOCK d) (\<lambda>d.
         if has_flag (drv_flags drv) DRIVER_GEM
         then (case drm_find_file_by_minor d mi of
                 None \<Rightarrow> Panic
               | Some f \<Rightarrow> close_handles drv (sy_holds sy) (sy_root sy) 0 (obj_tree f) mi d)
         else Ret d))))"

definition drmclose ::
  "('a drv_dev_scheme) drm_sys \<Rightarrow> int \<Rightarrow> 'a drv_dev_scheme \<Rightarrow> (errno \<times> 'a drv_dev_scheme) outcome" where
  "drmclose sy mi d =
     obind (DRM_LOCK d) (\<lambda>d.
     case drm_find_file_by_minor d mi of
       None \<Rightarrow> close_done sy EINVAL d
     | Some _ \<Rightarrow>
         obind (DRM_UNLOCK d) (\<lambda>d.
         obind (close_holdings sy mi d) (\<lambda>d.
         close_done sy E_OK (d\<lparr>buf_pgid := 0, files := sp_remove mi (files d),
                               dma_mem := drm_free K_FILE (dma_mem d)\<rparr>))))"

section \<open>The ioctls of the core itself\<close>

text \<open>The reply is the length and, if it was asked for with enough room, the copy.\<close>

definition drm_getunique :: "bool \<Rightarrow> u64 \<Rightarrow> 'a drv_dev_scheme \<Rightarrow> errno \<times> u64 \<times> string" where
  "drm_getunique copy_ok len d =
     (if len \<ge> of_nat (unique_len d)
      then if \<not> copy_ok then (EFAULT, len, [])
           else (E_OK, of_nat (unique_len d), take (unique_len d) (unique d))
      else (E_OK, of_nat (unique_len d), []))"

text \<open>\<^verbatim>\<open>DRM_COPY\<close>\<close>

definition drm_copy :: "bool \<Rightarrow> string \<Rightarrow> version_string \<Rightarrow> bool \<times> version_string" where
  "drm_copy copy_ok value vs =
     (let len = (if of_nat (length value) > vs_len vs then unat (vs_len vs) else length value);
          vs' = vs\<lparr>vs_len := of_nat (length value)\<rparr>
      in if len \<noteq> 0 \<and> vs_given vs
         then (if copy_ok then (True, vs'\<lparr>vs_out := take len value\<rparr>) else (False, vs'))
         else (True, vs'))"

definition drm_version_ioctl ::
  "'d drm_driver_info \<Rightarrow> (nat \<Rightarrow> bool) \<Rightarrow> drm_version \<Rightarrow> errno \<times> drm_version" where
  "drm_version_ioctl drv co v =
     (let v = v\<lparr>version_major := drv_major drv, version_minor := drv_minor drv,
                version_patchlevel := drv_patchlevel drv\<rparr>
      in case drm_copy (co 0) (drv_name drv) (ver_name v) of
           (False, s) \<Rightarrow> (EFAULT, v\<lparr>ver_name := s\<rparr>)
         | (True, s) \<Rightarrow>
             (let v = v\<lparr>ver_name := s\<rparr>
              in case drm_copy (co 1) (drv_date drv) (ver_date v) of
                   (False, s) \<Rightarrow> (EFAULT, v\<lparr>ver_date := s\<rparr>)
                 | (True, s) \<Rightarrow>
                     (let v = v\<lparr>ver_date := s\<rparr>
                      in case drm_copy (co 2) (drv_desc drv) (ver_desc v) of
                           (False, s) \<Rightarrow> (EFAULT, v\<lparr>ver_desc := s\<rparr>)
                         | (True, s) \<Rightarrow> (E_OK, v\<lparr>ver_desc := s\<rparr>))))"

definition DRM_IF_MAJOR :: int where "DRM_IF_MAJOR = 1"
definition DRM_IF_MINOR :: int where "DRM_IF_MINOR = 2"

text \<open>The interface version is made of the requested interface's major and the driver's minor number.\<close>

definition drm_setversion ::
  "'d drm_driver_info \<Rightarrow> drm_set_version \<Rightarrow> 'a file_dev_scheme \<Rightarrow>
   errno \<times> drm_set_version \<times> 'a file_dev_scheme" where
  "drm_setversion drv ver d =
     (let sv = \<lparr>drm_di_major = DRM_IF_MAJOR, drm_di_minor = DRM_IF_MINOR,
                drm_dd_major = drv_major drv, drm_dd_minor = drv_minor drv\<rparr>
      in if drm_di_major ver \<noteq> -1 \<and>
            (drm_di_major ver \<noteq> DRM_IF_MAJOR \<or> drm_di_minor ver < 1 \<or> drm_di_minor ver > DRM_IF_MINOR)
         then (EINVAL, sv, d)
         else let d = (if drm_di_major ver \<noteq> -1
                       then d\<lparr>if_version := max (DRM_IF_VERSION (drm_di_major ver) (drm_dd_minor ver)) (if_version d)\<rparr>
                       else d)
              in if drm_dd_major ver \<noteq> -1 \<and>
                    (drm_dd_major ver \<noteq> drv_major drv \<or> drm_dd_minor ver < 0 \<or> drm_dd_minor ver > drv_minor drv)
                 then (EINVAL, sv, d) else (E_OK, sv, d))"

definition drm_getmagic :: "int \<Rightarrow> 'a bus_dev_scheme \<Rightarrow> (errno \<times> u32 \<times> 'a bus_dev_scheme) outcome" where
  "drm_getmagic mi d =
     (let d = (if magicid d = 0 then d\<lparr>magicid := 1\<rparr> else d)
      in case drm_find_file_by_minor d mi of
           None \<Rightarrow> Panic
         | Some f \<Rightarrow>
             if magic f \<noteq> 0 then Ret (E_OK, magic f, d)
             else obind (DRM_LOCK d) (\<lambda>d.
                  let a = magicid d in
                  obind (DRM_UNLOCK (upd_file mi (\<lambda>f. f\<lparr>magic := a\<rparr>) (d\<lparr>magicid := a + 1\<rparr>)))
                    (\<lambda>d. Ret (E_OK, a, d))))"

text \<open>The first file in the order of the minor numbers is taken.\<close>

definition drm_authmagic :: "u32 \<Rightarrow> 'a bus_dev_scheme \<Rightarrow> (errno \<times> 'a bus_dev_scheme) outcome" where
  "drm_authmagic a d =
     (if a = 0 then Ret (EINVAL, d)
      else obind (DRM_LOCK d) (\<lambda>d.
      case find (\<lambda>(m, f). magic f = a) (files d) of
        None \<Rightarrow> obind (DRM_UNLOCK d) (\<lambda>d. Ret (EINVAL, d))
      | Some (m, _) \<Rightarrow>
          obind (DRM_UNLOCK (upd_file m (\<lambda>f. f\<lparr>authenticated := 1, magic := 0\<rparr>) d)) (\<lambda>d. Ret (E_OK, d))))"

section \<open>Dispatch\<close>

text \<open>
  Each of the three \<^verbatim>\<open>switch\<close> statements is a function to an option: \<open>None\<close> when the command is not
  one of its cases. \<open>f\<close> is the file.
\<close>

definition ret0 :: "drm_reply \<Rightarrow> (errno \<times> 'd) \<Rightarrow> (errno \<times> drm_reply \<times> 'd) outcome" where
  "ret0 r = (\<lambda>(e, d). Ret (e, r, d))"

definition owner_result :: "('a bus_dev_scheme \<Rightarrow> int \<Rightarrow> 'a bus_dev_scheme) \<Rightarrow> 'a bus_dev_scheme \<Rightarrow> errno \<times> int \<Rightarrow>
   (errno \<times> drm_reply \<times> 'a bus_dev_scheme) outcome" where
  "owner_result g d = (\<lambda>(e, pg). Ret (e, OWNER pg, g d pg))"

type_synonym 'd ioctl_result = "(errno \<times> drm_reply \<times> 'd) outcome"

definition ioctl_public ::
  "('a drv_dev_scheme) drm_sys \<Rightarrow> drm_cmd \<Rightarrow> int \<Rightarrow> 'a drv_dev_scheme \<Rightarrow>
   ('a drv_dev_scheme) ioctl_result option" where
  "ioctl_public sy cmd mi d =
     (case cmd of
        FIONBIO \<Rightarrow> Some (Ret (E_OK, NO_DATA, d))
      | FIOASYNC \<Rightarrow> Some (Ret (E_OK, NO_DATA, d))
      | SIOCSPGRP p \<Rightarrow>
          Some (owner_result (\<lambda>d pg. d\<lparr>buf_pgid := pg\<rparr>) d (sy_fsetown sy (SIOCSPGRP p) (buf_pgid d)))
      | TIOCSPGRP p \<Rightarrow>
          Some (owner_result (\<lambda>d pg. d\<lparr>buf_pgid := pg\<rparr>) d (sy_fsetown sy (TIOCSPGRP p) (buf_pgid d)))
      | FIOSETOWN p \<Rightarrow>
          Some (owner_result (\<lambda>d pg. d\<lparr>buf_pgid := pg\<rparr>) d (sy_fsetown sy (FIOSETOWN p) (buf_pgid d)))
      | SIOCGPGRP \<Rightarrow> Some (owner_result (\<lambda>d pg. d) d (sy_fgetown sy SIOCGPGRP (buf_pgid d)))
      | TIOCGPGRP \<Rightarrow> Some (owner_result (\<lambda>d pg. d) d (sy_fgetown sy TIOCGPGRP (buf_pgid d)))
      | FIOGETOWN \<Rightarrow> Some (owner_result (\<lambda>d pg. d) d (sy_fgetown sy FIOGETOWN (buf_pgid d)))
      | DRM_IOCTL_VERSION v \<Rightarrow>
          Some (case drm_version_ioctl (sy_driver sy) (sy_copyout sy) v of (e, v) \<Rightarrow> Ret (e, VERSION_REPLY v, d))
      | DRM_IOCTL_GET_UNIQUE len \<Rightarrow>
          Some (case drm_getunique (sy_copyout sy 0) len d of (e, n, s) \<Rightarrow> Ret (e, UNIQUE_REPLY n s, d))
      | DRM_IOCTL_GET_MAGIC \<Rightarrow>
          Some (obind (drm_getmagic mi d) (\<lambda>(e, a, d). Ret (e, MAGIC_REPLY a, d)))
      | DRM_IOCTL_WAIT_VBLANK vw \<Rightarrow>
          Some (obind (drm_wait_vblank (sy_driver sy) (sy_sleeps sy) (sy_calloc sy) (sy_now sy) vw mi d)
             (\<lambda>(e, vw, d). Ret (e, VBLANK_REPLY vw, d)))
      | DRM_IOCTL_MODESET_CTL crtc c \<Rightarrow>
          Some (obind (drm_modeset_ctl (sy_driver sy) crtc c d) (ret0 NO_DATA))
      | DRM_IOCTL_GEM_CLOSE h \<Rightarrow>
          Some (obind (drm_gem_close_ioctl (sy_driver sy) (sy_holds sy 0) mi h d) (ret0 NO_DATA))
      | DRM_IOCTL_GET_MAP \<Rightarrow> Some (Ret (EINVAL, NO_DATA, d))
      | DRM_IOCTL_GET_CLIENT \<Rightarrow> Some (Ret (EINVAL, NO_DATA, d))
      | DRM_IOCTL_GET_STATS \<Rightarrow> Some (Ret (EINVAL, NO_DATA, d))
      | DRM_IOCTL_SET_SAREA_CTX \<Rightarrow> Some (Ret (E_OK, NO_DATA, d))
      | DRM_IOCTL_BLOCK \<Rightarrow> Some (Ret (E_OK, NO_DATA, d))
      | DRM_IOCTL_UNBLOCK \<Rightarrow> Some (Ret (E_OK, NO_DATA, d))
      | DRM_IOCTL_MOD_CTX \<Rightarrow> Some (Ret (E_OK, NO_DATA, d))
      | DRM_IOCTL_MARK_BUFS \<Rightarrow> Some (Ret (E_OK, NO_DATA, d))
      | DRM_IOCTL_FINISH \<Rightarrow> Some (Ret (E_OK, NO_DATA, d))
      | DRM_IOCTL_INFO_BUFS \<Rightarrow> Some (Ret (E_OK, NO_DATA, d))
      | DRM_IOCTL_SWITCH_CTX \<Rightarrow> Some (Ret (E_OK, NO_DATA, d))
      | DRM_IOCTL_NEW_CTX \<Rightarrow> Some (Ret (E_OK, NO_DATA, d))
      | DRM_IOCTL_GET_SAREA_CTX \<Rightarrow> Some (Ret (E_OK, NO_DATA, d))
      | _ \<Rightarrow> None)"

definition ioctl_auth ::
  "('a drv_dev_scheme) drm_sys \<Rightarrow> drm_cmd \<Rightarrow> int \<Rightarrow> 'a drv_dev_scheme \<Rightarrow>
   ('a drv_dev_scheme) ioctl_result option" where
  "ioctl_auth sy cmd mi d =
     (case cmd of
        DRM_IOCTL_RM_MAP h \<Rightarrow> Some (obind (drm_rmmap_ioctl (sy_kern sy) h d) (ret0 NO_DATA))
      | DRM_IOCTL_GET_CTX h fl \<Rightarrow>
          Some (case drm_getctx (h, fl) of (e, h, fl) \<Rightarrow> Ret (e, CTX_REPLY h fl, d))
      | DRM_IOCTL_RES_CTX n \<Rightarrow>
          Some (case drm_resctx (sy_copyout sy) n of (e, n, hs) \<Rightarrow> Ret (e, CONTEXTS_REPLY n hs, d))
      | DRM_IOCTL_LOCK c \<Rightarrow> Some (obind (drm_lock (sy_turns sy) c mi d) (ret0 NO_DATA))
      | DRM_IOCTL_UNLOCK c \<Rightarrow> Some (obind (drm_unlock (sy_words sy) c d) (ret0 NO_DATA))
      | DRM_IOCTL_MAP_BUFS n \<Rightarrow>
          Some (obind (drm_mapbufs (drv_flags (sy_driver sy)) (sy_vfinddev sy) (sy_uvm_mmap sy) (sy_copyfield sy) n d)
             (\<lambda>(e, r, d). Ret (e, BUFS_REPLY r, d)))
      | DRM_IOCTL_FREE_BUFS xs \<Rightarrow> Some (obind (drm_freebufs xs mi d) (ret0 NO_DATA))
      | DRM_IOCTL_DMA rq \<Rightarrow>
          Some (obind (drm_dma_call (sy_driver sy) rq mi d) (\<lambda>(e, rq, d). Ret (e, DMA_REPLY rq, d)))
      | DRM_IOCTL_AGP_INFO \<Rightarrow>
          Some (case drm_agp_info_get d of ((e, i), d) \<Rightarrow> Ret (e, AGP_INFO_REPLY i, d))
      | DRM_IOCTL_GEM_FLINK h \<Rightarrow>
          Some (obind (drm_gem_flink_ioctl (sy_driver sy) (sy_holds sy 0 0) mi h d)
             (\<lambda>(e, n, d). Ret (e, NAME_REPLY n, d)))
      | DRM_IOCTL_GEM_OPEN n \<Rightarrow>
          Some (obind (drm_gem_open_ioctl (sy_driver sy) (sy_holds sy 0 0) (sy_calloc sy) mi n d)
             (\<lambda>(e, h, sz, d). Ret (e, HANDLE_REPLY h sz, d)))
      | _ \<Rightarrow> None)"

definition ioctl_master ::
  "('a drv_dev_scheme) drm_sys \<Rightarrow> drm_cmd \<Rightarrow> drm_file \<Rightarrow> 'a drv_dev_scheme \<Rightarrow>
   ('a drv_dev_scheme) ioctl_result option" where
  "ioctl_master sy cmd f d =
     (case cmd of
        DRM_IOCTL_SET_VERSION v \<Rightarrow>
          Some (case drm_setversion (sy_driver sy) v d of (e, v, d) \<Rightarrow> Ret (e, SET_VERSION_REPLY v, d))
      | DRM_IOCTL_IRQ_BUSID \<Rightarrow>
          Some (case drm_irq_by_busid d of (e, i) \<Rightarrow> Ret (e, IRQ_REPLY i, d))
      | DRM_IOCTL_AUTH_MAGIC a \<Rightarrow> Some (obind (drm_authmagic a d) (ret0 NO_DATA))
      | DRM_IOCTL_ADD_MAP rq \<Rightarrow>
          Some (obind (drm_addmap_ioctl (sy_kern sy) (sy_env sy) rq f d) (\<lambda>((e, rq), d). Ret (e, MAP_REPLY rq, d)))
      | DRM_IOCTL_ADD_CTX \<Rightarrow> Some (obind (drm_addctx d) (\<lambda>(e, h, d). Ret (e, CTX_REPLY h 0, d)))
      | DRM_IOCTL_RM_CTX h \<Rightarrow> Some (ret0 NO_DATA (drm_rmctx h d))
      | DRM_IOCTL_ADD_BUFS rq \<Rightarrow>
          Some (obind (drm_addbufs (sy_kern sy) rq d) (\<lambda>(e, rq, d). Ret (e, BUF_DESC_REPLY rq, d)))
      | DRM_IOCTL_CONTROL fn i \<Rightarrow> Some (obind (drm_control (sy_driver sy) fn i d) (ret0 NO_DATA))
      | DRM_IOCTL_AGP_ACQUIRE \<Rightarrow> Some (ret0 NO_DATA (drm_agp_acquire d))
      | DRM_IOCTL_AGP_RELEASE \<Rightarrow> Some (ret0 NO_DATA (drm_agp_release d))
      | DRM_IOCTL_AGP_ENABLE m \<Rightarrow> Some (ret0 NO_DATA (drm_agp_enable (sy_agp sy) m d))
      | DRM_IOCTL_AGP_ALLOC sz ty \<Rightarrow>
          Some (obind (drm_agp_alloc (sy_kern sy) (sy_agp sy) sz ty d) (\<lambda>((e, r), d). Ret (e, AGP_ALLOC_REPLY r, d)))
      | DRM_IOCTL_AGP_FREE h \<Rightarrow> Some (obind (drm_agp_free (sy_agp sy) h d) (ret0 NO_DATA))
      | DRM_IOCTL_AGP_BIND h off \<Rightarrow> Some (obind (drm_agp_bind (sy_agp sy) h off d) (ret0 NO_DATA))
      | DRM_IOCTL_AGP_UNBIND h \<Rightarrow> Some (obind (drm_agp_unbind (sy_agp sy) h d) (ret0 NO_DATA))
      | DRM_IOCTL_SG_ALLOC sz \<Rightarrow>
          Some (obind (drm_sg_alloc_ioctl (sy_kern sy) (sy_env sy) sz d) (\<lambda>((e, h), d). Ret (e, SG_REPLY h, d)))
      | DRM_IOCTL_SG_FREE h \<Rightarrow> Some (obind (drm_sg_free h d) (ret0 NO_DATA))
      | DRM_IOCTL_ADD_DRAW \<Rightarrow> Some (Ret (E_OK, NO_DATA, d))
      | DRM_IOCTL_RM_DRAW \<Rightarrow> Some (Ret (E_OK, NO_DATA, d))
      | DRM_IOCTL_UPDATE_DRAW \<Rightarrow> Some (Ret (E_OK, NO_DATA, d))
      | DRM_IOCTL_SET_UNIQUE \<Rightarrow> Some (Ret (EBUSY, NO_DATA, d))
      | _ \<Rightarrow> None)"

definition driver_ioctl ::
  "('a drv_dev_scheme) drm_sys \<Rightarrow> drm_cmd \<Rightarrow> int \<Rightarrow> 'a drv_dev_scheme \<Rightarrow> ('a drv_dev_scheme) ioctl_result" where
  "driver_ioctl sy cmd mi d =
     (case ioctl_cb (sy_driver sy) of
        None \<Rightarrow> Ret (EINVAL, NO_DATA, d)
      | Some cb \<Rightarrow> ret0 NO_DATA (cb d (cmd_nr cmd) mi))"

definition drmioctl ::
  "('a drv_dev_scheme) drm_sys \<Rightarrow> drm_cmd \<Rightarrow> int \<Rightarrow> 'a drv_dev_scheme \<Rightarrow> ('a drv_dev_scheme) ioctl_result" where
  "drmioctl sy cmd mi d =
     obind (DRM_LOCK d) (\<lambda>d.
     let fp = drm_find_file_by_minor d mi in
     obind (DRM_UNLOCK d) (\<lambda>d.
     case fp of
       None \<Rightarrow> Ret (EINVAL, NO_DATA, d)
     | Some f \<Rightarrow>
         let d = upd_file mi (\<lambda>f. f\<lparr>ioctl_count := ioctl_count f + 1\<rparr>) d in
         case ioctl_public sy cmd mi d of
           Some r \<Rightarrow> r
         | None \<Rightarrow>
             (case (if authenticated f = 1 then ioctl_auth sy cmd mi d else None) of
                Some r \<Rightarrow> r
              | None \<Rightarrow>
                  (case (if master f = 1 then ioctl_master sy cmd f d else None) of
                     Some r \<Rightarrow> r
                   | None \<Rightarrow> driver_ioctl sy cmd mi d))))"

end
