(* ===== verification/Drv_Frame.thy ===== *)
theory Drv_Frame
  imports Drm_Drv Maps_Ops
begin

text \<open>
  What the operations leave alone. \<open>yields\<close> states a property of the results of a call that returns;
  the locale \<open>blind\<close> collects the laws of an observation of the device that does not see what the
  interrupt code and GEM work on, and proves of each of their operations that it does not change
  the observation.
\<close>

section \<open>Results of a call\<close>

definition yields :: "('r \<Rightarrow> bool) \<Rightarrow> 'r outcome \<Rightarrow> bool" where
  "yields Q m \<longleftrightarrow> (\<forall>r. m = Ret r \<longrightarrow> Q r)"

lemma yields_simps [simp]: "yields Q (Ret x) = Q x" "yields Q Panic" "yields Q Asleep"
  by (simp_all add: yields_def)

lemma yields_obind [simp]: "yields Q (obind m f) = yields (\<lambda>x. yields Q (f x)) m"
  by (cases m) simp_all

lemma yields_mono: "yields R m \<Longrightarrow> (\<And>x. R x \<Longrightarrow> Q x) \<Longrightarrow> yields Q m"
  by (auto simp: yields_def)

lemma yieldsD: "yields Q m \<Longrightarrow> m = Ret r \<Longrightarrow> Q r"
  by (simp add: yields_def)

text \<open>What others do, and what a callback does, as far as an observation goes.\<close>

definition kept :: "('d \<Rightarrow> 'x) \<Rightarrow> ('d \<Rightarrow> 'd) \<Rightarrow> bool" where
  "kept g f \<longleftrightarrow> (\<forall>d. g (f d) = g d)"

lemma keptD: "kept g f \<Longrightarrow> g (f d) = g d"
  by (simp add: kept_def)

section \<open>Observations blind to interrupts and GEM\<close>

text \<open>Changes of a file that its role does not depend on.\<close>

definition same_role :: "(drm_file \<Rightarrow> drm_file) \<Rightarrow> bool" where
  "same_role h \<longleftrightarrow> (\<forall>f. authenticated (h f) = authenticated f \<and> master (h f) = master f \<and> magic (h f) = magic f)"

locale blind =
  fixes g :: "'a irq_dev_scheme \<Rightarrow> 'x"
  assumes blind_vblank: "g (d\<lparr>vblank := v\<rparr>) = g d"
    and blind_file: "same_role h \<Longrightarrow> g (upd_file m h d) = g d"
    and blind_objs: "g (d\<lparr>objs := os\<rparr>) = g d"
    and blind_counts: "g (d\<lparr>uao_count := u, obj_count := c, obj_memory := k\<rparr>) = g d"
    and blind_names: "g (d\<lparr>name_tree := t\<rparr>) = g d"
    and blind_name: "g (d\<lparr>obj_name := n\<rparr>) = g d"
begin

lemma file_update:
  "g (upd_file m (\<lambda>f. f\<lparr>event_space := e f\<rparr>) d) = g d"
  "g (upd_file m (\<lambda>f. f\<lparr>evlist := l f\<rparr>) d) = g d"
  "g (upd_file m (\<lambda>f. f\<lparr>obj_tree := t f\<rparr>) d) = g d"
  "g (upd_file m (\<lambda>f. f\<lparr>obj_id := i f, obj_tree := t f\<rparr>) d) = g d"
  "g (upd_file m (\<lambda>f. f\<lparr>ioctl_count := n f\<rparr>) d) = g d"
  by (rule blind_file, simp add: same_role_def)+

lemma crtc_update: "g (set_crtc c h d) = g d" "g (arm_timer s d) = g d"
  by (simp_all add: set_crtc_def arm_timer_def blind_vblank)

lemma obj_update: "g (upd_obj i h d) = g d"
  by (simp add: upd_obj_def blind_objs)

lemmas updates = file_update crtc_update obj_update blind_vblank blind_objs blind_counts blind_names blind_name

text \<open>The callbacks the interrupt code and GEM use.\<close>

definition quiet :: "('a irq_dev_scheme) drm_driver_info \<Rightarrow> bool" where
  "quiet drv \<longleftrightarrow>
     (\<forall>c. kept g (\<lambda>d. snd (enable_vblank drv d c))) \<and>
     (\<forall>cb i. gem_free_object drv = Some cb \<longrightarrow> kept g (\<lambda>d. cb d i))"

definition quiet_sleeps :: "('a irq_dev_scheme) sleeps \<Rightarrow> bool" where
  "quiet_sleeps sl \<longleftrightarrow> (\<forall>x\<in>set sl. kept g (snd x))"

lemma update_count: "yields (\<lambda>d'. g d' = g d) (drm_update_vblank_count drv c d)"
  by (simp add: drm_update_vblank_count_def updates split: option.splits)

lemma vblank_get: "quiet drv \<Longrightarrow> yields (\<lambda>(e, d'). g d' = g d) (drm_vblank_get drv c d)"
proof -
  assume drv: "quiet drv"
  let ?d = "set_crtc c (\<lambda>w. w\<lparr>vbl_refs := vbl_refs w + 1\<rparr>) d"
  obtain ret d2 where en: "enable_vblank drv ?d c = (ret, d2)"
    by (cases "enable_vblank drv ?d c")
  have "kept g (\<lambda>d. snd (enable_vblank drv d c))"
    using drv by (simp add: quiet_def)
  from keptD[OF this, of ?d] have "g d2 = g d"
    by (simp add: en crtc_update)
  then show ?thesis
    by (auto simp: drm_vblank_get_def en updates Let_def split: option.splits intro!: yields_mono[OF update_count])
qed

lemma vblank_put: "yields (\<lambda>d'. g d' = g d) (drm_vblank_put c d)"
  by (auto simp: drm_vblank_put_def updates Let_def split: option.splits)

lemma modeset_ctl: "quiet drv \<Longrightarrow> yields (\<lambda>(e, d'). g d' = g d) (drm_modeset_ctl drv c cmd d)"
  unfolding drm_modeset_ctl_def
  by (auto simp: updates split: option.splits drm_modeset_cmd.splits
      intro!: yields_mono[OF vblank_get] yields_mono[OF vblank_put])

lemma queue_event: "yields (\<lambda>(e, vw, d'). g d' = g d) (drm_queue_vblank_event ok now c vw m d)"
  unfolding drm_queue_vblank_event_def drm_vblank_count_def
  by (auto simp: updates Let_def split: option.splits intro!: yields_mono[OF vblank_put])

lemma wait_on: "quiet_sleeps sl \<Longrightarrow> yields (\<lambda>(e, d'). g d' = g d) (wait_vblank_on sl c want d)"
proof (induction sl arbitrary: d)
  case Nil
  then show ?case
    by (auto simp: wait_vblank_on.simps[of "[]"] drm_vblank_count_def split: option.splits)
next
  case (Cons x sl)
  obtain ret env where x: "x = (ret, env)"
    by (cases x)
  have env: "g (env d) = g d"
    using Cons.prems by (simp add: quiet_sleeps_def x kept_def)
  have "quiet_sleeps sl"
    using Cons.prems by (simp add: quiet_sleeps_def)
  from Cons.IH[OF this, of "env d"] show ?case
    unfolding x wait_vblank_on.simps[of "(ret, env) # sl"]
    by (auto simp: drm_vblank_count_def env split: option.splits)
qed

lemma wait_vblank:
  assumes drv: "quiet drv" and sl: "quiet_sleeps sl"
  shows "yields (\<lambda>(e, vw, d'). g d' = g d) (drm_wait_vblank drv sl ok now vw m d)"
proof -
  have count: "yields (\<lambda>_. True) (drm_vblank_count x c)" for x c
    by (simp add: yields_def)
  have wait: "yields (\<lambda>(ret2, d2). yields (\<lambda>seq2. yields (\<lambda>d3. g d3 = g d) (drm_vblank_put c d2)) (drm_vblank_count d2 c))
      (wait_vblank_on sl c want d1)" if "g d1 = g d" for c want d1
    by (rule yields_mono[OF wait_on[OF sl]]) (auto simp: that intro!: yields_mono[OF count] yields_mono[OF vblank_put])
  have queue: "yields (\<lambda>(e, vw, d'). g d' = g d) (drm_queue_vblank_event ok now c vw m d1)" if "g d1 = g d" for c vw d1
    by (rule yields_mono[OF queue_event]) (auto simp: that)
  show ?thesis
    unfolding drm_wait_vblank_def
    by (auto simp: Let_def split: option.splits intro!: yields_mono[OF vblank_get[OF drv]] yields_mono[OF count] queue
        yields_mono[OF wait])
qed

section \<open>GEM\<close>

definition quiet_holds :: "('a irq_dev_scheme \<Rightarrow> 'a irq_dev_scheme) list \<Rightarrow> bool" where
  "quiet_holds sl \<longleftrightarrow> (\<forall>x\<in>set sl. kept g x)"

lemma free_object: "quiet drv \<Longrightarrow> g (free_object drv i obj d) = g d"
  by (auto simp: free_object_def updates quiet_def kept_def Let_def split: option.splits)

lemma unref: "quiet drv \<Longrightarrow> quiet_holds sl \<Longrightarrow> yields (\<lambda>d'. g d' = g d) (drm_unref drv sl i d)"
  unfolding drm_unref_def
proof (induction sl arbitrary: d)
  case Nil
  then show ?case
    by (auto simp: drm_unref_locked.simps[of _ "[]"] updates free_object split: option.splits)
next
  case (Cons e sl)
  then have "g (e x) = g x" for x
    by (simp add: quiet_holds_def kept_def)
  moreover have "quiet_holds sl"
    using Cons.prems by (simp add: quiet_holds_def)
  ultimately show ?case
    using Cons.IH[of "e (upd_obj i (do_flags_update (\<lambda>w. w OR DRM_WANTED)) d)"] Cons.prems
    by (auto simp: drm_unref_locked.simps[of _ "e # sl"] updates free_object split: option.splits)
qed

lemma handle_unref:
  assumes "quiet drv" and "\<forall>k. quiet_holds (sl k)"
  shows "yields (\<lambda>d'. g d' = g d) (drm_handle_unref drv sl i d)"
  using assms unfolding drm_handle_unref_def
  by (auto simp: Let_def updates split: option.splits intro!: yields_mono[OF unref])

lemma gem_close:
  assumes "quiet drv" and "\<forall>k. quiet_holds (sl k)"
  shows "yields (\<lambda>(e, d'). g d' = g d) (drm_gem_close_ioctl drv sl m h d)"
  using assms unfolding drm_gem_close_ioctl_def
  by (auto simp: updates split: option.splits intro!: yields_mono[OF handle_unref])

lemma ref: "yields (\<lambda>d'. g d' = g d) (drm_ref i d)"
  by (simp add: drm_ref_def drm_ref_locked_def updates)

lemma gem_flink:
  assumes "quiet drv" and "quiet_holds sl"
  shows "yields (\<lambda>(e, n, d'). g d' = g d) (drm_gem_flink_ioctl drv sl m h d)"
  using assms unfolding drm_gem_flink_ioctl_def drm_gem_object_lookup_def
  by (auto simp: updates split: option.splits intro!: yields_mono[OF ref] yields_mono[OF unref])

lemma handle_create: "yields (\<lambda>(e, h, d'). g d' = g d) (drm_handle_create ok m i d)"
  by (auto simp: drm_handle_create_def drm_handle_ref_def updates Let_def split: option.splits)

lemma gem_open:
  assumes "quiet drv" and "quiet_holds sl"
  shows "yields (\<lambda>(e, h, sz, d'). g d' = g d) (drm_gem_open_ioctl drv sl ok m n d)"
  using assms unfolding drm_gem_open_ioctl_def
  by (auto simp: updates split: option.splits
      intro!: yields_mono[OF ref] yields_mono[OF handle_create] yields_mono[OF unref])

lemma drop_file_events: "yields (\<lambda>d'. g d' = g d) (drop_file_events m c evs d)"
proof (induction evs arbitrary: d)
  case (Cons ev evs)
  have "yields (\<lambda>d'. g d' = g d) (drop_file_events m c evs x)" if "g x = g d" for x
    by (rule yields_mono[OF Cons.IH]) (simp add: that)
  then show ?case
    by (auto simp: updates intro!: yields_mono[OF vblank_put])
qed simp

lemma drop_all_events: "yields (\<lambda>d'. g d' = g d) (drop_all_events m n i d)"
proof (induction n arbitrary: i d)
  case (Suc n)
  have "yields (\<lambda>d'. g d' = g d) (drop_all_events m n j x)" if "g x = g d" for j x
    by (rule yields_mono[OF Suc.IH]) (simp add: that)
  then show ?case
    by (auto split: option.splits intro!: yields_mono[OF drop_file_events])
qed simp

lemma close_events: "yields (\<lambda>d'. g d' = g d) (close_events m d)"
  by (auto simp: close_events_def updates split: option.splits intro!: yields_mono[OF drop_all_events])

lemma close_handles:
  assumes drv: "quiet drv" and sl: "\<forall>k i. quiet_holds (sl k i)"
  shows "yields (\<lambda>d'. g d' = g d) (close_handles drv sl root k t m d)"
proof (induction "length t" arbitrary: k t d rule: less_induct)
  case less
  show ?case
  proof (cases "t = [] \<or> map_of t (root t) = None")
    case True
    then show ?thesis
      by (auto simp: close_handles.simps[of _ _ _ _ t])
  next
    case False
    then obtain i where i: "map_of t (root t) = Some i" "t \<noteq> []"
      by auto
    have "yields (\<lambda>d'. g d' = g d) (close_handles drv sl root (Suc k) (sp_remove (root t) t) m x)" if "g x = g d" for x
      by (rule yields_mono[OF less.hyps[OF sp_remove_shorter[OF i(1)]]]) (simp add: that)
    moreover have "\<forall>j. quiet_holds (sl k j)"
      using sl by blast
    ultimately show ?thesis
      using i by (auto simp: close_handles.simps[of _ _ _ _ t] updates Let_def
          intro!: yields_mono[OF handle_unref[OF drv]])
  qed
qed

text \<open>What the driver and others do while an ioctl runs.\<close>

definition calm_sys :: "('a irq_dev_scheme) drm_sys \<Rightarrow> bool" where
  "calm_sys sy \<longleftrightarrow>
     quiet (sy_driver sy) \<and> quiet_sleeps (sy_sleeps sy) \<and> (\<forall>k i. quiet_holds (sy_holds sy k i)) \<and>
     (\<forall>(ws, ret, env)\<in>set (sy_turns sy). kept g env) \<and>
     (\<forall>cb m n. dma_ioctl (sy_driver sy) = Some cb \<longrightarrow> kept g (\<lambda>d. snd (snd (cb d m n)))) \<and>
     (\<forall>cb nr m. ioctl_cb (sy_driver sy) = Some cb \<longrightarrow> kept g (\<lambda>d. snd (cb d nr m)))"

end

end
