(* ===== verification/Drv_Priv.thy ===== *)
theory Drv_Priv
  imports Drv_Frame
begin

text \<open>
  Who may do what through \<^verbatim>\<open>drmioctl\<close>: a client that is neither authenticated nor master changes
  nothing of what is shared by the clients, and one that is not master nothing of what the master
  manages.
\<close>

section \<open>Observations blind to what an authenticated client does\<close>

locale client = blind g for g :: "'a bus_dev_scheme \<Rightarrow> 'x" +
  assumes blind_lock: "g (d\<lparr>lock := ld\<rparr>) = g d"
    and blind_dev_lock: "g (d\<lparr>dev_lock := b\<rparr>) = g d"
    and blind_maps: "g (d\<lparr>maplist := ms\<rparr>) = g d"
    and blind_ext: "g (d\<lparr>handle_ext := h\<rparr>) = g d"
    and blind_mem: "g (d\<lparr>dma_mem := l\<rparr>) = g d"
    and blind_dma: "g (d\<lparr>dma := p\<rparr>) = g d"
    and blind_info: "g (upd_head (\<lambda>h. h\<lparr>ah_info := i\<rparr>) d) = g d"
begin

lemma locked: "yields (\<lambda>d'. g d' = g d) (DRM_LOCK d)" "yields (\<lambda>d'. g d' = g d) (DRM_UNLOCK d)"
  by (simp_all add: DRM_LOCK_def DRM_UNLOCK_def blind_dev_lock)

lemma rmmap_locked: "yields (\<lambda>d'. g d' = g d) (drm_rmmap_locked kn m d)"
  by (simp add: drm_rmmap_locked_def Let_def blind_maps blind_ext blind_mem)

lemma rmmap_ioctl: "yields (\<lambda>(e, d'). g d' = g d) (drm_rmmap_ioctl kn h d)"
  unfolding drm_rmmap_ioctl_def
  by (auto split: option.splits intro!: yields_mono[OF locked(1)] yields_mono[OF locked(2)] yields_mono[OF rmmap_locked])

lemma lock_wait:
  "\<forall>(ws, ret, env)\<in>set turns. kept g env \<Longrightarrow> yields (\<lambda>(e, d'). g d' = g d) (drm_lock_wait turns c m d)"
proof (induction turns arbitrary: d)
  case (Cons t turns)
  obtain ws ret env where t: "t = (ws, ret, env)"
    by (cases t)
  have env: "g (env x) = g x" for x
    using Cons.prems by (simp add: t kept_def)
  have take: "yields (\<lambda>_. True) (drm_lock_take (lock d) c ws)"
    by (simp add: yields_def)
  have rest: "yields (\<lambda>(e, d'). g d' = g d) (drm_lock_wait turns c m (env (d\<lparr>lock := ld\<rparr>)))" for ld
    by (rule yields_mono[OF Cons.IH]) (use Cons.prems in \<open>auto simp: env blind_lock\<close>)
  show ?case
    unfolding t drm_lock_wait.simps
    by (auto simp: env blind_lock Let_def intro!: yields_mono[OF take] rest)
qed simp

lemma lock: "\<forall>(ws, ret, env)\<in>set turns. kept g env \<Longrightarrow> yields (\<lambda>(e, d'). g d' = g d) (drm_lock turns c m d)"
  by (simp add: drm_lock_def lock_wait)

lemma unlock: "yields (\<lambda>(e, d'). g d' = g d) (drm_unlock ws c d)"
proof -
  have free: "yields (\<lambda>_. True) (drm_lock_free ld x ws)" for ld x
    by (simp add: yields_def)
  show ?thesis
    unfolding drm_unlock_def
    by (auto simp: blind_lock split: option.splits intro!: yields_mono[OF free])
qed

lemma mapbufs: "yields (\<lambda>(e, r, d'). g d' = g d) (drm_mapbufs fl found mm co n d)"
  unfolding drm_mapbufs_def
  by (auto simp: rw_enter_write_def blind_dma Let_def split: option.splits sum.splits prod.splits)

lemma freebufs: "yields (\<lambda>(e, d'). g d' = g d) (drm_freebufs xs mi d)"
  by (auto simp: drm_freebufs_def rw_enter_write_def blind_dma split: option.splits prod.splits)

lemma dma_call:
  "\<forall>cb m n. dma_ioctl drv = Some cb \<longrightarrow> kept g (\<lambda>d. snd (snd (cb d m n))) \<Longrightarrow>
   yields (\<lambda>(e, r, d'). g d' = g d) (drm_dma_call drv rq mi d)"
  by (auto simp: drm_dma_call_def kept_def split: option.splits prod.splits) (metis snd_conv)

lemma agp_info: "g (snd (drm_agp_info_get d)) = g d"
  by (simp add: drm_agp_info_get_def blind_info Let_def split: option.splits)

end

section \<open>The two privileges\<close>

text \<open>The privilege that \<^verbatim>\<open>drmioctl\<close> is to ask of the file for each command of the core.\<close>

datatype privilege = ANYONE | AUTHENTICATED | MASTER | DRIVER

definition needs :: "drm_cmd \<Rightarrow> privilege" where
  "needs cmd =
     (case cmd of
        DRM_IOCTL_RM_MAP _ \<Rightarrow> AUTHENTICATED | DRM_IOCTL_GET_CTX _ _ \<Rightarrow> AUTHENTICATED
      | DRM_IOCTL_RES_CTX _ \<Rightarrow> AUTHENTICATED | DRM_IOCTL_LOCK _ \<Rightarrow> AUTHENTICATED
      | DRM_IOCTL_UNLOCK _ \<Rightarrow> AUTHENTICATED | DRM_IOCTL_MAP_BUFS _ \<Rightarrow> AUTHENTICATED
      | DRM_IOCTL_FREE_BUFS _ \<Rightarrow> AUTHENTICATED | DRM_IOCTL_DMA _ \<Rightarrow> AUTHENTICATED
      | DRM_IOCTL_AGP_INFO \<Rightarrow> AUTHENTICATED | DRM_IOCTL_GEM_FLINK _ \<Rightarrow> AUTHENTICATED
      | DRM_IOCTL_GEM_OPEN _ \<Rightarrow> AUTHENTICATED
      | DRM_IOCTL_SET_VERSION _ \<Rightarrow> MASTER | DRM_IOCTL_IRQ_BUSID \<Rightarrow> MASTER | DRM_IOCTL_AUTH_MAGIC _ \<Rightarrow> MASTER
      | DRM_IOCTL_ADD_MAP _ \<Rightarrow> MASTER | DRM_IOCTL_ADD_CTX \<Rightarrow> MASTER | DRM_IOCTL_RM_CTX _ \<Rightarrow> MASTER
      | DRM_IOCTL_ADD_BUFS _ \<Rightarrow> MASTER | DRM_IOCTL_CONTROL _ _ \<Rightarrow> MASTER | DRM_IOCTL_AGP_ACQUIRE \<Rightarrow> MASTER
      | DRM_IOCTL_AGP_RELEASE \<Rightarrow> MASTER | DRM_IOCTL_AGP_ENABLE _ \<Rightarrow> MASTER | DRM_IOCTL_AGP_ALLOC _ _ \<Rightarrow> MASTER
      | DRM_IOCTL_AGP_FREE _ \<Rightarrow> MASTER | DRM_IOCTL_AGP_BIND _ _ \<Rightarrow> MASTER | DRM_IOCTL_AGP_UNBIND _ \<Rightarrow> MASTER
      | DRM_IOCTL_SG_ALLOC _ \<Rightarrow> MASTER | DRM_IOCTL_SG_FREE _ \<Rightarrow> MASTER | DRM_IOCTL_ADD_DRAW \<Rightarrow> MASTER
      | DRM_IOCTL_RM_DRAW \<Rightarrow> MASTER | DRM_IOCTL_UPDATE_DRAW \<Rightarrow> MASTER | DRM_IOCTL_SET_UNIQUE \<Rightarrow> MASTER
      | OTHER_IOCTL _ \<Rightarrow> DRIVER
      | _ \<Rightarrow> ANYONE)"

definition grants :: "drm_file \<Rightarrow> privilege \<Rightarrow> bool" where
  "grants f p =
     (case p of ANYONE \<Rightarrow> True | AUTHENTICATED \<Rightarrow> authenticated f = 1 | MASTER \<Rightarrow> master f = 1 | DRIVER \<Rightarrow> False)"

text \<open>The dispatch in one step.\<close>

lemma dispatch_needs:
  "(ioctl_public sy cmd mi d \<noteq> None) = (needs cmd = ANYONE)"
  "(ioctl_auth sy cmd mi d \<noteq> None) = (needs cmd = AUTHENTICATED)"
  "(ioctl_master sy cmd f d \<noteq> None) = (needs cmd = MASTER)"
  by (cases cmd; simp add: ioctl_public_def ioctl_auth_def ioctl_master_def needs_def)+

definition counted :: "int \<Rightarrow> 'a file_dev_scheme \<Rightarrow> 'a file_dev_scheme" where
  "counted mi d = upd_file mi (\<lambda>f. f\<lparr>ioctl_count := ioctl_count f + 1\<rparr>) d"

lemma drmioctl_dispatch:
  assumes "\<not> dev_lock d" and "drm_find_file_by_minor d mi = Some f"
  shows "drmioctl sy cmd mi d =
    (if \<not> grants f (needs cmd) then driver_ioctl sy cmd mi (counted mi d)
     else case needs cmd of
       ANYONE \<Rightarrow> the (ioctl_public sy cmd mi (counted mi d))
     | AUTHENTICATED \<Rightarrow> the (ioctl_auth sy cmd mi (counted mi d))
     | _ \<Rightarrow> the (ioctl_master sy cmd f (counted mi d)))"
proof -
  have "drm_find_file_by_minor (d\<lparr>dev_lock := True\<rparr>) mi = Some f"
    using assms(2) by (simp add: drm_find_file_by_minor_def)
  then have "drmioctl sy cmd mi d =
    (case ioctl_public sy cmd mi (counted mi d) of Some r \<Rightarrow> r
     | None \<Rightarrow>
         (case (if authenticated f = 1 then ioctl_auth sy cmd mi (counted mi d) else None) of Some r \<Rightarrow> r
          | None \<Rightarrow>
              (case (if master f = 1 then ioctl_master sy cmd f (counted mi d) else None) of Some r \<Rightarrow> r
               | None \<Rightarrow> driver_ioctl sy cmd mi (counted mi d))))"
    unfolding drmioctl_def counted_def using assms by (simp add: Let_def)
  then show ?thesis
    using dispatch_needs(1)[of sy cmd mi "counted mi d"] dispatch_needs(2)[of sy cmd mi "counted mi d"]
      dispatch_needs(3)[of sy cmd f "counted mi d"]
    by (cases "needs cmd") (auto simp: grants_def)
qed

section \<open>What each group of commands leaves alone\<close>

locale viewer = blind g for g :: "'a drv_dev_scheme \<Rightarrow> 'x" +
  assumes blind_pgid: "g (d\<lparr>buf_pgid := p\<rparr>) = g d"
begin

lemma counted: "g (counted mi d) = g d"
  by (simp add: counted_def file_update)

lemma driver: "calm_sys sy \<Longrightarrow> yields (\<lambda>(e, x, d'). g d' = g d) (driver_ioctl sy cmd mi d)"
  by (auto simp: driver_ioctl_def calm_sys_def kept_def ret0_def split: option.splits prod.splits) (metis snd_conv)

lemma public:
  assumes calm: "calm_sys sy" and magic: "cmd \<noteq> DRM_IOCTL_GET_MAGIC"
    and r: "ioctl_public sy cmd mi d = Some r"
  shows "yields (\<lambda>(e, x, d'). g d' = g d) r"
proof -
  have drv: "quiet (sy_driver sy)" and sl: "quiet_sleeps (sy_sleeps sy)" and hl: "\<forall>k. quiet_holds (sy_holds sy 0 k)"
    using calm by (simp_all add: calm_sys_def)
  have own: "yields (\<lambda>(e, x, d'). g d' = g d) (owner_result (\<lambda>d pg. d\<lparr>buf_pgid := pg\<rparr>) d ep)"
    "yields (\<lambda>(e, x, d'). g d' = g d) (owner_result (\<lambda>d pg. d) d ep)" for ep
    by (simp_all add: owner_result_def blind_pgid split: prod.splits)
  have vbl: "yields (\<lambda>(e, x, d'). g d' = g d)
      (obind (drm_wait_vblank (sy_driver sy) (sy_sleeps sy) (sy_calloc sy) (sy_now sy) vw mi d)
        (\<lambda>(e, vw, d). Ret (e, VBLANK_REPLY vw, d)))" for vw
    by (simp, rule yields_mono[OF wait_vblank[OF drv sl]]) auto
  have mode: "yields (\<lambda>(e, x, d'). g d' = g d)
      (obind (drm_modeset_ctl (sy_driver sy) crtc c d) (ret0 NO_DATA))" for crtc c
    by (simp, rule yields_mono[OF modeset_ctl[OF drv]]) (auto simp: ret0_def)
  have close: "yields (\<lambda>(e, x, d'). g d' = g d)
      (obind (drm_gem_close_ioctl (sy_driver sy) (sy_holds sy 0) mi h d) (ret0 NO_DATA))" for h
    by (simp, rule yields_mono[OF gem_close[OF drv hl]]) (auto simp: ret0_def)
  show ?thesis
    using r magic by (cases cmd) (auto simp: ioctl_public_def own vbl mode close simp del: yields_obind split: prod.splits)
qed

end

locale client_viewer = viewer g + client g for g :: "'a drv_dev_scheme \<Rightarrow> 'x"
begin

lemma authentic:
  assumes calm: "calm_sys sy" and r: "ioctl_auth sy cmd mi d = Some r"
  shows "yields (\<lambda>(e, x, d'). g d' = g d) r"
proof -
  have drv: "quiet (sy_driver sy)" and hl: "quiet_holds (sy_holds sy 0 0)"
    and turns: "\<forall>(ws, ret, env)\<in>set (sy_turns sy). kept g env"
    and dma: "\<forall>cb m n. dma_ioctl (sy_driver sy) = Some cb \<longrightarrow> kept g (\<lambda>d. snd (snd (cb d m n)))"
    using calm by (simp_all add: calm_sys_def)
  have map: "yields (\<lambda>(e, x, d'). g d' = g d) (obind (drm_rmmap_ioctl (sy_kern sy) h d) (ret0 NO_DATA))" for h
    by (simp, rule yields_mono[OF rmmap_ioctl]) (auto simp: ret0_def)
  have lk: "yields (\<lambda>(e, x, d'). g d' = g d) (obind (drm_lock (sy_turns sy) c mi d) (ret0 NO_DATA))" for c
    by (simp, rule yields_mono[OF lock[OF turns]]) (auto simp: ret0_def)
  have ul: "yields (\<lambda>(e, x, d'). g d' = g d) (obind (drm_unlock (sy_words sy) c d) (ret0 NO_DATA))" for c
    by (simp, rule yields_mono[OF unlock]) (auto simp: ret0_def)
  have mb: "yields (\<lambda>(e, x, d'). g d' = g d) (obind (drm_mapbufs fl fd mm co n d) (\<lambda>(e, r, d). Ret (e, BUFS_REPLY r, d)))"
    for fl fd mm co n
    by (simp, rule yields_mono[OF mapbufs]) auto
  have fb: "yields (\<lambda>(e, x, d'). g d' = g d) (obind (drm_freebufs xs mi d) (ret0 NO_DATA))" for xs
    by (simp, rule yields_mono[OF freebufs]) (auto simp: ret0_def)
  have dm: "yields (\<lambda>(e, x, d'). g d' = g d)
      (obind (drm_dma_call (sy_driver sy) rq mi d) (\<lambda>(e, rq, d). Ret (e, DMA_REPLY rq, d)))" for rq
    by (simp, rule yields_mono[OF dma_call[OF dma]]) auto
  have ai: "g d' = g d" if "drm_agp_info_get d = (x, d')" for x d'
    using agp_info[of d] that by simp
  have fl: "yields (\<lambda>(e, x, d'). g d' = g d)
      (obind (drm_gem_flink_ioctl (sy_driver sy) (sy_holds sy 0 0) mi h d) (\<lambda>(e, n, d). Ret (e, NAME_REPLY n, d)))" for h
    by (simp, rule yields_mono[OF gem_flink[OF drv hl]]) auto
  have op: "yields (\<lambda>(e, x, d'). g d' = g d)
      (obind (drm_gem_open_ioctl (sy_driver sy) (sy_holds sy 0 0) (sy_calloc sy) mi n d)
        (\<lambda>(e, h, sz, d). Ret (e, HANDLE_REPLY h sz, d)))" for n
    by (simp, rule yields_mono[OF gem_open[OF drv hl]]) auto
  show ?thesis
    using r by (cases cmd) (auto simp: ioctl_auth_def map lk ul mb fb dm fl op dest: ai simp del: yields_obind split: prod.splits)
qed

end

end
