(* ===== verification/Drv_Roles.thy ===== *)
theory Drv_Roles
  imports Drv_Priv
begin

text \<open>
  Three observations of the device: what the master manages, what is guarded from clients that are
  not authenticated, and the roles of the files; and what each command does to the roles.
\<close>

section \<open>The observations\<close>

definition managed where
  "managed d =
     (ctx_bitmap d, if_version d, open_count d, map (\<lambda>(m, f). (m, authenticated f, master f)) (files d), sg d,
      map_option (\<lambda>h. (ah_memory h, ah_base h, ah_mode h, ah_acquired h, ah_enabled h, ah_mtrr h)) (agp d),
      agp_dev d, next_map d, lock_kva d, agp_buffer_map d, irq_enabled d, dev_irq d, unique d)"

definition guarded where
  "guarded d = (managed d, lock d, maplist d, handle_ext d, dma d, dma_mem d, agp d)"

definition roles where
  "roles d = (magicid d, map (\<lambda>(m, f). (m, authenticated f, master f, magic f)) (files d))"

lemma map_sp_update: "(\<And>v. F (k, h v) = F (k, v)) \<Longrightarrow> map F (sp_update k h t) = map F t"
  by (induction k h t rule: sp_update.induct) auto

interpretation managed: client_viewer "managed :: 'a drv_dev_scheme \<Rightarrow> _"
  by unfold_locales (auto simp: managed_def upd_head_def upd_file_def map_sp_update same_role_def option.map_comp
      comp_def split: option.splits)

interpretation guarded: viewer "guarded :: 'a drv_dev_scheme \<Rightarrow> _"
  by unfold_locales (auto simp: guarded_def managed_def upd_file_def map_sp_update same_role_def)

interpretation roles: client_viewer "roles :: 'a drv_dev_scheme \<Rightarrow> _"
  by unfold_locales (auto simp: roles_def upd_head_def upd_file_def map_sp_update same_role_def)

section \<open>The roles and the commands of the master\<close>

lemma roles_frame_file [simp]:
  "roles (d\<lparr>lock := ld\<rparr>) = roles d" "roles (d\<lparr>ctx_bitmap := c\<rparr>) = roles d" "roles (d\<lparr>if_version := v\<rparr>) = roles d"
  by (simp_all add: roles_def)

lemma roles_frame_irq [simp]:
  "roles (d\<lparr>irq_enabled := q\<rparr>) = roles d" "roles (d\<lparr>vblank := vb\<rparr>) = roles d" "roles (set_crtc i w d) = roles d"
  by (simp_all add: roles_def set_crtc_def)

lemma roles_frame_bus [simp]:
  "roles (d\<lparr>dev_lock := b\<rparr>) = roles d" "roles (d\<lparr>maplist := ms\<rparr>) = roles d"
  "roles (d\<lparr>handle_ext := h\<rparr>) = roles d" "roles (d\<lparr>dma_mem := l\<rparr>) = roles d"
  "roles (d\<lparr>next_map := n\<rparr>) = roles d" "roles (d\<lparr>lock_kva := k\<rparr>) = roles d" "roles (d\<lparr>sg := s\<rparr>) = roles d"
  "roles (d\<lparr>agp := ho\<rparr>) = roles d" "roles (d\<lparr>agp_dev := sc\<rparr>) = roles d" "roles (d\<lparr>buf_pgid := p\<rparr>) = roles d"
  "roles (d\<lparr>dma := dm\<rparr>) = roles d" "roles (upd_head f d) = roles d"
  by (simp_all add: roles_def upd_head_def)

lemma roles_locked: "yields (\<lambda>d'. roles d' = roles d) (DRM_LOCK d)" "yields (\<lambda>d'. roles d' = roles d) (DRM_UNLOCK d)"
  by (simp_all add: DRM_LOCK_def DRM_UNLOCK_def)

lemma roles_addmap_setup:
  assumes env: "\<forall>k. kept roles (env k)"
  shows "yields (\<lambda>((e, m'), d'). roles d' = roles d) (addmap_setup kn env m d)"
proof -
  have env: "roles (env k x) = roles x" for k x
    using env by (simp add: kept_def)
  show ?thesis
    by (auto simp: addmap_setup_def Let_def env DRM_LOCK_def DRM_UNLOCK_def split: option.splits prod.splits)
qed

lemma roles_addmap:
  assumes env: "\<forall>k. kept roles (env k)"
  shows "yields (\<lambda>((e, mo), d'). roles d' = roles d) (drm_addmap kn env off sz ty fl d)"
proof -
  have e: "roles (env k x) = roles x" for k x
    using env by (simp add: kept_def)
  have fin: "yields (\<lambda>((e, mo), d'). roles d' = roles d)
      (if e \<noteq> E_OK then Ret ((e, None), x)
       else obind (DRM_LOCK (env 2 x)) (\<lambda>d. obind (DRM_UNLOCK (d\<lparr>maplist := maplist d @ [m]\<rparr>)) (\<lambda>d. Ret ((E_OK, Some m), d))))"
    if "roles x = roles d" for e m x
    using that by (auto simp: e DRM_LOCK_def DRM_UNLOCK_def)
  have run: "yields (\<lambda>r. yields (\<lambda>((e, mo), d'). roles d' = roles d)
      ((\<lambda>((e, m), x). if e \<noteq> E_OK then Ret ((e, None), x)
       else obind (DRM_LOCK (env 2 x)) (\<lambda>d. obind (DRM_UNLOCK (d\<lparr>maplist := maplist d @ [m]\<rparr>)) (\<lambda>d. Ret ((E_OK, Some m), d)))) r))
      (addmap_setup kn env m y)" if "roles y = roles d" for m y
    by (rule yields_mono[OF roles_addmap_setup[OF env]]) (use that fin in \<open>auto simp del: yields_obind\<close>)
  show ?thesis
    unfolding drm_addmap_def
    by (auto simp: Let_def e DRM_LOCK_def DRM_UNLOCK_def split: option.splits sum.splits intro!: run)
qed

lemma roles_addmap_ioctl:
  assumes env: "\<forall>k. kept roles (env k)"
  shows "yields (\<lambda>((e, r), d'). roles d' = roles d) (drm_addmap_ioctl kn env rq f d)"
  unfolding drm_addmap_ioctl_def
  by (auto split: option.splits intro!: yields_mono[OF roles_addmap[OF env]])

lemma roles_sg_alloc:
  assumes env: "\<forall>k. kept roles (env k)"
  shows "yields (\<lambda>((e, h), d'). roles d' = roles d) (drm_sg_alloc_ioctl kn env sz d)"
proof -
  have e: "roles (env k x) = roles x" for k x
    using env by (simp add: kept_def)
  show ?thesis
    by (auto simp: drm_sg_alloc_ioctl_def drm_sg_alloc_def Let_def e DRM_LOCK_def DRM_UNLOCK_def
        split: option.splits prod.splits)
qed

lemma roles_sg_free: "yields (\<lambda>(e, d'). roles d' = roles d) (drm_sg_free h d)"
  by (auto simp: drm_sg_free_def Let_def DRM_LOCK_def DRM_UNLOCK_def split: option.splits)

lemma roles_ctx_next: "yields (\<lambda>(b, d'). roles d' = roles d) (drm_ctxbitmap_next d)"
  by (auto simp: drm_ctxbitmap_next_def split: option.splits)

lemma roles_addctx: "yields (\<lambda>(e, h, d'). roles d' = roles d) (drm_addctx d)"
  by (auto simp: drm_addctx_def Let_def intro!: yields_mono[OF roles_ctx_next])

lemma roles_rmctx: "roles (snd (drm_rmctx h d)) = roles d"
  by (simp add: drm_rmctx_def drm_ctxbitmap_free_def split: option.splits)

lemma roles_addbufs_range: "yields (\<lambda>(e, r, d'). roles d' = roles d) (addbufs_range kn off use rq p d)"
  by (auto simp: addbufs_range_def Let_def split: option.splits prod.splits bool.splits)

lemma roles_addbufs_pci: "yields (\<lambda>(e, r, d'). roles d' = roles d) (drm_addbufs_pci kn rq p d)"
  by (auto simp: drm_addbufs_pci_def Let_def split: option.splits prod.splits bool.splits sum.splits)

lemma roles_addbufs: "yields (\<lambda>(e, r, d'). roles d' = roles d) (drm_addbufs kn rq d)"
  unfolding drm_addbufs_def drm_addbufs_agp_def drm_addbufs_sg_def
  by (auto simp: rw_enter_write_def Let_def split: option.splits
      intro!: yields_mono[OF roles_addbufs_range] yields_mono[OF roles_addbufs_pci])

text \<open>The callbacks that are no concern of clients that are not the master.\<close>

definition keeps_roles :: "('a drv_dev_scheme) drm_sys \<Rightarrow> bool" where
  "keeps_roles sy \<longleftrightarrow>
     roles.calm_sys sy \<and> (\<forall>k. kept roles (sy_env sy k)) \<and>
     kept roles (\<lambda>d. snd (irq_install (sy_driver sy) d)) \<and> kept roles (irq_uninstall (sy_driver sy)) \<and>
     (\<forall>f. firstopen (sy_driver sy) = Some f \<longrightarrow> kept roles (\<lambda>d. snd (f d))) \<and>
     (\<forall>f m. open_cb (sy_driver sy) = Some f \<longrightarrow> kept roles (\<lambda>d. snd (f d m))) \<and>
     (\<forall>f m. close_cb (sy_driver sy) = Some f \<longrightarrow> kept roles (\<lambda>d. f d m)) \<and>
     (\<forall>f. lastclose (sy_driver sy) = Some f \<longrightarrow> kept roles f)"

lemma roles_crtc_loop:
  "(\<And>i w x. roles (body i w x) = roles x) \<Longrightarrow> yields (\<lambda>d'. roles d' = roles d) (crtc_loop body n i d)"
proof (induction n arbitrary: i d)
  case (Suc n)
  then show ?case
    by (auto split: option.splits intro!: yields_mono[OF Suc.IH])
qed simp

lemma roles_irq_uninstall:
  assumes "kept roles (irq_uninstall drv)"
  shows "yields (\<lambda>(e, d'). roles d' = roles d) (drm_irq_uninstall drv d)"
proof -
  have un: "roles (irq_uninstall drv x) = roles x" for x
    using assms by (simp add: kept_def)
  have loop: "yields (\<lambda>d'. roles d' = roles d) (crtc_loop
      (\<lambda>i _ x. set_crtc i (\<lambda>w. w\<lparr>vbl_enabled := 0, vbl_last := get_vblank_counter drv x i\<rparr>) x) n i (d\<lparr>irq_enabled := 0\<rparr>))" for n i
    by (rule yields_mono[OF roles_crtc_loop]) auto
  show ?thesis
    unfolding drm_irq_uninstall_def
    by (auto simp: un Let_def split: option.splits intro!: yields_mono[OF loop])
qed

lemma roles_control:
  assumes "kept roles (\<lambda>d. snd (irq_install drv d))" and "kept roles (irq_uninstall drv)"
  shows "yields (\<lambda>(e, d'). roles d' = roles d) (drm_control drv fn i d)"
proof -
  have inst: "roles d2 = roles x" if "irq_install drv x = (e, d2)" for x e d2
    using keptD[OF assms(1), of x] that by simp
  show ?thesis
    unfolding drm_control_def drm_irq_install_def
    by (auto simp: Let_def split: drm_control_func.splits prod.splits dest!: inst
        intro!: yields_mono[OF roles_irq_uninstall[OF assms(2)]])
qed

lemma roles_agp_acquire: "roles (snd (drm_agp_acquire d)) = roles d"
  by (simp add: drm_agp_acquire_def split: option.splits prod.splits)

lemma roles_agp_release: "roles (snd (drm_agp_release d)) = roles d"
  by (simp add: drm_agp_release_def split: option.splits)

lemma roles_agp_enable: "roles (snd (drm_agp_enable m x d)) = roles d"
  by (simp add: drm_agp_enable_def split: option.splits prod.splits)

lemma roles_agp_alloc: "yields (\<lambda>((e, r), d'). roles d' = roles d) (drm_agp_alloc kn m sz ty d)"
  by (auto simp: drm_agp_alloc_def Let_def DRM_LOCK_def DRM_UNLOCK_def split: option.splits prod.splits)

text \<open>What the AGP driver answers does not matter.\<close>

lemma agp_calls:
  "(\<And>x. Q x) \<Longrightarrow> yields Q (agp_bind_memory m sc h off)"
  "(\<And>x. Q x) \<Longrightarrow> yields Q (agp_unbind_memory m sc h)"
  "(\<And>x. R x) \<Longrightarrow> yields R (agp_free_memory m sc h)"
  by (simp_all add: yields_def)

lemma roles_agp_remove: "yields (\<lambda>d'. roles d' = roles d) (drm_agp_remove_entry m e d)"
  unfolding drm_agp_remove_entry_def
  by (auto simp: Let_def intro!: agp_calls)

lemma roles_agp_free: "yields (\<lambda>(e, d'). roles d' = roles d) (drm_agp_free m h d)"
  unfolding drm_agp_free_def
  by (auto split: option.splits intro!: yields_mono[OF roles_locked(1)] yields_mono[OF roles_locked(2)]
      yields_mono[OF roles_agp_remove])

lemma roles_agp_bind: "yields (\<lambda>(e, d'). roles d' = roles d) (drm_agp_bind m h off d)"
proof -
  have st: "roles (set_bound h b x) = roles x" for b and x :: "'a bus_dev_scheme"
    by (simp add: set_bound_def)
  show ?thesis
    unfolding drm_agp_bind_def DRM_LOCK_def DRM_UNLOCK_def
    by (auto simp: st Let_def split: option.splits intro!: agp_calls)
qed

lemma roles_agp_unbind: "yields (\<lambda>(e, d'). roles d' = roles d) (drm_agp_unbind m h d)"
proof -
  have st: "roles (set_bound h b x) = roles x" for b and x :: "'a bus_dev_scheme"
    by (simp add: set_bound_def)
  show ?thesis
    unfolding drm_agp_unbind_def DRM_LOCK_def DRM_UNLOCK_def
    by (auto simp: st Let_def split: option.splits intro!: agp_calls)
qed

lemma roles_agp_takedown: "yields (\<lambda>d'. roles d' = roles d) (drm_agp_takedown m d)"
proof -
  have loop: "yields (\<lambda>d'. roles d' = roles d) (agp_takedown_loop m es d)" for es and d :: "'a bus_dev_scheme"
  proof (induction es arbitrary: d)
    case (Cons e es)
    show ?case
      by (simp, rule yields_mono[OF roles_agp_remove], rule yields_mono[OF Cons.IH]) simp
  qed simp
  show ?thesis
    unfolding drm_agp_takedown_def
    by (auto simp: roles_agp_release split: option.splits intro!: yields_mono[OF roles_locked(1)]
        yields_mono[OF roles_locked(2)] yields_mono[OF loop])
qed

lemma roles_setversion: "roles (snd (snd (drm_setversion drv v d))) = roles d"
  by (simp add: drm_setversion_def Let_def)

text \<open>All commands of the master but the one that authenticates.\<close>

lemma roles_master:
  assumes sy: "keeps_roles sy" and cmd: "\<forall>a. cmd \<noteq> DRM_IOCTL_AUTH_MAGIC a" and r: "ioctl_master sy cmd f d = Some r"
  shows "yields (\<lambda>(e, x, d'). roles d' = roles d) r"
proof -
  have env: "\<forall>k. kept roles (sy_env sy k)" and irq: "kept roles (\<lambda>d. snd (irq_install (sy_driver sy) d))"
    "kept roles (irq_uninstall (sy_driver sy))"
    using sy by (simp_all add: keeps_roles_def)
  have pair: "roles (snd p) = roles d \<Longrightarrow> yields (\<lambda>(e, x, d'). roles d' = roles d) (ret0 NO_DATA p)" for p
    by (cases p) (simp add: ret0_def)
  have two: "yields (\<lambda>(e, d'). roles d' = roles d) op \<Longrightarrow> yields (\<lambda>(e, x, d'). roles d' = roles d) (obind op (ret0 NO_DATA))" for op
    by (simp, erule yields_mono) (auto simp: ret0_def)
  have am: "yields (\<lambda>(e, x, d'). roles d' = roles d)
      (obind (drm_addmap_ioctl (sy_kern sy) (sy_env sy) rq f d) (\<lambda>((e, rq), d). Ret (e, MAP_REPLY rq, d)))" for rq
    by (simp, rule yields_mono[OF roles_addmap_ioctl[OF env]]) auto
  have ac: "yields (\<lambda>(e, x, d'). roles d' = roles d) (obind (drm_addctx d) (\<lambda>(e, h, d). Ret (e, CTX_REPLY h 0, d)))"
    by (simp, rule yields_mono[OF roles_addctx]) auto
  have ab: "yields (\<lambda>(e, x, d'). roles d' = roles d)
      (obind (drm_addbufs (sy_kern sy) rq d) (\<lambda>(e, rq, d). Ret (e, BUF_DESC_REPLY rq, d)))" for rq
    by (simp, rule yields_mono[OF roles_addbufs]) auto
  have al: "yields (\<lambda>(e, x, d'). roles d' = roles d)
      (obind (drm_agp_alloc (sy_kern sy) (sy_agp sy) sz ty d) (\<lambda>((e, r), d). Ret (e, AGP_ALLOC_REPLY r, d)))" for sz ty
    by (simp, rule yields_mono[OF roles_agp_alloc]) auto
  have sa: "yields (\<lambda>(e, x, d'). roles d' = roles d)
      (obind (drm_sg_alloc_ioctl (sy_kern sy) (sy_env sy) sz d) (\<lambda>((e, h), d). Ret (e, SG_REPLY h, d)))" for sz
    by (simp, rule yields_mono[OF roles_sg_alloc[OF env]]) auto
  have sv: "roles d' = roles d" if "drm_setversion drv v d = (e, w, d')" for drv v e w d'
    using roles_setversion[of drv v d] that by simp
  note calls = pair[OF roles_rmctx] pair[OF roles_agp_acquire] pair[OF roles_agp_release] pair[OF roles_agp_enable]
    two[OF roles_control[OF irq]] two[OF roles_agp_free] two[OF roles_agp_bind] two[OF roles_agp_unbind]
    two[OF roles_sg_free] am ac ab al sa
  show ?thesis
    using r cmd by (cases cmd) (auto simp: ioctl_master_def calls simp del: yields_obind split: prod.splits dest: sv)
qed

end
