(* ===== verification/Drv_Session.thy ===== *)
theory Drv_Session
  imports Drv_Roles
begin

text \<open>
  Sessions: sequences of opens, closes and ioctls, of which each is told by an event. What the files
  of a device may do follows from the events alone.
\<close>

section \<open>Opening and closing\<close>

definition file_roles where
  "file_roles d = snd (roles d)"

lemma file_roles_eq: "file_roles d = map (\<lambda>(m, f). (m, authenticated f, master f, magic f)) (files d)"
  by (simp add: file_roles_def roles_def)

lemma file_roles_cong: "roles x = roles y \<Longrightarrow> file_roles x = file_roles y"
  by (simp add: file_roles_def)

lemma file_roles_frame [simp]:
  "file_roles (d\<lparr>magicid := a\<rparr>) = file_roles d" "file_roles (d\<lparr>irq_enabled := q\<rparr>) = file_roles d"
  "file_roles (d\<lparr>if_version := v\<rparr>) = file_roles d" "file_roles (d\<lparr>buf_pgid := p\<rparr>) = file_roles d"
  "file_roles (d\<lparr>dev_lock := b\<rparr>) = file_roles d" "file_roles (d\<lparr>dma_mem := l\<rparr>) = file_roles d"
  "file_roles (d\<lparr>open_count := n\<rparr>) = file_roles d"
  by (simp_all add: file_roles_eq)

lemma map_sp_insert: "map (\<lambda>(m, f). (m, F f)) (sp_insert k v t) = sp_insert k (F v) (map (\<lambda>(m, f). (m, F f)) t)"
  by (induction k v t rule: sp_insert.induct) auto

lemma map_sp_remove: "map (\<lambda>(m, f). (m, F f)) (sp_remove k t) = sp_remove k (map (\<lambda>(m, f). (m, F f)) t)"
  by (induction t) (auto simp: sp_remove_def)

lemma roles_dma_setup: "roles (snd (drm_dma_setup kn d)) = roles d"
  by (simp add: drm_dma_setup_def split: option.splits)

lemma file_roles_firstopen:
  assumes "keeps_roles sy"
  shows "yields (\<lambda>(e, d'). file_roles d' = file_roles d) (drm_firstopen sy d)"
proof -
  have env: "\<forall>k. kept roles (sy_env sy k)" and cb: "\<forall>f. firstopen (sy_driver sy) = Some f \<longrightarrow> kept roles (\<lambda>d. snd (f d))"
    using assms by (simp_all add: keeps_roles_def)
  have fo: "file_roles (case firstopen (sy_driver sy) of None \<Rightarrow> x | Some f \<Rightarrow> snd (f x)) = file_roles x" for x
    using cb by (cases "firstopen (sy_driver sy)") (simp_all add: kept_def file_roles_def)
  have su: "file_roles y = file_roles x" if "drm_dma_setup (sy_kern sy) x = (e, y)" for e x y
    using file_roles_cong[OF roles_dma_setup[of "sy_kern sy" x]] that by simp
  have am: "yields (\<lambda>((e, mo), d'). file_roles d' = file_roles d)
      (drm_addmap (sy_kern sy) (sy_env sy) off sz ty fl d)" for off sz ty fl
    by (rule yields_mono[OF roles_addmap[OF env]]) (auto intro: file_roles_cong)
  show ?thesis
    unfolding drm_firstopen_def
    by (auto simp: Let_def fo split: prod.splits dest: su intro!: yields_mono[OF am])
qed

lemma roles_rmmap_all:
  fixes d :: "'a bus_dev_scheme"
  shows "yields (\<lambda>d'. roles d' = roles d) (rmmap_all kn ms d)"
proof (induction ms arbitrary: d)
  case (Cons m ms)
  have "yields (\<lambda>d'. roles d' = roles d) (rmmap_all kn ms x)" if "roles x = roles d"
    for x :: "'a bus_dev_scheme"
    by (rule yields_mono[OF Cons.IH]) (simp add: that)
  moreover have "yields (\<lambda>d'. roles d' = roles d) (drm_rmmap_locked kn m d)"
    by (simp add: drm_rmmap_locked_def Let_def)
  ultimately show ?case
    by (auto elim!: yields_mono)
qed simp

lemma roles_lastclose:
  assumes "keeps_roles sy"
  shows "yields (\<lambda>(e, d'). roles d' = roles d) (drm_lastclose sy d)"
proof -
  let ?drv = "sy_driver sy"
  have env: "roles (sy_env sy k x) = roles x" for k x
    using assms by (simp add: keeps_roles_def kept_def)
  have irq: "kept roles (irq_uninstall ?drv)"
    using assms by (simp add: keeps_roles_def)
  have lc: "roles (case lastclose ?drv of None \<Rightarrow> x | Some f \<Rightarrow> f x) = roles x" for x
    using assms by (cases "lastclose ?drv") (simp_all add: keeps_roles_def kept_def)
  have un: "yields (\<lambda>(_, d'). roles d' = roles d)
      (if irq_enabled x \<noteq> 0 then drm_irq_uninstall ?drv x else Ret (E_OK, x))" if "roles x = roles d" for x
    by (auto simp: that intro!: yields_mono[OF roles_irq_uninstall[OF irq]])
  have td: "roles (drm_dma_takedown x) = roles x" for x
    by (simp add: drm_dma_takedown_def split: option.splits)
  have sg: "yields (\<lambda>d'. roles d' = roles d)
      (case sg x of None \<Rightarrow> Ret x
       | Some s \<Rightarrow> obind (DRM_UNLOCK (x\<lparr>sg := None\<rparr>)) (\<lambda>d.
           DRM_LOCK (sy_env sy 0 (d\<lparr>dma_mem := drm_sg_cleanup (Some s) (dma_mem d)\<rparr>))))" if "roles x = roles d" for x
    using that by (auto simp: DRM_UNLOCK_def DRM_LOCK_def env split: option.splits)
  have lg: "roles (lock_gone x) = roles x" for x
    by (simp add: lock_gone_def)
  show ?thesis
    unfolding drm_lastclose_def
    apply (simp only: Let_def yields_obind)
    apply (rule yields_mono[OF un], simp add: lc)
    apply (clarsimp simp: lc)
    apply (rule yields_mono[OF roles_agp_takedown])
    apply (rule yields_mono[OF roles_locked(1)])
    apply (rule yields_mono[OF sg], simp add: td)
    apply (rule yields_mono[OF roles_rmmap_all])
    apply (rule yields_mono[OF roles_locked(2)])
    apply (simp add: lg)
    done
qed

section \<open>Events\<close>

type_synonym role_list = "(int \<times> int \<times> int \<times> u32) list"

datatype (plugins only: size) drm_event =
    EV_OPEN int bool errno
  | EV_CLOSE int
  | EV_IOCTL int drm_cmd errno drm_reply

text \<open>What an event does to the roles: the number of the file, then authenticated, master and magic.\<close>

definition opened :: "int \<Rightarrow> bool \<Rightarrow> errno \<Rightarrow> role_list \<Rightarrow> role_list" where
  "opened m su e rs =
     (if e = E_OK then sp_insert m (if su then 1 else 0, if rs = [] then 1 else 0, 0) rs else rs)"

definition got_magic :: "int \<Rightarrow> drm_reply \<Rightarrow> role_list \<Rightarrow> role_list" where
  "got_magic m x rs =
     (case x of MAGIC_REPLY a \<Rightarrow> sp_update m (\<lambda>(au, ma, mg). (au, ma, a)) rs | _ \<Rightarrow> rs)"

definition gave_auth :: "u32 \<Rightarrow> role_list \<Rightarrow> role_list" where
  "gave_auth a rs =
     (if a = 0 then rs
      else case find (\<lambda>(m, au, ma, mg). mg = a) rs of
        None \<Rightarrow> rs
      | Some (m, _) \<Rightarrow> sp_update m (\<lambda>(au, ma, mg). (1, ma, 0)) rs)"

definition is_master :: "int \<Rightarrow> role_list \<Rightarrow> bool" where
  "is_master m rs \<longleftrightarrow> (\<exists>au mg. map_of rs m = Some (au, 1, mg))"

definition told :: "int \<Rightarrow> drm_cmd \<Rightarrow> drm_reply \<Rightarrow> role_list \<Rightarrow> role_list" where
  "told m cmd x rs =
     (case cmd of
        DRM_IOCTL_GET_MAGIC \<Rightarrow> got_magic m x rs
      | DRM_IOCTL_AUTH_MAGIC a \<Rightarrow> if is_master m rs then gave_auth a rs else rs
      | _ \<Rightarrow> rs)"

section \<open>The calls as events\<close>

lemma file_roles_Nil: "file_roles d = [] \<longleftrightarrow> files d = []"
  by (simp add: file_roles_eq)

lemma file_roles_insert:
  "file_roles (d\<lparr>files := sp_insert m ((new_file kd fl m su)\<lparr>master := ma\<rparr>) (files d)\<rparr>) =
   sp_insert m (if su then 1 else 0, ma, 0) (file_roles d)"
  by (simp add: file_roles_eq new_file_def map_sp_insert[of "\<lambda>f. (authenticated f, master f, magic f)"])

lemma file_roles_remove: "file_roles (d\<lparr>files := sp_remove m (files d)\<rparr>) = sp_remove m (file_roles d)"
  by (simp add: file_roles_eq map_sp_remove[of "\<lambda>f. (authenticated f, master f, magic f)"])

lemma open_failed_roles: "e \<noteq> E_OK \<Longrightarrow> yields (\<lambda>(e', d'). e' = e \<and> file_roles d' = file_roles d) (open_failed e d)"
  by (simp add: open_failed_def DRM_LOCK_def DRM_UNLOCK_def)

definition open_post :: "int \<Rightarrow> bool \<Rightarrow> role_list \<Rightarrow> errno \<times> 'a file_dev_scheme \<Rightarrow> bool" where
  "open_post mi su rs = (\<lambda>(e, d'). file_roles d' = opened mi su e rs \<and> (e = E_OK \<longrightarrow> rs \<noteq> [] \<or> su))"

lemma open_failed_opened:
  "e \<noteq> E_OK \<Longrightarrow> file_roles x = rs \<Longrightarrow> yields (open_post mi s rs) (open_failed e x)"
  "e \<noteq> E_OK \<Longrightarrow> file_roles x = rs \<Longrightarrow> yields (open_post mi s rs) (open_free e x)"
  by (simp_all add: open_post_def open_free_def open_failed_def DRM_LOCK_def DRM_UNLOCK_def opened_def)

lemma open_insert_roles:
  assumes "file_roles x = rs"
  shows "yields (open_post mi su rs) (open_insert (new_file kd fl mi su) su x)"
proof -
  have "f_minor (new_file kd fl mi su) = mi"
    by (simp add: new_file_def)
  then show ?thesis
    using assms file_roles_Nil[of x]
    by (auto simp: open_insert_def open_post_def DRM_LOCK_def DRM_UNLOCK_def file_roles_insert opened_def open_free_def open_failed_def)
qed

lemma open_file_roles:
  assumes sy: "keeps_roles sy" and x: "file_roles x = rs"
  shows "yields (open_post mi su rs) (open_file sy kd fl mi su x)"
proof -
  have cb: "file_roles y = file_roles z" if "open_cb (sy_driver sy) = Some f" "f z mi = (e, y)" for f e y z
    using sy that keptD[of roles "\<lambda>d. snd (f d mi)" z] by (auto simp: keeps_roles_def file_roles_def)
  show ?thesis
    unfolding open_file_def
    by (auto simp: open_failed_opened open_insert_roles x split: option.splits prod.splits dest!: cb)
qed

lemma drmopen_roles:
  assumes "keeps_roles sy"
  shows "yields (open_post mi su (file_roles d)) (drmopen sy kd fl mi su d)"
proof -
  have first: "yields (\<lambda>(e, y). file_roles y = file_roles d) (if c then drm_firstopen sy x else Ret (E_OK, x))"
    if "file_roles x = file_roles d" for c x
    using that by (auto intro!: yields_mono[OF file_roles_firstopen[OF assms]])
  have err: "open_post mi su (file_roles d) (ENXIO, d)" "open_post mi su (file_roles d) (EBUSY, d)"
    by (simp_all add: open_post_def opened_def)
  show ?thesis
    unfolding drmopen_def
    by (auto simp: err DRM_LOCK_def DRM_UNLOCK_def Let_def
        open_failed_opened open_file_roles[OF assms] simp del: if_split_asm
        intro!: yields_mono[OF first[of _ True, simplified]])
qed

lemma close_done_roles:
  assumes "keeps_roles sy" and "file_roles x = rs"
  shows "yields (\<lambda>(e, d'). file_roles d' = rs) (close_done sy e x)"
proof -
  have "yields (\<lambda>(e, d'). file_roles d' = file_roles x) (drm_lastclose sy y)" if "file_roles y = file_roles x" for y
    by (rule yields_mono[OF roles_lastclose[OF assms(1)]]) (use that in \<open>auto simp: file_roles_def\<close>)
  then show ?thesis
    using assms(2) by (simp add: close_done_def Let_def DRM_UNLOCK_def)
qed

lemma close_lock_roles: "yields (\<lambda>d'. roles d' = roles d) (close_lock ws mi d)"
proof -
  have free: "yields (\<lambda>_. True) (drm_lock_free ld c ws)" for ld c
    by (simp add: yields_def)
  show ?thesis
    by (auto simp: close_lock_def split: option.splits intro!: yields_mono[OF free])
qed

lemma reclaim_roles: "roles (drm_reclaim_buffers mi d) = roles d"
  by (simp add: drm_reclaim_buffers_def split: option.splits)

lemma close_holdings_roles:
  fixes sy :: "('a drv_dev_scheme) drm_sys"
  assumes "keeps_roles sy"
  shows "yields (\<lambda>d'. roles d' = roles d) (close_holdings sy mi d)"
proof -
  have calm: "roles.quiet (sy_driver sy)" "\<forall>k i. roles.quiet_holds (sy_holds sy k i)"
    using assms by (simp_all add: keeps_roles_def roles.calm_sys_def)
  have cb: "roles (f x mi) = roles x" if "close_cb (sy_driver sy) = Some f" for f and x :: "'a drv_dev_scheme"
    using assms that by (simp add: keeps_roles_def kept_def)
  show ?thesis
    unfolding close_holdings_def
    by (auto simp: Let_def cb reclaim_roles split: option.splits intro!: yields_mono[OF close_lock_roles]
        yields_mono[OF roles.close_events] yields_mono[OF roles_locked(1)] yields_mono[OF roles.close_handles[OF calm]])
qed

lemma drmclose_roles:
  fixes sy :: "('a drv_dev_scheme) drm_sys"
  assumes "keeps_roles sy"
  shows "yields (\<lambda>(e, d'). file_roles d' = sp_remove mi (file_roles d)) (drmclose sy mi d)"
proof (cases "drm_find_file_by_minor d mi")
  case None
  then have "sp_remove mi (file_roles d) = file_roles d"
    by (auto simp: file_roles_eq sp_remove_def drm_find_file_by_minor_def filter_id_conv map_of_eq_None_iff image_iff)
  moreover have "drm_find_file_by_minor (d\<lparr>dev_lock := True\<rparr>) mi = None"
    using None by (simp add: drm_find_file_by_minor_def)
  ultimately show ?thesis
    by (auto simp: drmclose_def DRM_LOCK_def close_done_roles[OF assms])
next
  case (Some f)
  then have found: "drm_find_file_by_minor (d\<lparr>dev_lock := True\<rparr>) mi = Some f"
    by (simp add: drm_find_file_by_minor_def)
  have "yields (\<lambda>x. yields (\<lambda>(e, d'). file_roles d' = sp_remove mi (file_roles d))
      (close_done sy E_OK (x\<lparr>buf_pgid := 0, files := sp_remove mi (files x), dma_mem := drm_free K_FILE (dma_mem x)\<rparr>)))
      (close_holdings sy mi d)"
  proof (rule yields_mono[OF close_holdings_roles[OF assms]])
    fix x :: "'a drv_dev_scheme"
    assume "roles x = roles d"
    then have "file_roles x = file_roles d"
      by (simp add: file_roles_def)
    then have "file_roles (x\<lparr>buf_pgid := 0, files := sp_remove mi (files x), dma_mem := drm_free K_FILE (dma_mem x)\<rparr>)
        = sp_remove mi (file_roles d)"
      using file_roles_remove[where d = "x\<lparr>buf_pgid := 0\<rparr>" and m = mi] by simp
    then show "yields (\<lambda>(e, d'). file_roles d' = sp_remove mi (file_roles d))
      (close_done sy E_OK (x\<lparr>buf_pgid := 0, files := sp_remove mi (files x), dma_mem := drm_free K_FILE (dma_mem x)\<rparr>))"
      by (rule close_done_roles[OF assms])
  qed
  with found show ?thesis
    by (simp add: drmclose_def DRM_LOCK_def DRM_UNLOCK_def)
qed

section \<open>The ioctls as events\<close>

lemma file_roles_counted: "file_roles (counted mi d) = file_roles d"
  unfolding file_roles_def counted_def upd_file_def roles_def by (simp add: map_sp_update)

lemma map_sp_update_roles:
  "(\<And>f. F (h f) = k (F f)) \<Longrightarrow>
   map (\<lambda>(m, f). (m, F f)) (sp_update mi h t) = sp_update mi k (map (\<lambda>(m, f). (m, F f)) t)"
  by (induction mi h t rule: sp_update.induct) auto

lemma file_roles_upd:
  assumes "\<And>f. (authenticated (h f), master (h f), magic (h f)) = k (authenticated f, master f, magic f)"
  shows "file_roles (upd_file m h d) = sp_update m k (file_roles d)"
  using map_sp_update_roles[of "\<lambda>f. (authenticated f, master f, magic f)" h k m "files d", OF assms]
  by (simp add: file_roles_eq)

lemma map_of_file_roles:
  "map_of (file_roles d) m = map_option (\<lambda>f. (authenticated f, master f, magic f)) (drm_find_file_by_minor d m)"
  by (simp add: file_roles_eq drm_find_file_by_minor_def map_of_map)

lemma sp_update_same: "map_of t k = Some v \<Longrightarrow> f v = v \<Longrightarrow> sp_update k f t = t"
  by (induction k f t rule: sp_update.induct) (auto split: if_splits)

lemma file_roles_magic:
  "file_roles (upd_file m (\<lambda>f. f\<lparr>magic := a\<rparr>) d) = got_magic m (MAGIC_REPLY a) (file_roles d)"
  unfolding got_magic_def drm_reply.case by (rule file_roles_upd) simp

lemma file_roles_auth:
  "file_roles (upd_file m (\<lambda>f. f\<lparr>authenticated := 1, magic := 0\<rparr>) d) =
   sp_update m (\<lambda>(au, ma, mg). (1, ma, 0)) (file_roles d)"
  by (rule file_roles_upd) simp

lemma getmagic_roles:
  "yields (\<lambda>(e, a, d'). e = E_OK \<and> a \<noteq> 0 \<and> file_roles d' = got_magic mi (MAGIC_REPLY a) (file_roles d))
     (drm_getmagic mi d)"
proof -
  let ?d = "if magicid d = 0 then d\<lparr>magicid := 1\<rparr> else d"
  have same: "drm_find_file_by_minor ?d mi = drm_find_file_by_minor d mi" "file_roles ?d = file_roles d" "magicid ?d \<noteq> 0"
    by (simp_all add: drm_find_file_by_minor_def)
  show ?thesis
  proof (cases "drm_find_file_by_minor d mi")
    case None
    then show ?thesis
      using same(1) by (simp add: drm_getmagic_def Let_def)
  next
    case (Some f)
    have keep: "magic f \<noteq> 0 \<Longrightarrow> got_magic mi (MAGIC_REPLY (magic f)) (file_roles d) = file_roles d"
      using map_of_file_roles[of d mi] Some by (simp add: got_magic_def sp_update_same)
    show ?thesis
      using same Some keep unfolding drm_getmagic_def
      by (simp add: Let_def DRM_LOCK_def DRM_UNLOCK_def file_roles_magic split: if_splits)
  qed
qed

lemma find_map_fst: "find P (map (\<lambda>(m, f). (m, F f)) t) = map_option (\<lambda>(m, f). (m, F f)) (find (\<lambda>(m, f). P (m, F f)) t)"
  by (induction t) auto

lemma authmagic_roles: "yields (\<lambda>(e, d'). file_roles d' = gave_auth a (file_roles d) \<and> (e \<noteq> E_OK \<longrightarrow> file_roles d' = file_roles d))
    (drm_authmagic a d)"
proof -
  have "find (\<lambda>(m, au, ma, mg). mg = a) (file_roles d) =
      map_option (\<lambda>(m, f). (m, authenticated f, master f, magic f)) (find (\<lambda>(m, f). magic f = a) (files d))"
    by (simp add: file_roles_eq find_map_fst)
  then show ?thesis
    by (auto simp: drm_authmagic_def gave_auth_def DRM_LOCK_def DRM_UNLOCK_def file_roles_auth split: option.splits)
qed

text \<open>What a reply tells is what the roles have become.\<close>

definition tells :: "'a file_dev_scheme \<Rightarrow> int \<Rightarrow> drm_cmd \<Rightarrow> errno \<times> drm_reply \<times> 'a file_dev_scheme \<Rightarrow> bool" where
  "tells d mi cmd = (\<lambda>(e, x, d'). file_roles d' = told mi cmd x (file_roles d) \<and>
     (e \<noteq> E_OK \<longrightarrow> file_roles d' = file_roles d))"

lemma tells_plain:
  "cmd \<noteq> DRM_IOCTL_GET_MAGIC \<Longrightarrow> \<forall>a. cmd \<noteq> DRM_IOCTL_AUTH_MAGIC a \<Longrightarrow>
   tells d mi cmd (e, x, d') = (file_roles d' = file_roles d)"
proof -
  assume "cmd \<noteq> DRM_IOCTL_GET_MAGIC" "\<forall>a. cmd \<noteq> DRM_IOCTL_AUTH_MAGIC a"
  then have "told mi cmd x (file_roles d) = file_roles d"
    by (cases cmd) (simp_all add: told_def)
  then show ?thesis
    by (auto simp: tells_def)
qed

lemma is_master_file:
  "is_master mi (file_roles d) = (\<exists>f. drm_find_file_by_minor d mi = Some f \<and> master f = 1)"
  by (auto simp: is_master_def map_of_file_roles)

lemma drmioctl_other:
  fixes sy :: "('a drv_dev_scheme) drm_sys"
  assumes sy: "keeps_roles sy" and unl: "\<not> dev_lock d" and f: "drm_find_file_by_minor d mi = Some f"
    and cmd: "grants f (needs cmd) \<Longrightarrow> cmd \<noteq> DRM_IOCTL_GET_MAGIC \<and> (\<forall>a. cmd \<noteq> DRM_IOCTL_AUTH_MAGIC a)"
  shows "yields (\<lambda>(e, x, d'). file_roles d' = file_roles d) (drmioctl sy cmd mi d)"
proof -
  let ?Q = "\<lambda>(e, x, d'). roles d' = roles (counted mi d)"
  have calm: "roles.calm_sys sy"
    using sy by (simp add: keeps_roles_def)
  have "yields ?Q (drmioctl sy cmd mi d)"
  proof (cases "grants f (needs cmd)")
    case False
    then show ?thesis
      using roles.driver[OF calm] by (simp add: drmioctl_dispatch[OF unl f])
  next
    case True
    have "needs cmd \<noteq> DRIVER"
      using True by (auto simp: grants_def)
    then show ?thesis
    proof (cases "needs cmd")
      case ANYONE
      then obtain r where "ioctl_public sy cmd mi (counted mi d) = Some r"
        using dispatch_needs(1)[of sy cmd mi "counted mi d"] by auto
      then show ?thesis
        using roles.public[OF calm, of cmd mi "counted mi d" r] cmd[OF True] True ANYONE by (simp add: drmioctl_dispatch[OF unl f])
    next
      case AUTHENTICATED
      then obtain r where "ioctl_auth sy cmd mi (counted mi d) = Some r"
        using dispatch_needs(2)[of sy cmd mi "counted mi d"] by auto
      then show ?thesis
        using roles.authentic[OF calm, of cmd mi "counted mi d" r] True AUTHENTICATED by (simp add: drmioctl_dispatch[OF unl f])
    next
      case MASTER
      then obtain r where "ioctl_master sy cmd f (counted mi d) = Some r"
        using dispatch_needs(3)[of sy cmd f "counted mi d"] by auto
      then show ?thesis
        using roles_master[OF sy, of cmd f "counted mi d" r] cmd[OF True] True MASTER by (simp add: drmioctl_dispatch[OF unl f])
    qed simp
  qed
  then show ?thesis
    by (rule yields_mono) (auto simp: file_roles_counted dest: file_roles_cong)
qed

lemma drmioctl_roles:
  fixes sy :: "('a drv_dev_scheme) drm_sys"
  assumes sy: "keeps_roles sy"
  shows "yields (tells d mi cmd) (drmioctl sy cmd mi d)"
proof (cases "dev_lock d \<or> drm_find_file_by_minor d mi = None")
  case True
  have find: "drm_find_file_by_minor (d\<lparr>dev_lock := b\<rparr>) mi = drm_find_file_by_minor d mi" for b
    by (simp add: drm_find_file_by_minor_def)
  have "tells d mi cmd (EINVAL, NO_DATA, d)" if "drm_find_file_by_minor d mi = None"
    using that by (cases cmd) (simp_all add: tells_def told_def got_magic_def is_master_file)
  then show ?thesis
    using True find by (auto simp: drmioctl_def DRM_LOCK_def DRM_UNLOCK_def)
next
  case False
  then obtain f where unl: "\<not> dev_lock d" and f: "drm_find_file_by_minor d mi = Some f"
    by auto
  consider (magic) "cmd = DRM_IOCTL_GET_MAGIC" | (auth) a where "cmd = DRM_IOCTL_AUTH_MAGIC a" "master f = 1"
    | (deny) a where "cmd = DRM_IOCTL_AUTH_MAGIC a" "master f \<noteq> 1"
    | (other) "cmd \<noteq> DRM_IOCTL_GET_MAGIC" "\<forall>a. cmd \<noteq> DRM_IOCTL_AUTH_MAGIC a"
    by blast
  then show ?thesis
  proof cases
    case magic
    have "drmioctl sy DRM_IOCTL_GET_MAGIC mi d =
        obind (drm_getmagic mi (counted mi d)) (\<lambda>(e, a, d). Ret (e, MAGIC_REPLY a, d))"
      by (subst drmioctl_dispatch[OF unl f]) (simp add: needs_def grants_def ioctl_public_def)
    then show ?thesis
      unfolding magic
      by (auto simp: tells_def told_def file_roles_counted intro!: yields_mono[OF getmagic_roles])
  next
    case (auth a)
    have "drmioctl sy (DRM_IOCTL_AUTH_MAGIC a) mi d = obind (drm_authmagic a (counted mi d)) (ret0 NO_DATA)"
      by (subst drmioctl_dispatch[OF unl f]) (simp add: needs_def grants_def ioctl_master_def auth(2))
    moreover have "is_master mi (file_roles d)"
      using f auth(2) by (simp add: is_master_file)
    ultimately show ?thesis
      unfolding auth(1)
      by (auto simp: tells_def told_def ret0_def file_roles_counted intro!: yields_mono[OF authmagic_roles])
  next
    case (deny a)
    have no: "\<not> grants f (needs cmd)"
      using deny by (simp add: needs_def grants_def)
    have "\<not> is_master mi (file_roles d)"
      using f deny(2) by (simp add: is_master_file)
    then have "tells d mi cmd (e, x, d')" if "file_roles d' = file_roles d" for e x d'
      using that unfolding deny(1) by (simp add: tells_def told_def)
    then show ?thesis
      by (intro yields_mono[OF drmioctl_other[OF sy unl f]]) (use no in blast, auto)
  next
    case other
    then have "tells d mi cmd (e, x, d')" if "file_roles d' = file_roles d" for e x d'
      using that tells_plain[of cmd d mi e x d'] by blast
    then show ?thesis
      by (intro yields_mono[OF drmioctl_other[OF sy unl f]]) (use other in blast, auto)
  qed
qed

section \<open>Sessions\<close>

text \<open>The events are listed from the latest to the first. What happens in between keeps the roles.\<close>

inductive session :: "drm_event list \<Rightarrow> 'a drv_dev_scheme \<Rightarrow> bool" where
  s_start: "files d = [] \<Longrightarrow> session [] d"
| s_open: "session h d \<Longrightarrow> keeps_roles sy \<Longrightarrow> drmopen sy kd fl mi su d = Ret (e, d') \<Longrightarrow>
    session (EV_OPEN mi su e # h) d'"
| s_close: "session h d \<Longrightarrow> keeps_roles sy \<Longrightarrow> drmclose sy mi d = Ret (e, d') \<Longrightarrow> session (EV_CLOSE mi # h) d'"
| s_ioctl: "session h d \<Longrightarrow> keeps_roles sy \<Longrightarrow> drmioctl sy cmd mi d = Ret (e, x, d') \<Longrightarrow>
    session (EV_IOCTL mi cmd e x # h) d'"
| s_other: "session h d \<Longrightarrow> roles d' = roles d \<Longrightarrow> session h d'"

text \<open>The events since the file was last closed.\<close>

definition since :: "int \<Rightarrow> drm_event list \<Rightarrow> drm_event list" where
  "since m h = takeWhile (\<lambda>ev. ev \<noteq> EV_CLOSE m) h"

definition opened_by_root :: "int \<Rightarrow> drm_event list \<Rightarrow> bool" where
  "opened_by_root m h \<longleftrightarrow> EV_OPEN m True E_OK \<in> set (since m h)"

definition given_magic :: "int \<Rightarrow> u32 \<Rightarrow> drm_event list \<Rightarrow> bool" where
  "given_magic m a h \<longleftrightarrow> EV_IOCTL m DRM_IOCTL_GET_MAGIC E_OK (MAGIC_REPLY a) \<in> set (since m h)"

text \<open>A file that had been opened by the superuser has vouched for the magic number the file had got.\<close>

definition vouched_for :: "int \<Rightarrow> drm_event list \<Rightarrow> bool" where
  "vouched_for m h \<longleftrightarrow>
     (\<exists>a m' x pre post. h = pre @ EV_IOCTL m' (DRM_IOCTL_AUTH_MAGIC a) E_OK x # post \<and> EV_CLOSE m \<notin> set pre \<and>
        a \<noteq> 0 \<and> given_magic m a post \<and> opened_by_root m' post)"

lemma since_Cons: "since m (ev # h) = (if ev = EV_CLOSE m then [] else ev # since m h)"
  by (simp add: since_def)

text \<open>What is known of a file from its role.\<close>

definition role_ok :: "drm_event list \<Rightarrow> int \<times> int \<times> int \<times> u32 \<Rightarrow> bool" where
  "role_ok h = (\<lambda>(m, au, ma, mg).
     (au \<noteq> 0 \<longrightarrow> opened_by_root m h \<or> vouched_for m h) \<and> (ma \<noteq> 0 \<longrightarrow> opened_by_root m h) \<and>
     (mg \<noteq> 0 \<longrightarrow> given_magic m mg h))"

definition roles_ok :: "drm_event list \<Rightarrow> role_list \<Rightarrow> bool" where
  "roles_ok h rs \<longleftrightarrow> sp_wf rs \<and> (\<forall>r\<in>set rs. role_ok h r)"

lemma later:
  assumes "ev \<noteq> EV_CLOSE m"
  shows "opened_by_root m h \<Longrightarrow> opened_by_root m (ev # h)"
    and "given_magic m a h \<Longrightarrow> given_magic m a (ev # h)"
    and "vouched_for m h \<Longrightarrow> vouched_for m (ev # h)"
proof -
  show "opened_by_root m h \<Longrightarrow> opened_by_root m (ev # h)" "given_magic m a h \<Longrightarrow> given_magic m a (ev # h)"
    using assms by (auto simp: opened_by_root_def given_magic_def since_Cons)
  show "vouched_for m (ev # h)" if vouched: "vouched_for m h"
  proof -
    obtain b m' x pre post where h: "h = pre @ EV_IOCTL m' (DRM_IOCTL_AUTH_MAGIC b) E_OK x # post" "EV_CLOSE m \<notin> set pre"
        "b \<noteq> 0" "given_magic m b post" "opened_by_root m' post"
      using vouched unfolding vouched_for_def by blast
    have "ev # h = (ev # pre) @ EV_IOCTL m' (DRM_IOCTL_AUTH_MAGIC b) E_OK x # post" "EV_CLOSE m \<notin> set (ev # pre)"
      using h(1,2) assms by simp_all
    then show ?thesis
      unfolding vouched_for_def using h(3-) by blast
  qed
qed

lemma role_ok_later: "role_ok h (m, r) \<Longrightarrow> ev \<noteq> EV_CLOSE m \<Longrightarrow> role_ok (ev # h) (m, r)"
  using later[of ev m] by (cases r) (auto simp: role_ok_def)

lemma set_sp_insert: "x \<in> set (sp_insert k v t) \<Longrightarrow> x = (k, v) \<or> x \<in> set t"
  by (induction k v t rule: sp_insert.induct) (auto split: if_splits)

lemma roles_ok_open:
  assumes ok: "roles_ok h rs" and root: "rs = [] \<Longrightarrow> e = E_OK \<Longrightarrow> su"
  shows "roles_ok (EV_OPEN m su e # h) (opened m su e rs)"
proof -
  have old: "role_ok (EV_OPEN m su e # h) r" if "r \<in> set rs" for r
    using ok that role_ok_later[of h "fst r" "snd r"] by (auto simp: roles_ok_def)
  have new: "role_ok (EV_OPEN m su e # h) (m, if su then 1 else 0, if rs = [] then 1 else 0, 0)" if "e = E_OK"
    using root that by (auto simp: role_ok_def opened_by_root_def since_Cons)
  show ?thesis
    using ok old new set_sp_insert by (fastforce simp: roles_ok_def opened_def)
qed

lemma roles_ok_close: "roles_ok h rs \<Longrightarrow> roles_ok (EV_CLOSE m # h) (sp_remove m rs)"
  using role_ok_later[of h _ _ "EV_CLOSE m"] by (fastforce simp: roles_ok_def set_sp_remove)

lemma role_ok_fold: "(\<forall>r\<in>set rs. role_ok h r) = (\<forall>x\<in>set rs. role_ok h (fst x, snd x))"
  by simp

lemma roles_ok_update:
  assumes "sp_wf rs" and "\<forall>r\<in>set rs. role_ok h r" and "\<And>v. role_ok h (m, v) \<Longrightarrow> role_ok h (m, g v)"
  shows "roles_ok h (sp_update m g rs)"
  using assms sp_update_all[of rs "\<lambda>k v. role_ok h (k, v)" m g] by (simp add: roles_ok_def)

lemma roles_ok_ioctl:
  assumes ok: "roles_ok h (file_roles d)" and tells: "tells d mi cmd (e, x, d')"
  shows "roles_ok (EV_IOCTL mi cmd e x # h) (file_roles d')"
proof -
  let ?ev = "EV_IOCTL mi cmd e x" and ?rs = "file_roles d"
  have wf: "sp_wf ?rs" and old: "\<forall>r\<in>set ?rs. role_ok (?ev # h) r"
    using ok role_ok_later[of h _ _ ?ev] by (auto simp: roles_ok_def)
  show ?thesis
  proof (cases "file_roles d' = ?rs")
    case True
    then show ?thesis
      using wf old by (simp add: roles_ok_def)
  next
    case False
    then have e: "e = E_OK" and new: "file_roles d' = told mi cmd x ?rs"
      using tells by (auto simp: tells_def)
    consider (magic) "cmd = DRM_IOCTL_GET_MAGIC" | (auth) a where "cmd = DRM_IOCTL_AUTH_MAGIC a"
      using False tells_plain[of cmd d mi e x d'] tells by blast
    then show ?thesis
    proof cases
      case magic
      then obtain a where x: "x = MAGIC_REPLY a" and new: "file_roles d' = sp_update mi (\<lambda>(au, ma, mg). (au, ma, a)) ?rs"
        using False new by (auto simp: told_def got_magic_def split: drm_reply.splits)
      have "given_magic mi a (?ev # h)"
        by (simp add: given_magic_def since_Cons e x magic)
      then have "role_ok (?ev # h) (mi, v) \<Longrightarrow> role_ok (?ev # h) (mi, case v of (au, ma, mg) \<Rightarrow> (au, ma, a))" for v
        by (cases v) (simp add: role_ok_def)
      then show ?thesis
        unfolding new by (intro roles_ok_update[OF wf old])
    next
      case (auth a)
      then have "is_master mi ?rs" "file_roles d' = gave_auth a ?rs"
        using False new by (auto simp: told_def split: if_splits)
      then obtain m au ma mg where find: "find (\<lambda>(m, au, ma, mg). mg = a) ?rs = Some (m, au, ma, mg)" and a: "a \<noteq> 0"
          and new: "file_roles d' = sp_update m (\<lambda>(au, ma, mg). (1, ma, 0)) ?rs"
        using False by (auto simp: gave_auth_def split: if_splits option.splits)
      have "(m, au, ma, a) \<in> set ?rs"
        using find by (auto simp: find_Some_iff in_set_conv_nth)
      then have given: "given_magic m a h"
        using ok a by (auto simp: roles_ok_def role_ok_def)
      obtain au' mg' where "(mi, au', 1, mg') \<in> set ?rs"
        using \<open>is_master mi ?rs\<close> unfolding is_master_def by (blast dest: map_of_SomeD)
      then have root: "opened_by_root mi h"
        using ok by (auto simp: roles_ok_def role_ok_def)
      have "?ev # h = [] @ EV_IOCTL mi (DRM_IOCTL_AUTH_MAGIC a) E_OK x # h"
        by (simp add: auth e)
      then have "vouched_for m (?ev # h)"
        unfolding vouched_for_def using a given root by fastforce
      then have "role_ok (?ev # h) (m, v) \<Longrightarrow> role_ok (?ev # h) (m, case v of (au, ma, mg) \<Rightarrow> (1, ma, 0))" for v
        by (cases v) (simp add: role_ok_def)
      then show ?thesis
        unfolding new by (intro roles_ok_update[OF wf old])
    qed
  qed
qed

lemma session_roles_ok: "session h d \<Longrightarrow> roles_ok h (file_roles d)"
proof (induction rule: session.induct)
  case (s_start d)
  then show ?case
    by (simp add: roles_ok_def file_roles_eq)
next
  case (s_open h d sy kd fl mi su e d')
  have "open_post mi su (file_roles d) (e, d')"
    by (rule yieldsD[OF drmopen_roles[OF s_open.hyps(2)] s_open.hyps(3)])
  then show ?case
    using roles_ok_open[OF s_open.IH] by (auto simp: open_post_def)
next
  case (s_close h d sy mi e d')
  have "file_roles d' = sp_remove mi (file_roles d)"
    using yieldsD[OF drmclose_roles[OF s_close.hyps(2)] s_close.hyps(3)] by simp
  then show ?case
    using roles_ok_close[OF s_close.IH] by simp
next
  case (s_ioctl h d sy cmd mi e x d')
  show ?case
    by (rule roles_ok_ioctl[OF s_ioctl.IH yieldsD[OF drmioctl_roles[OF s_ioctl.hyps(2)] s_ioctl.hyps(3)]])
next
  case (s_other h d d')
  then show ?case
    by (simp add: file_roles_def)
qed

end
