(* ===== verification/Drv_Claims.thy ===== *)
theory Drv_Claims
  imports Drv_Session Maps_Sarea
begin

text \<open>
  The claims about the dispatch of ioctls and about sessions, with a concrete driver and device.
\<close>

section \<open>A concrete driver and device\<close>

definition demo_driver :: "drv_dev drm_driver_info" where
  "demo_driver =
     \<lparr>firstopen = None, open_cb = None, ioctl_cb = None, close_cb = None, lastclose = None, dma_ioctl = None,
      irq_install = \<lambda>d. (E_OK, d), irq_uninstall = \<lambda>d. d, vblank_pipes = 1, get_vblank_counter = \<lambda>_ _. 0,
      enable_vblank = \<lambda>d _. (E_OK, d), disable_vblank = \<lambda>d _. d, gem_init_object = None, gem_free_object = None,
      gem_size = 1024, buf_priv_size = 8, file_priv_size = 0, drv_major = 1, drv_minor = 6, drv_patchlevel = 0,
      drv_name = ''demo'', drv_desc = ''Demo'', drv_date = ''20080730'', drv_flags = 0x88\<rparr>"

definition demo_sys :: "drv_dev drm_sys" where
  "demo_sys =
     \<lparr>sy_kern = demo_kern, sy_agp = demo_methods, sy_driver = demo_driver, sy_env = \<lambda>_ d. d, sy_turns = [],
      sy_words = [], sy_sleeps = [], sy_holds = \<lambda>_ _. [], sy_root = \<lambda>t. fst (hd t), sy_calloc = True,
      sy_now = (0, 0), sy_copyout = \<lambda>_. True, sy_copyfield = \<lambda>_ _. True, sy_vfinddev = True,
      sy_uvm_mmap = \<lambda>_ _. Inr 0, sy_fsetown = \<lambda>_ p. (E_OK, p), sy_fgetown = \<lambda>_ p. (E_OK, p)\<rparr>"

text \<open>The device after attachment.\<close>

definition demo_drv :: drv_dev where
  "demo_drv =
     \<lparr>lock = \<lparr>hw_lock = None, lk_file_priv = None, lk_broadcasts = 0\<rparr>, ctx_bitmap = None,
      files = [], open_count = 0, magicid = 0, if_version = 0,
      objs = (\<lambda>_. None), uao_count = 0, obj_count = 0, obj_name = 0, obj_memory = 0, name_tree = [],
      dev_private = Some 0, dev_irq = 5, irq_enabled = 0,
      vblank = Some \<lparr>vb_num = 1, vb_max = 0, vb_disable_timer = None, vb_crtcs = [zero_vblank, zero_vblank]\<rparr>,
      dev_lock = False, handle_ext = [], maplist = [], next_map = 0, lock_kva = None, agp = None,
      agp_dev = demo_agp, sg = None, dma = None, agp_buffer_map = None, dma_mem = {#}, buf_pgid = 0,
      unique = ''pci:0000:00:02.0'' @ replicate 5 (CHR 0x00), unique_len = 20\<rparr>"

lemma demo_quiet:
  "managed.calm_sys demo_sys" "guarded.calm_sys demo_sys" "keeps_roles demo_sys"
  by (simp_all add: managed.calm_sys_def guarded.calm_sys_def roles.calm_sys_def keeps_roles_def kept_def
      managed.quiet_def guarded.quiet_def roles.quiet_def managed.quiet_sleeps_def guarded.quiet_sleeps_def
      roles.quiet_sleeps_def managed.quiet_holds_def guarded.quiet_holds_def roles.quiet_holds_def
      demo_sys_def demo_driver_def)

definition demo_first :: drv_dev where
  "demo_first = demo_drv\<lparr>lock := \<lparr>hw_lock = Some 0, lk_file_priv = None, lk_broadcasts = 0\<rparr>,
     open_count := 1, magicid := 1, handle_ext := [(0x40000000, 0x2000)], maplist := [demo_sarea], next_map := 1,
     lock_kva := Some 0xffff0000, dma := Some zero_dma,
     dma_mem := add_mset (R_mem K_DMA) (add_mset (R_mem K_MAP) (footprint demo_mem))\<rparr>"

lemma demo_firstopen: "drm_firstopen demo_sys (demo_drv\<lparr>open_count := 1\<rparr>) = Ret (E_OK, demo_first)"
  by (simp add: drm_firstopen_def drm_addmap_def addmap_setup_def find_kernel_map_def demo_kern_def drm_new_def
      bus_dma.truncate_def demo_ext_def map_types PAGE_SIZE_def DRM_REMOVABLE_def DRM_CONTAINS_LOCK_def Let_def
      drm_dmamem_alloc_def dm_segs0_def demo_sarea_def demo_first_def demo_mem_def footprint_def add_mset_commute
      demo_drv_def demo_sys_def demo_driver_def SAREA_MAX_def DRM_LOCK_def DRM_UNLOCK_def has_flag_def DRIVER_DMA_def
      drm_dma_setup_def)

text \<open>The file of the superuser, who becomes the master, and that of another client.\<close>

definition demo_both :: drv_dev where
  "demo_both = demo_first\<lparr>open_count := 2, magicid := 2,
     files := [(0, (new_file 0 3 0 True)\<lparr>master := 1\<rparr>), (1, (new_file 1 3 1 False)\<lparr>ioctl_count := 1, magic := 1\<rparr>)],
     dma_mem := add_mset (R_mem K_FILE) (add_mset (R_mem K_FILE) (dma_mem demo_first))\<rparr>"

definition demo_one :: drv_dev where
  "demo_one = demo_first\<lparr>files := [(0, (new_file 0 3 0 True)\<lparr>master := 1\<rparr>)],
     dma_mem := add_mset (R_mem K_FILE) (dma_mem demo_first)\<rparr>"

definition demo_two :: drv_dev where
  "demo_two = demo_both\<lparr>magicid := 1, files := [(0, (new_file 0 3 0 True)\<lparr>master := 1\<rparr>), (1, new_file 1 3 1 False)]\<rparr>"

lemma demo_first_sel [simp]:
  "dev_lock demo_first = False" "files demo_first = []" "open_count demo_first = 1" "dev_private demo_first = Some 0"
  "magicid demo_first = 1" "maplist demo_first = [demo_sarea]" "agp demo_first = None" "dma demo_first = Some zero_dma"
  by (simp_all add: demo_first_def demo_drv_def)

lemma demo_sys_sel [simp]:
  "sy_kern demo_sys = demo_kern" "sy_driver demo_sys = demo_driver" "open_cb demo_driver = None"
  "drm_new demo_kern k l = Some (add_mset (R_mem k) l)" "ioctl_cb demo_driver = None"
  by (simp_all add: demo_sys_def demo_driver_def drm_new_def demo_kern_def bus_dma.truncate_def)

lemma demo_drmopen: "drmopen demo_sys 0 3 0 True demo_drv = Ret (E_OK, demo_one)"
proof -
  have "dev_private demo_drv \<noteq> None" "(3 :: u32) AND O_EXCL = 0" "\<not> dev_lock demo_drv" "open_count demo_drv = 0"
    by (simp_all add: demo_drv_def O_EXCL_def)
  then show ?thesis
    by (simp add: drmopen_def Let_def demo_firstopen open_file_def open_insert_def demo_one_def new_file_def)
qed

lemma demo_drmopen2: "drmopen demo_sys 1 3 1 False demo_one = Ret (E_OK, demo_two)"
proof -
  have "dev_private demo_one = Some 0" "(3 :: u32) AND O_EXCL = 0" "\<not> dev_lock demo_one" "open_count demo_one = 1"
    by (simp_all add: demo_one_def O_EXCL_def)
  then show ?thesis
    by (simp add: drmopen_def Let_def open_file_def open_insert_def demo_one_def demo_two_def demo_both_def new_file_def)
qed

lemma demo_getmagic: "drmioctl demo_sys DRM_IOCTL_GET_MAGIC 1 demo_two = Ret (E_OK, MAGIC_REPLY 1, demo_both)"
  by (simp add: drmioctl_def Let_def demo_two_def demo_both_def drm_find_file_by_minor_def ioctl_public_def drm_getmagic_def
      upd_file_def new_file_def)

section \<open>Privileges\<close>






section \<open>Authentication\<close>

text \<open>
  C29: In any session of opens, closes and ioctls, in any order, a file is authenticated only if it
  was opened by the superuser or if a file the superuser had opened has presented to the device the
  magic number this file got with GET_MAGIC, since the file was last closed; and it is master only
  if it was opened by the superuser.
\<close>

theorem authentication_traced:
  assumes "session h d" and "drm_find_file_by_minor d m = Some f"
  shows "(authenticated f \<noteq> 0 \<longrightarrow> opened_by_root m h \<or> vouched_for m h) \<and> (master f \<noteq> 0 \<longrightarrow> opened_by_root m h)"
proof -
  have "map_of (file_roles d) m = Some (authenticated f, master f, magic f)"
    using assms(2) by (simp add: map_of_file_roles)
  then have "(m, authenticated f, master f, magic f) \<in> set (file_roles d)"
    by (rule map_of_SomeD)
  then have "role_ok h (m, authenticated f, master f, magic f)"
    using session_roles_ok[OF assms(1)] by (simp add: roles_ok_def)
  then show ?thesis
    by (simp add: role_ok_def)
qed

lemma demo_session: "session
   [EV_IOCTL 1 DRM_IOCTL_GET_MAGIC E_OK (MAGIC_REPLY 1), EV_OPEN 1 False E_OK, EV_OPEN 0 True E_OK] demo_both"
proof -
  have "session [] demo_drv"
    by (rule s_start) (simp add: demo_drv_def)
  from s_ioctl[OF s_open[OF s_open[OF this demo_quiet(3) demo_drmopen] demo_quiet(3) demo_drmopen2]
      demo_quiet(3) demo_getmagic] show ?thesis .
qed

theorem authentication_traced_witness:
  "\<exists>d f. drmioctl demo_sys (DRM_IOCTL_AUTH_MAGIC 1) 0 demo_both = Ret (E_OK, NO_DATA, d) \<and>
     drm_find_file_by_minor d 1 = Some f \<and> authenticated f = 1 \<and>
     vouched_for 1 [EV_IOCTL 0 (DRM_IOCTL_AUTH_MAGIC 1) E_OK NO_DATA,
       EV_IOCTL 1 DRM_IOCTL_GET_MAGIC E_OK (MAGIC_REPLY 1), EV_OPEN 1 False E_OK, EV_OPEN 0 True E_OK]"
proof -
  let ?d = "demo_both\<lparr>files := [(0, (new_file 0 3 0 True)\<lparr>master := 1, ioctl_count := 1\<rparr>),
      (1, (new_file 1 3 1 False)\<lparr>ioctl_count := 1, authenticated := 1, magic := 0\<rparr>)]\<rparr>"
  have run: "drmioctl demo_sys (DRM_IOCTL_AUTH_MAGIC 1) 0 demo_both = Ret (E_OK, NO_DATA, ?d)"
    by (simp add: drmioctl_def Let_def demo_both_def drm_find_file_by_minor_def ioctl_public_def ioctl_auth_def
        ioctl_master_def drm_authmagic_def upd_file_def new_file_def ret0_def)
  have f: "drm_find_file_by_minor ?d 1 = Some ((new_file 1 3 1 False)\<lparr>ioctl_count := 1, authenticated := 1, magic := 0\<rparr>)"
    by (simp add: drm_find_file_by_minor_def)
  have "opened_by_root 1 [EV_IOCTL 0 (DRM_IOCTL_AUTH_MAGIC 1) E_OK NO_DATA,
       EV_IOCTL 1 DRM_IOCTL_GET_MAGIC E_OK (MAGIC_REPLY 1), EV_OPEN 1 False E_OK, EV_OPEN 0 True E_OK] = False"
    by (simp add: opened_by_root_def since_def)
  then show ?thesis
    using authentication_traced[OF s_ioctl[OF demo_session demo_quiet(3) run] f] run f by auto
qed

end
