(* ===== verification/Drv_Close.thy ===== *)
theory Drv_Close
  imports Drv_Claims Agpsup_Claims Bufs_Claims
begin

text \<open>
  What \<^verbatim>\<open>drm_lastclose\<close> leaves of a device, whatever its clients had obtained; the second open of a
  device file that is open already.
\<close>

section \<open>The parts of the device that are cleaned up\<close>







section \<open>Interrupts\<close>




section \<open>AGP, DMA buffers and scatter-gather memory\<close>










section \<open>Maps\<close>




section \<open>The last close\<close>







section \<open>Opening a device file twice\<close>

definition counts where
  "counts d = (open_count d, map fst (files d), maplist d, dma_mem d)"

interpretation counts: blind "counts :: 'a drv_dev_scheme \<Rightarrow> _"
  by unfold_locales (auto simp: counts_def upd_file_def)

lemma close_holdings_counts:
  assumes calm: "counts.calm_sys sy" and cb: "\<forall>f m. close_cb (sy_driver sy) = Some f \<longrightarrow> kept counts (\<lambda>d. f d m)"
  shows "yields (\<lambda>d'. counts d' = counts d) (close_holdings sy mi d)"
proof -
  let ?drv = "sy_driver sy"
  have q: "counts.quiet ?drv" "\<forall>k i. counts.quiet_holds (sy_holds sy k i)"
    using calm by (simp_all add: counts.calm_sys_def)
  have cl: "counts (case close_cb ?drv of None \<Rightarrow> d | Some f \<Rightarrow> f d mi) = counts d"
    using cb by (cases "close_cb ?drv") (simp_all add: kept_def)
  have lk: "yields (\<lambda>d'. counts d' = counts x) (close_lock ws mi x)" for ws x
    by (auto simp: close_lock_def yields_def obind_eq_Ret counts_def split: option.splits)
  have rb: "counts (drm_reclaim_buffers mi x) = counts x" for x
    by (simp add: drm_reclaim_buffers_def counts_def split: option.splits)
  have dl: "counts (x\<lparr>dev_lock := b\<rparr>) = counts x" for x b
    by (simp add: counts_def)
  show ?thesis
    unfolding close_holdings_def Let_def yields_obind DRM_LOCK_def
    by (rule yields_mono[OF lk])
      (auto simp: cl rb dl split: option.splits intro!: yields_mono[OF counts.close_events] yields_mono[OF counts.close_handles[OF q]])
qed

text \<open>
  C31: An open of a device file that is already open, the only open file of the device, succeeds, but
  the file it makes is not entered in the list of files: the count of opens is 2. The device is
  closed once for both. This close reports success and leaves no open file, but the count is 1:
  \<^verbatim>\<open>drm_lastclose\<close> has not run, the maps are still there, and so is the memory of the second file. The
  next open does not see that it is the first.
\<close>

theorem reopen_loses_lastclose:
  assumes d: "files d = [(mi, f)]" "open_count d = 1" "dev_private d \<noteq> None" "\<not> dev_lock d"
    and fl: "fl AND O_EXCL = 0" and new: "drm_new (sy_kern sy) K_FILE (dma_mem d) = Some l"
    and drv: "open_cb (sy_driver sy) = None"
      "\<forall>f m. close_cb (sy_driver sy) = Some f \<longrightarrow> kept counts (\<lambda>d. f d m)" "counts.calm_sys sy"
  shows "drmopen sy kd fl mi su d = Ret (E_OK, d\<lparr>open_count := 2, dma_mem := l\<rparr>) \<and>
    (\<forall>e d'. drmclose sy mi (d\<lparr>open_count := 2, dma_mem := l\<rparr>) = Ret (e, d') \<longrightarrow>
       e = E_OK \<and> files d' = [] \<and> open_count d' = 1 \<and> maplist d' = maplist d \<and> dma_mem d' = dma_mem d)"
proof (intro conjI allI impI)
  let ?d = "d\<lparr>open_count := 2, dma_mem := l\<rparr>"
  show "drmopen sy kd fl mi su d = Ret (E_OK, ?d)"
    using d fl new drv(1) by (simp add: drmopen_def open_file_def open_insert_def new_file_def Let_def)
  fix e d'
  assume run: "drmclose sy mi ?d = Ret (e, d')"
  have "drm_find_file_by_minor (?d\<lparr>dev_lock := True\<rparr>) mi = Some f"
    using d(1) by (simp add: drm_find_file_by_minor_def)
  then obtain x where x: "close_holdings sy mi ?d = Ret x"
    and fin: "close_done sy E_OK (x\<lparr>buf_pgid := 0, files := sp_remove mi (files x), dma_mem := drm_free K_FILE (dma_mem x)\<rparr>)
      = Ret (e, d')"
    using run d(4) by (auto simp: drmclose_def obind_eq_Ret)
  have "counts x = counts ?d"
    by (rule yieldsD[OF close_holdings_counts[OF drv(3,2)] x])
  then have x: "open_count x = 2" "map fst (files x) = [mi]" "maplist x = maplist d" "dma_mem x = l"
    using d(1) by (simp_all add: counts_def)
  then have "sp_remove mi (files x) = []"
    by (auto simp: sp_remove_def)
  then show "e = E_OK" "files d' = []" "open_count d' = 1" "maplist d' = maplist d" "dma_mem d' = dma_mem d"
    using fin x drm_new_Some[OF new]
    by (auto simp: close_done_def Let_def DRM_UNLOCK_def drm_free_def obind_eq_Ret split: if_splits)
qed

theorem reopen_loses_lastclose_witness:
  "\<exists>d'. drmopen demo_sys 0 3 0 True demo_one = Ret (E_OK, demo_one\<lparr>open_count := 2, dma_mem := add_mset (R_mem K_FILE) (dma_mem demo_one)\<rparr>) \<and>
     drmclose demo_sys 0 (demo_one\<lparr>open_count := 2, dma_mem := add_mset (R_mem K_FILE) (dma_mem demo_one)\<rparr>) = Ret (E_OK, d') \<and>
     files d' = [] \<and> open_count d' = 1 \<and> maplist d' = [demo_sarea]"
proof -
  let ?d = "demo_one\<lparr>open_count := 2, dma_mem := add_mset (R_mem K_FILE) (dma_mem demo_one)\<rparr>"
  have pre: "files demo_one = [(0, (new_file 0 3 0 True)\<lparr>master := 1\<rparr>)]" "open_count demo_one = 1"
    "dev_private demo_one \<noteq> None" "\<not> dev_lock demo_one" "(3 :: u32) AND O_EXCL = 0"
    "drm_new (sy_kern demo_sys) K_FILE (dma_mem demo_one) = Some (add_mset (R_mem K_FILE) (dma_mem demo_one))"
    by (simp_all add: demo_one_def O_EXCL_def)
  have calm: "counts.calm_sys demo_sys" "close_cb (sy_driver demo_sys) = None"
    "open_cb (sy_driver demo_sys) = None"
    by (simp_all add: counts.calm_sys_def kept_def counts.quiet_def counts.quiet_sleeps_def counts.quiet_holds_def
        demo_sys_def demo_driver_def)
  have "\<exists>e d'. drmclose demo_sys 0 ?d = Ret (e, d')"
    by (simp add: drmclose_def pre drm_find_file_by_minor_def close_holdings_def close_lock_def close_events_def
        Let_def has_flag_def DRIVER_DMA_def DRIVER_GEM_def drm_reclaim_buffers_def zero_dma_def lock_is_held_def
        new_file_def the_crtc_def zero_vblank_def close_done_def demo_one_def demo_first_def demo_drv_def
        demo_driver_def demo_sys_def DRM_LOCK_HELD_def upd_file_def close_handles.simps[of _ _ _ _ "[]"])
  then obtain e d' where run: "drmclose demo_sys 0 ?d = Ret (e, d')"
    by blast
  have "maplist demo_one = [demo_sarea]"
    by (simp add: demo_one_def)
  then show ?thesis
    using reopen_loses_lastclose[of demo_one 0 _ 3 demo_sys, OF pre calm(3) _ calm(1), of 0 True] run calm(2) by auto
qed

end
