(* ===== verification/I915_Word.thy ===== *)
theory I915_Word
  imports Prelude
begin

text \<open>Facts on 32 and 64-bit words that the theories of the i915 driver share.\<close>

section \<open>Values\<close>

lemma sint_small: "- (2 ^ 31) \<le> z \<Longrightarrow> z < 2 ^ 31 \<Longrightarrow> sint (word_of_int z :: u32) = z"
  using sint_sbintrunc'[of z, where 'a = 32] by (simp add: signed_take_bit_int_eq_self)

lemma u32_of_unat: "unat (w :: u32) = n \<Longrightarrow> w = of_nat n"
  by (metis of_nat_unat ucast_id)

lemma unat_sint:
  assumes "0 \<le> sint (w :: u32)"
  shows "int (unat w) = sint w"
proof -
  have "uint (word_of_int (sint w) :: u32) = sint w"
    using assms sint_lt[of w] by (simp only: unsigned_of_int) (simp add: take_bit_int_eq_self)
  then show ?thesis
    by simp
qed

lemma unat_ucast_64:
  assumes "unat (w :: u32) = n"
  shows "unat (ucast w :: u64) = n"
proof -
  have "unat w < 2 ^ LENGTH(32)"
    by (rule unsigned_less)
  then show ?thesis
    using assms by (auto simp: unsigned_ucast_eq take_bit_nat_eq_self)
qed

lemma unat_power_64:
  assumes "k < 64"
  shows "unat (2 ^ k :: u64) = 2 ^ k"
proof -
  have "(2 :: nat) ^ k < 2 ^ 64"
    using assms by (intro power_strict_increasing) auto
  then show ?thesis
    using unat_of_nat[of "2 ^ k", where 'a = 64] by (simp add: take_bit_nat_eq_self)
qed

section \<open>Bits\<close>

lemma bit_small:
  fixes p :: "'a::len word"
  assumes "unat p < 2 ^ k" "bit p i"
  shows "i < k"
proof -
  have "take_bit k p = p"
    using assms(1) by (simp add: word_unat_eq_iff unsigned_take_bit_eq take_bit_nat_eq_self)
  then show ?thesis
    using assms(2) bit_take_bit_iff[of k p i] by simp
qed

lemma pow2_nat: "n \<noteq> 0 \<Longrightarrow> n AND (n - 1) = 0 \<Longrightarrow> \<exists>k. n = 2 ^ k" for n :: nat
proof (induction n rule: less_induct)
  case (less n)
  show ?case
  proof (cases "even n")
    case True
    then obtain m where m: "n = 2 * m"
      by blast
    then have "(n - 1) div 2 = m - 1" "m \<noteq> 0"
      using less.prems(1) by auto
    then have "m AND (m - 1) = 0"
      using less.prems(2) m by (subst (asm) and_rec) simp
    then obtain k where "m = 2 ^ k"
      using less.IH[of m] m \<open>m \<noteq> 0\<close> by auto
    then show ?thesis
      using m by (intro exI[of _ "Suc k"]) simp
  next
    case False
    then obtain m where m: "n = 2 * m + 1"
      using oddE by blast
    then have "m = 0"
      using less.prems(2) by (subst (asm) and_rec) simp
    then show ?thesis
      using m by (intro exI[of _ 0]) simp
  qed
qed

lemma pow2_word:
  fixes w :: "'a::len word"
  assumes "w \<noteq> 0" "w AND (w - 1) = 0"
  obtains k where "k < LENGTH('a)" "w = 2 ^ k" "unat w = 2 ^ k"
proof -
  have "unat w AND (unat w - 1) = 0"
    using arg_cong[OF assms(2), of unat] assms(1) by (simp add: unsigned_and_eq unat_minus_one)
  then obtain k where k: "unat w = 2 ^ k"
    using pow2_nat[of "unat w"] assms(1) by (auto simp: unat_eq_0)
  moreover have "unat w < 2 ^ LENGTH('a)"
    by (rule unsigned_less)
  ultimately have "k < LENGTH('a)"
    by simp
  moreover have "w = 2 ^ k"
    using k by (metis of_nat_numeral of_nat_power of_nat_unat ucast_id)
  ultimately show ?thesis
    using k that by blast
qed

section \<open>Writing into an array\<close>

definition overwrite :: "nat \<Rightarrow> 'a list \<Rightarrow> 'a list \<Rightarrow> 'a list" where
  "overwrite p ws mem = take p mem @ ws @ drop (p + length ws) mem"

lemma length_overwrite [simp]: "p + length ws \<le> length mem \<Longrightarrow> length (overwrite p ws mem) = length mem"
  by (simp add: overwrite_def)

lemma overwrite_Nil [simp]: "overwrite p [] mem = mem"
  by (simp add: overwrite_def)

lemma overwrite_Cons: "p < length mem \<Longrightarrow> overwrite (Suc p) ws (mem[p := w]) = overwrite p (w # ws) mem"
  by (simp add: overwrite_def upd_conv_take_nth_drop min_def add.commute)

lemma nth_overwrite:
  "p + length ws \<le> length mem \<Longrightarrow> i < length mem \<Longrightarrow>
   overwrite p ws mem ! i = (if p \<le> i \<and> i < p + length ws then ws ! (i - p) else mem ! i)"
  by (auto simp: overwrite_def nth_append)

end
