(* ===== verification/I915_Ring.thy ===== *)
theory I915_Ring
  imports I915_Word "HOL-Library.Sublist"
begin

text \<open>
  The ring buffer of \<^verbatim>\<open>i915_drv.c\<close>, through which the driver gives commands to the GPU: the driver
  writes at the tail, the GPU reads at the head. Shown to implement a queue of command words: what
  the GPU reads is what was submitted, in order, with no-ops for padding, and nothing is overwritten
  before it has been read.
\<close>

section \<open>The ring\<close>

text \<open>
  \<open>rg_space\<close> is an \<^verbatim>\<open>int32_t\<close>; \<open>rg_mem\<close> are the words of the buffer mapped at \<^verbatim>\<open>bsh\<close> and \<open>prb_tail\<close>
  the register \<^verbatim>\<open>PRB0_TAIL\<close>.
\<close>

record inteldrm_ring =
  rg_size :: u64
  rg_head :: u32
  rg_space :: u32
  rg_tail :: u32
  rg_woffset :: u32
  rg_mem :: "u32 list"
  prb_tail :: u32

definition HEAD_ADDR :: u32 where "HEAD_ADDR = 0x001FFFFC"
definition TAIL_ADDR :: u32 where "TAIL_ADDR = 0x001FFFF8"

definition MI_INSTR :: "u32 \<Rightarrow> u32 \<Rightarrow> u32" where
  "MI_INSTR opcode flags = push_bit 23 opcode OR flags"

definition MI_NOOP :: u32 where "MI_NOOP = MI_INSTR 0 0"

text \<open>\<^verbatim>\<open>ring->space = ring->head - (ring->tail + 8); if (ring->space < 0) ring->space += ring->size;\<close>\<close>

definition set_space :: "u32 \<Rightarrow> inteldrm_ring \<Rightarrow> inteldrm_ring" where
  "set_space head r =
     (let space = head - (rg_tail r + 8)
      in r\<lparr>rg_head := head, rg_space := (if sint space < 0 then space + ucast (rg_size r) else space)\<rparr>)"

text \<open>
  The registers \<^verbatim>\<open>PRB0_HEAD\<close> and \<^verbatim>\<open>ACTHD\<close> are read again and again; the list has what they hold each
  time. A wait that has used it up is \<open>Asleep\<close>.
\<close>

type_synonym readings = "(u32 \<times> u32) list"

fun wait_ring_loop ::
  "readings \<Rightarrow> nat \<Rightarrow> u32 \<Rightarrow> u32 \<Rightarrow> int \<Rightarrow> inteldrm_ring \<Rightarrow> (errno \<times> readings \<times> inteldrm_ring) outcome" where
  "wait_ring_loop rs i last_head last_acthd n r =
     (if \<not> i < 100000 then Ret (EBUSY, rs, r)
      else case rs of
        [] \<Rightarrow> Asleep
      | (hd_reg, acthd) # rs' \<Rightarrow>
          let r = set_space (hd_reg AND HEAD_ADDR) r
          in if sint (rg_space r) \<ge> n then Ret (E_OK, rs', r)
             else wait_ring_loop rs'
                    (Suc (if rg_head r \<noteq> last_head \<or> acthd \<noteq> last_acthd then 0 else i)) (rg_head r) acthd n r)"

declare wait_ring_loop.simps [simp del]

definition inteldrm_wait_ring ::
  "readings \<Rightarrow> int \<Rightarrow> inteldrm_ring \<Rightarrow> (errno \<times> readings \<times> inteldrm_ring) outcome" where
  "inteldrm_wait_ring rs n r =
     (case rs of
        [] \<Rightarrow> Asleep
      | (hd_reg, acthd) # rs' \<Rightarrow> wait_ring_loop rs' 0 (hd_reg AND HEAD_ADDR) acthd n r)"

text \<open>A write behind the buffer leaves the mapping.\<close>

definition ring_write :: "u32 \<Rightarrow> u32 \<Rightarrow> inteldrm_ring \<Rightarrow> inteldrm_ring outcome" where
  "ring_write off v r =
     (if unat off div 4 < length (rg_mem r) then Ret (r\<lparr>rg_mem := (rg_mem r)[unat off div 4 := v]\<rparr>) else Panic)"

text \<open>\<^verbatim>\<open>bus_space_set_region_4\<close>\<close>

fun ring_set_region :: "nat \<Rightarrow> u32 \<Rightarrow> u32 \<Rightarrow> inteldrm_ring \<Rightarrow> inteldrm_ring outcome" where
  "ring_set_region 0 off v r = Ret r"
| "ring_set_region (Suc n) off v r = obind (ring_write off v r) (ring_set_region n (off + 4) v)"

definition inteldrm_wrap_ring :: "readings \<Rightarrow> inteldrm_ring \<Rightarrow> (readings \<times> inteldrm_ring) outcome" where
  "inteldrm_wrap_ring rs r =
     (let rem = ucast (rg_size r) - rg_tail r
      in obind (if rg_space r < rem then inteldrm_wait_ring rs (sint rem) r else Ret (E_OK, rs, r))
           (\<lambda>(e, rs, r).
            if e \<noteq> E_OK then Ret (rs, r)
            else obind (ring_set_region (unat rem div 4) (rg_woffset r) MI_NOOP (r\<lparr>rg_space := rg_space r - rem\<rparr>))
                   (\<lambda>r. Ret (rs, r\<lparr>rg_tail := 0\<rparr>))))"

text \<open>What the second wait answers is dropped.\<close>

definition inteldrm_begin_ring :: "readings \<Rightarrow> u32 \<Rightarrow> inteldrm_ring \<Rightarrow> (readings \<times> inteldrm_ring) outcome" where
  "inteldrm_begin_ring rs ncmd r =
     (let bytes = 4 * ncmd
      in obind (if ucast (rg_tail r + bytes) > rg_size r then inteldrm_wrap_ring rs r else Ret (rs, r)) (\<lambda>(rs, r).
         obind (if sint (rg_space r) < sint bytes then inteldrm_wait_ring rs (sint bytes) r else Ret (E_OK, rs, r))
           (\<lambda>(e, rs, r).
            Ret (rs, r\<lparr>rg_woffset := rg_tail r,
                       rg_tail := ucast (ucast (rg_tail r + bytes) AND (rg_size r - 1)),
                       rg_space := rg_space r - bytes\<rparr>))))"

definition inteldrm_out_ring :: "u32 \<Rightarrow> inteldrm_ring \<Rightarrow> inteldrm_ring outcome" where
  "inteldrm_out_ring cmd r =
     obind (ring_write (rg_woffset r) cmd r) (\<lambda>r. Ret (r\<lparr>rg_woffset := rg_woffset r + 4\<rparr>))"

definition inteldrm_advance_ring :: "inteldrm_ring \<Rightarrow> inteldrm_ring" where
  "inteldrm_advance_ring r = r\<lparr>prb_tail := rg_tail r\<rparr>"

definition inteldrm_update_ring :: "u32 \<Rightarrow> inteldrm_ring \<Rightarrow> inteldrm_ring" where
  "inteldrm_update_ring hd_reg r = set_space (hd_reg AND HEAD_ADDR) (r\<lparr>rg_tail := prb_tail r AND TAIL_ADDR\<rparr>)"

text \<open>\<^verbatim>\<open>BEGIN_LP_RING(n); OUT_RING(...); ... ADVANCE_LP_RING();\<close>\<close>

fun out_words :: "u32 list \<Rightarrow> inteldrm_ring \<Rightarrow> inteldrm_ring outcome" where
  "out_words [] r = Ret r"
| "out_words (c # cs) r = obind (inteldrm_out_ring c r) (out_words cs)"

definition ring_emit :: "readings \<Rightarrow> u32 \<Rightarrow> u32 list \<Rightarrow> inteldrm_ring \<Rightarrow> (readings \<times> inteldrm_ring) outcome" where
  "ring_emit rs n cs r =
     obind (inteldrm_begin_ring rs n r) (\<lambda>(rs, r).
     obind (out_words cs r) (\<lambda>r. Ret (rs, inteldrm_advance_ring r)))"

section \<open>The GPU\<close>

text \<open>
  The GPU is at word \<open>g\<close> of \<open>N\<close> and may read \<open>q\<close> more, up to the tail register; what it will read.
\<close>

definition ring_words :: "u32 list \<Rightarrow> nat \<Rightarrow> nat \<Rightarrow> u32 list" where
  "ring_words mem g q = map (\<lambda>j. mem ! ((g + j) mod length mem)) [0..<q]"

text \<open>The register when the GPU reads \<open>j\<close> words between one reading and the next.\<close>

fun gpu_readings :: "nat \<Rightarrow> nat \<Rightarrow> (nat \<times> u32) list \<Rightarrow> readings" where
  "gpu_readings N g [] = []"
| "gpu_readings N g ((j, acthd) # js) = (of_nat (4 * ((g + j) mod N)), acthd) # gpu_readings N ((g + j) mod N) js"

definition consumed :: "(nat \<times> u32) list \<Rightarrow> nat" where
  "consumed js = sum_list (map fst js)"

text \<open>A GPU that reads something at least once in 99999 readings.\<close>

definition rests :: "nat \<Rightarrow> (nat \<times> u32) list \<Rightarrow> bool" where
  "rests n js \<longleftrightarrow> (\<exists>mid. sublist mid js \<and> n \<le> length mid \<and> (\<forall>x\<in>set mid. fst x = 0))"

definition gpu_alive :: "(nat \<times> u32) list \<Rightarrow> bool" where
  "gpu_alive js \<longleftrightarrow> \<not> rests 99999 js"

text \<open>
  The ring with the GPU at \<open>g\<close>, \<open>q\<close> words up to the tail register and \<open>u\<close> up to the tail; the space
  the driver believes in is there.
\<close>

definition ring_inv :: "inteldrm_ring \<Rightarrow> nat \<Rightarrow> nat \<Rightarrow> nat \<Rightarrow> bool" where
  "ring_inv r g q u \<longleftrightarrow>
     (\<exists>k. length (rg_mem r) = 2 ^ k \<and> 1 \<le> k \<and> k \<le> 19) \<and> unat (rg_size r) = 4 * length (rg_mem r) \<and>
     g < length (rg_mem r) \<and> q \<le> u \<and> unat (prb_tail r) = 4 * ((g + q) mod length (rg_mem r)) \<and>
     unat (rg_tail r) = 4 * ((g + u) mod length (rg_mem r)) \<and>
     0 \<le> sint (rg_space r) \<and> 4 * int u + 8 + sint (rg_space r) \<le> 4 * int (length (rg_mem r))"

definition ring_ok :: "inteldrm_ring \<Rightarrow> nat \<Rightarrow> nat \<Rightarrow> bool" where
  "ring_ok r g q \<longleftrightarrow> ring_inv r g q q \<and> (rg_tail r \<noteq> 0 \<longrightarrow> rg_woffset r = rg_tail r)"

text \<open>The GPU has read \<open>q\<close> words with \<open>c\<close> readings still to come.\<close>

definition catches_up :: "nat \<Rightarrow> nat \<Rightarrow> (nat \<times> u32) list \<Rightarrow> bool" where
  "catches_up c q js \<longleftrightarrow> (\<exists>i\<le>length js. i + c \<le> length js \<and> q \<le> consumed (take i js))"

section \<open>Space\<close>

lemma word_size: "unat (s :: u64) = n \<Longrightarrow> n < 2 ^ 32 \<Longrightarrow> (ucast s :: u32) = of_nat n"
  by (metis of_nat_unat)

lemma head_mask:
  assumes "h < 2 ^ 19"
  shows "(of_nat (4 * h) :: u32) AND HEAD_ADDR = of_nat (4 * h)"
proof -
  have p: "(of_nat (4 * h) :: u32) = push_bit 2 (of_nat h)"
    by (simp add: push_bit_eq_mult)
  have m: "HEAD_ADDR = push_bit 2 (mask 19)"
    by (simp add: HEAD_ADDR_def mask_eq_exp_minus_1 push_bit_eq_mult)
  have "(of_nat h :: u32) AND mask 19 = of_nat h"
    using assms by (metis mask_eq_exp_minus_1 of_nat_mask_eq take_bit_eq_mask take_bit_nat_eq_self take_bit_of_nat)
  then show ?thesis
    unfolding p m push_bit_and[symmetric] by simp
qed

text \<open>The ring as large as \<open>ring_inv\<close> says it is.\<close>

lemma ring_invD:
  assumes "ring_inv r g q u"
  shows "2 \<le> length (rg_mem r)" "length (rg_mem r) \<le> 2 ^ 19" "g < length (rg_mem r)" "q \<le> u" "u + 2 \<le> length (rg_mem r)"
    "unat (rg_size r) = 4 * length (rg_mem r)" "unat (rg_tail r) = 4 * ((g + u) mod length (rg_mem r))"
    "unat (prb_tail r) = 4 * ((g + q) mod length (rg_mem r))"
    "0 \<le> sint (rg_space r)" "4 * int u + 8 + sint (rg_space r) \<le> 4 * int (length (rg_mem r))"
    "4 * length (rg_mem r) < 2 ^ 31"
proof -
  obtain k where k: "length (rg_mem r) = 2 ^ k" "1 \<le> k" "k \<le> 19"
    using assms by (auto simp: ring_inv_def)
  show "2 \<le> length (rg_mem r)"
    using k power_increasing[of 1 k "2 :: nat"] by simp
  show le: "length (rg_mem r) \<le> 2 ^ 19"
    using k power_increasing[of k 19 "2 :: nat"] by simp
  then show "4 * length (rg_mem r) < 2 ^ 31"
    by simp
qed (use assms in \<open>auto simp: ring_inv_def\<close>)

lemma set_space_eq:
  assumes "h < N" "u + 2 \<le> N" "4 * N < 2 ^ 31" "unat (rg_size r) = 4 * N" "unat (rg_tail r) = 4 * ((h + u) mod N)"
  shows "set_space (of_nat (4 * h)) r = r\<lparr>rg_head := of_nat (4 * h), rg_space := of_nat (4 * (N - 2 - u))\<rparr>"
    and "sint (of_nat (4 * (N - 2 - u)) :: u32) = 4 * (int N - 2 - int u)"
proof -
  define t where "t = (h + u) mod N"
  let ?z = "4 * int h - (4 * int t + 8)"
  have tail: "rg_tail r = of_nat (4 * t)"
    using assms(5) unfolding t_def by (rule u32_of_unat)
  have t: "t < N"
    using assms(2) by (simp add: t_def)
  have w: "(of_nat (4 * h) :: u32) - (rg_tail r + 8) = word_of_int ?z"
    unfolding tail by simp
  have lim: "- (2 ^ 31) \<le> ?z" "?z < 2 ^ 31"
    using t assms(1,3) by simp_all
  have tt: "t = (if h + u < N then h + u else h + u - N)"
    using assms(1,2) by (simp add: t_def mod_if le_mod_geq)
  have size: "(ucast (rg_size r) :: u32) = of_nat (4 * N)"
    by (rule word_size[OF assms(4)]) (use assms(3) in simp)
  have val: "int (4 * (N - 2 - u)) = 4 * (int N - 2 - int u)"
    using assms(2) by simp
  show "sint (of_nat (4 * (N - 2 - u)) :: u32) = 4 * (int N - 2 - int u)"
    using sint_small[of "int (4 * (N - 2 - u))"] assms(3) val by simp
  have neg: "sint (word_of_int ?z :: u32) < 0 \<longleftrightarrow> ?z < 0"
    unfolding sint_small[OF lim] ..
  have "?z < 0 \<longleftrightarrow> h + u < N"
    using assms(1,2) unfolding tt by auto
  moreover have "word_of_int ?z + (of_nat (4 * N) :: u32) = of_nat (4 * (N - 2 - u))" if "h + u < N"
  proof -
    have "?z + int (4 * N) = int (4 * (N - 2 - u))"
      using that assms(2) unfolding tt by simp
    then have "(of_int (?z + int (4 * N)) :: u32) = of_nat (4 * (N - 2 - u))"
      by (simp only: of_int_of_nat_eq)
    then show ?thesis
      by (simp only: of_int_add of_int_of_nat_eq)
  qed
  moreover have "(word_of_int ?z :: u32) = of_nat (4 * (N - 2 - u))" if "\<not> h + u < N"
  proof -
    have "?z = int (4 * (N - 2 - u))"
      using that assms(1,2) unfolding tt by simp
    then show ?thesis
      by (simp only: of_int_of_nat_eq)
  qed
  ultimately show "set_space (of_nat (4 * h)) r = r\<lparr>rg_head := of_nat (4 * h), rg_space := of_nat (4 * (N - 2 - u))\<rparr>"
    unfolding set_space_def Let_def w size neg by auto
qed

text \<open>What a wait does: the GPU reads \<open>k\<close> more words, and the space is exactly what is free.\<close>

definition waited :: "inteldrm_ring \<Rightarrow> nat \<Rightarrow> nat \<Rightarrow> nat \<Rightarrow> nat \<Rightarrow> inteldrm_ring \<Rightarrow> bool" where
  "waited r g q u k r' \<longleftrightarrow>
     k \<le> q \<and> ring_inv r' ((g + k) mod length (rg_mem r)) (q - k) (u - k) \<and>
     r' = r\<lparr>rg_head := rg_head r', rg_space := rg_space r'\<rparr>"

lemma ring_inv_advance:
  assumes inv: "ring_inv r g q u" and k: "k \<le> q"
  shows "waited r g q u k (set_space (of_nat (4 * ((g + k) mod length (rg_mem r)))) r)"
proof -
  let ?N = "length (rg_mem r)"
  let ?h = "(g + k) mod ?N"
  note D = ring_invD[OF inv]
  have h: "?h < ?N"
    by (rule mod_less_divisor) (use D(1) in linarith)
  have ku: "k \<le> u"
    using k D(4) by simp
  have shift: "(?h + (x - k)) mod ?N = (g + x) mod ?N" if "k \<le> x" for x
    using that by (subst mod_add_left_eq) simp
  note mods = shift[OF ku] shift[OF k]
  have u: "(u - k) + 2 \<le> ?N"
    using D(5) by simp
  have tail: "unat (rg_tail r) = 4 * ((?h + (u - k)) mod ?N)"
    unfolding mods by (rule D(7))
  note S = set_space_eq[OF h u D(11) D(6) tail]
  define s :: u32 where "s = of_nat (4 * (?N - 2 - (u - k)))"
  have "0 \<le> sint s" "4 * int (u - k) + 8 + sint s \<le> 4 * int ?N"
    using S(2) u by (simp_all add: s_def)
  then have "ring_inv (r\<lparr>rg_head := of_nat (4 * ?h), rg_space := s\<rparr>) ?h (q - k) (u - k)"
    using inv h mods D(4) ku k unfolding ring_inv_def inteldrm_ring.simps inteldrm_ring.update_convs by (simp add: diff_le_mono)
  then show ?thesis
    unfolding waited_def S(1) using k unfolding s_def by simp
qed

section \<open>Waiting\<close>

lemma waited_refl: "ring_inv r g q u \<Longrightarrow> waited r g q u 0 r"
  using ring_invD(3)[of r g q u] by (simp add: waited_def)

lemma waited_fields:
  assumes "waited r g q u k r'"
  shows "rg_mem r' = rg_mem r" "rg_size r' = rg_size r" "rg_tail r' = rg_tail r" "rg_woffset r' = rg_woffset r"
    "prb_tail r' = prb_tail r"
  using assms unfolding waited_def by (cases r; cases r'; simp)+

lemma waited_trans:
  assumes "waited r g q u k r1" "waited r1 ((g + k) mod length (rg_mem r)) (q - k) (u - k) j r2"
  shows "waited r g q u (k + j) r2"
proof -
  have "((g + k) mod length (rg_mem r) + j) mod length (rg_mem r) = (g + (k + j)) mod length (rg_mem r)"
    by (simp add: mod_add_left_eq add.assoc)
  moreover have "r2 = r\<lparr>rg_head := rg_head r2, rg_space := rg_space r2\<rparr>"
  proof -
    have "r2 = r1\<lparr>rg_head := rg_head r2, rg_space := rg_space r2\<rparr>" "r1 = r\<lparr>rg_head := rg_head r1, rg_space := rg_space r1\<rparr>"
      using assms by (simp_all add: waited_def)
    then show ?thesis
      by (cases r; cases r1; cases r2) simp
  qed
  ultimately show ?thesis
    using assms unfolding waited_def by (auto simp: waited_fields[OF assms(1)])
qed

lemma consumed_simps [simp]: "consumed [] = 0" "consumed (x # js) = fst x + consumed js"
  by (simp_all add: consumed_def)

lemma consumed_split: "consumed js = consumed (take m js) + consumed (drop m js)"
  by (metis append_take_drop_id consumed_def map_append sum_list_append)

lemma rests_sublist: "rests n ks \<Longrightarrow> sublist ks js \<Longrightarrow> rests n js"
  unfolding rests_def using sublist_order.order_trans by blast

lemma rests_prefix: "n \<le> length js \<Longrightarrow> \<forall>x\<in>set (take n js). fst x = 0 \<Longrightarrow> rests n js"
  unfolding rests_def by (rule exI[of _ "take n js"]) (simp add: sublist_take)

lemma gpu_alive_drop: "gpu_alive js \<Longrightarrow> gpu_alive (drop m js)"
  unfolding gpu_alive_def using rests_sublist sublist_drop by blast

text \<open>The GPU never reads past the tail, so a reading that differs from the last is one that it has moved.\<close>

lemma wait_step:
  assumes inv: "ring_inv r g q u" and j: "j \<le> q" and N: "N = length (rg_mem r)"
  defines "g' \<equiv> (g + j) mod N"
  defines "r1 \<equiv> set_space (of_nat (4 * g')) r"
  shows "(of_nat (4 * g') :: u32) AND HEAD_ADDR = of_nat (4 * g')" "waited r g q u j r1" "rg_head r1 = of_nat (4 * g')"
    "sint (rg_space r1) = 4 * (int N - 2 - int (u - j))" "ring_inv r1 g' (q - j) (u - j)"
proof -
  note D = ring_invD[OF inv]
  have g': "g' < N"
    unfolding g'_def N by (rule mod_less_divisor) (use D(1) in linarith)
  show "(of_nat (4 * g') :: u32) AND HEAD_ADDR = of_nat (4 * g')"
    by (rule head_mask) (use g' D(2) N in simp)
  show w: "waited r g q u j r1"
    unfolding r1_def g'_def N by (rule ring_inv_advance[OF inv j])
  show "rg_head r1 = of_nat (4 * g')"
    by (simp add: r1_def set_space_def Let_def)
  show "ring_inv r1 g' (q - j) (u - j)"
    using w by (simp add: waited_def g'_def N)
  have "unat (rg_tail r) = 4 * ((g' + (u - j)) mod N)"
    unfolding g'_def D(7) N using j D(4) by (subst mod_add_left_eq) simp
  moreover have "u - j + 2 \<le> N" "4 * N < 2 ^ 31" "unat (rg_size r) = 4 * N"
    using D N by simp_all
  ultimately show "sint (rg_space r1) = 4 * (int N - 2 - int (u - j))"
    unfolding r1_def using set_space_eq[OF g'] by (simp del: of_nat_mult)
qed

lemma ring_still:
  assumes inv: "ring_inv r g q u" and j: "j \<le> q"
    and eq: "(of_nat (4 * ((g + j) mod length (rg_mem r))) :: u32) = of_nat (4 * g)"
  shows "j = 0"
proof -
  let ?N = "length (rg_mem r)"
  note D = ring_invD[OF inv]
  have "(g + j) mod ?N < ?N"
    by (rule mod_less_divisor) (use D(1) in linarith)
  then have "(g + j) mod ?N = g"
    using arg_cong[OF eq, of unat] D(3,11) by (simp add: unat_of_nat take_bit_nat_eq_self del: of_nat_mult)
  moreover have "j < ?N"
    using j D(4,5) by simp
  ultimately show ?thesis
    using D(3) by (cases "g + j < ?N") (auto simp: le_mod_geq)
qed

text \<open>How a wait ends, after the first \<open>m\<close> of its readings.\<close>

definition wait_post ::
  "inteldrm_ring \<Rightarrow> nat \<Rightarrow> nat \<Rightarrow> nat \<Rightarrow> (nat \<times> u32) list \<Rightarrow> nat \<Rightarrow> readings \<Rightarrow> inteldrm_ring \<Rightarrow> bool" where
  "wait_post r g q u js m rs' r' \<longleftrightarrow>
     rs' = gpu_readings (length (rg_mem r)) ((g + consumed (take m js)) mod length (rg_mem r)) (drop m js) \<and>
     waited r g q u (consumed (take m js)) r'"

lemma wait_post_0: "ring_inv r g q u \<Longrightarrow> wait_post r g q u js 0 (gpu_readings (length (rg_mem r)) g js) r"
  using waited_refl[of r g q u] ring_invD(3)[of r g q u] by (simp add: wait_post_def)

lemma wait_post_Suc:
  assumes "wait_post r1 ((g + fst x) mod length (rg_mem r)) (q - fst x) (u - fst x) js m rs' r'" "waited r g q u (fst x) r1"
  shows "wait_post r g q u (x # js) (Suc m) rs' r'"
  using assms waited_trans[OF assms(2)] unfolding wait_post_def
  by (simp add: waited_fields[OF assms(2)] mod_add_left_eq add.assoc)

lemma wait_ring_loop_post:
  assumes "ring_inv r g q u" "consumed js \<le> q" "N = length (rg_mem r)"
    "wait_ring_loop (gpu_readings N g js) i (of_nat (4 * g)) la n r = Ret (e, rs', r')"
  shows "\<exists>m. wait_post r g q u js m rs' r' \<and>
           (\<forall>t>0. n \<le> 4 * (int N - 2 - int (u - consumed (take t js))) \<longrightarrow> m \<le> t) \<and>
           (e = E_OK \<and> n \<le> sint (rg_space r') \<or>
            e = EBUSY \<and> (rests 99999 js \<or> 100000 - i \<le> length js \<and> (\<forall>x\<in>set (take (100000 - i) js). fst x = 0)))"
  using assms
proof (induction js arbitrary: r g q u i la)
  case Nil
  then show ?case
    using wait_post_0[OF Nil.prems(1), of "[]"]
    by (subst (asm) wait_ring_loop.simps) (auto split: if_splits intro!: exI[of _ 0])
next
  case (Cons x js)
  obtain j a where x: "x = (j, a)"
    by (cases x)
  let ?g = "(g + j) mod N"
  define r1 where "r1 = set_space (of_nat (4 * ?g)) r"
  have j: "j \<le> q"
    using Cons.prems(2) x by simp
  note W = wait_step[OF Cons.prems(1) j Cons.prems(3), folded r1_def]
  have same: "j = 0" if "(of_nat (4 * ?g) :: u32) = of_nat (4 * g)"
    using ring_still[OF Cons.prems(1) j] that Cons.prems(3) by simp
  define i' where "i' = (if (of_nat (4 * ?g) :: u32) \<noteq> of_nat (4 * g) \<or> a \<noteq> la then 0 else i)"
  show ?case
  proof (cases "i < 100000")
    case False
    with Cons.prems(4) have "e = EBUSY" "rs' = gpu_readings N g (x # js)" "r' = r"
      by (subst (asm) wait_ring_loop.simps; simp)+
    then show ?thesis
      using False wait_post_0[OF Cons.prems(1), of "x # js"] Cons.prems(3) by (auto intro!: exI[of _ 0])
  next
    case i: True
    define G :: u32 where "G = of_nat (4 * ?g)"
    have "G AND HEAD_ADDR = G" "set_space G r = r1" "rg_head r1 = G"
      using W(1,3) by (simp_all only: G_def r1_def)
    then have unf: "wait_ring_loop (gpu_readings N g (x # js)) i (of_nat (4 * g)) la n r =
       (if n \<le> sint (rg_space r1) then Ret (E_OK, gpu_readings N ?g js, r1)
         else wait_ring_loop (gpu_readings N ?g js) (Suc i') (of_nat (4 * ?g)) a n r1)"
      using i unfolding G_def[symmetric] i'_def
      by (subst wait_ring_loop.simps) (simp only: x gpu_readings.simps list.case prod.case Let_def G_def[symmetric] simp_thms if_True if_False not_False_eq_True)
    note loop = Cons.prems(4)[unfolded unf]
    show ?thesis
    proof (cases "n \<le> sint (rg_space r1)")
      case True
      then have e: "e = E_OK" "r' = r1" "rs' = gpu_readings N ?g js"
        using loop by simp_all
      have N1: "N = length (rg_mem r1)"
        using Cons.prems(3) by (simp add: waited_fields[OF W(2)])
      have "wait_post r g q u (x # js) (Suc 0) rs' r'"
        using wait_post_Suc[of r1 g x r q u js 0 rs' r'] wait_post_0[OF W(5), of js] W(2) Cons.prems(3) e x N1 by simp
      then show ?thesis
        using True e by (intro exI[of _ "Suc 0"]) simp
    next
      case False
      have N1: "N = length (rg_mem r1)"
        using Cons.prems(3) by (simp add: waited_fields[OF W(2)])
      have "consumed js \<le> q - j"
        using Cons.prems(2) x by simp
      note IH = Cons.IH[OF W(5) this N1 loop[unfolded if_not_P[OF False]]]
      from IH obtain m where
        m: "wait_post r1 ?g (q - j) (u - j) js m rs' r'" and
        t: "\<forall>t>0. n \<le> 4 * (int N - 2 - int (u - j - consumed (take t js))) \<longrightarrow> m \<le> t" and
        e: "e = E_OK \<and> n \<le> sint (rg_space r') \<or>
            e = EBUSY \<and> (rests 99999 js \<or> 100000 - Suc i' \<le> length js \<and> (\<forall>x\<in>set (take (100000 - Suc i') js). fst x = 0))"
        by blast
      have "wait_post r g q u (x # js) (Suc m) rs' r'"
        using wait_post_Suc[of r1 g x r q u js m rs' r'] m W(2) Cons.prems(3) x by simp
      moreover have "Suc m \<le> t'" if "0 < t'" "n \<le> 4 * (int N - 2 - int (u - consumed (take t' (x # js))))" for t'
      proof (cases t')
        case (Suc t0)
        then show ?thesis
          using that t False W(4) x by (cases "t0 = 0") (auto simp: diff_diff_add)
      qed (use that in simp)
      moreover have "rests 99999 (x # js) \<or> 100000 - i \<le> length (x # js) \<and> (\<forall>y\<in>set (take (100000 - i) (x # js)). fst y = 0)"
        if stuck: "rests 99999 js \<or> 100000 - Suc i' \<le> length js \<and> (\<forall>x\<in>set (take (100000 - Suc i') js). fst x = 0)"
      proof -
        have ij: "i' = 0 \<or> i' = i \<and> j = 0"
          unfolding i'_def using same by presburger
        consider "rests 99999 js" | "i' = 0" "99999 \<le> length js" "\<forall>x\<in>set (take 99999 js). fst x = 0"
          | "i' = i" "j = 0" "100000 - Suc i \<le> length js" "\<forall>x\<in>set (take (100000 - Suc i) js). fst x = 0"
          using stuck ij by fastforce
        then show ?thesis
        proof cases
          case 3
          moreover have "100000 - i = Suc (100000 - Suc i)"
            using i by simp
          ultimately show ?thesis
            by (simp only: take_Suc_Cons list.simps length_Cons x) auto
        qed (use rests_sublist[of 99999 js "x # js"] rests_prefix[of 99999 js] in \<open>auto simp: sublist_Cons_right\<close>)
      qed
      ultimately show ?thesis
        using e by blast
    qed
  qed
qed

lemma wait_ring_loop_returns:
  assumes "ring_inv r g q u" "consumed js \<le> q" "N = length (rg_mem r)" "0 < t" "t \<le> length js"
    "n \<le> 4 * (int N - 2 - int (u - consumed (take t js)))"
  shows "wait_ring_loop (gpu_readings N g js) i lh la n r \<noteq> Asleep"
  using assms
proof (induction js arbitrary: r g q u i lh la t)
  case (Cons x js)
  obtain j a where x: "x = (j, a)"
    by (cases x)
  have j: "j \<le> q"
    using Cons.prems(2) x by simp
  define r1 where "r1 = set_space (of_nat (4 * ((g + j) mod N))) r"
  note W = wait_step[OF Cons.prems(1) j Cons.prems(3), folded r1_def]
  have r1: "set_space ((of_nat (4 * ((g + j) mod N))) AND HEAD_ADDR) r = r1"
    using W(1) by (simp only: r1_def)
  have "wait_ring_loop (gpu_readings N ((g + j) mod N) js) i' lh' la' n r1 \<noteq> Asleep"
    if "\<not> n \<le> sint (rg_space r1)" for i' lh' la'
  proof (cases "t = 1")
    case False
    then obtain t' where "t = Suc t'" "0 < t'"
      using Cons.prems(4) by (cases t) auto
    then show ?thesis
      using Cons.prems(2,3,5,6) x
      by (intro Cons.IH[OF W(5), of t']) (auto simp: waited_fields[OF W(2)] diff_diff_add)
  qed (use that Cons.prems(6) W(4) x in simp)
  then show ?case
    by (subst wait_ring_loop.simps) (simp only: x gpu_readings.simps list.case prod.case Let_def r1 split: if_splits, simp)
qed simp

lemma wait_ring_loop_no_panic: "wait_ring_loop rs i lh la n r \<noteq> Panic"
proof (induction rs arbitrary: i lh la r)
  case (Cons x rs)
  then show ?case
    by (subst wait_ring_loop.simps) (simp only: Let_def list.case split: prod.splits if_splits, simp)
qed (subst wait_ring_loop.simps, simp)

lemma waited_read:
  assumes inv: "ring_inv r g q u" and k: "k \<le> q"
  shows "waited r g q u k r"
proof -
  let ?N = "length (rg_mem r)"
  note D = ring_invD[OF inv]
  have g: "(g + k) mod ?N < ?N"
    by (rule mod_less_divisor) (use D(1) in linarith)
  have shift: "((g + k) mod ?N + (x - k)) mod ?N = (g + x) mod ?N" if "k \<le> x" for x
    using that by (subst mod_add_left_eq) simp
  have "q - k \<le> u - k" "k \<le> u"
    using D(4) k by simp_all
  then have "ring_inv r ((g + k) mod ?N) (q - k) (u - k)"
    using inv g shift[of q] shift[of u] k unfolding ring_inv_def by (auto simp: of_nat_diff)
  then show ?thesis
    using k by (simp add: waited_def)
qed

lemma inteldrm_wait_ring_post:
  assumes inv: "ring_inv r g q u" and js: "consumed js \<le> q" "gpu_alive js" and N: "N = length (rg_mem r)"
    and ret: "inteldrm_wait_ring (gpu_readings N g js) n r = Ret (e, rs', r')"
  shows "e = E_OK \<and> n \<le> sint (rg_space r') \<and>
    (\<exists>m. wait_post r g q u js m rs' r' \<and>
         (\<forall>t>1. n \<le> 4 * (int N - 2 - int (u - consumed (take t js))) \<longrightarrow> m \<le> t))"
proof (cases js)
  case (Cons x js')
  obtain j a where x: "x = (j, a)"
    by (cases x)
  let ?g = "(g + j) mod N"
  have j: "j \<le> q" and js': "consumed js' \<le> q - j"
    using js(1) Cons x by simp_all
  have w: "waited r g q u j r"
    by (rule waited_read[OF inv j])
  then have inv': "ring_inv r ?g (q - j) (u - j)"
    by (simp add: waited_def N)
  have "wait_ring_loop (gpu_readings N ?g js') 0 (of_nat (4 * ?g)) a n r = Ret (e, rs', r')"
    using ret wait_step(1)[OF inv j N] unfolding inteldrm_wait_ring_def Cons x gpu_readings.simps list.case prod.case by simp
  from wait_ring_loop_post[OF inv' js' N this] obtain m where
    m: "wait_post r ?g (q - j) (u - j) js' m rs' r'" and
    t: "\<forall>t>0. n \<le> 4 * (int N - 2 - int (u - j - consumed (take t js'))) \<longrightarrow> m \<le> t" and
    e: "e = E_OK \<and> n \<le> sint (rg_space r') \<or>
        e = EBUSY \<and> (rests 99999 js' \<or> 100000 \<le> length js' \<and> (\<forall>x\<in>set (take 100000 js'). fst x = 0))"
    by auto
  have "\<not> rests 99999 js'"
    using js(2) rests_sublist[of 99999 js' js] unfolding gpu_alive_def Cons by (auto simp: sublist_Cons_right)
  moreover have "rests 99999 js'" if "rests 100000 js'"
    using that unfolding rests_def by fastforce
  ultimately have "e = E_OK \<and> n \<le> sint (rg_space r')"
    using e rests_prefix[of 100000 js'] by blast
  moreover have "wait_post r g q u js (Suc m) rs' r'"
    using wait_post_Suc[of r g x r q u js' m rs' r'] m w x N Cons by simp
  moreover have "Suc m \<le> t'" if "1 < t'" "n \<le> 4 * (int N - 2 - int (u - consumed (take t' js)))" for t'
    using that t Cons x by (cases t') (auto simp: diff_diff_add)
  ultimately show ?thesis
    by blast
qed (use ret in \<open>simp add: inteldrm_wait_ring_def\<close>)

lemma inteldrm_wait_ring_returns:
  assumes inv: "ring_inv r g q u" and js: "consumed js \<le> q" and N: "N = length (rg_mem r)"
    and t: "1 < t" "t \<le> length js" "n \<le> 4 * (int N - 2 - int (u - consumed (take t js)))"
  shows "\<exists>e rs' r'. inteldrm_wait_ring (gpu_readings N g js) n r = Ret (e, rs', r')"
proof -
  obtain j a js' where js': "js = (j, a) # js'"
    using t(1,2) by (cases js) auto
  have j: "j \<le> q" and c: "consumed js' \<le> q - j"
    using js js' by simp_all
  have "ring_inv r ((g + j) mod N) (q - j) (u - j)"
    using waited_read[OF inv j] by (simp add: waited_def N)
  moreover have "0 < t - 1" "t - 1 \<le> length js'" "n \<le> 4 * (int N - 2 - int (u - j - consumed (take (t - 1) js')))"
    using t js' by (cases t; simp add: diff_diff_add)+
  ultimately have "wait_ring_loop (gpu_readings N ((g + j) mod N) js') 0 lh a n r \<noteq> Asleep" for lh
    using wait_ring_loop_returns c N by blast
  then show ?thesis
    unfolding inteldrm_wait_ring_def js' gpu_readings.simps list.case prod.case
    using wait_ring_loop_no_panic by (metis outcome.exhaust prod_cases3)
qed

section \<open>Writing\<close>

lemma word_offset: "p < 2 ^ 29 \<Longrightarrow> unat (of_nat (4 * p) :: u32) = 4 * p"
  by (simp add: unat_of_nat take_bit_nat_eq_self del: of_nat_mult)

lemma ring_write_eq:
  "p < length (rg_mem r) \<Longrightarrow> length (rg_mem r) < 2 ^ 29 \<Longrightarrow>
   ring_write (of_nat (4 * p)) v r = Ret (r\<lparr>rg_mem := (rg_mem r)[p := v]\<rparr>)"
  by (simp add: ring_write_def word_offset del: of_nat_mult)

lemma next_offset: "(of_nat (4 * p) :: u32) + 4 = of_nat (4 * Suc p)"
  by simp

lemma ring_set_region_eq:
  assumes "p + n \<le> length (rg_mem r)" "length (rg_mem r) < 2 ^ 29"
  shows "ring_set_region n (of_nat (4 * p)) v r = Ret (r\<lparr>rg_mem := overwrite p (replicate n v) (rg_mem r)\<rparr>)"
  using assms
proof (induction n arbitrary: p r)
  case (Suc n)
  then have "ring_set_region n (of_nat (4 * Suc p)) v (r\<lparr>rg_mem := (rg_mem r)[p := v]\<rparr>) =
      Ret (r\<lparr>rg_mem := overwrite (Suc p) (replicate n v) ((rg_mem r)[p := v])\<rparr>)"
    by (subst Suc.IH) simp_all
  then show ?case
    using Suc.prems by (simp add: ring_write_eq next_offset overwrite_Cons del: of_nat_mult of_nat_Suc)
qed simp

lemma out_words_eq:
  assumes "p + length ws \<le> length (rg_mem r)" "length (rg_mem r) < 2 ^ 29" "rg_woffset r = of_nat (4 * p)"
  shows "out_words ws r = Ret (r\<lparr>rg_woffset := of_nat (4 * (p + length ws)), rg_mem := overwrite p ws (rg_mem r)\<rparr>)"
  using assms
proof (induction ws arbitrary: p r)
  case (Cons w ws)
  let ?r = "r\<lparr>rg_mem := (rg_mem r)[p := w], rg_woffset := of_nat (4 * Suc p)\<rparr>"
  have "out_words ws ?r = Ret (?r\<lparr>rg_woffset := of_nat (4 * (Suc p + length ws)), rg_mem := overwrite (Suc p) ws (rg_mem ?r)\<rparr>)"
    using Cons.prems by (intro Cons.IH) simp_all
  then show ?case
    using Cons.prems
    by (simp add: inteldrm_out_ring_def ring_write_eq next_offset overwrite_Cons del: of_nat_mult of_nat_Suc of_nat_add)
qed simp

text \<open>The queue of the words in the ring: reading takes from its front, writing behind its end adds to it.\<close>

lemma length_ring_words [simp]: "length (ring_words mem g q) = q"
  by (simp add: ring_words_def)

lemma drop_ring_words: "k \<le> q \<Longrightarrow> ring_words mem ((g + k) mod length mem) (q - k) = drop k (ring_words mem g q)"
  by (rule nth_equalityI) (simp_all add: ring_words_def nth_upt less_diff_conv mod_add_left_eq add.assoc add.commute[of _ k] add.left_commute)

lemma outside_range:
  assumes g: "(g :: nat) < N" and p: "(g + u) mod N = p" "u + l \<le> N" and i: "i < u"
  shows "(g + i) mod N < p \<or> p + l \<le> (g + i) mod N"
proof (cases "g + u < N")
  case True
  then show ?thesis
    using p i by simp
next
  case False
  then have p': "p = (g + u - N) mod N"
    using p(1) by (simp add: le_mod_geq)
  show ?thesis
  proof (cases "l = 0")
    case True
    then show ?thesis
      by auto
  next
    case l: False
    then have "p = g + u - N"
      using p' p(2) g by simp
    then show ?thesis
      using False g i p(2) l by (cases "g + i < N") (simp_all add: le_mod_geq, linarith+)
  qed
qed

lemma ring_words_overwrite:
  assumes g: "g < length mem" and p: "(g + u) mod length mem = p" "p + length ws \<le> length mem" "u + length ws \<le> length mem"
  shows "ring_words (overwrite p ws mem) g (u + length ws) = ring_words mem g u @ ws"
proof (rule nth_equalityI)
  let ?N = "length mem"
  fix i
  assume "i < length (ring_words (overwrite p ws mem) g (u + length ws))"
  then have i: "i < u + length ws"
    by simp
  have lt: "(g + i) mod ?N < ?N"
    by (rule mod_less_divisor) (use g in linarith)
  show "ring_words (overwrite p ws mem) g (u + length ws) ! i = (ring_words mem g u @ ws) ! i"
  proof (cases "i < u")
    case True
    have "\<not> (p \<le> (g + i) mod ?N \<and> (g + i) mod ?N < p + length ws)"
      using outside_range[OF g p(1,3) True] by auto
    then have "overwrite p ws mem ! ((g + i) mod ?N) = mem ! ((g + i) mod ?N)"
      unfolding nth_overwrite[OF p(2) lt] by (rule if_not_P)
    then show ?thesis
      using True i p(2) by (simp add: ring_words_def nth_append)
  next
    case False
    then obtain d where d: "i = u + d"
      using le_Suc_ex by (auto simp: not_less)
    have pd: "p + d < p + length ws" "p + d < ?N"
      using i p(2) d by simp_all
    have "(g + i) mod ?N = ((g + u) mod ?N + d) mod ?N"
      unfolding d by (simp add: mod_add_left_eq add.assoc)
    then have "(g + i) mod ?N = p + d"
      using p(1) pd by simp
    then show ?thesis
      using d pd i p(2) by (simp add: ring_words_def nth_overwrite[OF p(2)] nth_append)
  qed
qed simp

section \<open>Emission\<close>

text \<open>A call that does not panic, and returns if \<open>live\<close>; what it returns satisfies \<open>P\<close>.\<close>

definition ends :: "('a \<Rightarrow> bool) \<Rightarrow> bool \<Rightarrow> 'a outcome \<Rightarrow> bool" where
  "ends P live out \<longleftrightarrow> (case out of Ret x \<Rightarrow> P x | Panic \<Rightarrow> False | Asleep \<Rightarrow> \<not> live)"

lemma ends_Ret [simp]: "ends P live (Ret x) = P x"
  by (simp add: ends_def)

lemma ends_bind:
  assumes "ends Q live m" "\<And>x. Q x \<Longrightarrow> ends P live (f x)"
  shows "ends P live (obind m f)"
  using assms by (cases m) (auto simp: ends_def)

lemma ends_mono: "ends Q live m \<Longrightarrow> (\<And>x. Q x \<Longrightarrow> P x) \<Longrightarrow> (live' \<Longrightarrow> live) \<Longrightarrow> ends P live' m"
  by (cases m) (auto simp: ends_def)

definition in_time :: "nat \<Rightarrow> (nat \<times> u32) list \<Rightarrow> nat \<Rightarrow> bool" where
  "in_time q js m \<longleftrightarrow> (\<forall>i. q \<le> consumed (take i js) \<longrightarrow> m \<le> i + 2)"

lemma consumed_take_mono: "i \<le> j \<Longrightarrow> consumed (take i js) \<le> consumed (take j js)"
  by (metis consumed_split le_add1 min.absorb1 take_take)

lemma ends_wait_ring:
  assumes inv: "ring_inv r g q u" and js: "consumed js \<le> q" "gpu_alive js" and N: "N = length (rg_mem r)"
    and n: "n \<le> 4 * (int N - 2 - int (u - q))"
  shows "ends (\<lambda>(e, rs', r'). e = E_OK \<and> n \<le> sint (rg_space r') \<and>
                  (\<exists>m. wait_post r g q u js m rs' r' \<and> in_time q js m))
              (catches_up 2 q js) (inteldrm_wait_ring (gpu_readings N g js) n r)"
proof -
  have enough: "n \<le> 4 * (int N - 2 - int (u - consumed (take (i + 2) js)))" if "q \<le> consumed (take i js)" for i
    using n that consumed_take_mono[of i "i + 2" js] by simp
  show ?thesis
  proof (cases "inteldrm_wait_ring (gpu_readings N g js) n r")
    case (Ret x)
    obtain e rs' r' where x: "x = (e, rs', r')"
      by (cases x)
    from inteldrm_wait_ring_post[OF inv js N Ret[unfolded x]] obtain m where
      e: "e = E_OK" "n \<le> sint (rg_space r')" and m: "wait_post r g q u js m rs' r'"
      and t: "\<forall>t>1. n \<le> 4 * (int N - 2 - int (u - consumed (take t js))) \<longrightarrow> m \<le> t"
      by blast
    have "in_time q js m"
      unfolding in_time_def using t enough by (meson add_gr_0 less_add_same_cancel2 one_less_numeral_iff semiring_norm(76) trans_less_add2)
    then show ?thesis
      using Ret x e m by auto
  next
    case Panic
    then show ?thesis
      using wait_ring_loop_no_panic by (auto simp: inteldrm_wait_ring_def split: list.splits prod.splits)
  next
    case Asleep
    have "\<not> catches_up 2 q js"
    proof
      assume "catches_up 2 q js"
      then obtain i where "i + 2 \<le> length js" "q \<le> consumed (take i js)"
        by (auto simp: catches_up_def)
      then show False
        using inteldrm_wait_ring_returns[OF inv js(1) N, of "i + 2" n] enough[of i] Asleep by auto
    qed
    then show ?thesis
      using Asleep by (simp add: ends_def)
  qed
qed

lemma catches_up_later:
  assumes "catches_up 4 q js" "in_time q js m"
  shows "catches_up 2 (q - consumed (take m js)) (drop m js)"
proof -
  obtain i where i: "i + 4 \<le> length js" "q \<le> consumed (take i js)" and m: "m \<le> i + 2"
    using assms by (auto simp: catches_up_def in_time_def)
  have "consumed (take (i + 2) js) = consumed (take m js) + consumed (take (i + 2 - m) (drop m js))"
    using m consumed_split[of "take (i + 2) js" m] by (simp add: drop_take min_def)
  moreover have "q \<le> consumed (take (i + 2) js)"
    using i(2) consumed_take_mono[of i "i + 2" js] by simp
  ultimately show ?thesis
    using i m unfolding catches_up_def by (intro exI[of _ "i + 2 - m"]) auto
qed

text \<open>Changing what \<open>ring_inv\<close> does not read, and giving out space that is there.\<close>

lemma ring_inv_take:
  assumes inv: "ring_inv r g q u" and l: "int (4 * l) \<le> sint (rg_space r)"
    and r': "rg_size r' = rg_size r" "prb_tail r' = prb_tail r" "length (rg_mem r') = length (rg_mem r)"
      "rg_space r' = rg_space r - of_nat (4 * l)" "unat (rg_tail r') = 4 * ((g + u + l) mod length (rg_mem r))"
  shows "ring_inv r' g q (u + l)" "sint (rg_space r') = sint (rg_space r) - int (4 * l)"
proof -
  note D = ring_invD[OF inv]
  have "rg_space r = word_of_int (sint (rg_space r))"
    by simp
  then have "rg_space r' = word_of_int (sint (rg_space r) - int (4 * l))"
    unfolding r' by (metis of_int_diff of_int_of_nat_eq)
  moreover have "sint (rg_space r) < 2 ^ 31"
    using D(10,11) by simp
  ultimately show sp: "sint (rg_space r') = sint (rg_space r) - int (4 * l)"
    using l sint_small[of "sint (rg_space r) - int (4 * l)"] by simp
  show "ring_inv r' g q (u + l)"
    using inv l sp r' unfolding ring_inv_def by (auto simp: add.assoc)
qed

lemma rem_words:
  assumes inv: "ring_inv r g q u" and p: "(g + u) mod length (rg_mem r) = p"
  shows "(ucast (rg_size r) :: u32) - rg_tail r = of_nat (4 * (length (rg_mem r) - p))"
    "unat (of_nat (4 * (length (rg_mem r) - p)) :: u32) = 4 * (length (rg_mem r) - p)"
    "sint (of_nat (4 * (length (rg_mem r) - p)) :: u32) = int (4 * (length (rg_mem r) - p))"
    "rg_tail r = of_nat (4 * p)" "p < length (rg_mem r)"
proof -
  let ?N = "length (rg_mem r)"
  note D = ring_invD[OF inv]
  show lt: "p < ?N"
    unfolding p[symmetric] by (rule mod_less_divisor) (use D(1) in linarith)
  show t: "rg_tail r = of_nat (4 * p)"
    using D(7) p by (intro u32_of_unat) simp
  have "(ucast (rg_size r) :: u32) = of_nat (4 * ?N)"
    by (rule word_size) (use D(6,11) in simp_all)
  moreover have "4 * (?N - p) = 4 * ?N - 4 * p" "4 * p \<le> 4 * ?N"
    using lt by simp_all
  ultimately show "(ucast (rg_size r) :: u32) - rg_tail r = of_nat (4 * (?N - p))"
    unfolding t by (simp only: of_nat_diff)
  show "unat (of_nat (4 * (?N - p)) :: u32) = 4 * (?N - p)"
    by (rule word_offset) (use D(2) in simp)
  show "sint (of_nat (4 * (?N - p)) :: u32) = int (4 * (?N - p))"
    using sint_small[of "int (4 * (?N - p))"] D(11) by simp
qed

text \<open>Wrapping fills the end of the buffer with no-ops.\<close>

lemma ends_wrap_ring:
  assumes inv: "ring_inv r g q q" and w: "rg_woffset r = rg_tail r" and N: "N = length (rg_mem r)"
    and p: "(g + q) mod N = p" "2 \<le> p" and js: "consumed js \<le> q" "gpu_alive js"
  shows "ends (\<lambda>(rs', r'). \<exists>m. let k = consumed (take m js); g' = (g + k) mod N in
                 k \<le> q \<and> in_time q js m \<and> rs' = gpu_readings N g' (drop m js) \<and>
                 ring_inv r' g' (q - k) (q - k + (N - p)) \<and> rg_tail r' = 0 \<and>
                 rg_mem r' = overwrite p (replicate (N - p) MI_NOOP) (rg_mem r))
              (catches_up 4 q js) (inteldrm_wrap_ring (gpu_readings N g js) r)"
proof -
  note D = ring_invD[OF inv]
  have p': "(g + q) mod length (rg_mem r) = p"
    using p N by simp
  note R = rem_words[OF inv p', folded N]
  define rem :: u32 where "rem = of_nat (4 * (N - p))"
  have less: "rg_space r < rem \<longleftrightarrow> \<not> int (4 * (N - p)) \<le> sint (rg_space r)"
  proof -
    have "unat rem = 4 * (N - p)"
      using R(2) by (simp only: rem_def)
    then show ?thesis
      using unat_sint[OF D(9)] unfolding word_less_nat_alt by linarith
  qed
  have fits: "int (4 * (N - p)) \<le> 4 * (int N - 2 - int (q - q))"
    using p(2) R(5) by simp
  have wait: "ends (\<lambda>(e, rs', r'). e = E_OK \<and> int (4 * (N - p)) \<le> sint (rg_space r') \<and>
                 (\<exists>m. wait_post r g q q js m rs' r' \<and> in_time q js m))
        (catches_up 4 q js)
        (if rg_space r < rem then inteldrm_wait_ring (gpu_readings N g js) (sint rem) r
         else Ret (E_OK, gpu_readings N g js, r))"
  proof (cases "rg_space r < rem")
    case True
    show ?thesis
      unfolding if_P[OF True] unfolding rem_def R(3)
      by (rule ends_mono[OF ends_wait_ring[OF inv js N fits]]) (auto simp: catches_up_def)
  next
    case False
    then show ?thesis
      using less wait_post_0[OF inv, of js] N by (auto simp: in_time_def intro!: exI[of _ 0])
  qed
  show ?thesis
    unfolding inteldrm_wrap_ring_def Let_def R(1) rem_def[symmetric]
  proof (rule ends_bind[OF wait], clarsimp simp del: of_nat_mult)
    fix rs' r1 m
    assume sp: "int (4 * (N - p)) \<le> sint (rg_space r1)" and m: "wait_post r g q q js m rs' r1" "in_time q js m"
    show "ends (\<lambda>(rs', r'). \<exists>m. consumed (take m js) \<le> q \<and> in_time q js m \<and>
                 rs' = gpu_readings N ((g + consumed (take m js)) mod N) (drop m js) \<and>
                 ring_inv r' ((g + consumed (take m js)) mod N) (q - consumed (take m js)) (q - consumed (take m js) + (N - p)) \<and>
                 rg_tail r' = 0 \<and> rg_mem r' = overwrite p (replicate (N - p) MI_NOOP) (rg_mem r))
       (catches_up 4 q js)
       (obind (ring_set_region (unat rem div 4) (rg_woffset r1) MI_NOOP (r1\<lparr>rg_space := rg_space r1 - rem\<rparr>))
         (\<lambda>r. Ret (rs', r\<lparr>rg_tail := 0\<rparr>)))"
    proof -
      let ?k = "consumed (take m js)"
      let ?g = "(g + ?k) mod N"
      let ?r = "r1\<lparr>rg_space := rg_space r1 - rem\<rparr>"
      have W: "waited r g q q ?k r1" and rs': "rs' = gpu_readings N ?g (drop m js)"
        using m(1) N by (simp_all add: wait_post_def)
      note F = waited_fields[OF W]
      have inv1: "ring_inv r1 ?g (q - ?k) (q - ?k)" and k: "?k \<le> q"
        using W N by (simp_all add: waited_def)
      have len: "p + (N - p) \<le> length (rg_mem r1)" "length (rg_mem r1) < 2 ^ 29"
        using R(5) F(1) N D(2) by simp_all
      have "unat rem div 4 = N - p"
        using R(2) by (simp add: rem_def del: of_nat_mult)
      then have fill: "ring_set_region (unat rem div 4) (rg_woffset r1) MI_NOOP ?r =
          Ret (?r\<lparr>rg_mem := overwrite p (replicate (N - p) MI_NOOP) (rg_mem r)\<rparr>)"
        using ring_set_region_eq[of p "N - p" ?r MI_NOOP] len F w R(4) by simp
      have end0: "(?g + (q - ?k) + (N - p)) mod N = 0"
      proof -
        have "(?g + (q - ?k)) mod N = p"
          using k p(1) by (subst mod_add_left_eq) simp
        then have "(?g + (q - ?k) + (N - p)) mod N = (p + (N - p)) mod N"
          by (metis mod_add_left_eq)
        then show ?thesis
          using R(5) by simp
      qed
      have "ring_inv (?r\<lparr>rg_mem := overwrite p (replicate (N - p) MI_NOOP) (rg_mem r), rg_tail := 0\<rparr>) ?g (q - ?k) (q - ?k + (N - p))"
        by (rule ring_inv_take(1)[OF inv1, of "N - p"]) (use sp len F N end0 in \<open>simp_all add: rem_def del: of_nat_mult\<close>)
      then show ?thesis
        unfolding fill using k m(2) rs' by (auto intro!: exI[of _ m])
    qed
  qed
qed

text \<open>The words in the ring, up to the tail.\<close>

definition holds_words :: "inteldrm_ring \<Rightarrow> nat \<Rightarrow> nat \<Rightarrow> nat \<Rightarrow> u32 list \<Rightarrow> bool" where
  "holds_words r g q u W \<longleftrightarrow> ring_inv r g q u \<and> ring_words (rg_mem r) g u = W"

lemma holds_words_waited:
  assumes "holds_words r g q u W" "waited r g q u k r'"
  shows "holds_words r' ((g + k) mod length (rg_mem r)) (q - k) (u - k) (drop k W)"
proof -
  have "k \<le> u"
    using assms ring_invD(4)[of r g q u] by (auto simp: holds_words_def waited_def)
  then show ?thesis
    using assms waited_fields[OF assms(2)] drop_ring_words[of k u "rg_mem r" g]
    by (auto simp: holds_words_def waited_def)
qed

text \<open>The first step of \<^verbatim>\<open>inteldrm_begin_ring\<close>: \<open>pad\<close> no-ops, behind which \<open>n\<close> words have their place.\<close>

definition wrapped ::
  "inteldrm_ring \<Rightarrow> nat \<Rightarrow> nat \<Rightarrow> (nat \<times> u32) list \<Rightarrow> nat \<Rightarrow> nat \<Rightarrow> nat \<Rightarrow> readings \<Rightarrow> inteldrm_ring \<Rightarrow> bool" where
  "wrapped r g q js n m pad rs' r' \<longleftrightarrow>
     (let N = length (rg_mem r); k = consumed (take m js); g' = (g + k) mod N
      in k \<le> q \<and> pad + n + 2 \<le> N \<and> length (rg_mem r') = N \<and> rs' = gpu_readings N g' (drop m js) \<and>
         holds_words r' g' (q - k) (q - k + pad) (drop k (ring_words (rg_mem r) g q) @ replicate pad MI_NOOP) \<and>
         (g' + (q - k) + pad) mod N + n \<le> N)"

lemma begin_needs_wrap:
  assumes inv: "ring_inv r g q u" and n: "2 * n + 2 \<le> length (rg_mem r)"
  shows "ucast (rg_tail r + 4 * of_nat n) > rg_size r \<longleftrightarrow> (g + u) mod length (rg_mem r) + n > length (rg_mem r)"
proof -
  let ?p = "(g + u) mod length (rg_mem r)"
  note R = rem_words[OF inv refl]
  have "?p + n < 2 ^ 29"
    using R(5) n ring_invD(2)[OF inv] by simp
  moreover have "rg_tail r + 4 * of_nat n = of_nat (4 * (?p + n))"
    unfolding R(4) by (simp add: algebra_simps)
  ultimately have "unat (rg_tail r + 4 * of_nat n) = 4 * (?p + n)"
    by (simp only: word_offset)
  then have "unat (ucast (rg_tail r + 4 * of_nat n) :: u64) = 4 * (?p + n)"
    by (rule unat_ucast_64)
  then show ?thesis
    unfolding word_less_nat_alt ring_invD(6)[OF inv] by (simp only: nat_mult_less_cancel_disj) simp
qed

lemma ends_wrapped:
  assumes ok: "ring_ok r g q" and N: "N = length (rg_mem r)" and n: "2 * n + 2 \<le> N"
    and js: "consumed js \<le> q" "gpu_alive js"
  shows "ends (\<lambda>(rs', r'). \<exists>m pad. in_time q js m \<and> wrapped r g q js n m pad rs' r') (catches_up 4 q js)
     (if ucast (rg_tail r + 4 * of_nat n) > rg_size r then inteldrm_wrap_ring (gpu_readings N g js) r
      else Ret (gpu_readings N g js, r))"
proof -
  let ?p = "(g + q) mod N"
  have inv: "ring_inv r g q q" and off: "rg_tail r \<noteq> 0 \<longrightarrow> rg_woffset r = rg_tail r"
    using ok by (simp_all add: ring_ok_def)
  note D = ring_invD[OF inv]
  note R = rem_words[OF inv refl, folded N]
  have g: "g mod N = g"
    using D(3) N by simp
  note wrap_iff = begin_needs_wrap[OF inv n[unfolded N], folded N]
  show ?thesis
  proof (cases "?p + n > N")
    case False
    then have "wrapped r g q js n 0 0 (gpu_readings N g js) r"
      using inv g n N unfolding wrapped_def holds_words_def Let_def by simp
    then show ?thesis
      using False wrap_iff by (auto simp: in_time_def intro!: exI[of _ 0])
  next
    case True
    then have p: "2 \<le> ?p"
      using n by linarith
    then have "rg_tail r \<noteq> 0"
      using D(7) N by auto
    then have w: "rg_woffset r = rg_tail r"
      using off by blast
    show ?thesis
      unfolding wrap_iff if_P[OF True]
    proof (rule ends_mono[OF ends_wrap_ring[OF inv w N refl p js]])
      fix x
      assume "case x of (rs', r') \<Rightarrow> \<exists>m. let k = consumed (take m js); g' = (g + k) mod N in
                 k \<le> q \<and> in_time q js m \<and> rs' = gpu_readings N g' (drop m js) \<and>
                 ring_inv r' g' (q - k) (q - k + (N - ?p)) \<and> rg_tail r' = 0 \<and>
                 rg_mem r' = overwrite ?p (replicate (N - ?p) MI_NOOP) (rg_mem r)"
      then obtain r' m where
        x: "x = (gpu_readings N ((g + consumed (take m js)) mod N) (drop m js), r')" and
        k: "consumed (take m js) \<le> q" "in_time q js m" and
        inv': "ring_inv r' ((g + consumed (take m js)) mod N) (q - consumed (take m js)) (q - consumed (take m js) + (N - ?p))" and
        t: "rg_tail r' = 0" and mem: "rg_mem r' = overwrite ?p (replicate (N - ?p) MI_NOOP) (rg_mem r)"
        unfolding Let_def by (cases x) blast
      let ?k = "consumed (take m js)"
      let ?g = "(g + ?k) mod N"
      have len: "length (rg_mem r') = N"
        using mem N R(5) by simp
      have "(?g + (q - ?k)) mod N = ?p"
        using k by (subst mod_add_left_eq) simp
      moreover have "?g < N"
        using D(1) N by (intro mod_less_divisor) linarith
      ultimately have "ring_words (rg_mem r') ?g (q - ?k + (N - ?p)) =
          ring_words (rg_mem r) ?g (q - ?k) @ replicate (N - ?p) MI_NOOP"
        using ring_words_overwrite[of ?g "rg_mem r" "q - ?k" ?p "replicate (N - ?p) MI_NOOP"] R(5) N
          ring_invD(5)[OF inv'] len mem by simp
      then have W: "ring_words (rg_mem r') ?g (q - ?k + (N - ?p)) = drop ?k (ring_words (rg_mem r) g q) @ replicate (N - ?p) MI_NOOP"
        using drop_ring_words[OF k(1), of "rg_mem r" g] N by simp
      have Z: "(?g + (q - ?k) + (N - ?p)) mod N = 0"
        using ring_invD(7)[OF inv'] t len by (simp add: add.assoc)
      have "wrapped r g q js n m (N - ?p) (gpu_readings N ?g (drop m js)) r'"
        unfolding wrapped_def holds_words_def Let_def N[symmetric] len Z
        using k(1) inv' W n True R(5) by (intro conjI) simp_all
      then show "case x of (rs', r') \<Rightarrow> \<exists>m pad. in_time q js m \<and> wrapped r g q js n m pad rs' r'"
        using k(2) x by blast
    qed simp
  qed
qed

text \<open>The second step: the words have their place and the tail is behind them.\<close>

definition begun ::
  "inteldrm_ring \<Rightarrow> nat \<Rightarrow> nat \<Rightarrow> (nat \<times> u32) list \<Rightarrow> nat \<Rightarrow> nat \<Rightarrow> nat \<Rightarrow> readings \<Rightarrow> inteldrm_ring \<Rightarrow> bool" where
  "begun r g q js n m pad rs' r' \<longleftrightarrow>
     (let N = length (rg_mem r); k = consumed (take m js); g' = (g + k) mod N; p = (g' + (q - k) + pad) mod N
      in k \<le> q \<and> p + n \<le> N \<and> length (rg_mem r') = N \<and> rs' = gpu_readings N g' (drop m js) \<and>
         ring_words (rg_mem r') g' (q - k + pad) = drop k (ring_words (rg_mem r) g q) @ replicate pad MI_NOOP \<and>
         ring_inv r' g' (q - k) (q - k + pad + n) \<and> rg_woffset r' = of_nat (4 * p))"

lemma tail_masked:
  assumes inv: "ring_inv r g q u" and p: "p + n \<le> length (rg_mem r)" "rg_tail r = of_nat (4 * p)"
  shows "unat (ucast (ucast (rg_tail r + 4 * of_nat n) AND (rg_size r - 1)) :: u32) = 4 * ((p + n) mod length (rg_mem r))"
proof -
  let ?N = "length (rg_mem r)"
  obtain k where k: "?N = 2 ^ k"
    using inv by (auto simp: ring_inv_def)
  have "unat (rg_tail r + 4 * of_nat n) = 4 * (p + n)"
    using p ring_invD(2)[OF inv] word_offset[of "p + n"] by (simp add: algebra_simps)
  then have t: "unat (ucast (rg_tail r + 4 * of_nat n) :: u64) = 4 * (p + n)"
    by (rule unat_ucast_64)
  have "rg_size r = of_nat (4 * ?N)"
    using ring_invD(6)[OF inv] by (metis of_nat_unat ucast_id)
  then have size: "rg_size r - 1 = mask (k + 2)"
    by (simp add: k mask_eq_exp_minus_1 power_add mult.commute)
  have "unat (ucast (rg_tail r + 4 * of_nat n) AND (rg_size r - 1) :: u64) = 4 * (p + n) mod 2 ^ (k + 2)"
    unfolding size take_bit_eq_mask[symmetric] unsigned_take_bit_eq t by (simp only: take_bit_eq_mod)
  also have "2 ^ (k + 2) = 4 * ?N"
    by (simp add: k power_add)
  also have "4 * (p + n) mod (4 * ?N) = 4 * ((p + n) mod ?N)"
    by (rule mult_mod_right[symmetric])
  finally have "unat (ucast (rg_tail r + 4 * of_nat n) AND (rg_size r - 1) :: u64) = 4 * ((p + n) mod ?N)" .
  moreover have "4 * ((p + n) mod ?N) < 2 ^ 32"
  proof -
    have "(p + n) mod ?N < ?N"
      by (rule mod_less_divisor) (use ring_invD(1)[OF inv] in linarith)
    then show ?thesis
      using ring_invD(2)[OF inv] by simp
  qed
  ultimately show ?thesis
    by (simp add: unsigned_ucast_eq take_bit_nat_eq_self)
qed

lemma ends_begin_ring:
  assumes ok: "ring_ok r g q" and N: "N = length (rg_mem r)" and n: "2 * n + 2 \<le> N"
    and js: "consumed js \<le> q" "gpu_alive js"
  shows "ends (\<lambda>(rs', r'). \<exists>m pad. begun r g q js n m pad rs' r')
     (catches_up 4 q js) (inteldrm_begin_ring (gpu_readings N g js) (of_nat n) r)"
  unfolding inteldrm_begin_ring_def Let_def
proof (rule ends_bind[OF ends_wrapped[OF ok N n js]])
  fix x
  assume "case x of (rs1, r1) \<Rightarrow> \<exists>m pad. in_time q js m \<and> wrapped r g q js n m pad rs1 r1"
  then obtain rs1 r1 m pad where x: "x = (rs1, r1)" and m: "in_time q js m" and wr: "wrapped r g q js n m pad rs1 r1"
    by auto
  let ?k = "consumed (take m js)" and ?js = "drop m js"
  define g1 q1 where "g1 = (g + ?k) mod N" and "q1 = q - ?k"
  have k: "?k \<le> q" and room: "pad + n + 2 \<le> N" and len: "length (rg_mem r1) = N" and rs1: "rs1 = gpu_readings N g1 ?js" and
    W1: "holds_words r1 g1 q1 (q1 + pad) (drop ?k (ring_words (rg_mem r) g q) @ replicate pad MI_NOOP)" and
    place: "(g1 + q1 + pad) mod N + n \<le> N"
    using wr unfolding wrapped_def Let_def N[symmetric] g1_def q1_def by auto
  have inv1: "ring_inv r1 g1 q1 (q1 + pad)"
    using W1 by (simp add: holds_words_def)
  have js1: "consumed ?js \<le> q1" "gpu_alive ?js"
    using js consumed_split[of js m] gpu_alive_drop unfolding q1_def by auto
  have bytes: "sint (4 * of_nat n :: u32) = int (4 * n)"
    using sint_small[of "int (4 * n)"] room ring_invD(11)[OF inv1] len by simp
  have fits: "int (4 * n) \<le> 4 * (int N - 2 - int (q1 + pad - q1))"
    using room by simp
  have wait: "ends (\<lambda>(e, rs', r'). int (4 * n) \<le> sint (rg_space r') \<and> (\<exists>m. wait_post r1 g1 q1 (q1 + pad) ?js m rs' r'))
      (catches_up 4 q js)
      (if sint (rg_space r1) < sint (4 * of_nat n :: u32) then inteldrm_wait_ring rs1 (sint (4 * of_nat n :: u32)) r1
       else Ret (E_OK, rs1, r1))"
  proof (cases "sint (rg_space r1) < int (4 * n)")
    case True
    show ?thesis
      unfolding bytes rs1 if_P[OF True]
      by (rule ends_mono[OF ends_wait_ring[OF inv1 js1 len[symmetric] fits]])
        (use catches_up_later[OF _ m] in \<open>auto simp: q1_def\<close>)
  next
    case False
    then show ?thesis
      unfolding bytes using wait_post_0[OF inv1, of ?js] rs1 len by auto
  qed
  show "ends (\<lambda>(rs', r'). \<exists>m pad. begun r g q js n m pad rs' r') (catches_up 4 q js) (case x of (rs, r) \<Rightarrow>
      obind (if sint (rg_space r) < sint (4 * of_nat n :: u32) then inteldrm_wait_ring rs (sint (4 * of_nat n :: u32)) r
             else Ret (E_OK, rs, r))
        (\<lambda>(e, rs, r). Ret (rs, r\<lparr>rg_woffset := rg_tail r,
            rg_tail := ucast (ucast (rg_tail r + 4 * of_nat n) AND (rg_size r - 1)), rg_space := rg_space r - 4 * of_nat n\<rparr>)))"
    unfolding x prod.case
  proof (rule ends_bind[OF wait])
    fix y
    assume "case y of (e, rs', r') \<Rightarrow> int (4 * n) \<le> sint (rg_space r') \<and> (\<exists>m. wait_post r1 g1 q1 (q1 + pad) ?js m rs' r')"
    then obtain e rs2 r2 m2 where y: "y = (e, rs2, r2)" and sp: "int (4 * n) \<le> sint (rg_space r2)" and
      post: "wait_post r1 g1 q1 (q1 + pad) ?js m2 rs2 r2"
      by auto
    show "ends (\<lambda>(rs', r'). \<exists>m pad. begun r g q js n m pad rs' r') (catches_up 4 q js) (case y of (e, rs, r) \<Rightarrow>
        Ret (rs, r\<lparr>rg_woffset := rg_tail r,
            rg_tail := ucast (ucast (rg_tail r + 4 * of_nat n) AND (rg_size r - 1)), rg_space := rg_space r - 4 * of_nat n\<rparr>))"
    proof -
      let ?k2 = "consumed (take m2 ?js)" and ?K = "consumed (take (m + m2) js)"
      let ?G = "(g + ?K) mod N"
      define p where "p = (g1 + q1 + pad) mod N"
      have rs2: "rs2 = gpu_readings N ((g1 + ?k2) mod N) (drop m2 ?js)" and wd: "waited r1 g1 q1 (q1 + pad) ?k2 r2"
        using post len by (simp_all add: wait_post_def)
      have K: "?K = ?k + ?k2"
        by (simp add: take_add consumed_def)
      have G: "(g1 + ?k2) mod N = ?G"
        unfolding K g1_def by (simp add: mod_add_left_eq add.assoc)
      have k2: "?k2 \<le> q1"
        using wd by (simp add: waited_def)
      have qK: "q1 - ?k2 = q - ?K" "q1 + pad - ?k2 = q - ?K + pad" "?K \<le> q"
        using k2 k unfolding K q1_def by simp_all
      note F = waited_fields[OF wd]
      from holds_words_waited[OF W1 wd] have
        inv2: "ring_inv r2 ?G (q - ?K) (q - ?K + pad)" and
        W2: "ring_words (rg_mem r2) ?G (q - ?K + pad) = drop ?K (ring_words (rg_mem r) g q) @ replicate pad MI_NOOP"
        using k k2 unfolding holds_words_def len G qK by (simp_all add: K q1_def add.commute[of ?k2 ?k])
      have p: "(?G + (q - ?K) + pad) mod N = p"
      proof -
        have "?G + (q - ?K) + pad = (g1 + ?k2) mod N + (q1 + pad - ?k2)"
          unfolding G qK by simp
        also have "\<dots> mod N = p"
          unfolding p_def using k2 by (subst mod_add_left_eq) (simp add: add.assoc)
        finally show ?thesis .
      qed
      have tail: "rg_tail r2 = of_nat (4 * p)"
        using rem_words(4)[OF inv2 refl] p F(1) len by (simp add: add.assoc)
      define r3 where "r3 = r2\<lparr>rg_woffset := rg_tail r2,
            rg_tail := ucast (ucast (rg_tail r2 + 4 * of_nat n) AND (rg_size r2 - 1)), rg_space := rg_space r2 - 4 * of_nat n\<rparr>"
      have pn: "p + n \<le> length (rg_mem r2)"
        using place F(1) len by (simp add: p_def)
      have "unat (rg_tail r3) = 4 * ((?G + (q - ?K + pad) + n) mod length (rg_mem r2))"
      proof -
        have "(p + n) mod N = (?G + (q - ?K + pad) + n) mod N"
          unfolding p[symmetric] by (simp add: mod_add_left_eq add.assoc)
        then show ?thesis
          using tail_masked[OF inv2 pn tail] F(1) len by (simp add: r3_def)
      qed
      then have "ring_inv r3 ?G (q - ?K) (q - ?K + pad + n)"
        by (intro ring_inv_take(1)[OF inv2 sp]) (simp_all add: r3_def)
      then have "begun r g q js n (m + m2) pad rs2 r3"
        unfolding begun_def Let_def N[symmetric] p
        using rs2 G qK(3) W2 tail pn F(1) len by (simp add: r3_def add.commute)
      then show ?thesis
        unfolding y r3_def by auto
    qed
  qed
qed

text \<open>
  Emission refines the queue: \<open>k\<close> words have been read from its front, no-ops and the commands have
  been added at its end.
\<close>

lemma ring_words_add:
  "ring_words mem g (a + b) = ring_words mem g a @ ring_words mem ((g + a) mod length mem) b"
proof -
  have "[a..<a + b] = map (\<lambda>i. i + a) [0..<b]"
    by (simp add: map_add_upt add.commute)
  then show ?thesis
    by (simp add: ring_words_def upt_add_eq_append[of 0 a b] mod_add_left_eq add.assoc add.commute[of _ a] add.left_commute)
qed

lemma ends_ring_emit_begun:
  assumes ok: "ring_ok r g q" and N: "N = length (rg_mem r)" and n: "2 * n + 2 \<le> N" "length cs \<le> n"
    and js: "consumed js \<le> q" "gpu_alive js"
  shows "ends (\<lambda>(rs', r'). \<exists>m pad stale. let k = consumed (take m js); g' = (g + k) mod N; q' = q - k + pad + n
              in k \<le> q \<and> rs' = gpu_readings N g' (drop m js) \<and> ring_inv r' g' q' q' \<and>
                 (length cs = n \<longrightarrow> ring_ok r' g' q') \<and> length stale = n - length cs \<and>
                 ring_words (rg_mem r') g' q' = drop k (ring_words (rg_mem r) g q) @ replicate pad MI_NOOP @ cs @ stale)
     (catches_up 4 q js) (ring_emit (gpu_readings N g js) (of_nat n) cs r)"
  unfolding ring_emit_def
proof (rule ends_bind[OF ends_begin_ring[OF ok N n(1) js]])
  fix x
  assume "case x of (rs', r') \<Rightarrow> \<exists>m pad. begun r g q js n m pad rs' r'"
  then obtain rs1 r1 m pad where x: "x = (rs1, r1)" and b: "begun r g q js n m pad rs1 r1"
    by auto
  let ?k = "consumed (take m js)"
  let ?g = "(g + ?k) mod N"
  let ?p = "(?g + (q - ?k) + pad) mod N"
  have k: "?k \<le> q" and place: "?p + n \<le> N" and len: "length (rg_mem r1) = N" and
    rs1: "rs1 = gpu_readings N ?g (drop m js)" and
    W: "ring_words (rg_mem r1) ?g (q - ?k + pad) = drop ?k (ring_words (rg_mem r) g q) @ replicate pad MI_NOOP" and
    inv: "ring_inv r1 ?g (q - ?k) (q - ?k + pad + n)" and off: "rg_woffset r1 = of_nat (4 * ?p)"
    using b unfolding begun_def Let_def N[symmetric] by auto
  note D = ring_invD[OF inv, unfolded len]
  define r2 where "r2 = r1\<lparr>rg_woffset := of_nat (4 * (?p + length cs)), rg_mem := overwrite ?p cs (rg_mem r1)\<rparr>"
  define r3 where "r3 = inteldrm_advance_ring r2"
  have out: "out_words cs r1 = Ret r2"
    unfolding r2_def by (rule out_words_eq) (use place n(2) len off D(2) in simp_all)
  let ?q = "q - ?k + pad + n"
  have tail: "unat (rg_tail r1) = 4 * ((?p + n) mod N)"
    using D(7) by (simp add: mod_add_left_eq add.assoc)
  have "rg_woffset r2 = rg_tail r1" if "rg_tail r1 \<noteq> 0" "length cs = n"
  proof -
    have "?p + n < N"
      using that tail place by (cases "?p + n = N") (auto simp: unat_eq_0)
    then show ?thesis
      using tail u32_of_unat[of "rg_tail r1"] that(2) by (simp add: r2_def)
  qed
  moreover have inv3: "ring_inv r3 ?g ?q ?q"
    using inv len place n(2) unfolding ring_inv_def inteldrm_advance_ring_def r2_def r3_def by simp
  moreover have "rg_tail r3 = rg_tail r1" "rg_woffset r3 = rg_woffset r2"
    by (simp_all add: inteldrm_advance_ring_def r3_def) (simp add: r2_def)
  ultimately have ok3: "length cs = n \<longrightarrow> ring_ok r3 ?g ?q"
    by (auto simp: ring_ok_def)
  have mem3: "rg_mem r3 = overwrite ?p cs (rg_mem r1)" "length (rg_mem r3) = N"
    using place n(2) len by (simp_all add: inteldrm_advance_ring_def r2_def r3_def)
  define stale where "stale = ring_words (rg_mem r3) ((?g + (q - ?k + pad + length cs)) mod N) (n - length cs)"
  have split: "?q = (q - ?k + pad + length cs) + (n - length cs)"
    using n(2) by simp
  have "ring_words (rg_mem r3) ?g ?q = ring_words (rg_mem r3) ?g (q - ?k + pad + length cs) @ stale"
    unfolding split ring_words_add mem3(2) stale_def ..
  also have "ring_words (rg_mem r3) ?g (q - ?k + pad + length cs) = drop ?k (ring_words (rg_mem r) g q) @ replicate pad MI_NOOP @ cs"
    using ring_words_overwrite[of ?g "rg_mem r1" "q - ?k + pad" ?p cs] W D(3,5) place n(2) len mem3(1) by (simp add: add.assoc)
  finally have words: "ring_words (rg_mem r3) ?g ?q = drop ?k (ring_words (rg_mem r) g q) @ replicate pad MI_NOOP @ cs @ stale"
    by simp
  have "length stale = n - length cs"
    by (simp add: stale_def)
  then show "ends (\<lambda>(rs', r'). \<exists>m pad stale. let k = consumed (take m js); g' = (g + k) mod N; q' = q - k + pad + n
              in k \<le> q \<and> rs' = gpu_readings N g' (drop m js) \<and> ring_inv r' g' q' q' \<and>
                 (length cs = n \<longrightarrow> ring_ok r' g' q') \<and> length stale = n - length cs \<and>
                 ring_words (rg_mem r') g' q' = drop k (ring_words (rg_mem r) g q) @ replicate pad MI_NOOP @ cs @ stale)
     (catches_up 4 q js) (case x of (rs, r) \<Rightarrow> obind (out_words cs r) (\<lambda>r. Ret (rs, inteldrm_advance_ring r)))"
    unfolding x prod.case out obind.simps ends_Ret Let_def r3_def[symmetric] using k rs1 inv3 ok3 words
    by (intro exI[of _ m] exI[of _ pad] exI[of _ stale]) simp
qed

lemma ends_ring_emit:
  assumes ok: "ring_ok r g q" and N: "N = length (rg_mem r)" and n: "2 * length cs + 2 \<le> N"
    and js: "consumed js \<le> q" "gpu_alive js"
  shows "ends (\<lambda>(rs', r'). \<exists>m pad. let k = consumed (take m js); g' = (g + k) mod N; q' = q - k + pad + length cs
              in k \<le> q \<and> rs' = gpu_readings N g' (drop m js) \<and> ring_ok r' g' q' \<and>
                 ring_words (rg_mem r') g' q' = drop k (ring_words (rg_mem r) g q) @ replicate pad MI_NOOP @ cs)
     (catches_up 4 q js) (ring_emit (gpu_readings N g js) (of_nat (length cs)) cs r)"
  by (rule ends_mono[OF ends_ring_emit_begun[OF ok N n le_refl js]]) (auto simp: Let_def)

text \<open>
  C32: Giving commands to the GPU implements a queue. Let the GPU have \<open>q\<close> words of the ring before it,
  never read past the tail register and never rest for 99999 readings of the head register. Then
  emitting at most half a ring of commands does not fail; when it returns, the GPU has read \<open>k\<close> words
  from the front of the queue, and what it will read from now on is the rest of the queue, no-ops and
  the commands, in this order: nothing unread has been overwritten. It returns as soon as the GPU has
  caught up and four more readings have been made.
\<close>

theorem ring_emit_refines_queue:
  assumes "ring_ok r g q" "N = length (rg_mem r)" "2 * length cs + 2 \<le> N" "consumed js \<le> q" "gpu_alive js"
  shows "case ring_emit (gpu_readings N g js) (of_nat (length cs)) cs r of
      Panic \<Rightarrow> False
    | Asleep \<Rightarrow> \<not> catches_up 4 q js
    | Ret (rs', r') \<Rightarrow> \<exists>m pad. let k = consumed (take m js); g' = (g + k) mod N; q' = q - k + pad + length cs
        in k \<le> q \<and> rs' = gpu_readings N g' (drop m js) \<and> ring_ok r' g' q' \<and>
           ring_words (rg_mem r') g' q' = drop k (ring_words (rg_mem r) g q) @ replicate pad MI_NOOP @ cs"
  using ends_ring_emit[OF assms] by (auto simp: ends_def split: outcome.splits)

text \<open>A ring of eight words, four of them unread, that has to be wrapped for three commands.\<close>

definition demo_ring :: inteldrm_ring where
  "demo_ring = \<lparr>rg_size = 32, rg_head = 0, rg_space = 8, rg_tail = 24, rg_woffset = 24,
                rg_mem = [0, 0, 10, 11, 12, 13, 0, 0], prb_tail = 24\<rparr>"

lemma demo_ring_ok: "ring_ok demo_ring 2 4"
proof -
  have "sint (8 :: u32) = 8"
    using sint_small[of 8] by simp
  moreover have "\<exists>k. length (rg_mem demo_ring) = 2 ^ k \<and> 1 \<le> k \<and> k \<le> 19"
    by (rule exI[of _ 3]) (simp add: demo_ring_def)
  ultimately show ?thesis
    unfolding ring_ok_def ring_inv_def by (intro conjI) (simp_all add: demo_ring_def)
qed

lemma gpu_alive_short: "length js < 99999 \<Longrightarrow> gpu_alive js"
  using sublist_length_le unfolding gpu_alive_def rests_def by fastforce

theorem ring_emit_refines_queue_witness:
  "case ring_emit (gpu_readings 8 2 [(2, 0), (2, 0), (0, 0), (0, 0), (0, 0), (0, 0)]) 3 [1, 2, 3] demo_ring of
      Ret (rs', r') \<Rightarrow> \<exists>m pad q'. let g' = (2 + consumed (take m [(2, 0), (2, 0), (0, 0), (0, 0), (0, 0), (0, 0)])) mod 8
        in \<exists>k\<le>4. ring_words (rg_mem r') g' q' = drop k [10, 11, 12, 13] @ replicate pad MI_NOOP @ [1, 2, 3]
    | _ \<Rightarrow> False"
proof -
  let ?js = "[(2, 0), (2, 0), (0, 0), (0, 0), (0, 0), (0, 0)] :: (nat \<times> u32) list"
  have "gpu_alive ?js"
    by (rule gpu_alive_short) simp
  moreover have "catches_up 4 4 ?js"
    unfolding catches_up_def by (rule exI[of _ 2]) (simp add: numeral_2_eq_2)
  moreover have "ring_words (rg_mem demo_ring) 2 4 = [10, 11, 12, 13]"
    by (simp add: ring_words_def demo_ring_def upt_rec)
  ultimately show ?thesis
    using ring_emit_refines_queue[of demo_ring 2 4 8 "[1, 2, 3]" ?js] demo_ring_ok
    by (auto simp: demo_ring_def Let_def split: outcome.splits)
qed

end
