(* ===== verification/I915_Fence.thy ===== *)
theory I915_Fence
  imports I915_Word "HOL-Library.Signed_Division"
begin

text \<open>
  Tiled objects of \<^verbatim>\<open>i915_drv.c\<close>: the chips, which strides and sizes can be tiled, where a tiled object
  may lie, and what the fence registers of each generation are programmed with. Shown: a register
  programmed for an object that passed these tests describes exactly this object; and where the tests
  fall short.
\<close>

section \<open>Chips\<close>

definition CHIP_I830 :: u64 where "CHIP_I830 = 0x00001"
definition CHIP_I845G :: u64 where "CHIP_I845G = 0x00002"
definition CHIP_I85X :: u64 where "CHIP_I85X = 0x00004"
definition CHIP_I865G :: u64 where "CHIP_I865G = 0x00008"
definition CHIP_I9XX :: u64 where "CHIP_I9XX = 0x00010"
definition CHIP_I915G :: u64 where "CHIP_I915G = 0x00020"
definition CHIP_I915GM :: u64 where "CHIP_I915GM = 0x00040"
definition CHIP_I945G :: u64 where "CHIP_I945G = 0x00080"
definition CHIP_I945GM :: u64 where "CHIP_I945GM = 0x00100"
definition CHIP_I965 :: u64 where "CHIP_I965 = 0x00200"
definition CHIP_I965GM :: u64 where "CHIP_I965GM = 0x00400"
definition CHIP_G33 :: u64 where "CHIP_G33 = 0x00800"
definition CHIP_GM45 :: u64 where "CHIP_GM45 = 0x01000"
definition CHIP_G4X :: u64 where "CHIP_G4X = 0x02000"
definition CHIP_M :: u64 where "CHIP_M = 0x04000"
definition CHIP_HWS :: u64 where "CHIP_HWS = 0x08000"
definition CHIP_GEN2 :: u64 where "CHIP_GEN2 = 0x10000"
definition CHIP_GEN3 :: u64 where "CHIP_GEN3 = 0x20000"
definition CHIP_GEN4 :: u64 where "CHIP_GEN4 = 0x40000"
definition CHIP_GEN6 :: u64 where "CHIP_GEN6 = 0x80000"
definition CHIP_PINEVIEW :: u64 where "CHIP_PINEVIEW = 0x100000"
definition CHIP_IRONLAKE :: u64 where "CHIP_IRONLAKE = 0x200000"
definition CHIP_IRONLAKE_D :: u64 where "CHIP_IRONLAKE_D = 0x400000"
definition CHIP_IRONLAKE_M :: u64 where "CHIP_IRONLAKE_M = 0x800000"
definition CHIP_SANDYBRIDGE :: u64 where "CHIP_SANDYBRIDGE = 0x1000000"
definition CHIP_IVYBRIDGE :: u64 where "CHIP_IVYBRIDGE = 0x2000000"
definition CHIP_GEN7 :: u64 where "CHIP_GEN7 = 0x4000000"

lemmas chip_bits = CHIP_I830_def CHIP_I845G_def CHIP_I85X_def CHIP_I865G_def CHIP_I9XX_def CHIP_I915G_def
  CHIP_I915GM_def CHIP_I945G_def CHIP_I945GM_def CHIP_I965_def CHIP_I965GM_def CHIP_G33_def CHIP_GM45_def
  CHIP_G4X_def CHIP_M_def CHIP_HWS_def CHIP_GEN2_def CHIP_GEN3_def CHIP_GEN4_def CHIP_GEN6_def
  CHIP_PINEVIEW_def CHIP_IRONLAKE_def CHIP_IRONLAKE_D_def CHIP_IRONLAKE_M_def CHIP_SANDYBRIDGE_def
  CHIP_IVYBRIDGE_def CHIP_GEN7_def

text \<open>The \<^verbatim>\<open>driver_private\<close> words of \<^verbatim>\<open>inteldrm_pciidlist\<close>, in its order; the product numbers are not modelled.\<close>

definition inteldrm_pciidlist :: "u64 list" where
  "inteldrm_pciidlist =
    [CHIP_I830 OR CHIP_M OR CHIP_GEN2,
     CHIP_I845G OR CHIP_GEN2,
     CHIP_I85X OR CHIP_M OR CHIP_GEN2,
     CHIP_I865G OR CHIP_GEN2,
     CHIP_I915G OR CHIP_I9XX OR CHIP_GEN3,
     CHIP_I915G OR CHIP_I9XX OR CHIP_GEN3,
     CHIP_I915GM OR CHIP_I9XX OR CHIP_M OR CHIP_GEN3,
     CHIP_I945G OR CHIP_I9XX OR CHIP_GEN3,
     CHIP_I945GM OR CHIP_I9XX OR CHIP_M OR CHIP_GEN3,
     CHIP_I945GM OR CHIP_I9XX OR CHIP_M OR CHIP_GEN3,
     CHIP_I965 OR CHIP_I9XX OR CHIP_GEN4,
     CHIP_I965 OR CHIP_I9XX OR CHIP_GEN4,
     CHIP_I965 OR CHIP_I9XX OR CHIP_GEN4,
     CHIP_I965 OR CHIP_I9XX OR CHIP_GEN4,
     CHIP_I965GM OR CHIP_I965 OR CHIP_I9XX OR CHIP_M OR CHIP_GEN4,
     CHIP_I965GM OR CHIP_I965 OR CHIP_I9XX OR CHIP_M OR CHIP_GEN4,
     CHIP_G33 OR CHIP_I9XX OR CHIP_HWS OR CHIP_GEN3,
     CHIP_G33 OR CHIP_I9XX OR CHIP_HWS OR CHIP_GEN3,
     CHIP_G33 OR CHIP_I9XX OR CHIP_HWS OR CHIP_GEN3,
     CHIP_G4X OR CHIP_GM45 OR CHIP_I965 OR CHIP_I9XX OR CHIP_M OR CHIP_HWS OR CHIP_GEN4,
     CHIP_G4X OR CHIP_I965 OR CHIP_I9XX OR CHIP_HWS OR CHIP_GEN4,
     CHIP_G4X OR CHIP_I965 OR CHIP_I9XX OR CHIP_HWS OR CHIP_GEN4,
     CHIP_G4X OR CHIP_I965 OR CHIP_I9XX OR CHIP_HWS OR CHIP_GEN4,
     CHIP_G4X OR CHIP_I965 OR CHIP_I9XX OR CHIP_HWS OR CHIP_GEN4,
     CHIP_G33 OR CHIP_PINEVIEW OR CHIP_M OR CHIP_I9XX OR CHIP_HWS OR CHIP_GEN3,
     CHIP_G33 OR CHIP_PINEVIEW OR CHIP_M OR CHIP_I9XX OR CHIP_HWS OR CHIP_GEN3,
     CHIP_IRONLAKE OR CHIP_IRONLAKE_D OR CHIP_I965 OR CHIP_I9XX OR CHIP_HWS,
     CHIP_IRONLAKE OR CHIP_M OR CHIP_IRONLAKE_M OR CHIP_I965 OR CHIP_I9XX OR CHIP_HWS,
     CHIP_SANDYBRIDGE OR CHIP_I965 OR CHIP_I9XX OR CHIP_HWS OR CHIP_GEN6,
     CHIP_SANDYBRIDGE OR CHIP_M OR CHIP_I965 OR CHIP_I9XX OR CHIP_HWS OR CHIP_GEN6,
     CHIP_SANDYBRIDGE OR CHIP_I965 OR CHIP_I9XX OR CHIP_HWS OR CHIP_GEN6,
     CHIP_SANDYBRIDGE OR CHIP_M OR CHIP_I965 OR CHIP_I9XX OR CHIP_HWS OR CHIP_GEN6,
     CHIP_SANDYBRIDGE OR CHIP_I965 OR CHIP_I9XX OR CHIP_HWS OR CHIP_GEN6,
     CHIP_SANDYBRIDGE OR CHIP_M OR CHIP_I965 OR CHIP_I9XX OR CHIP_HWS OR CHIP_GEN6,
     CHIP_IVYBRIDGE OR CHIP_I965 OR CHIP_I9XX OR CHIP_HWS OR CHIP_GEN7,
     CHIP_IVYBRIDGE OR CHIP_M OR CHIP_I965 OR CHIP_I9XX OR CHIP_HWS OR CHIP_GEN7,
     CHIP_IVYBRIDGE OR CHIP_I965 OR CHIP_I9XX OR CHIP_HWS OR CHIP_GEN7,
     CHIP_IVYBRIDGE OR CHIP_I965 OR CHIP_I9XX OR CHIP_HWS OR CHIP_GEN7,
     CHIP_IVYBRIDGE OR CHIP_M OR CHIP_I965 OR CHIP_I9XX OR CHIP_HWS OR CHIP_GEN7,
     CHIP_IVYBRIDGE OR CHIP_I965 OR CHIP_I9XX OR CHIP_HWS OR CHIP_GEN7]"

definition IS_I915G :: "u64 \<Rightarrow> bool" where "IS_I915G fl \<longleftrightarrow> fl AND CHIP_I915G \<noteq> 0"
definition IS_I915GM :: "u64 \<Rightarrow> bool" where "IS_I915GM fl \<longleftrightarrow> fl AND CHIP_I915GM \<noteq> 0"
definition IS_I945G :: "u64 \<Rightarrow> bool" where "IS_I945G fl \<longleftrightarrow> fl AND CHIP_I945G \<noteq> 0"
definition IS_I945GM :: "u64 \<Rightarrow> bool" where "IS_I945GM fl \<longleftrightarrow> fl AND CHIP_I945GM \<noteq> 0"
definition IS_I965G :: "u64 \<Rightarrow> bool" where "IS_I965G fl \<longleftrightarrow> fl AND CHIP_I965 \<noteq> 0"
definition IS_G33 :: "u64 \<Rightarrow> bool" where "IS_G33 fl \<longleftrightarrow> fl AND CHIP_G33 \<noteq> 0"
definition IS_I9XX :: "u64 \<Rightarrow> bool" where "IS_I9XX fl \<longleftrightarrow> fl AND CHIP_I9XX \<noteq> 0"
definition IS_IRONLAKE :: "u64 \<Rightarrow> bool" where "IS_IRONLAKE fl \<longleftrightarrow> fl AND CHIP_IRONLAKE \<noteq> 0"
definition IS_MOBILE :: "u64 \<Rightarrow> bool" where "IS_MOBILE fl \<longleftrightarrow> fl AND CHIP_M \<noteq> 0"
definition IS_GEN2 :: "u64 \<Rightarrow> bool" where "IS_GEN2 fl \<longleftrightarrow> fl AND CHIP_GEN2 \<noteq> 0"
definition IS_GEN3 :: "u64 \<Rightarrow> bool" where "IS_GEN3 fl \<longleftrightarrow> fl AND CHIP_GEN3 \<noteq> 0"
definition IS_GEN4 :: "u64 \<Rightarrow> bool" where "IS_GEN4 fl \<longleftrightarrow> fl AND CHIP_GEN4 \<noteq> 0"
definition IS_GEN6 :: "u64 \<Rightarrow> bool" where "IS_GEN6 fl \<longleftrightarrow> fl AND CHIP_GEN6 \<noteq> 0"
definition IS_GEN7 :: "u64 \<Rightarrow> bool" where "IS_GEN7 fl \<longleftrightarrow> fl AND CHIP_GEN7 \<noteq> 0"

definition HAS_PCH_SPLIT :: "u64 \<Rightarrow> bool" where
  "HAS_PCH_SPLIT fl \<longleftrightarrow> IS_IRONLAKE fl \<or> IS_GEN6 fl \<or> IS_GEN7 fl"

definition HAS_128_BYTE_Y_TILING :: "u64 \<Rightarrow> bool" where
  "HAS_128_BYTE_Y_TILING fl \<longleftrightarrow> IS_I9XX fl \<and> \<not> (IS_I915G fl \<or> IS_I915GM fl)"

lemmas chip_tests = IS_I915G_def IS_I915GM_def IS_I945G_def IS_I945GM_def IS_I965G_def IS_G33_def IS_I9XX_def
  IS_IRONLAKE_def IS_MOBILE_def IS_GEN2_def IS_GEN3_def IS_GEN4_def IS_GEN6_def IS_GEN7_def HAS_PCH_SPLIT_def
  HAS_128_BYTE_Y_TILING_def

section \<open>Tiling\<close>

definition I915_TILING_NONE :: u32 where "I915_TILING_NONE = 0"
definition I915_TILING_X :: u32 where "I915_TILING_X = 1"
definition I915_TILING_Y :: u32 where "I915_TILING_Y = 2"

definition I830_FENCE_START_MASK :: u64 where "I830_FENCE_START_MASK = 0x07f80000"
definition I915_FENCE_START_MASK :: u64 where "I915_FENCE_START_MASK = 0x0ff00000"
definition I830_FENCE_TILING_Y_SHIFT :: nat where "I830_FENCE_TILING_Y_SHIFT = 12"
definition I830_FENCE_PITCH_SHIFT :: nat where "I830_FENCE_PITCH_SHIFT = 4"
definition I830_FENCE_REG_VALID :: u32 where "I830_FENCE_REG_VALID = 1"
definition I830_FENCE_MAX_SIZE_VAL :: int where "I830_FENCE_MAX_SIZE_VAL = 2 ^ 8"
definition I965_FENCE_PITCH_SHIFT :: nat where "I965_FENCE_PITCH_SHIFT = 2"
definition I965_FENCE_TILING_Y_SHIFT :: nat where "I965_FENCE_TILING_Y_SHIFT = 1"
definition I965_FENCE_REG_VALID :: u64 where "I965_FENCE_REG_VALID = 1"
definition I965_FENCE_MAX_PITCH_VAL :: int where "I965_FENCE_MAX_PITCH_VAL = 0x0400"
definition SANDYBRIDGE_FENCE_PITCH_SHIFT :: nat where "SANDYBRIDGE_FENCE_PITCH_SHIFT = 32"

text \<open>\<^verbatim>\<open>ffs\<close> of an \<^verbatim>\<open>int\<close>, the number of its lowest bit, from 1; 0 if it has none.\<close>

fun ffs_from :: "nat \<Rightarrow> nat \<Rightarrow> u32 \<Rightarrow> u32" where
  "ffs_from 0 i w = 0"
| "ffs_from (Suc n) i w = (if bit w i then of_nat (Suc i) else ffs_from n (Suc i) w)"

definition ffs32 :: "u32 \<Rightarrow> u32" where "ffs32 w = ffs_from 32 0 w"

definition I830_FENCE_SIZE_BITS :: "u64 \<Rightarrow> u32" where
  "I830_FENCE_SIZE_BITS sz = push_bit 8 (ffs32 (ucast (drop_bit 19 sz)) - 1)"

definition I915_FENCE_SIZE_BITS :: "u64 \<Rightarrow> u32" where
  "I915_FENCE_SIZE_BITS sz = push_bit 8 (ffs32 (ucast (drop_bit 20 sz)) - 1)"

text \<open>\<^verbatim>\<open>for (i = start; i < size; i <<= 1)\<close>; \<open>None\<close> if it never ends.\<close>

partial_function (option) pow2_loop :: "u64 \<Rightarrow> u64 \<Rightarrow> u64 option" where
  "pow2_loop sz i = (if i < sz then pow2_loop sz (push_bit 1 i) else Some i)"

definition i915_get_fence_size :: "u64 \<Rightarrow> u64 \<Rightarrow> u64 option" where
  "i915_get_fence_size fl sz =
     (if IS_I965G fl then Some ((sz + (4096 - 1)) AND NOT (4096 - 1))
      else pow2_loop sz (if IS_I9XX fl then 1024 * 1024 else 512 * 1024))"

text \<open>
  \<^verbatim>\<open>stride\<close> and \<^verbatim>\<open>size\<close> are \<^verbatim>\<open>int\<close>s; the size of an object is 64 bits wide, and handed on to
  \<^verbatim>\<open>i915_get_fence_size\<close> it is so again.
\<close>

definition i915_tiling_ok :: "u64 \<Rightarrow> u32 \<Rightarrow> u64 \<Rightarrow> u32 \<Rightarrow> bool option" where
  "i915_tiling_ok fl stride osize tiling_mode =
     (if tiling_mode = I915_TILING_NONE then Some True
      else
        let sz = ucast osize :: u32;
            tile_width = (if \<not> IS_I9XX fl \<or> tiling_mode = I915_TILING_Y \<and> HAS_128_BYTE_Y_TILING fl then 128 else 512) :: u32
        in if IS_I965G fl \<and> sint stride sdiv 128 > I965_FENCE_MAX_PITCH_VAL then Some False
           else if \<not> IS_I965G fl \<and> (IS_GEN3 fl \<or> IS_GEN2 fl) \<and>
                   (sint stride > 8192 \<or>
                    (if IS_GEN3 fl then sint sz > push_bit 20 I830_FENCE_MAX_SIZE_VAL
                     else sint sz > push_bit 19 I830_FENCE_MAX_SIZE_VAL))
           then Some False
           else if IS_I965G fl then Some (stride AND (tile_width - 1) = 0)
           else if sint stride < sint tile_width \<or> stride AND (stride - 1) \<noteq> 0 then Some False
           else map_option (\<lambda>fs. fs = scast sz) (i915_get_fence_size fl (scast sz)))"

definition i915_gem_object_fence_offset_ok :: "u64 \<Rightarrow> bool \<Rightarrow> u64 \<Rightarrow> u64 \<Rightarrow> u32 \<Rightarrow> bool" where
  "i915_gem_object_fence_offset_ok fl bound gtt_offset sz tiling_mode =
     (if \<not> bound \<or> tiling_mode = I915_TILING_NONE then True
      else if \<not> IS_I965G fl
      then if gtt_offset AND (sz - 1) \<noteq> 0 then False
           else if IS_I9XX fl then gtt_offset AND NOT I915_FENCE_START_MASK = 0
           else gtt_offset AND NOT I830_FENCE_START_MASK = 0
      else True)"

definition i915_gem_get_gtt_alignment :: "u64 \<Rightarrow> u64 \<Rightarrow> u32 \<Rightarrow> u64 option" where
  "i915_gem_get_gtt_alignment fl sz tiling_mode =
     (if IS_I965G fl \<or> tiling_mode = I915_TILING_NONE then Some 4096
      else pow2_loop sz (if IS_I9XX fl then 1024 * 1024 else 512 * 1024))"

section \<open>Fence registers\<close>

definition FENCE_REG_830_0 :: u64 where "FENCE_REG_830_0 = 0x2000"
definition FENCE_REG_945_8 :: u64 where "FENCE_REG_945_8 = 0x3000"
definition FENCE_REG_965_0 :: u64 where "FENCE_REG_965_0 = 0x03000"
definition FENCE_REG_SANDYBRIDGE_0 :: u64 where "FENCE_REG_SANDYBRIDGE_0 = 0x100000"

text \<open>The registers, 32 bits each, by their offset.\<close>

type_synonym mmio = "u64 \<Rightarrow> u32"

definition I915_WRITE :: "u64 \<Rightarrow> u32 \<Rightarrow> mmio \<Rightarrow> mmio" where
  "I915_WRITE reg val m = m(reg := val)"

definition write64 :: "u64 \<Rightarrow> u64 \<Rightarrow> mmio \<Rightarrow> mmio" where
  "write64 off reg m = I915_WRITE (off + 4) (ucast (drop_bit 32 reg)) (I915_WRITE off (ucast reg) m)"

definition read64 :: "u64 \<Rightarrow> mmio \<Rightarrow> u64" where
  "read64 off m = ucast (m off) OR push_bit 32 (ucast (m (off + 4)))"

text \<open>What the registers are programmed with: the place and size of the object, its stride and tiling.\<close>

record fence_args =
  fa_offset :: u64
  fa_size :: u64
  fa_stride :: u32
  fa_tiling :: u32

definition sandybridge_write_fence_reg :: "nat \<Rightarrow> fence_args \<Rightarrow> mmio \<Rightarrow> mmio" where
  "sandybridge_write_fence_reg regnum a m =
     (let val = push_bit 32 ((fa_offset a + fa_size a - 4096) AND 0xfffff000);
          val = val OR (fa_offset a AND 0xfffff000);
          val = val OR push_bit SANDYBRIDGE_FENCE_PITCH_SHIFT (ucast (fa_stride a div 128 - 1));
          val = (if fa_tiling a = I915_TILING_Y then val OR push_bit I965_FENCE_TILING_Y_SHIFT 1 else val);
          val = val OR I965_FENCE_REG_VALID
      in write64 (FENCE_REG_SANDYBRIDGE_0 + of_nat (regnum * 8)) val m)"

definition i965_write_fence_reg :: "nat \<Rightarrow> fence_args \<Rightarrow> mmio \<Rightarrow> mmio" where
  "i965_write_fence_reg regnum a m =
     (let val = push_bit 32 ((fa_offset a + fa_size a - 4096) AND 0xfffff000);
          val = val OR (fa_offset a AND 0xfffff000);
          val = val OR ucast (push_bit I965_FENCE_PITCH_SHIFT (fa_stride a div 128 - 1));
          val = (if fa_tiling a = I915_TILING_Y then val OR push_bit I965_FENCE_TILING_Y_SHIFT 1 else val);
          val = val OR I965_FENCE_REG_VALID
      in write64 (FENCE_REG_965_0 + of_nat (regnum * 8)) val m)"

definition fence_reg_32 :: "nat \<Rightarrow> u64" where
  "fence_reg_32 regnum =
     (if regnum < 8 then FENCE_REG_830_0 + of_nat (regnum * 4) else FENCE_REG_945_8 + of_nat ((regnum - 8) * 4))"

definition i915_write_fence_reg :: "u64 \<Rightarrow> nat \<Rightarrow> fence_args \<Rightarrow> mmio \<Rightarrow> mmio" where
  "i915_write_fence_reg fl regnum a m =
     (if fa_offset a AND NOT I915_FENCE_START_MASK \<noteq> 0 \<or> fa_offset a AND (fa_size a - 1) \<noteq> 0 then m
      else let tile_width = (if fa_tiling a = I915_TILING_Y \<and> HAS_128_BYTE_Y_TILING fl then 128 else 512);
               pitch_val = ffs32 (fa_stride a div tile_width) - 1;
               val = ucast (fa_offset a);
               val = (if fa_tiling a = I915_TILING_Y then val OR push_bit I830_FENCE_TILING_Y_SHIFT 1 else val);
               val = val OR I915_FENCE_SIZE_BITS (fa_size a);
               val = val OR push_bit I830_FENCE_PITCH_SHIFT pitch_val;
               val = val OR I830_FENCE_REG_VALID
           in I915_WRITE (fence_reg_32 regnum) val m)"

definition i830_write_fence_reg :: "nat \<Rightarrow> fence_args \<Rightarrow> mmio \<Rightarrow> mmio" where
  "i830_write_fence_reg regnum a m =
     (if fa_offset a AND NOT I830_FENCE_START_MASK \<noteq> 0 \<or> fa_offset a AND (fa_size a - 1) \<noteq> 0 then m
      else let pitch_val = ffs32 (fa_stride a div 128) - 1;
               val = ucast (fa_offset a);
               val = (if fa_tiling a = I915_TILING_Y then val OR push_bit I830_FENCE_TILING_Y_SHIFT 1 else val);
               val = val OR I830_FENCE_SIZE_BITS (fa_size a);
               val = val OR push_bit I830_FENCE_PITCH_SHIFT pitch_val;
               val = val OR I830_FENCE_REG_VALID
           in I915_WRITE (FENCE_REG_830_0 + of_nat (regnum * 4)) val m)"

text \<open>The last step of \<^verbatim>\<open>i915_gem_get_fence_reg\<close>.\<close>

definition write_fence_reg :: "u64 \<Rightarrow> nat \<Rightarrow> fence_args \<Rightarrow> mmio \<Rightarrow> mmio" where
  "write_fence_reg fl regnum a =
     (if IS_GEN6 fl \<or> IS_GEN7 fl then sandybridge_write_fence_reg regnum a
      else if IS_I965G fl then i965_write_fence_reg regnum a
      else if IS_I9XX fl then i915_write_fence_reg fl regnum a
      else i830_write_fence_reg regnum a)"

text \<open>And the step of \<^verbatim>\<open>i915_gem_object_put_fence_reg\<close> that clears the register.\<close>

definition clear_fence_reg :: "u64 \<Rightarrow> nat \<Rightarrow> mmio \<Rightarrow> mmio" where
  "clear_fence_reg fl regnum m =
     (if IS_I965G fl then write64 (FENCE_REG_965_0 + of_nat (regnum * 8)) 0 m
      else I915_WRITE (fence_reg_32 regnum) 0 m)"

section \<open>The loop over powers of two\<close>

lemma pow2_loop_stops:
  assumes "s \<le> k" "k < 64" "unat sz \<le> 2 ^ k" "k = s \<or> 2 ^ (k - 1) < unat sz"
  shows "pow2_loop sz (push_bit s 1) = Some (push_bit k 1)"
  using assms
proof (induction "k - s" arbitrary: s)
  case 0
  then have "\<not> (push_bit k 1 :: u64) < sz"
    by (simp add: word_less_nat_alt unat_power_64)
  then show ?case
    using 0 by (subst pow2_loop.simps) simp
next
  case (Suc n)
  then have "s < k" "2 ^ (k - 1) < unat sz"
    by auto
  moreover have "(2 :: nat) ^ s \<le> 2 ^ (k - 1)"
    using \<open>s < k\<close> by (intro power_increasing) auto
  ultimately have "(push_bit s 1 :: u64) < sz"
    using Suc.prems(2) \<open>s < k\<close> order.strict_trans1[of "2 ^ s" "2 ^ (k - 1)" "unat sz"] by (simp add: word_less_nat_alt unat_power_64)
  then have "pow2_loop sz (push_bit s 1) = pow2_loop sz (push_bit (Suc s) 1)"
    by (subst pow2_loop.simps) (simp add: mult.commute)
  also have "\<dots> = Some (push_bit k 1)"
    using Suc \<open>s < k\<close> by (intro Suc.hyps(1)) auto
  finally show ?case .
qed

lemma pow2_exists:
  assumes "n \<le> 2 ^ 63" "s < 64"
  obtains k where "s \<le> k" "k < 64" "n \<le> 2 ^ k" "k = s \<or> (2 :: nat) ^ (k - 1) < n"
proof (cases "n \<le> 2 ^ s")
  case False
  define k where "k = (LEAST k. n \<le> 2 ^ k)"
  have k: "n \<le> 2 ^ k" "k \<le> 63"
    unfolding k_def using assms(1) by (auto intro: LeastI[of "\<lambda>k. n \<le> 2 ^ k" 63] Least_le[of "\<lambda>k. n \<le> 2 ^ k" 63])
  have "\<not> k \<le> s"
    using False k(1) power_increasing[of k s "2 :: nat"] by linarith
  moreover have "\<not> n \<le> 2 ^ (k - 1)"
    using \<open>\<not> k \<le> s\<close> unfolding k_def by (intro not_less_Least) (simp add: k_def[symmetric])
  ultimately show ?thesis
    using k by (intro that[of k]) auto
qed (use assms in \<open>auto intro: that[of s]\<close>)

text \<open>Above \<open>2 ^ 63\<close> the bit is shifted out and the loop goes on with 0.\<close>

lemma pow2_loop_endless:
  assumes "2 ^ 63 < unat sz" "s < 64"
  shows "pow2_loop sz (push_bit s 1) = None"
proof (rule ccontr)
  assume "pow2_loop sz (push_bit s 1) \<noteq> None"
  then obtain r where r: "pow2_loop sz (push_bit s 1) = Some r"
    by blast
  have "unat sz' > 2 ^ 63 \<longrightarrow> \<not> (i = 0 \<or> (\<exists>s<64. i = push_bit s 1))" if "pow2_loop sz' i = Some r" for sz' i r
  proof (rule pow2_loop.raw_induct[OF _ that], intro impI)
    fix f and sz' i r :: u64
    assume IH: "\<And>sz' i r. f sz' i = Some r \<Longrightarrow> 2 ^ 63 < unat sz' \<longrightarrow> \<not> (i = 0 \<or> (\<exists>s<64. i = push_bit s 1))"
      and body: "(if i < sz' then f sz' (push_bit 1 i) else Some i) = Some r" and sz': "2 ^ 63 < unat sz'"
    show "\<not> (i = 0 \<or> (\<exists>s<64. i = push_bit s 1))"
    proof
      assume i: "i = 0 \<or> (\<exists>s<64. i = push_bit s 1)"
      then have "unat i \<le> 2 ^ 63"
      proof (elim disjE exE conjE)
        fix t :: nat
        assume "t < 64" "i = push_bit t 1"
        then show ?thesis
          using unat_power_64[of t] power_increasing[of t 63 "2 :: nat"] by simp
      qed simp
      then have "i < sz'"
        using sz' by (simp add: word_less_nat_alt)
      moreover have "push_bit 1 i = 0 \<or> (\<exists>s<64. push_bit 1 i = push_bit s 1)"
        using i
      proof (elim disjE exE conjE)
        fix t :: nat
        assume t: "t < 64" "i = push_bit t 1"
        show ?thesis
        proof (cases "t = 63")
          case True
          then show ?thesis
            using t by (simp add: push_bit_eq_mult)
        next
          case False
          then show ?thesis
            using t by (intro disjI2 exI[of _ "Suc t"]) (simp add: mult.commute)
        qed
      qed simp
      ultimately show False
        using IH[of sz' "push_bit 1 i" r] body sz' by auto
    qed
  qed
  then show False
    using r assms by blast
qed

section \<open>What a register says\<close>

text \<open>
  The address range a register makes the GPU treat as tiled, and its layout, after the fields of
  \<^verbatim>\<open>i915_reg.h\<close>; \<open>None\<close> without the valid bit.
\<close>

record fence_range =
  fr_start :: u64
  fr_end :: u64
  fr_pitch :: u64
  fr_y :: bool

definition fence_965 :: "nat \<Rightarrow> u64 \<Rightarrow> fence_range option" where
  "fence_965 pitch_shift v =
     (if v AND I965_FENCE_REG_VALID \<noteq> 0
      then Some \<lparr>fr_start = v AND 0xfffff000, fr_end = (drop_bit 32 v AND 0xfffff000) + 4096,
                 fr_pitch = 128 * ((drop_bit pitch_shift v AND mask 10) + 1), fr_y = bit v I965_FENCE_TILING_Y_SHIFT\<rparr>
      else None)"

definition fence_pow2 :: "u64 \<Rightarrow> nat \<Rightarrow> (bool \<Rightarrow> u64) \<Rightarrow> u32 \<Rightarrow> fence_range option" where
  "fence_pow2 start_mask size_unit tile_width v =
     (let start = ucast v AND start_mask; y = bit v I830_FENCE_TILING_Y_SHIFT
      in if v AND I830_FENCE_REG_VALID \<noteq> 0
         then Some \<lparr>fr_start = start, fr_end = start + push_bit (size_unit + unat (drop_bit 8 v AND mask 4)) 1,
                    fr_pitch = push_bit (unat (drop_bit I830_FENCE_PITCH_SHIFT v AND mask 3)) (tile_width y), fr_y = y\<rparr>
         else None)"

definition fence_seen :: "u64 \<Rightarrow> nat \<Rightarrow> mmio \<Rightarrow> fence_range option" where
  "fence_seen fl n m =
     (if IS_GEN6 fl \<or> IS_GEN7 fl then fence_965 SANDYBRIDGE_FENCE_PITCH_SHIFT (read64 (FENCE_REG_SANDYBRIDGE_0 + of_nat (n * 8)) m)
      else if IS_I965G fl then fence_965 I965_FENCE_PITCH_SHIFT (read64 (FENCE_REG_965_0 + of_nat (n * 8)) m)
      else if IS_I9XX fl
      then fence_pow2 I915_FENCE_START_MASK 20 (\<lambda>y. if y \<and> HAS_128_BYTE_Y_TILING fl then 128 else 512) (m (fence_reg_32 n))
      else fence_pow2 I830_FENCE_START_MASK 19 (\<lambda>y. 128) (m (FENCE_REG_830_0 + of_nat (n * 4))))"

section \<open>Words and their bits\<close>

definition page_bits :: u64 where "page_bits = push_bit 12 (mask 20)"

lemma page_mask: "(0xfffff000 :: u64) = page_bits"
  by (simp add: page_bits_def mask_eq_exp_minus_1 push_bit_eq_mult)

lemma bit_page_bits: "bit page_bits i \<longleftrightarrow> 12 \<le> i \<and> i < 32"
  by (auto simp: page_bits_def bit_push_bit_iff bit_mask_iff)

lemma read64_write64: "read64 off (write64 off v m) = v"
proof -
  have "off \<noteq> off + 4"
    by simp
  then have "read64 off (write64 off v m) = ucast (ucast v :: u32) OR push_bit 32 (ucast (ucast (drop_bit 32 v) :: u32))"
    by (simp add: read64_def write64_def I915_WRITE_def)
  also have "\<dots> = v"
    by (rule bit_word_eqI) (auto simp: bit_or_iff bit_push_bit_iff bit_unsigned_iff bit_drop_bit_eq)
  finally show ?thesis .
qed

lemma bit_y: "bit (if y then push_bit n 1 else 0 :: 'a::len word) i \<longleftrightarrow> y \<and> i = n \<and> n < LENGTH('a)"
  by (auto simp: bit_push_bit_iff bit_1_iff simp del: push_bit_of_1)

lemma valid_bit: "bit v 0 \<Longrightarrow> v AND I965_FENCE_REG_VALID \<noteq> 0" "bit w 0 \<Longrightarrow> w AND I830_FENCE_REG_VALID \<noteq> 0"
  by (simp_all add: I965_FENCE_REG_VALID_def I830_FENCE_REG_VALID_def and_one_eq bit_0 odd_iff_mod_2_eq_one)

text \<open>The 64-bit registers: their fields do not overlap as long as the pitch has ten bits.\<close>

lemma fence_965_fields:
  fixes E S P :: u64
  assumes P: "unat P < 2 ^ 10" and sh: "sh = 2 \<or> sh = 32"
  shows "fence_965 sh ((((push_bit 32 (E AND page_bits) OR (S AND page_bits)) OR push_bit sh P) OR
            (if y then push_bit I965_FENCE_TILING_Y_SHIFT 1 else 0)) OR I965_FENCE_REG_VALID) =
         Some \<lparr>fr_start = S AND page_bits, fr_end = (E AND page_bits) + 4096, fr_pitch = 128 * (P + 1), fr_y = y\<rparr>"
proof -
  define w where "w = (((push_bit 32 (E AND page_bits) OR (S AND page_bits)) OR push_bit sh P) OR
            (if y then push_bit I965_FENCE_TILING_Y_SHIFT 1 else 0)) OR I965_FENCE_REG_VALID"
  note bits = bit_or_iff bit_and_iff bit_push_bit_iff bit_drop_bit_eq bit_page_bits bit_mask_iff bit_1_iff
    bit_y I965_FENCE_TILING_Y_SHIFT_def I965_FENCE_REG_VALID_def
  have p: "i < 10" if "bit P i" for i
    by (rule bit_small[OF P that])
  have v: "bit w i \<longleftrightarrow> i < 64 \<and> (44 \<le> i \<and> bit E (i - 32) \<or> 12 \<le> i \<and> i < 32 \<and> bit S i \<or> sh \<le> i \<and> bit P (i - sh) \<or> y \<and> i = 1 \<or> i = 0)" for i
    unfolding w_def bits by auto
  have "w AND I965_FENCE_REG_VALID \<noteq> 0"
    by (rule valid_bit) (unfold v, simp)
  moreover have "w AND page_bits = S AND page_bits"
    by (rule bit_word_eqI) (use sh in \<open>auto simp: bit_and_iff bit_page_bits v dest!: p\<close>)
  moreover have "drop_bit 32 w AND page_bits = E AND page_bits"
    by (rule bit_word_eqI) (use sh in \<open>auto simp: bit_and_iff bit_page_bits bit_drop_bit_eq v dest!: p\<close>)
  moreover have "drop_bit sh w AND mask 10 = P"
    by (rule bit_word_eqI) (use sh in \<open>auto simp: bit_and_iff bit_mask_iff bit_drop_bit_eq v dest: p\<close>)
  moreover have "bit w I965_FENCE_TILING_Y_SHIFT = y"
    unfolding v I965_FENCE_TILING_Y_SHIFT_def using sh by auto
  ultimately show ?thesis
    unfolding fence_965_def page_mask w_def[symmetric] by simp
qed

text \<open>The 32-bit registers.\<close>

lemma start_masks: "I915_FENCE_START_MASK = push_bit 20 (mask 8)" "I830_FENCE_START_MASK = push_bit 19 (mask 8)"
  by (simp_all add: I915_FENCE_START_MASK_def I830_FENCE_START_MASK_def mask_eq_exp_minus_1 push_bit_eq_mult)

lemma fence_pow2_fields:
  fixes K P :: u32
  assumes M: "M = push_bit sh (mask 8)" "19 \<le> sh" "sh \<le> 20" and off: "off AND NOT M = 0" and K: "unat K < 2 ^ 4" and P: "unat P < 2 ^ 3"
  shows "fence_pow2 M unit tw ((((ucast off OR (if y then push_bit I830_FENCE_TILING_Y_SHIFT 1 else 0)) OR push_bit 8 K) OR
            push_bit I830_FENCE_PITCH_SHIFT P) OR I830_FENCE_REG_VALID) =
         Some \<lparr>fr_start = off, fr_end = off + push_bit (unit + unat K) 1, fr_pitch = push_bit (unat P) (tw y), fr_y = y\<rparr>"
proof -
  define w where "w = (((ucast off OR (if y then push_bit I830_FENCE_TILING_Y_SHIFT 1 else 0)) OR push_bit 8 K) OR
            push_bit I830_FENCE_PITCH_SHIFT P) OR I830_FENCE_REG_VALID"
  have M_bit: "bit M i \<longleftrightarrow> sh \<le> i \<and> i < sh + 8" for i
    using M(2,3) by (auto simp: M(1) bit_push_bit_iff bit_mask_iff)
  have o: "sh \<le> i \<and> i < sh + 8" if "bit off i" for i
  proof (rule ccontr)
    assume "\<not> (sh \<le> i \<and> i < sh + 8)"
    then have "bit (off AND NOT M) i"
      using that M_bit[of i] bit_imp_le_length[of off i] by (simp add: bit_and_iff bit_not_iff)
    then show False
      by (simp add: off)
  qed
  have k: "i < 4" if "bit K i" for i
    by (rule bit_small[OF K that])
  have p: "i < 3" if "bit P i" for i
    by (rule bit_small[OF P that])
  have v: "bit w i \<longleftrightarrow> i < 32 \<and> (bit off i \<or> y \<and> i = 12 \<or> 8 \<le> i \<and> bit K (i - 8) \<or> 4 \<le> i \<and> bit P (i - 4) \<or> i = 0)" for i
    unfolding w_def bit_or_iff bit_y bit_push_bit_iff bit_unsigned_iff I830_FENCE_TILING_Y_SHIFT_def
      I830_FENCE_PITCH_SHIFT_def I830_FENCE_REG_VALID_def bit_1_iff
    by auto
  have "w AND I830_FENCE_REG_VALID \<noteq> 0"
    by (rule valid_bit) (unfold v, simp)
  moreover have "ucast w AND M = off"
  proof (rule bit_word_eqI)
    fix n
    assume "n < LENGTH(64)"
    show "bit (ucast w AND M) n = bit off n"
      using o[of n] k[of "n - 8"] p[of "n - 4"] M(2,3) unfolding bit_and_iff bit_unsigned_iff M_bit v by auto
  qed
  moreover have "drop_bit 8 w AND mask 4 = K"
  proof (rule bit_word_eqI)
    fix n
    assume "n < LENGTH(32)"
    show "bit (drop_bit 8 w AND mask 4) n = bit K n"
      using o[of "8 + n"] k[of n] p[of "8 + n - 4"] M(2,3) unfolding bit_and_iff bit_drop_bit_eq bit_mask_iff v comp_def by auto
  qed
  moreover have "drop_bit I830_FENCE_PITCH_SHIFT w AND mask 3 = P"
  proof (rule bit_word_eqI)
    fix n
    assume "n < LENGTH(32)"
    show "bit (drop_bit I830_FENCE_PITCH_SHIFT w AND mask 3) n = bit P n"
      using o[of "4 + n"] p[of n] M(2,3) unfolding bit_and_iff bit_drop_bit_eq bit_mask_iff v comp_def I830_FENCE_PITCH_SHIFT_def by auto
  qed
  moreover have "bit w I830_FENCE_TILING_Y_SHIFT = y"
    using o[of 12] k[of 4] p[of 8] M(2) unfolding v I830_FENCE_TILING_Y_SHIFT_def by auto
  ultimately show ?thesis
    unfolding fence_pow2_def w_def[symmetric] Let_def by simp
qed

section \<open>Powers of two\<close>

lemma ffs_from_first:
  assumes "bit w k" "i \<le> k" "k < i + n" "\<And>j. i \<le> j \<Longrightarrow> j < k \<Longrightarrow> \<not> bit w j"
  shows "ffs_from n i w = of_nat (Suc k)"
  using assms
proof (induction n arbitrary: i)
  case (Suc n)
  then show ?case
    by (cases "i = k") auto
qed simp

lemma ffs32_power: "k < 32 \<Longrightarrow> ffs32 (2 ^ k) - 1 = of_nat k"
  unfolding ffs32_def by (subst ffs_from_first[of _ k]) (auto simp: bit_exp_iff)

lemma power_div: "i \<le> k \<Longrightarrow> k < 32 \<Longrightarrow> (2 ^ k :: u32) div 2 ^ i = 2 ^ (k - i)"
  unfolding drop_bit_eq_div[symmetric] by (rule bit_word_eqI) (auto simp: bit_drop_bit_eq bit_exp_iff)

section \<open>The fences of objects\<close>

text \<open>The three families of chips.\<close>

lemma chip_cases:
  assumes "fl \<in> set inteldrm_pciidlist"
  obtains (i965) "IS_I965G fl"
  | (i915) "\<not> IS_I965G fl" "\<not> IS_GEN6 fl" "\<not> IS_GEN7 fl" "IS_I9XX fl" "IS_GEN3 fl"
  | (i830) "\<not> IS_I965G fl" "\<not> IS_GEN6 fl" "\<not> IS_GEN7 fl" "\<not> IS_I9XX fl" "\<not> IS_GEN3 fl" "IS_GEN2 fl"
proof -
  have "list_all (\<lambda>fl. IS_I965G fl \<or>
      \<not> IS_GEN6 fl \<and> \<not> IS_GEN7 fl \<and> (IS_I9XX fl \<and> IS_GEN3 fl \<or> \<not> IS_I9XX fl \<and> \<not> IS_GEN3 fl \<and> IS_GEN2 fl)) inteldrm_pciidlist"
    by (simp add: inteldrm_pciidlist_def chip_tests chip_bits)
  then show ?thesis
    using assms that unfolding list_all_iff by blast
qed

text \<open>The size of an object as an \<^verbatim>\<open>int\<close>, and widened again.\<close>

lemma size_int:
  assumes "unat (sz :: u64) < 2 ^ 31"
  shows "sint (ucast sz :: u32) = int (unat sz)" "(scast (ucast sz :: u32) :: u64) = sz"
proof -
  have lim: "int (unat sz) < int (2 ^ 31)"
    using assms by (simp only: of_nat_less_iff)
  have pos: "- 2147483648 \<le> uint sz"
    by (rule order_trans[of _ 0]) simp_all
  have w: "(ucast sz :: u32) = word_of_int (int (unat sz))"
    by (metis of_int_of_nat_eq of_nat_unat)
  show s: "sint (ucast sz :: u32) = int (unat sz)"
    unfolding w by (rule sint_small) (use lim pos in simp_all)
  have "(scast (ucast sz :: u32) :: u64) = word_of_int (sint (ucast sz :: u32))"
    by (simp add: signed_scast_eq)
  then show "(scast (ucast sz :: u32) :: u64) = sz"
    unfolding s by simp
qed

lemma fence_size_pow2:
  assumes "pow2_loop sz (2 ^ s) = Some sz" "s < 64" "unat sz \<le> 2 ^ 63"
  obtains k where "s \<le> k" "k < 64" "sz = 2 ^ k"
proof -
  obtain k where k: "s \<le> k" "k < 64" "unat sz \<le> 2 ^ k" "k = s \<or> 2 ^ (k - 1) < unat sz"
    using pow2_exists[OF assms(3,2)] by blast
  then have "pow2_loop sz (2 ^ s) = Some (2 ^ k)"
    using pow2_loop_stops[OF k] by simp
  then show ?thesis
    using assms(1) k that by simp
qed

lemma if_OR: "(if c then v OR a else v) = v OR (if c then a else 0)" for v :: "'a::len word"
  by simp

lemma pitch_field:
  assumes "st AND (st - 1) = 0" "2 ^ t \<le> unat st" "unat st \<le> 2 ^ 13" "t = 7 \<or> t = 9"
  shows "unat (ffs32 (st div 2 ^ t) - 1) < 2 ^ 3" "push_bit (unat (ffs32 (st div 2 ^ t) - 1)) (2 ^ t) = (ucast st :: u64)"
proof -
  have "st \<noteq> 0"
    using assms(2) by auto
  then obtain k where k: "k < LENGTH(32)" "st = 2 ^ k" "unat st = 2 ^ k"
    using pow2_word[OF _ assms(1)] by blast
  have "t \<le> k" "k \<le> 13"
    using assms(2,3) unfolding k(3) by (simp_all only: power_increasing_iff one_less_numeral_iff semiring_norm)
  then have f: "ffs32 (st div 2 ^ t) - 1 = of_nat (k - t)" and small: "k - t < 8"
    using k power_div[of t k] ffs32_power[of "k - t"] assms(4) by auto
  have u: "unat (of_nat (k - t) :: u32) = k - t"
    using small by (simp add: unat_of_nat take_bit_nat_eq_self)
  show "unat (ffs32 (st div 2 ^ t) - 1) < 2 ^ 3"
    unfolding f u using small by simp
  have "(ucast st :: u64) = 2 ^ k"
    using k(1) unfolding k(2) by (intro bit_word_eqI) (auto simp: bit_unsigned_iff bit_exp_iff)
  then show "push_bit (unat (ffs32 (st div 2 ^ t) - 1)) (2 ^ t) = (ucast st :: u64)"
    unfolding f u using \<open>t \<le> k\<close> by (simp add: push_bit_eq_mult power_add[symmetric])
qed

lemma size_field:
  fixes sz :: u64
  assumes "2 ^ t \<le> unat sz" "unat sz \<le> 2 ^ (t + 8)" "sz = 2 ^ k" "k < 64" "t = 19 \<or> t = 20"
  shows "unat (ffs32 (ucast (drop_bit t sz)) - 1) < 2 ^ 4" "push_bit (t + unat (ffs32 (ucast (drop_bit t sz)) - 1)) 1 = sz"
proof -
  have k: "t \<le> k" "k \<le> t + 8"
    using assms(1,2) unfolding assms(3) unat_power_64[OF assms(4)] by (simp_all only: power_increasing_iff one_less_numeral_iff semiring_norm)
  have "(ucast (drop_bit t sz) :: u32) = 2 ^ (k - t)"
    using k assms(5) unfolding assms(3)
    by (intro bit_word_eqI) (auto simp: bit_unsigned_iff bit_drop_bit_eq bit_exp_iff)
  then have f: "ffs32 (ucast (drop_bit t sz)) - 1 = of_nat (k - t)"
    using ffs32_power[of "k - t"] k assms(5) by auto
  have u: "unat (of_nat (k - t) :: u32) = k - t"
    using k assms(5) by (intro trans[OF unat_of_nat] take_bit_nat_eq_self) auto
  show "unat (ffs32 (ucast (drop_bit t sz)) - 1) < 2 ^ 4"
    unfolding f u using k by simp
  show "push_bit (t + unat (ffs32 (ucast (drop_bit t sz)) - 1)) 1 = sz"
    unfolding f u using k assms(3) by simp
qed

text \<open>What the tests of an object guarantee.\<close>

definition tiled :: "u64 \<Rightarrow> fence_args \<Rightarrow> bool" where
  "tiled fl a \<longleftrightarrow>
     fa_tiling a \<in> {I915_TILING_X, I915_TILING_Y} \<and> 0 < sint (fa_stride a) \<and>
     i915_tiling_ok fl (fa_stride a) (fa_size a) (fa_tiling a) = Some True"

definition placed :: "u64 \<Rightarrow> fence_args \<Rightarrow> bool" where
  "placed fl a \<longleftrightarrow>
     0 < unat (fa_size a) \<and> unat (fa_size a) < 2 ^ 31 \<and> fa_offset a AND 4095 = 0 \<and> fa_size a AND 4095 = 0 \<and>
     unat (fa_offset a) + unat (fa_size a) \<le> 2 ^ 32 \<and>
     i915_gem_object_fence_offset_ok fl True (fa_offset a) (fa_size a) (fa_tiling a)"

lemma stride_unat:
  fixes st :: u32
  assumes "0 < sint st" "sint st \<le> 8192" "sint (tw :: u32) \<le> sint st" "sint tw = int (2 ^ t)"
  shows "2 ^ t \<le> unat st" "unat st \<le> 2 ^ 13"
proof -
  have "int (unat st) = sint st"
    by (rule unat_sint) (use assms(1) in simp)
  then have "int (2 ^ t) \<le> int (unat st)" "int (unat st) \<le> int (2 ^ 13)"
    using assms by simp_all
  then show "2 ^ t \<le> unat st" "unat st \<le> 2 ^ 13"
    by (simp_all only: of_nat_le_iff)
qed

lemma pow128: "(128 :: u32) = 2 ^ 7" "(128 :: u64) = 2 ^ 7"
  by simp_all

lemma write_830:
  assumes chip: "\<not> IS_I965G fl" "\<not> IS_GEN6 fl" "\<not> IS_GEN7 fl" "\<not> IS_I9XX fl" "\<not> IS_GEN3 fl" "IS_GEN2 fl" and a: "tiled fl a" "placed fl a"
  shows "fence_seen fl n (write_fence_reg fl n a m) =
    Some \<lparr>fr_start = fa_offset a, fr_end = fa_offset a + fa_size a, fr_pitch = ucast (fa_stride a), fr_y = (fa_tiling a = I915_TILING_Y)\<rparr>"
proof -
  have mode: "fa_tiling a \<noteq> I915_TILING_NONE" and pos: "0 < sint (fa_stride a)"
    using a(1) by (auto simp: tiled_def I915_TILING_NONE_def I915_TILING_X_def I915_TILING_Y_def)
  have sz31: "unat (fa_size a) < 2 ^ 31"
    using a(2) by (simp add: placed_def)
  note S = size_int[OF sz31]
  have ok: "sint (fa_stride a) \<le> 8192" "int (unat (fa_size a)) \<le> 2 ^ 27" "sint (128 :: u32) \<le> sint (fa_stride a)"
    "fa_stride a AND (fa_stride a - 1) = 0" "pow2_loop (fa_size a) (512 * 1024) = Some (fa_size a)"
    using a(1) chip mode S
    by (auto simp: tiled_def i915_tiling_ok_def Let_def I830_FENCE_MAX_SIZE_VAL_def i915_get_fence_size_def split: if_splits)
  have off: "fa_offset a AND NOT I830_FENCE_START_MASK = 0" "fa_offset a AND (fa_size a - 1) = 0"
    using a(2) chip mode by (auto simp: placed_def i915_gem_object_fence_offset_ok_def split: if_splits)
  obtain k where k: "19 \<le> k" "k < 64" "fa_size a = 2 ^ k"
    using fence_size_pow2[of "fa_size a" 19] ok(5) sz31 by auto
  have "int (unat (fa_size a)) \<le> int (2 ^ (19 + 8))"
    using ok(2) by simp
  then have hi: "unat (fa_size a) \<le> 2 ^ (19 + 8)"
    by (simp only: of_nat_le_iff)
  have lo: "2 ^ 19 \<le> unat (fa_size a)"
    using power_increasing[OF k(1), of "2 :: nat"] unat_power_64[OF k(2)] unfolding k(3) by simp
  note F = size_field[OF lo hi k(3,2) disjI1[OF refl]]
  note st = stride_unat[OF pos ok(1,3), of 7]
  have "2 ^ 7 \<le> unat (fa_stride a)" "unat (fa_stride a) \<le> 2 ^ 13"
    using st by simp_all
  note P = pitch_field[OF ok(4) this disjI1[OF refl]]
  show ?thesis
    using chip off fence_pow2_fields[OF start_masks(2) _ _ off(1) F(1) P(1), of 19 "\<lambda>y. 128" "fa_tiling a = I915_TILING_Y"] F(2) P(2)
    unfolding fence_seen_def write_fence_reg_def i830_write_fence_reg_def Let_def if_OR I830_FENCE_SIZE_BITS_def I915_WRITE_def pow128
    by (cases "fa_tiling a = I915_TILING_Y") simp_all
qed

lemma pow512: "(512 :: u32) = 2 ^ 9" "(512 :: u64) = 2 ^ 9"
  by simp_all

lemma write_915:
  assumes chip: "\<not> IS_I965G fl" "\<not> IS_GEN6 fl" "\<not> IS_GEN7 fl" "IS_I9XX fl" "IS_GEN3 fl" and a: "tiled fl a" "placed fl a"
  shows "fence_seen fl n (write_fence_reg fl n a m) =
    Some \<lparr>fr_start = fa_offset a, fr_end = fa_offset a + fa_size a, fr_pitch = ucast (fa_stride a), fr_y = (fa_tiling a = I915_TILING_Y)\<rparr>"
proof -
  let ?y = "fa_tiling a = I915_TILING_Y \<and> HAS_128_BYTE_Y_TILING fl"
  define t where "t = (if ?y then 7 else 9 :: nat)"
  have t: "t = 7 \<or> t = 9" and tw: "(if ?y then 128 else 512) = (2 ^ t :: u32)" "(if ?y then 128 else 512) = (2 ^ t :: u64)"
    by (simp_all add: t_def)
  have mode: "fa_tiling a \<noteq> I915_TILING_NONE" and pos: "0 < sint (fa_stride a)"
    using a(1) by (auto simp: tiled_def I915_TILING_NONE_def I915_TILING_X_def I915_TILING_Y_def)
  have sz31: "unat (fa_size a) < 2 ^ 31"
    using a(2) by (simp add: placed_def)
  note S = size_int[OF sz31]
  have ok: "sint (fa_stride a) \<le> 8192" "int (unat (fa_size a)) \<le> 2 ^ 28" "sint (2 ^ t :: u32) \<le> sint (fa_stride a)"
    "fa_stride a AND (fa_stride a - 1) = 0" "pow2_loop (fa_size a) (1024 * 1024) = Some (fa_size a)"
    using a(1) chip mode S
    by (auto simp: tiled_def i915_tiling_ok_def Let_def I830_FENCE_MAX_SIZE_VAL_def i915_get_fence_size_def t_def split: if_splits)
  have off: "fa_offset a AND NOT I915_FENCE_START_MASK = 0" "fa_offset a AND (fa_size a - 1) = 0"
    using a(2) chip mode by (auto simp: placed_def i915_gem_object_fence_offset_ok_def split: if_splits)
  obtain k where k: "20 \<le> k" "k < 64" "fa_size a = 2 ^ k"
    using fence_size_pow2[of "fa_size a" 20] ok(5) sz31 by auto
  have "int (unat (fa_size a)) \<le> int (2 ^ (20 + 8))"
    using ok(2) by simp
  then have hi: "unat (fa_size a) \<le> 2 ^ (20 + 8)"
    by (simp only: of_nat_le_iff)
  have lo: "2 ^ 20 \<le> unat (fa_size a)"
    using power_increasing[OF k(1), of "2 :: nat"] unat_power_64[OF k(2)] unfolding k(3) by simp
  note F = size_field[OF lo hi k(3,2) disjI2[OF refl]]
  have "sint (2 ^ t :: u32) = int (2 ^ t)"
    using t by auto
  note st = stride_unat[OF pos ok(1,3) this]
  note P = pitch_field[OF ok(4) st t]
  have y: "(if fa_tiling a = I915_TILING_Y then 2 ^ I830_FENCE_TILING_Y_SHIFT else 0) =
      (if fa_tiling a = I915_TILING_Y then push_bit I830_FENCE_TILING_Y_SHIFT 1 else 0 :: u32)"
    by simp
  show ?thesis
    using chip off fence_pow2_fields[OF start_masks(1) _ _ off(1) F(1) P(1), of 20
        "\<lambda>y. if y \<and> HAS_128_BYTE_Y_TILING fl then 128 else 512" "fa_tiling a = I915_TILING_Y"] F(2) P(2) tw(2)
    unfolding fence_seen_def write_fence_reg_def i915_write_fence_reg_def Let_def if_OR I915_FENCE_SIZE_BITS_def I915_WRITE_def tw(1)
    by (cases "fa_tiling a = I915_TILING_Y") simp_all
qed

lemma page_aligned: "w AND 4095 = 0 \<Longrightarrow> unat (w :: u64) < 2 ^ 32 \<Longrightarrow> w AND page_bits = w"
proof (rule bit_word_eqI)
  fix n
  assume w: "w AND 4095 = 0" "unat w < 2 ^ 32"
  have "(4095 :: u64) = mask 12"
    by (simp add: mask_eq_exp_minus_1)
  then have "\<not> (bit w n \<and> n < 12)"
    using w(1) by (metis bit_0_eq bit_and_iff bit_imp_le_length bit_mask_iff bot_apply bot_bool_def possible_bit_word)
  then show "bit (w AND page_bits) n = bit w n"
    using bit_small[OF w(2)] by (auto simp: bit_and_iff bit_page_bits)
qed

lemma mask_4095: "(4095 :: u64) = mask 12" "(127 :: u32) = mask 7" "(511 :: u32) = mask 9"
  by (simp_all add: mask_eq_exp_minus_1)

lemma end_aligned:
  fixes off sz :: u64
  assumes "off AND 4095 = 0" "sz AND 4095 = 0" "0 < unat sz" "unat off + unat sz \<le> 2 ^ 32"
  shows "((off + sz - 4096) AND page_bits) + 4096 = off + sz"
proof -
  have d: "2 ^ 12 dvd unat off" "2 ^ 12 dvd unat sz"
    using assms(1,2) unfolding mask_4095 and_mask_dvd_nat .
  then have ge: "4096 \<le> unat sz"
    using assms(3) by (auto dest: dvd_imp_le)
  have "unat (off + sz) = unat off + unat sz"
    using assms(4) by (intro unat_add_lem[THEN iffD1]) simp
  then have u: "unat (off + sz - 4096) = unat off + (unat sz - 4096)"
    using ge by (subst unat_sub) (simp_all add: word_le_nat_alt)
  have "2 ^ 12 dvd unat (off + sz - 4096)"
    unfolding u using d ge by (intro dvd_add dvd_diff_nat) simp_all
  then have "(off + sz - 4096) AND page_bits = off + sz - 4096"
    unfolding and_mask_dvd_nat by (intro page_aligned) (use u ge assms(4) in \<open>simp_all add: mask_4095\<close>)
  then show ?thesis
    by simp
qed

lemma pitch_965:
  fixes st :: u32
  assumes "0 < sint st" "\<not> sint st sdiv 128 > 0x400" "2 ^ 7 dvd unat st"
  shows "unat (st div 128 - 1) < 2 ^ 10" "(128 :: u64) * (ucast (st div 128 - 1) + 1) = ucast st"
proof -
  have i: "int (unat st) = sint st"
    by (rule unat_sint) (use assms(1) in simp)
  obtain q where q: "unat st = 128 * q"
    using assms(3) by auto
  have "int (unat st) div 128 \<le> 1024"
    using assms(1,2) unfolding i by (simp add: signed_divide_int_def)
  then have "q \<le> 1024"
    unfolding q by simp
  moreover have "1 \<le> q"
    using assms(1) i q by (cases q) auto
  moreover have "unat (st div 128) = q"
    by (simp add: unat_div q)
  ultimately have u: "unat (st div 128 - 1) = q - 1" and q1: "1 \<le> q" "q \<le> 1024"
    by (auto simp: unat_sub word_le_nat_alt)
  then show "unat (st div 128 - 1) < 2 ^ 10"
    by simp
  have "(ucast st :: u64) = of_nat (128 * q)" "(ucast (st div 128 - 1) :: u64) = of_nat (q - 1)"
    using q u by (metis of_nat_unat)+
  then show "(128 :: u64) * (ucast (st div 128 - 1) + 1) = ucast st"
    using q1 by (simp add: of_nat_diff algebra_simps)
qed

lemma ucast_shift: "unat (w :: u32) < 2 ^ 10 \<Longrightarrow> (ucast (push_bit 2 w) :: u64) = push_bit 2 (ucast w)"
proof (rule bit_word_eqI)
  fix n
  assume "unat w < 2 ^ 10"
  then show "bit (ucast (push_bit 2 w) :: u64) n = bit (push_bit 2 (ucast w) :: u64) n"
    using bit_small[of w 10 "n - 2"] by (auto simp: bit_unsigned_iff bit_push_bit_iff)
qed

lemma write_965:
  assumes chip: "IS_I965G fl" and a: "tiled fl a" "placed fl a"
  shows "fence_seen fl n (write_fence_reg fl n a m) =
    Some \<lparr>fr_start = fa_offset a, fr_end = fa_offset a + fa_size a, fr_pitch = ucast (fa_stride a), fr_y = (fa_tiling a = I915_TILING_Y)\<rparr>"
proof -
  have mode: "fa_tiling a \<noteq> I915_TILING_NONE" and pos: "0 < sint (fa_stride a)"
    using a(1) by (auto simp: tiled_def I915_TILING_NONE_def I915_TILING_X_def I915_TILING_Y_def)
  have "\<not> sint (fa_stride a) sdiv 128 > 0x400" "fa_stride a AND mask 7 = 0 \<or> fa_stride a AND mask 9 = 0"
    using a(1) chip mode
    by (auto simp: tiled_def i915_tiling_ok_def Let_def I965_FENCE_MAX_PITCH_VAL_def mask_4095[symmetric] split: if_splits)
  moreover then have "2 ^ 7 dvd unat (fa_stride a)"
    unfolding and_mask_dvd_nat[symmetric] using dvd_trans[of "2 ^ 7" "2 ^ 9 :: nat"] by auto
  ultimately have P: "unat (fa_stride a div 128 - 1) < 2 ^ 10" "(128 :: u64) * (ucast (fa_stride a div 128 - 1) + 1) = ucast (fa_stride a)"
    using pitch_965[OF pos] by blast+
  then have P': "unat (ucast (fa_stride a div 128 - 1) :: u64) < 2 ^ 10"
    by (simp add: unat_ucast_64)
  have pl: "fa_offset a AND 4095 = 0" "fa_size a AND 4095 = 0" "0 < unat (fa_size a)" "unat (fa_offset a) + unat (fa_size a) \<le> 2 ^ 32"
    using a(2) by (simp_all add: placed_def)
  have start: "fa_offset a AND page_bits = fa_offset a"
    using pl by (intro page_aligned) simp_all
  have F: "fence_965 sh (((((push_bit 32 ((fa_offset a + fa_size a - 4096) AND page_bits)) OR (fa_offset a AND page_bits)) OR
         push_bit sh (ucast (fa_stride a div 128 - 1))) OR
         (if fa_tiling a = I915_TILING_Y then push_bit I965_FENCE_TILING_Y_SHIFT 1 else 0)) OR I965_FENCE_REG_VALID) =
      Some \<lparr>fr_start = fa_offset a, fr_end = fa_offset a + fa_size a, fr_pitch = ucast (fa_stride a), fr_y = (fa_tiling a = I915_TILING_Y)\<rparr>"
    if "sh = 2 \<or> sh = 32" for sh
    by (subst fence_965_fields[OF P' that]) (simp only: start end_aligned[OF pl] P(2))
  show ?thesis
    unfolding fence_seen_def write_fence_reg_def sandybridge_write_fence_reg_def i965_write_fence_reg_def Let_def
      if_OR read64_write64 page_mask ucast_shift[OF P(1)] I965_FENCE_PITCH_SHIFT_def SANDYBRIDGE_FENCE_PITCH_SHIFT_def
    using chip F[OF disjI1[OF refl]] F[OF disjI2[OF refl]]
    by (cases "fa_tiling a = I915_TILING_Y"; cases "IS_GEN6 fl \<or> IS_GEN7 fl") (simp_all only: if_True if_False simp_thms read64_write64 or.right_neutral)
qed

text \<open>
  C33: On every chip the driver knows, an object whose stride, size and tiling mode pass
  \<^verbatim>\<open>i915_tiling_ok\<close> with a positive stride, and which lies where \<^verbatim>\<open>i915_gem_object_fence_offset_ok\<close> wants it,
  page aligned and below 4 GB, gets a fence register that describes exactly this object: its first
  and last byte, its stride and its tiling mode.
\<close>

theorem fence_describes_object:
  assumes "fl \<in> set inteldrm_pciidlist" "tiled fl a" "placed fl a"
  shows "fence_seen fl n (write_fence_reg fl n a m) =
    Some \<lparr>fr_start = fa_offset a, fr_end = fa_offset a + fa_size a, fr_pitch = ucast (fa_stride a),
          fr_y = (fa_tiling a = I915_TILING_Y)\<rparr>"
  using assms(1)
proof (cases rule: chip_cases)
  case i965
  then show ?thesis
    using assms(2,3) by (rule write_965)
next
  case i915
  then show ?thesis
    using assms(2,3) by (rule write_915)
next
  case i830
  then show ?thesis
    using assms(2,3) by (rule write_830)
qed

lemma pow2_loop_done: "pow2_loop sz sz = Some sz"
  by (subst pow2_loop.simps) simp

theorem fence_describes_object_witness:
  "let fl = CHIP_I945G OR CHIP_I9XX OR CHIP_GEN3;
       a = \<lparr>fa_offset = 0x200000, fa_size = 0x100000, fa_stride = 1024, fa_tiling = I915_TILING_Y\<rparr>
   in fence_seen fl 9 (write_fence_reg fl 9 a (\<lambda>_. 0)) =
      Some \<lparr>fr_start = 0x200000, fr_end = 0x300000, fr_pitch = 1024, fr_y = True\<rparr>"
proof -
  let ?fl = "CHIP_I945G OR CHIP_I9XX OR CHIP_GEN3"
  let ?a = "\<lparr>fa_offset = 0x200000, fa_size = 0x100000, fa_stride = 1024, fa_tiling = I915_TILING_Y\<rparr>"
  have "?fl \<in> set inteldrm_pciidlist"
    by (simp add: inteldrm_pciidlist_def)
  moreover have "tiled ?fl ?a"
    using pow2_loop_done[of "0x100000"]
    by (simp add: tiled_def i915_tiling_ok_def I915_TILING_Y_def I915_TILING_NONE_def chip_tests chip_bits
        I830_FENCE_MAX_SIZE_VAL_def i915_get_fence_size_def Let_def)
  moreover have "placed ?fl ?a"
    by (simp add: placed_def i915_gem_object_fence_offset_ok_def I915_TILING_Y_def I915_TILING_NONE_def chip_tests
        chip_bits I915_FENCE_START_MASK_def)
  ultimately show ?thesis
    using fence_describes_object[where fl = ?fl and a = ?a and n = 9 and m = "\<lambda>_. 0"] by simp
qed

text \<open>
  C34: Taking the fence away clears its register on every chip up to Ironlake, and leaves it as it was on
  Sandy Bridge and Ivy Bridge, whose registers are elsewhere: the GPU goes on treating the range as tiled.
\<close>

theorem clear_fence_reg_effect:
  assumes "fl \<in> set inteldrm_pciidlist" "n < (if IS_GEN2 fl then 8 else 16)"
  shows "fence_seen fl n (clear_fence_reg fl n m) = (if IS_GEN6 fl \<or> IS_GEN7 fl then fence_seen fl n m else None)"
proof -
  have gen6: "IS_I965G fl" if "IS_GEN6 fl \<or> IS_GEN7 fl"
    using assms(1) that by (cases rule: chip_cases) auto
  have n: "n < 16"
    using assms(2) by (auto split: if_splits)
  then have apart: "FENCE_REG_965_0 + of_nat (n * 8) + x \<noteq> FENCE_REG_SANDYBRIDGE_0 + of_nat (n * 8) + y" if "x \<in> {0, 4}" "y \<in> {0, 4}" for x y
    using that by (auto simp: FENCE_REG_965_0_def FENCE_REG_SANDYBRIDGE_0_def)
  show ?thesis
  proof (cases "IS_GEN6 fl \<or> IS_GEN7 fl")
    case True
    then have "read64 (FENCE_REG_SANDYBRIDGE_0 + of_nat (n * 8)) (clear_fence_reg fl n m) =
        read64 (FENCE_REG_SANDYBRIDGE_0 + of_nat (n * 8)) m"
      using apart[of 0 0] apart[of 0 4] apart[of 4 0] apart[of 4 4] gen6
      by (simp add: clear_fence_reg_def read64_def write64_def I915_WRITE_def)
    then show ?thesis
      using True by (simp add: fence_seen_def)
  next
    case False
    show ?thesis
      using assms(1)
    proof (cases rule: chip_cases)
      case i965
      then show ?thesis
        using False by (simp add: fence_seen_def clear_fence_reg_def read64_write64 fence_965_def)
    next
      case i915
      then show ?thesis
        by (simp add: fence_seen_def clear_fence_reg_def I915_WRITE_def fence_pow2_def Let_def)
    next
      case i830
      then show ?thesis
        using assms(2) by (simp add: fence_seen_def clear_fence_reg_def I915_WRITE_def fence_pow2_def Let_def fence_reg_32_def)
    qed
  qed
qed

theorem clear_fence_reg_effect_witness:
  "fence_seen (CHIP_IVYBRIDGE OR CHIP_I965 OR CHIP_I9XX OR CHIP_HWS OR CHIP_GEN7) 15 (clear_fence_reg (CHIP_IVYBRIDGE OR CHIP_I965 OR CHIP_I9XX OR CHIP_HWS OR CHIP_GEN7) 15 (\<lambda>_. 0x1001))
     = Some \<lparr>fr_start = 0x1000, fr_end = 0x2000, fr_pitch = 256, fr_y = False\<rparr>"
proof -
  let ?fl = "CHIP_IVYBRIDGE OR CHIP_I965 OR CHIP_I9XX OR CHIP_HWS OR CHIP_GEN7"
  have "?fl \<in> set inteldrm_pciidlist"
    by (simp add: inteldrm_pciidlist_def)
  moreover have "fence_seen ?fl 15 (\<lambda>_. 0x1001) = Some \<lparr>fr_start = 0x1000, fr_end = 0x2000, fr_pitch = 256, fr_y = False\<rparr>"
    by (simp add: fence_seen_def chip_tests chip_bits fence_965_def read64_def I965_FENCE_REG_VALID_def SANDYBRIDGE_FENCE_PITCH_SHIFT_def
        I965_FENCE_TILING_Y_SHIFT_def mask_eq_exp_minus_1)
  ultimately show ?thesis
    using clear_fence_reg_effect[of ?fl 15 "\<lambda>_. 0x1001"] by (simp add: chip_tests chip_bits)
qed

text \<open>
  A stride of 2 GB or more is a negative \<^verbatim>\<open>int\<close>, passes, and spills over the ten bits of the pitch into
  the address: the register describes another range.
\<close>

lemma negative_stride_moves_fence:
  assumes "IS_I965G fl" "\<not> IS_GEN6 fl" "\<not> IS_GEN7 fl" "fa_tiling a \<noteq> I915_TILING_NONE" "fa_stride a = 0x80000000"
  shows "i915_tiling_ok fl (fa_stride a) (fa_size a) (fa_tiling a) = Some True \<and>
    map_option fr_start (fence_seen fl n (write_fence_reg fl n a m)) = Some ((fa_offset a OR 0x3fff000) AND 0xfffff000)"
proof
  let ?X = "push_bit 32 ((fa_offset a + fa_size a - 4096) AND 0xfffff000) :: u64"
  show "i915_tiling_ok fl (fa_stride a) (fa_size a) (fa_tiling a) = Some True"
    using assms by (simp add: i915_tiling_ok_def Let_def signed_divide_int_def I965_FENCE_MAX_PITCH_VAL_def)
  have pitch: "(ucast (push_bit 2 (fa_stride a div 128 - 1)) :: u64) = 0x3fffffc"
    unfolding assms(5) by simp
  have X: "?X AND 0xfffff000 = 0"
    unfolding page_mask by (rule bit_word_eqI) (auto simp: bit_and_iff bit_page_bits bit_push_bit_iff)
  have y: "(if c then push_bit 1 1 else 0) AND 0xfffff000 = (0 :: u64)" for c
    by simp
  let ?v = "((((?X OR (fa_offset a AND 0xfffff000)) OR 0x3fffffc) OR (if fa_tiling a = I915_TILING_Y then push_bit 1 1 else 0)) OR 1) :: u64"
  have "?v AND 0xfffff000 = (fa_offset a OR 0x3fff000) AND 0xfffff000"
    unfolding bit.conj_disj_distrib2 X y by (simp add: and.assoc)
  moreover have "?v AND I965_FENCE_REG_VALID \<noteq> 0"
    by (rule valid_bit) (simp add: bit_or_iff del: push_bit_of_1)
  moreover have "fence_seen fl n (write_fence_reg fl n a m) = fence_965 2 ?v"
    using assms(1,2,3) pitch
    unfolding fence_seen_def write_fence_reg_def i965_write_fence_reg_def Let_def if_OR I965_FENCE_PITCH_SHIFT_def
      I965_FENCE_TILING_Y_SHIFT_def I965_FENCE_REG_VALID_def
    by (cases "fa_tiling a = I915_TILING_Y") (simp_all only: read64_write64 if_True if_False simp_thms or.right_neutral)
  ultimately show "map_option fr_start (fence_seen fl n (write_fence_reg fl n a m)) = Some ((fa_offset a OR 0x3fff000) AND 0xfffff000)"
    by (simp only: fence_965_def if_True not_False_eq_True option.map fence_range.simps)
qed

text \<open>The size of a fence is the next power of two; from \<open>2 ^ 63\<close> on the search for it never ends.\<close>

lemma fence_size_spec:
  assumes "\<not> IS_I965G fl"
  shows "case i915_get_fence_size fl sz of
      Some fs \<Rightarrow> unat sz \<le> 2 ^ 63 \<and> (\<exists>k. fs = 2 ^ k \<and> k < 64 \<and> (if IS_I9XX fl then 20 else 19) \<le> k \<and> sz \<le> fs \<and>
        (k = (if IS_I9XX fl then 20 else 19) \<or> 2 ^ (k - 1) < sz))
    | None \<Rightarrow> 2 ^ 63 < unat sz"
proof -
  define s where "s = (if IS_I9XX fl then 20 else 19 :: nat)"
  have s: "s < 64" and def: "i915_get_fence_size fl sz = pow2_loop sz (push_bit s 1)"
    using assms by (auto simp: i915_get_fence_size_def s_def)
  show ?thesis
  proof (cases "unat sz \<le> 2 ^ 63")
    case True
    obtain k where k: "s \<le> k" "k < 64" "unat sz \<le> 2 ^ k" "k = s \<or> 2 ^ (k - 1) < unat sz"
      using pow2_exists[OF True s] by blast
    have "sz \<le> 2 ^ k" "k = s \<or> 2 ^ (k - 1) < sz"
      using k unat_power_64[of k] unat_power_64[of "k - 1"] by (auto simp: word_le_nat_alt word_less_nat_alt)
    then show ?thesis
      using True k pow2_loop_stops[OF k] def by (auto simp: s_def[symmetric])
  next
    case False
    then show ?thesis
      using pow2_loop_endless[of sz s] s def by simp
  qed
qed

end
