(* ===== verification/I915_Swizzle.thy ===== *)
theory I915_Swizzle
  imports I915_Fence Drm_Atomic Drm_Bufs
begin

text \<open>
  Swizzling in \<^verbatim>\<open>i915_drv.c\<close>: how memory channels interleave, and what keeps a tiled object intact when
  the interleaving depends on bit 17 of a page's physical address and the page comes back from swap
  at another address. Shown: the GPU sees the object as it was.
\<close>

section \<open>Detection\<close>

definition I915_BIT_6_SWIZZLE_NONE :: u32 where "I915_BIT_6_SWIZZLE_NONE = 0"
definition I915_BIT_6_SWIZZLE_9 :: u32 where "I915_BIT_6_SWIZZLE_9 = 1"
definition I915_BIT_6_SWIZZLE_9_10 :: u32 where "I915_BIT_6_SWIZZLE_9_10 = 2"
definition I915_BIT_6_SWIZZLE_9_11 :: u32 where "I915_BIT_6_SWIZZLE_9_11 = 3"
definition I915_BIT_6_SWIZZLE_9_10_11 :: u32 where "I915_BIT_6_SWIZZLE_9_10_11 = 4"
definition I915_BIT_6_SWIZZLE_UNKNOWN :: u32 where "I915_BIT_6_SWIZZLE_UNKNOWN = 5"
definition I915_BIT_6_SWIZZLE_9_17 :: u32 where "I915_BIT_6_SWIZZLE_9_17 = 6"
definition I915_BIT_6_SWIZZLE_9_10_17 :: u32 where "I915_BIT_6_SWIZZLE_9_10_17 = 7"

definition DCC_ADDRESSING_MODE_SINGLE_CHANNEL :: u32 where "DCC_ADDRESSING_MODE_SINGLE_CHANNEL = 0"
definition DCC_ADDRESSING_MODE_DUAL_CHANNEL_ASYMMETRIC :: u32 where "DCC_ADDRESSING_MODE_DUAL_CHANNEL_ASYMMETRIC = 1"
definition DCC_ADDRESSING_MODE_DUAL_CHANNEL_INTERLEAVED :: u32 where "DCC_ADDRESSING_MODE_DUAL_CHANNEL_INTERLEAVED = 2"
definition DCC_ADDRESSING_MODE_MASK :: u32 where "DCC_ADDRESSING_MODE_MASK = 3"
definition DCC_CHANNEL_XOR_DISABLE :: u32 where "DCC_CHANNEL_XOR_DISABLE = push_bit 10 1"
definition DCC_CHANNEL_XOR_BIT_17 :: u32 where "DCC_CHANNEL_XOR_BIT_17 = push_bit 9 1"

text \<open>
  \<open>dcc\<close>, \<open>drb0\<close> and \<open>drb1\<close> are what the registers \<^verbatim>\<open>DCC\<close>, \<^verbatim>\<open>C0DRB3\<close> and \<^verbatim>\<open>C1DRB3\<close> hold; that MCHBAR is enabled
  for the reading is not modelled. The answer is the swizzling of X and of Y tiling.
\<close>

definition inteldrm_detect_bit_6_swizzle :: "u64 \<Rightarrow> u32 \<Rightarrow> u16 \<Rightarrow> u16 \<Rightarrow> u32 \<times> u32" where
  "inteldrm_detect_bit_6_swizzle fl dcc drb0 drb1 =
     (if \<not> IS_I9XX fl then (I915_BIT_6_SWIZZLE_NONE, I915_BIT_6_SWIZZLE_NONE)
      else if HAS_PCH_SPLIT fl then (I915_BIT_6_SWIZZLE_9_10, I915_BIT_6_SWIZZLE_9)
      else if IS_MOBILE fl
      then let mode = dcc AND DCC_ADDRESSING_MODE_MASK;
               sw = (if mode = DCC_ADDRESSING_MODE_SINGLE_CHANNEL \<or> mode = DCC_ADDRESSING_MODE_DUAL_CHANNEL_ASYMMETRIC
                     then (I915_BIT_6_SWIZZLE_NONE, I915_BIT_6_SWIZZLE_NONE)
                     else if mode = DCC_ADDRESSING_MODE_DUAL_CHANNEL_INTERLEAVED
                     then if dcc AND DCC_CHANNEL_XOR_DISABLE \<noteq> 0 then (I915_BIT_6_SWIZZLE_9_10, I915_BIT_6_SWIZZLE_9)
                          else if dcc AND DCC_CHANNEL_XOR_BIT_17 = 0 then (I915_BIT_6_SWIZZLE_9_10_11, I915_BIT_6_SWIZZLE_9_11)
                          else (I915_BIT_6_SWIZZLE_9_10_17, I915_BIT_6_SWIZZLE_9_17)
                     else (I915_BIT_6_SWIZZLE_UNKNOWN, I915_BIT_6_SWIZZLE_UNKNOWN))
           in if dcc = 0xffffffff then (I915_BIT_6_SWIZZLE_UNKNOWN, I915_BIT_6_SWIZZLE_UNKNOWN) else sw
      else if drb0 \<noteq> drb1 then (I915_BIT_6_SWIZZLE_NONE, I915_BIT_6_SWIZZLE_NONE)
      else (I915_BIT_6_SWIZZLE_9_10, I915_BIT_6_SWIZZLE_9))"

section \<open>Pages\<close>

text \<open>\<^verbatim>\<open>for (i = 0; i < PAGE_SIZE; i += 128)\<close>: the halves of each 128 bytes are exchanged.\<close>

function swizzle_loop :: "nat \<Rightarrow> u8 list \<Rightarrow> u8 list" where
  "swizzle_loop i vaddr =
     (if i < PAGE_SIZE
      then let temp = take 64 (drop i vaddr);
               vaddr = overwrite i (take 64 (drop (i + 64) vaddr)) vaddr;
               vaddr = overwrite (i + 64) temp vaddr
           in swizzle_loop (i + 128) vaddr
      else vaddr)"
  by pat_completeness auto
termination by (relation "measure (\<lambda>(i, v). PAGE_SIZE - i)") auto

declare swizzle_loop.simps [simp del]

text \<open>\<open>va\<close> tells whether there is kernel address space to map the page.\<close>

definition inteldrm_swizzle_page :: "bool \<Rightarrow> u8 list \<Rightarrow> errno \<times> u8 list" where
  "inteldrm_swizzle_page va pg = (if \<not> va then (ENOMEM, pg) else (E_OK, swizzle_loop 0 pg))"

text \<open>Physical memory by the address of the page, and the number of pages of an object, an \<^verbatim>\<open>int\<close>.\<close>

type_synonym phys = "u64 \<Rightarrow> u8 list"

definition page_count :: "u64 \<Rightarrow> nat" where
  "page_count osize = nat (sint (ucast (drop_bit PAGE_SHIFT osize) :: u32))"

text \<open>
  The loops over the pages: \<open>c\<close> pages are left, \<open>i\<close> is the number of the next one, \<open>n\<close> its offset in the
  first of \<open>segs\<close>, an \<^verbatim>\<open>int\<close> (no segment reaches 2 GB). \<open>vm\<close> tells whether an address has a
  \<^verbatim>\<open>vm_page\<close>.
\<close>

fun swizzle_pages ::
  "(u64 \<Rightarrow> bool) \<Rightarrow> (u64 \<Rightarrow> bool) \<Rightarrow> u32 list \<Rightarrow> nat \<Rightarrow> nat \<Rightarrow> u64 \<Rightarrow> dma_seg list \<Rightarrow> phys \<Rightarrow> phys outcome" where
  "swizzle_pages vm va bit_17 0 i n segs ph = Ret ph"
| "swizzle_pages vm va bit_17 (Suc c) i n [] ph = Panic"
| "swizzle_pages vm va bit_17 (Suc c) i n ((ds_addr, ds_len) # segs) ph =
     (let a = ds_addr + n;
          goon = (\<lambda>ph. let n = n + of_nat PAGE_SIZE
                       in if n \<ge> ds_len then swizzle_pages vm va bit_17 c (Suc i) 0 segs ph
                          else swizzle_pages vm va bit_17 c (Suc i) n ((ds_addr, ds_len) # segs) ph)
      in if bit a 17 \<noteq> test_bit_arr i bit_17
         then if \<not> vm a then Panic
              else let (ret, pg) = inteldrm_swizzle_page (va a) (ph a)
                   in if ret \<noteq> E_OK then Ret ph else goon (ph(a := pg))
         else goon ph)"

definition i915_gem_bit_17_swizzle ::
  "(u64 \<Rightarrow> bool) \<Rightarrow> (u64 \<Rightarrow> bool) \<Rightarrow> u32 \<Rightarrow> u64 \<Rightarrow> dma_seg list \<Rightarrow> u32 list option \<Rightarrow> phys \<Rightarrow> phys outcome" where
  "i915_gem_bit_17_swizzle vm va bit_6_swizzle_x osize segs bit_17 ph =
     (case bit_17 of
        None \<Rightarrow> Ret ph
      | Some bits \<Rightarrow> if bit_6_swizzle_x \<noteq> I915_BIT_6_SWIZZLE_9_10_17 then Ret ph
                     else swizzle_pages vm va bits (page_count osize) 0 0 segs ph)"

fun save_pages :: "nat \<Rightarrow> nat \<Rightarrow> u64 \<Rightarrow> dma_seg list \<Rightarrow> u32 list \<Rightarrow> u32 list outcome" where
  "save_pages 0 i n segs bit_17 = Ret bit_17"
| "save_pages (Suc c) i n [] bit_17 = Panic"
| "save_pages (Suc c) i n ((ds_addr, ds_len) # segs) bit_17 =
     (let bit_17 = (if (ds_addr + n) AND push_bit 17 1 \<noteq> 0 then set_bit_arr i bit_17 else clear_bit i bit_17);
          n = n + of_nat PAGE_SIZE
      in if n \<ge> ds_len then save_pages c (Suc i) 0 segs bit_17
         else save_pages c (Suc i) n ((ds_addr, ds_len) # segs) bit_17)"

text \<open>\<open>alloc\<close> is \<^verbatim>\<open>drm_alloc\<close>: an array of as many words, if there is memory.\<close>

definition i915_gem_save_bit_17_swizzle ::
  "(nat \<Rightarrow> u32 list option) \<Rightarrow> u32 \<Rightarrow> u64 \<Rightarrow> dma_seg list \<Rightarrow> u32 list option \<Rightarrow> u32 list option outcome" where
  "i915_gem_save_bit_17_swizzle alloc bit_6_swizzle_x osize segs bit_17 =
     (if bit_6_swizzle_x \<noteq> I915_BIT_6_SWIZZLE_9_10_17 then Ret bit_17
      else let nb17 = (page_count osize + 31) div 32
           in case (case bit_17 of None \<Rightarrow> alloc nb17 | Some bits \<Rightarrow> Some bits) of
                None \<Rightarrow> Ret None
              | Some bits \<Rightarrow> obind (save_pages (page_count osize) 0 0 segs bits) (\<lambda>bits. Ret (Some bits)))"

section \<open>What the GPU sees\<close>

text \<open>The byte of the other half of the same 128 bytes.\<close>

definition flip6 :: "nat \<Rightarrow> nat" where
  "flip6 k = (if even (k div 64) then k + 64 else k - 64)"

definition swapped :: "u8 list \<Rightarrow> u8 list" where
  "swapped pg = map (\<lambda>k. pg ! flip6 k) [0..<length pg]"

text \<open>Bit 17 of its address makes the memory controller flip bit 6 within the page.\<close>

definition gpu_page :: "u64 \<Rightarrow> u8 list \<Rightarrow> u8 list" where
  "gpu_page a pg = (if bit a 17 then swapped pg else pg)"

lemma flip6_less:
  assumes "k < 128 * b"
  shows "flip6 k < 128 * b"
proof (cases "even (k div 64)")
  case True
  then obtain c where "k div 64 = 2 * c"
    by blast
  then have k: "k = 128 * c + k mod 64"
    using div_mult_mod_eq[of k 64] by simp
  then have "c < b"
    using assms by linarith
  then have "128 * c + 128 \<le> 128 * b"
    by simp
  then show ?thesis
    using True k mod_less_divisor[of 64 k] unfolding flip6_def by simp
qed (use assms in \<open>simp add: flip6_def\<close>)

lemma flip6_flip6: "flip6 (flip6 k) = k"
proof (cases "even (k div 64)")
  case False
  then have "64 \<le> k"
    by (cases "k < 64") auto
  then have "(k - 64) div 64 = k div 64 - 1"
    by (simp add: div_if)
  then show ?thesis
    using False \<open>64 \<le> k\<close> by (auto simp: flip6_def)
qed (simp add: flip6_def div_add_self2[of 64 k])

lemma length_swapped [simp]: "length (swapped pg) = length pg"
  by (simp add: swapped_def)

lemma swapped_swapped: "length pg = PAGE_SIZE \<Longrightarrow> swapped (swapped pg) = pg"
  using flip6_less[of _ 32] by (intro nth_equalityI) (auto simp: swapped_def PAGE_SIZE_def flip6_flip6)

lemma swizzle_step:
  assumes "i + 128 \<le> length v" "128 dvd i"
  defines "v' \<equiv> overwrite (i + 64) (take 64 (drop i v)) (overwrite i (take 64 (drop (i + 64) v)) v)"
  shows "length v' = length v"
    "k < length v \<Longrightarrow> v' ! k = (if i \<le> k \<and> k < i + 128 then v ! flip6 k else v ! k)"
proof -
  have len: "i + length (take 64 (drop (i + 64) v)) \<le> length v" "i + 64 + length (take 64 (drop i v)) \<le> length v"
    using assms(1) by simp_all
  then show "length v' = length v"
    by (simp add: v'_def)
  assume k: "k < length v"
  obtain m where i: "i = 128 * m"
    using assms(2) by auto
  have "k div 64 = 2 * m" if "i \<le> k" "k < i + 64"
    using that i by (intro div_nat_eqI) simp_all
  moreover have "k div 64 = 2 * m + 1" if "i + 64 \<le> k" "k < i + 128"
    using that i by (intro div_nat_eqI) simp_all
  ultimately show "v' ! k = (if i \<le> k \<and> k < i + 128 then v ! flip6 k else v ! k)"
    using k assms(1) len unfolding v'_def
    by (subst nth_overwrite) (auto simp: nth_overwrite flip6_def add.commute)
qed

lemma swizzle_loop_nth:
  assumes "length v = PAGE_SIZE" "128 dvd i"
  shows "length (swizzle_loop i v) = PAGE_SIZE \<and>
    (\<forall>k<PAGE_SIZE. swizzle_loop i v ! k = (if k < i then v ! k else v ! flip6 k))"
  using assms
proof (induction i v rule: swizzle_loop.induct)
  case (1 i v)
  show ?case
  proof (cases "i < PAGE_SIZE")
    case False
    then show ?thesis
      using "1.prems" by (subst (1 2) swizzle_loop.simps) simp
  next
    case True
    define v' where "v' = overwrite (i + 64) (take 64 (drop i v)) (overwrite i (take 64 (drop (i + 64) v)) v)"
    have room: "i + 128 \<le> length v"
      using True "1.prems" by (auto simp: PAGE_SIZE_def elim!: dvdE)
    note S = swizzle_step[OF room "1.prems"(2), folded v'_def]
    have IH: "length (swizzle_loop (i + 128) v') = PAGE_SIZE \<and>
        (\<forall>k<PAGE_SIZE. swizzle_loop (i + 128) v' ! k = (if k < i + 128 then v' ! k else v' ! flip6 k))"
      using "1.IH"[OF True refl refl refl] S(1) "1.prems" by (simp add: v'_def)
    have unf: "swizzle_loop i v = swizzle_loop (i + 128) v'"
      using True by (subst swizzle_loop.simps) (simp add: v'_def Let_def)
    obtain m where i: "i = 128 * m"
      using "1.prems"(2) by auto
    have "(if k < i + 128 then v' ! k else v' ! flip6 k) = (if k < i then v ! k else v ! flip6 k)" if k: "k < PAGE_SIZE" for k
    proof (cases "k < i + 128")
      case True
      then show ?thesis
        using S(2)[of k] k "1.prems"(1) by auto
    next
      case False
      have "flip6 k < PAGE_SIZE"
        using flip6_less[of k 32] k by (simp add: PAGE_SIZE_def)
      moreover have "\<not> flip6 k < i + 128"
        using flip6_less[of "flip6 k" "m + 1"] False by (auto simp: flip6_flip6 i)
      ultimately show ?thesis
        using S(2)[of "flip6 k"] False "1.prems"(1) by auto
    qed
    then show ?thesis
      using IH unfolding unf by simp
  qed
qed

lemma swizzle_page_swaps: "length pg = PAGE_SIZE \<Longrightarrow> inteldrm_swizzle_page True pg = (E_OK, swapped pg)"
  using swizzle_loop_nth[of pg 0] by (auto simp: inteldrm_swizzle_page_def swapped_def intro!: nth_equalityI)

section \<open>Saving and restoring\<close>

text \<open>The addresses of the next \<open>c\<close> pages; \<open>None\<close> if the segments end before.\<close>

fun seg_walk :: "nat \<Rightarrow> u64 \<Rightarrow> dma_seg list \<Rightarrow> u64 list option" where
  "seg_walk 0 n segs = Some []"
| "seg_walk (Suc c) n [] = None"
| "seg_walk (Suc c) n ((a, l) # segs) =
     map_option ((#) (a + n))
       (let n = n + of_nat PAGE_SIZE in if n \<ge> l then seg_walk c 0 segs else seg_walk c n ((a, l) # segs))"

lemma seg_walk_length: "seg_walk c n segs = Some as \<Longrightarrow> length as = c"
  by (induction c n segs arbitrary: as rule: seg_walk.induct) (auto simp: Let_def split: if_splits)

lemma save_pages_bits:
  assumes "seg_walk c n segs = Some as" "i + c \<le> 32 * length bits"
  shows "\<exists>bits'. save_pages c i n segs bits = Ret bits' \<and> length bits' = length bits \<and>
    (\<forall>x. x \<in> bits_of bits' \<longleftrightarrow> (if i \<le> x \<and> x < i + c then bit (as ! (x - i)) 17 else x \<in> bits_of bits))"
  using assms
proof (induction c i n segs bits arbitrary: as rule: save_pages.induct)
  case (3 c i n a l segs bits)
  define bits1 where "bits1 = (if (a + n) AND push_bit 17 1 \<noteq> 0 then set_bit_arr i bits else clear_bit i bits)"
  define n' where "n' = n + of_nat PAGE_SIZE"
  define segs' where "segs' = (if n' \<ge> l then segs else (a, l) # segs)"
  define n'' where "n'' = (if n' \<ge> l then 0 else n')"
  have "((a + n) AND push_bit 17 1 \<noteq> 0) = bit (a + n) 17"
    by (simp add: bit_iff_and_push_bit_not_eq_0)
  then have b1: "bits_of bits1 = (if bit (a + n) 17 then insert i (bits_of bits) else bits_of bits - {i})" "length bits1 = length bits"
    using "3.prems"(2) by (simp_all add: bits1_def)
  obtain as' where as: "as = (a + n) # as'" "seg_walk c n'' segs' = Some as'"
    using "3.prems"(1) by (auto simp: Let_def n'_def[symmetric] n''_def segs'_def split: if_splits)
  have unf: "save_pages (Suc c) i n ((a, l) # segs) bits = save_pages c (Suc i) n'' segs' bits1"
    by (simp add: Let_def n'_def n''_def segs'_def bits1_def)
  have "\<exists>bits'. save_pages c (Suc i) n'' segs' bits1 = Ret bits' \<and> length bits' = length bits1 \<and>
      (\<forall>x. x \<in> bits_of bits' \<longleftrightarrow> (if Suc i \<le> x \<and> x < Suc i + c then bit (as' ! (x - Suc i)) 17 else x \<in> bits_of bits1))"
    using "3.IH"[OF bits1_def n'_def] as(2) "3.prems"(2) b1(2) by (cases "n' \<ge> l") (auto simp: n''_def segs'_def)
  then obtain bits' where bits': "save_pages c (Suc i) n'' segs' bits1 = Ret bits'" "length bits' = length bits1"
    "\<And>x. x \<in> bits_of bits' \<longleftrightarrow> (if Suc i \<le> x \<and> x < Suc i + c then bit (as' ! (x - Suc i)) 17 else x \<in> bits_of bits1)"
    by blast
  have "x \<in> bits_of bits' \<longleftrightarrow> (if i \<le> x \<and> x < i + Suc c then bit (as ! (x - i)) 17 else x \<in> bits_of bits)" for x
    using bits'(3)[of x] b1(1) as(1) by (cases "x = i") (auto simp: nth_Cons' Suc_le_eq)
  then show ?case
    using unf bits' b1(2) by auto
qed auto

lemma swizzle_pages_fix:
  assumes "seg_walk c n segs = Some as" "distinct as" "\<forall>a\<in>set as. vm a \<and> va a \<and> length (ph a) = PAGE_SIZE" "i + c \<le> 32 * length bits"
  shows "\<exists>ph'. swizzle_pages vm va bits c i n segs ph = Ret ph' \<and> (\<forall>x. x \<notin> set as \<longrightarrow> ph' x = ph x) \<and>
    (\<forall>j<c. ph' (as ! j) = (if bit (as ! j) 17 \<longleftrightarrow> i + j \<in> bits_of bits then ph (as ! j) else swapped (ph (as ! j))))"
  using assms
proof (induction c arbitrary: i n segs as ph)
  case (Suc c)
  obtain a l segs0 where segs: "segs = (a, l) # segs0"
    using Suc.prems(1) by (cases segs) auto
  define n' where "n' = n + of_nat PAGE_SIZE"
  define segs' where "segs' = (if n' \<ge> l then segs0 else (a, l) # segs0)"
  define n'' where "n'' = (if n' \<ge> l then 0 else n')"
  obtain as' where as: "as = (a + n) # as'" "seg_walk c n'' segs' = Some as'"
    using Suc.prems(1) segs by (auto simp: Let_def n'_def[symmetric] n''_def segs'_def split: if_splits)
  define ph1 where "ph1 = (if bit (a + n) 17 \<longleftrightarrow> i \<in> bits_of bits then ph else ph(a + n := swapped (ph (a + n))))"
  have "test_bit_arr i bits \<longleftrightarrow> i \<in> bits_of bits"
    using Suc.prems(4) by (intro test_bit_bits) simp
  then have unf: "swizzle_pages vm va bits (Suc c) i n segs ph = swizzle_pages vm va bits c (Suc i) n'' segs' ph1"
    using Suc.prems(3) as(1) segs swizzle_page_swaps[of "ph (a + n)"]
    by (auto simp: Let_def n'_def n''_def segs'_def ph1_def)
  have d: "a + n \<notin> set as'" "distinct as'"
    using Suc.prems(2) as(1) by simp_all
  then have ph1: "ph1 x = ph x" if "x \<in> set as'" for x
    using that by (auto simp: ph1_def)
  have "\<forall>a\<in>set as'. vm a \<and> va a \<and> length (ph1 a) = PAGE_SIZE"
    using Suc.prems(3) as(1) ph1 by simp
  from Suc.IH[OF as(2) d(2) this, of "Suc i"] obtain ph' where ph': "swizzle_pages vm va bits c (Suc i) n'' segs' ph1 = Ret ph'"
    "\<forall>x. x \<notin> set as' \<longrightarrow> ph' x = ph1 x"
    "\<forall>j<c. ph' (as' ! j) = (if bit (as' ! j) 17 \<longleftrightarrow> Suc i + j \<in> bits_of bits then ph1 (as' ! j) else swapped (ph1 (as' ! j)))"
    using Suc.prems(4) by auto
  have len: "length as' = c"
    using as(2) by (rule seg_walk_length)
  have "ph' (as ! j) = (if bit (as ! j) 17 \<longleftrightarrow> i + j \<in> bits_of bits then ph (as ! j) else swapped (ph (as ! j)))" if "j < Suc c" for j
  proof (cases j)
    case 0
    then show ?thesis
      using ph'(2) d(1) as(1) by (simp add: ph1_def)
  next
    case (Suc k)
    then show ?thesis
      using ph'(3) that as(1) ph1 len by simp
  qed
  moreover have "ph' x = ph x" if "x \<notin> set as" for x
    using that ph'(2) as(1) by (auto simp: ph1_def)
  ultimately show ?case
    using unf ph'(1) by auto
qed simp

text \<open>
  C35: A tiled object survives being swapped out. When it leaves the GTT, bit 17 of the address of each
  of its pages is saved; when it comes back and each page has the bytes it had, at any other address,
  the pages whose bit 17 has changed are swizzled, and the GPU, which sees each page through bit 17 of
  its address, sees the object as before. Other pages are not touched. (If memory for the array of
  bits or address space for a page runs out, the driver goes on without.)
\<close>

theorem tiled_pages_survive_swap:
  assumes "page_count osize = c" "seg_walk c 0 segs = Some as" "seg_walk c 0 segs' = Some as'" "distinct as'"
    "\<forall>a\<in>set as'. vm a \<and> va a" "\<forall>j<c. ph' (as' ! j) = ph (as ! j) \<and> length (ph (as ! j)) = PAGE_SIZE"
    "case bit_17 of None \<Rightarrow> \<exists>w. alloc ((c + 31) div 32) = Some w \<and> length w = (c + 31) div 32
                  | Some w \<Rightarrow> c \<le> 32 * length w"
  shows "\<exists>bits ph2. i915_gem_save_bit_17_swizzle alloc I915_BIT_6_SWIZZLE_9_10_17 osize segs bit_17 = Ret (Some bits) \<and>
    i915_gem_bit_17_swizzle vm va I915_BIT_6_SWIZZLE_9_10_17 osize segs' (Some bits) ph' = Ret ph2 \<and>
    (\<forall>j<c. gpu_page (as' ! j) (ph2 (as' ! j)) = gpu_page (as ! j) (ph (as ! j))) \<and> (\<forall>x. x \<notin> set as' \<longrightarrow> ph2 x = ph' x)"
proof -
  obtain w where w: "(case bit_17 of None \<Rightarrow> alloc ((c + 31) div 32) | Some bits \<Rightarrow> Some bits) = Some w" "c \<le> 32 * length w"
    using assms(7) by (cases bit_17) auto
  obtain bits where bits: "save_pages c 0 0 segs w = Ret bits" "length bits = length w"
    "\<forall>x. x \<in> bits_of bits \<longleftrightarrow> (if x < c then bit (as ! x) 17 else x \<in> bits_of w)"
    using save_pages_bits[OF assms(2), of 0 w] w(2) by auto
  have len: "length as' = c"
    using assms(3) by (rule seg_walk_length)
  have "\<forall>a\<in>set as'. vm a \<and> va a \<and> length (ph' a) = PAGE_SIZE"
    using assms(5,6) len by (auto simp: in_set_conv_nth)
  from swizzle_pages_fix[OF assms(3,4) this, of 0 bits] obtain ph2 where
    ph2: "swizzle_pages vm va bits c 0 0 segs' ph' = Ret ph2" "\<forall>x. x \<notin> set as' \<longrightarrow> ph2 x = ph' x"
    "\<forall>j<c. ph2 (as' ! j) = (if bit (as' ! j) 17 \<longleftrightarrow> j \<in> bits_of bits then ph' (as' ! j) else swapped (ph' (as' ! j)))"
    using w(2) bits(2) by auto
  have "gpu_page (as' ! j) (ph2 (as' ! j)) = gpu_page (as ! j) (ph (as ! j))" if "j < c" for j
    using that ph2(3) bits(3) assms(6) by (auto simp: gpu_page_def swapped_swapped)
  then show ?thesis
    using assms(1) w(1) bits(1) ph2 by (auto simp: i915_gem_save_bit_17_swizzle_def i915_gem_bit_17_swizzle_def Let_def)
qed

text \<open>Two pages, the first of which loses its bit 17.\<close>

definition demo_page :: "u8 list" where
  "demo_page = replicate 64 1 @ replicate 4032 0"

theorem tiled_pages_survive_swap_witness:
  "\<exists>bits ph2. i915_gem_save_bit_17_swizzle (\<lambda>n. Some (replicate n 0)) I915_BIT_6_SWIZZLE_9_10_17 0x2000
        [(0x20000, 0x1000), (0x5000, 0x1000)] None = Ret (Some bits) \<and>
    i915_gem_bit_17_swizzle (\<lambda>a. True) (\<lambda>a. True) I915_BIT_6_SWIZZLE_9_10_17 0x2000 [(0x40000, 0x2000)] (Some bits)
        (\<lambda>a. demo_page) = Ret ph2 \<and> ph2 0x40000 = swapped demo_page \<and> ph2 0x41000 = demo_page"
proof -
  have "page_count 0x2000 = 2"
    by (simp add: page_count_def PAGE_SHIFT_def)
  moreover have "seg_walk (Suc (Suc 0)) 0 [(0x20000, 0x1000), (0x5000, 0x1000)] = Some [0x20000, 0x5000]"
    "seg_walk (Suc (Suc 0)) 0 [(0x40000, 0x2000)] = Some [0x40000, 0x41000]"
    by (simp_all add: PAGE_SIZE_def)
  moreover have "length demo_page = PAGE_SIZE"
    by (simp add: demo_page_def PAGE_SIZE_def)
  ultimately have "\<exists>bits ph2. i915_gem_save_bit_17_swizzle (\<lambda>n. Some (replicate n 0)) I915_BIT_6_SWIZZLE_9_10_17 0x2000
        [(0x20000, 0x1000), (0x5000, 0x1000)] None = Ret (Some bits) \<and>
    i915_gem_bit_17_swizzle (\<lambda>a. True) (\<lambda>a. True) I915_BIT_6_SWIZZLE_9_10_17 0x2000 [(0x40000, 0x2000)] (Some bits)
        (\<lambda>a. demo_page) = Ret ph2 \<and>
    (\<forall>j<2. gpu_page ([0x40000, 0x41000] ! j) (ph2 ([0x40000, 0x41000] ! j)) = gpu_page ([0x20000, 0x5000] ! j) demo_page) \<and>
    (\<forall>x. x \<notin> set [0x40000, 0x41000] \<longrightarrow> ph2 x = demo_page)"
    by (intro tiled_pages_survive_swap) (auto simp: numeral_2_eq_2[symmetric])
  then show ?thesis
    by (auto simp: gpu_page_def less_2_cases_iff all_conj_distrib dest!: spec[of _ "0 :: nat"] spec[of _ "1 :: nat"]) 
qed

end
