(* ===== verification/I915_Mm.thy ===== *)
theory I915_Mm
  imports I915_Ring I915_Swizzle Drm_Gem
begin

text \<open>
  The objects of \<^verbatim>\<open>i915_drv.c\<close> as the GPU works on them: the lists an object is on while it is rendered
  to, flushed or idle, the requests with their sequence numbers, fences, and the ioctls for tiling.
\<close>

section \<open>State\<close>

definition I915_ACTIVE :: u32 where "I915_ACTIVE = 0x0010"
definition I915_IN_EXEC :: u32 where "I915_IN_EXEC = 0x0020"
definition I915_GPU_WRITE :: u32 where "I915_GPU_WRITE = 0x0080"
definition I915_DIRTY :: u32 where "I915_DIRTY = 0x0400"
definition I915_EXEC_NEEDS_FENCE :: u32 where "I915_EXEC_NEEDS_FENCE = 0x0800"
definition I915_FENCED_EXEC :: u32 where "I915_FENCED_EXEC = 0x1000"
definition I915_FENCE_INVALID :: u32 where "I915_FENCE_INVALID = 0x2000"

definition I915_GEM_DOMAIN_CPU :: u32 where "I915_GEM_DOMAIN_CPU = 0x01"
definition I915_GEM_DOMAIN_RENDER :: u32 where "I915_GEM_DOMAIN_RENDER = 0x02"
definition I915_GEM_DOMAIN_SAMPLER :: u32 where "I915_GEM_DOMAIN_SAMPLER = 0x04"
definition I915_GEM_DOMAIN_COMMAND :: u32 where "I915_GEM_DOMAIN_COMMAND = 0x08"
definition I915_GEM_DOMAIN_INSTRUCTION :: u32 where "I915_GEM_DOMAIN_INSTRUCTION = 0x10"
definition I915_GEM_DOMAIN_GTT :: u32 where "I915_GEM_DOMAIN_GTT = 0x40"

definition I915_GEM_GPU_DOMAINS :: u32 where
  "I915_GEM_GPU_DOMAINS = NOT (I915_GEM_DOMAIN_CPU OR I915_GEM_DOMAIN_GTT)"

definition I915_FENCE_REG_NONE :: int where "I915_FENCE_REG_NONE = -1"

datatype gem_list = ACTIVE_LIST | FLUSHING_LIST | INACTIVE_LIST

text \<open>
  The driver's part of an object; \<open>bound\<close> says that it has a \<^verbatim>\<open>dmamap\<close>, that is, a place in the GTT.
\<close>

record inteldrm_obj =
  current_list :: "gem_list option"
  bound :: bool
  gtt_offset :: u64
  fence_reg :: int
  pin_count :: int
  user_pin_count :: int
  last_rendering_seqno :: u32
  last_write_seqno :: u32
  tiling_mode :: u32
  stride :: u32

record inteldrm_fence =
  fence_obj :: "nat option"
  fence_seqno :: u32

text \<open>
  The parts of \<^verbatim>\<open>struct inteldrm_softc\<close> the operations below use; objects, requests and fences are
  known by address, sequence number and index.
\<close>

record i915_dev = gem_dev +
  chip :: u64
  iobj :: "nat \<Rightarrow> inteldrm_obj"
  mm_list :: "gem_list \<Rightarrow> nat list"
  gpu_write_list :: "nat list"
  fence_list :: "nat list"
  fence_regs :: "inteldrm_fence list"
  fence_reg_start :: nat
  num_fence_regs :: nat
  request_list :: "u32 list"
  next_gem_seqno :: u32
  retire_timer :: bool
  hang_timer :: bool
  suspended :: int
  wedged :: int
  gtt_count :: u32
  gtt_memory :: u32
  gtt_pin_count :: u32
  gtt_pin_memory :: u32
  bit_6_swizzle_x :: u32
  bit_6_swizzle_y :: u32
  invalidate_domains :: u32
  flush_domains :: u32
  mmio_regs :: mmio
  ring :: inteldrm_ring

definition upd_iobj :: "nat \<Rightarrow> (inteldrm_obj \<Rightarrow> inteldrm_obj) \<Rightarrow> 'a i915_dev_scheme \<Rightarrow> 'a i915_dev_scheme" where
  "upd_iobj i f d = d\<lparr>iobj := (iobj d)(i := f (iobj d i))\<rparr>"

definition has_obj_flag :: "u32 \<Rightarrow> nat \<Rightarrow> 'a i915_dev_scheme \<Rightarrow> bool" where
  "has_obj_flag fl i d \<longleftrightarrow> (case objs d i of None \<Rightarrow> False | Some obj \<Rightarrow> do_flags obj AND fl \<noteq> 0)"

definition inteldrm_is_active :: "nat \<Rightarrow> 'a i915_dev_scheme \<Rightarrow> bool" where
  "inteldrm_is_active i d \<longleftrightarrow> has_obj_flag I915_ACTIVE i d"

definition inteldrm_needs_fence :: "nat \<Rightarrow> 'a i915_dev_scheme \<Rightarrow> bool" where
  "inteldrm_needs_fence i d \<longleftrightarrow> has_obj_flag I915_FENCED_EXEC i d"

definition inteldrm_exec_needs_fence :: "nat \<Rightarrow> 'a i915_dev_scheme \<Rightarrow> bool" where
  "inteldrm_exec_needs_fence i d \<longleftrightarrow> has_obj_flag I915_EXEC_NEEDS_FENCE i d"

definition set_flag :: "u32 \<Rightarrow> nat \<Rightarrow> 'a i915_dev_scheme \<Rightarrow> 'a i915_dev_scheme" where
  "set_flag fl i = upd_obj i (do_flags_update (\<lambda>w. w OR fl))"

definition clear_flag :: "u32 \<Rightarrow> nat \<Rightarrow> 'a i915_dev_scheme \<Rightarrow> 'a i915_dev_scheme" where
  "clear_flag fl i = upd_obj i (do_flags_update (\<lambda>w. w AND NOT fl))"

section \<open>Lists\<close>

definition i915_list_remove :: "nat \<Rightarrow> 'a i915_dev_scheme \<Rightarrow> 'a i915_dev_scheme" where
  "i915_list_remove i d =
     upd_iobj i (current_list_update (\<lambda>_. None))
       (case current_list (iobj d i) of
          None \<Rightarrow> d
        | Some L \<Rightarrow> d\<lparr>mm_list := (mm_list d)(L := remove1 i (mm_list d L))\<rparr>)"

definition i915_move_to_tail :: "nat \<Rightarrow> gem_list \<Rightarrow> 'a i915_dev_scheme \<Rightarrow> 'a i915_dev_scheme" where
  "i915_move_to_tail i L d =
     (let d = i915_list_remove i d
      in upd_iobj i (current_list_update (\<lambda>_. Some L)) (d\<lparr>mm_list := (mm_list d)(L := mm_list d L @ [i])\<rparr>))"

text \<open>\<^verbatim>\<open>fence_regs[fence_reg]\<close>; a panic outside of the array.\<close>

definition set_fence_seqno :: "nat \<Rightarrow> u32 \<Rightarrow> 'a i915_dev_scheme \<Rightarrow> 'a i915_dev_scheme outcome" where
  "set_fence_seqno i seqno d =
     (let n = fence_reg (iobj d i)
      in if 0 \<le> n \<and> nat n < length (fence_regs d)
         then Ret (d\<lparr>fence_regs := (fence_regs d)[nat n := (fence_regs d ! nat n)\<lparr>fence_seqno := seqno\<rparr>]\<rparr>)
         else Panic)"

definition i915_gem_object_move_to_active :: "nat \<Rightarrow> 'a i915_dev_scheme \<Rightarrow> 'a i915_dev_scheme outcome" where
  "i915_gem_object_move_to_active i d =
     (let seqno = next_gem_seqno d
      in obind (if \<not> inteldrm_is_active i d then obind (drm_ref i d) (\<lambda>d. Ret (set_flag I915_ACTIVE i d)) else Ret d) (\<lambda>d.
         obind (if inteldrm_needs_fence i d then set_fence_seqno i seqno d else Ret d) (\<lambda>d.
         case objs d i of
           None \<Rightarrow> Panic
         | Some obj \<Rightarrow>
             let d = (if write_domain obj \<noteq> 0 then upd_iobj i (last_write_seqno_update (\<lambda>_. seqno)) d else d);
                 d = i915_move_to_tail i ACTIVE_LIST d
             in Ret (upd_iobj i (last_rendering_seqno_update (\<lambda>_. seqno)) d))))"

definition i915_gem_object_move_off_active :: "nat \<Rightarrow> 'a i915_dev_scheme \<Rightarrow> 'a i915_dev_scheme outcome" where
  "i915_gem_object_move_off_active i d =
     (let d = upd_iobj i (last_rendering_seqno_update (\<lambda>_. 0)) d
      in obind (if fence_reg (iobj d i) \<noteq> I915_FENCE_REG_NONE then set_fence_seqno i 0 d else Ret d) (\<lambda>d.
         case objs d i of
           None \<Rightarrow> Panic
         | Some obj \<Rightarrow>
             Ret (if write_domain obj = 0 then upd_iobj i (last_write_seqno_update (\<lambda>_. 0)) d else d)))"

definition i915_gem_object_move_to_inactive_locked ::
  "('a i915_dev_scheme) drm_driver_info \<Rightarrow> ('a i915_dev_scheme \<Rightarrow> 'a i915_dev_scheme) list \<Rightarrow> nat \<Rightarrow>
   'a i915_dev_scheme \<Rightarrow> 'a i915_dev_scheme outcome" where
  "i915_gem_object_move_to_inactive_locked drv sl i d =
     (let d = (if pin_count (iobj d i) \<noteq> 0 then i915_list_remove i d else i915_move_to_tail i INACTIVE_LIST d)
      in obind (i915_gem_object_move_off_active i d) (\<lambda>d.
         let d = clear_flag I915_FENCED_EXEC i d
         in if has_obj_flag I915_GPU_WRITE i d then Panic
            else if inteldrm_is_active i d then drm_unref_locked drv sl i (clear_flag I915_ACTIVE i d)
            else Ret d))"

section \<open>Requests\<close>

text \<open>Signed difference of 32 bits.\<close>

definition i915_seqno_passed :: "u32 \<Rightarrow> u32 \<Rightarrow> bool" where
  "i915_seqno_passed seq1 seq2 \<longleftrightarrow> sint (seq1 - seq2) \<ge> 0"

definition MI_STORE_DWORD_INDEX :: u32 where "MI_STORE_DWORD_INDEX = MI_INSTR 0x21 1"
definition MI_STORE_DWORD_INDEX_SHIFT :: nat where "MI_STORE_DWORD_INDEX_SHIFT = 2"
definition I915_GEM_HWS_INDEX :: u32 where "I915_GEM_HWS_INDEX = 0x20"
definition MI_USER_INTERRUPT :: u32 where "MI_USER_INTERRUPT = MI_INSTR 0x02 0"
definition MI_FLUSH :: u32 where "MI_FLUSH = MI_INSTR 0x04 0"
definition MI_READ_FLUSH :: u32 where "MI_READ_FLUSH = push_bit 0 1"
definition MI_EXE_FLUSH :: u32 where "MI_EXE_FLUSH = push_bit 1 1"
definition MI_NO_WRITE_FLUSH :: u32 where "MI_NO_WRITE_FLUSH = push_bit 2 1"

definition seqno_succ :: "u32 \<Rightarrow> u32" where
  "seqno_succ s = (let n = s + 1 in if n = 0 then n + 1 else n)"

definition request_words :: "u32 \<Rightarrow> u32 list" where
  "request_words seqno =
     [MI_STORE_DWORD_INDEX, push_bit MI_STORE_DWORD_INDEX_SHIFT I915_GEM_HWS_INDEX, seqno, MI_USER_INTERRUPT]"

text \<open>
  \<open>rs\<close> are the readings of the ring's head, \<open>calloc_ok\<close> whether there is memory for the request. The
  result is the sequence number, 0 without memory.
\<close>

definition i915_add_request :: "bool \<Rightarrow> readings \<Rightarrow> 'a i915_dev_scheme \<Rightarrow> (u32 \<times> readings \<times> 'a i915_dev_scheme) outcome" where
  "i915_add_request calloc_ok rs d =
     (if \<not> calloc_ok then Ret (0, rs, d)
      else let seqno = next_gem_seqno d;
               d = d\<lparr>next_gem_seqno := seqno_succ seqno\<rparr>
           in obind (ring_emit rs (if IS_GEN6 (chip d) \<or> IS_GEN7 (chip d) then 10 else 4) (request_words seqno) (ring d)) (\<lambda>(rs, r).
              let d = d\<lparr>ring := r\<rparr>;
                  was_empty = (request_list d = []);
                  d = d\<lparr>request_list := request_list d @ [seqno]\<rparr>;
                  d = (if suspended d = 0
                       then let d = (if was_empty then d\<lparr>retire_timer := True\<rparr> else d) in d\<lparr>hang_timer := True\<rparr>
                       else d)
              in Ret (seqno, rs, d)))"

text \<open>The body of the loop below; \<open>sl\<close> is what happens while the last reference waits for its holder.\<close>

definition retire_object ::
  "('a i915_dev_scheme) drm_driver_info \<Rightarrow> ('a i915_dev_scheme \<Rightarrow> 'a i915_dev_scheme) list \<Rightarrow> nat \<Rightarrow>
   'a i915_dev_scheme \<Rightarrow> 'a i915_dev_scheme outcome" where
  "retire_object drv sl i d =
     (case objs d i of
        None \<Rightarrow> Panic
      | Some obj \<Rightarrow>
          if write_domain obj \<noteq> 0
          then if \<not> inteldrm_is_active i d then Panic
               else i915_gem_object_move_off_active i (i915_move_to_tail i FLUSHING_LIST d)
          else i915_gem_object_move_to_inactive_locked drv sl i d)"

text \<open>\<^verbatim>\<open>while ((obj_priv = TAILQ_FIRST(&active_list)) != NULL)\<close>, for at most \<open>fuel\<close> turns.\<close>

fun retire_loop ::
  "nat \<Rightarrow> ('a i915_dev_scheme) drm_driver_info \<Rightarrow> (nat \<Rightarrow> ('a i915_dev_scheme \<Rightarrow> 'a i915_dev_scheme) list) \<Rightarrow> u32 \<Rightarrow>
   'a i915_dev_scheme \<Rightarrow> 'a i915_dev_scheme outcome" where
  "retire_loop fuel drv sl seqno d =
     (case mm_list d ACTIVE_LIST of
        [] \<Rightarrow> Ret d
      | i # _ \<Rightarrow>
          if last_rendering_seqno (iobj d i) \<noteq> seqno then Ret d
          else case fuel of
            0 \<Rightarrow> Asleep
          | Suc fuel \<Rightarrow> obind (retire_object drv (sl i) i d) (retire_loop fuel drv sl seqno))"

declare retire_loop.simps [simp del]

definition i915_gem_retire_request ::
  "('a i915_dev_scheme) drm_driver_info \<Rightarrow> (nat \<Rightarrow> ('a i915_dev_scheme \<Rightarrow> 'a i915_dev_scheme) list) \<Rightarrow> u32 \<Rightarrow>
   'a i915_dev_scheme \<Rightarrow> 'a i915_dev_scheme outcome" where
  "i915_gem_retire_request drv sl seqno d = retire_loop (length (mm_list d ACTIVE_LIST)) drv sl seqno d"

fun retire_requests_loop ::
  "nat \<Rightarrow> ('a i915_dev_scheme) drm_driver_info \<Rightarrow> (nat \<Rightarrow> ('a i915_dev_scheme \<Rightarrow> 'a i915_dev_scheme) list) \<Rightarrow> u32 \<Rightarrow>
   'a i915_dev_scheme \<Rightarrow> 'a i915_dev_scheme outcome" where
  "retire_requests_loop fuel drv sl seqno d =
     (case request_list d of
        [] \<Rightarrow> Ret d
      | req # reqs \<Rightarrow>
          if i915_seqno_passed seqno req \<or> wedged d \<noteq> 0
          then (case fuel of
                  0 \<Rightarrow> Asleep
                | Suc fuel \<Rightarrow> obind (i915_gem_retire_request drv sl req (d\<lparr>request_list := reqs\<rparr>))
                                (retire_requests_loop fuel drv sl seqno))
          else Ret d)"

declare retire_requests_loop.simps [simp del]

text \<open>\<open>hws\<close> is the sequence number in the status page, if there is one.\<close>

definition i915_gem_retire_requests ::
  "('a i915_dev_scheme) drm_driver_info \<Rightarrow> (nat \<Rightarrow> ('a i915_dev_scheme \<Rightarrow> 'a i915_dev_scheme) list) \<Rightarrow> u32 option \<Rightarrow>
   'a i915_dev_scheme \<Rightarrow> 'a i915_dev_scheme outcome" where
  "i915_gem_retire_requests drv sl hws d =
     (case hws of None \<Rightarrow> Ret d | Some seqno \<Rightarrow> retire_requests_loop (length (request_list d)) drv sl seqno d)"

section \<open>Flushing\<close>

text \<open>\<^verbatim>\<open>i915_gem_get_fence_reg\<close> of an object that has its fence: it becomes the most recently used.\<close>

definition fence_lru :: "nat \<Rightarrow> 'a i915_dev_scheme \<Rightarrow> 'a i915_dev_scheme" where
  "fence_lru i d =
     (let n = nat (fence_reg (iobj d i)) in d\<lparr>fence_list := remove1 n (fence_list d) @ [n]\<rparr>)"

text \<open>The successor on the list is read before an object is taken off, so the loop visits the whole list.\<close>

fun flush_objects :: "u32 \<Rightarrow> nat list \<Rightarrow> 'a i915_dev_scheme \<Rightarrow> 'a i915_dev_scheme outcome" where
  "flush_objects domains [] d = Ret d"
| "flush_objects domains (i # is) d =
     (case objs d i of
        None \<Rightarrow> Panic
      | Some obj \<Rightarrow>
          obind (if write_domain obj AND domains \<noteq> 0
                 then let d = d\<lparr>gpu_write_list := remove1 i (gpu_write_list d)\<rparr>;
                          d = clear_flag I915_GPU_WRITE i d
                      in obind (i915_gem_object_move_to_active i d) (\<lambda>d.
                         let d = upd_obj i (write_domain_update (\<lambda>_. 0)) d
                         in if inteldrm_needs_fence i d
                            then if fence_reg (iobj d i) = I915_FENCE_REG_NONE then Panic else Ret (fence_lru i d)
                            else Ret d)
                 else Ret d)
            (flush_objects domains is))"

definition inteldrm_process_flushing :: "u32 \<Rightarrow> 'a i915_dev_scheme \<Rightarrow> 'a i915_dev_scheme outcome" where
  "inteldrm_process_flushing domains d = flush_objects domains (gpu_write_list d) d"

definition flush_cmd :: "u64 \<Rightarrow> u32 \<Rightarrow> u32 \<Rightarrow> u32" where
  "flush_cmd fl inval flush =
     (let cmd = MI_FLUSH OR MI_NO_WRITE_FLUSH;
          cmd = (if (inval OR flush) AND I915_GEM_DOMAIN_RENDER \<noteq> 0 then cmd AND NOT MI_NO_WRITE_FLUSH else cmd);
          cmd = (if \<not> IS_I965G fl \<and> inval AND I915_GEM_DOMAIN_SAMPLER \<noteq> 0 then cmd OR MI_READ_FLUSH else cmd)
      in if inval AND I915_GEM_DOMAIN_INSTRUCTION \<noteq> 0 then cmd OR MI_EXE_FLUSH else cmd)"

text \<open>That of the chipset is a write to the hardware.\<close>

definition i915_gem_flush ::
  "bool \<Rightarrow> readings \<Rightarrow> u32 \<Rightarrow> u32 \<Rightarrow> 'a i915_dev_scheme \<Rightarrow> (u32 \<times> readings \<times> 'a i915_dev_scheme) outcome" where
  "i915_gem_flush calloc_ok rs inval flush d =
     (if (inval OR flush) AND I915_GEM_GPU_DOMAINS = 0 then Ret (0, rs, d)
      else obind (ring_emit rs 2 [flush_cmd (chip d) inval flush, MI_NOOP] (ring d)) (\<lambda>(rs, r).
           let d = d\<lparr>ring := r\<rparr>
           in if flush AND I915_GEM_GPU_DOMAINS \<noteq> 0
              then obind (inteldrm_process_flushing flush d) (i915_add_request calloc_ok rs)
              else Ret (0, rs, d)))"

section \<open>Execution\<close>

text \<open>
  \<^verbatim>\<open>i915_gem_object_set_to_gpu_domain\<close>: the object, the domains to invalidate and those to flush. What goes
  to the hardware and the page tables (\<^verbatim>\<open>bus_dmamap_sync\<close>, \<^verbatim>\<open>inteldrm_wipe_mappings\<close>) is left out.
\<close>

definition gpu_domains :: "drm_obj \<Rightarrow> drm_obj \<times> u32 \<times> u32" where
  "gpu_domains obj =
     (let obj = (if pending_write_domain obj = 0
                 then obj\<lparr>pending_read_domains := pending_read_domains obj OR read_domains obj\<rparr>
                 else obj\<lparr>do_flags := do_flags obj OR I915_DIRTY\<rparr>);
          change = (write_domain obj \<noteq> 0 \<and> write_domain obj \<noteq> pending_read_domains obj);
          flush = (if change then write_domain obj else 0);
          inval = (if change then pending_read_domains obj AND NOT (write_domain obj) else 0);
          inval = inval OR (pending_read_domains obj AND NOT (read_domains obj));
          obj = (if flush = 0 \<and> pending_write_domain obj = 0 \<and>
                    (pending_read_domains obj = write_domain obj \<or> write_domain obj = 0)
                 then obj\<lparr>pending_write_domain := write_domain obj\<rparr> else obj)
      in (obj\<lparr>read_domains := pending_read_domains obj, pending_read_domains := 0\<rparr>, inval, flush))"

definition i915_gem_object_set_to_gpu_domain :: "nat \<Rightarrow> 'a i915_dev_scheme \<Rightarrow> 'a i915_dev_scheme outcome" where
  "i915_gem_object_set_to_gpu_domain i d =
     (case objs d i of
        None \<Rightarrow> Panic
      | Some obj \<Rightarrow>
          if pending_read_domains obj AND I915_GEM_DOMAIN_CPU \<noteq> 0 \<or> pending_write_domain obj = I915_GEM_DOMAIN_CPU then Panic
          else let (obj, inval, flush) = gpu_domains obj
               in Ret (d\<lparr>objs := (objs d)(i := Some obj), invalidate_domains := invalidate_domains d OR inval,
                         flush_domains := flush_domains d OR flush\<rparr>))"

fun set_to_gpu_domains :: "nat list \<Rightarrow> 'a i915_dev_scheme \<Rightarrow> 'a i915_dev_scheme outcome" where
  "set_to_gpu_domains [] d = Ret d"
| "set_to_gpu_domains (i # is) d = obind (i915_gem_object_set_to_gpu_domain i d) (set_to_gpu_domains is)"

definition exec_object :: "nat \<Rightarrow> 'a i915_dev_scheme \<Rightarrow> 'a i915_dev_scheme outcome" where
  "exec_object i d =
     (case objs d i of
        None \<Rightarrow> Panic
      | Some obj \<Rightarrow>
          let wd = pending_write_domain obj;
              d = upd_obj i (write_domain_update (\<lambda>_. wd)) d;
              d = (if has_obj_flag I915_GPU_WRITE i d then d\<lparr>gpu_write_list := remove1 i (gpu_write_list d)\<rparr> else d);
              d = (if wd \<noteq> 0 then set_flag I915_GPU_WRITE i (d\<lparr>gpu_write_list := gpu_write_list d @ [i]\<rparr>)
                   else clear_flag I915_GPU_WRITE i d);
              d = (if inteldrm_exec_needs_fence i d then set_flag I915_FENCED_EXEC i d else clear_flag I915_FENCED_EXEC i d)
          in i915_gem_object_move_to_active i d)"

fun exec_objects :: "nat list \<Rightarrow> 'a i915_dev_scheme \<Rightarrow> 'a i915_dev_scheme outcome" where
  "exec_objects [] d = Ret d"
| "exec_objects (i # is) d = obind (exec_object i d) (exec_objects is)"

definition IS_I830 :: "u64 \<Rightarrow> bool" where "IS_I830 fl \<longleftrightarrow> fl AND CHIP_I830 \<noteq> 0"
definition IS_845G :: "u64 \<Rightarrow> bool" where "IS_845G fl \<longleftrightarrow> fl AND CHIP_I845G \<noteq> 0"

definition MI_BATCH_BUFFER :: u32 where "MI_BATCH_BUFFER = MI_INSTR 0x30 1"
definition MI_BATCH_NON_SECURE :: u32 where "MI_BATCH_NON_SECURE = 1"
definition MI_BATCH_NON_SECURE_I965 :: u32 where "MI_BATCH_NON_SECURE_I965 = push_bit 8 1"
definition MI_BATCH_BUFFER_START :: u32 where "MI_BATCH_BUFFER_START = MI_INSTR 0x31 0"

definition batch_words :: "u64 \<Rightarrow> u32 \<Rightarrow> u32 \<Rightarrow> u32 list" where
  "batch_words fl exec_start exec_len =
     (if IS_I830 fl \<or> IS_845G fl
      then [MI_BATCH_BUFFER, exec_start OR MI_BATCH_NON_SECURE, exec_start + exec_len - 4, MI_NOOP]
      else if IS_I965G fl
      then [if IS_GEN6 fl \<or> IS_GEN7 fl then MI_BATCH_BUFFER_START OR MI_BATCH_NON_SECURE_I965
            else MI_BATCH_BUFFER_START OR push_bit 6 2 OR MI_BATCH_NON_SECURE_I965, exec_start]
      else [MI_BATCH_BUFFER_START OR push_bit 6 2, exec_start OR MI_BATCH_NON_SECURE])
     @ [MI_FLUSH OR MI_NO_WRITE_FLUSH, MI_NOOP]"

definition i915_dispatch_gem_execbuffer ::
  "bool \<Rightarrow> readings \<Rightarrow> u32 \<Rightarrow> u32 \<Rightarrow> u64 \<Rightarrow> 'a i915_dev_scheme \<Rightarrow> (readings \<times> 'a i915_dev_scheme) outcome" where
  "i915_dispatch_gem_execbuffer calloc_ok rs batch_start_offset batch_len exec_offset d =
     (let exec_start = ucast exec_offset + batch_start_offset
      in obind (ring_emit rs (if IS_I830 (chip d) \<or> IS_845G (chip d) then 6 else 4)
                  (batch_words (chip d) exec_start batch_len) (ring d)) (\<lambda>(rs, r).
         obind (i915_add_request calloc_ok rs (d\<lparr>ring := r\<rparr>)) (\<lambda>(seqno, rs, d). Ret (rs, d))))"

text \<open>
  The part of \<^verbatim>\<open>i915_gem_execbuffer2\<close> after the objects have been looked up, pinned, relocated and held, up
  to the answer to the client; the last object is the batch. \<open>c1\<close> and \<open>c2\<close> are the memory for its two
  requests. The sum of offset and length has 32 bits.
\<close>

definition execbuffer_commit ::
  "bool \<Rightarrow> bool \<Rightarrow> readings \<Rightarrow> nat list \<Rightarrow> u32 \<Rightarrow> u32 \<Rightarrow> 'a i915_dev_scheme \<Rightarrow>
   (errno \<times> readings \<times> 'a i915_dev_scheme) outcome" where
  "execbuffer_commit c1 c2 rs objects batch_start_offset batch_len d =
     (let batch = last objects
      in case objs d batch of
           None \<Rightarrow> Panic
         | Some batch_obj \<Rightarrow>
             if ucast (batch_start_offset + batch_len) > obj_size batch_obj \<or> pending_write_domain batch_obj \<noteq> 0
             then Ret (EINVAL, rs, d)
             else
               let d = upd_obj batch (pending_read_domains_update (\<lambda>w. w OR I915_GEM_DOMAIN_COMMAND)) d;
                   d = d\<lparr>invalidate_domains := 0, flush_domains := 0\<rparr>
               in obind (set_to_gpu_domains objects d) (\<lambda>d.
                  obind (i915_gem_flush c1 rs (invalidate_domains d) (flush_domains d) d) (\<lambda>(seqno, rs, d).
                  obind (exec_objects objects d) (\<lambda>d.
                  obind (i915_dispatch_gem_execbuffer c2 rs batch_start_offset batch_len (gtt_offset (iobj d batch)) d)
                    (\<lambda>(rs, d). Ret (E_OK, rs, d))))))"

end
