(* ===== verification/I915_Domain.thy ===== *)
theory I915_Domain
  imports I915_Mm
begin

text \<open>
  Who may look at an object of \<^verbatim>\<open>i915_drv.c\<close>: waiting for the GPU, moving an object to the domain of the
  CPU or of the aperture, giving a fence register away and getting one, taking an object out of the
  aperture.
\<close>

section \<open>The environment\<close>

text \<open>
  What a call sees of the rest of the world: the readings of the ring's head, whether there is memory
  for the next requests (there is, once the list is used up), and the status page. Each \<open>turn\<close> is what
  the page holds while the call looks at it; if the call goes to sleep then, the signal that ends the
  sleep (\<open>E_OK\<close>: none, it was woken up) and whether the GPU has been given up meanwhile. The last turn
  stays.
\<close>

record turn =
  tn_seqno :: u32
  tn_signal :: errno
  tn_wedged :: int

record gpu_env =
  ge_ring :: readings
  ge_mem :: "bool list"
  ge_now :: turn
  ge_later :: "turn list"

type_synonym 'a sleeping = "nat \<Rightarrow> ('a i915_dev_scheme \<Rightarrow> 'a i915_dev_scheme) list"
type_synonym 'a result = "(errno \<times> gpu_env \<times> 'a i915_dev_scheme) outcome"

definition next_turn :: "gpu_env \<Rightarrow> gpu_env" where
  "next_turn e = (case ge_later e of [] \<Rightarrow> e | t # ts \<Rightarrow> e\<lparr>ge_now := t, ge_later := ts\<rparr>)"

definition next_mem :: "gpu_env \<Rightarrow> bool \<times> gpu_env" where
  "next_mem e = (case ge_mem e of [] \<Rightarrow> (True, e) | m # ms \<Rightarrow> (m, e\<lparr>ge_mem := ms\<rparr>))"

definition add_request :: "gpu_env \<Rightarrow> 'a i915_dev_scheme \<Rightarrow> (u32 \<times> gpu_env \<times> 'a i915_dev_scheme) outcome" where
  "add_request e d =
     (let (c, e) = next_mem e
      in obind (i915_add_request c (ge_ring e) d) (\<lambda>(seqno, rs, d). Ret (seqno, e\<lparr>ge_ring := rs\<rparr>, d)))"

definition gem_flush :: "u32 \<Rightarrow> u32 \<Rightarrow> gpu_env \<Rightarrow> 'a i915_dev_scheme \<Rightarrow> (u32 \<times> gpu_env \<times> 'a i915_dev_scheme) outcome" where
  "gem_flush inval flush e d =
     (let (c, e) = next_mem e
      in obind (i915_gem_flush c (ge_ring e) inval flush d) (\<lambda>(seqno, rs, d). Ret (seqno, e\<lparr>ge_ring := rs\<rparr>, d)))"

definition gem_retire :: "('a i915_dev_scheme) drm_driver_info \<Rightarrow> 'a sleeping \<Rightarrow> gpu_env \<Rightarrow> 'a i915_dev_scheme \<Rightarrow> 'a result" where
  "gem_retire drv sl e d =
     obind (i915_gem_retire_requests drv sl (Some (tn_seqno (ge_now e))) d) (\<lambda>d. Ret (E_OK, next_turn e, d))"

section \<open>Waiting\<close>

text \<open>\<^verbatim>\<open>while (ret == 0)\<close>. The interrupt is enabled for its time, which is left out.\<close>

fun wait_turns :: "bool \<Rightarrow> u32 \<Rightarrow> turn \<Rightarrow> turn list \<Rightarrow> 'a i915_dev_scheme \<Rightarrow> (errno \<times> turn \<times> turn list \<times> 'a i915_dev_scheme) outcome" where
  "wait_turns interruptible seqno t ts d =
     (if i915_seqno_passed (tn_seqno t) seqno \<or> wedged d \<noteq> 0 then Ret (E_OK, t, ts, d)
      else let d = d\<lparr>wedged := tn_wedged t\<rparr>
           in if interruptible \<and> tn_signal t \<noteq> E_OK then Ret (tn_signal t, t, ts, d)
              else case ts of
                [] \<Rightarrow> if wedged d \<noteq> 0 then Ret (E_OK, t, [], d) else Asleep
              | u # us \<Rightarrow> wait_turns interruptible seqno u us d)"

declare wait_turns.simps [simp del]

definition i915_wait_request ::
  "('a i915_dev_scheme) drm_driver_info \<Rightarrow> 'a sleeping \<Rightarrow> u32 \<Rightarrow> bool \<Rightarrow> gpu_env \<Rightarrow> 'a i915_dev_scheme \<Rightarrow> 'a result" where
  "i915_wait_request drv sl seqno interruptible e d =
     (if wedged d \<noteq> 0 then Ret (EIO, e, d)
      else obind (if seqno = next_gem_seqno d then add_request e d else Ret (seqno, e, d)) (\<lambda>(seqno', e, d').
           if seqno = next_gem_seqno d \<and> seqno' = 0 then Ret (ENOMEM, e, d')
           else obind (if \<not> i915_seqno_passed (tn_seqno (ge_now e)) seqno'
                       then let e = next_turn e
                            in obind (wait_turns interruptible seqno' (ge_now e) (ge_later e) d') (\<lambda>(ret, t, ts, d).
                               Ret (ret, e\<lparr>ge_now := t, ge_later := ts\<rparr>, d))
                       else Ret (E_OK, e, d')) (\<lambda>(ret, e, d).
                let ret = (if wedged d \<noteq> 0 then EIO else ret)
                in if ret = E_OK then gem_retire drv sl (next_turn e) d else Ret (ret, e, d))))"

text \<open>With \<open>pipelined\<close> the caller does not wait.\<close>

definition i915_gem_object_flush_gpu_write_domain ::
  "('a i915_dev_scheme) drm_driver_info \<Rightarrow> 'a sleeping \<Rightarrow> nat \<Rightarrow> bool \<Rightarrow> bool \<Rightarrow> bool \<Rightarrow> gpu_env \<Rightarrow> 'a i915_dev_scheme \<Rightarrow>
   'a result" where
  "i915_gem_object_flush_gpu_write_domain drv sl i pipelined interruptible write e d =
     (case objs d i of
        None \<Rightarrow> Panic
      | Some obj \<Rightarrow>
          obind (if write_domain obj AND I915_GEM_GPU_DOMAINS \<noteq> 0
                 then obind (gem_flush 0 (write_domain obj) e d) (\<lambda>(_, e, d).
                      if map_option write_domain (objs d i) \<noteq> Some 0 then Panic else Ret (e, d))
                 else Ret (e, d)) (\<lambda>(e, d).
          if \<not> pipelined \<and> inteldrm_is_active i d
          then i915_wait_request drv sl
                 (if write then last_rendering_seqno (iobj d i) else last_write_seqno (iobj d i)) interruptible e d
          else Ret (E_OK, e, d)))"

section \<open>Fence registers\<close>

text \<open>
  \<^verbatim>\<open>inteldrm_wipe_mappings\<close> takes the mappings of user space away, here and below: page tables are left
  out.
\<close>

definition i915_gem_object_put_fence_reg ::
  "('a i915_dev_scheme) drm_driver_info \<Rightarrow> 'a sleeping \<Rightarrow> nat \<Rightarrow> bool \<Rightarrow> gpu_env \<Rightarrow> 'a i915_dev_scheme \<Rightarrow> 'a result" where
  "i915_gem_object_put_fence_reg drv sl i interruptible e d =
     (if fence_reg (iobj d i) = I915_FENCE_REG_NONE then Ret (E_OK, e, d)
      else obind (if inteldrm_needs_fence i d
                  then i915_gem_object_flush_gpu_write_domain drv sl i True interruptible False e d
                  else Ret (E_OK, e, d)) (\<lambda>(ret, e, d).
           if ret \<noteq> E_OK then Ret (ret, e, d)
           else let n = nat (fence_reg (iobj d i))
                in if fence_reg (iobj d i) < 0 \<or> length (fence_regs d) \<le> n then Panic
                   else obind (if fence_seqno (fence_regs d ! n) \<noteq> 0
                               then i915_wait_request drv sl (fence_seqno (fence_regs d ! n)) interruptible e d
                               else Ret (E_OK, e, d)) (\<lambda>(ret, e, d).
                        if ret \<noteq> E_OK then Ret (ret, e, d)
                        else case objs d i of
                          None \<Rightarrow> Panic
                        | Some obj \<Rightarrow>
                            let d = (if (write_domain obj OR read_domains obj) AND I915_GEM_DOMAIN_GTT \<noteq> 0 \<and>
                                        write_domain obj = I915_GEM_DOMAIN_GTT
                                     then upd_obj i (write_domain_update (\<lambda>_. 0)) d else d);
                                d = d\<lparr>mmio_regs := clear_fence_reg (chip d) n (mmio_regs d)\<rparr>;
                                d = d\<lparr>fence_regs := (fence_regs d)[n := (fence_regs d ! n)\<lparr>fence_obj := None\<rparr>],
                                      fence_list := remove1 n (fence_list d)\<rparr>;
                                d = upd_iobj i (fence_reg_update (\<lambda>_. I915_FENCE_REG_NONE)) d
                            in Ret (E_OK, e, clear_flag I915_FENCE_INVALID i d))))"

text \<open>The first loop of \<^verbatim>\<open>i915_gem_get_fence_reg\<close>: a free register, or how many could be taken.\<close>

fun find_free_reg :: "nat list \<Rightarrow> nat \<Rightarrow> 'a i915_dev_scheme \<Rightarrow> nat + nat" where
  "find_free_reg [] avail d = Inr avail"
| "find_free_reg (i # is) avail d =
     (case fence_obj (fence_regs d ! i) of
        None \<Rightarrow> Inl i
      | Some j \<Rightarrow> find_free_reg is (if pin_count (iobj d j) = 0 then avail + 1 else avail) d)"

text \<open>The second: the least recently used register whose object can be held; the object has a reference then.\<close>

fun find_used_reg ::
  "('a i915_dev_scheme) drm_driver_info \<Rightarrow> 'a sleeping \<Rightarrow> nat list \<Rightarrow> 'a i915_dev_scheme \<Rightarrow> (nat option \<times> 'a i915_dev_scheme) outcome" where
  "find_used_reg drv sl [] d = Ret (None, d)"
| "find_used_reg drv sl (n # ns) d =
     (case fence_obj (fence_regs d ! n) of
        None \<Rightarrow> Panic
      | Some j \<Rightarrow>
          if pin_count (iobj d j) \<noteq> 0 then find_used_reg drv sl ns d
          else obind (drm_ref j d) (\<lambda>d.
               obind (drm_try_hold_object j d) (\<lambda>(held, d).
               if held then Ret (Some j, d)
               else obind (drm_unref drv (sl j) j d) (find_used_reg drv sl ns))))"

text \<open>
  \<^verbatim>\<open>again\<close>: \<open>fuel\<close> is how often the search is begun anew. A call that finds every object held by others
  spins without sleeping.
\<close>

fun fence_search ::
  "nat \<Rightarrow> ('a i915_dev_scheme) drm_driver_info \<Rightarrow> 'a sleeping \<Rightarrow> bool \<Rightarrow> gpu_env \<Rightarrow> 'a i915_dev_scheme \<Rightarrow>
   ((errno + nat) \<times> gpu_env \<times> 'a i915_dev_scheme) outcome" where
  "fence_search fuel drv sl interruptible e d =
     (case find_free_reg [fence_reg_start d ..< num_fence_regs d] 0 d of
        Inl i \<Rightarrow> Ret (Inr i, e, d)
      | Inr avail \<Rightarrow>
          if avail = 0 then Ret (Inl ENOMEM, e, d)
          else case fuel of
            0 \<Rightarrow> Asleep
          | Suc fuel \<Rightarrow>
              obind (find_used_reg drv sl (fence_list d) d) (\<lambda>(found, d).
              case found of
                None \<Rightarrow> fence_search fuel drv sl interruptible e d
              | Some j \<Rightarrow>
                  obind (i915_gem_object_put_fence_reg drv sl j interruptible e d) (\<lambda>(ret, e, d).
                  obind (drm_unhold_and_unref drv (sl j) j d) (\<lambda>d.
                  if ret \<noteq> E_OK then Ret (Inl ret, e, d) else fence_search fuel drv sl interruptible e d))))"

declare fence_search.simps [simp del]

definition fence_args_of :: "nat \<Rightarrow> drm_obj \<Rightarrow> 'a i915_dev_scheme \<Rightarrow> fence_args" where
  "fence_args_of i obj d =
     \<lparr>fa_offset = gtt_offset (iobj d i), fa_size = obj_size obj, fa_stride = stride (iobj d i), fa_tiling = tiling_mode (iobj d i)\<rparr>"

definition i915_gem_get_fence_reg ::
  "nat \<Rightarrow> ('a i915_dev_scheme) drm_driver_info \<Rightarrow> 'a sleeping \<Rightarrow> nat \<Rightarrow> bool \<Rightarrow> gpu_env \<Rightarrow> 'a i915_dev_scheme \<Rightarrow> 'a result" where
  "i915_gem_get_fence_reg fuel drv sl i interruptible e d =
     (if fence_reg (iobj d i) \<noteq> I915_FENCE_REG_NONE then Ret (E_OK, e, fence_lru i d)
      else if tiling_mode (iobj d i) \<in> {I915_TILING_X, I915_TILING_Y} \<and> stride (iobj d i) = 0 then Ret (EINVAL, e, d)
      else obind (fence_search fuel drv sl interruptible e d) (\<lambda>(found, e, d).
           case found of
             Inl ret \<Rightarrow> Ret (ret, e, d)
           | Inr n \<Rightarrow>
               (case objs d i of
                  None \<Rightarrow> Panic
                | Some obj \<Rightarrow>
                    let d = upd_iobj i (fence_reg_update (\<lambda>_. int n)) d;
                        d = d\<lparr>fence_regs := (fence_regs d)[n := (fence_regs d ! n)\<lparr>fence_obj := Some i\<rparr>],
                              fence_list := fence_list d @ [n]\<rparr>
                    in Ret (E_OK, e, d\<lparr>mmio_regs := write_fence_reg (chip d) n (fence_args_of i obj d) (mmio_regs d)\<rparr>))))"

section \<open>Domains\<close>

text \<open>The caches of the CPU, which \<^verbatim>\<open>bus_dmamap_sync\<close> flushes, need the map of a bound object.\<close>

definition i915_gem_object_set_to_cpu_domain ::
  "('a i915_dev_scheme) drm_driver_info \<Rightarrow> 'a sleeping \<Rightarrow> nat \<Rightarrow> bool \<Rightarrow> bool \<Rightarrow> gpu_env \<Rightarrow> 'a i915_dev_scheme \<Rightarrow> 'a result" where
  "i915_gem_object_set_to_cpu_domain drv sl i write interruptible e d =
     obind (i915_gem_object_flush_gpu_write_domain drv sl i False interruptible write e d) (\<lambda>(ret, e, d).
     if ret \<noteq> E_OK then Ret (ret, e, d)
     else case objs d i of
       None \<Rightarrow> Panic
     | Some obj \<Rightarrow>
         let d = (if write_domain obj = I915_GEM_DOMAIN_GTT then upd_obj i (write_domain_update (\<lambda>_. 0)) d else d)
         in obind (i915_gem_object_put_fence_reg drv sl i interruptible e d) (\<lambda>(ret, e, d).
            if ret \<noteq> E_OK then Ret (ret, e, d)
            else case objs d i of
              None \<Rightarrow> Panic
            | Some obj \<Rightarrow>
                if read_domains obj AND I915_GEM_DOMAIN_CPU = 0 \<and> \<not> bound (iobj d i) then Panic
                else if write_domain obj AND NOT I915_GEM_DOMAIN_CPU \<noteq> 0 then Panic
                else let d = upd_obj i (read_domains_update (\<lambda>w. w OR I915_GEM_DOMAIN_CPU)) d;
                         d = (if write then upd_obj i (read_domains_update (\<lambda>_. I915_GEM_DOMAIN_CPU) \<circ>
                                                       write_domain_update (\<lambda>_. I915_GEM_DOMAIN_CPU)) d else d)
                     in Ret (E_OK, e, d)))"

definition i915_gem_object_set_to_gtt_domain ::
  "nat \<Rightarrow> ('a i915_dev_scheme) drm_driver_info \<Rightarrow> 'a sleeping \<Rightarrow> nat \<Rightarrow> bool \<Rightarrow> bool \<Rightarrow> gpu_env \<Rightarrow> 'a i915_dev_scheme \<Rightarrow>
   'a result" where
  "i915_gem_object_set_to_gtt_domain fuel drv sl i write interruptible e d =
     (if \<not> bound (iobj d i) then Ret (EINVAL, e, d)
      else obind (i915_gem_object_flush_gpu_write_domain drv sl i False interruptible write e d) (\<lambda>(ret, e, d).
           if ret \<noteq> E_OK then Ret (ret, e, d)
           else let d = (if map_option write_domain (objs d i) = Some I915_GEM_DOMAIN_CPU
                         then upd_obj i (write_domain_update (\<lambda>_. 0)) d else d)
                in obind (if has_obj_flag I915_FENCE_INVALID i d
                          then i915_gem_object_put_fence_reg drv sl i interruptible e d
                          else Ret (E_OK, e, d)) (\<lambda>(ret, e, d).
                   if ret \<noteq> E_OK then Ret (ret, e, d)
                   else obind (if tiling_mode (iobj d i) \<noteq> I915_TILING_NONE
                               then i915_gem_get_fence_reg fuel drv sl i interruptible e d
                               else Ret (E_OK, e, d)) (\<lambda>(ret, e, d).
                   case objs d i of
                     None \<Rightarrow> Panic
                   | Some obj \<Rightarrow>
                       if write_domain obj AND NOT I915_GEM_DOMAIN_GTT \<noteq> 0 then Panic
                       else Ret (ret, e,
                         if write
                         then set_flag I915_DIRTY i (upd_obj i (read_domains_update (\<lambda>_. I915_GEM_DOMAIN_GTT) \<circ>
                                                                write_domain_update (\<lambda>_. I915_GEM_DOMAIN_GTT)) d)
                         else upd_obj i (read_domains_update (\<lambda>w. w OR I915_GEM_DOMAIN_GTT)) d)))))"

section \<open>Leaving the aperture\<close>

definition I915_DONTNEED :: u32 where "I915_DONTNEED = 0x0100"
definition I915_PURGED :: u32 where "I915_PURGED = 0x0200"

definition i915_obj_purgeable :: "nat \<Rightarrow> 'a i915_dev_scheme \<Rightarrow> bool" where
  "i915_obj_purgeable i d \<longleftrightarrow> has_obj_flag I915_DONTNEED i d"

definition i915_obj_purged :: "nat \<Rightarrow> 'a i915_dev_scheme \<Rightarrow> bool" where
  "i915_obj_purged i d \<longleftrightarrow> has_obj_flag I915_PURGED i d"

definition inteldrm_is_dirty :: "nat \<Rightarrow> 'a i915_dev_scheme \<Rightarrow> bool" where
  "inteldrm_is_dirty i d \<longleftrightarrow> has_obj_flag I915_DIRTY i d"

text \<open>What becomes of the pages is left out.\<close>

definition inteldrm_purge_obj :: "nat \<Rightarrow> 'a i915_dev_scheme \<Rightarrow> 'a i915_dev_scheme" where
  "inteldrm_purge_obj i d = set_flag I915_PURGED i d"

text \<open>
  \<^verbatim>\<open>agpdmat\<close> is there from attachment on. The pages that are swizzled, the DMA map and the wiring of the
  pages are left out: \<open>bound\<close> stands for all of them.
\<close>

definition i915_gem_object_unbind ::
  "('a i915_dev_scheme) drm_driver_info \<Rightarrow> 'a sleeping \<Rightarrow> nat \<Rightarrow> bool \<Rightarrow> gpu_env \<Rightarrow> 'a i915_dev_scheme \<Rightarrow> 'a result" where
  "i915_gem_object_unbind drv sl i interruptible e d =
     (if \<not> bound (iobj d i) then Ret (E_OK, e, d)
      else if pin_count (iobj d i) \<noteq> 0 then Ret (EINVAL, e, d)
      else if i915_obj_purged i d then Panic
      else obind (i915_gem_object_set_to_cpu_domain drv sl i True interruptible e d) (\<lambda>(ret, e, d).
           if ret \<noteq> E_OK then Ret (ret, e, d)
           else case objs d i of
             None \<Rightarrow> Panic
           | Some obj \<Rightarrow>
               if inteldrm_is_active i d then Panic
               else let d = upd_iobj i (bound_update (\<lambda>_. False)) d;
                        d = clear_flag I915_DIRTY i d;
                        d = upd_iobj i (gtt_offset_update (\<lambda>_. 0)) d;
                        d = d\<lparr>gtt_count := gtt_count d - 1, gtt_memory := gtt_memory d - ucast (obj_size obj)\<rparr>;
                        d = i915_list_remove i d
                    in Ret (E_OK, e, if i915_obj_purgeable i d then inteldrm_purge_obj i d else d)))"

end
