(* ===== verification/I915_Retire.thy ===== *)
theory I915_Retire
  imports I915_Mm Gem_Props
begin

text \<open>
  What the lists of \<^verbatim>\<open>i915_drv.c\<close> keep, and that retiring requests gives back exactly the objects the GPU
  is done with: none too early, none left.
\<close>

section \<open>Sequence numbers\<close>

text \<open>
  There are \<open>seqnos\<close> of them, 0 is none. \<open>num a k\<close> is the \<open>k\<close>th after \<open>a\<close> and \<open>pos a s\<close> the place of \<open>s\<close>,
  counted from \<open>a\<close>.
\<close>

definition seqnos :: nat where "seqnos = 2 ^ 32 - 1"

definition num :: "u32 \<Rightarrow> nat \<Rightarrow> u32" where
  "num a k = of_nat ((unat a - 1 + k) mod seqnos + 1)"

definition pos :: "u32 \<Rightarrow> u32 \<Rightarrow> nat" where
  "pos a s = (unat s - 1 + (seqnos - (unat a - 1))) mod seqnos"

lemma seqnos_pos [simp]: "0 < seqnos" "seqnos \<noteq> 0" "Suc 0 < seqnos"
  by (simp_all add: seqnos_def)

lemma unat_num: "unat (num a k) = (unat a - 1 + k) mod seqnos + 1"
proof -
  have "(unat a - 1 + k) mod seqnos < seqnos"
    by simp
  then have "(unat a - 1 + k) mod seqnos + 1 < 2 ^ 32"
    by (simp add: seqnos_def)
  then show ?thesis
    unfolding num_def by (simp only: unat_of_nat) (simp add: take_bit_nat_eq_self)
qed

lemma num_neq_0 [simp]: "num a k \<noteq> 0"
  using unat_num[of a k] by auto

lemma unat_seqno: "(s :: u32) \<noteq> 0 \<Longrightarrow> unat s - 1 < seqnos" "(s :: u32) \<noteq> 0 \<Longrightarrow> 1 \<le> unat s"
  using unsigned_less[of s, where 'a = nat] by (auto simp: seqnos_def unat_gt_0 Suc_le_eq)

lemma pos_less [simp]: "pos a s < seqnos"
  by (simp add: pos_def)

lemma pos_num: "a \<noteq> 0 \<Longrightarrow> k < seqnos \<Longrightarrow> pos a (num a k) = k"
proof -
  assume a: "a \<noteq> 0" and k: "k < seqnos"
  have "pos a (num a k) = ((unat a - 1 + k) mod seqnos + (seqnos - (unat a - 1))) mod seqnos"
    unfolding pos_def unat_num by simp
  also have "\<dots> = (unat a - 1 + k + (seqnos - (unat a - 1))) mod seqnos"
    by (simp add: mod_add_left_eq)
  also have "unat a - 1 + k + (seqnos - (unat a - 1)) = seqnos + k"
    using unat_seqno(1)[OF a] by simp
  finally show ?thesis
    using k by simp
qed

lemma num_pos: "a \<noteq> 0 \<Longrightarrow> s \<noteq> 0 \<Longrightarrow> num a (pos a s) = s"
proof -
  assume a: "a \<noteq> 0" and s: "s \<noteq> 0"
  have "(unat a - 1 + pos a s) mod seqnos = (unat a - 1 + (unat s - 1 + (seqnos - (unat a - 1)))) mod seqnos"
    by (simp add: pos_def mod_add_right_eq)
  also have "unat a - 1 + (unat s - 1 + (seqnos - (unat a - 1))) = seqnos + (unat s - 1)"
    using unat_seqno(1)[OF a] by simp
  also have "(seqnos + (unat s - 1)) mod seqnos = unat s - 1"
    using unat_seqno(1)[OF s] by (simp only: mod_add_self1 mod_less)
  finally have "unat (num a (pos a s)) = unat s"
    unfolding unat_num using unat_seqno(2)[OF s] by simp
  then show ?thesis
    by (simp add: word_unat_eq_iff)
qed

lemma num_0: "a \<noteq> 0 \<Longrightarrow> num a 0 = a"
  using unat_num[of a 0] unat_seqno[of a] by (simp add: word_unat_eq_iff)

lemma num_num: "num (num a j) k = num a (j + k)"
  by (simp add: word_unat_eq_iff unat_num mod_add_left_eq add.assoc)

lemma num_cycle: "num a (seqnos + k) = num a k"
proof -
  have "unat a - 1 + (seqnos + k) = seqnos + (unat a - 1 + k)"
    by simp
  then show ?thesis
    unfolding num_def by (simp only: mod_add_self1)
qed

lemma pos_shift: "a \<noteq> 0 \<Longrightarrow> s \<noteq> 0 \<Longrightarrow> j \<le> pos a s \<Longrightarrow> pos (num a j) s = pos a s - j"
proof -
  assume a: "a \<noteq> 0" and s: "s \<noteq> 0" and j: "j \<le> pos a s"
  have "s = num (num a j) (pos a s - j)"
    using num_pos[OF a s] j by (simp add: num_num)
  moreover have "pos a s - j < seqnos"
    using pos_less[of a s] by linarith
  ultimately show ?thesis
    using pos_num[of "num a j" "pos a s - j"] by simp
qed

lemma seqno_succ_num: "a \<noteq> 0 \<Longrightarrow> seqno_succ a = num a 1"
proof -
  assume a: "a \<noteq> 0"
  have u: "unat a - 1 + 1 = unat a"
    using unat_seqno[OF a] by simp
  show ?thesis
  proof (cases "a + 1 = 0")
    case True
    then have "a = - 1"
      by (simp add: eq_neg_iff_add_eq_0)
    then have "unat a = seqnos"
      by (simp add: unsigned_minus_1_eq_mask mask_eq_exp_minus_1 seqnos_def)
    then have "num a 1 = 1"
      unfolding num_def u by simp
    then show ?thesis
      using True by (simp add: seqno_succ_def)
  next
    case False
    then have "unat (a + 1) = unat a + 1"
      using unatSuc[of a] by (simp add: add.commute)
    then have "unat a < seqnos"
      using unsigned_less[of "a + 1", where 'a = nat] by (simp add: seqnos_def)
    then have "unat (num a 1) = unat (a + 1)"
      unfolding unat_num u by (simp add: \<open>unat (a + 1) = unat a + 1\<close>)
    then show ?thesis
      using False by (simp add: seqno_succ_def word_unat_eq_iff)
  qed
qed

text \<open>Within half of the numbers the signed difference tells which is later.\<close>

lemma seqno_passed_num:
  assumes "a \<noteq> 0" "k < 2 ^ 31 - 1" "j < 2 ^ 31 - 1"
  shows "i915_seqno_passed (num a k) (num a j) \<longleftrightarrow> j \<le> k"
proof -
  define x where "x = unat a - 1"
  let ?z = "int ((x + k) mod seqnos) - int ((x + j) mod seqnos)"
  have M: "int seqnos = 2 ^ 32 - 1"
    by (simp add: seqnos_def)
  have x: "x < seqnos"
    using unat_seqno(1)[OF assms(1)] by (simp add: x_def)
  have mod: "(x + i) mod seqnos = (if x + i < seqnos then x + i else x + i - seqnos)" if "i < 2 ^ 31 - 1" for i
    using x that by (simp add: mod_if seqnos_def)
  have diff: "num a k - num a j = word_of_int ?z"
    unfolding num_def x_def[symmetric] by simp
  define c where "c = (if x + k < seqnos \<longleftrightarrow> x + j < seqnos then int k - int j
      else if x + k < seqnos then int k - int j - 1 else int k - int j + 1)"
  have "?z = c \<or> ?z = c + 2 ^ 32 \<or> ?z = c - 2 ^ 32"
    using M unfolding mod[OF assms(2)] mod[OF assms(3)] c_def by auto
  moreover have "(word_of_int (c + 2 ^ 32) :: u32) = word_of_int c" "(word_of_int (c - 2 ^ 32) :: u32) = word_of_int c"
    by (simp_all only: of_int_add of_int_diff) simp_all
  ultimately have "(word_of_int ?z :: u32) = word_of_int c"
    by (elim disjE) (simp_all only:)
  then have "num a k - num a j = word_of_int c"
    unfolding diff .
  moreover have "- (2 ^ 31) \<le> c" "c < 2 ^ 31"
    using assms(2,3) by (auto simp: c_def)
  ultimately have "sint (num a k - num a j) = c"
    using sint_small by simp
  moreover have "0 \<le> c \<longleftrightarrow> j \<le> k"
    using M x by (auto simp: c_def)
  ultimately show ?thesis
    by (simp add: i915_seqno_passed_def)
qed

section \<open>The invariant\<close>

text \<open>An object is on a list exactly if it says so, and on the list of GPU writes exactly if it has the flag.\<close>

definition lists_ok :: "'a i915_dev_scheme \<Rightarrow> bool" where
  "lists_ok d \<longleftrightarrow>
     (\<forall>L. distinct (mm_list d L)) \<and> (\<forall>i L. i \<in> set (mm_list d L) \<longleftrightarrow> current_list (iobj d i) = Some L)"

definition writes_ok :: "'a i915_dev_scheme \<Rightarrow> bool" where
  "writes_ok d \<longleftrightarrow>
     distinct (gpu_write_list d) \<and> (\<forall>i. i \<in> set (gpu_write_list d) \<longleftrightarrow> has_obj_flag I915_GPU_WRITE i d)"

text \<open>
  Who holds an object has a reference of his own, besides that of the active list; an object is active
  while it is on the active or the flushing list.
\<close>

definition obj_fine :: "nat \<Rightarrow> 'a i915_dev_scheme \<Rightarrow> bool" where
  "obj_fine i d \<longleftrightarrow>
     (case objs d i of
        None \<Rightarrow> current_list (iobj d i) = None
      | Some obj \<Rightarrow>
          1 \<le> uo_refs obj \<and>
          (bit (do_flags obj) 0 \<and> bit (do_flags obj) 4 \<longrightarrow> 2 \<le> uo_refs obj) \<and>
          (bit (do_flags obj) 7 \<longrightarrow> write_domain obj \<noteq> 0) \<and>
          (bit (do_flags obj) 4 \<longleftrightarrow> current_list (iobj d i) \<in> {Some ACTIVE_LIST, Some FLUSHING_LIST}) \<and>
          (fence_reg (iobj d i) = I915_FENCE_REG_NONE \<or>
           0 \<le> fence_reg (iobj d i) \<and> nat (fence_reg (iobj d i)) < length (fence_regs d)) \<and>
          (bit (do_flags obj) 12 \<longrightarrow> fence_reg (iobj d i) \<noteq> I915_FENCE_REG_NONE))"

text \<open>
  The numbers of the requests still to be retired and the next one follow each other, and the objects
  on the active list are in the order of the requests they wait for.
\<close>

definition seq_base :: "'a i915_dev_scheme \<Rightarrow> u32" where
  "seq_base d = hd (request_list d @ [next_gem_seqno d])"

definition seq_pos :: "'a i915_dev_scheme \<Rightarrow> nat \<Rightarrow> nat" where
  "seq_pos d i = pos (seq_base d) (last_rendering_seqno (iobj d i))"

definition seqs_ok :: "'a i915_dev_scheme \<Rightarrow> bool" where
  "seqs_ok d \<longleftrightarrow>
     seq_base d \<noteq> 0 \<and> length (request_list d) < seqnos \<and>
     request_list d @ [next_gem_seqno d] = map (num (seq_base d)) [0..<Suc (length (request_list d))] \<and>
     (\<forall>i\<in>set (mm_list d ACTIVE_LIST). last_rendering_seqno (iobj d i) \<noteq> 0 \<and> seq_pos d i \<le> length (request_list d)) \<and>
     sorted (map (seq_pos d) (mm_list d ACTIVE_LIST))"

definition mm_inv :: "'a i915_dev_scheme \<Rightarrow> bool" where
  "mm_inv d \<longleftrightarrow> lists_ok d \<and> writes_ok d \<and> (\<forall>i. obj_fine i d) \<and> seqs_ok d"

text \<open>
  What freeing an object does that the GPU is done with (\<^verbatim>\<open>i915_gem_free_object\<close>): it takes the object off
  its list and touches no other.
\<close>

definition frees_idle :: "('a i915_dev_scheme) drm_driver_info \<Rightarrow> bool" where
  "frees_idle drv \<longleftrightarrow>
     (case gem_free_object drv of
        None \<Rightarrow> False
      | Some cb \<Rightarrow> \<forall>d i. lists_ok d \<and> \<not> inteldrm_is_active i d \<and> current_list (iobj d i) \<in> {None, Some INACTIVE_LIST} \<longrightarrow>
          mm_list (cb d i) = (mm_list d)(INACTIVE_LIST := remove1 i (mm_list d INACTIVE_LIST)) \<and>
          current_list (iobj (cb d i) i) = None \<and>
          (\<forall>j. j \<noteq> i \<longrightarrow> iobj (cb d i) j = iobj d j \<and> objs (cb d i) j = objs d j) \<and>
          gpu_write_list (cb d i) = gpu_write_list d \<and> request_list (cb d i) = request_list d \<and>
          next_gem_seqno (cb d i) = next_gem_seqno d \<and> wedged (cb d i) = wedged d \<and>
          map fence_seqno (fence_regs (cb d i)) = map fence_seqno (fence_regs d))"

section \<open>Flags and lists\<close>

lemma flag_bits:
  "(w :: u32) AND DRM_BUSY \<noteq> 0 \<longleftrightarrow> bit w 0"
  "(w :: u32) AND I915_ACTIVE \<noteq> 0 \<longleftrightarrow> bit w 4"
  "(w :: u32) AND I915_GPU_WRITE \<noteq> 0 \<longleftrightarrow> bit w 7"
  "(w :: u32) AND I915_EXEC_NEEDS_FENCE \<noteq> 0 \<longleftrightarrow> bit w 11"
  "(w :: u32) AND I915_FENCED_EXEC \<noteq> 0 \<longleftrightarrow> bit w 12"
  by (simp_all add: bit_iff_and_push_bit_not_eq_0 DRM_BUSY_def I915_ACTIVE_def I915_GPU_WRITE_def
      I915_EXEC_NEEDS_FENCE_def I915_FENCED_EXEC_def)

lemma bit_push_1: "k < 32 \<Longrightarrow> bit (push_bit k 1 :: u32) n \<longleftrightarrow> n = k"
  by (auto simp: bit_push_bit_iff bit_1_iff simp del: push_bit_of_1)

lemma bit_flags:
  "bit DRM_BUSY n \<longleftrightarrow> n = 0" "bit I915_ACTIVE n \<longleftrightarrow> n = 4" "bit I915_GPU_WRITE n \<longleftrightarrow> n = 7"
  "bit I915_FENCED_EXEC n \<longleftrightarrow> n = 12" "bit I915_DIRTY n \<longleftrightarrow> n = 10"
  using bit_push_1[of 0 n] bit_push_1[of 4 n] bit_push_1[of 7 n] bit_push_1[of 12 n] bit_push_1[of 10 n]
  by (simp_all add: DRM_BUSY_def I915_ACTIVE_def I915_GPU_WRITE_def I915_FENCED_EXEC_def I915_DIRTY_def)

lemmas flag_simps = flag_bits bit_flags bit_or_iff bit_and_iff bit_not_iff

lemma is_active_iff: "objs d i = Some obj \<Longrightarrow> inteldrm_is_active i d \<longleftrightarrow> bit (do_flags obj) 4"
  "objs d i = Some obj \<Longrightarrow> inteldrm_needs_fence i d \<longleftrightarrow> bit (do_flags obj) 12"
  "objs d i = Some obj \<Longrightarrow> inteldrm_exec_needs_fence i d \<longleftrightarrow> bit (do_flags obj) 11"
  "objs d i = Some obj \<Longrightarrow> has_obj_flag I915_GPU_WRITE i d \<longleftrightarrow> bit (do_flags obj) 7"
  by (simp_all add: inteldrm_is_active_def inteldrm_needs_fence_def inteldrm_exec_needs_fence_def has_obj_flag_def flag_bits)

text \<open>Moving an object between lists, in terms of what changes.\<close>

lemma list_remove_eq:
  "i915_list_remove i d = d\<lparr>mm_list := \<lambda>L. if current_list (iobj d i) = Some L then remove1 i (mm_list d L) else mm_list d L,
     iobj := (iobj d)(i := (iobj d i)\<lparr>current_list := None\<rparr>)\<rparr>"
  by (cases "current_list (iobj d i)") (auto simp: i915_list_remove_def upd_iobj_def fun_eq_iff)

lemma move_to_tail_eq:
  "i915_move_to_tail i M d = d\<lparr>mm_list := \<lambda>L. (if current_list (iobj d i) = Some L then remove1 i (mm_list d L) else mm_list d L) @
       (if L = M then [i] else []),
     iobj := (iobj d)(i := (iobj d i)\<lparr>current_list := Some M\<rparr>)\<rparr>"
  by (auto simp: i915_move_to_tail_def list_remove_eq upd_iobj_def fun_eq_iff Let_def)

lemma lists_ok_move:
  assumes "lists_ok d"
  shows "lists_ok (i915_list_remove i d)" "lists_ok (i915_move_to_tail i M d)"
  using assms by (auto simp: lists_ok_def list_remove_eq move_to_tail_eq)

section \<open>Retiring one object\<close>

definition fine :: "'a i915_dev_scheme \<Rightarrow> bool" where
  "fine d \<longleftrightarrow> lists_ok d \<and> writes_ok d \<and> (\<forall>i. obj_fine i d)"

text \<open>What becomes of an object that is retired: flushed later, idle, or freed.\<close>

definition dirty :: "'a i915_dev_scheme \<Rightarrow> nat \<Rightarrow> bool" where
  "dirty d i \<longleftrightarrow> (case objs d i of None \<Rightarrow> False | Some obj \<Rightarrow> write_domain obj \<noteq> 0)"

definition goes_idle :: "'a i915_dev_scheme \<Rightarrow> nat \<Rightarrow> bool" where
  "goes_idle d i \<longleftrightarrow> pin_count (iobj d i) = 0 \<and>
     (case objs d i of None \<Rightarrow> False | Some obj \<Rightarrow> write_domain obj = 0 \<and> 1 < uo_refs obj)"

definition released :: "'a i915_dev_scheme \<Rightarrow> 'a i915_dev_scheme \<Rightarrow> nat \<Rightarrow> bool" where
  "released d d' i \<longleftrightarrow>
     (case objs d i of
        None \<Rightarrow> False
      | Some obj \<Rightarrow>
          if write_domain obj \<noteq> 0 then objs d' i = Some obj \<and> last_rendering_seqno (iobj d' i) = 0
          else if uo_refs obj = 1 then objs d' i = None
          else objs d' i = Some (obj\<lparr>uo_refs := uo_refs obj - 1,
                 do_flags := (do_flags obj AND NOT I915_FENCED_EXEC) AND NOT I915_ACTIVE\<rparr>) \<and>
               last_rendering_seqno (iobj d' i) = 0)"

text \<open>The numbers of the fence registers are kept or forgotten; that of a retired object is forgotten.\<close>

definition fences_kept :: "'a i915_dev_scheme \<Rightarrow> 'a i915_dev_scheme \<Rightarrow> bool" where
  "fences_kept d d' \<longleftrightarrow>
     length (fence_regs d') = length (fence_regs d) \<and>
     (\<forall>n<length (fence_regs d). fence_seqno (fence_regs d' ! n) \<in> {0, fence_seqno (fence_regs d ! n)})"

definition keeps_place :: "'a i915_dev_scheme \<Rightarrow> 'a i915_dev_scheme \<Rightarrow> nat \<Rightarrow> bool" where
  "keeps_place d d' i \<longleftrightarrow>
     bound (iobj d' i) = bound (iobj d i) \<and> pin_count (iobj d' i) = pin_count (iobj d i) \<and>
     fence_reg (iobj d' i) = fence_reg (iobj d i) \<and>
     (fence_reg (iobj d i) \<noteq> I915_FENCE_REG_NONE \<longrightarrow> fence_seqno (fence_regs d' ! nat (fence_reg (iobj d i))) = 0)"

definition retires :: "nat list \<Rightarrow> 'a i915_dev_scheme \<Rightarrow> 'a i915_dev_scheme \<Rightarrow> bool" where
  "retires xs d d' \<longleftrightarrow>
     fine d' \<and> mm_list d ACTIVE_LIST = xs @ mm_list d' ACTIVE_LIST \<and>
     mm_list d' FLUSHING_LIST = mm_list d FLUSHING_LIST @ filter (dirty d) xs \<and>
     mm_list d' INACTIVE_LIST = mm_list d INACTIVE_LIST @ filter (goes_idle d) xs \<and>
     (\<forall>i\<in>set xs. released d d' i) \<and>
     (\<forall>i. i \<notin> set xs \<longrightarrow> iobj d' i = iobj d i \<and> objs d' i = objs d i) \<and>
     next_gem_seqno d' = next_gem_seqno d \<and> wedged d' = wedged d \<and>
     fences_kept d d' \<and> (\<forall>i\<in>set xs. objs d' i \<noteq> None \<longrightarrow> keeps_place d d' i)"

lemma move_off_active_eq:
  assumes "objs d i = Some obj"
    "fence_reg (iobj d i) = I915_FENCE_REG_NONE \<or> 0 \<le> fence_reg (iobj d i) \<and> nat (fence_reg (iobj d i)) < length (fence_regs d)"
  shows "\<exists>fr w. length fr = length (fence_regs d) \<and> (\<forall>n<length (fence_regs d). fence_seqno (fr ! n) \<in> {0, fence_seqno (fence_regs d ! n)}) \<and>
    (fence_reg (iobj d i) \<noteq> I915_FENCE_REG_NONE \<longrightarrow> fence_seqno (fr ! nat (fence_reg (iobj d i))) = 0) \<and>
    i915_gem_object_move_off_active i d =
      Ret (d\<lparr>iobj := (iobj d)(i := (iobj d i)\<lparr>last_rendering_seqno := 0, last_write_seqno := w\<rparr>), fence_regs := fr\<rparr>)"
proof -
  let ?n = "nat (fence_reg (iobj d i))"
  let ?fr = "if fence_reg (iobj d i) = I915_FENCE_REG_NONE then fence_regs d
    else (fence_regs d)[?n := (fence_regs d ! ?n)\<lparr>fence_seqno := 0\<rparr>]"
  let ?w = "if write_domain obj = 0 then 0 else last_write_seqno (iobj d i)"
  have "i915_gem_object_move_off_active i d =
      Ret (d\<lparr>iobj := (iobj d)(i := (iobj d i)\<lparr>last_rendering_seqno := 0, last_write_seqno := ?w\<rparr>), fence_regs := ?fr\<rparr>)"
    using assms by (auto simp: i915_gem_object_move_off_active_def upd_iobj_def set_fence_seqno_def Let_def)
  moreover have "length ?fr = length (fence_regs d)" "\<forall>n<length (fence_regs d). fence_seqno (?fr ! n) \<in> {0, fence_seqno (fence_regs d ! n)}"
    "fence_reg (iobj d i) \<noteq> I915_FENCE_REG_NONE \<longrightarrow> fence_seqno (?fr ! nat (fence_reg (iobj d i))) = 0"
    using assms(2) by (auto simp: nth_list_update)
  ultimately show ?thesis
    by blast
qed

lemma obj_fine_other:
  "obj_fine j d \<Longrightarrow> objs d' j = objs d j \<Longrightarrow> iobj d' j = iobj d j \<Longrightarrow> length (fence_regs d') = length (fence_regs d) \<Longrightarrow>
    obj_fine j d'"
  by (cases "objs d j") (auto simp: obj_fine_def)

lemma on_list: "lists_ok d \<Longrightarrow> i \<in> set (mm_list d L) \<Longrightarrow> current_list (iobj d i) = Some L"
  by (simp add: lists_ok_def)

lemma writes_ok_other:
  assumes "writes_ok d" "gpu_write_list d' = gpu_write_list d" "\<And>j. has_obj_flag I915_GPU_WRITE j d' = has_obj_flag I915_GPU_WRITE j d"
  shows "writes_ok d'"
  using assms by (simp add: writes_ok_def)

lemma retire_dirty:
  assumes fine: "fine d" and act: "mm_list d ACTIVE_LIST = i # rest" and obj: "objs d i = Some obj" "write_domain obj \<noteq> 0"
  shows "\<exists>d'. retire_object drv sl i d = Ret d' \<and> retires [i] d d' \<and> request_list d' = request_list d"
proof -
  have ok: "lists_ok d" "writes_ok d" "obj_fine j d" for j
    using fine by (auto simp: fine_def)
  have on: "current_list (iobj d i) = Some ACTIVE_LIST"
    using act by (intro on_list[OF ok(1)]) simp
  then have active: "bit (do_flags obj) 4"
    using ok(3)[of i] obj by (simp add: obj_fine_def)
  define d1 where "d1 = i915_move_to_tail i FLUSHING_LIST d"
  have d1: "objs d1 i = Some obj" "fence_reg (iobj d1 i) = fence_reg (iobj d i)" "fence_regs d1 = fence_regs d"
    using obj by (simp_all add: d1_def move_to_tail_eq)
  obtain fr w where off: "length fr = length (fence_regs d)" "i915_gem_object_move_off_active i d1 =
      Ret (d1\<lparr>iobj := (iobj d1)(i := (iobj d1 i)\<lparr>last_rendering_seqno := 0, last_write_seqno := w\<rparr>), fence_regs := fr\<rparr>)"
    and fr: "\<forall>n<length (fence_regs d). fence_seqno (fr ! n) \<in> {0, fence_seqno (fence_regs d ! n)}"
      "fence_reg (iobj d i) \<noteq> I915_FENCE_REG_NONE \<longrightarrow> fence_seqno (fr ! nat (fence_reg (iobj d i))) = 0"
    using move_off_active_eq[OF d1(1)] ok(3)[of i] obj(1) d1 by (auto simp: obj_fine_def)
  define d2 where "d2 = d1\<lparr>iobj := (iobj d1)(i := (iobj d1 i)\<lparr>last_rendering_seqno := 0, last_write_seqno := w\<rparr>), fence_regs := fr\<rparr>"
  have "retire_object drv sl i d = Ret d2"
    using obj active off(2) by (simp add: retire_object_def is_active_iff d1_def d2_def)
  moreover have "lists_ok d2"
    using lists_ok_move(2)[OF ok(1), of i FLUSHING_LIST] by (simp add: lists_ok_def d2_def d1_def[symmetric])
  moreover have "writes_ok d2"
    by (rule writes_ok_other[OF ok(2)]) (simp_all add: d2_def d1_def move_to_tail_eq has_obj_flag_def)
  moreover have "obj_fine j d2" for j
  proof (cases "j = i")
    case True
    then show ?thesis
      using ok(3)[of i] obj active off(1) by (auto simp: obj_fine_def d2_def d1_def move_to_tail_eq)
  next
    case False
    then show ?thesis
      using off(1) by (intro obj_fine_other[OF ok(3)[of j]]) (simp_all add: d2_def d1_def move_to_tail_eq)
  qed
  moreover have "fences_kept d d2" "keeps_place d d2 i"
    using off(1) fr by (simp_all add: fences_kept_def keeps_place_def d2_def d1_def move_to_tail_eq)
  ultimately show ?thesis
    using act on obj by (intro exI[of _ d2]) (auto simp: retires_def fine_def d2_def d1_def move_to_tail_eq dirty_def goes_idle_def released_def)
qed

lemma retire_clean:
  assumes fine: "fine d" and act: "mm_list d ACTIVE_LIST = i # rest" and obj: "objs d i = Some obj" "write_domain obj = 0"
    and drv: "frees_idle drv"
  shows "\<exists>d'. retire_object drv sl i d = Ret d' \<and> retires [i] d d' \<and> request_list d' = request_list d"
proof -
  have ok: "lists_ok d" "writes_ok d" "obj_fine j d" for j
    using fine by (auto simp: fine_def)
  have on: "current_list (iobj d i) = Some ACTIVE_LIST"
    using act by (intro on_list[OF ok(1)]) simp
  then have fl: "bit (do_flags obj) 4" "\<not> bit (do_flags obj) 7" "1 \<le> uo_refs obj" "bit (do_flags obj) 0 \<longrightarrow> 2 \<le> uo_refs obj"
    using ok(3)[of i] obj by (auto simp: obj_fine_def)
  define pinned where "pinned \<longleftrightarrow> pin_count (iobj d i) \<noteq> 0"
  define d1 where "d1 = (if pinned then i915_list_remove i d else i915_move_to_tail i INACTIVE_LIST d)"
  have d1: "objs d1 = objs d" "fence_reg (iobj d1 i) = fence_reg (iobj d i)" "fence_regs d1 = fence_regs d"
    by (simp_all add: d1_def move_to_tail_eq list_remove_eq)
  obtain fr w where off: "length fr = length (fence_regs d)" "i915_gem_object_move_off_active i d1 =
      Ret (d1\<lparr>iobj := (iobj d1)(i := (iobj d1 i)\<lparr>last_rendering_seqno := 0, last_write_seqno := w\<rparr>), fence_regs := fr\<rparr>)"
    and fr: "\<forall>n<length (fence_regs d). fence_seqno (fr ! n) \<in> {0, fence_seqno (fence_regs d ! n)}"
      "fence_reg (iobj d i) \<noteq> I915_FENCE_REG_NONE \<longrightarrow> fence_seqno (fr ! nat (fence_reg (iobj d i))) = 0"
    using move_off_active_eq[of d1 i obj] ok(3)[of i] obj(1) d1 by (auto simp: obj_fine_def)
  define d2 where "d2 = d1\<lparr>iobj := (iobj d1)(i := (iobj d1 i)\<lparr>last_rendering_seqno := 0, last_write_seqno := w\<rparr>), fence_regs := fr\<rparr>"
  define fl' where "fl' = (do_flags obj AND NOT I915_FENCED_EXEC) AND NOT I915_ACTIVE"
  define d3 where "d3 = d2\<lparr>objs := (objs d)(i := Some (obj\<lparr>do_flags := fl'\<rparr>))\<rparr>"
  have d3: "clear_flag I915_ACTIVE i (clear_flag I915_FENCED_EXEC i d2) = d3"
    using obj d1 by (cases obj) (simp add: clear_flag_def upd_obj_def d3_def d2_def fl'_def)
  have unref: "retire_object drv sl i d = drm_unref_locked drv sl i d3"
    using obj fl off(2) d1 unfolding d3[symmetric]
    by (simp add: retire_object_def i915_gem_object_move_to_inactive_locked_def d1_def[symmetric] d2_def[symmetric] pinned_def[symmetric])
      (simp add: Let_def has_obj_flag_def inteldrm_is_active_def clear_flag_def upd_obj_def d2_def flag_simps)
  have fl'_bits: "bit fl' n \<longleftrightarrow> bit (do_flags obj) n \<and> n \<noteq> 12 \<and> n \<noteq> 4" for n
    by (cases "n < 32") (auto simp: fl'_def flag_simps dest: bit_imp_le_length)
  have lists: "lists_ok d3"
    using lists_ok_move[OF ok(1), of i] by (auto simp: lists_ok_def d3_def d2_def d1_def list_remove_eq move_to_tail_eq)
  have mm3: "mm_list d3 ACTIVE_LIST = rest" "mm_list d3 FLUSHING_LIST = mm_list d FLUSHING_LIST"
    "mm_list d3 INACTIVE_LIST = mm_list d INACTIVE_LIST @ (if pinned then [] else [i])"
    using act on by (simp_all add: d3_def d2_def d1_def list_remove_eq move_to_tail_eq)
  have cur3: "current_list (iobj d3 i) = (if pinned then None else Some INACTIVE_LIST)" "last_rendering_seqno (iobj d3 i) = 0"
    "fence_reg (iobj d3 i) = fence_reg (iobj d i)" "objs d3 i = Some (obj\<lparr>do_flags := fl'\<rparr>)"
    by (simp_all add: d3_def d2_def d1_def list_remove_eq move_to_tail_eq)
  have other3: "iobj d3 j = iobj d j" "objs d3 j = objs d j" if "j \<noteq> i" for j
    using that by (simp_all add: d3_def d2_def d1_def list_remove_eq move_to_tail_eq)
  have same3: "gpu_write_list d3 = gpu_write_list d" "request_list d3 = request_list d" "next_gem_seqno d3 = next_gem_seqno d"
    "wedged d3 = wedged d" "length (fence_regs d3) = length (fence_regs d)"
    using off(1) by (simp_all add: d3_def d2_def d1_def list_remove_eq move_to_tail_eq)
  show ?thesis
  proof (cases "uo_refs obj > 1")
    case True
    define d4 where "d4 = d3\<lparr>objs := (objs d)(i := Some (obj\<lparr>uo_refs := uo_refs obj - 1, do_flags := fl'\<rparr>))\<rparr>"
    have "retire_object drv sl i d = Ret d4"
      using True unfolding unref by (subst drm_unref_locked.simps) (cases obj, simp add: cur3 upd_obj_def d4_def d3_def)
    moreover have "lists_ok d4"
      using lists by (simp add: lists_ok_def d4_def)
    moreover have "writes_ok d4"
      using fl(2) obj by (intro writes_ok_other[OF ok(2)]) (simp_all add: d4_def same3 has_obj_flag_def flag_bits fl'_bits)
    moreover have "obj_fine j d4" for j
    proof (cases "j = i")
      case True
      then show ?thesis
        using ok(3)[of i] obj fl \<open>uo_refs obj > 1\<close> cur3 same3 by (auto simp: obj_fine_def d4_def fl'_bits)
    next
      case False
      then show ?thesis
        using other3[OF False] same3 by (intro obj_fine_other[OF ok(3)[of j]]) (simp_all add: d4_def)
    qed
    moreover have "fences_kept d d4" "keeps_place d d4 i"
      using off(1) fr by (simp_all add: fences_kept_def keeps_place_def d4_def d3_def d2_def d1_def move_to_tail_eq list_remove_eq)
    ultimately show ?thesis
      using act obj True mm3 other3 same3 cur3
      by (intro exI[of _ d4]) (auto simp: retires_def fine_def d4_def dirty_def goes_idle_def released_def pinned_def fl'_def)
  next
    case False
    then have one: "uo_refs obj = 1" "\<not> bit (do_flags obj) 0"
      using fl by auto
    obtain cb where cb: "gem_free_object drv = Some cb"
      using drv by (auto simp: frees_idle_def split: option.splits)
    define d5 where "d5 = upd_obj i (do_flags_update (\<lambda>w. w OR DRM_BUSY)) d3"
    have d5: "iobj d5 = iobj d3" "\<not> inteldrm_is_active i d5" "current_list (iobj d5 i) \<in> {None, Some INACTIVE_LIST}" "lists_ok d5"
      using lists by (simp_all add: d5_def upd_obj_def inteldrm_is_active_def has_obj_flag_def cur3 flag_simps fl'_bits lists_ok_def)
    note C = drv[unfolded frees_idle_def cb option.case, rule_format, OF conjI[OF d5(4) conjI[OF d5(2,3)]]]
    define d6 where "d6 = free_object drv i (obj\<lparr>do_flags := fl'\<rparr>) d3"
    have d6: "d6 = (cb d5 i)\<lparr>uao_count := uao_count (cb d5 i) - 1, obj_count := obj_count (cb d5 i) - 1,
        obj_memory := obj_memory (cb d5 i) - ucast (obj_size obj), objs := (objs (cb d5 i))(i := None)\<rparr>"
      by (simp add: d6_def free_object_def cb d5_def Let_def)
    have "retire_object drv sl i d = Ret d6"
      using one unfolding unref by (subst drm_unref_locked.simps) (simp add: cur3 flag_bits fl'_bits d6_def)
    moreover have mm6: "mm_list d6 = (mm_list d3)(INACTIVE_LIST := remove1 i (mm_list d3 INACTIVE_LIST))"
      using C by (simp add: d6 d5_def upd_obj_def)
    moreover have cur6: "current_list (iobj d6 i) = None" "objs d6 i = None"
      using C by (simp_all add: d6)
    moreover have other6: "iobj d6 j = iobj d j" "objs d6 j = objs d j" if "j \<noteq> i" for j
      using C that other3[OF that] by (simp_all add: d6 d5_def upd_obj_def)
    have same6: "gpu_write_list d6 = gpu_write_list d" "request_list d6 = request_list d" "next_gem_seqno d6 = next_gem_seqno d"
      "wedged d6 = wedged d" "length (fence_regs d6) = length (fence_regs d)"
      using C same3 map_eq_imp_length_eq[of fence_seqno "fence_regs (cb d5 i)" fence_seqno "fence_regs d5"]
      by (simp_all add: d6 d5_def upd_obj_def)
    moreover have "fences_kept d d6"
    proof -
      have "map fence_seqno (fence_regs d6) = map fence_seqno fr"
        using C by (simp add: d6 d5_def upd_obj_def d3_def d2_def)
      then have "fence_seqno (fence_regs d6 ! n) = fence_seqno (fr ! n)" if "n < length (fence_regs d)" for n
        using that off(1) same6(5) by (metis nth_map)
      then show ?thesis
        using fr(1) same6(5) by (simp add: fences_kept_def)
    qed
    moreover have "lists_ok d6"
      unfolding lists_ok_def
    proof (intro conjI allI)
      show "distinct (mm_list d6 L)" for L
        using lists by (simp add: mm6 lists_ok_def)
      show "j \<in> set (mm_list d6 L) \<longleftrightarrow> current_list (iobj d6 j) = Some L" for j L
        using lists cur6 other6[of j] other3[of j] cur3 by (cases "j = i") (auto simp: mm6 lists_ok_def split: if_splits)
    qed
    moreover have "writes_ok d6"
    proof (rule writes_ok_other[OF ok(2) same6(1)])
      show "has_obj_flag I915_GPU_WRITE j d6 = has_obj_flag I915_GPU_WRITE j d" for j
        using fl(2) obj cur6 other6[of j] by (cases "j = i") (simp_all add: has_obj_flag_def flag_bits)
    qed
    moreover have "obj_fine j d6" for j
    proof (cases "j = i")
      case False
      then show ?thesis
        using other6[OF False] same6 by (intro obj_fine_other[OF ok(3)[of j]]) simp_all
    qed (simp add: obj_fine_def cur6)
    ultimately show ?thesis
      using act obj one mm3 same6 cur6 other6 on_list[OF ok(1), of i INACTIVE_LIST] on
      by (intro exI[of _ d6]) (auto simp: retires_def fine_def dirty_def goes_idle_def released_def remove1_append remove1_idem)
  qed
qed

lemma retire_object_retires:
  assumes "fine d" "mm_list d ACTIVE_LIST = i # rest" "frees_idle drv"
  shows "\<exists>d'. retire_object drv sl i d = Ret d' \<and> retires [i] d d' \<and> request_list d' = request_list d"
proof -
  have "current_list (iobj d i) = Some ACTIVE_LIST"
    using assms by (intro on_list) (auto simp: fine_def)
  moreover have "obj_fine i d"
    using assms(1) by (simp add: fine_def)
  ultimately obtain obj where "objs d i = Some obj"
    by (cases "objs d i") (auto simp: obj_fine_def)
  then show ?thesis
    using retire_dirty[OF assms(1,2)] retire_clean[OF assms(1,2) _ _ assms(3)] by blast
qed

section \<open>The loops\<close>

lemma retires_refl: "fine d \<Longrightarrow> retires [] d d"
  by (simp add: retires_def fences_kept_def)

lemma retires_trans:
  assumes "fine d" "retires xs d d1" "retires ys d1 d2"
  shows "retires (xs @ ys) d d2"
proof -
  have "distinct (xs @ ys @ mm_list d2 ACTIVE_LIST)"
    using assms by (metis append_assoc fine_def lists_ok_def retires_def)
  then have apart: "i \<notin> set ys" if "i \<in> set xs" for i
    using that by auto
  have same: "iobj d1 i = iobj d i" "objs d1 i = objs d i" if "i \<in> set ys" for i
    using assms(2) apart that by (auto simp: retires_def)
  have "filter (dirty d1) ys = filter (dirty d) ys" "filter (goes_idle d1) ys = filter (goes_idle d) ys"
    using same by (auto simp: dirty_def goes_idle_def intro!: filter_cong)
  moreover have "released d d2 i" if "i \<in> set xs" for i
    using assms(2,3) apart[OF that] that by (auto simp: retires_def released_def split: option.splits)
  moreover have "released d d2 i" if "i \<in> set ys" for i
  proof -
    have "released d1 d2 i"
      using assms(3) that by (simp add: retires_def)
    then show ?thesis
      using same[OF that] by (simp add: released_def)
  qed
  moreover have fk: "fences_kept d d1" "fences_kept d1 d2"
    using assms(2,3) by (simp_all add: retires_def)
  then have "fences_kept d d2"
    unfolding fences_kept_def by (metis insert_iff singletonD)
  moreover have "keeps_place d d2 i" if i: "i \<in> set xs" "objs d2 i \<noteq> None" for i
  proof -
    have d2: "iobj d2 i = iobj d1 i" "objs d2 i = objs d1 i"
      using assms(3) apart[OF i(1)] by (simp_all add: retires_def)
    then have place: "keeps_place d d1 i"
      using assms(2) i by (auto simp: retires_def)
    have "objs d i \<noteq> None" "obj_fine i d"
      using assms(1,2) i(1) by (auto simp: retires_def released_def fine_def split: option.splits)
    then have "fence_reg (iobj d i) = I915_FENCE_REG_NONE \<or> nat (fence_reg (iobj d i)) < length (fence_regs d1)"
      using fk(1) by (auto simp: obj_fine_def fences_kept_def)
    then show ?thesis
      using place d2 fk(2) by (auto simp: keeps_place_def fences_kept_def)
  qed
  moreover have "keeps_place d d2 i" if "i \<in> set ys" "objs d2 i \<noteq> None" for i
    using assms(3) that same[OF that(1)] by (auto simp: retires_def keeps_place_def)
  moreover have "next_gem_seqno d2 = next_gem_seqno d" "wedged d2 = wedged d"
    using assms(2,3) by (simp_all add: retires_def)
  ultimately show ?thesis
    using assms(2,3) unfolding retires_def set_append ball_Un by simp
qed

lemma retire_loop_retires:
  assumes "fine d" "frees_idle drv" "length (mm_list d ACTIVE_LIST) \<le> fuel"
  shows "\<exists>d'. retire_loop fuel drv sl seqno d = Ret d' \<and>
    retires (takeWhile (\<lambda>i. last_rendering_seqno (iobj d i) = seqno) (mm_list d ACTIVE_LIST)) d d' \<and>
    request_list d' = request_list d"
  using assms
proof (induction fuel arbitrary: d)
  case 0
  then show ?case
    by (subst retire_loop.simps) (simp add: retires_refl)
next
  case (Suc fuel)
  show ?case
  proof (cases "mm_list d ACTIVE_LIST")
    case Nil
    then show ?thesis
      using Suc.prems by (subst retire_loop.simps) (simp add: retires_refl)
  next
    case (Cons i rest)
    show ?thesis
    proof (cases "last_rendering_seqno (iobj d i) = seqno")
      case False
      then show ?thesis
        using Suc.prems Cons by (subst retire_loop.simps) (simp add: retires_refl)
    next
      case True
      obtain d1 where d1: "retire_object drv (sl i) i d = Ret d1" "retires [i] d d1" "request_list d1 = request_list d"
        using retire_object_retires[OF Suc.prems(1) Cons Suc.prems(2)] by blast
      have rest: "mm_list d1 ACTIVE_LIST = rest" "fine d1"
        using d1(2) Cons by (simp_all add: retires_def)
      then obtain d2 where d2: "retire_loop fuel drv sl seqno d1 = Ret d2"
        "retires (takeWhile (\<lambda>i. last_rendering_seqno (iobj d1 i) = seqno) rest) d1 d2" "request_list d2 = request_list d1"
        using Suc.IH[OF rest(2) Suc.prems(2)] Suc.prems(3) Cons by auto
      have "i \<notin> set rest"
        using Suc.prems(1) Cons by (metis distinct.simps(2) fine_def lists_ok_def)
      then have "takeWhile (\<lambda>i. last_rendering_seqno (iobj d1 i) = seqno) rest =
          takeWhile (\<lambda>i. last_rendering_seqno (iobj d i) = seqno) rest"
        using d1(2) by (intro takeWhile_cong) (auto simp: retires_def)
      then have "retires (i # takeWhile (\<lambda>i. last_rendering_seqno (iobj d i) = seqno) rest) d d2"
        using retires_trans[OF Suc.prems(1) d1(2)] d2(2) by simp
      then show ?thesis
        using True Cons d1 d2 by (subst retire_loop.simps) simp
    qed
  qed
qed

text \<open>Objects in order: those of the first request are a prefix of the list.\<close>

lemma takeWhile_sorted: "sorted (map f xs) \<Longrightarrow> takeWhile (\<lambda>x. f x = (0 :: nat)) xs = filter (\<lambda>x. f x = 0) xs"
proof (induction xs)
  case (Cons x xs)
  then show ?case
    by (cases "f x = 0") (auto intro!: sym[OF filter_False])
qed simp

lemma dropWhile_filter: "takeWhile P xs = filter P xs \<Longrightarrow> dropWhile P xs = filter (\<lambda>x. \<not> P x) xs"
proof (induction xs)
  case (Cons x xs)
  then show ?case
    by (cases "P x") (auto simp: filter_empty_conv intro!: sym[OF filter_True] dest!: sym[of "[]"])
qed simp

lemma sorted_pred: "sorted (map f xs) \<Longrightarrow> sorted (map (\<lambda>x. f x - (1 :: nat)) xs)"
  by (induction xs) (auto intro: diff_le_mono)

lemma seqs_retire:
  assumes seqs: "seqs_ok d" and req: "request_list d = r # rs"
    and ret: "retires (takeWhile (\<lambda>i. last_rendering_seqno (iobj d i) = r) (mm_list d ACTIVE_LIST)) (d\<lparr>request_list := rs\<rparr>) d'"
    and rs: "request_list d' = rs"
  shows "seqs_ok d'"
    "takeWhile (\<lambda>i. last_rendering_seqno (iobj d i) = r) (mm_list d ACTIVE_LIST) =
     filter (\<lambda>i. last_rendering_seqno (iobj d i) = r) (mm_list d ACTIVE_LIST)"
    "mm_list d' ACTIVE_LIST = filter (\<lambda>i. last_rendering_seqno (iobj d i) \<noteq> r) (mm_list d ACTIVE_LIST)"
proof -
  let ?A = "mm_list d ACTIVE_LIST" and ?seq = "\<lambda>i. last_rendering_seqno (iobj d i)"
  define n where "n = length rs"
  have base: "seq_base d = r"
    by (simp add: seq_base_def req)
  have r: "r \<noteq> 0" and n: "Suc n < seqnos"
    using seqs req unfolding seqs_ok_def base by (simp_all add: n_def)
  have nums: "r # rs @ [next_gem_seqno d] = map (num r) [0..<Suc (Suc n)]"
    using seqs req unfolding seqs_ok_def base by (simp add: n_def)
  have act: "?seq i \<noteq> 0" "pos r (?seq i) \<le> Suc n" if "i \<in> set ?A" for i
    using seqs that unfolding seqs_ok_def seq_pos_def base by (simp_all add: req n_def)
  have sorted: "sorted (map (\<lambda>i. pos r (?seq i)) ?A)"
    using seqs unfolding seqs_ok_def seq_pos_def base by simp
  have first: "pos r (?seq i) = 0 \<longleftrightarrow> ?seq i = r" if "i \<in> set ?A" for i
    using num_pos[OF r act(1)[OF that]] num_0[OF r] pos_num[OF r, of 0] by (metis seqnos_pos(1))
  have tw: "takeWhile (\<lambda>i. ?seq i = r) ?A = takeWhile (\<lambda>i. pos r (?seq i) = 0) ?A"
    "filter (\<lambda>i. ?seq i = r) ?A = filter (\<lambda>i. pos r (?seq i) = 0) ?A"
    using first by (auto intro: takeWhile_cong filter_cong)
  then show flt: "takeWhile (\<lambda>i. ?seq i = r) ?A = filter (\<lambda>i. ?seq i = r) ?A"
    using takeWhile_sorted[OF sorted] by simp
  have "?A = takeWhile (\<lambda>i. ?seq i = r) ?A @ mm_list d' ACTIVE_LIST"
    using ret by (simp add: retires_def)
  then have dw: "mm_list d' ACTIVE_LIST = dropWhile (\<lambda>i. ?seq i = r) ?A"
    by (metis append_same_eq takeWhile_dropWhile_id same_append_eq)
  then show rest: "mm_list d' ACTIVE_LIST = filter (\<lambda>i. ?seq i \<noteq> r) ?A"
    using dropWhile_filter[OF flt] by simp
  have same: "iobj d' i = iobj d i" if "i \<in> set (mm_list d' ACTIVE_LIST)" for i
    using ret that unfolding flt rest by (auto simp: retires_def)
  have next': "next_gem_seqno d' = next_gem_seqno d"
    using ret by (simp add: retires_def)
  have "rs @ [next_gem_seqno d] = map (num r) [1..<Suc (Suc n)]"
    using nums by (simp add: upt_conv_Cons[of 0] del: upt_Suc)
  also have "\<dots> = map (num (num r 1)) [0..<Suc n]"
    by (simp add: num_num map_Suc_upt[symmetric] comp_def del: upt_Suc)
  finally have tail: "rs @ [next_gem_seqno d] = map (num (num r 1)) [0..<Suc n]" .
  have base': "seq_base d' = num r 1"
    unfolding seq_base_def rs next' tail by (simp add: hd_map num_0 del: upt_Suc)
  have "request_list d' @ [next_gem_seqno d'] = map (num (seq_base d')) [0..<Suc n]"
    unfolding rs next' base' by (rule tail)
  moreover have step: "seq_pos d' i = pos r (?seq i) - 1" "pos r (?seq i) \<noteq> 0" if "i \<in> set (mm_list d' ACTIVE_LIST)" for i
  proof -
    have i: "i \<in> set ?A" "?seq i \<noteq> r"
      using that rest by auto
    then show "pos r (?seq i) \<noteq> 0"
      using first by simp
    then show "seq_pos d' i = pos r (?seq i) - 1"
      using same[OF that] pos_shift[OF r act(1)[OF i(1)], of 1] by (simp add: seq_pos_def base')
  qed
  moreover have "sorted (map (seq_pos d') (mm_list d' ACTIVE_LIST))"
  proof -
    have "sorted (map (\<lambda>i. pos r (?seq i)) (mm_list d' ACTIVE_LIST))"
      unfolding rest using sorted by (rule sorted_filter)
    then have "sorted (map (\<lambda>i. pos r (?seq i) - 1) (mm_list d' ACTIVE_LIST))"
      by (rule sorted_pred)
    also have "map (\<lambda>i. pos r (?seq i) - 1) (mm_list d' ACTIVE_LIST) = map (seq_pos d') (mm_list d' ACTIVE_LIST)"
      using step by simp
    finally show ?thesis .
  qed
  moreover have "last_rendering_seqno (iobj d' i) \<noteq> 0 \<and> seq_pos d' i \<le> n" if "i \<in> set (mm_list d' ACTIVE_LIST)" for i
    using act[of i] that rest same[OF that] step[OF that] by auto
  ultimately show "seqs_ok d'"
    using n rs base' by (simp add: seqs_ok_def n_def)
qed

lemma mm_inv_fine: "mm_inv d \<longleftrightarrow> fine d \<and> seqs_ok d"
  by (auto simp: mm_inv_def fine_def)

lemma fine_requests: "fine (d\<lparr>request_list := rs\<rparr>) = fine d"
proof -
  have "obj_fine i (d\<lparr>request_list := rs\<rparr>) = obj_fine i d" for i
    by (cases "objs d i") (auto simp: obj_fine_def)
  then show ?thesis
    by (simp add: fine_def lists_ok_def writes_ok_def has_obj_flag_def)
qed

lemma retires_requests: "retires xs (d\<lparr>request_list := rs\<rparr>) d' = retires xs d d'"
proof -
  have "dirty (d\<lparr>request_list := rs\<rparr>) = dirty d" "goes_idle (d\<lparr>request_list := rs\<rparr>) = goes_idle d"
    "released (d\<lparr>request_list := rs\<rparr>) = released d" "fences_kept (d\<lparr>request_list := rs\<rparr>) = fences_kept d"
    "keeps_place (d\<lparr>request_list := rs\<rparr>) = keeps_place d"
    by (simp_all add: fun_eq_iff dirty_def goes_idle_def released_def fences_kept_def keeps_place_def)
  then show ?thesis
    by (simp add: retires_def)
qed

lemma retire_requests_loop_retires:
  fixes seqno :: u32
  assumes "mm_inv d" "frees_idle drv" "length (request_list d) \<le> fuel"
  defines "P \<equiv> \<lambda>r. i915_seqno_passed seqno r \<or> wedged d \<noteq> 0"
  shows "\<exists>d'. retire_requests_loop fuel drv sl seqno d = Ret d' \<and> mm_inv d' \<and> request_list d' = dropWhile P (request_list d) \<and>
    retires (filter (\<lambda>i. last_rendering_seqno (iobj d i) \<in> set (takeWhile P (request_list d))) (mm_list d ACTIVE_LIST)) d d'"
  using assms(1,3) unfolding P_def
proof (induction fuel arbitrary: d)
  case 0
  then show ?case
    by (subst retire_requests_loop.simps) (simp add: retires_refl mm_inv_fine)
next
  case (Suc fuel)
  let ?P = "\<lambda>r. i915_seqno_passed seqno r \<or> wedged d \<noteq> 0"
  let ?A = "mm_list d ACTIVE_LIST" and ?seq = "\<lambda>i. last_rendering_seqno (iobj d i)"
  have fine: "fine d" and seqs: "seqs_ok d"
    using Suc.prems(1) by (simp_all add: mm_inv_fine)
  show ?case
  proof (cases "request_list d")
    case Nil
    then show ?thesis
      using Suc.prems(1) fine by (subst retire_requests_loop.simps) (simp add: retires_refl)
  next
    case (Cons r rs)
    show ?thesis
    proof (cases "?P r")
      case False
      then show ?thesis
        using Suc.prems(1) fine Cons by (subst retire_requests_loop.simps) (simp add: retires_refl)
    next
      case True
      define d1 where "d1 = d\<lparr>request_list := rs\<rparr>"
      define xs where "xs = takeWhile (\<lambda>i. ?seq i = r) ?A"
      obtain d2 where d2: "i915_gem_retire_request drv sl r d1 = Ret d2" "retires xs d1 d2" "request_list d2 = rs"
        using retire_loop_retires[of d1 drv "length ?A" sl r] fine assms(2)
        by (auto simp: i915_gem_retire_request_def d1_def fine_requests xs_def)
      note S = seqs_retire[OF seqs Cons d2(2)[unfolded xs_def d1_def] d2(3)]
      have d2': "retires xs d d2"
        using d2(2) by (simp add: d1_def retires_requests)
      then have inv2: "mm_inv d2" and w2: "wedged d2 = wedged d"
        using S(1) by (simp_all add: mm_inv_fine retires_def)
      define Q where "Q = set (takeWhile ?P rs)"
      define ys where "ys = filter (\<lambda>i. last_rendering_seqno (iobj d2 i) \<in> Q) (mm_list d2 ACTIVE_LIST)"
      obtain d3 where d3: "retire_requests_loop fuel drv sl seqno d2 = Ret d3" "mm_inv d3" "request_list d3 = dropWhile ?P rs"
        "retires ys d2 d3"
        using Suc.IH[OF inv2] Suc.prems(2) Cons d2(3) w2 by (auto simp: ys_def Q_def)
      have A: "?A = xs @ mm_list d2 ACTIVE_LIST"
        using d2' by (simp add: retires_def)
      have "distinct ?A"
        using fine by (simp add: fine_def lists_ok_def)
      then have "iobj d2 i = iobj d i" if "i \<in> set (mm_list d2 ACTIVE_LIST)" for i
        using that d2' unfolding A by (auto simp: retires_def)
      then have ys: "ys = filter (\<lambda>i. ?seq i \<in> Q) (mm_list d2 ACTIVE_LIST)"
        unfolding ys_def by (intro filter_cong) auto
      also have "\<dots> = filter (\<lambda>i. ?seq i \<in> insert r Q) (mm_list d2 ACTIVE_LIST)"
        unfolding S(3) by (intro filter_cong) auto
      finally have "ys = filter (\<lambda>i. ?seq i \<in> insert r Q) (mm_list d2 ACTIVE_LIST)" .
      moreover have "filter (\<lambda>i. ?seq i \<in> insert r Q) xs = xs"
        unfolding xs_def by (auto simp: filter_id_conv dest: set_takeWhileD)
      ultimately have "xs @ ys = filter (\<lambda>i. ?seq i \<in> insert r Q) ?A"
        unfolding A by simp
      then have "retires (filter (\<lambda>i. ?seq i \<in> insert r Q) ?A) d d3"
        using retires_trans[OF fine d2' d3(4)] by simp
      moreover have "retire_requests_loop (Suc fuel) drv sl seqno d = Ret d3"
        using True Cons d2(1) d3(1) by (subst retire_requests_loop.simps) (simp add: d1_def)
      ultimately show ?thesis
        using True Cons d3(2,3) by (simp add: Q_def)
    qed
  qed
qed

section \<open>What is retired\<close>

text \<open>The status page when the GPU has executed the first \<open>k\<close> of the requests that start with \<open>a\<close>.\<close>

definition executed :: "u32 \<Rightarrow> nat \<Rightarrow> u32 \<Rightarrow> bool" where
  "executed a k hws \<longleftrightarrow> (if k = 0 then hws = num a (seqnos - 1) \<or> a = 1 \<and> hws = 0 else hws = num a (k - 1))"

lemma executed_passed:
  assumes "executed a k hws" "a \<noteq> 0" "j < n" "k \<le> n" "n < 2 ^ 31 - 1"
  shows "i915_seqno_passed hws (num a j) \<longleftrightarrow> j < k"
proof -
  consider "1 \<le> k" "hws = num a (k - 1)" | "k = 0" "hws = num a (seqnos - 1)" | "k = 0" "a = 1" "hws = 0"
    using assms(1) by (auto simp: executed_def split: if_splits)
  then show ?thesis
  proof cases
    case 1
    then show ?thesis
      using seqno_passed_num[OF assms(2), of "k - 1" j] assms(3-5) by auto
  next
    case 2
    have "num (num a (seqnos - 1)) (Suc j) = num a j"
      using num_cycle[of a j] by (simp add: num_num seqnos_def)
    moreover have "num (num a (seqnos - 1)) 0 = num a (seqnos - 1)"
      by (simp add: num_num)
    ultimately show ?thesis
      using 2 seqno_passed_num[of "num a (seqnos - 1)" 0 "Suc j"] assms(3,5) by simp
  next
    case 3
    have "hws - num a j = word_of_int (- int (Suc j))"
      using 3 assms(3,5) by (simp add: num_def seqnos_def)
    moreover have "sint (word_of_int (- int (Suc j)) :: u32) = - int (Suc j)"
      using assms(3,5) by (intro sint_small) simp_all
    ultimately show ?thesis
      using 3 by (simp add: i915_seqno_passed_def)
  qed
qed

lemma filter_prefix:
  assumes "filter P A @ B = A" "distinct A"
  shows "B = filter (\<lambda>x. \<not> P x) A"
proof -
  have "\<not> P x" if x: "x \<in> set B" for x
  proof
    assume "P x"
    moreover have "x \<in> set A"
      by (subst assms(1)[symmetric]) (simp add: x)
    ultimately have "x \<in> set (filter P A)"
      by simp
    moreover have "distinct (filter P A @ B)"
      by (simp only: assms)
    ultimately show False
      using x by (simp only: distinct_append) blast
  qed
  then have "filter (\<lambda>x. \<not> P x) (filter P A @ B) = B"
    by (simp add: filter_id_conv)
  then show ?thesis
    using assms(1) by simp
qed

text \<open>
  C36: Retiring requests is exact. Let the GPU have executed the first \<open>k\<close> of fewer than \<open>2 ^ 31 - 1\<close> requests
  that are outstanding, as the number it has written to the status page says (all of them count if
  it is wedged). Then \<^verbatim>\<open>i915_gem_retire_requests\<close> returns; exactly these requests are gone, and exactly
  the objects that waited for one of them have left the active list: those the GPU wrote to wait to be
  flushed, the others lose the reference of the list, and become idle, in the order in which they were
  used, or are freed if it was the last. No other object is touched, and the invariant is kept.
\<close>

theorem retire_requests_exact:
  assumes "mm_inv d" "frees_idle drv" "executed (seq_base d) k hws" "k \<le> length (request_list d)" "length (request_list d) < 2 ^ 31 - 1"
  shows "\<exists>d'. i915_gem_retire_requests drv sl (Some hws) d = Ret d' \<and> mm_inv d' \<and>
    (let m = (if wedged d \<noteq> 0 then length (request_list d) else k);
         over = (\<lambda>i. last_rendering_seqno (iobj d i) \<in> set (take m (request_list d)));
         xs = filter over (mm_list d ACTIVE_LIST)
     in request_list d' = drop m (request_list d) \<and>
        mm_list d' ACTIVE_LIST = filter (\<lambda>i. \<not> over i) (mm_list d ACTIVE_LIST) \<and>
        mm_list d' FLUSHING_LIST = mm_list d FLUSHING_LIST @ filter (dirty d) xs \<and>
        mm_list d' INACTIVE_LIST = mm_list d INACTIVE_LIST @ filter (goes_idle d) xs \<and>
        (\<forall>i\<in>set xs. released d d' i) \<and> (\<forall>i. i \<notin> set xs \<longrightarrow> iobj d' i = iobj d i \<and> objs d' i = objs d i))"
proof -
  let ?R = "request_list d"
  let ?P = "\<lambda>r. i915_seqno_passed hws r \<or> wedged d \<noteq> 0"
  define m where "m = (if wedged d \<noteq> 0 then length ?R else k)"
  have base: "seq_base d \<noteq> 0" and nums: "?R = map (num (seq_base d)) [0..<length ?R]"
    using assms(1) by (auto simp: mm_inv_def seqs_ok_def)
  have nth: "?R ! j = num (seq_base d) j" if "j < length ?R" for j
    by (subst nums) (use that in simp)
  have "?P (?R ! j) \<longleftrightarrow> j < m" if "j < length ?R" for j
    using executed_passed[OF assms(3) base that assms(4,5)] that by (auto simp: nth m_def)
  then have tw: "takeWhile ?P ?R = take m ?R"
    using assms(4) by (intro takeWhile_eq_take_P_nth) (auto simp: m_def)
  then have dw: "dropWhile ?P ?R = drop m ?R"
    by (metis append_take_drop_id same_append_eq takeWhile_dropWhile_id)
  obtain d' where d': "retire_requests_loop (length ?R) drv sl hws d = Ret d'" "mm_inv d'" "request_list d' = drop m ?R"
    "retires (filter (\<lambda>i. last_rendering_seqno (iobj d i) \<in> set (take m ?R)) (mm_list d ACTIVE_LIST)) d d'"
    using retire_requests_loop_retires[OF assms(1,2) order.refl, where seqno = hws and sl = sl] unfolding tw dw by blast
  have "distinct (mm_list d ACTIVE_LIST)"
    using assms(1) by (simp add: mm_inv_def lists_ok_def)
  then have "mm_list d' ACTIVE_LIST = filter (\<lambda>i. \<not> last_rendering_seqno (iobj d i) \<in> set (take m ?R)) (mm_list d ACTIVE_LIST)"
    using d'(4) by (intro filter_prefix) (simp_all add: retires_def)
  then show ?thesis
    using d' unfolding Let_def m_def[symmetric] i915_gem_retire_requests_def option.case retires_def by (intro exI[of _ d']) simp
qed

text \<open>Two requests, the first of which the GPU has executed: it read the object 7 and wrote 8; 9 waits for the second.\<close>

definition demo_obj :: "int \<Rightarrow> u32 \<Rightarrow> u32 \<Rightarrow> drm_obj" where
  "demo_obj n fl wd = \<lparr>uo_refs = n, obj_size = 4096, gname = 0, handlecount = 1, do_flags = fl, read_domains = 2,
     write_domain = wd, pending_read_domains = 0, pending_write_domain = 0\<rparr>"

definition demo_iobj :: "gem_list option \<Rightarrow> u32 \<Rightarrow> inteldrm_obj" where
  "demo_iobj L seqno = \<lparr>current_list = L, bound = True, gtt_offset = 0, fence_reg = -1, pin_count = 0,
     user_pin_count = 0, last_rendering_seqno = seqno, last_write_seqno = 0, tiling_mode = 0, stride = 0\<rparr>"

definition demo_i915 :: i915_dev where
  "demo_i915 = gem_dev.extend (demo_dev\<lparr>objs := [7 \<mapsto> demo_obj 2 0x10 0, 8 \<mapsto> demo_obj 1 0x90 2, 9 \<mapsto> demo_obj 1 0x10 0]\<rparr>)
     (i915_dev.fields 0 ((\<lambda>_. demo_iobj None 0)(7 := demo_iobj (Some ACTIVE_LIST) 1, 8 := demo_iobj (Some ACTIVE_LIST) 1,
        9 := demo_iobj (Some ACTIVE_LIST) 2))
       ((\<lambda>_. [])(ACTIVE_LIST := [7, 8, 9])) [8] [] [] 0 0 [1, 2] 3 True True 0 0 0 0 0 0 0 0 0 0 (\<lambda>_. 0) demo_ring)"

definition demo_i915_driver :: "i915_dev drm_driver_info" where
  "demo_i915_driver = null_driver\<lparr>gem_free_object := Some (\<lambda>d i. i915_list_remove i d)\<rparr>"

lemma demo_i915_fields [simp]:
  "objs demo_i915 = [7 \<mapsto> demo_obj 2 0x10 0, 8 \<mapsto> demo_obj 1 0x90 2, 9 \<mapsto> demo_obj 1 0x10 0]"
  "iobj demo_i915 = (\<lambda>_. demo_iobj None 0)(7 := demo_iobj (Some ACTIVE_LIST) 1, 8 := demo_iobj (Some ACTIVE_LIST) 1, 9 := demo_iobj (Some ACTIVE_LIST) 2)"
  "mm_list demo_i915 = (\<lambda>_. [])(ACTIVE_LIST := [7, 8, 9])" "gpu_write_list demo_i915 = [8]" "fence_regs demo_i915 = []"
  "request_list demo_i915 = [1, 2]" "next_gem_seqno demo_i915 = 3" "wedged demo_i915 = 0"
  by (simp_all add: demo_i915_def gem_dev.defs i915_dev.defs demo_dev_def)

lemma demo_i915_frees: "frees_idle demo_i915_driver"
  by (auto simp: frees_idle_def demo_i915_driver_def null_driver_def list_remove_eq fun_eq_iff lists_ok_def intro!: sym[OF remove1_idem])

lemma demo_i915_inv: "mm_inv demo_i915"
  unfolding mm_inv_def
proof (intro conjI allI)
  show "lists_ok demo_i915"
    by (auto simp: lists_ok_def demo_iobj_def)
  show "writes_ok demo_i915"
    by (auto simp: writes_ok_def has_obj_flag_def demo_obj_def I915_GPU_WRITE_def)
  show "obj_fine i demo_i915" for i
    by (auto simp: obj_fine_def demo_iobj_def demo_obj_def I915_FENCE_REG_NONE_def)
  show "seqs_ok demo_i915"
    by (auto simp: seqs_ok_def seq_base_def seq_pos_def pos_def num_def seqnos_def demo_iobj_def)
qed

theorem retire_requests_exact_witness:
  "\<exists>d'. i915_gem_retire_requests demo_i915_driver (\<lambda>_. []) (Some 1) demo_i915 = Ret d' \<and> request_list d' = [2] \<and>
    mm_list d' ACTIVE_LIST = [9] \<and> mm_list d' FLUSHING_LIST = [8] \<and> mm_list d' INACTIVE_LIST = [7]"
proof -
  have "executed (seq_base demo_i915) 1 1"
    by (simp add: executed_def seq_base_def num_def)
  then show ?thesis
    using retire_requests_exact[OF demo_i915_inv demo_i915_frees, of 1 1 "\<lambda>_. []"]
    by (auto simp: Let_def demo_iobj_def demo_obj_def dirty_def goes_idle_def)
qed

end
