(* ===== verification/I915_Exec.thy ===== *)
theory I915_Exec
  imports I915_Retire
begin

text \<open>
  Executing a batch of commands in \<^verbatim>\<open>i915_drv.c\<close>: what a flush and \<^verbatim>\<open>i915_gem_execbuffer2\<close> make of the
  lists, and what they write to the ring when it has room.
\<close>

section \<open>A ring with room\<close>

text \<open>The ring is at word \<open>p\<close>, and \<open>n\<close> more words fit before its end and before the head.\<close>

definition ring_space_for :: "inteldrm_ring \<Rightarrow> nat \<Rightarrow> nat \<Rightarrow> bool" where
  "ring_space_for r p n \<longleftrightarrow>
     (\<exists>k. length (rg_mem r) = 2 ^ k \<and> k \<le> 19) \<and> unat (rg_size r) = 4 * length (rg_mem r) \<and>
     rg_tail r = of_nat (4 * p) \<and> p + n < length (rg_mem r) \<and> 4 * int n \<le> sint (rg_space r)"

lemma overwrite_append:
  "p + length (a @ b) \<le> length mem \<Longrightarrow> overwrite (p + length a) b (overwrite p a mem) = overwrite p (a @ b) mem"
  by (simp add: overwrite_def add_ac)

lemma and_mask_small: "unat (w :: u64) < 2 ^ m \<Longrightarrow> w AND mask m = w"
  by (simp add: take_bit_eq_mask[symmetric] word_unat_eq_iff unsigned_take_bit_eq take_bit_nat_eq_self)

lemma emit_room:
  assumes room: "ring_space_for r p n" and cs: "length cs \<le> n" and r': "r' = r\<lparr>rg_mem := overwrite p cs (rg_mem r),
      rg_woffset := of_nat (4 * (p + length cs)), rg_tail := of_nat (4 * (p + n)), rg_space := rg_space r - of_nat (4 * n),
      prb_tail := of_nat (4 * (p + n))\<rparr>"
  shows "ring_emit rs (of_nat n) cs r = Ret (rs, r')"
    and "m + n \<le> m' \<Longrightarrow> ring_space_for r p m' \<Longrightarrow> ring_space_for r' (p + n) m"
proof -
  let ?N = "length (rg_mem r)"
  obtain k where k: "?N = 2 ^ k" "k \<le> 19"
    using room by (auto simp: ring_space_for_def)
  then have N: "?N \<le> 2 ^ 19"
    using power_increasing[of k 19 "2 :: nat"] by simp
  have tail: "rg_tail r = of_nat (4 * p)" and fits: "p + n < ?N" and space: "4 * int n \<le> sint (rg_space r)"
    and size: "unat (rg_size r) = 4 * ?N"
    using room by (simp_all add: ring_space_for_def)
  have bytes: "(4 * of_nat n :: u32) = of_nat (4 * n)" "sint (of_nat (4 * n) :: u32) = 4 * int n"
    using sint_small[of "int (4 * n)"] fits N by simp_all
  have sum: "of_nat (4 * p) + (of_nat (4 * n) :: u32) = of_nat (4 * (p + n))"
    by (simp add: algebra_simps)
  have u: "unat (of_nat (4 * (p + n)) :: u32) = 4 * (p + n)"
    by (rule word_offset) (use fits N in simp)
  then have u64: "unat (ucast (of_nat (4 * (p + n)) :: u32) :: u64) = 4 * (p + n)"
    by (rule unat_ucast_64)
  have nowrap: "\<not> rg_size r < ucast (of_nat (4 * (p + n)) :: u32)"
    unfolding word_less_nat_alt u64 size using fits by simp
  have "rg_size r = of_nat (4 * ?N)"
    using size by (metis of_nat_unat ucast_id)
  then have "rg_size r - 1 = mask (k + 2)"
    by (simp add: k mask_eq_exp_minus_1 power_add mult.commute)
  moreover have "4 * (p + n) < 2 ^ (k + 2)"
    using fits k by (simp add: power_add)
  ultimately have m1: "ucast (of_nat (4 * (p + n)) :: u32) AND (rg_size r - 1) = (ucast (of_nat (4 * (p + n)) :: u32) :: u64)"
    using and_mask_small u64 by metis
  have m2: "unat (ucast (ucast (of_nat (4 * (p + n)) :: u32) :: u64) :: u32) = 4 * (p + n)"
    by (subst unsigned_ucast_eq) (use u64 fits N in \<open>simp add: take_bit_nat_eq_self del: of_nat_mult of_nat_add\<close>)
  have masked: "ucast (ucast (of_nat (4 * (p + n)) :: u32) AND (rg_size r - 1)) = (of_nat (4 * (p + n)) :: u32)"
    unfolding m1 by (simp only: word_unat_eq_iff u m2)
  define r1 where "r1 = r\<lparr>rg_woffset := of_nat (4 * p), rg_tail := of_nat (4 * (p + n)), rg_space := rg_space r - of_nat (4 * n)\<rparr>"
  have start: "inteldrm_begin_ring rs (of_nat n) r = Ret (rs, r1)"
    using space nowrap masked
    by (simp add: inteldrm_begin_ring_def Let_def bytes tail sum r1_def del: of_nat_mult of_nat_add)
  have "out_words cs r1 = Ret (r1\<lparr>rg_woffset := of_nat (4 * (p + length cs)), rg_mem := overwrite p cs (rg_mem r1)\<rparr>)"
    by (rule out_words_eq) (use cs fits N in \<open>simp_all add: r1_def\<close>)
  then show "ring_emit rs (of_nat n) cs r = Ret (rs, r')"
    by (simp add: ring_emit_def start inteldrm_advance_ring_def r1_def r' del: of_nat_mult of_nat_add)
  assume m: "m + n \<le> m'" "ring_space_for r p m'"
  have "rg_space r - of_nat (4 * n) = word_of_int (sint (rg_space r) - 4 * int n)"
    by simp
  moreover have "sint (rg_space r) < 2 ^ 31"
    using sint_lt[of "rg_space r"] by simp
  ultimately have "sint (rg_space r - of_nat (4 * n)) = sint (rg_space r) - 4 * int n"
    using space by (simp only:) (rule sint_small, simp_all)
  moreover have "length (overwrite p cs (rg_mem r)) = ?N"
    using cs fits by simp
  ultimately show "ring_space_for r' (p + n) m"
    using m unfolding ring_space_for_def r' by (simp del: of_nat_mult of_nat_add)
qed

section \<open>Becoming active\<close>

text \<open>What the operations below leave alone.\<close>

definition keeps_objs :: "'a i915_dev_scheme \<Rightarrow> 'a i915_dev_scheme \<Rightarrow> bool" where
  "keeps_objs d d' \<longleftrightarrow>
     chip d' = chip d \<and>
     (\<forall>i. fence_reg (iobj d' i) = fence_reg (iobj d i) \<and> gtt_offset (iobj d' i) = gtt_offset (iobj d i)) \<and>
     (\<forall>i. map_option (\<lambda>obj. bit (do_flags obj) 11) (objs d' i) = map_option (\<lambda>obj. bit (do_flags obj) 11) (objs d i))"

definition keeps :: "'a i915_dev_scheme \<Rightarrow> 'a i915_dev_scheme \<Rightarrow> bool" where
  "keeps d d' \<longleftrightarrow>
     request_list d' = request_list d \<and> next_gem_seqno d' = next_gem_seqno d \<and> ring d' = ring d \<and> keeps_objs d d'"

lemma keeps_refl [simp]: "keeps_objs d d" "keeps d d"
  by (simp_all add: keeps_def keeps_objs_def)

lemma keeps_trans:
  "keeps_objs d d1 \<Longrightarrow> keeps_objs d1 d2 \<Longrightarrow> keeps_objs d d2" "keeps d d1 \<Longrightarrow> keeps d1 d2 \<Longrightarrow> keeps d d2"
  by (simp_all add: keeps_def keeps_objs_def)

text \<open>An object that goes to the end of the active list, with the next number.\<close>

lemma seqs_append:
  assumes seqs: "seqs_ok d" and act: "mm_list d' ACTIVE_LIST = remove1 i (mm_list d ACTIVE_LIST) @ [i]"
    and dist: "distinct (mm_list d ACTIVE_LIST)"
    and seq: "last_rendering_seqno (iobj d' i) = next_gem_seqno d"
    "\<And>j. j \<noteq> i \<Longrightarrow> last_rendering_seqno (iobj d' j) = last_rendering_seqno (iobj d j)"
    and same: "request_list d' = request_list d" "next_gem_seqno d' = next_gem_seqno d"
  shows "seqs_ok d'"
proof -
  let ?n = "length (request_list d)"
  have base: "seq_base d' = seq_base d"
    by (simp add: seq_base_def same)
  have nums: "request_list d @ [next_gem_seqno d] = map (num (seq_base d)) [0..<Suc ?n]" "seq_base d \<noteq> 0" "?n < seqnos"
    using seqs by (simp_all add: seqs_ok_def)
  then have "next_gem_seqno d = num (seq_base d) ?n"
    by simp
  then have i: "last_rendering_seqno (iobj d' i) \<noteq> 0" "seq_pos d' i = ?n"
    using seq(1) pos_num[OF nums(2,3)] by (simp_all add: seq_pos_def base)
  have others: "last_rendering_seqno (iobj d' j) \<noteq> 0 \<and> seq_pos d' j \<le> ?n" "seq_pos d' j = seq_pos d j"
    if "j \<in> set (remove1 i (mm_list d ACTIVE_LIST))" for j
  proof -
    have "j \<in> set (mm_list d ACTIVE_LIST)" "j \<noteq> i"
      using that dist by auto
    then show "last_rendering_seqno (iobj d' j) \<noteq> 0 \<and> seq_pos d' j \<le> ?n" "seq_pos d' j = seq_pos d j"
      using seqs seq(2)[of j] by (simp_all add: seqs_ok_def seq_pos_def base)
  qed
  have "sorted (map (seq_pos d) (remove1 i (mm_list d ACTIVE_LIST)))"
    using seqs by (intro sorted_map_remove1) (simp add: seqs_ok_def)
  also have "map (seq_pos d) (remove1 i (mm_list d ACTIVE_LIST)) = map (seq_pos d') (remove1 i (mm_list d ACTIVE_LIST))"
    using others(2) by simp
  finally have "sorted (map (seq_pos d') (mm_list d' ACTIVE_LIST))"
    using others(1) i(2) by (auto simp: act sorted_append)
  then show ?thesis
    using nums i others(1) unfolding seqs_ok_def base act same by auto
qed

lemma move_to_active_ok:
  assumes inv: "mm_inv d" and obj: "objs d i = Some obj"
  obtains d' obj' where "i915_gem_object_move_to_active i d = Ret d'" "mm_inv d'" "keeps d d'"
    "gpu_write_list d' = gpu_write_list d" "current_list (iobj d' i) = Some ACTIVE_LIST"
    "last_rendering_seqno (iobj d' i) = next_gem_seqno d" "\<And>j. j \<noteq> i \<Longrightarrow> iobj d' j = iobj d j \<and> objs d' j = objs d j"
    "objs d' i = Some obj'" "write_domain obj' = write_domain obj" "\<And>n. n \<noteq> 4 \<Longrightarrow> bit (do_flags obj') n = bit (do_flags obj) n"
    "bound (iobj d' i) = bound (iobj d i)" "pin_count (iobj d' i) = pin_count (iobj d i)"
proof -
  have ok: "lists_ok d" "writes_ok d" "obj_fine j d" "seqs_ok d" for j
    using inv by (auto simp: mm_inv_def)
  define obj1 where "obj1 = (if bit (do_flags obj) 4 then obj else obj\<lparr>uo_refs := uo_refs obj + 1, do_flags := do_flags obj OR I915_ACTIVE\<rparr>)"
  define d1 where "d1 = d\<lparr>objs := (objs d)(i := Some obj1)\<rparr>"
  have bits: "bit (do_flags obj1) n \<longleftrightarrow> bit (do_flags obj) n \<or> n = 4" for n
    by (auto simp: obj1_def flag_simps)
  have obj1: "write_domain obj1 = write_domain obj" "uo_refs obj \<le> uo_refs obj1"
    by (simp_all add: obj1_def)
  have refs: "bit (do_flags obj) 0 \<longrightarrow> 2 \<le> uo_refs obj1" "1 \<le> uo_refs obj1"
    using ok(3)[of i] obj by (auto simp: obj_fine_def obj1_def)
  have one: "(if \<not> inteldrm_is_active i d then obind (drm_ref i d) (\<lambda>d. Ret (set_flag I915_ACTIVE i d)) else Ret d) = Ret d1"
    using obj by (cases obj) (simp add: is_active_iff drm_ref_def drm_ref_locked_def set_flag_def upd_obj_def d1_def obj1_def fun_upd_idem)
  define fr where "fr = (if bit (do_flags obj) 12 then (fence_regs d)[nat (fence_reg (iobj d i)) :=
      (fence_regs d ! nat (fence_reg (iobj d i)))\<lparr>fence_seqno := next_gem_seqno d\<rparr>] else fence_regs d)"
  define d2 where "d2 = d1\<lparr>fence_regs := fr\<rparr>"
  have "bit (do_flags obj) 12 \<longrightarrow> 0 \<le> fence_reg (iobj d i) \<and> nat (fence_reg (iobj d i)) < length (fence_regs d)"
    using ok(3)[of i] obj by (auto simp: obj_fine_def)
  moreover have "inteldrm_needs_fence i d1 \<longleftrightarrow> bit (do_flags obj) 12"
    by (simp add: d1_def inteldrm_needs_fence_def has_obj_flag_def flag_bits bits)
  ultimately have two: "(if inteldrm_needs_fence i d1 then set_fence_seqno i (next_gem_seqno d) d1 else Ret d1) = Ret d2"
    by (simp add: set_fence_seqno_def d2_def fr_def d1_def Let_def)
  define w where "w = (if write_domain obj \<noteq> 0 then next_gem_seqno d else last_write_seqno (iobj d i))"
  define d3 where "d3 = d2\<lparr>mm_list := \<lambda>L. (if current_list (iobj d i) = Some L then remove1 i (mm_list d L) else mm_list d L) @
       (if L = ACTIVE_LIST then [i] else []),
     iobj := (iobj d)(i := (iobj d i)\<lparr>current_list := Some ACTIVE_LIST, last_rendering_seqno := next_gem_seqno d, last_write_seqno := w\<rparr>)\<rparr>"
  have "i915_gem_object_move_to_active i d = Ret d3"
    unfolding i915_gem_object_move_to_active_def Let_def one obind.simps two
    using obj1(1) by (cases "iobj d i") (simp add: d2_def d1_def d3_def w_def upd_iobj_def move_to_tail_eq fun_eq_iff)
  moreover have lists: "lists_ok d3"
    using ok(1) by (auto simp: lists_ok_def d3_def)
  moreover have "writes_ok d3"
    using obj by (intro writes_ok_other[OF ok(2)]) (auto simp: d3_def d2_def d1_def has_obj_flag_def flag_bits bits)
  moreover have "obj_fine j d3" for j
  proof (cases "j = i")
    case True
    then show ?thesis
      using ok(3)[of i] obj refs obj1 by (auto simp: obj_fine_def d3_def d2_def d1_def bits fr_def)
  next
    case False
    then show ?thesis
      by (intro obj_fine_other[OF ok(3)[of j]]) (simp_all add: d3_def d2_def d1_def fr_def)
  qed
  moreover have "seqs_ok d3"
  proof (rule seqs_append[OF ok(4)])
    show "mm_list d3 ACTIVE_LIST = remove1 i (mm_list d ACTIVE_LIST) @ [i]"
      using ok(1) by (auto simp: d3_def lists_ok_def intro!: sym[OF remove1_idem])
    show "distinct (mm_list d ACTIVE_LIST)"
      using ok(1) by (simp add: lists_ok_def)
  qed (simp_all add: d3_def d2_def d1_def)
  moreover have "keeps d d3"
    using obj by (auto simp: keeps_def keeps_objs_def d3_def d2_def d1_def bits)
  moreover have "objs d3 i = Some obj1"
    by (simp add: d3_def d2_def d1_def)
  ultimately show thesis
    by (intro that[of d3 obj1]) (simp_all add: mm_inv_def bits obj1, simp_all add: d3_def d2_def d1_def)
qed

text \<open>Changes of objects that the lists and the order do not see.\<close>

lemma mm_inv_objs:
  assumes inv: "mm_inv d" and same: "mm_list d' = mm_list d" "iobj d' = iobj d" "request_list d' = request_list d"
      "next_gem_seqno d' = next_gem_seqno d" "length (fence_regs d') = length (fence_regs d)"
    and writes: "writes_ok d'" and i: "obj_fine i d'" and others: "\<And>j. j \<noteq> i \<Longrightarrow> objs d' j = objs d j"
  shows "mm_inv d'"
proof -
  have "obj_fine j d'" for j
    using inv i others[of j] same by (cases "j = i") (auto simp: mm_inv_def intro: obj_fine_other)
  moreover have "lists_ok d'" "seqs_ok d'"
    using inv by (simp_all add: mm_inv_def lists_ok_def seqs_ok_def seq_pos_def seq_base_def same cong: map_cong)
  ultimately show ?thesis
    using writes by (simp add: mm_inv_def)
qed

section \<open>Flushing\<close>

text \<open>What a flush does to an object it is for; \<open>seqno\<close> is the next number.\<close>

definition flushed :: "u32 \<Rightarrow> 'a i915_dev_scheme \<Rightarrow> 'a i915_dev_scheme \<Rightarrow> nat \<Rightarrow> bool" where
  "flushed seqno d d' i \<longleftrightarrow>
     (\<exists>obj obj'. objs d i = Some obj \<and> objs d' i = Some obj' \<and> write_domain obj' = 0 \<and>
        (\<forall>n. n \<noteq> 4 \<and> n \<noteq> 7 \<longrightarrow> bit (do_flags obj') n = bit (do_flags obj) n)) \<and>
     current_list (iobj d' i) = Some ACTIVE_LIST \<and> last_rendering_seqno (iobj d' i) = seqno \<and>
     fence_reg (iobj d' i) = fence_reg (iobj d i) \<and> bound (iobj d' i) = bound (iobj d i) \<and> pin_count (iobj d' i) = pin_count (iobj d i)"

definition in_domains :: "u32 \<Rightarrow> 'a i915_dev_scheme \<Rightarrow> nat \<Rightarrow> bool" where
  "in_domains domains d i \<longleftrightarrow> (case objs d i of None \<Rightarrow> False | Some obj \<Rightarrow> write_domain obj AND domains \<noteq> 0)"

lemma flush_object_ok:
  assumes inv: "mm_inv d" and i: "i \<in> set (gpu_write_list d)" and dom: "in_domains domains d i"
  shows "\<exists>d'. (\<forall>xs. flush_objects domains (i # xs) d = flush_objects domains xs d') \<and> mm_inv d' \<and> keeps d d' \<and>
    gpu_write_list d' = remove1 i (gpu_write_list d) \<and> flushed (next_gem_seqno d) d d' i \<and>
    (\<forall>j. j \<noteq> i \<longrightarrow> iobj d' j = iobj d j \<and> objs d' j = objs d j)"
proof -
  have ok: "lists_ok d" "writes_ok d" "obj_fine j d" for j
    using inv by (auto simp: mm_inv_def)
  obtain obj where obj: "objs d i = Some obj" and False: "write_domain obj AND domains \<noteq> 0"
    using dom by (auto simp: in_domains_def split: option.splits)
  define obj1 where "obj1 = obj\<lparr>do_flags := do_flags obj AND NOT I915_GPU_WRITE\<rparr>"
  define d1 where "d1 = d\<lparr>gpu_write_list := remove1 i (gpu_write_list d), objs := (objs d)(i := Some obj1)\<rparr>"
  have bits: "bit (do_flags obj1) n \<longleftrightarrow> bit (do_flags obj) n \<and> n \<noteq> 7" for n
    by (cases "n < 32") (auto simp: obj1_def flag_simps dest: bit_imp_le_length)
  have d1: "clear_flag I915_GPU_WRITE i (d\<lparr>gpu_write_list := remove1 i (gpu_write_list d)\<rparr>) = d1"
    using obj by (cases obj) (simp add: clear_flag_def upd_obj_def d1_def obj1_def)
  have inv1: "mm_inv d1"
  proof (rule mm_inv_objs[OF inv])
    show "writes_ok d1"
      using ok(2) by (auto simp: writes_ok_def d1_def has_obj_flag_def flag_bits bits)
    show "obj_fine i d1"
      using ok(3)[of i] obj by (auto simp: obj_fine_def d1_def bits obj1_def[symmetric]) (auto simp: obj1_def)
  qed (simp_all add: d1_def)
  have obj_d1: "objs d1 i = Some obj1"
    by (simp add: d1_def)
  from move_to_active_ok[OF inv1 obj_d1] obtain d2 obj2 where
    d2: "i915_gem_object_move_to_active i d1 = Ret d2" "mm_inv d2" "keeps d1 d2" "gpu_write_list d2 = gpu_write_list d1"
      "objs d2 i = Some obj2" "write_domain obj2 = write_domain obj1" "\<And>n. n \<noteq> 4 \<Longrightarrow> bit (do_flags obj2) n = bit (do_flags obj1) n"
      "current_list (iobj d2 i) = Some ACTIVE_LIST" "last_rendering_seqno (iobj d2 i) = next_gem_seqno d1"
      "\<And>j. j \<noteq> i \<Longrightarrow> iobj d2 j = iobj d1 j \<and> objs d2 j = objs d1 j" "bound (iobj d2 i) = bound (iobj d1 i)"
      "pin_count (iobj d2 i) = pin_count (iobj d1 i)"
    by (metis (no_types, lifting))
  define d3 where "d3 = d2\<lparr>objs := (objs d2)(i := Some (obj2\<lparr>write_domain := 0\<rparr>))\<rparr>"
  have d3: "upd_obj i (write_domain_update (\<lambda>_. 0)) d2 = d3"
    using d2(5) by (simp add: upd_obj_def d3_def)
  have inv3: "mm_inv d3"
  proof (rule mm_inv_objs[OF d2(2)])
    show "writes_ok d3"
      using d2(2,5) by (auto simp: mm_inv_def writes_ok_def d3_def has_obj_flag_def)
    show "obj_fine i d3"
      using d2(2,5,7) bits[of 7] by (auto simp: mm_inv_def obj_fine_def d3_def dest: spec[of _ i])
  qed (simp_all add: d3_def)
  have keep: "keeps d d3"
    using d2(3,5) d2(7)[of 11] obj obj_d1 bits[of 11] by (auto simp: keeps_def keeps_objs_def d3_def d1_def)
  define d4 where "d4 = (if inteldrm_needs_fence i d3 then fence_lru i d3 else d3)"
  have fence: "inteldrm_needs_fence i d3 \<Longrightarrow> fence_reg (iobj d3 i) \<noteq> I915_FENCE_REG_NONE"
    using inv3 by (auto simp: mm_inv_def obj_fine_def inteldrm_needs_fence_def has_obj_flag_def flag_bits dest: spec[of _ i] split: option.splits)
  have same4: "mm_list d4 = mm_list d3" "iobj d4 = iobj d3" "objs d4 = objs d3" "gpu_write_list d4 = gpu_write_list d3"
    "request_list d4 = request_list d3" "next_gem_seqno d4 = next_gem_seqno d3" "fence_regs d4 = fence_regs d3" "ring d4 = ring d3" "chip d4 = chip d3"
    by (simp_all add: d4_def fence_lru_def Let_def)
  have inv4: "mm_inv d4"
  proof (rule mm_inv_objs[OF inv3 same4(1,2,5,6) _ _ _ fun_cong[OF same4(3)]])
    show "writes_ok d4"
      using inv3 by (simp add: mm_inv_def writes_ok_def same4 has_obj_flag_def)
    show "obj_fine i d4"
      by (rule obj_fine_other[of i d3]) (use inv3 in \<open>simp add: mm_inv_def\<close>, simp_all only: same4)
  qed (simp add: same4)
  have "keeps d3 d4"
    by (simp add: keeps_def keeps_objs_def same4)
  then have "keeps d d4"
    using keep keeps_trans(2) by blast
  moreover have "flush_objects domains (i # xs) d = flush_objects domains xs d4" for xs
    using False obj fence by (auto simp: d1 d2(1) d3 d4_def Let_def)
  moreover have "flushed (next_gem_seqno d) d d4 i"
    using obj d2(3,5-9,11,12) bits by (auto simp: flushed_def same4 d3_def d1_def keeps_def keeps_objs_def)
  moreover have "iobj d4 j = iobj d j" "objs d4 j = objs d j" if "j \<noteq> i" for j
    using that d2(10)[OF that] by (simp_all add: same4 d3_def d1_def)
  ultimately show ?thesis
    using inv4 by (intro exI[of _ d4]) (simp add: same4 d3_def d2(4) d1_def)
qed

lemma flush_objects_ok:
  assumes "mm_inv d" "set xs \<subseteq> set (gpu_write_list d)" "distinct xs"
  shows "\<exists>d'. flush_objects domains xs d = Ret d' \<and> mm_inv d' \<and> keeps d d' \<and>
    (\<forall>i. if i \<in> set xs \<and> in_domains domains d i then flushed (next_gem_seqno d) d d' i
         else iobj d' i = iobj d i \<and> objs d' i = objs d i)"
  using assms
proof (induction xs arbitrary: d)
  case (Cons i xs)
  have writes: "writes_ok d"
    using Cons.prems(1) by (simp add: mm_inv_def)
  then have "has_obj_flag I915_GPU_WRITE i d"
    using Cons.prems(2) by (auto simp: writes_ok_def)
  then obtain obj where obj: "objs d i = Some obj"
    by (auto simp: has_obj_flag_def split: option.splits)
  show ?case
  proof (cases "in_domains domains d i")
    case False
    then have "flush_objects domains (i # xs) d = flush_objects domains xs d"
      using obj by (simp add: in_domains_def)
    with Cons.IH[of d] Cons.prems False show ?thesis
      by auto
  next
    case True
    obtain d1 where d1: "\<And>xs. flush_objects domains (i # xs) d = flush_objects domains xs d1" "mm_inv d1" "keeps d d1"
      "gpu_write_list d1 = remove1 i (gpu_write_list d)" "flushed (next_gem_seqno d) d d1 i"
      "\<And>j. j \<noteq> i \<Longrightarrow> iobj d1 j = iobj d j \<and> objs d1 j = objs d j"
      using flush_object_ok[OF Cons.prems(1) _ True] Cons.prems(2) by auto
    have "set xs \<subseteq> set (gpu_write_list d1)"
      using Cons.prems(2,3) writes by (auto simp: d1(4) writes_ok_def)
    from Cons.IH[OF d1(2) this] Cons.prems(3) obtain d2 where
      d2: "flush_objects domains xs d1 = Ret d2" "mm_inv d2" "keeps d1 d2"
        "\<And>j. if j \<in> set xs \<and> in_domains domains d1 j then flushed (next_gem_seqno d1) d1 d2 j
          else iobj d2 j = iobj d1 j \<and> objs d2 j = objs d1 j"
      by auto
    have seq: "next_gem_seqno d1 = next_gem_seqno d"
      using d1(3) by (simp add: keeps_def)
    have "if j \<in> set (i # xs) \<and> in_domains domains d j then flushed (next_gem_seqno d) d d2 j
        else iobj d2 j = iobj d j \<and> objs d2 j = objs d j" for j
    proof (cases "j = i")
      case j: True
      then have "iobj d2 i = iobj d1 i" "objs d2 i = objs d1 i"
        using d2(4)[of i] Cons.prems(3) by simp_all
      then show ?thesis
        using True d1(5) j by (simp add: flushed_def)
    next
      case False
      then have "flushed t d1 d2 j = flushed t d d2 j" "in_domains domains d1 j = in_domains domains d j" for t
        using d1(6)[OF False] by (simp_all add: flushed_def in_domains_def)
      then show ?thesis
        using d2(4)[of j] d1(6)[OF False] False by (auto simp: seq split: if_splits)
    qed
    then show ?thesis
      using d1 d2(1-3) keeps_trans(2)[OF d1(3) d2(3)] by (intro exI[of _ d2]) simp
  qed
qed simp

lemma process_flushing_ok:
  assumes "mm_inv d"
  shows "\<exists>d'. inteldrm_process_flushing domains d = Ret d' \<and> mm_inv d' \<and> keeps d d' \<and>
    (\<forall>i. if i \<in> set (gpu_write_list d) \<and> in_domains domains d i then flushed (next_gem_seqno d) d d' i
         else iobj d' i = iobj d i \<and> objs d' i = objs d i)"
  using assms flush_objects_ok[of d "gpu_write_list d" domains]
  by (simp add: inteldrm_process_flushing_def mm_inv_def writes_ok_def)

section \<open>Requests\<close>

definition request_size :: "'a i915_dev_scheme \<Rightarrow> nat" where
  "request_size d = (if IS_GEN6 (chip d) \<or> IS_GEN7 (chip d) then 10 else 4)"

definition requested :: "bool \<Rightarrow> inteldrm_ring \<Rightarrow> 'a i915_dev_scheme \<Rightarrow> 'a i915_dev_scheme \<Rightarrow> bool" where
  "requested c r d d' \<longleftrightarrow>
     (if c then request_list d' = request_list d @ [next_gem_seqno d] \<and> next_gem_seqno d' = seqno_succ (next_gem_seqno d) \<and> ring d' = r
      else request_list d' = request_list d \<and> next_gem_seqno d' = next_gem_seqno d \<and> ring d' = ring d) \<and>
     mm_list d' = mm_list d \<and> iobj d' = iobj d \<and> objs d' = objs d \<and> gpu_write_list d' = gpu_write_list d \<and>
     fence_regs d' = fence_regs d \<and> chip d' = chip d"

lemma requested_inv:
  assumes inv: "mm_inv d" and req: "requested c r d d'" and few: "length (request_list d) + 1 < seqnos"
  shows "mm_inv d'" "keeps_objs d d'"
proof -
  have same: "mm_list d' = mm_list d" "iobj d' = iobj d" "objs d' = objs d" "gpu_write_list d' = gpu_write_list d"
    "fence_regs d' = fence_regs d" "chip d' = chip d"
    using req by (simp_all add: requested_def)
  have "obj_fine i d'" for i
    by (rule obj_fine_other[of i d]) (use inv in \<open>simp add: mm_inv_def\<close>, simp_all only: same)
  moreover have "lists_ok d'" "writes_ok d'"
    using inv by (simp_all add: mm_inv_def lists_ok_def writes_ok_def has_obj_flag_def same)
  moreover have "seqs_ok d'"
  proof (cases c)
    case True
    let ?n = "length (request_list d)"
    have seqs: "seqs_ok d"
      using inv by (simp add: mm_inv_def)
    have R: "request_list d' = request_list d @ [next_gem_seqno d]" "next_gem_seqno d' = seqno_succ (next_gem_seqno d)"
      using req True by (simp_all add: requested_def)
    have base: "seq_base d' = seq_base d"
      by (cases "request_list d") (simp_all add: seq_base_def R)
    have pos: "seq_pos d' = seq_pos d"
      by (simp add: fun_eq_iff seq_pos_def base same)
    have nums: "request_list d @ [next_gem_seqno d] = map (num (seq_base d)) [0..<Suc ?n]"
      using seqs by (simp add: seqs_ok_def)
    then have "next_gem_seqno d = num (seq_base d) ?n"
      by simp
    then have "next_gem_seqno d' = num (seq_base d) (Suc ?n)"
      using seqno_succ_num[of "next_gem_seqno d"] by (simp add: R num_num)
    then have "request_list d' @ [next_gem_seqno d'] = map (num (seq_base d)) [0..<Suc (Suc ?n)]"
      using nums R(1) by simp
    then show ?thesis
      using seqs few unfolding seqs_ok_def base pos same R(1) by auto
  next
    case False
    then have "request_list d' = request_list d" "next_gem_seqno d' = next_gem_seqno d"
      using req by (simp_all add: requested_def)
    then show ?thesis
      using inv by (simp add: mm_inv_def seqs_ok_def seq_pos_def seq_base_def same cong: map_cong)
  qed
  ultimately show "mm_inv d'"
    by (simp add: mm_inv_def)
  show "keeps_objs d d'"
    by (simp add: keeps_objs_def same)
qed

lemma length_request_words [simp]: "length (request_words s) = 4"
  by (simp add: request_words_def)

lemma add_request_ok:
  assumes "i915_add_request c rs d = Ret (seqno, rs', d')"
  shows "\<exists>r. requested c r d d' \<and> (if c then seqno = next_gem_seqno d \<and>
      ring_emit rs (of_nat (request_size d)) (request_words seqno) (ring d) = Ret (rs', r) else seqno = 0 \<and> rs' = rs \<and> d' = d)"
proof (cases c)
  case True
  have size: "(of_nat (request_size d) :: u32) = (if IS_GEN6 (chip d) \<or> IS_GEN7 (chip d) then 10 else 4)"
    by (simp add: request_size_def)
  obtain rs1 r where r: "ring_emit rs (of_nat (request_size d)) (request_words (next_gem_seqno d)) (ring d) = Ret (rs1, r)"
    using assms True unfolding i915_add_request_def Let_def size by (auto simp: obind_eq_Ret)
  have "requested c r d d'" "seqno = next_gem_seqno d" "rs' = rs1"
    using assms True r unfolding i915_add_request_def Let_def size requested_def by (auto split: if_splits)
  then show ?thesis
    using True r by auto
qed (use assms in \<open>simp add: i915_add_request_def requested_def\<close>)

lemma add_request_room:
  assumes "ring_space_for (ring d) p (m + 10)"
  shows "\<exists>seqno d' p'. i915_add_request c rs d = Ret (seqno, rs, d') \<and> ring_space_for (ring d') p' m"
proof (cases c)
  case True
  let ?n = "request_size d"
  have n: "?n \<le> 10" "4 \<le> ?n" "of_nat ?n = (if IS_GEN6 (chip d) \<or> IS_GEN7 (chip d) then 10 else 4 :: u32)"
    by (simp_all add: request_size_def)
  then have "ring_space_for (ring d) p ?n"
    using assms by (auto simp: ring_space_for_def)
  moreover have "length (request_words (next_gem_seqno d)) \<le> ?n" "m + ?n \<le> m + 10"
    using n by simp_all
  ultimately obtain r where "ring_emit rs (of_nat ?n) (request_words (next_gem_seqno d)) (ring d) = Ret (rs, r)" "ring_space_for r (p + ?n) m"
    using emit_room[OF _ _ refl] assms by blast
  then show ?thesis
    using True by (auto simp: i915_add_request_def Let_def n(3))
next
  case False
  then show ?thesis
    using assms by (intro exI[of _ 0] exI[of _ d] exI[of _ p]) (auto simp: i915_add_request_def ring_space_for_def)
qed

lemma mm_inv_ring: "mm_inv d \<Longrightarrow> mm_inv (d\<lparr>ring := r\<rparr>)"
  by (rule mm_inv_objs[where i = 0]) (auto simp: mm_inv_def writes_ok_def has_obj_flag_def intro: obj_fine_other)

lemma flush_ok:
  assumes inv: "mm_inv d" and few: "length (request_list d) + 1 < seqnos"
    and run: "i915_gem_flush c rs inval fl d = Ret (seqno, rs', d')"
  shows "mm_inv d'" "keeps_objs d d'" "length (request_list d') \<le> length (request_list d) + 1"
proof -
  have "mm_inv d' \<and> keeps_objs d d' \<and> length (request_list d') \<le> length (request_list d) + 1"
  proof (cases "(inval OR fl) AND I915_GEM_GPU_DOMAINS = 0")
    case True
    then show ?thesis
      using run inv by (simp add: i915_gem_flush_def)
  next
    case False
    then obtain rs1 r where r: "ring_emit rs 2 [flush_cmd (chip d) inval fl, MI_NOOP] (ring d) = Ret (rs1, r)"
      using run by (auto simp: i915_gem_flush_def obind_eq_Ret)
    define d1 where "d1 = d\<lparr>ring := r\<rparr>"
    have inv1: "mm_inv d1"
      unfolding d1_def using inv by (rule mm_inv_ring)
    have keep1: "keeps_objs d d1"
      by (simp add: keeps_objs_def d1_def)
    show ?thesis
    proof (cases "fl AND I915_GEM_GPU_DOMAINS = 0")
      case True
      then have "d' = d1"
        using run False r by (simp add: i915_gem_flush_def Let_def d1_def)
      then show ?thesis
        using inv1 keep1 by (simp add: d1_def)
    next
      case flush: False
      obtain d2 where d2: "inteldrm_process_flushing fl d1 = Ret d2" "mm_inv d2" "keeps d1 d2"
        using process_flushing_ok[OF inv1] by blast
      have "i915_add_request c rs1 d2 = Ret (seqno, rs', d')"
        using run False r flush d2(1) by (simp add: i915_gem_flush_def Let_def d1_def)
      then obtain r' where req: "requested c r' d2 d'"
        using add_request_ok by blast
      have R: "request_list d2 = request_list d"
        using d2(3) by (simp add: keeps_def d1_def)
      then have "mm_inv d'" "keeps_objs d2 d'"
        using requested_inv[OF d2(2) req] few by simp_all
      moreover have "keeps_objs d1 d2"
        using d2(3) by (simp add: keeps_def)
      ultimately have "mm_inv d'" "keeps_objs d d'"
        using keeps_trans(1)[OF keeps_trans(1)[OF keep1]] by blast+
      then show ?thesis
        using req R by (auto simp: requested_def split: if_splits)
    qed
  qed
  then show "mm_inv d'" "keeps_objs d d'" "length (request_list d') \<le> length (request_list d) + 1"
    by simp_all
qed

lemma flush_others:
  assumes inv: "mm_inv d" and run: "i915_gem_flush c rs inval fl d = Ret (seqno, rs', d')" and i: "i \<notin> set (gpu_write_list d)"
  shows "iobj d' i = iobj d i" "objs d' i = objs d i"
proof -
  have "iobj d' i = iobj d i \<and> objs d' i = objs d i"
  proof (cases "(inval OR fl) AND I915_GEM_GPU_DOMAINS = 0")
    case True
    then show ?thesis
      using run by (simp add: i915_gem_flush_def)
  next
    case False
    then obtain rs1 r where r: "ring_emit rs 2 [flush_cmd (chip d) inval fl, MI_NOOP] (ring d) = Ret (rs1, r)"
      using run by (auto simp: i915_gem_flush_def obind_eq_Ret)
    let ?d = "d\<lparr>ring := r\<rparr>"
    obtain d2 where d2: "inteldrm_process_flushing fl ?d = Ret d2"
      "\<And>i. if i \<in> set (gpu_write_list ?d) \<and> in_domains fl ?d i then flushed (next_gem_seqno ?d) ?d d2 i
         else iobj d2 i = iobj ?d i \<and> objs d2 i = objs ?d i"
      using process_flushing_ok[OF mm_inv_ring[OF inv]] by blast
    have same: "iobj d2 i = iobj d i" "objs d2 i = objs d i"
      using d2(2)[of i] i by simp_all
    show ?thesis
    proof (cases "fl AND I915_GEM_GPU_DOMAINS = 0")
      case True
      then show ?thesis
        using run False r by (auto simp: i915_gem_flush_def)
    next
      case flush: False
      then have "i915_add_request c rs1 d2 = Ret (seqno, rs', d')"
        using run False r d2(1) by (simp add: i915_gem_flush_def)
      then obtain r' where "requested c r' d2 d'"
        using add_request_ok by blast
      then show ?thesis
        using same by (simp add: requested_def)
    qed
  qed
  then show "iobj d' i = iobj d i" "objs d' i = objs d i"
    by simp_all
qed

lemma flush_room:
  assumes inv: "mm_inv d" and room: "ring_space_for (ring d) p (m + 12)"
  shows "\<exists>seqno d' p'. i915_gem_flush c rs inval fl d = Ret (seqno, rs, d') \<and> ring_space_for (ring d') p' m"
proof (cases "(inval OR fl) AND I915_GEM_GPU_DOMAINS = 0")
  case True
  then show ?thesis
    using room by (intro exI[of _ 0] exI[of _ d] exI[of _ p]) (auto simp: i915_gem_flush_def ring_space_for_def)
next
  case False
  have "ring_space_for (ring d) p 2" "m + 10 + 2 \<le> m + 12" "length [flush_cmd (chip d) inval fl, MI_NOOP] \<le> 2"
    using room by (auto simp: ring_space_for_def)
  then obtain r where "ring_emit rs (of_nat 2) [flush_cmd (chip d) inval fl, MI_NOOP] (ring d) = Ret (rs, r)" "ring_space_for r (p + 2) (m + 10)"
    using emit_room[OF _ _ refl] room by blast
  then have r: "ring_emit rs 2 [flush_cmd (chip d) inval fl, MI_NOOP] (ring d) = Ret (rs, r)" "ring_space_for r (p + 2) (m + 10)"
    by simp_all
  obtain d2 where d2: "inteldrm_process_flushing fl (d\<lparr>ring := r\<rparr>) = Ret d2" "keeps (d\<lparr>ring := r\<rparr>) d2"
    using process_flushing_ok[OF mm_inv_ring[OF inv]] by blast
  then have "ring_space_for (ring d2) (p + 2) (m + 10)"
    using r(2) by (simp add: keeps_def)
  from add_request_room[OF this, of c rs] obtain seqno d3 p3 where
    d3: "i915_add_request c rs d2 = Ret (seqno, rs, d3)" "ring_space_for (ring d3) p3 m"
    by blast
  show ?thesis
  proof (cases "fl AND I915_GEM_GPU_DOMAINS = 0")
    case True
    then show ?thesis
      using False r by (intro exI[of _ 0] exI[of _ "d\<lparr>ring := r\<rparr>"] exI[of _ "p + 2"]) (auto simp: i915_gem_flush_def ring_space_for_def)
  next
    case flush: False
    then have "i915_gem_flush c rs inval fl d = Ret (seqno, rs, d3)"
      using False r(1) d2(1) d3(1) by (simp add: i915_gem_flush_def)
    then show ?thesis
      using d3(2) by blast
  qed
qed

section \<open>Execution\<close>

definition live :: "'a i915_dev_scheme \<Rightarrow> nat \<Rightarrow> bool" where
  "live d i \<longleftrightarrow> objs d i \<noteq> None \<and> (inteldrm_exec_needs_fence i d \<longrightarrow> fence_reg (iobj d i) \<noteq> I915_FENCE_REG_NONE)"

lemma live_keeps: "keeps_objs d d' \<Longrightarrow> live d i \<Longrightarrow> live d' i"
  by (cases "objs d i"; cases "objs d' i")
    (auto simp: live_def keeps_objs_def inteldrm_exec_needs_fence_def has_obj_flag_def flag_bits dest!: spec[of _ i])

text \<open>An object that waits for the next request.\<close>

definition queued :: "'a i915_dev_scheme \<Rightarrow> nat \<Rightarrow> bool" where
  "queued d i \<longleftrightarrow> current_list (iobj d i) = Some ACTIVE_LIST \<and> last_rendering_seqno (iobj d i) = next_gem_seqno d"

text \<open>What execution does to an object: the domain it will be written in is the one that is asked for.\<close>

definition executing :: "'a i915_dev_scheme \<Rightarrow> 'a i915_dev_scheme \<Rightarrow> nat \<Rightarrow> bool" where
  "executing d d' i \<longleftrightarrow>
     (\<exists>obj obj'. objs d i = Some obj \<and> objs d' i = Some obj' \<and> write_domain obj' = pending_write_domain obj \<and>
        (\<forall>n. n \<notin> {4, 7, 12} \<longrightarrow> bit (do_flags obj') n = bit (do_flags obj) n)) \<and>
     bound (iobj d' i) = bound (iobj d i) \<and> pin_count (iobj d' i) = pin_count (iobj d i)"

lemma exec_object_ok:
  assumes inv: "mm_inv d" and live: "live d i"
  shows "\<exists>d'. exec_object i d = Ret d' \<and> mm_inv d' \<and> keeps d d' \<and> queued d' i \<and> executing d d' i \<and>
    (\<forall>j. j \<noteq> i \<longrightarrow> iobj d' j = iobj d j \<and> objs d' j = objs d j)"
proof -
  obtain obj where obj: "objs d i = Some obj"
    using live by (auto simp: live_def)
  have ok: "writes_ok d" "obj_fine i d"
    using inv by (auto simp: mm_inv_def)
  let ?wd = "pending_write_domain obj"
  define fl where "fl = (if ?wd \<noteq> 0 then do_flags obj OR I915_GPU_WRITE else do_flags obj AND NOT I915_GPU_WRITE)"
  define fl' where "fl' = (if bit (do_flags obj) 11 then fl OR I915_FENCED_EXEC else fl AND NOT I915_FENCED_EXEC)"
  define wl where "wl = (if bit (do_flags obj) 7 then remove1 i (gpu_write_list d) else gpu_write_list d)"
  define obj1 where "obj1 = obj\<lparr>write_domain := ?wd, do_flags := fl'\<rparr>"
  define d1 where "d1 = d\<lparr>gpu_write_list := (if ?wd \<noteq> 0 then wl @ [i] else wl), objs := (objs d)(i := Some obj1)\<rparr>"
  have bits: "bit fl' n \<longleftrightarrow> (if n = 7 then ?wd \<noteq> 0 else if n = 12 then bit (do_flags obj) 11 else bit (do_flags obj) n)" for n
    by (cases "n < 32") (auto simp: fl'_def fl_def flag_simps dest: bit_imp_le_length)
  have "exec_object i d = i915_gem_object_move_to_active i d1"
  proof -
    define da where "da = d\<lparr>objs := (objs d)(i := Some (obj\<lparr>write_domain := ?wd\<rparr>))\<rparr>"
    define db where "db = d\<lparr>gpu_write_list := (if ?wd \<noteq> 0 then wl @ [i] else wl), objs := (objs d)(i := Some (obj\<lparr>write_domain := ?wd, do_flags := fl\<rparr>))\<rparr>"
    have a: "upd_obj i (write_domain_update (\<lambda>_. ?wd)) d = da"
      using obj by (simp add: upd_obj_def da_def)
    have w: "has_obj_flag I915_GPU_WRITE i da \<longleftrightarrow> bit (do_flags obj) 7"
      by (simp add: da_def has_obj_flag_def flag_bits)
    have b: "(let d = (if has_obj_flag I915_GPU_WRITE i da then da\<lparr>gpu_write_list := remove1 i (gpu_write_list da)\<rparr> else da)
        in if ?wd \<noteq> 0 then set_flag I915_GPU_WRITE i (d\<lparr>gpu_write_list := gpu_write_list d @ [i]\<rparr>) else clear_flag I915_GPU_WRITE i d) = db"
      unfolding w using obj by (cases obj) (auto simp: da_def db_def wl_def fl_def set_flag_def clear_flag_def upd_obj_def Let_def)
    have f: "inteldrm_exec_needs_fence i db \<longleftrightarrow> bit (do_flags obj) 11"
      by (auto simp: db_def inteldrm_exec_needs_fence_def has_obj_flag_def fl_def flag_simps)
    have e: "(if inteldrm_exec_needs_fence i db then set_flag I915_FENCED_EXEC i db else clear_flag I915_FENCED_EXEC i db) = d1"
      unfolding f by (cases obj) (auto simp: db_def d1_def obj1_def fl'_def set_flag_def clear_flag_def upd_obj_def)
    show ?thesis
      unfolding exec_object_def obj option.case Let_def a b[unfolded Let_def] e ..
  qed
  moreover have inv1: "mm_inv d1"
  proof (rule mm_inv_objs[OF inv])
    show "writes_ok d1"
      using ok(1) obj by (auto simp: writes_ok_def d1_def has_obj_flag_def flag_bits obj1_def bits wl_def)
    show "obj_fine i d1"
      using ok(2) live obj by (auto simp: obj_fine_def d1_def obj1_def bits live_def is_active_iff)
  qed (simp_all add: d1_def)
  moreover have obj_d1: "objs d1 i = Some obj1"
    by (simp add: d1_def)
  ultimately obtain d2 obj2 where d2: "exec_object i d = Ret d2" "mm_inv d2" "keeps d1 d2"
    "current_list (iobj d2 i) = Some ACTIVE_LIST" "last_rendering_seqno (iobj d2 i) = next_gem_seqno d1"
    "\<And>j. j \<noteq> i \<Longrightarrow> iobj d2 j = iobj d1 j \<and> objs d2 j = objs d1 j" "objs d2 i = Some obj2" "write_domain obj2 = write_domain obj1"
    "\<And>n. n \<noteq> 4 \<Longrightarrow> bit (do_flags obj2) n = bit (do_flags obj1) n"
    "bound (iobj d2 i) = bound (iobj d1 i)" "pin_count (iobj d2 i) = pin_count (iobj d1 i)"
    by (metis (no_types, lifting) move_to_active_ok)
  have "executing d d2 i"
    using obj d2(7-11) bits by (auto simp: executing_def d1_def obj1_def)
  moreover have "iobj d2 j = iobj d j" "objs d2 j = objs d j" if "j \<noteq> i" for j
    using d2(6)[OF that] that by (simp_all add: d1_def)
  moreover have "keeps d d1"
    using obj by (simp add: keeps_def keeps_objs_def d1_def obj1_def bits)
  then have "keeps d d2"
    using d2(3) keeps_trans(2) by blast
  moreover have "queued d2 i"
    using d2(3-5) by (simp add: queued_def keeps_def d1_def)
  ultimately show ?thesis
    using d2(1,2) by blast
qed

lemma exec_objects_ok:
  assumes "mm_inv d" "\<forall>i\<in>set xs. live d i" "distinct xs"
  shows "\<exists>d'. exec_objects xs d = Ret d' \<and> mm_inv d' \<and> keeps d d' \<and> (\<forall>i\<in>set xs. queued d' i \<and> executing d d' i) \<and>
    (\<forall>j. j \<notin> set xs \<longrightarrow> iobj d' j = iobj d j \<and> objs d' j = objs d j)"
  using assms
proof (induction xs arbitrary: d)
  case (Cons i xs)
  obtain d1 where d1: "exec_object i d = Ret d1" "mm_inv d1" "keeps d d1" "queued d1 i" "executing d d1 i"
    "\<And>j. j \<noteq> i \<Longrightarrow> iobj d1 j = iobj d j \<and> objs d1 j = objs d j"
    using exec_object_ok[of d i] Cons.prems by auto
  have "\<forall>j\<in>set xs. live d1 j"
    using Cons.prems(2) d1(3) live_keeps by (auto simp: keeps_def)
  from Cons.IH[OF d1(2) this] Cons.prems(3) obtain d2 where d2: "exec_objects xs d1 = Ret d2" "mm_inv d2" "keeps d1 d2"
    "\<And>i. i \<in> set xs \<Longrightarrow> queued d2 i \<and> executing d1 d2 i" "\<And>j. j \<notin> set xs \<Longrightarrow> iobj d2 j = iobj d1 j \<and> objs d2 j = objs d1 j"
    by auto
  have i: "i \<notin> set xs"
    using Cons.prems(3) by simp
  then have "queued d2 i" "executing d d2 i"
    using d1(4,5) d2(3) d2(5)[of i] by (auto simp: queued_def executing_def keeps_def)
  moreover have "executing d d2 j" if "j \<in> set xs" for j
  proof -
    have "j \<noteq> i"
      using i that by auto
    then show ?thesis
      using d2(4)[OF that] d1(6)[of j] by (auto simp: executing_def)
  qed
  ultimately show ?case
    using d1(1,6) d2 keeps_trans(2)[OF d1(3) d2(3)] by (intro exI[of _ d2]) auto
qed simp

text \<open>What the relocations leave of an object: it does not go to the domain of the CPU.\<close>

definition for_gpu :: "'a i915_dev_scheme \<Rightarrow> nat \<Rightarrow> bool" where
  "for_gpu d i \<longleftrightarrow>
     (case objs d i of
        None \<Rightarrow> False
      | Some obj \<Rightarrow> pending_read_domains obj AND I915_GEM_DOMAIN_CPU = 0 \<and> pending_write_domain obj \<noteq> I915_GEM_DOMAIN_CPU)"

lemma gpu_domains_eq: "uo_refs (fst (gpu_domains obj)) = uo_refs obj" "write_domain (fst (gpu_domains obj)) = write_domain obj"
    "do_flags (fst (gpu_domains obj)) = (if pending_write_domain obj = 0 then do_flags obj else do_flags obj OR I915_DIRTY)"
  by (simp_all add: gpu_domains_def Let_def)

lemma gpu_domains_fields:
  assumes "gpu_domains obj = (obj', inval, flush)"
  shows "uo_refs obj' = uo_refs obj" "write_domain obj' = write_domain obj"
    "n \<noteq> 10 \<Longrightarrow> bit (do_flags obj') n = bit (do_flags obj) n"
  using gpu_domains_eq[of obj] unfolding assms by (simp_all add: bit_or_iff bit_flags)

lemma set_to_gpu_ok:
  assumes inv: "mm_inv d" and gpu: "for_gpu d i"
  shows "\<exists>d'. i915_gem_object_set_to_gpu_domain i d = Ret d' \<and> mm_inv d' \<and> keeps d d' \<and> iobj d' = iobj d \<and>
    gpu_write_list d' = gpu_write_list d \<and> objs d' i = map_option (fst \<circ> gpu_domains) (objs d i) \<and> (\<forall>j. j \<noteq> i \<longrightarrow> objs d' j = objs d j)"
proof -
  obtain obj where obj: "objs d i = Some obj" "pending_read_domains obj AND I915_GEM_DOMAIN_CPU = 0"
    "pending_write_domain obj \<noteq> I915_GEM_DOMAIN_CPU"
    using gpu by (auto simp: for_gpu_def split: option.splits)
  obtain obj' inval flush where g: "gpu_domains obj = (obj', inval, flush)"
    by (cases "gpu_domains obj")
  note obj' = gpu_domains_fields[OF g]
  define d' where "d' = d\<lparr>objs := (objs d)(i := Some obj'), invalidate_domains := invalidate_domains d OR inval,
    flush_domains := flush_domains d OR flush\<rparr>"
  have run: "i915_gem_object_set_to_gpu_domain i d = Ret d'"
    using obj by (simp add: i915_gem_object_set_to_gpu_domain_def g d'_def)
  have "mm_inv d'"
  proof (rule mm_inv_objs[OF inv])
    show "writes_ok d'"
      using inv obj obj'(3)[where n = 7] by (auto simp: mm_inv_def writes_ok_def d'_def has_obj_flag_def flag_bits)
    have "obj_fine i d"
      using inv by (simp add: mm_inv_def)
    then show "obj_fine i d'"
      using obj obj' by (simp add: obj_fine_def d'_def)
  qed (simp_all add: d'_def)
  moreover have "keeps d d'"
    using obj obj'(3)[where n = 11] by (simp add: keeps_def keeps_objs_def d'_def)
  ultimately show ?thesis
    using run obj(1) g by (intro exI[of _ d']) (simp add: d'_def)
qed

lemma set_to_gpu_domains_ok:
  assumes "mm_inv d" "\<forall>i\<in>set xs. for_gpu d i" "distinct xs"
  shows "\<exists>d'. set_to_gpu_domains xs d = Ret d' \<and> mm_inv d' \<and> keeps d d' \<and> iobj d' = iobj d \<and> gpu_write_list d' = gpu_write_list d \<and>
    (\<forall>i. objs d' i = (if i \<in> set xs then map_option (fst \<circ> gpu_domains) (objs d i) else objs d i))"
  using assms
proof (induction xs arbitrary: d)
  case (Cons i xs)
  obtain d1 where d1: "i915_gem_object_set_to_gpu_domain i d = Ret d1" "mm_inv d1" "keeps d d1" "\<forall>j. j \<noteq> i \<longrightarrow> objs d1 j = objs d j"
    "iobj d1 = iobj d" "gpu_write_list d1 = gpu_write_list d" "objs d1 i = map_option (fst \<circ> gpu_domains) (objs d i)"
    using set_to_gpu_ok[of d i] Cons.prems by auto
  have "\<forall>j\<in>set xs. for_gpu d1 j"
    using Cons.prems(2,3) d1(4) by (auto simp: for_gpu_def)
  from Cons.IH[OF d1(2) this] Cons.prems(3) obtain d2 where d2: "set_to_gpu_domains xs d1 = Ret d2" "mm_inv d2" "keeps d1 d2"
    "iobj d2 = iobj d1" "gpu_write_list d2 = gpu_write_list d1"
    "\<And>i. objs d2 i = (if i \<in> set xs then map_option (fst \<circ> gpu_domains) (objs d1 i) else objs d1 i)"
    by auto
  have "objs d2 j = (if j \<in> set (i # xs) then map_option (fst \<circ> gpu_domains) (objs d j) else objs d j)" for j
    using Cons.prems(3) d1(4,7) d2(6) by (cases "j = i") auto
  then show ?case
    using d1 d2(1-5) keeps_trans(2)[OF d1(3) d2(3)] by (intro exI[of _ d2]) simp
qed simp

lemma length_batch_words: "length (batch_words fl s n) = (if IS_I830 fl \<or> IS_845G fl then 6 else 4)"
  by (simp add: batch_words_def)

lemma dispatch_ok:
  assumes inv: "mm_inv d" and few: "length (request_list d) + 1 < seqnos"
    and run: "i915_dispatch_gem_execbuffer c rs off len start d = Ret (rs', d')"
  shows "mm_inv d'" "iobj d' = iobj d"
    "if c then request_list d' = request_list d @ [next_gem_seqno d] else request_list d' = request_list d \<and> next_gem_seqno d' = next_gem_seqno d"
    "objs d' = objs d"
proof -
  obtain r seqno rs1 where "i915_add_request c rs1 (d\<lparr>ring := r\<rparr>) = Ret (seqno, rs', d')"
    using run by (auto simp: i915_dispatch_gem_execbuffer_def Let_def obind_eq_Ret)
  then obtain r' where req: "requested c r' (d\<lparr>ring := r\<rparr>) d'"
    using add_request_ok by blast
  show "mm_inv d'"
    using requested_inv(1)[OF mm_inv_ring[OF inv] req] few by simp
  show "iobj d' = iobj d"
    "if c then request_list d' = request_list d @ [next_gem_seqno d] else request_list d' = request_list d \<and> next_gem_seqno d' = next_gem_seqno d"
    "objs d' = objs d"
    using req by (auto simp: requested_def)
qed

lemma dispatch_room:
  assumes "ring_space_for (ring d) p 16"
  shows "\<exists>d'. i915_dispatch_gem_execbuffer c rs off len start d = Ret (rs, d')"
proof -
  let ?n = "length (batch_words (chip d) (ucast start + off) len)"
  have n: "?n \<le> 6" "(of_nat ?n :: u32) = (if IS_I830 (chip d) \<or> IS_845G (chip d) then 6 else 4)"
    by (simp_all add: length_batch_words)
  have "ring_space_for (ring d) p ?n" "10 + ?n \<le> 16"
    using assms n(1) by (auto simp: ring_space_for_def)
  then obtain r where r: "ring_emit rs (of_nat ?n) (batch_words (chip d) (ucast start + off) len) (ring d) = Ret (rs, r)"
    "ring_space_for r (p + ?n) (0 + 10)"
    using emit_room[OF _ order.refl refl] assms by (metis add_0)
  then have "ring_space_for (ring (d\<lparr>ring := r\<rparr>)) (p + ?n) (0 + 10)"
    by simp
  from add_request_room[OF this, of c rs] show ?thesis
    using r(1) n(2) by (auto simp: i915_dispatch_gem_execbuffer_def Let_def)
qed

definition refused :: "u32 \<Rightarrow> u32 \<Rightarrow> nat list \<Rightarrow> 'a i915_dev_scheme \<Rightarrow> bool" where
  "refused batch_start_offset batch_len objects d \<longleftrightarrow>
     (case objs d (last objects) of
        None \<Rightarrow> False
      | Some obj \<Rightarrow> ucast (batch_start_offset + batch_len) > obj_size obj \<or> pending_write_domain obj \<noteq> 0)"

definition prepared :: "nat list \<Rightarrow> 'a i915_dev_scheme \<Rightarrow> 'a i915_dev_scheme" where
  "prepared objects d =
     (upd_obj (last objects) (pending_read_domains_update (\<lambda>w. w OR I915_GEM_DOMAIN_COMMAND)) d)
       \<lparr>invalidate_domains := 0, flush_domains := 0\<rparr>"

lemma commit_starts:
  assumes "mm_inv d" "objects \<noteq> []" "distinct objects" "\<forall>i\<in>set objects. live d i \<and> for_gpu d i" "\<not> refused off len objects d"
  obtains d2 where "set_to_gpu_domains objects (prepared objects d) = Ret d2" "mm_inv d2" "keeps d d2"
    "iobj d2 = iobj d" "gpu_write_list d2 = gpu_write_list d"
    "\<And>i. i \<in> set objects \<Longrightarrow> i \<noteq> last objects \<Longrightarrow> objs d2 i = map_option (fst \<circ> gpu_domains) (objs d i)"
    "execbuffer_commit c1 c2 rs objects off len d =
        obind (i915_gem_flush c1 rs (invalidate_domains d2) (flush_domains d2) d2) (\<lambda>(seqno, rs, d).
        obind (exec_objects objects d) (\<lambda>d.
        obind (i915_dispatch_gem_execbuffer c2 rs off len (gtt_offset (iobj d (last objects))) d) (\<lambda>(rs, d). Ret (E_OK, rs, d))))"
proof -
  let ?b = "last objects"
  obtain obj where obj: "objs d ?b = Some obj"
    using assms(4) last_in_set[OF assms(2)] by (auto simp: live_def)
  define obj1 where "obj1 = obj\<lparr>pending_read_domains := pending_read_domains obj OR I915_GEM_DOMAIN_COMMAND\<rparr>"
  define d1 where "d1 = d\<lparr>objs := (objs d)(?b := Some obj1), invalidate_domains := 0, flush_domains := 0\<rparr>"
  have d1: "prepared objects d = d1"
    using obj by (cases obj) (simp add: prepared_def upd_obj_def d1_def obj1_def)
  have obj1: "uo_refs obj1 = uo_refs obj" "write_domain obj1 = write_domain obj" "do_flags obj1 = do_flags obj"
    "pending_write_domain obj1 = pending_write_domain obj"
    by (simp_all add: obj1_def)
  have inv1: "mm_inv d1"
  proof (rule mm_inv_objs[OF assms(1)])
    show "writes_ok d1"
      using assms(1) obj by (auto simp: mm_inv_def writes_ok_def d1_def has_obj_flag_def obj1)
    have "obj_fine ?b d"
      using assms(1) by (simp add: mm_inv_def)
    then show "obj_fine ?b d1"
      using obj by (simp add: obj_fine_def d1_def obj1)
  qed (simp_all add: d1_def)
  have keep1: "keeps d d1"
    using obj by (simp add: keeps_def keeps_objs_def d1_def obj1)
  have "(pending_read_domains obj OR I915_GEM_DOMAIN_COMMAND) AND I915_GEM_DOMAIN_CPU = pending_read_domains obj AND I915_GEM_DOMAIN_CPU"
    by (simp add: bit.conj_disj_distrib2 I915_GEM_DOMAIN_COMMAND_def I915_GEM_DOMAIN_CPU_def)
  then have "\<forall>i\<in>set objects. for_gpu d1 i"
    using assms(4) obj by (auto simp: for_gpu_def d1_def obj1) (auto simp: obj1_def)
  then obtain d2 where d2: "set_to_gpu_domains objects d1 = Ret d2" "mm_inv d2" "keeps d1 d2" "iobj d2 = iobj d1" "gpu_write_list d2 = gpu_write_list d1"
    "\<And>i. objs d2 i = (if i \<in> set objects then map_option (fst \<circ> gpu_domains) (objs d1 i) else objs d1 i)"
    using set_to_gpu_domains_ok[OF inv1 _ assms(3)] by blast
  have same2: "iobj d2 = iobj d" "gpu_write_list d2 = gpu_write_list d"
    "\<And>i. i \<in> set objects \<Longrightarrow> i \<noteq> ?b \<Longrightarrow> objs d2 i = map_option (fst \<circ> gpu_domains) (objs d i)"
    using d2(4-6) by (simp_all add: d1_def)
  have "execbuffer_commit c1 c2 rs objects off len d =
        obind (i915_gem_flush c1 rs (invalidate_domains d2) (flush_domains d2) d2) (\<lambda>(seqno, rs, d).
        obind (exec_objects objects d) (\<lambda>d.
        obind (i915_dispatch_gem_execbuffer c2 rs off len (gtt_offset (iobj d ?b)) d) (\<lambda>(rs, d). Ret (E_OK, rs, d))))"
    using assms(5) obj d1 d2(1) by (simp add: execbuffer_commit_def refused_def prepared_def)
  then show thesis
    using that[of d2] d1 d2(1,2) keeps_trans(2)[OF keep1 d2(3)] same2 by simp
qed

text \<open>
  C37: Executing a batch keeps the invariant of the lists and tracks every object of the batch: when it
  returns, all of them are on the active list and wait for the last request, the one that follows the
  batch in the ring (if there was no memory for it, for the next that will be made). It does return,
  without any assertion failing, when the ring has room for 28 words. A batch that leaves its object or
  is to be written to is refused and changes nothing.
\<close>

theorem execbuffer_tracks:
  assumes "mm_inv d" "objects \<noteq> []" "distinct objects" "\<forall>i\<in>set objects. live d i \<and> for_gpu d i" "length (request_list d) + 2 < seqnos"
  shows "case execbuffer_commit c1 c2 rs objects off len d of
      Ret (e, rs', d') \<Rightarrow>
        if refused off len objects d then e = EINVAL \<and> d' = d
        else e = E_OK \<and> mm_inv d' \<and>
             (\<forall>i\<in>set objects. i \<in> set (mm_list d' ACTIVE_LIST) \<and>
                last_rendering_seqno (iobj d' i) = (if c2 then last (request_list d') else next_gem_seqno d'))
    | _ \<Rightarrow> \<not> refused off len objects d \<and> (\<forall>p. \<not> ring_space_for (ring d) p 28)"
proof -
  let ?b = "last objects"
  obtain obj where obj: "objs d ?b = Some obj"
    using assms(4) last_in_set[OF assms(2)] by (auto simp: live_def)
  show ?thesis
  proof (cases "refused off len objects d")
    case True
    then show ?thesis
      using obj by (simp add: execbuffer_commit_def refused_def)
  next
    case False
    from commit_starts[OF assms(1-4) False] obtain d2 where d2: "mm_inv d2" and keep2: "keeps d d2" and
      unf: "execbuffer_commit c1 c2 rs objects off len d =
        obind (i915_gem_flush c1 rs (invalidate_domains d2) (flush_domains d2) d2) (\<lambda>(seqno, rs, d).
        obind (exec_objects objects d) (\<lambda>d.
        obind (i915_dispatch_gem_execbuffer c2 rs off len (gtt_offset (iobj d ?b)) d) (\<lambda>(rs, d). Ret (E_OK, rs, d))))"
      by blast
    have few: "length (request_list d2) + 1 < seqnos" "length (request_list d2) = length (request_list d)"
      using assms(5) keep2 by (simp_all add: keeps_def)
    have step: "\<exists>d4. exec_objects objects d3 = Ret d4 \<and> mm_inv d4 \<and> keeps d3 d4 \<and> (\<forall>i\<in>set objects. queued d4 i) \<and>
        length (request_list d3) \<le> length (request_list d) + 1"
      if "i915_gem_flush c1 rs (invalidate_domains d2) (flush_domains d2) d2 = Ret (s, rs1, d3)" for s rs1 d3
    proof -
      note F = flush_ok[OF d2 few(1) that]
      have "keeps_objs d d3"
        using keep2 F(2) keeps_trans(1) by (auto simp: keeps_def)
      then have "\<forall>i\<in>set objects. live d3 i"
        using assms(4) live_keeps by blast
      then show ?thesis
        using exec_objects_ok[OF F(1) _ assms(3)] F(3) few(2) by auto
    qed
    have returns: "\<exists>x. execbuffer_commit c1 c2 rs objects off len d = Ret x" if room: "ring_space_for (ring d) p 28" for p
    proof -
      have "ring_space_for (ring d2) p (16 + 12)"
        using room keep2 by (simp add: keeps_def)
      from flush_room[OF d2 this] obtain s d3 p3 where
        f: "i915_gem_flush c1 rs (invalidate_domains d2) (flush_domains d2) d2 = Ret (s, rs, d3)" "ring_space_for (ring d3) p3 16"
        by blast
      from step[OF f(1)] obtain d4 where d4: "exec_objects objects d3 = Ret d4" "keeps d3 d4"
        by blast
      then have "ring_space_for (ring d4) p3 16"
        using f(2) by (simp add: keeps_def)
      from dispatch_room[OF this, of c2 rs off len "gtt_offset (iobj d4 ?b)"] show ?thesis
        unfolding unf by (auto simp: f(1) d4(1))
    qed
    show ?thesis
    proof (cases "execbuffer_commit c1 c2 rs objects off len d")
      case (Ret x)
      then obtain s rs1 d3 d4 rs2 d5 where
        run: "i915_gem_flush c1 rs (invalidate_domains d2) (flush_domains d2) d2 = Ret (s, rs1, d3)"
          "exec_objects objects d3 = Ret d4" "i915_dispatch_gem_execbuffer c2 rs1 off len (gtt_offset (iobj d4 ?b)) d4 = Ret (rs2, d5)"
          "x = (E_OK, rs2, d5)"
        unfolding unf by (auto simp: obind_eq_Ret)
      from step[OF run(1)] run(2) have d4: "mm_inv d4" "keeps d3 d4" "\<forall>i\<in>set objects. queued d4 i"
        "length (request_list d4) + 1 < seqnos"
        using assms(5) by (auto simp: keeps_def)
      note D = dispatch_ok[OF d4(1,4) run(3)]
      have "i \<in> set (mm_list d5 ACTIVE_LIST) \<and> last_rendering_seqno (iobj d5 i) = (if c2 then last (request_list d5) else next_gem_seqno d5)"
        if "i \<in> set objects" for i
        using d4(3) that D by (auto simp: queued_def mm_inv_def lists_ok_def split: if_splits)
      then show ?thesis
        using False Ret run(4) D(1) by simp
    qed (use returns False in auto)
  qed
qed

text \<open>A batch, the object 10, that uses the object 7 the GPU still works on, and a ring with room.\<close>

definition demo_exec :: i915_dev where
  "demo_exec = demo_i915\<lparr>objs := (objs demo_i915)(10 \<mapsto> demo_obj 1 0 0),
     ring := \<lparr>rg_size = 256, rg_head = 0, rg_space = 248, rg_tail = 0, rg_woffset = 0, rg_mem = replicate 64 0, prb_tail = 0\<rparr>\<rparr>"

lemma demo_exec_inv: "mm_inv demo_exec"
proof (rule mm_inv_objs[OF demo_i915_inv, where i = 10])
  show "writes_ok demo_exec"
    by (auto simp: writes_ok_def has_obj_flag_def demo_exec_def demo_obj_def I915_GPU_WRITE_def)
  show "obj_fine 10 demo_exec"
    by (simp add: obj_fine_def demo_exec_def demo_iobj_def demo_obj_def I915_FENCE_REG_NONE_def)
qed (simp_all add: demo_exec_def)

lemma demo_exec_room: "n \<le> 62 \<Longrightarrow> ring_space_for (ring demo_exec) 0 n"
proof -
  assume "n \<le> 62"
  moreover have "sint (248 :: u32) = 248"
    using sint_small[of 248] by simp
  moreover have "\<exists>k. 64 = (2 :: nat) ^ k \<and> k \<le> 19"
    by (rule exI[of _ 6]) simp
  ultimately show ?thesis
    by (simp add: ring_space_for_def demo_exec_def)
qed

lemma demo_exec_objects: "\<forall>i\<in>set [7, 10]. live demo_exec i \<and> for_gpu demo_exec i" "\<not> refused 0 64 [7, 10] demo_exec"
  by (simp_all add: live_def for_gpu_def refused_def demo_exec_def demo_obj_def inteldrm_exec_needs_fence_def has_obj_flag_def
      I915_EXEC_NEEDS_FENCE_def I915_GEM_DOMAIN_CPU_def)

lemma demo_exec_few: "length (request_list demo_exec) + 2 < seqnos"
  by (simp add: demo_exec_def seqnos_def)

theorem execbuffer_tracks_witness:
  "\<exists>rs' d'. execbuffer_commit True True [] [7, 10] 0 64 demo_exec = Ret (E_OK, rs', d') \<and>
    7 \<in> set (mm_list d' ACTIVE_LIST) \<and> 10 \<in> set (mm_list d' ACTIVE_LIST) \<and>
    last_rendering_seqno (iobj d' 7) = last (request_list d')"
  using execbuffer_tracks[OF demo_exec_inv _ _ demo_exec_objects(1) demo_exec_few, of 0 64 True True "[]"]
    demo_exec_objects(2) demo_exec_room[of 28]
  by (auto split: outcome.splits)

section \<open>What the GPU is given\<close>

definition wrote :: "inteldrm_ring \<Rightarrow> nat \<Rightarrow> u32 list \<Rightarrow> inteldrm_ring \<Rightarrow> bool" where
  "wrote r p ws r' \<longleftrightarrow>
     p + length ws \<le> length (rg_mem r) \<and> rg_mem r' = overwrite p ws (rg_mem r) \<and>
     prb_tail r' = (if ws = [] then prb_tail r else of_nat (4 * (p + length ws)))"

lemma wrote_Nil [simp]: "p \<le> length (rg_mem r) \<Longrightarrow> wrote r p [] r"
  by (simp add: wrote_def)

lemma wrote_append:
  assumes "wrote r p a r1" "wrote r1 (p + length a) b r2"
  shows "wrote r p (a @ b) r2"
  using assms overwrite_append[of p a b "rg_mem r"] by (cases b) (auto simp: wrote_def add.assoc)

lemma emit_wrote:
  assumes "ring_space_for r p (m + length ws)" "ws \<noteq> []" "(of_nat (length ws) :: u32) = n"
  obtains r' where "ring_emit rs n ws r = Ret (rs, r')" "wrote r p ws r'" "ring_space_for r' (p + length ws) m"
proof -
  have room: "ring_space_for r p (length ws)"
    using assms(1) by (auto simp: ring_space_for_def)
  define r' where "r' = r\<lparr>rg_mem := overwrite p ws (rg_mem r), rg_woffset := of_nat (4 * (p + length ws)),
    rg_tail := of_nat (4 * (p + length ws)), rg_space := rg_space r - of_nat (4 * length ws), prb_tail := of_nat (4 * (p + length ws))\<rparr>"
  note E = emit_room[OF room order.refl r'_def]
  have "wrote r p ws r'"
    using assms(2) room by (simp add: wrote_def r'_def ring_space_for_def)
  then show thesis
    using that[of r'] E(1)[of rs] E(2)[OF _ assms(1), of m] unfolding assms(3) by simp
qed

definition early_chip :: "'a i915_dev_scheme \<Rightarrow> bool" where
  "early_chip d \<longleftrightarrow> \<not> IS_GEN6 (chip d) \<and> \<not> IS_GEN7 (chip d)"

definition request_block :: "bool \<Rightarrow> u32 \<Rightarrow> u32 list" where
  "request_block c seqno = (if c then request_words seqno else [])"

definition flush_words :: "bool \<Rightarrow> u32 \<Rightarrow> u32 \<Rightarrow> 'a i915_dev_scheme \<Rightarrow> u32 list" where
  "flush_words c inval fl d =
     (if (inval OR fl) AND I915_GEM_GPU_DOMAINS = 0 then []
      else [flush_cmd (chip d) inval fl, MI_NOOP] @
        (if fl AND I915_GEM_GPU_DOMAINS \<noteq> 0 then request_block c (next_gem_seqno d) else []))"

lemma length_request_block: "length (request_block c s) \<le> 4"
  by (simp add: request_block_def)

lemma add_request_wrote:
  assumes "early_chip d" "ring_space_for (ring d) p (m + length (request_block c (next_gem_seqno d)))"
  obtains seqno d' where "i915_add_request c rs d = Ret (seqno, rs, d')"
    "wrote (ring d) p (request_block c (next_gem_seqno d)) (ring d')" "ring_space_for (ring d') (p + length (request_block c (next_gem_seqno d))) m"
proof (cases c)
  case True
  have "ring_space_for (ring d) p (m + length (request_words (next_gem_seqno d)))" "request_words (next_gem_seqno d) \<noteq> []"
    "(of_nat (length (request_words (next_gem_seqno d))) :: u32) = (if IS_GEN6 (chip d) \<or> IS_GEN7 (chip d) then 10 else 4)"
    using assms True by (simp_all add: request_block_def early_chip_def) (simp add: request_words_def)
  from emit_wrote[OF this, of rs] obtain r where r:
    "ring_emit rs (if IS_GEN6 (chip d) \<or> IS_GEN7 (chip d) then 10 else 4) (request_words (next_gem_seqno d)) (ring d) = Ret (rs, r)"
    "wrote (ring d) p (request_words (next_gem_seqno d)) r" "ring_space_for r (p + length (request_words (next_gem_seqno d))) m"
    by metis
  obtain seqno rs' d' where d': "i915_add_request c rs d = Ret (seqno, rs', d')" "ring d' = r" "rs' = rs"
    using True r(1) by (simp add: i915_add_request_def Let_def)
  then show thesis
    using that[of seqno d'] r True by (simp add: request_block_def)
next
  case False
  then show thesis
    using that[of 0 d] assms(2) by (simp add: i915_add_request_def request_block_def ring_space_for_def)
qed

lemma flush_wrote:
  assumes inv: "mm_inv d" and early: "early_chip d" and room: "ring_space_for (ring d) p (m + 6)"
  obtains seqno d' k where "i915_gem_flush c rs inval fl d = Ret (seqno, rs, d')"
    "wrote (ring d) p (flush_words c inval fl d) (ring d')" "ring_space_for (ring d') (p + length (flush_words c inval fl d)) (m + k)"
proof -
  let ?W = "flush_words c inval fl d"
  have len: "length ?W \<le> 6"
    using length_request_block by (simp add: flush_words_def)
  show thesis
  proof (cases "(inval OR fl) AND I915_GEM_GPU_DOMAINS = 0")
    case True
    then show thesis
      using that[of 0 d 6] room by (simp add: i915_gem_flush_def flush_words_def ring_space_for_def)
  next
    case False
    let ?B = "request_block c (next_gem_seqno d)"
    have "ring_space_for (ring d) p (m + 4 + length [flush_cmd (chip d) inval fl, MI_NOOP])"
      using room by (simp add: add.commute)
    then obtain r where r: "ring_emit rs 2 [flush_cmd (chip d) inval fl, MI_NOOP] (ring d) = Ret (rs, r)"
      "wrote (ring d) p [flush_cmd (chip d) inval fl, MI_NOOP] r" "ring_space_for r (p + 2) (m + 4)"
      by (rule emit_wrote[where n = 2 and rs = rs]) simp_all
    show thesis
    proof (cases "fl AND I915_GEM_GPU_DOMAINS = 0")
      case True
      then show thesis
        using that[of 0 "d\<lparr>ring := r\<rparr>" 4] False r by (simp add: i915_gem_flush_def flush_words_def)
    next
      case flush: False
      obtain d2 where d2: "inteldrm_process_flushing fl (d\<lparr>ring := r\<rparr>) = Ret d2" "keeps (d\<lparr>ring := r\<rparr>) d2"
        using process_flushing_ok[OF mm_inv_ring[OF inv]] by blast
      then have same: "early_chip d2" "ring d2 = r" "next_gem_seqno d2 = next_gem_seqno d"
        using early by (simp_all add: keeps_def keeps_objs_def early_chip_def)
      have "ring_space_for (ring d2) (p + 2) (m + (4 - length ?B) + length (request_block c (next_gem_seqno d2)))"
        using r(3) length_request_block[of c "next_gem_seqno d"] by (simp add: same)
      from add_request_wrote[OF same(1) this, of rs] obtain seqno d3 where
        d3: "i915_add_request c rs d2 = Ret (seqno, rs, d3)" "wrote r (p + 2) ?B (ring d3)" "ring_space_for (ring d3) (p + 2 + length ?B) (m + (4 - length ?B))"
        unfolding same by metis
      have W: "?W = [flush_cmd (chip d) inval fl, MI_NOOP] @ ?B"
        using False flush by (simp add: flush_words_def)
      have "wrote (ring d) p ?W (ring d3)"
        unfolding W using r(2) d3(2) by (intro wrote_append) simp_all
      moreover have "i915_gem_flush c rs inval fl d = Ret (seqno, rs, d3)"
        using False flush r(1) d2(1) d3(1) by (simp add: i915_gem_flush_def)
      ultimately show thesis
        using that[of seqno d3 "4 - length ?B"] d3(3) W by (simp add: add.assoc)
    qed
  qed
qed

text \<open>
  C38: What the GPU is given, on chips before Sandy Bridge and with room for 16 words in the ring: first
  the flush of the caches that the new domains of the objects call for (and the request that goes with
  it, if written data is flushed), then the call of the batch, at the place of its object in the
  aperture, then the request that the objects wait for; nothing else in the ring is touched, and the
  tail register is behind the last word.
\<close>

theorem exec_order:
  assumes "mm_inv d" "objects \<noteq> []" "distinct objects" "\<forall>i\<in>set objects. live d i \<and> for_gpu d i" "length (request_list d) + 2 < seqnos"
    "\<not> refused off len objects d" "early_chip d" "ring_space_for (ring d) p 16"
  shows "\<exists>d1 d'. set_to_gpu_domains objects (prepared objects d) = Ret d1 \<and>
    execbuffer_commit c1 True rs objects off len d = Ret (E_OK, rs, d') \<and>
    wrote (ring d) p (flush_words c1 (invalidate_domains d1) (flush_domains d1) d @
      batch_words (chip d) (ucast (gtt_offset (iobj d (last objects))) + off) len @
      request_words (last (request_list d'))) (ring d')"
proof -
  let ?b = "last objects"
  from commit_starts[OF assms(1-4,6)] obtain d1 where d1: "set_to_gpu_domains objects (prepared objects d) = Ret d1" "mm_inv d1" "keeps d d1" and
    unf: "execbuffer_commit c1 True rs objects off len d =
      obind (i915_gem_flush c1 rs (invalidate_domains d1) (flush_domains d1) d1) (\<lambda>(seqno, rs, d).
      obind (exec_objects objects d) (\<lambda>d.
      obind (i915_dispatch_gem_execbuffer True rs off len (gtt_offset (iobj d ?b)) d) (\<lambda>(rs, d). Ret (E_OK, rs, d))))"
    by blast
  have same1: "early_chip d1" "ring d1 = ring d" "request_list d1 = request_list d" "chip d1 = chip d" "next_gem_seqno d1 = next_gem_seqno d"
    using d1(3) assms(7) by (simp_all add: keeps_def keeps_objs_def early_chip_def)
  define F where "F = flush_words c1 (invalidate_domains d1) (flush_domains d1) d"
  have F: "flush_words c1 (invalidate_domains d1) (flush_domains d1) d1 = F"
    by (simp add: F_def flush_words_def same1)
  have "ring_space_for (ring d1) p (10 + 6)"
    using assms(8) same1 by simp
  then obtain s d2 k where
    d2: "i915_gem_flush c1 rs (invalidate_domains d1) (flush_domains d1) d1 = Ret (s, rs, d2)" "wrote (ring d) p F (ring d2)"
      "ring_space_for (ring d2) (p + length F) (10 + k)"
    using flush_wrote[OF d1(2) same1(1), of p 10 c1 rs "invalidate_domains d1" "flush_domains d1"] unfolding F same1(2) by blast
  have few: "length (request_list d1) + 1 < seqnos"
    using assms(5) same1 by simp
  note fl = flush_ok[OF d1(2) few d2(1)]
  have objs2: "keeps_objs d d2"
    using d1(3) fl(2) keeps_trans(1) by (auto simp: keeps_def)
  then have "\<forall>i\<in>set objects. live d2 i"
    using assms(4) live_keeps by blast
  then obtain d3 where d3: "exec_objects objects d2 = Ret d3" "mm_inv d3" "keeps d2 d3"
    using exec_objects_ok[OF fl(1) _ assms(3)] by blast
  define start where "start = gtt_offset (iobj d3 ?b)"
  define B where "B = batch_words (chip d) (ucast start + off) len"
  have start: "start = gtt_offset (iobj d ?b)" and chip3: "chip d3 = chip d" and early3: "early_chip d3"
    using objs2 d3(3) assms(7) by (simp_all add: start_def keeps_def keeps_objs_def early_chip_def)
  have B: "length B \<le> 6" "B \<noteq> []" "(of_nat (length B) :: u32) = (if IS_I830 (chip d3) \<or> IS_845G (chip d3) then 6 else 4)"
    by (simp_all add: B_def length_batch_words chip3) (simp add: batch_words_def)
  have "ring_space_for (ring d3) (p + length F) (4 + (6 - length B) + length B)"
    using d2(3) d3(3) B(1) by (auto simp: keeps_def ring_space_for_def)
  from emit_wrote[OF this B(2,3), of rs] obtain r where
    r: "ring_emit rs (if IS_I830 (chip d3) \<or> IS_845G (chip d3) then 6 else 4) B (ring d3) = Ret (rs, r)"
      "wrote (ring d3) (p + length F) B r" "ring_space_for r (p + length F + length B) (4 + (6 - length B))"
    by metis
  define d4 where "d4 = d3\<lparr>ring := r\<rparr>"
  have "ring_space_for (ring d4) (p + length F + length B) ((6 - length B) + length (request_block True (next_gem_seqno d4)))" "early_chip d4"
    using r(3) early3 by (simp_all add: d4_def request_block_def early_chip_def add.commute)
  then obtain s' d5 where
    d5: "i915_add_request True rs d4 = Ret (s', rs, d5)" "wrote (ring d4) (p + length F + length B) (request_block True (next_gem_seqno d4)) (ring d5)"
    using add_request_wrote by metis
  have dispatch: "i915_dispatch_gem_execbuffer True rs off len start d3 = Ret (rs, d5)"
    using r(1) d5(1) by (simp add: i915_dispatch_gem_execbuffer_def Let_def chip3 B_def d4_def)
  obtain r' where "requested True r' d4 d5"
    using add_request_ok[OF d5(1)] by blast
  then have "request_block True (next_gem_seqno d4) = request_words (last (request_list d5))"
    by (simp add: requested_def request_block_def)
  then have Q: "wrote r (p + length F + length B) (request_words (last (request_list d5))) (ring d5)"
    using d5(2) by (simp add: d4_def)
  have "ring d3 = ring d2"
    using d3(3) by (simp add: keeps_def)
  then have "wrote (ring d) p (F @ B @ request_words (last (request_list d5))) (ring d5)"
    using d2(2) r(2) Q by (intro wrote_append) (simp_all add: add.assoc)
  moreover have "execbuffer_commit c1 True rs objects off len d = Ret (E_OK, rs, d5)"
    unfolding unf using d2(1) d3(1) dispatch by (simp add: start_def)
  ultimately show ?thesis
    using d1(1) by (intro exI[of _ d1] exI[of _ d5]) (simp add: F_def B_def start)
qed

lemma demo_exec_chip: "chip demo_exec = 0" "gtt_offset (iobj demo_exec (last [7, 10])) = 0"
  by (simp_all add: demo_exec_def) (simp_all add: demo_i915_def gem_dev.defs i915_dev.defs demo_iobj_def)

theorem exec_order_witness:
  "\<exists>fl d'. execbuffer_commit True True [] [7, 10] 0 64 demo_exec = Ret (E_OK, [], d') \<and>
    wrote (ring demo_exec) 0 (fl @ batch_words 0 0 64 @ request_words (last (request_list d'))) (ring d')"
proof -
  have early: "early_chip demo_exec"
    by (simp add: early_chip_def demo_exec_chip IS_GEN6_def IS_GEN7_def)
  have ne: "[7 :: nat, 10] \<noteq> []" "distinct [7 :: nat, 10]" "(16 :: nat) \<le> 62"
    by simp_all
  obtain d1 :: i915_dev and d' where run: "execbuffer_commit True True [] [7, 10] 0 64 demo_exec = Ret (E_OK, [], d')"
    and w: "wrote (ring demo_exec) 0 (flush_words True (invalidate_domains d1) (flush_domains d1) demo_exec @
      batch_words (chip demo_exec) (ucast (gtt_offset (iobj demo_exec (last [7, 10]))) + 0) 64 @ request_words (last (request_list d'))) (ring d')"
    using exec_order[OF demo_exec_inv ne(1,2) demo_exec_objects(1) demo_exec_few demo_exec_objects(2) early demo_exec_room[OF ne(3)],
        of True "[]"]
    by blast
  have "ucast (gtt_offset (iobj demo_exec (last [7, 10]))) + 0 = (0 :: u32)"
    unfolding demo_exec_chip by simp
  then show ?thesis
    using run w unfolding demo_exec_chip(1) by metis
qed

text \<open>
  On Sandy Bridge and Ivy Bridge a request takes ten words, of which the driver writes four: the GPU goes
  on to execute the six words that were in the ring before.
\<close>

lemma gen6_request_stale:
  assumes "\<not> early_chip d" "ring_space_for (ring d) p 10"
  shows "\<exists>d'. i915_add_request True rs d = Ret (next_gem_seqno d, rs, d') \<and> prb_tail (ring d') = of_nat (4 * (p + 10)) \<and>
    take 4 (drop p (rg_mem (ring d'))) = request_words (next_gem_seqno d) \<and>
    take 6 (drop (p + 4) (rg_mem (ring d'))) = take 6 (drop (p + 4) (rg_mem (ring d)))"
proof -
  let ?W = "request_words (next_gem_seqno d)"
  define r' where "r' = (ring d)\<lparr>rg_mem := overwrite p ?W (rg_mem (ring d)), rg_woffset := of_nat (4 * (p + length ?W)),
    rg_tail := of_nat (4 * (p + 10)), rg_space := rg_space (ring d) - of_nat (4 * 10), prb_tail := of_nat (4 * (p + 10))\<rparr>"
  have emit: "ring_emit rs 10 ?W (ring d) = Ret (rs, r')"
    using emit_room(1)[OF assms(2) _ r'_def, of rs] by simp
  have "IS_GEN6 (chip d) \<or> IS_GEN7 (chip d)"
    using assms(1) by (auto simp: early_chip_def)
  then obtain d' where d': "i915_add_request True rs d = Ret (next_gem_seqno d, rs, d')" "ring d' = r'"
    using emit by (auto simp: i915_add_request_def Let_def)
  have "p + 10 < length (rg_mem (ring d))"
    using assms(2) by (simp add: ring_space_for_def)
  then have "take 4 (drop p (rg_mem r')) = ?W" "take 6 (drop (p + 4) (rg_mem r')) = take 6 (drop (p + 4) (rg_mem (ring d)))"
    by (simp_all add: r'_def overwrite_def)
  then show ?thesis
    using d' by (intro exI[of _ d']) (simp add: r'_def)
qed

end
