(* ===== verification/I915_Wait.thy ===== *)
theory I915_Wait
  imports I915_Domain I915_Exec
begin

text \<open>
  Waiting for the GPU in \<^verbatim>\<open>i915_drv.c\<close>: what a wait leaves of the objects, that it ends when the GPU
  gets there, and that an object that is taken out of the aperture is at rest then.
\<close>

section \<open>Outcomes\<close>

text \<open>No panic; what is returned has \<open>Q\<close>, and it is still asleep only if \<open>A\<close>.\<close>

definition runs :: "'a outcome \<Rightarrow> ('a \<Rightarrow> bool) \<Rightarrow> bool \<Rightarrow> bool" where
  "runs m Q A \<longleftrightarrow> (case m of Ret x \<Rightarrow> Q x | Panic \<Rightarrow> False | Asleep \<Rightarrow> A)"

lemma runs_simps [simp]: "runs (Ret x) Q A = Q x" "\<not> runs Panic Q A" "runs Asleep Q A = A"
  by (simp_all add: runs_def)



section \<open>The numbers of the requests\<close>

text \<open>The requests \<open>m\<close> to \<open>l - 1\<close> are outstanding, counted from the number \<open>a\<close>.\<close>

definition numbered :: "u32 \<Rightarrow> nat \<Rightarrow> nat \<Rightarrow> 'a i915_dev_scheme \<Rightarrow> bool" where
  "numbered a m l d \<longleftrightarrow> request_list d = map (num a) [m..<l] \<and> next_gem_seqno d = num a l \<and> m \<le> l"





text \<open>The GPU has executed the first \<open>k\<close> requests now, and goes on to at most \<open>n\<close>.\<close>

definition gpu_runs :: "u32 \<Rightarrow> nat \<Rightarrow> nat \<Rightarrow> gpu_env \<Rightarrow> bool" where
  "gpu_runs a n k e \<longleftrightarrow>
     (\<exists>ks. sorted (k # ks) \<and> (\<forall>k\<in>set (k # ks). k \<le> n) \<and>
        list_all2 (executed a) (k # ks) (map tn_seqno (ge_now e # ge_later e)))"

lemma gpu_runs_ring [simp]: "gpu_runs a n k (e\<lparr>ge_ring := rs\<rparr>) = gpu_runs a n k e" "gpu_runs a n k (e\<lparr>ge_mem := ms\<rparr>) = gpu_runs a n k e"
  by (simp_all add: gpu_runs_def)







section \<open>What a wait leaves\<close>

text \<open>An object is as it was, or it was active and is retired.\<close>

definition passes :: "'a i915_dev_scheme \<Rightarrow> 'a i915_dev_scheme \<Rightarrow> nat \<Rightarrow> bool" where
  "passes d d' i \<longleftrightarrow>
     iobj d' i = iobj d i \<and> objs d' i = objs d i \<or>
     current_list (iobj d i) = Some ACTIVE_LIST \<and> released d d' i \<and> (objs d' i \<noteq> None \<longrightarrow> keeps_place d d' i)"

lemma mm_inv_wedged [simp]: "mm_inv (d\<lparr>wedged := w\<rparr>) = mm_inv d"
proof -
  have "obj_fine i (d\<lparr>wedged := w\<rparr>) = obj_fine i d" for i
    by (cases "objs d i") (auto simp: obj_fine_def)
  moreover have "seq_pos (d\<lparr>wedged := w\<rparr>) = seq_pos d"
    by (simp add: fun_eq_iff seq_pos_def seq_base_def)
  ultimately show ?thesis
    by (simp add: mm_inv_def lists_ok_def writes_ok_def seqs_ok_def seq_base_def has_obj_flag_def)
qed

lemma numbered_wedged [simp]: "numbered a m l (d\<lparr>wedged := w\<rparr>) = numbered a m l d"
  by (simp add: numbered_def)




lemma passes_refl [simp]: "passes d d i" "fences_kept d d"
  by (simp_all add: passes_def fences_kept_def)







section \<open>Flushing an object\<close>


section \<open>Coming to rest\<close>



lemma cpu_gtt_domains: "w \<in> {0, I915_GEM_DOMAIN_CPU, I915_GEM_DOMAIN_GTT} \<Longrightarrow> w AND I915_GEM_GPU_DOMAINS = 0"
  by (auto simp: I915_GEM_GPU_DOMAINS_def I915_GEM_DOMAIN_CPU_def I915_GEM_DOMAIN_GTT_def)





section \<open>Out of the aperture\<close>
















end
