(* ===== verification/I915_Unreferenced.thy ===== *)
theory I915_Unreferenced
  imports I915_Wait
begin

text \<open>
  A batch of \<^verbatim>\<open>i915_drv.c\<close> with an object to which no relocation leads, and which the CPU wrote to last:
  execution takes the domain of the CPU for one the GPU writes in, and the object never becomes idle.
\<close>

section \<open>Execution\<close>





section \<open>Retirement\<close>



section \<open>Leaving the aperture\<close>









end
