(* ===== verification/Spec2Isabelle.thy ===== *)
theory Spec2Isabelle
  imports Lock_Protocol Gem_Props Vblank_Props Agp_Aperture Maps_Sarea Agpsup_Claims Bufs_Claims Drv_Close I915_Unreferenced
begin

text \<open>
  A model of the machine-independent DRM (direct rendering manager) of the NetBSD kernel, in
  \<^verbatim>\<open>src/src/sys/dev/pci/drm\<close>, and of the AGP driver below it, in \<^verbatim>\<open>src/src/sys/dev/pci\<close>.

  \<^bold>\<open>The program.\<close> A hardware driver attaches a DRM device to its PCI device. Clients open it, each
  open being a file with a minor number, and talk to it by ioctls. The first client must be the
  superuser and becomes the master; it builds the maps, contexts, AGP memory and DMA buffers that
  all clients share and authenticates the others by the magic numbers they present. The clients
  share the graphics hardware through a lock word in shared memory (the SAREA), pass buffer objects
  (GEM) between each other by name, and wait for vertical blanks. \<^verbatim>\<open>drmioctl\<close> calls the component a
  command belongs to; the first open and the last close set the device up and take it down.

  \<^bold>\<open>State.\<close> \<^verbatim>\<open>struct drm_device\<close> is one record that grows from theory to theory by extension:
  \<open>lock_dev\<close> (the lock), \<open>ctx_dev\<close> (contexts), \<open>file_dev\<close> (files, counters), the record of GEM,
  \<open>irq_dev\<close> (vertical blanks), \<open>bus_dev\<close> (maps, AGP, scatter-gather, DMA) and \<open>drv_dev\<close>. An
  operation takes the device and returns an \<open>outcome\<close>: \<open>Ret\<close> with the errno and the new device, \<open>Panic\<close>
  for a failed KASSERT, a NULL dereference, a lock taken twice or an array left, or \<open>Asleep\<close>.
  Integers have the width of the source where it matters. Splay trees are association lists sorted
  by key. Allocated memory is a multiset of resources, so that a leak and a double release show.
  What sleeps or releases a lock is given as arguments what others do meanwhile: lists of lock words
  or of state changes, one for each turn of a loop, so that the fuel of a waiting loop is their
  number and \<open>Asleep\<close> says that it still waits.

  \<^bold>\<open>Theories.\<close>
  \<^item> \<open>Prelude\<close>, \<open>Id_Pool\<close>: integer types, errors, outcomes, splay trees; the contract (a locale) of
    whatever hands out numbers, interpreted on context numbers, handles and names.
  \<^item> \<open>Drm_Atomic\<close>, \<open>Drm_Lock\<close>, \<open>Drm_Context\<close>, \<open>Lock_Protocol\<close>: the bit arrays of \<^verbatim>\<open>drm_atomic.h\<close>, the
    lock of \<^verbatim>\<open>drm_lock.c\<close> with the fast path of \<^verbatim>\<open>xf86drm.h\<close>, contexts of \<^verbatim>\<open>drm_context.c\<close>; the lock as a
    step relation of clients: mutual exclusion and no lost wakeup.
  \<^item> \<open>Drm_File\<close>, \<open>Drm_Gem\<close>, \<open>Gem_*\<close>: files and drivers; objects, handles and names (\<^verbatim>\<open>drm_drv.c\<close>), their
    reference counts, accounting, and the transition system of GEM calls.
  \<^item> \<open>Drm_Irq\<close>, \<open>Vblank_*\<close>: \<^verbatim>\<open>drm_irq.c\<close>, \<^verbatim>\<open>drmread\<close> and \<^verbatim>\<open>drmpoll\<close>: references of crtcs, event queues
    and their delivery, over any sequence of operations.
  \<^item> \<open>Bus_Dma\<close>, \<open>Drm_Bus\<close>, \<open>Drm_Maps\<close>, \<open>Bus_Inv\<close>, \<open>Maps_*\<close>: DMA memory (\<^verbatim>\<open>drm_memory.c\<close> and the callers of
    bus_dma(9)), maps (\<^verbatim>\<open>drm_bufs.c\<close>), scatter-gather memory (\<^verbatim>\<open>drm_scatter.c\<close>), \<^verbatim>\<open>drmmmap\<close>; what a device
    owns, regions that never overlap, access control of mappings.
  \<^item> \<open>Agp*\<close>: the AGP driver \<^verbatim>\<open>agp.c\<close> with six chipset drivers, its requests from \<^verbatim>\<open>/dev/agp\<close>, what a
    bind writes to the translation table; the locale \<open>gart\<close> is the contract between \<^verbatim>\<open>agp.c\<close> and a
    chipset driver.
  \<^item> \<open>Drm_Agpsup\<close>, \<open>Agpsup_*\<close>: AGP memory of clients (\<^verbatim>\<open>drm_agpsupport.c\<close>) over the locale
    \<open>agp_backend\<close>, the contract of the AGP driver, interpreted on the model of \<^verbatim>\<open>agp.c\<close>.
  \<^item> \<open>Drm_Bufs\<close>, \<open>Bufs_*\<close>: DMA buffers (\<^verbatim>\<open>drm_bufs.c\<close>).
  \<^item> \<open>Drm_Drv\<close>, \<open>Drv_*\<close>: the rest of \<^verbatim>\<open>drm_drv.c\<close>: attach, detach, open, close and the ioctl dispatch;
    the locales \<open>blind\<close>, \<open>client\<close> and \<open>viewer\<close> are the contracts of an observation of the device that a
    group of operations does not change; with them the privileges of clients, the tracing of
    authentication through a session, and what the last close leaves.
  \<^item> \<open>I915_Word\<close>, \<open>I915_Ring\<close>, \<open>I915_Fence\<close>, \<open>I915_Swizzle\<close>: the parts of the hardware driver \<^verbatim>\<open>i915_drv.c\<close> that
    do not lean on the rest of it: the ring of commands as a queue the GPU reads, the tiling tests and
    the fence registers of every chip of \<^verbatim>\<open>inteldrm_pciidlist\<close>, and the swizzling of swapped pages. What
    the GPU does is a list of readings, so that the waiting loop of the ring has their number as fuel.
  \<^item> \<open>I915_Mm\<close>, \<open>I915_Retire\<close>, \<open>I915_Exec\<close>: the memory manager of the same driver: the active, flushing and
    inactive lists with the sequence number of the last use of every object, the requests written to
    the ring, retirement (the loop over the requests, proved to finish exactly the work the GPU has
    done and to keep the lists consistent), and the second half of \<^verbatim>\<open>i915_gem_execbuffer2\<close>, which
    computes the caches to flush, emits flush, batch and request in this order and leaves every object
    tracked under the new number. The loops walk finite lists, whose length is their fuel; the lists do
    not change between two steps of one retirement, where the code drops its spin locks.
  \<^item> \<open>I915_Domain\<close>, \<open>I915_Wait\<close>: waiting for the GPU, moving an object to the domain of the CPU or of the
    aperture, fence registers given away and got, and taking an object out of the aperture
    (\<^verbatim>\<open>i915_gem_object_unbind\<close>). What the status page holds is a list of turns, the fuel of the waiting
    loop. A small logic of outcomes (\<open>runs\<close>) says what a call ends with; it shows that an object that
    is taken out is idle, belongs to the CPU and is on no list, for an object whose
    domains, flags and list agree (\<open>settled\<close>) and a GPU whose numbers only go forward (\<open>gpu_runs\<close>). The
    enabling of the interrupt, page tables and DMA maps are left out. \<open>I915_Unreferenced\<close> shows an
    execution after which an object is not settled, and that taking it out then fails an assertion.

  \<^bold>\<open>Parameters.\<close> bus_dma(9), extent(9), MTRRs, bus_space, uvm, copyin/copyout and malloc are functions
  in the records \<open>bus_dma\<close>, \<open>kern\<close> and \<open>drm_sys\<close>; the callbacks of the hardware driver are in
  \<open>drm_driver_info\<close>; PCI configuration space and \<^verbatim>\<open>pcireg.h\<close> are parameters of the AGP drivers. What a
  theorem assumes of them is a named hypothesis (\<open>extent_law\<close>, \<open>mtrr_law\<close>, \<open>calm\<close>, \<open>calm_sys\<close>,
  \<open>irq_frame\<close>, \<open>keeps_roles\<close>, \<open>lone_close\<close>, \<open>frees_idle\<close>, \<open>gpu_runs\<close>) and each is met by a concrete kernel and driver
  in the witness.

  \<^bold>\<open>Not modelled.\<close> The rest of the hardware driver \<^verbatim>\<open>i915_*\<close> (binding and eviction of
  objects, relocation, the overlay, interrupts, suspend),
  \<^verbatim>\<open>agp_i810.c\<close> and \<^verbatim>\<open>agp_apple.c\<close>, the attach functions of the AGP drivers (probing of PCI configuration), \<^verbatim>\<open>agp_generic_enable\<close> (its mode word is laid out by a header
  outside the repository), the rest of \<^verbatim>\<open>bus_dma.c\<close> and \<^verbatim>\<open>pmap.c\<close> (machine code of NetBSD the port
  patches), libdrm apart from its lock, the X drivers and Mesa, and the OpenBSD copies of all these,
  from which the port was made.
\<close>

end
